(* ===== verification/Go_Prelude.thy ===== *)
theory Go_Prelude
  imports Main "HOL-Library.Word" "HOL-Library.Multiset" "HOL-Library.List_Lexorder"
    "HOL-Library.Code_Target_Nat"
begin

text \<open>
  Shared vocabulary of the development: Go byte slices and strings as lists of bytes, error
  values (wrapped sentinels) and panics as a sum type with its bind, the readers of
  \<^verbatim>\<open>bytes.Reader\<close>, big-endian integers of \<^verbatim>\<open>encoding/binary\<close>, the random tape that stands for
  \<^verbatim>\<open>crypto/rand\<close>, the interface of a wire codec (a locale, interpreted on the integer fields),
  and the generic lemmas that the components use.
\<close>

section \<open>Bytes, results and errors\<close>

named_theorems codec_simps \<open>decoders applied to encoded fields\<close>
named_theorems length_simps \<open>lengths of encoded fields\<close>

type_synonym byte = "8 word"
type_synonym bytes = "byte list"

text \<open>A Go error value is the list of the sentinels in its wrap chain; a panic is kept apart.\<close>

datatype 'e go_error = Err "'e list" | Panic

type_synonym ('e, 'a) res = "'e go_error + 'a"

definition rbind :: "'e + 'a \<Rightarrow> ('a \<Rightarrow> 'e + 'b) \<Rightarrow> 'e + 'b" where
  "rbind r f = (case r of Inl e \<Rightarrow> Inl e | Inr x \<Rightarrow> f x)"

lemma rbind_Inl [simp]: "rbind (Inl e) f = Inl e"
  by (simp add: rbind_def)

lemma rbind_Inr [simp]: "rbind (Inr x) f = f x"
  by (simp add: rbind_def)

lemma rbind_eq_Inr: "rbind r f = Inr y \<longleftrightarrow> (\<exists>x. r = Inr x \<and> f x = Inr y)"
  by (cases r) simp_all

lemma rbind_cong [fundef_cong]:
  assumes "r = r'" and "\<And>x. r' = Inr x \<Longrightarrow> f x = g x"
  shows "rbind r f = rbind r' g"
  using assms by (cases r') simp_all

text \<open>\<^verbatim>\<open>fmt.Errorf("%w: ...: %w", s, err)\<close>: the sentinel goes in front of the wrapped error.\<close>

fun wrap :: "'e list \<Rightarrow> ('e, 'a) res \<Rightarrow> ('e, 'a) res" where
  "wrap s (Inl (Err es)) = Inl (Err (s @ es))"
| "wrap s (Inl Panic) = Inl Panic"
| "wrap s (Inr x) = Inr x"

lemma wrap_eq_Inr [simp]: "wrap s r = Inr x \<longleftrightarrow> r = Inr x"
  by (cases "(s, r)" rule: wrap.cases) auto

definition bytes_of_string :: "string \<Rightarrow> bytes" where
  "bytes_of_string s = map of_char s"

lemma length_bytes_of_string [simp]: "length (bytes_of_string s) = length s"
  by (simp add: bytes_of_string_def)

text \<open>The name of a queue in the namespaces of log lines and metrics.\<close>

definition NSQueue :: bytes where "NSQueue = bytes_of_string ''Queue''"

section \<open>Sentinel errors of the protocol package\<close>

datatype d3p_sentinel =
    ErrInvalidPayload
  | ErrProtocolViolation
  | ErrSerialization
  | ErrFragmentation
  | ErrUnknownSuite
  | ErrUnknownSignatureSuite
  | ErrInvalidContextField
  | ErrCryptoFailure

type_synonym 'a d3p_res = "(d3p_sentinel, 'a) res"

section \<open>Readers\<close>

text \<open>
  A \<^verbatim>\<open>bytes.Reader\<close> is the list of the unread bytes; \<^verbatim>\<open>io.ReadFull\<close>, \<^verbatim>\<open>binary.Read\<close> and
  \<^verbatim>\<open>ReadByte\<close> take bytes off its front or fail with an EOF error, which wraps no sentinel of
  the program.
\<close>

definition read_full :: "nat \<Rightarrow> bytes \<Rightarrow> (bytes \<times> bytes) d3p_res" where
  "read_full n buf = (if n \<le> length buf then Inr (take n buf, drop n buf) else Inl (Err []))"

fun read_byte :: "bytes \<Rightarrow> (byte \<times> bytes) d3p_res" where
  "read_byte [] = Inl (Err [])"
| "read_byte (b # buf) = Inr (b, buf)"

lemma read_full_append [codec_simps]: "length bs = n \<Longrightarrow> read_full n (bs @ rest) = Inr (bs, rest)"
  by (simp add: read_full_def)

lemma read_full_eq_Inr: "read_full n buf = Inr (bs, rest) \<longleftrightarrow> buf = bs @ rest \<and> length bs = n"
  by (auto simp: read_full_def)

lemma read_byte_eq_Inr: "read_byte buf = Inr (b, rest) \<longleftrightarrow> buf = b # rest"
  by (cases buf) auto

section \<open>Big-endian integers\<close>

fun be :: "nat \<Rightarrow> nat \<Rightarrow> bytes" where
  "be 0 v = []"
| "be (Suc n) v = be n (v div 256) @ [of_nat v]"

definition be_val :: "bytes \<Rightarrow> nat" where
  "be_val bs = foldl (\<lambda>a b. a * 256 + unat b) 0 bs"

lemma byte_less: "unat (b :: byte) < 256"
  using unsigned_less [of b] by simp

lemma length_be [simp, length_simps]: "length (be n v) = n"
  by (induction n arbitrary: v) auto

lemma be_val_Nil [simp]: "be_val [] = 0"
  by (simp add: be_val_def)

lemma be_val_snoc [simp]: "be_val (bs @ [b]) = be_val bs * 256 + unat b"
  by (simp add: be_val_def)

lemma be_val_be: "be_val (be n v) = v mod 256 ^ n"
proof (induction n arbitrary: v)
  case 0
  then show ?case by simp
next
  case (Suc n)
  have "unat (of_nat v :: byte) = v mod 256"
    by (simp add: unat_of_nat)
  with Suc show ?case
    by (simp add: mod_mult2_eq)
qed

lemma be_val_less: "be_val bs < 256 ^ length bs"
proof (induction bs rule: rev_induct)
  case Nil
  then show ?case by simp
next
  case (snoc b bs)
  have "unat b < 256"
    by (rule byte_less)
  with snoc show ?case by simp
qed

lemma be_be_val: "be (length bs) (be_val bs) = bs"
proof (induction bs rule: rev_induct)
  case Nil
  then show ?case by simp
next
  case (snoc b bs)
  have b: "unat b < 256"
    by (rule byte_less)
  then have "(be_val bs * 256 + unat b) div 256 = be_val bs"
    by simp
  moreover have "(of_nat (be_val bs * 256 + unat b) :: byte) = b"
  proof -
    have "unat (of_nat (be_val bs * 256 + unat b) :: byte) = (be_val bs * 256 + unat b) mod 256"
      by (simp only: unat_of_nat) simp
    with b show ?thesis by (simp add: word_unat_eq_iff del: of_nat_add of_nat_mult)
  qed
  ultimately show ?case
    using snoc by simp
qed

section \<open>The interface of a wire field\<close>

text \<open>
  A codec writes a value as bytes and reads it back off the front of a byte sequence, returning
  what is left. Both directions are promised: what was written is read back (whatever follows
  it), and what was read had been written. A client of the interface may conclude that encodings
  are unambiguous: no two different values can start the same byte sequence.
\<close>

locale wire_codec =
  fixes enc :: "'a \<Rightarrow> bytes"
    and dec :: "bytes \<Rightarrow> ('a \<times> bytes) d3p_res"
    and valid :: "'a \<Rightarrow> bool"
  assumes dec_enc: "valid x \<Longrightarrow> dec (enc x @ rest) = Inr (x, rest)"
    and dec_sound: "dec bs = Inr (x, rest) \<Longrightarrow> bs = enc x @ rest \<and> valid x"
begin

lemma enc_prefix_free:
  assumes "valid x" and "valid y" and "enc x @ xs = enc y @ ys"
  shows "x = y \<and> xs = ys"
proof -
  have "Inr (x, xs) = dec (enc x @ xs)"
    using assms(1) by (rule dec_enc [symmetric])
  also have "\<dots> = dec (enc y @ ys)"
    by (simp only: assms(3))
  also have "\<dots> = Inr (y, ys)"
    using assms(2) by (rule dec_enc)
  finally show ?thesis by simp
qed

lemma enc_inj: "valid x \<Longrightarrow> valid y \<Longrightarrow> enc x = enc y \<Longrightarrow> x = y"
  using enc_prefix_free [of x y "[]" "[]"] by simp

lemma dec_shorter: "dec bs = Inr (x, rest) \<Longrightarrow> length rest \<le> length bs"
  by (auto dest: dec_sound)

end

text \<open>The unsigned integers of \<^verbatim>\<open>binary.Write\<close> and \<^verbatim>\<open>binary.Read\<close> in big-endian order.\<close>

definition put_uint8 :: "8 word \<Rightarrow> bytes" where
  "put_uint8 w = [w]"

definition put_uint16 :: "16 word \<Rightarrow> bytes" where
  "put_uint16 w = be 2 (unat w)"

definition put_uint32 :: "32 word \<Rightarrow> bytes" where
  "put_uint32 w = be 4 (unat w)"

definition put_uint64 :: "64 word \<Rightarrow> bytes" where
  "put_uint64 w = be 8 (unat w)"

definition read_uint :: "nat \<Rightarrow> bytes \<Rightarrow> ('w::len word \<times> bytes) d3p_res" where
  "read_uint n buf = rbind (read_full n buf) (\<lambda>(bs, rest). Inr (of_nat (be_val bs), rest))"

abbreviation read_uint16 :: "bytes \<Rightarrow> (16 word \<times> bytes) d3p_res" where
  "read_uint16 \<equiv> read_uint 2"

abbreviation read_uint32 :: "bytes \<Rightarrow> (32 word \<times> bytes) d3p_res" where
  "read_uint32 \<equiv> read_uint 4"

abbreviation read_uint64 :: "bytes \<Rightarrow> (64 word \<times> bytes) d3p_res" where
  "read_uint64 \<equiv> read_uint 8"

lemma length_put_uint [simp, length_simps]:
  "length (put_uint8 a) = 1" "length (put_uint16 b) = 2"
  "length (put_uint32 c) = 4" "length (put_uint64 d) = 8"
  by (simp_all add: put_uint8_def put_uint16_def put_uint32_def put_uint64_def)

lemma read_uint_be:
  assumes "256 ^ n = (2::nat) ^ LENGTH('w::len)"
  shows "read_uint n (be n (unat (w :: 'w word)) @ rest) = Inr (w, rest)"
proof -
  have "unat w < 256 ^ n"
    using assms unsigned_less [of w] by simp
  then show ?thesis
    by (simp add: read_uint_def read_full_append be_val_be)
qed

lemma read_uint_sound:
  assumes "256 ^ n = (2::nat) ^ LENGTH('w::len)"
    and "read_uint n bs = Inr (w :: 'w word, rest)"
  shows "bs = be n (unat w) @ rest"
proof -
  from assms(2) obtain hs where hs: "bs = hs @ rest" "length hs = n" and w: "w = of_nat (be_val hs)"
    by (auto simp: read_uint_def rbind_eq_Inr read_full_eq_Inr)
  have "be_val hs < 2 ^ LENGTH('w)"
    using be_val_less [of hs] hs(2) assms(1) by simp
  then have "unat w = be_val hs"
    using w by (simp add: unat_of_nat)
  with hs be_be_val [of hs] show ?thesis by simp
qed

interpretation u8: wire_codec put_uint8 read_byte "\<lambda>_. True"
  by unfold_locales (auto simp: put_uint8_def read_byte_eq_Inr)

interpretation u16: wire_codec put_uint16 read_uint16 "\<lambda>_. True"
  by unfold_locales (auto simp: put_uint16_def read_uint_be dest: read_uint_sound [rotated])

interpretation u32: wire_codec put_uint32 read_uint32 "\<lambda>_. True"
  by unfold_locales (auto simp: put_uint32_def read_uint_be dest: read_uint_sound [rotated])

interpretation u64: wire_codec put_uint64 read_uint64 "\<lambda>_. True"
  by unfold_locales (auto simp: put_uint64_def read_uint_be dest: read_uint_sound [rotated])

lemmas uint_dec_enc [codec_simps] =
  u8.dec_enc [simplified] u16.dec_enc [simplified] u32.dec_enc [simplified] u64.dec_enc [simplified]

section \<open>Randomness\<close>

text \<open>
  \<^verbatim>\<open>crypto/rand\<close> is a tape of draws that the callers thread; an exhausted tape is a failing
  entropy source. \<^verbatim>\<open>rand.Int\<close> returns a value in the half-open range below its bound and
  \<^verbatim>\<open>rand.Read\<close> fills a slice.
\<close>

type_synonym tape = "nat list"

fun rand_Int :: "int \<Rightarrow> tape \<Rightarrow> (int \<times> tape) d3p_res" where
  "rand_Int bound [] = Inl (Err [])"
| "rand_Int bound (d # ds) = Inr (int d mod bound, ds)"

definition rand_Read :: "nat \<Rightarrow> tape \<Rightarrow> (bytes \<times> tape) d3p_res" where
  "rand_Read n tp = (if n \<le> length tp then Inr (map of_nat (take n tp), drop n tp) else Inl (Err []))"

lemma rand_Read_eq_Inr:
  "rand_Read n tp = Inr (bs, tp') \<Longrightarrow> length bs = n \<and> tp' = drop n tp"
  by (auto simp: rand_Read_def split: if_splits)

end
