(* ===== verification/Crypto_Registry.thy ===== *)
theory Crypto_Registry
  imports Go_Prelude
begin

text \<open>
  The cryptographic building blocks of \<^verbatim>\<open>internal/crypto\<close> (memory, random, ecdh, hash, hkdf,
  aead) and the suite registry of \<^verbatim>\<open>pkg/crypto/registry\<close>. The primitives themselves (X25519,
  SHA-512, HKDF, ChaCha20-Poly1305, Ed25519) are library code outside the repository: they are the
  fields of a record that the definitions take as an argument, and their documented behaviour is
  the predicates \<open>x25519_ok\<close>, \<open>chacha_ok\<close> and \<open>ed25519_ok\<close>. Zeroing of key material after use does not change any returned value
  and is left out, except where the zeroed slice is returned.
\<close>

section \<open>Primitives\<close>

record crypto_prims =
  X25519 :: "bytes \<Rightarrow> bytes \<Rightarrow> bytes option"
  Basepoint :: bytes
  SHA512 :: "bytes \<Rightarrow> bytes"
  HKDF_SHA512 :: "bytes \<Rightarrow> bytes \<Rightarrow> bytes \<Rightarrow> nat \<Rightarrow> bytes option"
  ChaCha_Seal :: "bytes \<Rightarrow> bytes \<Rightarrow> bytes \<Rightarrow> bytes \<Rightarrow> bytes"
  ChaCha_Open :: "bytes \<Rightarrow> bytes \<Rightarrow> bytes \<Rightarrow> bytes \<Rightarrow> bytes option"
  Ed_Sign :: "bytes \<Rightarrow> bytes \<Rightarrow> bytes"
  Ed_Verify :: "bytes \<Rightarrow> bytes \<Rightarrow> bytes \<Rightarrow> bool"
  Ed_KeyFromSeed :: "bytes \<Rightarrow> bytes"
  Ed_Public :: "bytes \<Rightarrow> bytes"

definition opt_res :: "'a option \<Rightarrow> ('a) d3p_res" where
  "opt_res r = (case r of None \<Rightarrow> Inl (Err []) | Some x \<Rightarrow> Inr x)"

lemma opt_res_simps [simp]: "opt_res None = Inl (Err [])" "opt_res (Some x) = Inr x"
  by (simp_all add: opt_res_def)

lemma opt_res_eq_Inr [simp]: "opt_res r = Inr x \<longleftrightarrow> r = Some x"
  by (cases r) simp_all

definition ScalarSize :: nat where "ScalarSize = 32"
definition ChaChaNonceSize :: nat where "ChaChaNonceSize = 12"
definition ChaChaOverhead :: nat where "ChaChaOverhead = 16"
definition ChaChaKeySize :: nat where "ChaChaKeySize = 32"
definition EdPrivateKeySize :: nat where "EdPrivateKeySize = 64"
definition EdPublicKeySize :: nat where "EdPublicKeySize = 32"
definition EdSignatureSize :: nat where "EdSignatureSize = 64"
definition EdSeedSize :: nat where "EdSeedSize = 32"

lemmas crypto_sizes = ScalarSize_def ChaChaNonceSize_def ChaChaOverhead_def ChaChaKeySize_def
  EdPrivateKeySize_def EdPublicKeySize_def EdSignatureSize_def EdSeedSize_def

section \<open>internal/crypto/memory.go\<close>

definition Memzero :: "bytes \<Rightarrow> bytes" where
  "Memzero s = map (\<lambda>_. 0) s"

fun IsZero :: "bytes \<Rightarrow> bool" where
  "IsZero [] = True"
| "IsZero (b # bs) = (if b \<noteq> 0 then False else IsZero bs)"

lemma IsZero_iff: "IsZero s \<longleftrightarrow> set s \<subseteq> {0}"
  by (induction s) auto

lemma IsZero_Memzero [simp]: "IsZero (Memzero s)"
  by (auto simp: IsZero_iff Memzero_def)

section \<open>internal/crypto/random/generate.go\<close>

definition FourByte :: "tape \<Rightarrow> (int \<times> tape) d3p_res" where
  "FourByte tp = rbind (rand_Read 4 tp) (\<lambda>(b, tp'). Inr (int (be_val b), tp'))"

fun isAllIdentical :: "bytes \<Rightarrow> bool" where
  "isAllIdentical [] = True"
| "isAllIdentical (first # rest) = list_all (\<lambda>b. b = first) rest"

definition isAllZero :: "bytes \<Rightarrow> bool" where
  "isAllZero s = list_all (\<lambda>b. b = 0) s"

text \<open>The slice header stays the caller's: a non-empty slice is refilled in place.\<close>

definition PopulateEmptySlice :: "bytes \<Rightarrow> nat \<Rightarrow> tape \<Rightarrow> (bytes \<times> tape) d3p_res" where
  "PopulateEmptySlice s sz tp =
     (let s' = (if length s = 0 then replicate sz 0 else s)
      in if isAllIdentical s' \<or> isAllZero s' then rand_Read (length s') tp else Inr (s', tp))"

definition NumberInRange :: "int \<Rightarrow> int \<Rightarrow> tape \<Rightarrow> (int \<times> tape) d3p_res" where
  "NumberInRange mn mx tp =
     (if mn > mx then Inl (Err [])
      else rbind (rand_Int (mx - mn + 1) tp) (\<lambda>(n, tp'). Inr (n + mn, tp')))"

lemma NumberInRange_bounds:
  assumes "NumberInRange mn mx tp = Inr (n, tp')"
  shows "mn \<le> n \<and> n \<le> mx \<and> tp = hd tp # tp'"
proof -
  from assms have le: "mn \<le> mx"
    by (auto simp: NumberInRange_def split: if_splits)
  with assms obtain d where "tp = d # tp'" and n: "n = int d mod (mx - mn + 1) + mn"
    by (cases tp) (auto simp: NumberInRange_def)
  moreover have "0 \<le> int d mod (mx - mn + 1)" and "int d mod (mx - mn + 1) < mx - mn + 1"
    using le by (simp_all add: pos_mod_bound del: zle_add1_eq_le)
  ultimately show ?thesis by simp
qed

lemma NumberInRange_total: "mn \<le> mx \<Longrightarrow> \<exists>n. NumberInRange mn mx (d # tp) = Inr (n, tp)"
  by (simp add: NumberInRange_def)

section \<open>internal/crypto/ecdh/x25519.go\<close>

definition DerivePersistentPublicKey :: "crypto_prims \<Rightarrow> bytes \<Rightarrow> (bytes) d3p_res" where
  "DerivePersistentPublicKey P private = opt_res (X25519 P private (Basepoint P))"

definition CreatePersistentKey :: "crypto_prims \<Rightarrow> tape \<Rightarrow> ((bytes \<times> bytes) \<times> tape) d3p_res" where
  "CreatePersistentKey P tp =
     rbind (rand_Read ScalarSize tp) (\<lambda>(private, tp').
     rbind (DerivePersistentPublicKey P private) (\<lambda>public.
     Inr ((private, public), tp')))"

definition CreateSharedSecret ::
  "crypto_prims \<Rightarrow> bytes \<Rightarrow> tape \<Rightarrow> ((bytes \<times> bytes) \<times> tape) d3p_res" where
  "CreateSharedSecret P publicKey tp =
     rbind (rand_Read ScalarSize tp) (\<lambda>(ephemeralPriv, tp').
     rbind (opt_res (X25519 P ephemeralPriv (Basepoint P))) (\<lambda>ephemeralPublic.
     rbind (opt_res (X25519 P ephemeralPriv publicKey)) (\<lambda>sharedSecret.
     Inr ((sharedSecret, ephemeralPublic), tp'))))"

definition ReCreateSharedSecret :: "crypto_prims \<Rightarrow> bytes \<Rightarrow> bytes \<Rightarrow> (bytes) d3p_res" where
  "ReCreateSharedSecret P privateKey ephemeralPublic =
     opt_res (X25519 P privateKey ephemeralPublic)"

section \<open>internal/crypto/hash, hkdf and aead\<close>

definition MultipleSlices :: "crypto_prims \<Rightarrow> bytes list \<Rightarrow> bytes" where
  "MultipleSlices P inputs = SHA512 P (concat inputs)"

definition DeriveKey :: "crypto_prims \<Rightarrow> bytes \<Rightarrow> bytes \<Rightarrow> bytes \<Rightarrow> nat \<Rightarrow> (bytes) d3p_res" where
  "DeriveKey P secret salt namespace keySize =
     opt_res (HKDF_SHA512 P secret salt namespace keySize)"

text \<open>
  The nonce may be refilled in place, so the caller sees the nonce that was used.
\<close>

definition aead_Encrypt ::
  "crypto_prims \<Rightarrow> bytes \<Rightarrow> bytes \<Rightarrow> bytes \<Rightarrow> bytes \<Rightarrow> tape \<Rightarrow> ((bytes \<times> bytes) \<times> tape) d3p_res" where
  "aead_Encrypt P plaintext key nonce additional tp =
     rbind (PopulateEmptySlice nonce ChaChaNonceSize tp) (\<lambda>(nonce', tp').
     if length key \<noteq> ChaChaKeySize then Inl (Err [])
     else Inr ((ChaCha_Seal P key nonce' plaintext additional, nonce'), tp'))"

definition aead_Decrypt ::
  "crypto_prims \<Rightarrow> bytes \<Rightarrow> bytes \<Rightarrow> bytes \<Rightarrow> bytes \<Rightarrow> (bytes) d3p_res" where
  "aead_Decrypt P ciphertext key nonce additional =
     (if length key \<noteq> ChaChaKeySize then Inl (Err [])
      else opt_res (ChaCha_Open P key nonce ciphertext additional))"

section \<open>pkg/crypto/registry\<close>

definition SuiteIDLen :: nat where "SuiteIDLen = 1"

definition NoSigName :: bytes where "NoSigName = bytes_of_string ''NoSignature''"

definition DefaultCryptoName :: bytes where
  "DefaultCryptoName = bytes_of_string ''x25519-hkdf-chacha20poly1305''"

record SuiteInfo =
  si_Name :: bytes
  KeySize :: nat
  NonceSize :: nat
  CipherOverhead :: nat
  si_ValidateKey :: "bytes \<Rightarrow> unit d3p_res"
  si_NewKey :: "tape \<Rightarrow> ((bytes \<times> bytes) \<times> tape) d3p_res"
  si_DerivePublicKey :: "(bytes \<Rightarrow> bytes d3p_res) option"
  si_Encrypt :: "bytes \<Rightarrow> bytes \<Rightarrow> tape \<Rightarrow> ((bytes \<times> bytes \<times> bytes) \<times> tape) d3p_res"
  si_Decrypt :: "bytes \<Rightarrow> bytes \<Rightarrow> bytes \<Rightarrow> bytes \<Rightarrow> bytes d3p_res"

record SigInfo =
  sg_Name :: bytes
  MinSignatureLength :: nat
  MaxSignatureLength :: nat
  sg_ValidateKey :: "bytes \<Rightarrow> unit d3p_res"
  sg_NewKey :: "tape \<Rightarrow> ((bytes \<times> bytes) \<times> tape) d3p_res"
  sg_Sign :: "bytes \<Rightarrow> bytes \<Rightarrow> bytes d3p_res"
  sg_Verify :: "bytes \<Rightarrow> bytes \<Rightarrow> bytes \<Rightarrow> bool"

definition testEphPub :: bytes where "testEphPub = bytes_of_string ''public''"
definition testNonce :: bytes where "testNonce = bytes_of_string ''nonce''"

lemma length_testing [simp]: "length testEphPub = 6" "length testNonce = 5"
  by (simp_all add: testEphPub_def testNonce_def)

definition suite0_Encrypt ::
  "bytes \<Rightarrow> bytes \<Rightarrow> tape \<Rightarrow> ((bytes \<times> bytes \<times> bytes) \<times> tape) d3p_res" where
  "suite0_Encrypt publicKey payload tp = Inr ((payload, testEphPub, testNonce), tp)"

definition suite0_Decrypt :: "bytes \<Rightarrow> bytes \<Rightarrow> bytes \<Rightarrow> bytes \<Rightarrow> bytes d3p_res" where
  "suite0_Decrypt privateKey ciphertext ephemeralPub nonce =
     (if ephemeralPub \<noteq> testEphPub then Inl (Err [])
      else if nonce \<noteq> testNonce then Inl (Err [])
      else Inr ciphertext)"

definition cryptoSuite0 :: SuiteInfo where
  "cryptoSuite0 = \<lparr>
     si_Name = bytes_of_string ''testing'',
     KeySize = length testEphPub,
     NonceSize = length testNonce,
     CipherOverhead = 0,
     si_ValidateKey = (\<lambda>key. if length key > 0 then Inl (Err []) else Inr ()),
     si_NewKey = (\<lambda>tp. Inr (([], []), tp)),
     si_DerivePublicKey = None,
     si_Encrypt = suite0_Encrypt,
     si_Decrypt = suite0_Decrypt \<rparr>"

text \<open>
  Suite 1. The salt is hashed from the nonce as drawn, before \<^verbatim>\<open>aead.Encrypt\<close> may refill it.
\<close>

definition suite1_Encrypt ::
  "crypto_prims \<Rightarrow> bytes \<Rightarrow> bytes \<Rightarrow> tape \<Rightarrow> ((bytes \<times> bytes \<times> bytes) \<times> tape) d3p_res" where
  "suite1_Encrypt P publicKey payload tp =
     rbind (CreateSharedSecret P publicKey tp) (\<lambda>((sharedSecret, ephemeralPub), tp1).
     rbind (rand_Read ChaChaNonceSize tp1) (\<lambda>(nonce, tp2).
     let salt = MultipleSlices P [ephemeralPub, nonce] in
     rbind (DeriveKey P sharedSecret salt DefaultCryptoName ChaChaKeySize) (\<lambda>actualKey.
     let aad = [1] @ ephemeralPub in
     rbind (aead_Encrypt P payload actualKey nonce aad tp2) (\<lambda>((ciphertext, nonce'), tp3).
     Inr ((ciphertext, ephemeralPub, nonce'), tp3)))))"

definition suite1_Decrypt ::
  "crypto_prims \<Rightarrow> bytes \<Rightarrow> bytes \<Rightarrow> bytes \<Rightarrow> bytes \<Rightarrow> bytes d3p_res" where
  "suite1_Decrypt P privateKey ciphertext ephemeralPub nonce =
     rbind (ReCreateSharedSecret P privateKey ephemeralPub) (\<lambda>sharedSecret.
     let salt = MultipleSlices P [ephemeralPub, nonce] in
     rbind (DeriveKey P sharedSecret salt DefaultCryptoName ChaChaKeySize) (\<lambda>actualKey.
     let aad = [1] @ ephemeralPub in
     aead_Decrypt P ciphertext actualKey nonce aad))"

definition cryptoSuite1 :: "crypto_prims \<Rightarrow> SuiteInfo" where
  "cryptoSuite1 P = \<lparr>
     si_Name = DefaultCryptoName,
     KeySize = ScalarSize,
     NonceSize = ChaChaNonceSize,
     CipherOverhead = ChaChaOverhead,
     si_ValidateKey = (\<lambda>key. if length key \<noteq> ScalarSize then Inl (Err []) else Inr ()),
     si_NewKey = CreatePersistentKey P,
     si_DerivePublicKey = Some (DerivePersistentPublicKey P),
     si_Encrypt = suite1_Encrypt P,
     si_Decrypt = suite1_Decrypt P \<rparr>"

text \<open>The fixed array of 256 slots.\<close>

definition cryptoSuites :: "crypto_prims \<Rightarrow> 8 word \<Rightarrow> SuiteInfo option" where
  "cryptoSuites P i =
     (if i = 0 then Some cryptoSuite0 else if i = 1 then Some (cryptoSuite1 P) else None)"

definition GetSuiteInfo :: "crypto_prims \<Rightarrow> 8 word \<Rightarrow> SuiteInfo option" where
  "GetSuiteInfo P i = cryptoSuites P i"

fun find_slot :: "(nat \<Rightarrow> bool) \<Rightarrow> nat list \<Rightarrow> 8 word option" where
  "find_slot p [] = None"
| "find_slot p (i # is) = (if p i then Some (of_nat i) else find_slot p is)"

definition SuiteNameToID :: "crypto_prims \<Rightarrow> bytes \<Rightarrow> 8 word option" where
  "SuiteNameToID P name =
     find_slot (\<lambda>i. case cryptoSuites P (of_nat i) of None \<Rightarrow> False
                     | Some s \<Rightarrow> si_Name s = name) [0..<256]"

definition signatureSuite0 :: SigInfo where
  "signatureSuite0 = \<lparr>
     sg_Name = NoSigName,
     MinSignatureLength = 0,
     MaxSignatureLength = 0,
     sg_ValidateKey = (\<lambda>key. if length key > 0 then Inl (Err []) else Inr ()),
     sg_NewKey = (\<lambda>_. Inl (Err [])),
     sg_Sign = (\<lambda>_ _. Inr []),
     sg_Verify = (\<lambda>_ _ _. True) \<rparr>"

definition ed25519_Sign :: "crypto_prims \<Rightarrow> bytes \<Rightarrow> bytes \<Rightarrow> bytes d3p_res" where
  "ed25519_Sign P priv msg =
     (if length priv \<noteq> EdPrivateKeySize then Inl (Err []) else Inr (Ed_Sign P priv msg))"

definition ed25519_Verify :: "crypto_prims \<Rightarrow> bytes \<Rightarrow> bytes \<Rightarrow> bytes \<Rightarrow> bool" where
  "ed25519_Verify P pub msg sig =
     (if length pub \<noteq> EdPublicKeySize \<or> length sig \<noteq> EdSignatureSize then False
      else Ed_Verify P pub msg sig)"

text \<open>A failed seed only sets the error, the body goes on and derives a key from the slice.\<close>

definition ed25519_NewKey :: "crypto_prims \<Rightarrow> tape \<Rightarrow> ((bytes \<times> bytes) \<times> tape) d3p_res" where
  "ed25519_NewKey P tp =
     rbind (PopulateEmptySlice [] EdSeedSize tp) (\<lambda>(newSeed, tp').
     let priv = Ed_KeyFromSeed P newSeed
     in Inr ((priv, Ed_Public P priv), tp'))"

definition signatureSuite1 :: "crypto_prims \<Rightarrow> SigInfo" where
  "signatureSuite1 P = \<lparr>
     sg_Name = bytes_of_string ''ed25519'',
     MinSignatureLength = EdSignatureSize,
     MaxSignatureLength = EdSignatureSize,
     sg_ValidateKey = (\<lambda>key. if length key \<noteq> EdPrivateKeySize then Inl (Err []) else Inr ()),
     sg_NewKey = ed25519_NewKey P,
     sg_Sign = ed25519_Sign P,
     sg_Verify = ed25519_Verify P \<rparr>"

definition signatureSuites :: "crypto_prims \<Rightarrow> 8 word \<Rightarrow> SigInfo option" where
  "signatureSuites P i =
     (if i = 0 then Some signatureSuite0 else if i = 1 then Some (signatureSuite1 P) else None)"

definition GetSignatureInfo :: "crypto_prims \<Rightarrow> 8 word \<Rightarrow> SigInfo option" where
  "GetSignatureInfo P i = signatureSuites P i"

definition SignatureNameToID :: "crypto_prims \<Rightarrow> bytes \<Rightarrow> 8 word option" where
  "SignatureNameToID P name =
     find_slot (\<lambda>i. case signatureSuites P (of_nat i) of None \<Rightarrow> False
                     | Some s \<Rightarrow> sg_Name s = name) [0..<256]"

lemmas registry_defs = GetSuiteInfo_def cryptoSuites_def cryptoSuite0_def cryptoSuite1_def
  GetSignatureInfo_def signatureSuites_def signatureSuite0_def signatureSuite1_def

section \<open>The contract of a cipher suite\<close>

text \<open>
  What the outer payload code relies on: the sizes that the registry advertises are the sizes of
  what the suite produces, and the holder of the private key gets back what was encrypted to the
  public key. The randomness predicate \<open>fresh\<close> excludes draws for which a suite does not promise
  decryption.
\<close>

locale cipher_suite =
  fixes suite :: SuiteInfo
    and keypair :: "bytes \<Rightarrow> bytes \<Rightarrow> bool"
    and fresh :: "tape \<Rightarrow> bool"
  assumes suite_sizes: "si_Encrypt suite pub pt tp = Inr ((ct, eph, nonce), tp') \<Longrightarrow>
      length eph = KeySize suite \<and> length nonce = NonceSize suite \<and>
      length ct = length pt + CipherOverhead suite"
    and suite_decrypts: "keypair priv pub \<Longrightarrow> fresh tp \<Longrightarrow>
      si_Encrypt suite pub pt tp = Inr ((ct, eph, nonce), tp') \<Longrightarrow>
      si_Decrypt suite priv ct eph nonce = Inr pt"
    and suite_tape: "si_Encrypt suite pub pt tp = Inr ((ct, eph, nonce), tp') \<Longrightarrow> \<exists>k. tp' = drop k tp"

interpretation s0: cipher_suite cryptoSuite0 "\<lambda>_ _. True" "\<lambda>_. True"
  by unfold_locales (auto simp: cryptoSuite0_def suite0_Encrypt_def suite0_Decrypt_def intro: exI [of _ 0])

text \<open>The documented behaviour of the primitives that suite 1 and the signature suite rely on.\<close>

definition x25519_ok :: "crypto_prims \<Rightarrow> bool" where
  "x25519_ok P \<longleftrightarrow>
     (\<forall>a b A B s. X25519 P a (Basepoint P) = Some A \<longrightarrow> X25519 P b (Basepoint P) = Some B \<longrightarrow>
        X25519 P a B = Some s \<longrightarrow> X25519 P b A = Some s) \<and>
     (\<forall>a p q. X25519 P a p = Some q \<longrightarrow> length q = ScalarSize)"

definition chacha_ok :: "crypto_prims \<Rightarrow> bool" where
  "chacha_ok P \<longleftrightarrow>
     (\<forall>k n pt aad. length k = ChaChaKeySize \<longrightarrow> length n = ChaChaNonceSize \<longrightarrow>
        length (ChaCha_Seal P k n pt aad) = length pt + ChaChaOverhead \<and>
        ChaCha_Open P k n (ChaCha_Seal P k n pt aad) aad = Some pt)"

definition ed25519_ok :: "crypto_prims \<Rightarrow> bool" where
  "ed25519_ok P \<longleftrightarrow>
     (\<forall>priv msg. length priv = EdPrivateKeySize \<longrightarrow>
        length (Ed_Public P priv) = EdPublicKeySize \<and>
        length (Ed_Sign P priv msg) = EdSignatureSize \<and>
        Ed_Verify P (Ed_Public P priv) msg (Ed_Sign P priv msg))"

definition suite1_keypair :: "crypto_prims \<Rightarrow> bytes \<Rightarrow> bytes \<Rightarrow> bool" where
  "suite1_keypair P priv pub \<longleftrightarrow> X25519 P priv (Basepoint P) = Some pub"

text \<open>
  The draw of the nonce, if there is one, does not consist of one repeated byte: such a nonce is
  drawn again after the salt was computed from it.
\<close>

definition suite1_fresh :: "tape \<Rightarrow> bool" where
  "suite1_fresh tp \<longleftrightarrow> length tp < ScalarSize + ChaChaNonceSize \<or>
     \<not> isAllIdentical (map of_nat (take ChaChaNonceSize (drop ScalarSize tp)))"

lemma isAllZero_isAllIdentical: "isAllZero s \<Longrightarrow> isAllIdentical s"
  by (cases s) (auto simp: isAllZero_def list_all_iff)

lemma PopulateEmptySlice_fresh:
  "\<not> isAllIdentical s \<Longrightarrow> PopulateEmptySlice s n tp = Inr (s, tp)"
  using isAllZero_isAllIdentical [of s]
  by (cases s) (auto simp: PopulateEmptySlice_def Let_def)

lemma PopulateEmptySlice_length:
  "PopulateEmptySlice s n tp = Inr (s', tp') \<Longrightarrow> length s' = (if s = [] then n else length s)"
  by (auto simp: PopulateEmptySlice_def Let_def dest: rand_Read_eq_Inr split: if_splits)

lemma PopulateEmptySlice_tape:
  "PopulateEmptySlice s n tp = Inr (s', tp') \<Longrightarrow> \<exists>k. tp' = drop k tp"
  by (auto simp: PopulateEmptySlice_def Let_def intro: exI [of _ 0] dest: rand_Read_eq_Inr split: if_splits)

lemma suite1_Encrypt_elim:
  assumes "suite1_Encrypt P pub pt tp = Inr ((ct, eph, nonce), tp')"
  obtains esk shared nonce0 key where
    "X25519 P esk (Basepoint P) = Some eph" and "X25519 P esk pub = Some shared"
    and "nonce0 = map of_nat (take ChaChaNonceSize (drop ScalarSize tp))"
    and "length nonce0 = ChaChaNonceSize"
    and "HKDF_SHA512 P shared (SHA512 P (eph @ nonce0)) DefaultCryptoName ChaChaKeySize = Some key"
    and "length key = ChaChaKeySize" and "length nonce = ChaChaNonceSize"
    and "\<not> isAllIdentical nonce0 \<Longrightarrow> nonce = nonce0"
    and "ct = ChaCha_Seal P key nonce pt ([1] @ eph)"
    and "\<exists>k. tp' = drop k tp"
proof -
  from assms obtain shared tp1 nonce0 tp2 key where
    1: "CreateSharedSecret P pub tp = Inr ((shared, eph), tp1)"
    and 2: "rand_Read ChaChaNonceSize tp1 = Inr (nonce0, tp2)"
    and 3: "DeriveKey P shared (MultipleSlices P [eph, nonce0]) DefaultCryptoName ChaChaKeySize = Inr key"
    and 4: "aead_Encrypt P pt key nonce0 ([1] @ eph) tp2 = Inr ((ct, nonce), tp')"
    by (auto simp: suite1_Encrypt_def rbind_eq_Inr Let_def)
  from 1 obtain esk where esk: "X25519 P esk (Basepoint P) = Some eph" "X25519 P esk pub = Some shared"
    and tp1: "tp1 = drop ScalarSize tp"
    by (auto simp: CreateSharedSecret_def rbind_eq_Inr dest: rand_Read_eq_Inr)
  from 2 tp1 have n0: "nonce0 = map of_nat (take ChaChaNonceSize (drop ScalarSize tp))"
    "length nonce0 = ChaChaNonceSize"
    by (auto simp: rand_Read_def split: if_splits)
  have "tp2 = drop (ChaChaNonceSize + ScalarSize) tp"
    using rand_Read_eq_Inr [OF 2] tp1 by simp
  then have tape: "\<exists>k. tp' = drop k tp"
    using 4 by (auto simp: aead_Encrypt_def rbind_eq_Inr dest!: PopulateEmptySlice_tape split: if_splits)
  from n0 have "nonce0 \<noteq> []"
    by (auto simp: crypto_sizes)
  from 4 obtain tp3 where pop: "PopulateEmptySlice nonce0 ChaChaNonceSize tp2 = Inr (nonce, tp3)"
    and k: "length key = ChaChaKeySize" and ct: "ct = ChaCha_Seal P key nonce pt ([1] @ eph)"
    by (auto simp: aead_Encrypt_def rbind_eq_Inr split: if_splits)
  have "length nonce = ChaChaNonceSize"
    using PopulateEmptySlice_length [OF pop] n0(2) \<open>nonce0 \<noteq> []\<close> by simp
  moreover have "\<not> isAllIdentical nonce0 \<Longrightarrow> nonce = nonce0"
    using pop by (simp add: PopulateEmptySlice_fresh)
  moreover have "HKDF_SHA512 P shared (SHA512 P (eph @ nonce0)) DefaultCryptoName ChaChaKeySize = Some key"
    using 3 by (simp add: DeriveKey_def MultipleSlices_def)
  ultimately show thesis
    using that esk n0 k ct tape by blast
qed

lemma suite1_cipher_suite:
  assumes "x25519_ok P" and "chacha_ok P"
  shows "cipher_suite (cryptoSuite1 P) (suite1_keypair P) suite1_fresh"
proof
  fix pub pt tp ct eph nonce tp'
  assume "si_Encrypt (cryptoSuite1 P) pub pt tp = Inr ((ct, eph, nonce), tp')"
  then have e: "suite1_Encrypt P pub pt tp = Inr ((ct, eph, nonce), tp')"
    by (simp add: cryptoSuite1_def)
  obtain esk shared nonce0 key where x: "X25519 P esk (Basepoint P) = Some eph"
    and xs: "X25519 P esk pub = Some shared"
    and n0: "nonce0 = map of_nat (take ChaChaNonceSize (drop ScalarSize tp))"
    and l0: "length nonce0 = ChaChaNonceSize"
    and h: "HKDF_SHA512 P shared (SHA512 P (eph @ nonce0)) DefaultCryptoName ChaChaKeySize = Some key"
    and k: "length key = ChaChaKeySize" and n: "length nonce = ChaChaNonceSize"
    and nn: "\<not> isAllIdentical nonce0 \<Longrightarrow> nonce = nonce0"
    and ct: "ct = ChaCha_Seal P key nonce pt ([1] @ eph)"
    using e by (rule suite1_Encrypt_elim) blast
  show "length eph = KeySize (cryptoSuite1 P) \<and> length nonce = NonceSize (cryptoSuite1 P) \<and>
      length ct = length pt + CipherOverhead (cryptoSuite1 P)"
  proof -
    have "length eph = ScalarSize"
      using assms(1) x unfolding x25519_ok_def by blast
    moreover have "length ct = length pt + ChaChaOverhead"
      using assms(2) k n ct by (simp add: chacha_ok_def)
    ultimately show ?thesis
      using n by (simp add: cryptoSuite1_def)
  qed
  show "\<exists>k. tp' = drop k tp"
    using e by (rule suite1_Encrypt_elim) blast
  fix priv
  assume kp: "suite1_keypair P priv pub" and fr: "suite1_fresh tp"
  have "nonce = nonce0"
    using fr nn n0 l0 by (auto simp: suite1_fresh_def crypto_sizes)
  moreover have "X25519 P priv eph = Some shared"
    using kp x xs assms(1) unfolding suite1_keypair_def x25519_ok_def by blast
  ultimately show "si_Decrypt (cryptoSuite1 P) priv ct eph nonce = Inr pt"
    using assms(2) h k n ct
    by (simp add: cryptoSuite1_def suite1_Decrypt_def ReCreateSharedSecret_def DeriveKey_def
        MultipleSlices_def aead_Decrypt_def chacha_ok_def)
qed

section \<open>A concrete instance\<close>

text \<open>
  Functions of the right shape for the primitives, which satisfy their documented behaviour: the
  definitions can be evaluated with them, and the predicates above can hold.
\<close>

definition example_prims :: crypto_prims where
  "example_prims = \<lparr> X25519 = (\<lambda>a p. Some (replicate 32 9)), Basepoint = [9], SHA512 = (\<lambda>x. replicate 64 1),
     HKDF_SHA512 = (\<lambda>s salt info n. Some (replicate n 2)),
     ChaCha_Seal = (\<lambda>k n pt aad. pt @ replicate 16 3),
     ChaCha_Open = (\<lambda>k n ct aad. Some (take (length ct - 16) ct)),
     Ed_Sign = (\<lambda>priv msg. replicate 64 5), Ed_Verify = (\<lambda>pub msg sig. sig = replicate 64 5),
     Ed_KeyFromSeed = (\<lambda>s. s @ s), Ed_Public = (\<lambda>priv. drop 32 priv) \<rparr>"

lemma example_prims_ok: "x25519_ok example_prims" "chacha_ok example_prims" "ed25519_ok example_prims"
  by (auto simp: example_prims_def x25519_ok_def chacha_ok_def ed25519_ok_def crypto_sizes)

end
