(* ===== verification/Crypto_Wrappers.thy ===== *)
theory Crypto_Wrappers
  imports Crypto_Registry
begin

text \<open>
  \<^verbatim>\<open>internal/crypto/wrappers\<close>: the package-level function variables through which the protocol
  code reaches the keys, their setup functions, and the pinned sender keys. A function variable is
  nil, its fail-safe initial function, or the closure over a key that a setup function stored.
\<close>

datatype 'k fn_var = FnNil | FnSafeFail | FnSet 'k

record wrappers =
  EncryptInnerPayload_var :: "bytes fn_var"
  DecryptInnerPayload_var :: "bytes fn_var"
  CreateSignature_var :: "bytes fn_var"
  VerifySignature_var :: "unit fn_var"
  GetSharedSecret_var :: "bytes fn_var"
  pinnedSenderKeys :: "(bytes \<rightharpoonup> bytes) option"

definition wrappers_init :: wrappers where
  "wrappers_init = \<lparr> EncryptInnerPayload_var = FnSafeFail, DecryptInnerPayload_var = FnSafeFail,
     CreateSignature_var = FnSafeFail, VerifySignature_var = FnSafeFail,
     GetSharedSecret_var = FnSafeFail, pinnedSenderKeys = None \<rparr>"

section \<open>encryption.go\<close>

definition encryptInnerSafeFail :: "((bytes \<times> bytes \<times> bytes) \<times> tape) d3p_res" where
  "encryptInnerSafeFail = Inl (Err [])"

definition decryptInnerSafeFail :: "bytes d3p_res" where
  "decryptInnerSafeFail = Inl (Err [])"

definition EncryptInnerPayload ::
  "crypto_prims \<Rightarrow> wrappers \<Rightarrow> bytes \<Rightarrow> 8 word \<Rightarrow> tape \<Rightarrow>
     ((bytes \<times> bytes \<times> bytes) \<times> tape) d3p_res" where
  "EncryptInnerPayload P W payload suiteID tp =
     (case EncryptInnerPayload_var W of
        FnNil \<Rightarrow> Inl Panic
      | FnSafeFail \<Rightarrow> encryptInnerSafeFail
      | FnSet serverPub \<Rightarrow>
          if length serverPub = 0 then Inl (Err [])
          else if IsZero serverPub then Inl (Err [])
          else (case GetSuiteInfo P suiteID of
                  None \<Rightarrow> Inl (Err [])
                | Some suite \<Rightarrow> si_Encrypt suite serverPub payload tp))"

definition DecryptInnerPayload ::
  "crypto_prims \<Rightarrow> wrappers \<Rightarrow> bytes \<Rightarrow> bytes \<Rightarrow> bytes \<Rightarrow> 8 word \<Rightarrow> bytes d3p_res" where
  "DecryptInnerPayload P W ciphertext ephemeralPub nonce suiteID =
     (case DecryptInnerPayload_var W of
        FnNil \<Rightarrow> Inl Panic
      | FnSafeFail \<Rightarrow> decryptInnerSafeFail
      | FnSet privateKey \<Rightarrow>
          if length privateKey = 0 then Inl (Err [])
          else if IsZero privateKey then Inl (Err [])
          else (case GetSuiteInfo P suiteID of
                  None \<Rightarrow> Inl (Err [])
                | Some suite \<Rightarrow> si_Decrypt suite privateKey ciphertext ephemeralPub nonce))"

definition SetupEncryptInnerPayload :: "wrappers \<Rightarrow> bytes \<Rightarrow> wrappers \<times> unit d3p_res" where
  "SetupEncryptInnerPayload W serverPub =
     (if length serverPub = 0
      then (W, if EncryptInnerPayload_var W = FnNil then Inl (Err []) else Inr ())
      else (W\<lparr>EncryptInnerPayload_var := FnSet serverPub\<rparr>, Inr ()))"

definition SetupDecryptInnerPayload :: "wrappers \<Rightarrow> bytes \<Rightarrow> wrappers \<times> unit d3p_res" where
  "SetupDecryptInnerPayload W privateKey =
     (if length privateKey = 0
      then (W, if DecryptInnerPayload_var W = FnNil then Inl (Err []) else Inr ())
      else (W\<lparr>DecryptInnerPayload_var := FnSet privateKey\<rparr>, Inr ()))"

section \<open>signature.go\<close>

definition createSignatureSafeFail :: "bytes d3p_res" where
  "createSignatureSafeFail = Inl (Err [])"

definition verifySignatureSafeFail :: "bool d3p_res" where
  "verifySignatureSafeFail = Inl (Err [])"

definition CreateSignature ::
  "crypto_prims \<Rightarrow> wrappers \<Rightarrow> bytes \<Rightarrow> 8 word \<Rightarrow> bytes d3p_res" where
  "CreateSignature P W data sigID =
     (case CreateSignature_var W of
        FnNil \<Rightarrow> Inl Panic
      | FnSafeFail \<Rightarrow> createSignatureSafeFail
      | FnSet privateKey \<Rightarrow>
          if IsZero privateKey then Inl (Err [])
          else (case GetSignatureInfo P sigID of
                  None \<Rightarrow> Inl (Err [])
                | Some sigSuite \<Rightarrow>
                    if sigID = 0 then Inr []
                    else if length privateKey = 0 then Inl (Err [])
                    else sg_Sign sigSuite privateKey data))"

definition SetupCreateSignature :: "wrappers \<Rightarrow> bytes \<Rightarrow> wrappers \<times> unit d3p_res" where
  "SetupCreateSignature W privateKey =
     (if length privateKey = 0
      then (W, if CreateSignature_var W = FnNil then Inl (Err []) else Inr ())
      else (W\<lparr>CreateSignature_var := FnSet privateKey\<rparr>, Inr ()))"

definition NewPinnedSenders :: "wrappers \<Rightarrow> (bytes \<rightharpoonup> bytes) \<Rightarrow> wrappers" where
  "NewPinnedSenders W ks = W\<lparr>pinnedSenderKeys := Some ks\<rparr>"

definition LookupPinnedSender :: "wrappers \<Rightarrow> bytes \<Rightarrow> bytes option" where
  "LookupPinnedSender W hostname =
     (case pinnedSenderKeys W of None \<Rightarrow> None | Some pinnedKeys \<Rightarrow> pinnedKeys hostname)"

definition VerifySignature ::
  "crypto_prims \<Rightarrow> wrappers \<Rightarrow> bytes \<Rightarrow> bytes \<Rightarrow> bytes \<Rightarrow> 8 word \<Rightarrow> bool d3p_res" where
  "VerifySignature P W publicKey data signature sigID =
     (case VerifySignature_var W of
        FnNil \<Rightarrow> Inl Panic
      | FnSafeFail \<Rightarrow> verifySignatureSafeFail
      | FnSet _ \<Rightarrow>
          if sigID = 0 then Inl (Err [])
          else if IsZero publicKey then Inl (Err [])
          else (case GetSignatureInfo P sigID of
                  None \<Rightarrow> Inl (Err [])
                | Some sigSuite \<Rightarrow> Inr (sg_Verify sigSuite publicKey data signature)))"

definition SetupVerifySignature :: "wrappers \<Rightarrow> (bytes \<rightharpoonup> bytes) \<Rightarrow> wrappers \<times> unit d3p_res" where
  "SetupVerifySignature W ks = ((NewPinnedSenders W ks)\<lparr>VerifySignature_var := FnSet ()\<rparr>, Inr ())"

section \<open>ipcsecret.go\<close>

definition getSharedSecretSafeFail :: "bytes d3p_res" where
  "getSharedSecretSafeFail = Inl (Err [])"

definition GetSharedSecret :: "wrappers \<Rightarrow> bytes d3p_res" where
  "GetSharedSecret W =
     (case GetSharedSecret_var W of
        FnNil \<Rightarrow> Inl Panic | FnSafeFail \<Rightarrow> getSharedSecretSafeFail | FnSet newSecret \<Rightarrow> Inr newSecret)"

text \<open>\<open>fipr.HMACSize\<close>, the length of the inter-process secret.\<close>

definition HMACSize :: nat where "HMACSize = 16"

definition SetupGetSharedSecret :: "crypto_prims \<Rightarrow> wrappers \<Rightarrow> bytes \<Rightarrow> wrappers \<times> unit d3p_res" where
  "SetupGetSharedSecret P W serverPriv =
     (if length serverPriv = 0
      then (W, if GetSharedSecret_var W = FnNil then Inl (Err []) else Inr ())
      else if IsZero serverPriv then (W, Inl (Err []))
      else (case DeriveKey P serverPriv (bytes_of_string ''fipr-salt'')
                   (bytes_of_string ''fipr-secret'') HMACSize of
              Inl e \<Rightarrow> (W, Inl e)
            | Inr newSecret \<Rightarrow> (W\<lparr>GetSharedSecret_var := FnSet newSecret\<rparr>, Inr ())))"

lemmas wrapper_defs = EncryptInnerPayload_def DecryptInnerPayload_def CreateSignature_def
  VerifySignature_def LookupPinnedSender_def

section \<open>Correctness of the wrappers\<close>

lemma EncryptInnerPayload_eq_Inr:
  "EncryptInnerPayload P W pt i tp = Inr r \<longleftrightarrow>
     (\<exists>pub suite. EncryptInnerPayload_var W = FnSet pub \<and> \<not> IsZero pub \<and>
        GetSuiteInfo P i = Some suite \<and> si_Encrypt suite pub pt tp = Inr r)"
  by (auto simp: EncryptInnerPayload_def encryptInnerSafeFail_def split: fn_var.splits option.splits)

lemma VerifySignature_eq_Inr:
  "VerifySignature P W pk data sig i = Inr v \<longleftrightarrow>
     VerifySignature_var W \<noteq> FnNil \<and> VerifySignature_var W \<noteq> FnSafeFail \<and> i \<noteq> 0 \<and> \<not> IsZero pk \<and>
     (\<exists>s. GetSignatureInfo P i = Some s \<and> v = sg_Verify s pk data sig)"
  by (auto simp: VerifySignature_def verifySignatureSafeFail_def split: fn_var.splits option.splits)

text \<open>What a signer with a pinned key produces is what the verifier accepts.\<close>

lemma CreateSignature_verifies:
  assumes "ed25519_ok P" and "CreateSignature P W data i = Inr sig" and "i \<noteq> 0"
    and "CreateSignature_var W = FnSet priv"
    and "VerifySignature_var V = FnSet ()" and "\<not> IsZero (Ed_Public P priv)"
  shows "VerifySignature P V (Ed_Public P priv) data sig i = Inr True"
    and "length sig = EdSignatureSize" and "i = 1"
proof -
  from assms(2-4) have i: "i = 1" and s: "ed25519_Sign P priv data = Inr sig"
    by (auto simp: CreateSignature_def registry_defs split: if_splits)
  from s have len: "length priv = EdPrivateKeySize" and sig: "sig = Ed_Sign P priv data"
    by (auto simp: ed25519_Sign_def split: if_splits)
  show "i = 1" by (fact i)
  show "length sig = EdSignatureSize"
    using assms(1) len sig by (simp add: ed25519_ok_def)
  show "VerifySignature P V (Ed_Public P priv) data sig i = Inr True"
    using assms(1,5,6) len sig i
    by (simp add: VerifySignature_def registry_defs ed25519_ok_def ed25519_Verify_def)
qed

lemma SetupVerifySignature_lookup:
  "LookupPinnedSender (fst (SetupVerifySignature W ks)) h = ks h"
  by (simp add: SetupVerifySignature_def NewPinnedSenders_def LookupPinnedSender_def)

text \<open>A sender with keys, and a receiver that has pinned the sender's name.\<close>

definition example_sender :: wrappers where
  "example_sender = wrappers_init\<lparr> EncryptInnerPayload_var := FnSet (replicate 32 9),
     CreateSignature_var := FnSet (replicate 64 7) \<rparr>"

definition example_receiver :: wrappers where
  "example_receiver = wrappers_init\<lparr> DecryptInnerPayload_var := FnSet [4], VerifySignature_var := FnSet (),
     pinnedSenderKeys := Some [bytes_of_string ''web1'' \<mapsto> replicate 32 7] \<rparr>"

end
