(* ===== verification/Proto_Types.thy ===== *)
theory Proto_Types
  imports Crypto_Wrappers
begin

text \<open>
  The data of \<^verbatim>\<open>pkg/protocol\<close>: its constants (\<^verbatim>\<open>consts.go\<close>), its structs (\<^verbatim>\<open>types.go\<close>), the text
  helpers of \<^verbatim>\<open>text.go\<close> with the part of \<^verbatim>\<open>unicode/utf8\<close> they use, and the size estimates of
  \<^verbatim>\<open>size.go\<close>. A Go \<^verbatim>\<open>any\<close> is a datatype with one constructor per dynamic type, a
  \<^verbatim>\<open>map[string]any\<close> is its list of entries in ascending key order (the canonical representative, so
  that equal maps are equal lists), and a \<^verbatim>\<open>time.Time\<close> is a number of nanoseconds since the epoch.
\<close>

section \<open>Constants\<close>

definition EmptyFieldChar :: bytes where "EmptyFieldChar = bytes_of_string ''-''"
definition MissingFragmentPlaceholder :: bytes where
  "MissingFragmentPlaceholder = bytes_of_string ''[missing fragment]''"
definition HostPrefixUnkSig :: bytes where "HostPrefixUnkSig = bytes_of_string ''[UNKNOWN]''"
definition HostPrefixUnverified :: bytes where
  "HostPrefixUnverified = bytes_of_string ''[UNVERIFIED]''"
definition IdentitySignatureContext :: bytes where
  "IdentitySignatureContext = bytes_of_string ''D3P-ID-SIG''"

definition terminatorByte :: byte where "terminatorByte = 0"
definition customFieldsEmptyMarker :: "16 word" where "customFieldsEmptyMarker = 1"

definition ContextInt8 :: "8 word" where "ContextInt8 = 1"
definition ContextInt16 :: "8 word" where "ContextInt16 = 2"
definition ContextInt32 :: "8 word" where "ContextInt32 = 3"
definition ContextInt64 :: "8 word" where "ContextInt64 = 4"
definition ContextFloat32 :: "8 word" where "ContextFloat32 = 5"
definition ContextFloat64 :: "8 word" where "ContextFloat64 = 6"
definition ContextBool :: "8 word" where "ContextBool = 7"
definition ContextString :: "8 word" where "ContextString = 8"
definition ContextSliceBytes :: "8 word" where "ContextSliceBytes = 9"

lemmas context_type_defs = ContextInt8_def ContextInt16_def ContextInt32_def ContextInt64_def
  ContextFloat32_def ContextFloat64_def ContextBool_def ContextString_def ContextSliceBytes_def

definition minHostnameLen :: nat where "minHostnameLen = 1"
definition maxHostnameLen :: nat where "maxHostnameLen = 255"
definition minSignatureLen :: nat where "minSignatureLen = 0"
definition maxSignatureLen :: nat where "maxSignatureLen = 255"
definition minCtxKeyLen :: nat where "minCtxKeyLen = 1"
definition maxCtxKeyLen :: nat where "maxCtxKeyLen = 32"
definition minCtxValLen :: nat where "minCtxValLen = 1"
definition MaxCtxValLen :: nat where "MaxCtxValLen = 255"
definition minDataLen :: nat where "minDataLen = 1"
definition minPaddingLen :: nat where "minPaddingLen = 10"
definition maxPaddingLen :: nat where "maxPaddingLen = 60"
definition lenHostID :: nat where "lenHostID = 4"
definition lenMsgID :: nat where "lenMsgID = 4"
definition lenMsgSeq :: nat where "lenMsgSeq = 2"
definition lenSeqMax :: nat where "lenSeqMax = 2"
definition lenTimestamp :: nat where "lenTimestamp = 8"
definition lenHostnameTerminator :: nat where "lenHostnameTerminator = 1"
definition lenContextSectionTerminator :: nat where "lenContextSectionTerminator = 1"
definition lenCtxKeyTerminator :: nat where "lenCtxKeyTerminator = 1"
definition lenCtxValTerminator :: nat where "lenCtxValTerminator = 1"
definition lenHostnameNxtLen :: nat where "lenHostnameNxtLen = 1"
definition lenSigIDLen :: nat where "lenSigIDLen = 1"
definition lenSigNxtLen :: nat where "lenSigNxtLen = 1"
definition lenContextSectionNxtLen :: nat where "lenContextSectionNxtLen = 2"
definition lenCtxKeyNxtLen :: nat where "lenCtxKeyNxtLen = 1"
definition lenCtxTypeVal :: nat where "lenCtxTypeVal = 1"
definition lenCtxValNxtLen :: nat where "lenCtxValNxtLen = 1"
definition lenDataNxtLen :: nat where "lenDataNxtLen = 2"

definition maxCtxSectionLen :: nat where
  "maxCtxSectionLen = 2 ^ (8 * lenContextSectionNxtLen) - 1"
definition maxDataLen :: nat where
  "maxDataLen = 2 ^ (8 * lenDataNxtLen) - 1"

definition minInnerPayloadLenFixedOnly :: nat where
  "minInnerPayloadLenFixedOnly = lenHostID + lenMsgID + lenMsgSeq + lenSeqMax + lenTimestamp +
     lenContextSectionNxtLen + lenContextSectionTerminator + lenHostnameNxtLen +
     lenHostnameTerminator + lenSigIDLen + lenSigNxtLen + lenDataNxtLen"
definition minInnerPayloadLen :: nat where
  "minInnerPayloadLen = lenHostID + lenMsgID + lenMsgSeq + lenSeqMax + lenTimestamp +
     lenContextSectionNxtLen + lenContextSectionTerminator + lenHostnameNxtLen + minHostnameLen +
     lenHostnameTerminator + lenSigIDLen + lenSigNxtLen + lenDataNxtLen + minDataLen + minPaddingLen"
definition MinOuterPayloadLen :: nat where
  "MinOuterPayloadLen = SuiteIDLen + minInnerPayloadLen"
definition ctxFieldOverhead :: nat where
  "ctxFieldOverhead = lenCtxKeyNxtLen + lenCtxKeyTerminator + lenCtxTypeVal + lenCtxValNxtLen +
     lenCtxValTerminator"
definition minCtxSecLenWithData :: nat where
  "minCtxSecLenWithData = lenContextSectionNxtLen + lenCtxKeyNxtLen + minCtxKeyLen +
     lenCtxKeyTerminator + lenCtxTypeVal + lenCtxValNxtLen + minCtxValLen + lenCtxValTerminator +
     lenContextSectionTerminator"

lemmas len_consts = minHostnameLen_def maxHostnameLen_def minSignatureLen_def maxSignatureLen_def
  minCtxKeyLen_def maxCtxKeyLen_def minCtxValLen_def MaxCtxValLen_def minDataLen_def
  minPaddingLen_def maxPaddingLen_def lenHostID_def lenMsgID_def lenMsgSeq_def lenSeqMax_def
  lenTimestamp_def lenHostnameTerminator_def lenContextSectionTerminator_def
  lenCtxKeyTerminator_def lenCtxValTerminator_def lenHostnameNxtLen_def lenSigIDLen_def
  lenSigNxtLen_def lenContextSectionNxtLen_def lenCtxKeyNxtLen_def lenCtxTypeVal_def
  lenCtxValNxtLen_def lenDataNxtLen_def maxCtxSectionLen_def maxDataLen_def
  minInnerPayloadLenFixedOnly_def minInnerPayloadLen_def MinOuterPayloadLen_def ctxFieldOverhead_def
  minCtxSecLenWithData_def SuiteIDLen_def

lemma EmptyFieldChar_eq: "EmptyFieldChar = [45]"
  by (simp add: EmptyFieldChar_def bytes_of_string_def)

section \<open>Types\<close>

datatype any =
    AnyNil
  | AnyBool bool
  | AnyInt "64 word"
  | AnyInt8 "8 word"
  | AnyInt16 "16 word"
  | AnyInt32 "32 word"
  | AnyInt64 "64 word"
  | AnyUint "64 word"
  | AnyUint8 "8 word"
  | AnyUint16 "16 word"
  | AnyUint32 "32 word"
  | AnyUint64 "64 word"
  | AnyFloat32 "32 word"
  | AnyFloat64 "64 word"
  | AnyString bytes
  | AnyBytes bytes
  | AnySlice "any list"
  | AnyMap "(any \<times> any) list"
  | AnyIface "any option"
  | AnyPtr "any option"
  | AnyStruct "any list"
  | AnyNamed any
  | AnyOther

type_synonym fields = "(bytes \<times> any) list"

definition fields_ok :: "fields \<Rightarrow> bool" where
  "fields_ok m \<longleftrightarrow> sorted_wrt (<) (map fst m)"

text \<open>\<^verbatim>\<open>m[k] = v\<close> on the canonical representative.\<close>

fun map_put :: "bytes \<Rightarrow> any \<Rightarrow> fields \<Rightarrow> fields" where
  "map_put k v [] = [(k, v)]"
| "map_put k v ((k', v') # m) =
     (if k < k' then (k, v) # (k', v') # m
      else if k = k' then (k, v) # m
      else (k', v') # map_put k v m)"

lemma map_of_map_put: "map_of (map_put k v m) = (map_of m)(k \<mapsto> v)"
  by (induction m) auto

lemma set_fst_map_put: "fst ` set (map_put k v m) = insert k (fst ` set m)"
  by (induction k v m rule: map_put.induct) (simp_all add: insert_commute)

lemma fields_ok_map_put: "fields_ok m \<Longrightarrow> fields_ok (map_put k v m)"
proof (induction m)
  case Nil
  then show ?case by (simp add: fields_ok_def)
next
  case (Cons e m)
  obtain k' v' where e: "e = (k', v')" by (cases e)
  from Cons.prems have tl: "fields_ok m" and lt: "\<forall>x \<in> fst ` set m. k' < x"
    by (auto simp: fields_ok_def e)
  show ?case
  proof (cases "k \<le> k'")
    case True
    with Cons.prems lt show ?thesis
      by (fastforce simp: fields_ok_def e)
  next
    case False
    then have "\<forall>x \<in> fst ` set (map_put k v m). k' < x"
      using lt by (simp only: set_fst_map_put) auto
    with Cons.IH [OF tl] False show ?thesis
      by (auto simp: fields_ok_def e)
  qed
qed

lemma map_put_snoc:
  "fields_ok (m @ [(k, v)]) \<Longrightarrow> map_put k v m = m @ [(k, v)]"
proof (induction m)
  case (Cons e m)
  then show ?case by (cases e) (auto simp: fields_ok_def)
qed simp

datatype netip_addr = AddrZero | Addr4 "32 word" | Addr6 "128 word" bytes

record Message =
  m_Timestamp :: int
  m_Hostname :: bytes
  m_Fields :: fields
  m_Data :: bytes

record Payload =
  RemoteIP :: netip_addr
  HostID :: int
  MsgID :: int
  MessageSeq :: int
  MessageSeqMax :: int
  Timestamp :: int
  Hostname :: bytes
  SignatureID :: "8 word"
  Signature :: bytes
  CustomFields :: fields
  Data :: bytes
  PaddingLen :: int

record contextWireFormat =
  Key :: bytes
  valType :: "8 word"
  Value :: bytes

record innerWireFormat =
  w_HostID :: "32 word"
  w_MsgID :: "32 word"
  w_MessageSeq :: "16 word"
  w_MessageSeqMax :: "16 word"
  w_Timestamp :: "64 word"
  w_Hostname :: bytes
  w_SignatureID :: "8 word"
  w_Signature :: bytes
  w_ContextFields :: "contextWireFormat list"
  w_Data :: bytes
  w_PaddingLen :: int

definition Payload_zero :: Payload where
  "Payload_zero = \<lparr> RemoteIP = AddrZero, HostID = 0, MsgID = 0, MessageSeq = 0, MessageSeqMax = 0,
     Timestamp = 0, Hostname = [], SignatureID = 0, Signature = [], CustomFields = [], Data = [],
     PaddingLen = 0 \<rparr>"

text \<open>\<^verbatim>\<open>Time.UnixMilli\<close> (milliseconds, rounded down) and \<^verbatim>\<open>time.UnixMilli\<close>.\<close>

definition UnixMilli :: "int \<Rightarrow> int" where "UnixMilli t = t div 1000000"
definition time_UnixMilli :: "int \<Rightarrow> int" where "time_UnixMilli ms = ms * 1000000"

section \<open>Runes: the part of unicode/utf8 in use\<close>

definition RuneError :: nat where "RuneError = 65533"

definition in_rng :: "nat \<Rightarrow> nat \<Rightarrow> byte \<Rightarrow> bool" where
  "in_rng lo hi b \<longleftrightarrow> lo \<le> unat b \<and> unat b \<le> hi"

text \<open>\<^verbatim>\<open>utf8.DecodeRune\<close>: the rune and its width; an invalid sequence is \<open>RuneError\<close>, width 1.\<close>

fun decode_rune :: "bytes \<Rightarrow> nat \<times> nat" where
  "decode_rune [] = (RuneError, 0)"
| "decode_rune (b0 # bs) =
     (let x = unat b0 in
      if x < 128 then (x, 1)
      else if x < 194 \<or> x > 244 then (RuneError, 1)
      else if x < 224 then
        (case bs of
           b1 # _ \<Rightarrow> if in_rng 128 191 b1 then ((x mod 32) * 64 + unat b1 mod 64, 2) else (RuneError, 1)
         | _ \<Rightarrow> (RuneError, 1))
      else if x < 240 then
        (case bs of
           b1 # b2 # _ \<Rightarrow>
             if in_rng (if x = 224 then 160 else 128) (if x = 237 then 159 else 191) b1 \<and> in_rng 128 191 b2
             then ((x mod 16) * 4096 + (unat b1 mod 64) * 64 + unat b2 mod 64, 3) else (RuneError, 1)
         | _ \<Rightarrow> (RuneError, 1))
      else
        (case bs of
           b1 # b2 # b3 # _ \<Rightarrow>
             if in_rng (if x = 240 then 144 else 128) (if x = 244 then 143 else 191) b1 \<and>
                in_rng 128 191 b2 \<and> in_rng 128 191 b3
             then ((x mod 8) * 262144 + (unat b1 mod 64) * 4096 + (unat b2 mod 64) * 64 + unat b3 mod 64, 4)
             else (RuneError, 1)
         | _ \<Rightarrow> (RuneError, 1)))"

declare decode_rune.simps [simp del]

definition printable :: "byte \<Rightarrow> bool" where
  "printable b \<longleftrightarrow> 32 \<le> unat b \<and> unat b \<le> 126"

definition printable_rune :: "nat \<Rightarrow> bool" where
  "printable_rune r \<longleftrightarrow> 32 \<le> r \<and> r \<le> 126"

lemma in_rng_not_printable: "in_rng lo hi b \<Longrightarrow> 128 \<le> lo \<Longrightarrow> \<not> printable b"
  by (simp add: in_rng_def printable_def)

lemma mod_window: "k * m \<le> x \<Longrightarrow> x < k * m + m \<Longrightarrow> x mod m = x - k * m" for x :: nat
proof -
  assume "k * m \<le> x" and "x < k * m + m"
  then obtain y where "x = y + k * m" and "y < m"
    by (metis add.commute le_Suc_ex nat_add_left_cancel_less)
  then show ?thesis by simp
qed

lemma in_rng_160_mod: "in_rng 160 191 b \<Longrightarrow> 2 \<le> unat b mod 64"
  using mod_window [of 2 64 "unat b"] by (auto simp: in_rng_def)

lemma in_rng_144_mod: "in_rng 144 191 b \<Longrightarrow> 2 \<le> unat b mod 64"
  using mod_window [of 2 64 "unat b"] by (auto simp: in_rng_def)

lemma rune2_big: "194 \<le> x \<Longrightarrow> x < 224 \<Longrightarrow> 127 \<le> x mod 32 * 64 + y" for x y :: nat
  using mod_window [of 6 32 x] by simp

lemma rune3_big: "224 \<le> x \<Longrightarrow> x < 240 \<Longrightarrow> x \<noteq> 224 \<Longrightarrow> 127 \<le> x mod 16 * 4096 + y + z" for x y z :: nat
  using mod_window [of 14 16 x] by simp

lemma rune4_big:
  "240 \<le> x \<Longrightarrow> x \<le> 244 \<Longrightarrow> x \<noteq> 240 \<Longrightarrow> 127 \<le> x mod 8 * 262144 + y + z + u" for x y z u :: nat
  using mod_window [of 30 8 x] by simp

text \<open>
  A rune is printable ASCII exactly when it is one printable byte; the bytes of any other rune
  are not printable.
\<close>

lemma decode_rune_err:
  "\<not> printable b \<Longrightarrow> (r, w) = (RuneError, 1) \<Longrightarrow>
   0 < w \<and> w \<le> Suc (length bs) \<and>
     filter printable (take w (b # bs)) = (if printable_rune r then [of_nat r] else [])"
  by (simp add: printable_rune_def RuneError_def)

lemma decode_rune_multi:
  assumes "127 \<le> r" and "bs = us @ vs" and "w = Suc (length us)" and "list_all (\<lambda>b. \<not> printable b) (b # us)"
  shows "0 < w \<and> w \<le> Suc (length bs) \<and>
     filter printable (take w (b # bs)) = (if printable_rune r then [of_nat r] else [])"
  using assms by (auto simp: printable_rune_def filter_empty_conv list_all_iff)

lemma decode_rune_two:
  assumes "decode_rune (b # bs) = (r, w)" and "194 \<le> unat b" and "unat b < 224"
  shows "0 < w \<and> w \<le> Suc (length bs) \<and>
    filter printable (take w (b # bs)) = (if printable_rune r then [of_nat r] else [])"
proof -
  have np: "\<not> printable b" using assms by (simp add: printable_def)
  note np_rng = in_rng_not_printable [of 128 191, simplified]
  show ?thesis
  proof (cases "\<exists>b1 vs. bs = b1 # vs \<and> in_rng 128 191 b1")
    case True
    then obtain b1 vs where bs: "bs = b1 # vs" "in_rng 128 191 b1" by blast
    with assms have "r = unat b mod 32 * 64 + unat b1 mod 64" "w = 2"
      by (auto simp: decode_rune.simps Let_def)
    with bs np assms show ?thesis
      by (intro decode_rune_multi [where us = "[b1]" and vs = vs]) (auto intro: rune2_big dest: np_rng)
  next
    case False
    with assms have "(r, w) = (RuneError, 1)"
      by (auto simp: decode_rune.simps Let_def split: list.splits if_splits)
    with np show ?thesis by (rule decode_rune_err)
  qed
qed

lemma decode_rune_three:
  assumes "decode_rune (b # bs) = (r, w)" and "224 \<le> unat b" and "unat b < 240"
  shows "0 < w \<and> w \<le> Suc (length bs) \<and>
    filter printable (take w (b # bs)) = (if printable_rune r then [of_nat r] else [])"
proof -
  have np: "\<not> printable b" using assms by (simp add: printable_def)
  note np_rng = in_rng_not_printable [of 128 191, simplified]
  let ?lo = "if unat b = 224 then 160 else 128" and ?hi = "if unat b = 237 then 159 else 191"
  show ?thesis
  proof (cases "\<exists>b1 b2 vs. bs = b1 # b2 # vs \<and> in_rng ?lo ?hi b1 \<and> in_rng 128 191 b2")
    case True
    then obtain b1 b2 vs where bs: "bs = b1 # b2 # vs" "in_rng ?lo ?hi b1" "in_rng 128 191 b2" by blast
    with assms have "r = unat b mod 16 * 4096 + unat b1 mod 64 * 64 + unat b2 mod 64" "w = 3"
      by (auto simp: decode_rune.simps Let_def)
    moreover have "127 \<le> unat b mod 16 * 4096 + unat b1 mod 64 * 64 + unat b2 mod 64"
      using assms bs(2) in_rng_160_mod [of b1] by (cases "unat b = 224") (auto intro: rune3_big)
    moreover have "\<not> printable b1"
      using bs(2) by (auto simp: in_rng_def printable_def split: if_splits)
    ultimately show ?thesis using bs np
      by (intro decode_rune_multi [where us = "[b1, b2]" and vs = vs]) (auto dest: np_rng)
  next
    case False
    with assms have "(r, w) = (RuneError, 1)"
      by (simp add: decode_rune.simps Let_def split: list.splits if_splits)
    with np show ?thesis by (rule decode_rune_err)
  qed
qed

lemma decode_rune_four:
  assumes "decode_rune (b # bs) = (r, w)" and "240 \<le> unat b" and "unat b \<le> 244"
  shows "0 < w \<and> w \<le> Suc (length bs) \<and>
    filter printable (take w (b # bs)) = (if printable_rune r then [of_nat r] else [])"
proof -
  have np: "\<not> printable b" using assms by (simp add: printable_def)
  note np_rng = in_rng_not_printable [of 128 191, simplified]
  let ?lo = "if unat b = 240 then 144 else 128" and ?hi = "if unat b = 244 then 143 else 191"
  show ?thesis
  proof (cases "\<exists>b1 b2 b3 vs. bs = b1 # b2 # b3 # vs \<and> in_rng ?lo ?hi b1 \<and> in_rng 128 191 b2 \<and>
      in_rng 128 191 b3")
    case True
    then obtain b1 b2 b3 vs where bs: "bs = b1 # b2 # b3 # vs" "in_rng ?lo ?hi b1"
      "in_rng 128 191 b2" "in_rng 128 191 b3" by blast
    with assms have
      "r = unat b mod 8 * 262144 + unat b1 mod 64 * 4096 + unat b2 mod 64 * 64 + unat b3 mod 64" "w = 4"
      by (auto simp: decode_rune.simps Let_def)
    moreover have
      "127 \<le> unat b mod 8 * 262144 + unat b1 mod 64 * 4096 + unat b2 mod 64 * 64 + unat b3 mod 64"
      using assms bs(2) in_rng_144_mod [of b1] by (cases "unat b = 240") (auto intro: rune4_big)
    moreover have "\<not> printable b1"
      using bs(2) by (auto simp: in_rng_def printable_def split: if_splits)
    ultimately show ?thesis using bs np
      by (intro decode_rune_multi [where us = "[b1, b2, b3]" and vs = vs]) (auto dest: np_rng)
  next
    case False
    with assms have "(r, w) = (RuneError, 1)"
      by (simp add: decode_rune.simps Let_def split: list.splits if_splits)
    with np show ?thesis by (rule decode_rune_err)
  qed
qed

lemma decode_rune_printable:
  assumes "decode_rune (b # bs) = (r, w)"
  shows "0 < w \<and> w \<le> Suc (length bs) \<and>
    filter printable (take w (b # bs)) = (if printable_rune r then [of_nat r] else [])"
proof (cases "unat b < 128")
  case True
  with assms show ?thesis
    by (auto simp: decode_rune.simps Let_def printable_def printable_rune_def)
next
  case False
  consider (bad) "unat b < 194 \<or> unat b > 244" | (two) "194 \<le> unat b" "unat b < 224"
    | (three) "224 \<le> unat b" "unat b < 240" | (four) "240 \<le> unat b" "unat b \<le> 244"
    by linarith
  then show ?thesis
  proof cases
    case bad
    with assms False have "(r, w) = (RuneError, 1)"
      by (simp add: decode_rune.simps Let_def)
    with False show ?thesis by (intro decode_rune_err) (simp_all add: printable_def)
  qed (use assms decode_rune_two decode_rune_three decode_rune_four in blast)+
qed

lemma decode_rune_width: "decode_rune (b # bs) = (r, w) \<Longrightarrow> 0 < w"
  by (drule decode_rune_printable) simp

text \<open>\<^verbatim>\<open>utf8.Valid\<close> and the rune loop of \<^verbatim>\<open>for _, r := range s\<close>.\<close>

function utf8_valid :: "bytes \<Rightarrow> bool" where
  "utf8_valid [] = True"
| "utf8_valid (b # bs) =
     (case decode_rune (b # bs) of (r, w) \<Rightarrow>
        if r = RuneError \<and> w = 1 then False else utf8_valid (drop w (b # bs)))"
  by pat_completeness auto
termination
  by (relation "measure length") (auto dest!: decode_rune_width [OF sym])

function runes :: "bytes \<Rightarrow> nat list" where
  "runes [] = []"
| "runes (b # bs) = (case decode_rune (b # bs) of (r, w) \<Rightarrow> r # runes (drop w (b # bs)))"
  by pat_completeness auto
termination
  by (relation "measure length") (auto dest!: decode_rune_width [OF sym])

declare utf8_valid.simps(2) [simp del] runes.simps(2) [simp del]

section \<open>text.go\<close>

definition cleanStringToBytes :: "bytes \<Rightarrow> nat \<Rightarrow> bytes" where
  "cleanStringToBytes input maxLength =
     (let input' = (if input = [] then EmptyFieldChar else input);
          clean = map of_nat (filter printable_rune (runes input'))
      in if length clean > maxLength then take maxLength clean else clean)"

definition cleanBytes :: "bytes \<Rightarrow> bytes" where
  "cleanBytes data = filter (\<lambda>b. b \<noteq> 0) data"

fun isPrintableASCII :: "bytes \<Rightarrow> bool" where
  "isPrintableASCII [] = True"
| "isPrintableASCII (b # bs) = (if b < 32 \<or> b > 126 then False else isPrintableASCII bs)"

lemma runes_filter: "map of_nat (filter printable_rune (runes s)) = filter printable s"
proof (induction s rule: runes.induct)
  case 1
  then show ?case by simp
next
  case (2 b bs)
  obtain r w where d: "decode_rune (b # bs) = (r, w)" by (cases "decode_rune (b # bs)")
  have "filter printable (b # bs) = filter printable (take w (b # bs) @ drop w (b # bs))"
    by simp
  also have "\<dots> = (if printable_rune r then [of_nat r] else []) @ filter printable (drop w (b # bs))"
    using decode_rune_printable [OF d] by (simp only: filter_append)
  finally show ?case
    using 2 d by (simp add: runes.simps(2))
qed

lemma cleanStringToBytes_eq:
  "cleanStringToBytes s n = take n (filter printable (if s = [] then EmptyFieldChar else s))"
  by (simp add: cleanStringToBytes_def runes_filter Let_def)

lemma isPrintableASCII_iff: "isPrintableASCII s \<longleftrightarrow> list_all printable s"
proof (induction s)
  case (Cons b s)
  have "(b < 32 \<or> b > 126) \<longleftrightarrow> \<not> printable b"
    by (auto simp: printable_def word_less_nat_alt)
  with Cons show ?case by simp
qed simp

lemma isPrintableASCII_clean: "isPrintableASCII (cleanStringToBytes s n)"
  by (auto simp: isPrintableASCII_iff cleanStringToBytes_eq list_all_iff dest: in_set_takeD)

lemma length_clean: "length (cleanStringToBytes s n) \<le> n"
  by (simp add: cleanStringToBytes_eq)

lemma clean_id:
  assumes "isPrintableASCII s" and "s \<noteq> []" and "length s \<le> n"
  shows "cleanStringToBytes s n = s"
proof -
  have "filter printable s = s"
    using assms(1) by (simp add: isPrintableASCII_iff filter_id_conv list_all_iff)
  with assms(2,3) show ?thesis by (simp add: cleanStringToBytes_eq)
qed

section \<open>size.go\<close>

fun valueSizeApprox :: "any \<Rightarrow> nat" where
  "valueSizeApprox AnyNil = 0"
| "valueSizeApprox (AnyString s) = 16 + length s"
| "valueSizeApprox (AnyBool _) = 1 + 1"
| "valueSizeApprox (AnyInt _) = 8"
| "valueSizeApprox (AnyInt8 _) = 1"
| "valueSizeApprox (AnyInt16 _) = 2"
| "valueSizeApprox (AnyInt32 _) = 4"
| "valueSizeApprox (AnyInt64 _) = 8"
| "valueSizeApprox (AnyUint _) = 8"
| "valueSizeApprox (AnyUint8 _) = 1"
| "valueSizeApprox (AnyUint16 _) = 2"
| "valueSizeApprox (AnyUint32 _) = 4"
| "valueSizeApprox (AnyUint64 _) = 8"
| "valueSizeApprox (AnyFloat32 _) = 4"
| "valueSizeApprox (AnyFloat64 _) = 8"
| "valueSizeApprox (AnyBytes b) = 24 + length b"
| "valueSizeApprox (AnySlice vs) = 24 + sum_list (map valueSizeApprox vs)"
| "valueSizeApprox (AnyMap kvs) =
     8 + sum_list (map (\<lambda>(k, v). valueSizeApprox k + valueSizeApprox v) kvs)"
| "valueSizeApprox (AnyIface None) = 16"
| "valueSizeApprox (AnyIface (Some v)) = 16 + valueSizeApprox v"
| "valueSizeApprox (AnyPtr None) = 8"
| "valueSizeApprox (AnyPtr (Some v)) = 8 + valueSizeApprox v"
| "valueSizeApprox (AnyStruct fs) = sum_list (map valueSizeApprox fs)"
| "valueSizeApprox (AnyNamed v) = valueSizeApprox v"
| "valueSizeApprox AnyOther = 0"

definition fields_size :: "fields \<Rightarrow> nat" where
  "fields_size m = sum_list (map (\<lambda>(key, value). length key + 16 + valueSizeApprox value) m)"

definition Payload_Size :: "Payload \<Rightarrow> nat" where
  "Payload_Size payload =
     8 + 8 + 8 + 8 + 24 + 8 + 24 + 16 + length (Hostname payload) + 24 + length (Data payload) +
     8 + fields_size (CustomFields payload)"

definition Message_Size :: "Message \<Rightarrow> nat" where
  "Message_Size msg =
     24 + 16 + length (m_Hostname msg) + 16 + length (m_Data msg) + 8 + fields_size (m_Fields msg)"

end
