(* ===== verification/Proto_Context.thy ===== *)
theory Proto_Context
  imports Proto_Types
begin

unbundle bit_operations_syntax

text \<open>
  \<^verbatim>\<open>pkg/protocol/context.go\<close>: a custom field value as a type byte and its bytes, and back. Floats
  are their IEEE 754 bit patterns, which is all the code reads of them.
\<close>

lemma context_types_distinct:
  "distinct [ContextInt8, ContextInt16, ContextInt32, ContextInt64, ContextFloat32, ContextFloat64,
     ContextBool, ContextString, ContextSliceBytes]"
  by (simp add: context_type_defs)

lemma context_types_distinct_rev:
  "distinct [ContextSliceBytes, ContextString, ContextBool, ContextFloat64, ContextFloat32,
     ContextInt64, ContextInt32, ContextInt16, ContextInt8]"
  by (simp add: context_type_defs)

lemmas ctx_type_neq [simp] =
  context_types_distinct [simplified] context_types_distinct_rev [simplified]

section \<open>Serialization of one value\<close>

text \<open>
  The switch is on the reflected kind; the integer and float cases then assert the predeclared type,
  which a value of a defined type (\<open>AnyNamed\<close>) fails. The type of a nil interface does not exist.
\<close>

fun serializeAnyValue :: "any \<Rightarrow> (8 word \<times> bytes) d3p_res" where
  "serializeAnyValue AnyNil = Inl Panic"
| "serializeAnyValue (AnyBytes b) =
     Inr (ContextSliceBytes, put_uint32 (of_nat (length b)) @ b)"
| "serializeAnyValue (AnySlice _) = Inl (Err [])"
| "serializeAnyValue (AnyInt8 val) = Inr (ContextInt8, put_uint8 val)"
| "serializeAnyValue (AnyInt16 val) = Inr (ContextInt16, put_uint16 val)"
| "serializeAnyValue (AnyInt32 val) = Inr (ContextInt32, put_uint32 val)"
| "serializeAnyValue (AnyInt64 v) = Inr (ContextInt64, put_uint64 v)"
| "serializeAnyValue (AnyInt v) = Inr (ContextInt64, put_uint64 v)"
| "serializeAnyValue (AnyFloat32 bits) = Inr (ContextFloat32, put_uint32 bits)"
| "serializeAnyValue (AnyFloat64 bits) = Inr (ContextFloat64, put_uint64 bits)"
| "serializeAnyValue (AnyBool b) = Inr (ContextBool, if b then [1] else [0])"
| "serializeAnyValue (AnyString s) = Inr (ContextString, cleanBytes s)"
| "serializeAnyValue (AnyNamed (AnyBytes b)) = serializeAnyValue (AnyBytes b)"
| "serializeAnyValue (AnyNamed (AnyBool b)) = serializeAnyValue (AnyBool b)"
| "serializeAnyValue (AnyNamed (AnyString s)) = serializeAnyValue (AnyString s)"
| "serializeAnyValue _ = Inl (Err [])"

section \<open>Deserialization\<close>

definition nan_or_inf32 :: "32 word \<Rightarrow> bool" where
  "nan_or_inf32 bits \<longleftrightarrow> bits AND 0x7F800000 = 0x7F800000"

definition nan_or_inf64 :: "64 word \<Rightarrow> bool" where
  "nan_or_inf64 bits \<longleftrightarrow> bits AND 0x7FF0000000000000 = 0x7FF0000000000000"

text \<open>Both zeros compare equal to 0, so the negative one becomes the positive one.\<close>

definition norm_zero32 :: "32 word \<Rightarrow> 32 word" where
  "norm_zero32 bits = (if bits AND 0x7FFFFFFF = 0 then 0 else bits)"

definition norm_zero64 :: "64 word \<Rightarrow> 64 word" where
  "norm_zero64 bits = (if bits AND 0x7FFFFFFFFFFFFFFF = 0 then 0 else bits)"

definition deserializeAnyValue :: "8 word \<Rightarrow> bytes \<Rightarrow> any d3p_res" where
  "deserializeAnyValue vt data =
     (if vt = ContextSliceBytes then
        if length data < 4 then Inl (Err [])
        else rbind (read_uint32 data) (\<lambda>(len, buf).
             if unat len \<noteq> length buf then Inl (Err [])
             else rbind (read_full (unat len) buf) (\<lambda>(b, buf').
             if buf' \<noteq> [] then Inl (Err []) else Inr (AnyBytes b)))
      else if vt = ContextInt8 then
        if length data \<noteq> 1 then Inl (Err [])
        else rbind (read_byte data) (\<lambda>(b, _). Inr (AnyInt8 b))
      else if vt = ContextInt16 then
        if length data \<noteq> 2 then Inl (Err [])
        else rbind (read_uint16 data) (\<lambda>(num, _). Inr (AnyInt16 num))
      else if vt = ContextInt32 then
        if length data \<noteq> 4 then Inl (Err [])
        else rbind (read_uint32 data) (\<lambda>(num, _). Inr (AnyInt32 num))
      else if vt = ContextInt64 then
        if length data \<noteq> 8 then Inl (Err [])
        else rbind (read_uint64 data) (\<lambda>(num, _). Inr (AnyInt64 num))
      else if vt = ContextFloat32 then
        if length data \<noteq> 4 then Inl (Err [])
        else rbind (read_uint32 data) (\<lambda>(bits, _).
             if nan_or_inf32 bits then Inl (Err []) else Inr (AnyFloat32 (norm_zero32 bits)))
      else if vt = ContextFloat64 then
        if length data \<noteq> 8 then Inl (Err [])
        else rbind (read_uint64 data) (\<lambda>(bits, _).
             if nan_or_inf64 bits then Inl (Err []) else Inr (AnyFloat64 (norm_zero64 bits)))
      else if vt = ContextBool then
        if length data \<noteq> 1 then Inl (Err [])
        else rbind (read_byte data) (\<lambda>(b, _).
             if b = 0 then Inr (AnyBool False)
             else if b = 1 then Inr (AnyBool True)
             else Inl (Err []))
      else if vt = ContextString then
        if data = [] then Inr (AnyString [])
        else rbind (read_full (length data) data) (\<lambda>(strBytes, buf').
             if buf' \<noteq> [] then Inl (Err [])
             else if \<not> utf8_valid strBytes then Inl (Err [])
             else Inr (AnyString strBytes))
      else Inl (Err []))"

section \<open>Round trips\<close>

text \<open>
  What a value becomes on the wire: a platform integer is a 64-bit one, NUL bytes are dropped from
  strings, negative zero is zero.
\<close>

fun norm_any :: "any \<Rightarrow> any" where
  "norm_any (AnyInt v) = AnyInt64 v"
| "norm_any (AnyFloat32 b) = AnyFloat32 (norm_zero32 b)"
| "norm_any (AnyFloat64 b) = AnyFloat64 (norm_zero64 b)"
| "norm_any (AnyString s) = AnyString (cleanBytes s)"
| "norm_any (AnyNamed v) = norm_any v"
| "norm_any v = v"

text \<open>The values the receiver takes back: finite floats, valid UTF-8, slices below 4 GiB.\<close>

fun wire_value :: "any \<Rightarrow> bool" where
  "wire_value (AnyFloat32 b) = (\<not> nan_or_inf32 b)"
| "wire_value (AnyFloat64 b) = (\<not> nan_or_inf64 b)"
| "wire_value (AnyString s) = utf8_valid (cleanBytes s)"
| "wire_value (AnyBytes b) = (length b < 2 ^ 32)"
| "wire_value (AnyNamed v) = wire_value v"
| "wire_value v = True"

lemma cleanBytes_no_NUL: "0 \<notin> set (cleanBytes s)"
  by (simp add: cleanBytes_def)

lemmas uint_dec_enc_Nil [codec_simps] =
  u8.dec_enc [of _ "[]", simplified] u16.dec_enc [of _ "[]", simplified]
  u32.dec_enc [of _ "[]", simplified] u64.dec_enc [of _ "[]", simplified]

lemma serialize_deserialize:
  assumes "serializeAnyValue v = Inr (vt, data)" and "wire_value v"
  shows "deserializeAnyValue vt data = Inr (norm_any v)"
  using assms
proof (induction v rule: serializeAnyValue.induct)
  case (2 b)
  then show ?case
    by (auto simp: deserializeAnyValue_def codec_simps unat_of_nat read_full_def)
qed (auto simp: deserializeAnyValue_def codec_simps put_uint8_def read_full_def
    split: if_splits)

text \<open>The width table of the protocol: fixed-width types and the two variable ones.\<close>

definition ctx_width :: "8 word \<Rightarrow> nat option" where
  "ctx_width vt =
     (if vt = ContextInt8 \<or> vt = ContextBool then Some 1
      else if vt = ContextInt16 then Some 2
      else if vt = ContextInt32 \<or> vt = ContextFloat32 then Some 4
      else if vt = ContextInt64 \<or> vt = ContextFloat64 then Some 8
      else None)"

lemma deserialize_fixed_width:
  assumes "deserializeAnyValue vt data = Inr v" and "ctx_width vt = Some n"
  shows "length data = n"
  using assms by (simp add: deserializeAnyValue_def ctx_width_def split: if_splits)

lemma deserialize_known_type:
  assumes "deserializeAnyValue vt data = Inr v"
  shows "1 \<le> vt \<and> vt \<le> 9"
  using assms by (auto simp: deserializeAnyValue_def context_type_defs split: if_splits)

lemma serialize_width:
  "serializeAnyValue v = Inr (vt, data) \<Longrightarrow> ctx_width vt = Some n \<Longrightarrow> length data = n"
  by (induction v rule: serializeAnyValue.induct)
     (auto simp: ctx_width_def put_uint8_def split: if_splits)

section \<open>Properties\<close>

text \<open>
  A custom field value that the sender can serialize, and that is a finite float, valid UTF-8 or
  of another wire type, is read back by the receiver as its wire form (platform integers widened to
  64 bits, NUL bytes dropped, negative zero normalised), and a fixed-width type has its width.
\<close>

theorem context_value_roundtrip:
  assumes "serializeAnyValue v = Inr (vt, data)" and "wire_value v"
  shows "deserializeAnyValue vt data = Inr (norm_any v) \<and> (case ctx_width vt of None \<Rightarrow> True | Some n \<Rightarrow> length data = n)"
  using serialize_deserialize [OF assms] serialize_width [OF assms(1)] by (simp split: option.split)

theorem context_value_roundtrip_witness:
  "deserializeAnyValue ContextInt64 (put_uint64 5) = Inr (AnyInt64 5)"
  using context_value_roundtrip [of "AnyInt 5" ContextInt64 "put_uint64 5"] by simp

end
