(* ===== verification/Proto_Inner.thy ===== *)
theory Proto_Inner
  imports Proto_Context
begin

text \<open>
  \<^verbatim>\<open>pkg/protocol/inner.go\<close>: the inner payload as bytes. The writer threads its buffer as the source
  does; the reader is split at the sections of the layout, each of which is a wire codec, and the
  whole reader accepts exactly the byte sequences that the layout describes.
\<close>

section \<open>Writing\<close>

definition writeUint16 :: "bytes \<Rightarrow> 16 word \<Rightarrow> bytes d3p_res" where
  "writeUint16 buf b = Inr (buf @ put_uint16 b)"

definition writeFixedLength :: "bytes \<Rightarrow> bytes \<Rightarrow> nat \<Rightarrow> bytes d3p_res" where
  "writeFixedLength buf data len = (if length data \<noteq> len then Inl (Err []) else Inr (buf @ data))"

lemma writeFixedLength_own [simp]: "writeFixedLength buf data (length data) = Inr (buf @ data)"
  by (simp add: writeFixedLength_def)

fun writeContextFields :: "bytes \<Rightarrow> contextWireFormat list \<Rightarrow> bytes d3p_res" where
  "writeContextFields buf [] = Inr buf"
| "writeContextFields buf (c # cs) =
     rbind (wrap [ErrSerialization] (writeFixedLength (buf @ [of_nat (length (Key c))]) (Key c) (length (Key c)))) (\<lambda>buf.
     let buf = buf @ [terminatorByte] @ [valType c] @ [of_nat (length (Value c))] in
     rbind (wrap [ErrSerialization] (writeFixedLength buf (Value c) (length (Value c)))) (\<lambda>buf.
     writeContextFields (buf @ [terminatorByte]) cs))"

definition ConstructInnerPayload :: "innerWireFormat \<Rightarrow> tape \<Rightarrow> (bytes \<times> tape) d3p_res" where
  "ConstructInnerPayload f tp =
     (let buf = put_uint32 (w_HostID f) @ put_uint32 (w_MsgID f) @ put_uint16 (w_MessageSeq f) @
                put_uint16 (w_MessageSeqMax f) @ put_uint64 (w_Timestamp f) in
      if length (w_Hostname f) < minHostnameLen then Inl (Err [ErrProtocolViolation]) else
      rbind (wrap [ErrSerialization]
               (writeFixedLength (buf @ [of_nat (length (w_Hostname f))]) (w_Hostname f) (length (w_Hostname f)))) (\<lambda>buf.
      let buf = buf @ [terminatorByte] @ [w_SignatureID f] @ [of_nat (length (w_Signature f))] in
      rbind (if length (w_Signature f) > minSignatureLen
             then wrap [ErrSerialization] (writeFixedLength buf (w_Signature f) (length (w_Signature f)))
             else Inr buf) (\<lambda>buf.
      rbind (writeContextFields [] (w_ContextFields f)) (\<lambda>contextBuffer.
      if length contextBuffer > maxCtxSectionLen then Inl (Err [ErrProtocolViolation]) else
      rbind (if length contextBuffer > 0
             then rbind (wrap [ErrSerialization] (writeUint16 buf (of_nat (length contextBuffer)))) (\<lambda>buf.
                  wrap [ErrSerialization] (writeFixedLength buf contextBuffer (length contextBuffer)))
             else wrap [ErrSerialization] (writeUint16 buf customFieldsEmptyMarker)) (\<lambda>buf.
      let buf = buf @ [terminatorByte] in
      if length (w_Data f) = 0 then Inl (Err [ErrProtocolViolation]) else
      if length (w_Data f) > maxDataLen then Inl (Err [ErrProtocolViolation]) else
      rbind (wrap [ErrSerialization] (writeUint16 buf (of_nat (length (w_Data f))))) (\<lambda>buf.
      rbind (wrap [ErrSerialization] (writeFixedLength buf (w_Data f) (length (w_Data f)))) (\<lambda>buf.
      if w_PaddingLen f < 0 then Inl Panic else
      rbind (rand_Read (nat (w_PaddingLen f)) tp) (\<lambda>(padding, tp').
      Inr (buf @ padding, tp')))))))))"

section \<open>Reading\<close>

text \<open>
  Two checks of the source cannot fail where they stand and have no branch here: the context reader
  is empty once its loop ended with EOF, and the data slice is not yet allocated when its length is
  compared with the maximum.
\<close>

text \<open>The errors of \<^verbatim>\<open>readTerminator\<close> wrap no sentinel.\<close>

definition readTerminator :: "bytes \<Rightarrow> bytes d3p_res" where
  "readTerminator buf =
     rbind (read_byte buf) (\<lambda>(t, rest). if t \<noteq> terminatorByte then Inl (Err []) else Inr rest)"

definition read_hostname :: "bytes \<Rightarrow> (bytes \<times> bytes) d3p_res" where
  "read_hostname buf =
     rbind (wrap [ErrSerialization] (read_byte buf)) (\<lambda>(hostnameLen, buf).
     if hostnameLen = 0 then Inl (Err [ErrProtocolViolation])
     else if hostnameLen > of_nat maxHostnameLen then Inl (Err [ErrProtocolViolation])
     else rbind (wrap [ErrSerialization] (read_full (unat hostnameLen) buf)) (\<lambda>(hostname, buf).
     rbind (readTerminator buf) (\<lambda>buf. Inr (hostname, buf))))"

definition read_signature :: "crypto_prims \<Rightarrow> bytes \<Rightarrow> ((8 word \<times> bytes) \<times> bytes) d3p_res" where
  "read_signature P buf =
     rbind (wrap [ErrSerialization] (read_byte buf)) (\<lambda>(sigID, buf).
     case GetSignatureInfo P sigID of
       None \<Rightarrow> Inl (Err [ErrUnknownSignatureSuite])
     | Some suite \<Rightarrow>
         rbind (wrap [ErrSerialization] (read_byte buf)) (\<lambda>(sigLen, buf).
         if sigID = 0 \<and> sigLen > 0 then Inl (Err [ErrProtocolViolation])
         else if sigID > 0 \<and> sigLen = 0 then Inl (Err [ErrProtocolViolation])
         else if sigLen > 0 then
           if sigLen > of_nat (MaxSignatureLength suite) \<or> sigLen < of_nat (MinSignatureLength suite)
           then Inl (Err [ErrProtocolViolation])
           else rbind (wrap [ErrSerialization] (read_full (unat sigLen) buf)) (\<lambda>(sig, buf).
                Inr ((sigID, sig), buf))
         else Inr ((sigID, []), buf)))"

definition read_ctx_field :: "bytes \<Rightarrow> (contextWireFormat \<times> bytes) d3p_res" where
  "read_ctx_field r =
     rbind (wrap [ErrSerialization] (read_byte r)) (\<lambda>(keyLen, r).
     rbind (wrap [ErrSerialization] (read_full (unat keyLen) r)) (\<lambda>(fieldKey, r).
     rbind (readTerminator r) (\<lambda>r.
     rbind (wrap [ErrSerialization] (read_byte r)) (\<lambda>(vt, r).
     rbind (wrap [ErrSerialization] (read_byte r)) (\<lambda>(valLen, r).
     rbind (wrap [ErrSerialization] (read_full (unat valLen) r)) (\<lambda>(fieldValue, r).
     rbind (readTerminator r) (\<lambda>r.
     Inr (\<lparr>Key = fieldKey, valType = vt, Value = fieldValue\<rparr>, r))))))))"

lemma readTerminator_eq_Inr: "readTerminator buf = Inr rest \<longleftrightarrow> buf = terminatorByte # rest"
  by (cases buf) (auto simp: readTerminator_def)

lemma readTerminator_Cons [codec_simps]: "readTerminator (terminatorByte # rest) = Inr rest"
  by (simp add: readTerminator_eq_Inr)

lemma read_ctx_field_consumes: "read_ctx_field r = Inr (c, r') \<Longrightarrow> length r' < length r"
  by (auto simp: read_ctx_field_def rbind_eq_Inr read_byte_eq_Inr read_full_eq_Inr readTerminator_eq_Inr)

text \<open>The loop over the context section: an EOF at the start of a field ends it.\<close>

function read_ctx_loop :: "bytes \<Rightarrow> contextWireFormat list \<Rightarrow> contextWireFormat list d3p_res" where
  "read_ctx_loop r fs =
     (if r = [] then Inr fs
      else rbind (read_ctx_field r) (\<lambda>(c, r'). read_ctx_loop r' (fs @ [c])))"
  by pat_completeness auto
termination
  by (relation "measure (\<lambda>(r, fs). length r)") (auto dest: read_ctx_field_consumes)

declare read_ctx_loop.simps [simp del]

definition read_context :: "bytes \<Rightarrow> (contextWireFormat list \<times> bytes) d3p_res" where
  "read_context buf =
     rbind (wrap [ErrSerialization] (read_uint16 buf)) (\<lambda>(ctxSecLen, buf).
     if ctxSecLen = 0 then Inl (Err [ErrProtocolViolation])
     else rbind (if ctxSecLen \<noteq> customFieldsEmptyMarker
                 then rbind (wrap [ErrSerialization] (read_full (unat ctxSecLen) buf)) (\<lambda>(raw, buf).
                      rbind (read_ctx_loop raw []) (\<lambda>cs. Inr (cs, buf)))
                 else Inr ([], buf)) (\<lambda>(cs, buf).
     rbind (readTerminator buf) (\<lambda>buf. Inr (cs, buf))))"

definition read_data :: "bytes \<Rightarrow> (bytes \<times> bytes) d3p_res" where
  "read_data buf =
     rbind (wrap [ErrSerialization] (read_uint16 buf)) (\<lambda>(dataLen, buf).
     if dataLen = 0 then Inl (Err [ErrProtocolViolation])
     else if unat dataLen > length buf then Inl (Err [ErrProtocolViolation])
     else wrap [ErrSerialization] (read_full (unat dataLen) buf))"

definition DeconstructInnerPayload :: "crypto_prims \<Rightarrow> bytes \<Rightarrow> innerWireFormat d3p_res" where
  "DeconstructInnerPayload P payload =
     (if length payload < minInnerPayloadLen then Inl (Err [ErrProtocolViolation]) else
      rbind (wrap [ErrSerialization] (read_uint32 payload)) (\<lambda>(hostID, buf).
      rbind (wrap [ErrSerialization] (read_uint32 buf)) (\<lambda>(msgID, buf).
      rbind (wrap [ErrSerialization] (read_uint16 buf)) (\<lambda>(seq, buf).
      rbind (wrap [ErrSerialization] (read_uint16 buf)) (\<lambda>(seqMax, buf).
      rbind (wrap [ErrSerialization] (read_uint64 buf)) (\<lambda>(ts, buf).
      rbind (read_hostname buf) (\<lambda>(hostname, buf).
      rbind (read_signature P buf) (\<lambda>((sigID, sig), buf).
      rbind (read_context buf) (\<lambda>(cs, buf).
      rbind (read_data buf) (\<lambda>(data, buf).
      Inr \<lparr> w_HostID = hostID, w_MsgID = msgID, w_MessageSeq = seq, w_MessageSeqMax = seqMax,
            w_Timestamp = ts, w_Hostname = hostname, w_SignatureID = sigID, w_Signature = sig,
            w_ContextFields = cs, w_Data = data, w_PaddingLen = int (length buf) \<rparr>))))))))))"

section \<open>The layout\<close>

text \<open>The sections of the layout as byte sequences, the specification of writer and reader.\<close>

definition enc_hostname :: "bytes \<Rightarrow> bytes" where
  "enc_hostname h = of_nat (length h) # h @ [terminatorByte]"

definition hostname_ok :: "bytes \<Rightarrow> bool" where
  "hostname_ok h \<longleftrightarrow> 0 < length h \<and> length h \<le> 255"

definition enc_signature :: "8 word \<times> bytes \<Rightarrow> bytes" where
  "enc_signature s = fst s # of_nat (length (snd s)) # snd s"

definition signature_ok :: "crypto_prims \<Rightarrow> 8 word \<times> bytes \<Rightarrow> bool" where
  "signature_ok P s \<longleftrightarrow>
     (\<exists>suite. GetSignatureInfo P (fst s) = Some suite \<and>
        (fst s = 0 \<longleftrightarrow> snd s = []) \<and>
        (snd s \<noteq> [] \<longrightarrow> MinSignatureLength suite \<le> length (snd s) \<and>
                          length (snd s) \<le> MaxSignatureLength suite))"

definition enc_ctx_field :: "contextWireFormat \<Rightarrow> bytes" where
  "enc_ctx_field c = of_nat (length (Key c)) # Key c @ [terminatorByte] @ [valType c] @
     [of_nat (length (Value c))] @ Value c @ [terminatorByte]"

definition ctx_field_ok :: "contextWireFormat \<Rightarrow> bool" where
  "ctx_field_ok c \<longleftrightarrow> length (Key c) \<le> 255 \<and> length (Value c) \<le> 255"

definition enc_ctx_fields :: "contextWireFormat list \<Rightarrow> bytes" where
  "enc_ctx_fields cs = concat (map enc_ctx_field cs)"

definition enc_context :: "contextWireFormat list \<Rightarrow> bytes" where
  "enc_context cs =
     (if cs = [] then put_uint16 customFieldsEmptyMarker
      else put_uint16 (of_nat (length (enc_ctx_fields cs))) @ enc_ctx_fields cs) @ [terminatorByte]"

definition context_ok :: "contextWireFormat list \<Rightarrow> bool" where
  "context_ok cs \<longleftrightarrow> list_all ctx_field_ok cs \<and> length (enc_ctx_fields cs) \<le> 65535"

definition enc_data :: "bytes \<Rightarrow> bytes" where
  "enc_data d = put_uint16 (of_nat (length d)) @ d"

definition data_ok :: "bytes \<Rightarrow> bool" where
  "data_ok d \<longleftrightarrow> 0 < length d \<and> length d \<le> 65535"

definition inner_bytes :: "innerWireFormat \<Rightarrow> bytes" where
  "inner_bytes f =
     put_uint32 (w_HostID f) @ put_uint32 (w_MsgID f) @ put_uint16 (w_MessageSeq f) @
     put_uint16 (w_MessageSeqMax f) @ put_uint64 (w_Timestamp f) @ enc_hostname (w_Hostname f) @
     enc_signature (w_SignatureID f, w_Signature f) @ enc_context (w_ContextFields f) @
     enc_data (w_Data f)"

definition inner_wf :: "crypto_prims \<Rightarrow> innerWireFormat \<Rightarrow> bool" where
  "inner_wf P f \<longleftrightarrow>
     hostname_ok (w_Hostname f) \<and> signature_ok P (w_SignatureID f, w_Signature f) \<and>
     context_ok (w_ContextFields f) \<and> data_ok (w_Data f) \<and> 0 \<le> w_PaddingLen f"

section \<open>Each section is a codec\<close>

lemma unat_len_byte: "n \<le> 255 \<Longrightarrow> unat (of_nat n :: byte) = n"
  by (simp add: unat_of_nat)

lemma unat_len_word16: "n \<le> 65535 \<Longrightarrow> unat (of_nat n :: 16 word) = n"
  by (simp add: unat_of_nat)

lemma of_nat_len_byte_eq_0: "n \<le> 255 \<Longrightarrow> (of_nat n :: byte) = 0 \<longleftrightarrow> n = 0"
  using unat_len_byte [of n] by (auto simp: unat_eq_zero [symmetric] simp del: unat_eq_zero)

lemma of_nat_len_word16_eq_0: "n \<le> 65535 \<Longrightarrow> (of_nat n :: 16 word) = 0 \<longleftrightarrow> n = 0"
  using unat_len_word16 [of n] by (auto simp: unat_eq_zero [symmetric] simp del: unat_eq_zero)

lemma word16_less: "unat (w :: 16 word) < 65536"
  using unsigned_less [of w] by simp

lemma byte_le_255: "\<not> (255 :: byte) < b"
  using byte_less [of b] by (simp add: word_less_nat_alt)

lemmas reader_simps = rbind_eq_Inr read_byte_eq_Inr read_full_eq_Inr readTerminator_eq_Inr

interpretation hn: wire_codec enc_hostname read_hostname hostname_ok
proof
  fix h rest
  assume "hostname_ok h"
  then show "read_hostname (enc_hostname h @ rest) = Inr (h, rest)"
    by (auto simp: read_hostname_def enc_hostname_def hostname_ok_def codec_simps unat_len_byte
        of_nat_len_byte_eq_0 maxHostnameLen_def byte_le_255)
next
  fix bs h rest
  assume "read_hostname bs = Inr (h, rest)"
  then obtain n where "bs = n # h @ [terminatorByte] @ rest" "length h = unat n" "n \<noteq> 0"
    by (auto simp: read_hostname_def reader_simps split: if_splits)
  then show "bs = enc_hostname h @ rest \<and> hostname_ok h"
    using byte_less [of n] by (auto simp: enc_hostname_def hostname_ok_def unat_gt_0)
qed

interpretation cf: wire_codec enc_ctx_field read_ctx_field ctx_field_ok
proof
  fix c rest
  assume "ctx_field_ok c"
  then show "read_ctx_field (enc_ctx_field c @ rest) = Inr (c, rest)"
    by (simp add: read_ctx_field_def enc_ctx_field_def ctx_field_ok_def codec_simps unat_len_byte)
next
  fix bs c rest
  assume "read_ctx_field bs = Inr (c, rest)"
  then obtain k v t kn vn where "bs = kn # k @ [terminatorByte] @ t # vn # v @ [terminatorByte] @ rest"
    "length k = unat kn" "length v = unat vn" "c = \<lparr>Key = k, valType = t, Value = v\<rparr>"
    by (auto simp: read_ctx_field_def reader_simps)
  then show "bs = enc_ctx_field c @ rest \<and> ctx_field_ok c"
    using byte_less [of kn] byte_less [of vn] by (simp add: enc_ctx_field_def ctx_field_ok_def)
qed

lemma length_enc_ctx_field [length_simps]:
  "length (enc_ctx_field c) = 5 + length (Key c) + length (Value c)"
  by (simp add: enc_ctx_field_def)

lemma enc_ctx_field_not_Nil [simp]: "enc_ctx_field c \<noteq> []"
  by (simp add: enc_ctx_field_def)

lemma enc_ctx_fields_simps [simp]:
  "enc_ctx_fields [] = []" "enc_ctx_fields (c # cs) = enc_ctx_field c @ enc_ctx_fields cs"
  by (simp_all add: enc_ctx_fields_def)

lemma enc_ctx_fields_snoc [simp]: "enc_ctx_fields (cs @ [c]) = enc_ctx_fields cs @ enc_ctx_field c"
  by (simp add: enc_ctx_fields_def)

lemma read_ctx_loop_enc:
  "list_all ctx_field_ok cs \<Longrightarrow> read_ctx_loop (enc_ctx_fields cs) acc = Inr (acc @ cs)"
proof (induction cs arbitrary: acc)
  case Nil
  then show ?case by (simp add: read_ctx_loop.simps)
next
  case (Cons c cs)
  then show ?case
    by (subst read_ctx_loop.simps) (simp add: cf.dec_enc)
qed

lemma read_ctx_loop_sound:
  assumes "read_ctx_loop r acc = Inr cs"
  shows "\<exists>ds. cs = acc @ ds \<and> r = enc_ctx_fields ds \<and> list_all ctx_field_ok ds"
  using assms
proof (induction r acc rule: read_ctx_loop.induct)
  case (1 r acc)
  show ?case
  proof (cases "r = []")
    case True
    with "1.prems" show ?thesis by (intro exI [of _ "[]"]) (simp add: read_ctx_loop.simps [of "[]"])
  next
    case False
    with "1.prems" obtain c r' where c: "read_ctx_field r = Inr (c, r')"
      and rec: "read_ctx_loop r' (acc @ [c]) = Inr cs"
      by (auto simp: read_ctx_loop.simps [of r acc] rbind_eq_Inr)
    from "1.IH" [OF False c refl rec] obtain ds where
      "cs = (acc @ [c]) @ ds" "r' = enc_ctx_fields ds" "list_all ctx_field_ok ds" by blast
    with cf.dec_sound [OF c] show ?thesis by (intro exI [of _ "c # ds"]) simp
  qed
qed

lemma length_enc_ctx_fields_ge: "cs \<noteq> [] \<Longrightarrow> 5 \<le> length (enc_ctx_fields cs)"
  by (cases cs) (auto simp: length_simps)

interpretation cx: wire_codec enc_context read_context context_ok
proof
  fix cs rest
  assume ok: "context_ok cs"
  let ?n = "length (enc_ctx_fields cs)"
  show "read_context (enc_context cs @ rest) = Inr (cs, rest)"
  proof (cases "cs = []")
    case True
    then show ?thesis
      by (simp add: read_context_def enc_context_def customFieldsEmptyMarker_def codec_simps)
  next
    case False
    with ok have n: "5 \<le> ?n" "?n \<le> 65535" and l: "list_all ctx_field_ok cs"
      by (auto simp: context_ok_def dest: length_enc_ctx_fields_ge)
    then have "(of_nat ?n :: 16 word) \<noteq> 0" "(of_nat ?n :: 16 word) \<noteq> 1"
      using unat_len_word16 [of ?n] by (auto simp: of_nat_len_word16_eq_0)
    with n l False show ?thesis
      by (simp add: read_context_def enc_context_def customFieldsEmptyMarker_def codec_simps
          unat_len_word16 read_ctx_loop_enc)
  qed
next
  fix bs cs rest
  assume r: "read_context bs = Inr (cs, rest)"
  then obtain n buf where n: "read_uint16 bs = Inr (n, buf)" "n \<noteq> 0"
    by (auto simp: read_context_def rbind_eq_Inr split: if_splits)
  then have bs: "bs = put_uint16 n @ buf" by (auto dest: u16.dec_sound)
  show "bs = enc_context cs @ rest \<and> context_ok cs"
  proof (cases "n = customFieldsEmptyMarker")
    case True
    with r n bs show ?thesis
      by (auto simp: read_context_def rbind_eq_Inr readTerminator_eq_Inr enc_context_def context_ok_def)
  next
    case False
    with r n obtain raw where raw: "buf = raw @ terminatorByte # rest" "length raw = unat n"
      and lp: "read_ctx_loop raw [] = Inr cs"
      by (auto simp: read_context_def reader_simps)
    from read_ctx_loop_sound [OF lp] have cs: "raw = enc_ctx_fields cs" "list_all ctx_field_ok cs" by auto
    have "cs \<noteq> []"
      using cs raw(2) n(2) by (auto simp: unat_eq_zero)
    moreover have "length raw \<le> 65535"
      using raw(2) word16_less [of n] by simp
    ultimately show ?thesis
      using bs raw cs by (simp add: enc_context_def context_ok_def)
  qed
qed

interpretation dt: wire_codec enc_data read_data data_ok
proof
  fix d rest
  assume "data_ok d"
  then show "read_data (enc_data d @ rest) = Inr (d, rest)"
    by (auto simp: read_data_def enc_data_def data_ok_def codec_simps unat_len_word16
        of_nat_len_word16_eq_0)
next
  fix bs d rest
  assume "read_data bs = Inr (d, rest)"
  then obtain n buf where "read_uint16 bs = Inr (n, buf)" "n \<noteq> 0" "buf = d @ rest" "length d = unat n"
    by (auto simp: read_data_def reader_simps split: if_splits)
  then show "bs = enc_data d @ rest \<and> data_ok d"
    using word16_less [of n] by (auto simp: enc_data_def data_ok_def unat_gt_0 dest: u16.dec_sound)
qed

lemma GetSignatureInfo_lengths:
  "GetSignatureInfo P i = Some suite \<Longrightarrow>
     MaxSignatureLength suite \<le> 255 \<and> MinSignatureLength suite \<le> 255"
  by (auto simp: registry_defs crypto_sizes split: if_splits)

interpretation sg: wire_codec enc_signature "read_signature P" "signature_ok P" for P
proof
  fix s :: "8 word \<times> bytes" and rest
  assume "signature_ok P s"
  then obtain suite where g: "GetSignatureInfo P (fst s) = Some suite" "fst s = 0 \<longleftrightarrow> snd s = []"
    "snd s \<noteq> [] \<Longrightarrow> MinSignatureLength suite \<le> length (snd s) \<and> length (snd s) \<le> MaxSignatureLength suite"
    by (auto simp: signature_ok_def)
  then have "length (snd s) \<le> 255"
    using GetSignatureInfo_lengths [OF g(1)] by (cases "snd s = []") auto
  with g GetSignatureInfo_lengths [OF g(1)] show "read_signature P (enc_signature s @ rest) = Inr (s, rest)"
    by (cases s)
      (auto simp: read_signature_def enc_signature_def codec_simps word_less_nat_alt unat_len_byte
        word_greater_zero_iff of_nat_len_byte_eq_0)
next
  fix bs s rest
  assume r: "read_signature P bs = Inr (s, rest)"
  obtain i sig where s: "s = (i, sig)" by (cases s)
  from r s obtain suite n where g: "GetSignatureInfo P i = Some suite" and
    n: "bs = i # n # sig @ rest" "length sig = unat n" "i = 0 \<longleftrightarrow> n = 0" and
    b: "n > 0 \<Longrightarrow> \<not> n > of_nat (MaxSignatureLength suite) \<and> \<not> n < of_nat (MinSignatureLength suite)"
    by (auto simp: read_signature_def reader_simps word_greater_zero_iff split: option.splits if_splits)
  have "sig \<noteq> [] \<Longrightarrow> MinSignatureLength suite \<le> length sig \<and> length sig \<le> MaxSignatureLength suite"
    using b n(2) GetSignatureInfo_lengths [OF g]
    by (simp add: word_less_nat_alt unat_len_byte not_less flip: length_greater_0_conv)
  moreover have "n = 0 \<longleftrightarrow> sig = []"
    using n(2) by (auto simp: unat_eq_zero)
  ultimately show "bs = enc_signature s @ rest \<and> signature_ok P s"
    using s g n by (auto simp: enc_signature_def signature_ok_def)
qed

section \<open>The writer and the reader against the layout\<close>

lemma writeContextFields_eq: "writeContextFields buf cs = Inr (buf @ enc_ctx_fields cs)"
  by (induction cs arbitrary: buf) (simp_all add: enc_ctx_field_def Let_def)

text \<open>The writer: the layout of its fields and the random padding, or one of its three errors.\<close>

definition inner_writable :: "innerWireFormat \<Rightarrow> bool" where
  "inner_writable f \<longleftrightarrow>
     0 < length (w_Hostname f) \<and> length (enc_ctx_fields (w_ContextFields f)) \<le> 65535 \<and>
     0 < length (w_Data f) \<and> length (w_Data f) \<le> 65535"

lemma enc_context_eq:
  "enc_context cs =
     (if 0 < length (enc_ctx_fields cs)
      then put_uint16 (of_nat (length (enc_ctx_fields cs))) @ enc_ctx_fields cs
      else put_uint16 customFieldsEmptyMarker) @ [terminatorByte]"
  by (cases cs) (auto simp: enc_context_def)

lemma ConstructInnerPayload_eq:
  assumes "inner_writable f"
  shows "ConstructInnerPayload f tp =
    (if w_PaddingLen f < 0 then Inl Panic
     else rbind (rand_Read (nat (w_PaddingLen f)) tp) (\<lambda>(padding, tp'). Inr (inner_bytes f @ padding, tp')))"
  using assms
  by (simp add: ConstructInnerPayload_def inner_writable_def writeContextFields_eq writeUint16_def len_consts
      inner_bytes_def enc_hostname_def enc_signature_def enc_context_eq enc_data_def Let_def
      cong: if_cong)

lemma ConstructInnerPayload_error:
  assumes "\<not> inner_writable f"
  shows "ConstructInnerPayload f tp = Inl (Err [ErrProtocolViolation])"
  using assms
  by (auto simp: ConstructInnerPayload_def inner_writable_def writeContextFields_eq writeUint16_def len_consts
      Let_def not_less)

lemma ConstructInnerPayload_eq_Inr:
  "ConstructInnerPayload f tp = Inr (bs, tp') \<longleftrightarrow>
     inner_writable f \<and> 0 \<le> w_PaddingLen f \<and>
     (\<exists>padding. rand_Read (nat (w_PaddingLen f)) tp = Inr (padding, tp') \<and> bs = inner_bytes f @ padding)"
  by (cases "inner_writable f")
    (auto simp: ConstructInnerPayload_eq ConstructInnerPayload_error rbind_eq_Inr split: if_splits)

lemma inner_wf_writable: "inner_wf P f \<Longrightarrow> inner_writable f"
  by (simp add: inner_wf_def inner_writable_def hostname_ok_def context_ok_def data_ok_def)

lemma DeconstructInnerPayload_bytes:
  assumes "inner_wf P f" and "int (length pad) = w_PaddingLen f"
    and "minInnerPayloadLen \<le> length (inner_bytes f @ pad)"
  shows "DeconstructInnerPayload P (inner_bytes f @ pad) = Inr f"
  using assms
  by (simp add: DeconstructInnerPayload_def inner_bytes_def codec_simps inner_wf_def
      hn.dec_enc sg.dec_enc cx.dec_enc dt.dec_enc)

lemma DeconstructInnerPayload_sound:
  assumes "DeconstructInnerPayload P bs = Inr f"
  shows "\<exists>pad. bs = inner_bytes f @ pad \<and> int (length pad) = w_PaddingLen f \<and> inner_wf P f \<and>
    minInnerPayloadLen \<le> length bs"
proof -
  from assms have len: "minInnerPayloadLen \<le> length bs"
    by (auto simp: DeconstructInnerPayload_def split: if_splits)
  with assms obtain a b1 b b2 c b3 d b4 e b5 h b6 i s b7 cs b8 dd pad where
    r: "read_uint32 bs = Inr (a, b1)" "read_uint32 b1 = Inr (b, b2)" "read_uint16 b2 = Inr (c, b3)"
      "read_uint16 b3 = Inr (d, b4)" "read_uint64 b4 = Inr (e, b5)" "read_hostname b5 = Inr (h, b6)"
      "read_signature P b6 = Inr ((i, s), b7)" "read_context b7 = Inr (cs, b8)" "read_data b8 = Inr (dd, pad)"
    and f: "f = \<lparr> w_HostID = a, w_MsgID = b, w_MessageSeq = c, w_MessageSeqMax = d, w_Timestamp = e,
      w_Hostname = h, w_SignatureID = i, w_Signature = s, w_ContextFields = cs, w_Data = dd,
      w_PaddingLen = int (length pad) \<rparr>"
    by (auto simp: DeconstructInnerPayload_def rbind_eq_Inr)
  note parts = u32.dec_sound [OF r(1)] u32.dec_sound [OF r(2)] u16.dec_sound [OF r(3)]
    u16.dec_sound [OF r(4)] u64.dec_sound [OF r(5)] hn.dec_sound [OF r(6)] sg.dec_sound [OF r(7)]
    cx.dec_sound [OF r(8)] dt.dec_sound [OF r(9)]
  show ?thesis
    using parts f len by (intro exI [of _ pad]) (simp add: inner_bytes_def inner_wf_def)
qed

lemma DeconstructInnerPayload_iff:
  "DeconstructInnerPayload P bs = Inr f \<longleftrightarrow>
     inner_wf P f \<and> minInnerPayloadLen \<le> length bs \<and>
     (\<exists>pad. bs = inner_bytes f @ pad \<and> int (length pad) = w_PaddingLen f)"
  using DeconstructInnerPayload_sound [of P bs f] DeconstructInnerPayload_bytes [of P f] by auto

lemma inner_roundtrip:
  assumes "inner_wf P f" and "ConstructInnerPayload f tp = Inr (bs, tp')"
    and "minInnerPayloadLen \<le> length bs"
  shows "DeconstructInnerPayload P bs = Inr f"
  using assms by (auto simp: ConstructInnerPayload_eq_Inr DeconstructInnerPayload_iff dest: rand_Read_eq_Inr)

lemma length_inner_bytes [length_simps]:
  "length (inner_bytes f) = 22 + length (w_Hostname f) + 2 + length (w_Signature f) +
     (2 + length (enc_ctx_fields (w_ContextFields f)) + 1) + (2 + length (w_Data f))"
  by (simp add: inner_bytes_def enc_hostname_def enc_signature_def enc_context_eq enc_data_def)

section \<open>Properties\<close>

text \<open>
  The rules of \<^verbatim>\<open>docs/Protocol.md\<close> for the context section that go beyond the layout: a section that is there has a
  length of more than 7 bytes, and neither a key nor a value is empty.
\<close>

definition documented_context :: "contextWireFormat list \<Rightarrow> bool" where
  "documented_context cs \<longleftrightarrow>
     cs = [] \<or> 7 < length (enc_ctx_fields cs) \<and> list_all (\<lambda>c. Key c \<noteq> [] \<and> Value c \<noteq> []) cs"

definition carrier :: "contextWireFormat list \<Rightarrow> innerWireFormat" where
  "carrier cs = \<lparr>w_HostID = 1, w_MsgID = 1, w_MessageSeq = 0, w_MessageSeqMax = 0, w_Timestamp = 1, w_Hostname = [104],
     w_SignatureID = 0, w_Signature = [], w_ContextFields = cs, w_Data = [100], w_PaddingLen = 60\<rparr>"

lemma carrier_read:
  assumes "context_ok cs"
  shows "DeconstructInnerPayload P (inner_bytes (carrier cs) @ replicate 60 7) = Inr (carrier cs)"
  by (rule DeconstructInnerPayload_bytes)
    (use assms in \<open>simp_all add: inner_wf_def carrier_def hostname_ok_def signature_ok_def data_ok_def registry_defs len_consts length_simps\<close>)

text \<open>A section of 7 bytes with a key and a value of one byte each, an empty key, and an empty value.\<close>

definition undocumented_contexts :: "contextWireFormat list list" where
  "undocumented_contexts =
     [[\<lparr>Key = [107], valType = ContextBool, Value = [1]\<rparr>],
      [\<lparr>Key = [], valType = ContextString, Value = [97, 98, 99]\<rparr>],
      [\<lparr>Key = [107, 101, 121], valType = ContextString, Value = []\<rparr>]]"

text \<open>
  C7. The reader accepts exactly the byte sequences of the layout: the fields of a wire format one after the
  other (hostname and data not empty, a signature of the length its suite asks for, every length field equal to the length
  of what follows it), followed by as many bytes as its padding length says, of at least
  the minimum length. Nothing else is accepted and the result is determined by the bytes. The rules of the
  protocol document on short context sections, empty keys and empty values are not among the conditions: for
  each of the three there is a payload that violates it and is accepted.
\<close>

theorem inner_payload_canonical:
  "(DeconstructInnerPayload P bs = Inr f \<longleftrightarrow>
     inner_wf P f \<and> minInnerPayloadLen \<le> length bs \<and>
     (\<exists>pad. bs = inner_bytes f @ pad \<and> int (length pad) = w_PaddingLen f)) \<and>
   list_all (\<lambda>cs. \<not> documented_context cs \<and>
     (\<exists>bs' f'. DeconstructInnerPayload P bs' = Inr f' \<and> w_ContextFields f' = cs)) undocumented_contexts"
proof (intro conjI)
  have "\<exists>bs' f'. DeconstructInnerPayload P bs' = Inr f' \<and> w_ContextFields f' = cs" if "context_ok cs" for cs
    using carrier_read [OF that] by (fastforce simp: carrier_def)
  moreover have "list_all (\<lambda>cs. \<not> documented_context cs \<and> context_ok cs) undocumented_contexts" by code_simp
  ultimately show "list_all (\<lambda>cs. \<not> documented_context cs \<and>
      (\<exists>bs' f'. DeconstructInnerPayload P bs' = Inr f' \<and> w_ContextFields f' = cs)) undocumented_contexts"
    by (auto simp: list_all_iff)
qed (rule DeconstructInnerPayload_iff)

text \<open>
  C8. On every input the writer either reports a protocol violation (empty hostname, empty or
  oversized data, oversized context section), panics on a negative padding length, fails with the
  random source, or returns the layout of its fields followed by the random padding.
\<close>

theorem inner_payload_written:
  "ConstructInnerPayload f tp =
     (if \<not> inner_writable f then Inl (Err [ErrProtocolViolation])
      else if w_PaddingLen f < 0 then Inl Panic
      else rbind (rand_Read (nat (w_PaddingLen f)) tp) (\<lambda>(padding, tp'). Inr (inner_bytes f @ padding, tp')))"
  by (simp add: ConstructInnerPayload_eq ConstructInnerPayload_error)

end
