(* ===== verification/Proto_Payload.thy ===== *)
theory Proto_Payload
  imports Proto_Inner Crypto_Wrappers
begin

text \<open>
  \<^verbatim>\<open>pkg/protocol/payload.go\<close>: a payload is validated and turned into the inner wire format by the
  sender, and back by the receiver, which also decides the trust in the alleged hostname. The
  properties are the round trip of a payload, the meaning of an accepted hostname, and the layout
  of the signed bytes.
\<close>

section \<open>Removing trust markers\<close>

text \<open>
  \<^verbatim>\<open>strings.ReplaceAll(s, old, "")\<close> and \<^verbatim>\<open>bytes.ReplaceAll(s, old, nil)\<close>: one pass from the left
  over non-overlapping occurrences.
\<close>

function remove_all :: "bytes \<Rightarrow> bytes \<Rightarrow> bytes" where
  "remove_all old [] = []"
| "remove_all old (b # s) =
     (if old \<noteq> [] \<and> take (length old) (b # s) = old
      then remove_all old (drop (length old) (b # s))
      else b # remove_all old s)"
  by pat_completeness auto
termination
  by (relation "measure (\<lambda>(old, s). length s)") auto

declare remove_all.simps(2) [simp del]

definition strip_markers :: "bytes \<Rightarrow> bytes" where
  "strip_markers h = remove_all HostPrefixUnverified (remove_all HostPrefixUnkSig h)"

lemma set_remove_all: "set (remove_all old s) \<subseteq> set s"
proof (induction old s rule: remove_all.induct)
  case (2 old b s)
  have "set (drop (length old) (b # s)) \<subseteq> set (b # s)"
    by (rule set_drop_subset)
  with 2 show ?case
    by (cases "old \<noteq> [] \<and> take (length old) (b # s) = old") (force simp: remove_all.simps(2))+
qed simp

lemma length_remove_all: "length (remove_all old s) \<le> length s"
proof (induction old s rule: remove_all.induct)
  case (2 old b s)
  then show ?case by (auto simp: remove_all.simps(2))
qed simp

section \<open>Sender\<close>

definition construct_signature :: "crypto_prims \<Rightarrow> Payload \<Rightarrow> 8 word \<Rightarrow> bytes d3p_res" where
  "construct_signature P request sigID =
     (if sigID > 0 then
        if length (Signature request) = 0 then Inl (Err [ErrInvalidPayload])
        else (case GetSignatureInfo P sigID of
                None \<Rightarrow> Inl (Err [ErrInvalidPayload, ErrUnknownSignatureSuite])
              | Some suite \<Rightarrow>
                  if sigID \<noteq> SignatureID request then Inl (Err [ErrInvalidPayload])
                  else if length (Signature request) > MaxSignatureLength suite \<or>
                          length (Signature request) < MinSignatureLength suite
                  then Inl (Err [ErrInvalidPayload])
                  else if length (Signature request) < minSignatureLen \<or>
                          length (Signature request) > maxSignatureLen
                  then Inl (Err [ErrInvalidPayload])
                  else Inr (Signature request))
      else Inr [])"

definition construct_field :: "bytes \<Rightarrow> any \<Rightarrow> contextWireFormat d3p_res" where
  "construct_field key value =
     (let cleanKey = cleanStringToBytes key maxCtxKeyLen in
      if length cleanKey < minCtxKeyLen then Inl (Err [ErrInvalidPayload, ErrInvalidContextField])
      else if length cleanKey > maxCtxKeyLen then Inl (Err [ErrInvalidPayload, ErrInvalidContextField])
      else
      rbind (if value = AnyNil then Inr (ContextString, EmptyFieldChar)
             else rbind (wrap [ErrSerialization] (serializeAnyValue value)) (\<lambda>(cleanType, v).
                  let cleanValue = (if length v < minCtxValLen then EmptyFieldChar else v) in
                  if length cleanValue > MaxCtxValLen
                  then Inl (Err [ErrInvalidPayload, ErrInvalidContextField])
                  else if cleanType = ContextString \<and> \<not> utf8_valid cleanValue
                  then Inl (Err [ErrInvalidPayload, ErrInvalidContextField])
                  else Inr (cleanType, cleanValue))) (\<lambda>(cleanType, cleanValue).
      Inr \<lparr>Key = cleanKey, valType = cleanType, Value = cleanValue\<rparr>))"

text \<open>The loop in key order, with the running length of the serialized section.\<close>

fun construct_fields :: "fields \<Rightarrow> contextWireFormat list \<Rightarrow> nat \<Rightarrow> (contextWireFormat list \<times> nat) d3p_res" where
  "construct_fields [] acc totalCtxLen = Inr (acc, totalCtxLen)"
| "construct_fields ((key, value) # m) acc totalCtxLen =
     rbind (construct_field key value) (\<lambda>e.
     construct_fields m (acc @ [e])
       (totalCtxLen + (lenCtxKeyNxtLen + length (Key e) + lenCtxKeyTerminator + lenCtxTypeVal +
                       lenCtxValNxtLen + length (Value e) + lenCtxValTerminator)))"

definition construct_context :: "fields \<Rightarrow> contextWireFormat list d3p_res" where
  "construct_context m =
     (if length m > 0 then
        rbind (construct_fields m [] 0) (\<lambda>(entries, totalCtxLen).
        if totalCtxLen < minCtxSecLenWithData then Inl (Err [ErrInvalidPayload])
        else if totalCtxLen > maxCtxSectionLen then Inl (Err [ErrInvalidPayload])
        else Inr entries)
      else Inr [])"

text \<open>
  The caller's payload is changed (its hostname is stripped), so the result carries it beside the
  outcome. The context map is its list of entries in key order.
\<close>

definition ConstructPayload :: "crypto_prims \<Rightarrow> Payload \<Rightarrow> 8 word \<Rightarrow> Payload \<times> innerWireFormat d3p_res" where
  "ConstructPayload P request sigID =
     (if HostID request = 0 then (request, Inl (Err [ErrInvalidPayload]))
      else if MsgID request = 0 then (request, Inl (Err [ErrInvalidPayload]))
      else if MessageSeq request > MessageSeqMax request then (request, Inl (Err [ErrInvalidPayload]))
      else
        let request = request\<lparr>Hostname := remove_all HostPrefixUnkSig (Hostname request)\<rparr>;
            request = request\<lparr>Hostname := remove_all HostPrefixUnverified (Hostname request)\<rparr> in
        (request,
         rbind (construct_signature P request sigID) (\<lambda>sig.
         rbind (construct_context (CustomFields request)) (\<lambda>cs.
         if PaddingLen request < int minPaddingLen \<or> PaddingLen request > int maxPaddingLen
         then Inl (Err [ErrInvalidPayload])
         else Inr \<lparr> w_HostID = of_int (HostID request), w_MsgID = of_int (MsgID request),
                w_MessageSeq = of_int (MessageSeq request),
                w_MessageSeqMax = of_int (MessageSeqMax request),
                w_Timestamp = of_int (UnixMilli (Timestamp request)),
                w_Hostname = cleanStringToBytes (Hostname request) maxHostnameLen,
                w_SignatureID = sigID, w_Signature = sig, w_ContextFields = cs,
                w_Data = Data request, w_PaddingLen = PaddingLen request \<rparr>))))"

text \<open>The signed bytes: context string, timestamp, host ID, hostname.\<close>

definition SerializeSignature :: "bytes \<Rightarrow> 32 word \<Rightarrow> 64 word \<Rightarrow> bytes" where
  "SerializeSignature hostname hostID timestamp =
     IdentitySignatureContext @ put_uint64 timestamp @ put_uint32 hostID @ hostname"

fun fields_overhead :: "fields \<Rightarrow> nat d3p_res" where
  "fields_overhead [] = Inr 0"
| "fields_overhead ((key, value) # m) =
     rbind (wrap [ErrSerialization] (serializeAnyValue value)) (\<lambda>(_, data).
     rbind (fields_overhead m) (\<lambda>n. Inr (ctxFieldOverhead + length key + length data + n)))"

definition CalculateProtocolOverhead :: "crypto_prims \<Rightarrow> 8 word \<Rightarrow> Payload \<Rightarrow> nat d3p_res" where
  "CalculateProtocolOverhead P suiteID primaryPayload =
     (case GetSuiteInfo P suiteID of
        None \<Rightarrow> Inl (Err [ErrUnknownSuite])
      | Some cryptoInfo \<Rightarrow>
          let outerTotal = SuiteIDLen + KeySize cryptoInfo + NonceSize cryptoInfo + CipherOverhead cryptoInfo in
          rbind (fields_overhead (CustomFields primaryPayload)) (\<lambda>ctx.
          let innerVariableLength = length (Hostname primaryPayload) + length (Signature primaryPayload) + ctx +
                (lenContextSectionNxtLen + lenContextSectionTerminator) in
          Inr (outerTotal + minInnerPayloadLenFixedOnly + innerVariableLength)))"

section \<open>Receiver\<close>

definition check_identity :: "crypto_prims \<Rightarrow> wrappers \<Rightarrow> innerWireFormat \<Rightarrow> bytes \<Rightarrow> bytes d3p_res" where
  "check_identity P W proto hostname =
     (case LookupPinnedSender W hostname of
        Some pubKey \<Rightarrow>
          if w_SignatureID proto = 0 then Inl (Err [ErrInvalidPayload])
          else rbind (wrap [ErrCryptoFailure]
                 (VerifySignature P W pubKey
                    (SerializeSignature hostname (w_HostID proto) (w_Timestamp proto))
                    (w_Signature proto) (w_SignatureID proto))) (\<lambda>valid.
               if \<not> valid then Inl (Err [ErrInvalidPayload]) else Inr hostname)
      | None \<Rightarrow>
          if w_SignatureID proto = 0 then Inr (HostPrefixUnverified @ hostname)
          else Inr (HostPrefixUnkSig @ hostname))"

definition validate_field :: "contextWireFormat \<Rightarrow> any d3p_res" where
  "validate_field field =
     (if length (Key field) < minCtxKeyLen then Inl (Err [ErrInvalidPayload, ErrInvalidContextField])
      else if length (Key field) > maxCtxKeyLen then Inl (Err [ErrInvalidPayload, ErrInvalidContextField])
      else if \<not> isPrintableASCII (Key field) then Inl (Err [ErrInvalidPayload, ErrInvalidContextField])
      else if length (Value field) < minCtxValLen \<or> length (Value field) > MaxCtxValLen
      then Inl (Err [ErrInvalidPayload, ErrInvalidContextField])
      else if valType field = ContextString \<and> \<not> utf8_valid (Value field)
      then Inl (Err [ErrInvalidPayload, ErrInvalidContextField])
      else wrap [ErrSerialization] (deserializeAnyValue (valType field) (Value field)))"

fun validate_fields :: "contextWireFormat list \<Rightarrow> fields \<Rightarrow> fields d3p_res" where
  "validate_fields [] m = Inr m"
| "validate_fields (c # cs) m =
     rbind (validate_field c) (\<lambda>value. validate_fields cs (map_put (Key c) value m))"

text \<open>The wire format is not used by a caller after it was validated.\<close>

definition DeconstructPayload :: "crypto_prims \<Rightarrow> wrappers \<Rightarrow> innerWireFormat \<Rightarrow> Payload d3p_res" where
  "DeconstructPayload P W proto =
     (if w_HostID proto = 0 then Inl (Err [ErrInvalidPayload])
      else if w_MsgID proto = 0 then Inl (Err [ErrInvalidPayload])
      else if w_MessageSeq proto > w_MessageSeqMax proto then Inl (Err [ErrInvalidPayload])
      else if length (w_Hostname proto) = 0 then Inl (Err [ErrInvalidPayload])
      else if length (w_Hostname proto) > maxHostnameLen then Inl (Err [ErrInvalidPayload])
      else if \<not> isPrintableASCII (w_Hostname proto) then Inl (Err [ErrInvalidPayload])
      else
        let hostname = remove_all HostPrefixUnkSig (w_Hostname proto);
            hostname = remove_all HostPrefixUnverified hostname in
        rbind (check_identity P W proto hostname) (\<lambda>host.
        rbind (validate_fields (w_ContextFields proto) []) (\<lambda>fs.
        if length (w_Data proto) = 0 then Inl (Err [ErrInvalidPayload])
        else if w_PaddingLen proto < int minPaddingLen \<or> w_PaddingLen proto > int maxPaddingLen
        then Inl (Err [ErrInvalidPayload])
        else Inr \<lparr> RemoteIP = AddrZero, HostID = uint (w_HostID proto), MsgID = uint (w_MsgID proto),
               MessageSeq = uint (w_MessageSeq proto), MessageSeqMax = uint (w_MessageSeqMax proto),
               Timestamp = time_UnixMilli (sint (w_Timestamp proto)), Hostname = host,
               SignatureID = w_SignatureID proto, Signature = w_Signature proto,
               CustomFields = fs, Data = w_Data proto, PaddingLen = w_PaddingLen proto \<rparr>)))"

section \<open>Context fields survive the wire\<close>

definition finite_value :: "any \<Rightarrow> bool" where
  "finite_value v = (case v of AnyFloat32 b \<Rightarrow> \<not> nan_or_inf32 b | AnyFloat64 b \<Rightarrow> \<not> nan_or_inf64 b | _ \<Rightarrow> True)"

text \<open>What the receiver holds for a value: its wire form, with the placeholder for nil and empty ones.\<close>

definition recv_value :: "any \<Rightarrow> any" where
  "recv_value v =
     (if v = AnyNil then AnyString EmptyFieldChar
      else (case norm_any v of AnyString [] \<Rightarrow> AnyString EmptyFieldChar | w \<Rightarrow> w))"

definition recv_fields :: "fields \<Rightarrow> fields \<Rightarrow> fields" where
  "recv_fields fs m = fold (\<lambda>(k, v). map_put (cleanStringToBytes k maxCtxKeyLen) (recv_value v)) fs m"

lemma deserialize_placeholder: "deserializeAnyValue ContextString EmptyFieldChar = Inr (AnyString EmptyFieldChar)"
  and utf8_placeholder: "utf8_valid EmptyFieldChar"
  and length_placeholder: "length EmptyFieldChar = 1"
  by (simp_all add: deserializeAnyValue_def EmptyFieldChar_eq read_full_def utf8_valid.simps(2)
      decode_rune.simps Let_def RuneError_def)

lemma put_uint_not_Nil: "put_uint8 a \<noteq> []" "put_uint16 b \<noteq> []" "put_uint32 c \<noteq> []" "put_uint64 d \<noteq> []"
  by (simp_all flip: length_0_conv)

lemma serialize_empty:
  assumes "serializeAnyValue v = Inr (vt, [])"
  shows "vt = ContextString \<and> norm_any v = AnyString [] \<and> v \<noteq> AnyNil"
  using assms by (induction v rule: serializeAnyValue.induct) (auto simp: put_uint_not_Nil split: if_splits)

lemma serialize_not_empty:
  assumes "serializeAnyValue v = Inr (vt, d)" and "d \<noteq> []"
  shows "norm_any v \<noteq> AnyString [] \<and> v \<noteq> AnyNil"
  using assms by (induction v rule: serializeAnyValue.induct) (auto split: if_splits)

lemma serialize_wire_value:
  assumes "serializeAnyValue v = Inr (vt, d)" and "length d \<le> 255" and "finite_value v"
    and "vt = ContextString \<Longrightarrow> utf8_valid d"
  shows "wire_value v"
  using assms by (induction v rule: serializeAnyValue.induct) (auto simp: finite_value_def)

lemma recv_value_nonempty: "norm_any v \<noteq> AnyString [] \<Longrightarrow> v \<noteq> AnyNil \<Longrightarrow> recv_value v = norm_any v"
  by (auto simp: recv_value_def split: any.splits list.splits)

lemma construct_field_validate:
  assumes c: "construct_field key v = Inr e" and fin: "finite_value v"
  shows "validate_field e = Inr (recv_value v)"
proof -
  have key: "Key e = cleanStringToBytes key maxCtxKeyLen" "minCtxKeyLen \<le> length (Key e)"
    "length (Key e) \<le> maxCtxKeyLen"
    using c by (auto simp: construct_field_def rbind_eq_Inr Let_def not_less split: if_splits)
  then have pr: "isPrintableASCII (Key e)" by (simp add: isPrintableASCII_clean)
  show ?thesis
  proof (cases "v = AnyNil")
    case True
    with c have "valType e = ContextString" "Value e = EmptyFieldChar"
      by (auto simp: construct_field_def Let_def split: if_splits)
    with key pr True show ?thesis
      by (simp add: validate_field_def recv_value_def deserialize_placeholder utf8_placeholder
          length_placeholder len_consts Suc_le_eq)
  next
    case False
    with c obtain d where d: "serializeAnyValue v = Inr (valType e, d)"
      and val: "Value e = (if length d < minCtxValLen then EmptyFieldChar else d)"
      and chk: "length (Value e) \<le> MaxCtxValLen" "valType e = ContextString \<Longrightarrow> utf8_valid (Value e)"
      by (auto simp: construct_field_def rbind_eq_Inr Let_def not_less split: if_splits)
    show ?thesis
    proof (cases "d = []")
      case True
      with d val serialize_empty [of v "valType e"] key pr show ?thesis
        by (simp add: validate_field_def recv_value_def deserialize_placeholder utf8_placeholder
            length_placeholder len_consts Suc_le_eq)
    next
      case False
      with val have vd: "Value e = d" by (simp add: len_consts)
      have "wire_value v"
        using d vd chk fin by (intro serialize_wire_value) (auto simp: len_consts)
      with d vd False chk key pr serialize_not_empty [OF d False] show ?thesis
        by (auto simp: validate_field_def serialize_deserialize recv_value_nonempty len_consts Suc_le_eq)
    qed
  qed
qed

lemma construct_field_ok:
  "construct_field key v = Inr e \<Longrightarrow>
     ctx_field_ok e \<and> Key e = cleanStringToBytes key maxCtxKeyLen"
  by (auto simp: construct_field_def rbind_eq_Inr Let_def not_less ctx_field_ok_def len_consts
      EmptyFieldChar_eq split: if_splits)

lemma construct_fields_eq:
  "construct_fields m acc n = Inr (es, t) \<longleftrightarrow>
     (\<exists>ds. es = acc @ ds \<and> list_all2 (\<lambda>(k, v) e. construct_field k v = Inr e) m ds \<and>
        t = n + length (enc_ctx_fields ds))"
proof (induction m arbitrary: acc n)
  case (Cons kv m)
  obtain k v where "kv = (k, v)" by (cases kv)
  with Cons show ?case
    by (auto simp: rbind_eq_Inr list_all2_Cons1 length_simps len_consts)
qed auto

lemma construct_context_eq_Inr:
  assumes "construct_context m = Inr es"
  shows "list_all2 (\<lambda>(k, v) e. construct_field k v = Inr e) m es" and "context_ok es"
proof -
  show l: "list_all2 (\<lambda>(k, v) e. construct_field k v = Inr e) m es"
    using assms by (auto simp: construct_context_def rbind_eq_Inr construct_fields_eq split: if_splits)
  have "length (enc_ctx_fields es) \<le> 65535"
    using assms
    by (auto simp: construct_context_def rbind_eq_Inr construct_fields_eq len_consts not_less split: if_splits)
  moreover have "list_all ctx_field_ok es"
    using l by (induction m es rule: list_all2_induct) (auto dest: construct_field_ok)
  ultimately show "context_ok es" by (simp add: context_ok_def)
qed

lemma validate_construct_fields:
  assumes "list_all2 (\<lambda>(k, v) e. construct_field k v = Inr e) m es"
    and "list_all (\<lambda>(k, v). finite_value v) m"
  shows "validate_fields es fs = Inr (recv_fields m fs)"
  using assms
proof (induction m es arbitrary: fs rule: list_all2_induct)
  case (Cons kv m e es)
  obtain k v where kv: "kv = (k, v)" by (cases kv)
  with Cons have "validate_field e = Inr (recv_value v)" "Key e = cleanStringToBytes k maxCtxKeyLen"
    by (auto dest: construct_field_validate construct_field_ok)
  with Cons kv show ?case by (simp add: recv_fields_def)
qed (simp add: recv_fields_def)

text \<open>Keys that fit the wire as they are keep every field.\<close>

definition wire_key :: "bytes \<Rightarrow> bool" where
  "wire_key k \<longleftrightarrow> isPrintableASCII k \<and> k \<noteq> [] \<and> length k \<le> maxCtxKeyLen"

lemma recv_fields_append:
  assumes "fields_ok (map (apsnd recv_value) (ms @ fs))" and "list_all (wire_key \<circ> fst) fs"
  shows "recv_fields fs (map (apsnd recv_value) ms) = map (apsnd recv_value) (ms @ fs)"
  using assms
proof (induction fs arbitrary: ms)
  case (Cons kv fs)
  obtain k v where kv: "kv = (k, v)" by (cases kv)
  have "fields_ok (map (apsnd recv_value) ms @ [(k, recv_value v)])"
    using Cons.prems(1) by (auto simp: fields_ok_def kv sorted_wrt_append)
  then have "map_put k (recv_value v) (map (apsnd recv_value) ms) = map (apsnd recv_value) (ms @ [(k, v)])"
    by (simp add: map_put_snoc)
  with Cons.IH [of "ms @ [(k, v)]"] Cons.prems show ?case
    by (simp add: recv_fields_def kv wire_key_def clean_id)
qed (simp add: recv_fields_def)

lemma recv_fields_id:
  assumes "fields_ok fs" and "list_all (wire_key \<circ> fst) fs"
  shows "recv_fields fs [] = map (apsnd recv_value) fs"
  using recv_fields_append [of "[]" fs] assms by (simp add: fields_ok_def)

lemma validate_fields_ok: "validate_fields cs m = Inr m' \<Longrightarrow> fields_ok m \<Longrightarrow> fields_ok m'"
  by (induction cs arbitrary: m) (auto simp: rbind_eq_Inr intro: fields_ok_map_put)

section \<open>A constructed payload is a well-formed wire format\<close>

lemma construct_signature_ok:
  assumes "construct_signature P request i = Inr sig"
  shows "signature_ok P (i, sig)" and "sig = (if i = 0 then [] else Signature request)"
    and "i \<noteq> 0 \<Longrightarrow> i = SignatureID request"
  using assms
  by (auto simp: construct_signature_def signature_ok_def word_greater_zero_iff not_less registry_defs
      split: if_splits option.splits)

lemma construct_signature_Hostname:
  "construct_signature P (req\<lparr>Hostname := h\<rparr>) i = construct_signature P req i"
  by (simp add: construct_signature_def cong: option.case_cong if_cong)

lemma ConstructPayload_eq_Inr:
  assumes "ConstructPayload P req i = (req', Inr proto)"
  shows "req' = req\<lparr>Hostname := strip_markers (Hostname req)\<rparr>"
    and "HostID req \<noteq> 0" "MsgID req \<noteq> 0" "MessageSeq req \<le> MessageSeqMax req"
    and "int minPaddingLen \<le> PaddingLen req" "PaddingLen req \<le> int maxPaddingLen"
    and "construct_signature P req i = Inr (w_Signature proto)"
    and "construct_context (CustomFields req) = Inr (w_ContextFields proto)"
    and "proto = \<lparr> w_HostID = of_int (HostID req), w_MsgID = of_int (MsgID req),
           w_MessageSeq = of_int (MessageSeq req), w_MessageSeqMax = of_int (MessageSeqMax req),
           w_Timestamp = of_int (UnixMilli (Timestamp req)),
           w_Hostname = cleanStringToBytes (strip_markers (Hostname req)) maxHostnameLen,
           w_SignatureID = i, w_Signature = w_Signature proto, w_ContextFields = w_ContextFields proto,
           w_Data = Data req, w_PaddingLen = PaddingLen req \<rparr>"
  using assms
  by (auto simp: ConstructPayload_def rbind_eq_Inr Let_def not_less strip_markers_def
      construct_signature_Hostname split: if_splits)

lemma ConstructPayload_request:
  "fst (ConstructPayload P req i) = req \<or>
   fst (ConstructPayload P req i) = req\<lparr>Hostname := strip_markers (Hostname req)\<rparr>"
  by (auto simp: ConstructPayload_def Let_def strip_markers_def)

lemma ConstructPayload_inner_wf:
  assumes c: "ConstructPayload P req i = (req', Inr proto)"
    and "w_Hostname proto \<noteq> []" and "data_ok (Data req)"
  shows "inner_wf P proto"
proof -
  note r = ConstructPayload_eq_Inr [OF c]
  have "length (w_Hostname proto) \<le> 255"
    using length_clean [of "strip_markers (Hostname req)" 255] by (subst r(9)) (simp add: len_consts)
  moreover have "w_Data proto = Data req" "w_PaddingLen proto = PaddingLen req" "w_SignatureID proto = i"
    by (subst r(9), simp)+
  ultimately show ?thesis
    using construct_signature_ok(1) [OF r(7)] construct_context_eq_Inr(2) [OF r(8)] assms(2,3) r(5)
    by (simp add: inner_wf_def hostname_ok_def)
qed

section \<open>Round trip of a payload\<close>

text \<open>The numeric fields fit the widths that the wire gives them.\<close>

definition payload_fits :: "Payload \<Rightarrow> bool" where
  "payload_fits r \<longleftrightarrow>
     0 < HostID r \<and> HostID r < 2 ^ 32 \<and> 0 < MsgID r \<and> MsgID r < 2 ^ 32 \<and>
     0 \<le> MessageSeq r \<and> MessageSeqMax r < 2 ^ 16 \<and>
     - (2 ^ 63) \<le> UnixMilli (Timestamp r) \<and> UnixMilli (Timestamp r) < 2 ^ 63 \<and> data_ok (Data r)"

definition wire_host :: "Payload \<Rightarrow> bytes" where
  "wire_host r = cleanStringToBytes (strip_markers (Hostname r)) maxHostnameLen"

definition recv_payload :: "Payload \<Rightarrow> 8 word \<Rightarrow> bytes \<Rightarrow> Payload" where
  "recv_payload r i host = r\<lparr> RemoteIP := AddrZero,
     Timestamp := time_UnixMilli (UnixMilli (Timestamp r)), Hostname := host, SignatureID := i,
     Signature := (if i = 0 then [] else Signature r), CustomFields := recv_fields (CustomFields r) [] \<rparr>"

lemma uint_of_int_word:
  "0 \<le> x \<Longrightarrow> x < 2 ^ 32 \<Longrightarrow> uint (of_int x :: 32 word) = x"
  "0 \<le> y \<Longrightarrow> y < 2 ^ 16 \<Longrightarrow> uint (of_int y :: 16 word) = y"
  by (simp_all add: uint_word_of_int)

lemma sint_of_int_word64:
  assumes "- (2 ^ 63) \<le> x" and "x < 2 ^ 63"
  shows "sint (of_int x :: 64 word) = x"
  using assms by (simp add: signed_of_int signed_take_bit_int_eq_self)

lemma of_int_word32_neq_0: "0 < x \<Longrightarrow> x < 2 ^ 32 \<Longrightarrow> (of_int x :: 32 word) \<noteq> 0"
  using uint_of_int_word(1) [of x] by auto

lemma of_int_word16_le:
  "0 \<le> x \<Longrightarrow> x \<le> y \<Longrightarrow> y < 2 ^ 16 \<Longrightarrow> (of_int x :: 16 word) \<le> of_int y"
  by (simp add: word_le_def uint_word_of_int)

lemma payload_roundtrip_wire:
  assumes c: "ConstructPayload P req i = (req', Inr proto)" and fits: "payload_fits req"
    and fin: "list_all (\<lambda>(k, v). finite_value v) (CustomFields req)" and host: "wire_host req \<noteq> []"
    and ident: "check_identity P W proto (strip_markers (wire_host req)) = Inr h"
  shows "DeconstructPayload P W proto = Inr (recv_payload req i h)"
proof -
  note r = ConstructPayload_eq_Inr [OF c]
  have fs: "validate_fields (w_ContextFields proto) [] = Inr (recv_fields (CustomFields req) [])"
    using validate_construct_fields [OF construct_context_eq_Inr(1) [OF r(8)] fin] .
  have sel: "w_HostID proto = of_int (HostID req)" "w_MsgID proto = of_int (MsgID req)"
    "w_MessageSeq proto = of_int (MessageSeq req)" "w_MessageSeqMax proto = of_int (MessageSeqMax req)"
    "w_Timestamp proto = of_int (UnixMilli (Timestamp req))" "w_Hostname proto = wire_host req"
    "w_SignatureID proto = i" "w_Data proto = Data req" "w_PaddingLen proto = PaddingLen req"
    by (subst r(9), simp add: wire_host_def)+
  have h: "isPrintableASCII (wire_host req)" "length (wire_host req) \<le> maxHostnameLen"
    by (simp_all add: wire_host_def isPrintableASCII_clean length_clean)
  have n: "(of_int (HostID req) :: 32 word) \<noteq> 0" "(of_int (MsgID req) :: 32 word) \<noteq> 0"
    "(of_int (MessageSeq req) :: 16 word) \<le> of_int (MessageSeqMax req)"
    using fits r(4) by (auto simp: payload_fits_def intro: of_int_word16_le dest: of_int_word32_neq_0)
  have d: "Data req \<noteq> []" using fits by (simp add: payload_fits_def data_ok_def)
  have v: "uint (of_int (HostID req) :: 32 word) = HostID req" "uint (of_int (MsgID req) :: 32 word) = MsgID req"
    "uint (of_int (MessageSeq req) :: 16 word) = MessageSeq req"
    "uint (of_int (MessageSeqMax req) :: 16 word) = MessageSeqMax req"
    "sint (of_int (UnixMilli (Timestamp req)) :: 64 word) = UnixMilli (Timestamp req)"
    using fits r(4)
    by (simp_all add: payload_fits_def uint_of_int_word sint_of_int_word64 del: of_int_eq_iff)
  have ident': "check_identity P W proto (remove_all HostPrefixUnverified (remove_all HostPrefixUnkSig (wire_host req)))
      = Inr h" using ident by (simp add: strip_markers_def)
  show ?thesis
    using n h host d r(5,6)
    by (simp add: DeconstructPayload_def sel fs ident' v construct_signature_ok(2) [OF r(7)] recv_payload_def
        not_less)
qed

section \<open>What an accepted hostname means\<close>

lemma check_identity_eq_Inr:
  assumes "check_identity P W proto h = Inr host"
  shows "case LookupPinnedSender W h of
      None \<Rightarrow> host = (if w_SignatureID proto = 0 then HostPrefixUnverified else HostPrefixUnkSig) @ h
    | Some pk \<Rightarrow> host = h \<and> w_SignatureID proto \<noteq> 0 \<and>
        VerifySignature P W pk (SerializeSignature h (w_HostID proto) (w_Timestamp proto))
          (w_Signature proto) (w_SignatureID proto) = Inr True"
  using assms by (auto simp: check_identity_def rbind_eq_Inr split: option.splits if_splits)

lemma DeconstructPayload_eq_Inr:
  assumes "DeconstructPayload P W proto = Inr v"
  shows "check_identity P W proto (strip_markers (w_Hostname proto)) = Inr (Hostname v)"
    and "validate_fields (w_ContextFields proto) [] = Inr (CustomFields v)"
    and "HostID v = uint (w_HostID proto)" "MsgID v = uint (w_MsgID proto)" "w_HostID proto \<noteq> 0" "w_MsgID proto \<noteq> 0"
    and "MessageSeq v = uint (w_MessageSeq proto)" "MessageSeqMax v = uint (w_MessageSeqMax proto)"
    and "w_MessageSeq proto \<le> w_MessageSeqMax proto"
    and "Timestamp v = time_UnixMilli (sint (w_Timestamp proto))"
    and "SignatureID v = w_SignatureID proto" "Signature v = w_Signature proto"
    and "Data v = w_Data proto" "Data v \<noteq> []"
    and "PaddingLen v = w_PaddingLen proto" "10 \<le> PaddingLen v" "PaddingLen v \<le> 60"
    and "isPrintableASCII (w_Hostname proto)" "length (w_Hostname proto) \<le> 255"
  using assms
  by (auto simp: DeconstructPayload_def rbind_eq_Inr Let_def strip_markers_def len_consts not_less split: if_splits)

text \<open>The signed bytes determine what was signed.\<close>

lemma SerializeSignature_inj:
  "SerializeSignature h i t = SerializeSignature h' i' t' \<longleftrightarrow> h = h' \<and> i = i' \<and> t = t'"
proof
  assume "SerializeSignature h i t = SerializeSignature h' i' t'"
  then have "put_uint64 t @ (put_uint32 i @ h) = put_uint64 t' @ (put_uint32 i' @ h')"
    unfolding SerializeSignature_def same_append_eq append_assoc .
  from u64.enc_prefix_free [OF TrueI TrueI this] show "h = h' \<and> i = i' \<and> t = t'"
    using u32.enc_prefix_free [OF TrueI TrueI] by blast
qed simp

section \<open>The overhead estimate\<close>

text \<open>The bytes that the sender adds as placeholders and the estimate does not count.\<close>

definition field_placeholders :: "bytes \<times> any \<Rightarrow> nat" where
  "field_placeholders kv =
     (if fst kv = [] then 1 else 0) + (if serializeAnyValue (snd kv) = Inr (ContextString, []) then 1 else 0)"

definition placeholders :: "Payload \<Rightarrow> nat" where
  "placeholders r = (if Hostname r = [] then 1 else 0) + sum_list (map field_placeholders (CustomFields r))"

lemma length_clean_le: "length (cleanStringToBytes s n) \<le> length s + (if s = [] then 1 else 0)"
  using length_filter_le [of printable s] by (auto simp: cleanStringToBytes_eq EmptyFieldChar_eq intro: min.coboundedI1)

lemma construct_field_length:
  assumes "construct_field key v = Inr e" and "serializeAnyValue v = Inr (vt, d)"
  shows "length (enc_ctx_field e) \<le> ctxFieldOverhead + length key + length d + field_placeholders (key, v)"
proof -
  have "length (Key e) \<le> length key + (if key = [] then 1 else 0)"
    using construct_field_ok [OF assms(1)] length_clean_le by simp
  moreover have "length (Value e) \<le> length d + (if d = [] then 1 else 0)"
    using assms
    by (auto simp: construct_field_def rbind_eq_Inr Let_def len_consts EmptyFieldChar_eq split: if_splits)
  moreover have "d = [] \<longrightarrow> vt = ContextString"
    using assms(2) serialize_empty by blast
  ultimately show ?thesis
    using assms(2) by (cases "d = []") (auto simp: length_simps len_consts field_placeholders_def)
qed

lemma construct_fields_length:
  assumes "list_all2 (\<lambda>(k, v) e. construct_field k v = Inr e) m es" and "fields_overhead m = Inr n"
  shows "length (enc_ctx_fields es) \<le> n + sum_list (map field_placeholders m)"
  using assms
proof (induction m es arbitrary: n rule: list_all2_induct)
  case (Cons kv m e es)
  obtain k v where kv: "kv = (k, v)" by (cases kv)
  with Cons.prems obtain vt d n' where d: "serializeAnyValue v = Inr (vt, d)" "fields_overhead m = Inr n'"
    "n = ctxFieldOverhead + length k + length d + n'"
    by (auto simp: rbind_eq_Inr)
  with Cons.IH [of n'] construct_field_length [of k v e vt d] Cons.hyps(1) kv show ?case by simp
qed simp

lemma remove_all_empty: "s = [] \<Longrightarrow> remove_all old s = []"
  by simp

lemma inner_length_estimate:
  assumes c: "ConstructPayload P req i = (req', Inr proto)" and s: "GetSuiteInfo P suiteID = Some suite"
    and o: "CalculateProtocolOverhead P suiteID req = Inr n" and h: "strip_markers (Hostname req) = Hostname req"
    and few: "placeholders req \<le> 3" and data: "length (Data req) = dl"
  shows "SuiteIDLen + KeySize suite + NonceSize suite + length (inner_bytes proto) + nat (w_PaddingLen proto) +
    CipherOverhead suite \<le> n + dl + nat (PaddingLen req)"
proof -
  note r = ConstructPayload_eq_Inr [OF c]
  from o s obtain ctx where ctx: "fields_overhead (CustomFields req) = Inr ctx"
    and n: "n = SuiteIDLen + KeySize suite + NonceSize suite + CipherOverhead suite + minInnerPayloadLenFixedOnly +
      length (Hostname req) + length (Signature req) + ctx + (lenContextSectionNxtLen + lenContextSectionTerminator)"
    by (auto simp: CalculateProtocolOverhead_def rbind_eq_Inr Let_def)
  have sel: "w_Data proto = Data req" "w_PaddingLen proto = PaddingLen req"
    "w_Hostname proto = cleanStringToBytes (Hostname req) maxHostnameLen"
    using h by (subst r(9), simp)+
  have "length (w_Signature proto) \<le> length (Signature req)"
    using construct_signature_ok(2) [OF r(7)] by simp
  moreover have "length (enc_ctx_fields (w_ContextFields proto)) \<le>
      ctx + sum_list (map field_placeholders (CustomFields req))"
    using construct_fields_length [OF construct_context_eq_Inr(1) [OF r(8)] ctx] .
  moreover have "length (w_Hostname proto) \<le> length (Hostname req) + (if Hostname req = [] then 1 else 0)"
    by (simp only: sel length_clean_le)
  ultimately show ?thesis
    using few data by (simp add: n sel(1,2) length_simps len_consts placeholders_def)
qed

section \<open>Properties\<close>

definition example_wire :: innerWireFormat where
  "example_wire = \<lparr> w_HostID = 7, w_MsgID = 9, w_MessageSeq = 0, w_MessageSeqMax = 1, w_Timestamp = 3,
     w_Hostname = bytes_of_string ''web1'', w_SignatureID = 0, w_Signature = [], w_ContextFields = [],
     w_Data = [65], w_PaddingLen = 10 \<rparr>"

definition example_signed_wire :: innerWireFormat where
  "example_signed_wire = example_wire\<lparr> w_SignatureID := 1, w_Signature := replicate 64 5 \<rparr>"

text \<open>
  C6. The hostname of an accepted payload tells how far it can be trusted. If it does not start with
  one of the two trust markers, then it is the name of a sender with a pinned key, and the payload
  carries a signature of that key over exactly this hostname, host ID and timestamp.
\<close>

theorem unmarked_host_is_verified:
  assumes "DeconstructPayload P W proto = Inr v"
    and "take (length HostPrefixUnverified) (Hostname v) \<noteq> HostPrefixUnverified"
    and "take (length HostPrefixUnkSig) (Hostname v) \<noteq> HostPrefixUnkSig"
  shows "\<exists>pk. LookupPinnedSender W (Hostname v) = Some pk \<and> SignatureID v \<noteq> 0 \<and>
    VerifySignature P W pk (SerializeSignature (Hostname v) (w_HostID proto) (w_Timestamp proto))
      (Signature v) (SignatureID v) = Inr True"
proof -
  note r = DeconstructPayload_eq_Inr [OF assms(1)]
  from check_identity_eq_Inr [OF r(1)] assms(2,3) show ?thesis
    by (auto simp: r(11,12) split: option.splits if_splits)
qed

theorem unmarked_host_is_verified_witness:
  "\<exists>v pk. DeconstructPayload example_prims example_receiver example_signed_wire = Inr v \<and>
    LookupPinnedSender example_receiver (Hostname v) = Some pk \<and>
    VerifySignature example_prims example_receiver pk (SerializeSignature (Hostname v) 7 3) (Signature v) (SignatureID v) = Inr True"
proof -
  have "case DeconstructPayload example_prims example_receiver example_signed_wire of
      Inr v \<Rightarrow> Hostname v = bytes_of_string ''web1'' | Inl _ \<Rightarrow> False"
    by code_simp
  then obtain v where v: "DeconstructPayload example_prims example_receiver example_signed_wire = Inr v"
    "Hostname v = bytes_of_string ''web1''"
    by (cases "DeconstructPayload example_prims example_receiver example_signed_wire") auto
  moreover have "take (length HostPrefixUnverified) (bytes_of_string ''web1'') \<noteq> HostPrefixUnverified"
    "take (length HostPrefixUnkSig) (bytes_of_string ''web1'') \<noteq> HostPrefixUnkSig"
    by code_simp+
  ultimately show ?thesis
    using unmarked_host_is_verified [OF v(1)] by (auto simp: example_signed_wire_def example_wire_def)
qed

text \<open>
  C13. Every accepted payload is well formed: identifiers are not zero and fit 32 bits, the sequence
  number does not exceed its maximum, which fits 16 bits, there is data, the padding length is in
  its range, and the custom fields are a map (each key once).
\<close>

theorem accepted_payload_wf:
  assumes "DeconstructPayload P W proto = Inr v"
  shows "0 < HostID v \<and> HostID v < 2 ^ 32 \<and> 0 < MsgID v \<and> MsgID v < 2 ^ 32 \<and>
    0 \<le> MessageSeq v \<and> MessageSeq v \<le> MessageSeqMax v \<and> MessageSeqMax v < 2 ^ 16 \<and>
    Data v \<noteq> [] \<and> 10 \<le> PaddingLen v \<and> PaddingLen v \<le> 60 \<and> fields_ok (CustomFields v)"
proof -
  note r = DeconstructPayload_eq_Inr [OF assms]
  have "fields_ok (CustomFields v)"
    using validate_fields_ok [OF r(2)] by (simp add: fields_ok_def)
  moreover have "uint (w_HostID proto) < 2 ^ 32" "uint (w_MsgID proto) < 2 ^ 32"
    "uint (w_MessageSeqMax proto) < 2 ^ 16"
    using uint_lt2p [of "w_HostID proto"] uint_lt2p [of "w_MsgID proto"] uint_lt2p [of "w_MessageSeqMax proto"] by simp_all
  moreover have "uint (w_HostID proto) \<noteq> 0" "uint (w_MsgID proto) \<noteq> 0"
    using r(5,6) by (auto simp: uint_0_iff)
  moreover have "0 \<le> uint (w_HostID proto)" "0 \<le> uint (w_MsgID proto)"
    by simp_all
  ultimately show ?thesis
    using r by (simp add: word_le_def less_le)
qed

theorem accepted_payload_wf_witness:
  "\<exists>v. DeconstructPayload example_prims wrappers_init example_wire = Inr v \<and> MessageSeq v \<le> MessageSeqMax v"
proof -
  have "case DeconstructPayload example_prims wrappers_init example_wire of Inr v \<Rightarrow> True | Inl _ \<Rightarrow> False"
    by code_simp
  then obtain v where "DeconstructPayload example_prims wrappers_init example_wire = Inr v"
    by (cases "DeconstructPayload example_prims wrappers_init example_wire") auto
  with accepted_payload_wf [OF this] show ?thesis by blast
qed

text \<open>
  Empty keys and empty values, which the reader of the inner payload lets through, are refused here; a context section
  of 7 bytes, which the protocol document wants discarded, is accepted.
\<close>

lemma validate_field_nonempty: "validate_field c = Inr v \<Longrightarrow> Key c \<noteq> [] \<and> Value c \<noteq> []"
  by (auto simp: validate_field_def len_consts split: if_splits)

lemma validate_fields_nonempty: "validate_fields cs m = Inr m' \<Longrightarrow> \<forall>c \<in> set cs. Key c \<noteq> [] \<and> Value c \<noteq> []"
  by (induction cs arbitrary: m) (auto simp: rbind_eq_Inr dest: validate_field_nonempty)

theorem empty_fields_discarded:
  "(\<forall>c. Key c = [] \<or> Value c = [] \<longrightarrow> c \<in> set (w_ContextFields proto) \<longrightarrow> (\<nexists>v. DeconstructPayload P W proto = Inr v)) \<and>
   validate_fields (hd undocumented_contexts) [] = Inr [([107], AnyBool True)]"
proof (intro conjI)
  show "\<forall>c. Key c = [] \<or> Value c = [] \<longrightarrow> c \<in> set (w_ContextFields proto) \<longrightarrow> (\<nexists>v. DeconstructPayload P W proto = Inr v)"
    using DeconstructPayload_eq_Inr(2) validate_fields_nonempty by blast
  show "validate_fields (hd undocumented_contexts) [] = Inr [([107], AnyBool True)]" by code_simp
qed

text \<open>The signed bytes determine the hostname, the host ID and the timestamp that were signed.\<close>

theorem signed_bytes_unambiguous:
  "SerializeSignature h i t = SerializeSignature h' i' t' \<longleftrightarrow> h = h' \<and> i = i' \<and> t = t'"
  by (rule SerializeSignature_inj)

text \<open>
  The sender's lower bound for a context section counts the section length and terminator, which
  are not part of it: a section of 8 bytes, one field with key "ok" and a boolean, is refused by the
  sender although the receiver accepts it.
\<close>

theorem short_context_refused:
  "construct_context [(bytes_of_string ''ok'', AnyBool True)] = Inl (Err [ErrInvalidPayload]) \<and>
   length (enc_ctx_field \<lparr>Key = bytes_of_string ''ok'', valType = ContextBool, Value = [1]\<rparr>) = 8 \<and>
   validate_fields [\<lparr>Key = bytes_of_string ''ok'', valType = ContextBool, Value = [1]\<rparr>] [] =
     Inr [(bytes_of_string ''ok'', AnyBool True)]"
  by code_simp

end
