(* ===== verification/Proto_Outer.thy ===== *)
theory Proto_Outer
  imports Proto_Payload
begin

text \<open>
  \<^verbatim>\<open>pkg/protocol/outer.go\<close>: the transport payload is the suite ID, the ephemeral key, the nonce and
  the ciphertext. The round trip is proved once, in a locale for the cipher suite that the packet
  names, and interpreted on the suites of the registry.
\<close>

definition ConstructOuterPayload ::
  "crypto_prims \<Rightarrow> wrappers \<Rightarrow> bytes \<Rightarrow> 8 word \<Rightarrow> tape \<Rightarrow> (bytes \<times> tape) d3p_res" where
  "ConstructOuterPayload P W innerPayload suiteID tp =
     (if length innerPayload < 1 then Inl (Err [ErrProtocolViolation])
      else (case GetSuiteInfo P suiteID of
              None \<Rightarrow> Inl (Err [ErrUnknownSuite])
            | Some suite \<Rightarrow>
                rbind (wrap [ErrCryptoFailure] (EncryptInnerPayload P W innerPayload suiteID tp))
                  (\<lambda>((ciphertext, ephemeralPub, nonce), tp').
                if length ephemeralPub \<noteq> KeySize suite then Inl (Err [ErrProtocolViolation])
                else if length nonce \<noteq> NonceSize suite then Inl (Err [ErrProtocolViolation])
                else Inr ([suiteID] @ ephemeralPub @ nonce @ ciphertext, tp'))))"

definition DeconstructOuterPayload :: "crypto_prims \<Rightarrow> wrappers \<Rightarrow> bytes \<Rightarrow> bytes d3p_res" where
  "DeconstructOuterPayload P W blob =
     (case blob of
        [] \<Rightarrow> Inl (Err [ErrProtocolViolation])
      | suiteID # rest \<Rightarrow>
          (case GetSuiteInfo P suiteID of
             None \<Rightarrow> Inl (Err [ErrUnknownSuite])
           | Some suite \<Rightarrow>
               if length blob < SuiteIDLen + KeySize suite + NonceSize suite
               then Inl (Err [ErrProtocolViolation])
               else
                 let pubKey = take (KeySize suite) rest;
                     nonce = take (NonceSize suite) (drop (KeySize suite) rest);
                     ciphertext = drop (KeySize suite + NonceSize suite) rest in
                 if length ciphertext < minInnerPayloadLen + CipherOverhead suite
                 then Inl (Err [ErrProtocolViolation])
                 else wrap [ErrCryptoFailure] (DecryptInnerPayload P W ciphertext pubKey nonce suiteID)))"

lemma ConstructOuterPayload_eq_Inr:
  assumes "ConstructOuterPayload P W inner i tp = Inr (bs, tp')"
  obtains suite pub ct eph nonce where "GetSuiteInfo P i = Some suite"
    and "EncryptInnerPayload_var W = FnSet pub" and "\<not> IsZero pub"
    and "si_Encrypt suite pub inner tp = Inr ((ct, eph, nonce), tp')"
    and "length eph = KeySize suite" and "length nonce = NonceSize suite"
    and "bs = i # eph @ nonce @ ct"
  using assms
  by (auto simp: ConstructOuterPayload_def rbind_eq_Inr EncryptInnerPayload_eq_Inr split: if_splits option.splits)

lemma DeconstructOuterPayload_parts:
  assumes "GetSuiteInfo P i = Some suite" and "length eph = KeySize suite" and "length nonce = NonceSize suite"
    and "minInnerPayloadLen + CipherOverhead suite \<le> length ct"
  shows "DeconstructOuterPayload P W (i # eph @ nonce @ ct) =
     wrap [ErrCryptoFailure] (DecryptInnerPayload P W ct eph nonce i)"
  using assms by (simp add: DeconstructOuterPayload_def Let_def SuiteIDLen_def not_less)

section \<open>Packets of a sender and receiver that share a suite\<close>

text \<open>The sender holds a public key, the receiver the private key that belongs to it.\<close>

definition paired :: "(bytes \<Rightarrow> bytes \<Rightarrow> bool) \<Rightarrow> wrappers \<Rightarrow> wrappers \<Rightarrow> bool" where
  "paired keypair S R \<longleftrightarrow>
     (case (EncryptInnerPayload_var S, DecryptInnerPayload_var R) of
        (FnSet pub, FnSet priv) \<Rightarrow> keypair priv pub \<and> \<not> IsZero priv
      | _ \<Rightarrow> False)"

locale packet_channel = cipher_suite suite keypair fresh
  for suite keypair fresh +
  fixes P :: crypto_prims and i :: "8 word"
  assumes registered: "GetSuiteInfo P i = Some suite"
begin

lemma outer_length:
  assumes "ConstructOuterPayload P W inner i tp = Inr (bs, tp')"
  shows "length bs = SuiteIDLen + KeySize suite + NonceSize suite + length inner + CipherOverhead suite"
  using assms registered
  by (elim ConstructOuterPayload_eq_Inr) (auto simp: SuiteIDLen_def dest: suite_sizes)

lemma outer_roundtrip:
  assumes c: "ConstructOuterPayload P S inner i tp = Inr (bs, tp')" and pair: "paired keypair S R"
    and "fresh tp" and len: "minInnerPayloadLen \<le> length inner"
  shows "DeconstructOuterPayload P R bs = Inr inner"
proof -
  from c registered obtain pub ct eph nonce where pub: "EncryptInnerPayload_var S = FnSet pub"
    and e: "si_Encrypt suite pub inner tp = Inr ((ct, eph, nonce), tp')"
    and l: "length eph = KeySize suite" "length nonce = NonceSize suite" and bs: "bs = i # eph @ nonce @ ct"
    by (elim ConstructOuterPayload_eq_Inr) auto
  from pair pub obtain priv where priv: "DecryptInnerPayload_var R = FnSet priv" "keypair priv pub" "\<not> IsZero priv"
    by (auto simp: paired_def split: fn_var.splits)
  have "DecryptInnerPayload P R ct eph nonce i = Inr inner"
    using suite_decrypts [OF priv(2) assms(3) e] priv registered by (auto simp: DecryptInnerPayload_def)
  moreover have "minInnerPayloadLen + CipherOverhead suite \<le> length ct"
    using suite_sizes [OF e] len by simp
  ultimately show ?thesis
    using DeconstructOuterPayload_parts [OF registered l] bs by simp
qed

end

interpretation ch0: packet_channel cryptoSuite0 "\<lambda>_ _. True" "\<lambda>_. True" P 0 for P
  by unfold_locales (simp add: GetSuiteInfo_def cryptoSuites_def)

lemma suite1_packet_channel:
  assumes "x25519_ok P" and "chacha_ok P"
  shows "packet_channel (cryptoSuite1 P) (suite1_keypair P) suite1_fresh P 1"
proof -
  have "cipher_suite (cryptoSuite1 P) (suite1_keypair P) suite1_fresh"
    using assms by (rule suite1_cipher_suite)
  then show ?thesis
    by (simp add: packet_channel_def packet_channel_axioms_def GetSuiteInfo_def cryptoSuites_def)
qed

end
