(* ===== verification/Proto_Fragment.thy ===== *)
theory Proto_Fragment
  imports Proto_Payload
begin

text \<open>
  \<^verbatim>\<open>pkg/protocol/fragmentation.go\<close>: splitting a payload into fragments with random padding and
  putting fragments together again. The specification of the second is pointwise: the text of
  sequence numbers 0 to the maximum, a placeholder for each one that is missing.
\<close>

section \<open>Fragment\<close>

text \<open>One iteration reads a padding length off the random tape and cuts off the next piece.\<close>

function fragment_loop ::
  "Payload \<Rightarrow> int \<Rightarrow> int \<Rightarrow> int \<Rightarrow> bytes \<Rightarrow> tape \<Rightarrow> (Payload list \<times> int \<times> tape) d3p_res" where
  "fragment_loop primary maxPayloadSize fixedSize seq remaining tp =
     (if remaining = [] then Inr ([], seq, tp)
      else rbind (wrap [ErrFragmentation] (NumberInRange (int minPaddingLen) (int maxPaddingLen) tp)) (\<lambda>(pad, tp').
        let maxMessageSize = maxPayloadSize - fixedSize - pad in
        if maxMessageSize \<le> 0 then Inl (Err [ErrFragmentation])
        else
          let n = nat maxMessageSize;
              data = (if int (length remaining) > maxMessageSize then take n remaining else remaining);
              rest = (if int (length remaining) > maxMessageSize then drop n remaining else []);
              fragment = primary\<lparr>MessageSeq := seq, PaddingLen := pad, Data := data\<rparr> in
          rbind (fragment_loop primary maxPayloadSize fixedSize (seq + 1) rest tp') (\<lambda>(fs, seq', tp'').
          Inr (fragment # fs, seq', tp''))))"
  by pat_completeness auto
termination
  by (relation "measure (\<lambda>(p, m, f, s, remaining, tp). length remaining)") auto

declare fragment_loop.simps [simp del]

definition Fragment :: "Payload \<Rightarrow> int \<Rightarrow> int \<Rightarrow> tape \<Rightarrow> (Payload list \<times> tape) d3p_res" where
  "Fragment primaryPayload maxPayloadSize fixedProtocolSize tp =
     (if maxPayloadSize \<le> 0 then Inl (Err [ErrFragmentation])
      else if fixedProtocolSize \<le> 0 then Inl (Err [ErrFragmentation])
      else rbind (fragment_loop primaryPayload maxPayloadSize fixedProtocolSize 0 (Data primaryPayload) tp)
        (\<lambda>(payloads, seq, tp'). Inr (map (\<lambda>p. p\<lparr>MessageSeqMax := seq - 1\<rparr>) payloads, tp')))"

section \<open>Defragment\<close>

definition nan32 :: "32 word \<Rightarrow> bool" where
  "nan32 b \<longleftrightarrow> nan_or_inf32 b \<and> take_bit 23 b \<noteq> 0"

definition nan64 :: "64 word \<Rightarrow> bool" where
  "nan64 b \<longleftrightarrow> nan_or_inf64 b \<and> take_bit 52 b \<noteq> 0"

text \<open>
  The comparison of two interface values: values of different dynamic types differ, slices and maps
  of one type cannot be compared and panic. Fields of received payloads are of the types that
  \<^verbatim>\<open>deserializeAnyValue\<close> makes; constructors it does not make are compared as data.
\<close>

definition iface_eq :: "any \<Rightarrow> any \<Rightarrow> bool d3p_res" where
  "iface_eq a b =
     (case a of
        AnyBytes _ \<Rightarrow> (case b of AnyBytes _ \<Rightarrow> Inl Panic | _ \<Rightarrow> Inr False)
      | AnySlice _ \<Rightarrow> (case b of AnySlice _ \<Rightarrow> Inl Panic | _ \<Rightarrow> Inr False)
      | AnyMap _ \<Rightarrow> (case b of AnyMap _ \<Rightarrow> Inl Panic | _ \<Rightarrow> Inr False)
      | AnyFloat32 x \<Rightarrow>
          (case b of AnyFloat32 y \<Rightarrow> Inr (\<not> nan32 x \<and> \<not> nan32 y \<and> norm_zero32 x = norm_zero32 y)
           | _ \<Rightarrow> Inr False)
      | AnyFloat64 x \<Rightarrow>
          (case b of AnyFloat64 y \<Rightarrow> Inr (\<not> nan64 x \<and> \<not> nan64 y \<and> norm_zero64 x = norm_zero64 y)
           | _ \<Rightarrow> Inr False)
      | _ \<Rightarrow> Inr (a = b))"

text \<open>
  The loop over the fields, in key order; Go may take any order, which matters only when one field
  differs and another one panics. A missing key reads as nil.
\<close>

definition map_get :: "fields \<Rightarrow> bytes \<Rightarrow> any" where
  "map_get m k = (case map_of m k of None \<Rightarrow> AnyNil | Some v \<Rightarrow> v)"

fun fields_equal :: "fields \<Rightarrow> fields \<Rightarrow> bool d3p_res" where
  "fields_equal compare [] = Inr True"
| "fields_equal compare ((refIndex, customField) # fs) =
     rbind (iface_eq (map_get compare refIndex) customField) (\<lambda>e.
     if \<not> e then Inr False else fields_equal compare fs)"

definition EqualTo :: "Payload \<Rightarrow> Payload \<Rightarrow> bool d3p_res" where
  "EqualTo payload comparePayload =
     (if length (CustomFields payload) \<noteq> length (CustomFields comparePayload) then Inr False
      else rbind (fields_equal (CustomFields comparePayload) (CustomFields payload)) (\<lambda>e.
      if \<not> e then Inr False
      else if RemoteIP comparePayload \<noteq> RemoteIP payload \<or> HostID comparePayload \<noteq> HostID payload \<or>
              MsgID comparePayload \<noteq> MsgID payload \<or> Timestamp comparePayload \<noteq> Timestamp payload \<or>
              Hostname comparePayload \<noteq> Hostname payload
      then Inr False else Inr True))"

fun all_equal_to :: "Payload \<Rightarrow> Payload list \<Rightarrow> bool d3p_res" where
  "all_equal_to ref [] = Inr True"
| "all_equal_to ref (p # ps) = rbind (EqualTo ref p) (\<lambda>e. if \<not> e then Inr False else all_equal_to ref ps)"

fun allFieldsEqual :: "Payload list \<Rightarrow> bool d3p_res" where
  "allFieldsEqual [] = Inl Panic"
| "allFieldsEqual (ref # ps) = all_equal_to ref ps"

definition missing :: "int \<Rightarrow> int \<Rightarrow> bytes" where
  "missing a b = concat (replicate (nat (b - a)) MissingFragmentPlaceholder)"

fun reassemble :: "bytes \<Rightarrow> int \<Rightarrow> Payload list \<Rightarrow> bytes \<times> int" where
  "reassemble buf prev [] = (buf, prev)"
| "reassemble buf prev (p # ps) =
     (let buf = (if prev \<noteq> -1 then
                   let expected = prev + 1 in
                   if MessageSeq p > expected then buf @ missing expected (MessageSeq p) else buf
                 else buf)
      in reassemble (buf @ Data p) (MessageSeq p) ps)"

text \<open>
  \<^verbatim>\<open>sort.Slice\<close> leaves the order of equal sequence numbers open; the model takes the stable one.
\<close>

definition Defragment :: "Payload list \<Rightarrow> Payload d3p_res" where
  "Defragment payloads =
     (if length payloads = 0 then Inl (Err [ErrFragmentation])
      else rbind (allFieldsEqual payloads) (\<lambda>eq.
      if \<not> eq then Inl (Err [ErrFragmentation])
      else
        let payloads = sort_key MessageSeq payloads;
            first = hd payloads;
            buf = (if MessageSeq first > 0 then missing 0 (MessageSeq first) else []);
            (buf, prev) = reassemble buf (-1) payloads;
            expectedFinal = MessageSeqMax first;
            buf = (if prev < expectedFinal then buf @ missing (prev + 1) (expectedFinal + 1) else buf) in
        Inr (Payload_zero\<lparr> RemoteIP := RemoteIP first, HostID := HostID first, MsgID := MsgID first,
               Timestamp := Timestamp first, CustomFields := CustomFields first,
               Hostname := Hostname first, Data := buf \<rparr>)))"

section \<open>Fragments of a payload\<close>

text \<open>Each fragment is the payload with its place in the sequence, its piece and its padding.\<close>

definition fragment_of :: "Payload \<Rightarrow> int \<Rightarrow> Payload \<Rightarrow> bool" where
  "fragment_of primary room p \<longleftrightarrow>
     p = primary\<lparr>MessageSeq := MessageSeq p, MessageSeqMax := MessageSeqMax p,
       PaddingLen := PaddingLen p, Data := Data p\<rparr> \<and>
     int minPaddingLen \<le> PaddingLen p \<and> PaddingLen p \<le> int maxPaddingLen \<and>
     0 < length (Data p) \<and> int (length (Data p)) + PaddingLen p \<le> room"

lemma fragment_of_SeqMax:
  "fragment_of primary room p \<Longrightarrow> fragment_of primary room (p\<lparr>MessageSeqMax := m\<rparr>)"
  by (cases p; cases primary) (simp add: fragment_of_def)

lemma fragment_loop_spec:
  assumes "fragment_loop primary mx fixed seq remaining tp = Inr (fs, seq', tp')"
  shows "concat (map Data fs) = remaining \<and> seq' = seq + int (length fs) \<and>
    map MessageSeq fs = map (\<lambda>i. seq + int i) [0..<length fs] \<and> list_all (fragment_of primary (mx - fixed)) fs"
  using assms
proof (induction primary mx fixed seq remaining tp arbitrary: fs seq' tp' rule: fragment_loop.induct)
  case (1 primary mx fixed seq remaining tp)
  show ?case
  proof (cases "remaining = []")
    case True
    with "1.prems" show ?thesis by (simp add: fragment_loop.simps)
  next
    case False
    let ?long = "\<lambda>pad. int (length remaining) > mx - fixed - pad"
    let ?data = "\<lambda>pad. if ?long pad then take (nat (mx - fixed - pad)) remaining else remaining"
    let ?rest = "\<lambda>pad. if ?long pad then drop (nat (mx - fixed - pad)) remaining else []"
    from False "1.prems" obtain pad tp1 gs where
      pad: "NumberInRange (int minPaddingLen) (int maxPaddingLen) tp = Inr (pad, tp1)"
      and room: "mx - fixed - pad > 0"
      and rec: "fragment_loop primary mx fixed (seq + 1) (?rest pad) tp1 = Inr (gs, seq', tp')"
      and fs: "fs = primary\<lparr>MessageSeq := seq, PaddingLen := pad, Data := ?data pad\<rparr> # gs"
      by (subst (asm) fragment_loop.simps) (auto simp: rbind_eq_Inr Let_def not_le split: if_splits)
    have "wrap [ErrFragmentation] (NumberInRange (int minPaddingLen) (int maxPaddingLen) tp) = Inr (pad, tp1)"
      using pad by simp
    with False room rec have IH: "concat (map Data gs) = ?rest pad \<and> seq' = seq + 1 + int (length gs) \<and>
        map MessageSeq gs = map (\<lambda>i. seq + 1 + int i) [0..<length gs] \<and>
        list_all (fragment_of primary (mx - fixed)) gs"
      by (intro "1.IH") (auto simp: Let_def)
    have "fragment_of primary (mx - fixed) (hd fs)"
      using NumberInRange_bounds [OF pad] room False by (auto simp: fragment_of_def fs)
    moreover have "?data pad @ ?rest pad = remaining" by simp
    moreover have "map MessageSeq fs = map (\<lambda>i. seq + int i) [0..<length fs]"
      using IH by (simp add: fs map_upt_Suc del: upt_Suc)
    ultimately show ?thesis
      using IH by (simp add: fs)
  qed
qed

lemma Fragment_spec:
  assumes "Fragment primary mx fixed tp = Inr (fs, tp')"
  shows "concat (map Data fs) = Data primary"
    and "map MessageSeq fs = map int [0..<length fs]"
    and "list_all (fragment_of primary (mx - fixed)) fs"
    and "list_all (\<lambda>p. MessageSeqMax p = int (length fs) - 1) fs"
proof -
  from assms obtain gs seq where l: "fragment_loop primary mx fixed 0 (Data primary) tp = Inr (gs, seq, tp')"
    and fs: "fs = map (\<lambda>p. p\<lparr>MessageSeqMax := seq - 1\<rparr>) gs"
    by (auto simp: Fragment_def rbind_eq_Inr split: if_splits)
  note s = fragment_loop_spec [OF l]
  show "concat (map Data fs) = Data primary" "map MessageSeq fs = map int [0..<length fs]"
    using s by (simp_all add: fs comp_def)
  show "list_all (fragment_of primary (mx - fixed)) fs"
    using s by (auto simp: fs list_all_iff intro: fragment_of_SeqMax)
  show "list_all (\<lambda>p. MessageSeqMax p = int (length fs) - 1) fs"
    using s by (simp add: fs list_all_iff)
qed

text \<open>With room for one byte beside the largest padding, and enough randomness, it returns.\<close>

lemma fragment_loop_total:
  assumes "mx - fixed > int maxPaddingLen" and "length remaining \<le> length tp"
  shows "\<exists>fs seq' tp'. fragment_loop primary mx fixed seq remaining tp = Inr (fs, seq', tp')"
  using assms
proof (induction primary mx fixed seq remaining tp rule: fragment_loop.induct)
  case (1 primary mx fixed seq remaining tp)
  show ?case
  proof (cases "remaining = []")
    case True
    then show ?thesis by (simp add: fragment_loop.simps)
  next
    case False
    with "1.prems" obtain d tp1 where tp: "tp = d # tp1" by (cases tp) auto
    obtain pad where pad: "NumberInRange (int minPaddingLen) (int maxPaddingLen) tp = Inr (pad, tp1)"
      using NumberInRange_total [of "int minPaddingLen" "int maxPaddingLen" d tp1] by (auto simp: tp len_consts)
    let ?n = "mx - fixed - pad"
    let ?rest = "if int (length remaining) > ?n then drop (nat ?n) remaining else []"
    have room: "?n > 0"
      using NumberInRange_bounds [OF pad] "1.prems"(1) by simp
    then have len: "length ?rest \<le> length tp1"
      using "1.prems"(2) False by (auto simp: tp)
    have "wrap [ErrFragmentation] (NumberInRange (int minPaddingLen) (int maxPaddingLen) tp) = Inr (pad, tp1)"
      using pad by simp
    with False room len "1.prems"(1) have
      "\<exists>fs seq' tp'. fragment_loop primary mx fixed (seq + 1) ?rest tp1 = Inr (fs, seq', tp')"
      by (intro "1.IH") (auto simp: Let_def)
    with False room pad show ?thesis
      by (subst fragment_loop.simps) (auto simp: Let_def)
  qed
qed

lemma Fragment_total:
  assumes "0 < fixed" and "mx - fixed > int maxPaddingLen" and "length (Data primary) \<le> length tp"
  shows "\<exists>fs tp'. Fragment primary mx fixed tp = Inr (fs, tp')"
  using fragment_loop_total [OF assms(2,3), of primary 0] assms(1,2)
  by (auto simp: Fragment_def)

section \<open>Reassembly\<close>

definition fragment_text :: "Payload list \<Rightarrow> int \<Rightarrow> bytes" where
  "fragment_text ps s =
     (case map_of (map (\<lambda>p. (MessageSeq p, Data p)) ps) s of
        Some d \<Rightarrow> d | None \<Rightarrow> MissingFragmentPlaceholder)"

text \<open>The specification: the text of every sequence number from 0 to the maximum, in order.\<close>

definition message_text :: "Payload list \<Rightarrow> int \<Rightarrow> bytes" where
  "message_text ps mx = concat (map (fragment_text ps) [0..mx])"

lemma fragment_text_Cons:
  "fragment_text (p # ps) s = (if s = MessageSeq p then Data p else fragment_text ps s)"
  by (simp add: fragment_text_def)

lemma fragment_text_missing:
  "s \<notin> MessageSeq ` set ps \<Longrightarrow> fragment_text ps s = MissingFragmentPlaceholder"
proof (induction ps)
  case (Cons p ps)
  then show ?case by (simp add: fragment_text_Cons)
qed (simp add: fragment_text_def)

lemma missing_text:
  assumes "\<And>s. a \<le> s \<Longrightarrow> s < b \<Longrightarrow> s \<notin> MessageSeq ` set ps"
  shows "missing a b = concat (map (fragment_text ps) [a..b - 1])"
proof -
  have "map (fragment_text ps) [a..b - 1] = map (\<lambda>_. MissingFragmentPlaceholder) [a..b - 1]"
    using assms by (intro map_cong) (auto simp: fragment_text_missing)
  then show ?thesis
    by (simp add: missing_def map_replicate_const)
qed

lemma seq_le_last:
  "sorted_wrt (<) (map MessageSeq ps) \<Longrightarrow> q \<in> set ps \<Longrightarrow> MessageSeq q \<le> MessageSeq (last ps)"
proof (induction ps)
  case (Cons p ps)
  show ?case
  proof (cases "ps = []")
    case False
    then have "MessageSeq p < MessageSeq (last ps)" using Cons.prems(1) by simp
    with Cons False show ?thesis by (auto intro: less_imp_le)
  qed (use Cons.prems in simp)
qed simp

text \<open>From the second fragment on the loop fills every gap before the fragment.\<close>

lemma reassemble_spec:
  assumes "sorted_wrt (<) (map MessageSeq ps)" and "\<And>p. p \<in> set ps \<Longrightarrow> prev < MessageSeq p" and "0 \<le> prev"
    and "final = (if ps = [] then prev else MessageSeq (last ps))"
  shows "reassemble buf prev ps = (buf @ concat (map (fragment_text ps) [prev + 1..final]), final)"
  using assms
proof (induction ps arbitrary: buf prev)
  case (Cons p ps)
  have lt: "prev < MessageSeq p" and later: "\<And>q. q \<in> set ps \<Longrightarrow> MessageSeq p < MessageSeq q"
    using Cons.prems(1,2) by auto
  have p0: "0 \<le> MessageSeq p" using lt Cons.prems(3) by linarith
  let ?f = "fragment_text (p # ps)"
  have gap: "missing (prev + 1) (MessageSeq p) = concat (map ?f [prev + 1..MessageSeq p - 1])"
    using later by (intro missing_text) force
  have fin: "MessageSeq p \<le> final"
    using seq_le_last [OF Cons.prems(1), of p] Cons.prems(4) by simp
  have "concat (map (fragment_text ps) [MessageSeq p + 1..final]) = concat (map ?f [MessageSeq p + 1..final])"
    by (intro arg_cong [where f = concat] map_cong) (auto simp: fragment_text_Cons)
  moreover have "[prev + 1..final] = [prev + 1..MessageSeq p - 1] @ MessageSeq p # [MessageSeq p + 1..final]"
    using lt fin upto_split3 [of "prev + 1" "MessageSeq p" final] by simp
  moreover have "reassemble (buf @ missing (prev + 1) (MessageSeq p) @ Data p) (MessageSeq p) ps =
      ((buf @ missing (prev + 1) (MessageSeq p) @ Data p) @
        concat (map (fragment_text ps) [MessageSeq p + 1..final]), final)"
    using Cons.prems p0 later by (intro Cons.IH) auto
  moreover have "\<not> MessageSeq p > prev + 1 \<Longrightarrow> missing (prev + 1) (MessageSeq p) = []"
    by (simp add: missing_def)
  moreover have "?f (MessageSeq p) = Data p" by (simp add: fragment_text_Cons)
  ultimately show ?case
    using Cons.prems(3) by (auto simp: gap Let_def)
qed simp

lemma fragment_text_perm:
  assumes "mset ps = mset qs" and "distinct (map MessageSeq ps)"
  shows "fragment_text ps = fragment_text qs"
proof
  fix s
  have "distinct (map MessageSeq qs)"
    using assms by (metis mset_map mset_eq_imp_distinct_iff)
  then have "map_of (map (\<lambda>p. (MessageSeq p, Data p)) ps) = map_of (map (\<lambda>p. (MessageSeq p, Data p)) qs)"
    using assms by (intro map_of_inject_set [THEN iffD2]) (auto simp: comp_def dest: mset_eq_setD)
  then show "fragment_text ps s = fragment_text qs s"
    by (simp add: fragment_text_def)
qed

lemma reassemble_sorted:
  assumes sorted: "sorted_wrt (<) (map MessageSeq (p # ps))"
    and range: "\<And>q. q \<in> set (p # ps) \<Longrightarrow> 0 \<le> MessageSeq q \<and> MessageSeq q \<le> mx"
    and r: "reassemble (missing 0 (MessageSeq p)) (-1) (p # ps) = (buf, prev)"
  shows "buf @ missing (prev + 1) (mx + 1) = message_text (p # ps) mx" and "prev \<le> mx"
proof -
  let ?f = "fragment_text (p # ps)"
  define final where "final = MessageSeq (last (p # ps))"
  have later: "\<And>q. q \<in> set ps \<Longrightarrow> MessageSeq p < MessageSeq q" using sorted by auto
  have fin: "MessageSeq p \<le> final" "\<And>q. q \<in> set ps \<Longrightarrow> MessageSeq q \<le> final"
    using seq_le_last [OF sorted] by (simp_all add: final_def)
  have rng: "0 \<le> MessageSeq p" "final \<le> mx"
    using range [of p] range [of "last (p # ps)"] by (auto simp: final_def)
  have "reassemble (missing 0 (MessageSeq p) @ Data p) (MessageSeq p) ps =
      ((missing 0 (MessageSeq p) @ Data p) @ concat (map (fragment_text ps) [MessageSeq p + 1..final]), final)"
    using sorted later rng by (intro reassemble_spec) (auto simp: final_def)
  with r have buf: "buf = missing 0 (MessageSeq p) @ Data p @
      concat (map (fragment_text ps) [MessageSeq p + 1..final])" and prev: "prev = final"
    by auto
  show "prev \<le> mx" using prev rng by simp
  have "concat (map (fragment_text ps) [MessageSeq p + 1..final]) = concat (map ?f [MessageSeq p + 1..final])"
    by (intro arg_cong [where f = concat] map_cong) (auto simp: fragment_text_Cons)
  moreover have "missing 0 (MessageSeq p) = concat (map ?f [0..MessageSeq p - 1])"
    using later by (intro missing_text) force
  moreover have "missing (final + 1) (mx + 1) = concat (map ?f [final + 1..mx])"
    using fin missing_text [of "final + 1" "mx + 1" "p # ps"] by force
  moreover have "[0..mx] = [0..MessageSeq p - 1] @ MessageSeq p # [MessageSeq p + 1..final] @ [final + 1..mx]"
    using fin(1) rng upto_split3 [of 0 "MessageSeq p" mx] upto_split2 [of "MessageSeq p + 1" final mx]
    by (cases "MessageSeq p = final") simp_all
  moreover have "?f (MessageSeq p) = Data p" by (simp add: fragment_text_Cons)
  ultimately show "buf @ missing (prev + 1) (mx + 1) = message_text (p # ps) mx"
    by (simp add: buf prev message_text_def)
qed

text \<open>
  The set of fragments that reaches the assembler for one message: one bucket, distinct sequence
  numbers, all within the common maximum.
\<close>

definition fragment_set :: "Payload list \<Rightarrow> int \<Rightarrow> bool" where
  "fragment_set ps mx \<longleftrightarrow>
     ps \<noteq> [] \<and> distinct (map MessageSeq ps) \<and>
     list_all (\<lambda>p. 0 \<le> MessageSeq p \<and> MessageSeq p \<le> mx \<and> MessageSeqMax p = mx) ps"

lemma sort_key_strict:
  assumes "distinct (map MessageSeq ps)"
  shows "sorted_wrt (<) (map MessageSeq (sort_key MessageSeq ps))"
proof -
  have "distinct (map MessageSeq (sort_key MessageSeq ps))"
    using assms by (metis mset_map mset_eq_imp_distinct_iff mset_sort)
  then show ?thesis
    by (simp add: strict_sorted_iff)
qed

lemma Defragment_spec:
  assumes fs: "fragment_set ps mx" and eq: "allFieldsEqual ps = Inr True"
  shows "\<exists>r q. Defragment ps = Inr r \<and> q \<in> set ps \<and> Data r = message_text ps mx \<and>
    r = Payload_zero\<lparr> RemoteIP := RemoteIP q, HostID := HostID q, MsgID := MsgID q, Timestamp := Timestamp q,
      CustomFields := CustomFields q, Hostname := Hostname q, Data := Data r \<rparr>"
proof -
  obtain q qs where q: "sort_key MessageSeq ps = q # qs"
    using fs by (cases "sort_key MessageSeq ps") (auto simp: fragment_set_def dest: arg_cong [where f = length])
  have set: "set (q # qs) = set ps" using q by (metis set_sort)
  have sorted: "sorted_wrt (<) (map MessageSeq (q # qs))"
    using sort_key_strict [of ps] fs by (simp only: q fragment_set_def)
  have range: "\<And>p. p \<in> set (q # qs) \<Longrightarrow> 0 \<le> MessageSeq p \<and> MessageSeq p \<le> mx \<and> MessageSeqMax p = mx"
    using fs by (simp only: set fragment_set_def list_all_iff)
  obtain buf prev where r: "reassemble (missing 0 (MessageSeq q)) (-1) (q # qs) = (buf, prev)"
    by (metis surj_pair)
  have reas: "buf @ missing (prev + 1) (mx + 1) = message_text (q # qs) mx" "prev \<le> mx"
    using reassemble_sorted [OF sorted _ r, of mx] range by blast+
  have msg: "message_text (q # qs) mx = message_text ps mx"
    using fragment_text_perm [of ps "q # qs"] q mset_sort [of MessageSeq ps] fs
    by (simp add: message_text_def fragment_set_def)
  have "(if MessageSeq q > 0 then missing 0 (MessageSeq q) else []) = missing 0 (MessageSeq q)"
    by (simp add: missing_def)
  moreover have "(if prev < mx then buf @ missing (prev + 1) (mx + 1) else buf) = message_text ps mx"
    using reas msg by (auto simp: missing_def)
  moreover have "MessageSeqMax q = mx" "q \<in> set ps" using range [of q] set by auto
  moreover have "ps \<noteq> []" using fs by (simp add: fragment_set_def)
  ultimately have "Defragment ps = Inr (Payload_zero\<lparr> RemoteIP := RemoteIP q, HostID := HostID q, MsgID := MsgID q,
      Timestamp := Timestamp q, CustomFields := CustomFields q, Hostname := Hostname q,
      Data := message_text ps mx \<rparr>)"
    using eq by (simp only: Defragment_def q r length_0_conv rbind_Inr Let_def list.sel prod.case if_False not_True_eq_False)
  with \<open>q \<in> set ps\<close> show ?thesis by (intro exI conjI) (assumption | simp)+
qed

section \<open>Comparing fragments\<close>

definition self_equal :: "any \<Rightarrow> bool" where
  "self_equal v = (iface_eq v v = Inr True)"

definition same_message :: "Payload \<Rightarrow> Payload \<Rightarrow> bool" where
  "same_message p q \<longleftrightarrow> RemoteIP p = RemoteIP q \<and> HostID p = HostID q \<and> MsgID p = MsgID q \<and>
     Timestamp p = Timestamp q \<and> Hostname p = Hostname q \<and> CustomFields p = CustomFields q"

lemma fields_ok_distinct: "fields_ok m \<Longrightarrow> distinct (map fst m)"
  by (simp add: fields_ok_def strict_sorted_iff)

lemma fields_equal_self:
  assumes "distinct (map fst m)" and "list_all (\<lambda>(k, v). self_equal v) m" and "set fs \<subseteq> set m"
  shows "fields_equal m fs = Inr True"
  using assms(3)
proof (induction fs)
  case (Cons kv fs)
  obtain k v where kv: "kv = (k, v)" by (cases kv)
  with Cons.prems assms(1,2) have "map_get m k = v" "self_equal v"
    by (auto simp: map_get_def list_all_iff)
  with Cons kv show ?case by (simp add: self_equal_def)
qed simp

lemma EqualTo_same:
  assumes "same_message p q" and "fields_ok (CustomFields p)" and "list_all (\<lambda>(k, v). self_equal v) (CustomFields p)"
  shows "EqualTo p q = Inr True"
proof -
  have "fields_equal (CustomFields p) (CustomFields p) = Inr True"
    using assms(2,3) by (intro fields_equal_self fields_ok_distinct) auto
  with assms(1) show ?thesis by (simp add: EqualTo_def same_message_def)
qed

lemma all_equal_to_same:
  assumes "\<And>q. q \<in> set ps \<Longrightarrow> same_message p q" and "fields_ok (CustomFields p)"
    and "list_all (\<lambda>(k, v). self_equal v) (CustomFields p)"
  shows "all_equal_to p ps = Inr True"
  using assms(1) by (induction ps) (simp_all add: EqualTo_same [OF _ assms(2,3)])

lemma all_equal_to_iff_fields:
  "all_equal_to p ps = Inr True \<Longrightarrow> q \<in> set ps \<Longrightarrow>
     HostID q = HostID p \<and> MsgID q = MsgID p \<and> Timestamp q = Timestamp p \<and> Hostname q = Hostname p \<and>
     RemoteIP q = RemoteIP p \<and> length (CustomFields q) = length (CustomFields p)"
  by (induction ps) (auto simp: EqualTo_def rbind_eq_Inr split: if_splits)

section \<open>Properties\<close>

text \<open>
  C10. Fragmentation cuts the data into non-empty consecutive pieces whose concatenation is the data,
  numbers them from 0, gives all of them the same maximum, keeps every other field, and leaves each
  piece together with its padding within the room beside the fixed protocol size.
\<close>

theorem fragments_partition_data:
  assumes "Fragment primary mx fixed tp = Inr (fs, tp')"
  shows "concat (map Data fs) = Data primary \<and> map MessageSeq fs = map int [0..<length fs] \<and>
    list_all (\<lambda>p. MessageSeqMax p = int (length fs) - 1) fs \<and> list_all (fragment_of primary (mx - fixed)) fs"
  using Fragment_spec [OF assms] by simp

text \<open>
  C11. Fragmentation returns whenever there is room for one byte beside the fixed size and the
  largest padding and the random source delivers a draw per byte of data.
\<close>

theorem fragmentation_returns:
  assumes "0 < fixed" and "mx - fixed > int maxPaddingLen" and "length (Data primary) \<le> length tp"
  shows "\<exists>fs tp'. Fragment primary mx fixed tp = Inr (fs, tp')"
  using assms by (rule Fragment_total)

theorem fragmentation_returns_witness:
  "\<exists>fs tp'. Fragment (Payload_zero\<lparr>Data := [1, 2, 3]\<rparr>) 100 38 [0, 1, 2] = Inr (fs, tp')"
  by (rule fragmentation_returns) (simp_all add: len_consts)

text \<open>
  C9. Reassembling the fragments of one message, whichever of them arrived and in whatever order,
  gives the text of the sequence numbers from 0 to the maximum with a placeholder for each missing
  one, and the shared fields of the message.
\<close>

theorem defragment_fills_gaps:
  assumes "fragment_set ps mx" and "allFieldsEqual ps = Inr True"
  shows "\<exists>r q. Defragment ps = Inr r \<and> q \<in> set ps \<and> Data r = message_text ps mx \<and>
    r = Payload_zero\<lparr> RemoteIP := RemoteIP q, HostID := HostID q, MsgID := MsgID q, Timestamp := Timestamp q,
      CustomFields := CustomFields q, Hostname := Hostname q, Data := Data r \<rparr>"
  using assms by (rule Defragment_spec)

definition example_fragment :: "int \<Rightarrow> bytes \<Rightarrow> Payload" where
  "example_fragment s d = Payload_zero\<lparr> HostID := 7, MsgID := 9, MessageSeq := s, MessageSeqMax := 2,
     Hostname := bytes_of_string ''web1'', Data := d \<rparr>"

theorem defragment_fills_gaps_witness:
  "\<exists>r q. Defragment [example_fragment 2 [67], example_fragment 0 [65]] = Inr r \<and>
    q \<in> set [example_fragment 2 [67], example_fragment 0 [65]] \<and>
    Data r = message_text [example_fragment 2 [67], example_fragment 0 [65]] 2 \<and>
    r = Payload_zero\<lparr> RemoteIP := RemoteIP q, HostID := HostID q, MsgID := MsgID q, Timestamp := Timestamp q,
      CustomFields := CustomFields q, Hostname := Hostname q, Data := Data r \<rparr>"
  by (rule defragment_fills_gaps)
    (simp_all add: fragment_set_def example_fragment_def EqualTo_def Payload_zero_def)

theorem fragments_partition_data_witness:
  "\<exists>fs tp'. Fragment (Payload_zero\<lparr>Data := [1, 2, 3]\<rparr>) 50 38 [0, 1, 2] = Inr (fs, tp') \<and> concat (map Data fs) = [1, 2, 3]"
proof -
  have "case Fragment (Payload_zero\<lparr>Data := [1, 2, 3]\<rparr>) 50 38 [0, 1, 2] of Inr _ \<Rightarrow> True | Inl _ \<Rightarrow> False"
    by code_simp
  then obtain fs tp' where f: "Fragment (Payload_zero\<lparr>Data := [1, 2, 3]\<rparr>) 50 38 [0, 1, 2] = Inr (fs, tp')"
    by (cases "Fragment (Payload_zero\<lparr>Data := [1, 2, 3]\<rparr>) 50 38 [0, 1, 2]") auto
  from fragments_partition_data [OF f] f show ?thesis by auto
qed

text \<open>
  Two fragments of a message with a byte-slice field cannot be compared: reassembly panics,
  although sender and receiver both accept such a field in a single fragment.
\<close>

theorem byte_slice_field_panics:
  "Defragment
     [(example_fragment 0 [65])\<lparr>CustomFields := [(k, AnyBytes b)]\<rparr>,
      (example_fragment 1 [66])\<lparr>CustomFields := [(k, AnyBytes b)]\<rparr>] = Inl Panic"
  by (simp add: Defragment_def EqualTo_def iface_eq_def map_get_def)

end
