(* ===== verification/Proto_Wrapper.thy ===== *)
theory Proto_Wrapper
  imports Proto_Outer Proto_Fragment
begin

text \<open>
  \<^verbatim>\<open>pkg/protocol/wrapper.go\<close>: the entry points. \<^verbatim>\<open>Create\<close> turns a message into packets and
  \<^verbatim>\<open>Extract\<close> packets into a message. The end-to-end theorem is proved in the locale of a packet
  channel, for every order and every loss of packets.
\<close>

section \<open>Create\<close>

definition create_packet ::
  "crypto_prims \<Rightarrow> wrappers \<Rightarrow> 8 word \<Rightarrow> 8 word \<Rightarrow> Payload \<Rightarrow> tape \<Rightarrow> (bytes \<times> tape) d3p_res" where
  "create_packet P W cryptoSuite signatureSuite fragment tp =
     rbind (snd (ConstructPayload P fragment signatureSuite)) (\<lambda>payload.
     rbind (ConstructInnerPayload payload tp) (\<lambda>(innerPayload, tp).
     ConstructOuterPayload P W innerPayload cryptoSuite tp))"

fun create_packets ::
  "crypto_prims \<Rightarrow> wrappers \<Rightarrow> 8 word \<Rightarrow> 8 word \<Rightarrow> Payload list \<Rightarrow> tape \<Rightarrow> (bytes list \<times> tape) d3p_res" where
  "create_packets P W cs ss [] tp = Inr ([], tp)"
| "create_packets P W cs ss (f # fs) tp =
     rbind (create_packet P W cs ss f tp) (\<lambda>(packet, tp).
     rbind (create_packets P W cs ss fs tp) (\<lambda>(packets, tp). Inr (packet # packets, tp)))"

definition new_payload :: "Message \<Rightarrow> int \<Rightarrow> int \<Rightarrow> Payload" where
  "new_payload sendMsg hostID msgID = Payload_zero\<lparr> HostID := hostID, MsgID := msgID,
     Timestamp := m_Timestamp sendMsg, Hostname := m_Hostname sendMsg,
     CustomFields := m_Fields sendMsg, Data := m_Data sendMsg \<rparr>"

definition sign_payload :: "crypto_prims \<Rightarrow> wrappers \<Rightarrow> 8 word \<Rightarrow> Payload \<Rightarrow> Payload d3p_res" where
  "sign_payload P W signatureSuite newMsg =
     rbind (if signatureSuite > 0
            then wrap [ErrCryptoFailure]
                   (CreateSignature P W
                      (SerializeSignature (Hostname newMsg) (of_int (HostID newMsg))
                         (of_int (UnixMilli (Timestamp newMsg)))) signatureSuite)
            else Inr []) (\<lambda>sig.
     Inr (newMsg\<lparr>Signature := sig, SignatureID := signatureSuite\<rparr>))"

definition Create ::
  "crypto_prims \<Rightarrow> wrappers \<Rightarrow> Message \<Rightarrow> int \<Rightarrow> int \<Rightarrow> 8 word \<Rightarrow> 8 word \<Rightarrow> tape \<Rightarrow>
     (bytes list \<times> tape) d3p_res" where
  "Create P W sendMsg hostID maxPayloadSize cryptoSuite signatureSuite tp =
     rbind (FourByte tp) (\<lambda>(newMessageID, tp).
     rbind (sign_payload P W signatureSuite (new_payload sendMsg hostID newMessageID)) (\<lambda>newMsg.
     rbind (CalculateProtocolOverhead P cryptoSuite newMsg) (\<lambda>protocolOverhead.
     rbind (Fragment newMsg maxPayloadSize (int protocolOverhead) tp) (\<lambda>(fragments, tp).
     create_packets P W cryptoSuite signatureSuite fragments tp))))"

section \<open>Extract\<close>

definition extract_packet :: "crypto_prims \<Rightarrow> wrappers \<Rightarrow> bytes \<Rightarrow> Payload d3p_res" where
  "extract_packet P W packet =
     rbind (DeconstructOuterPayload P W packet) (\<lambda>innerPayload.
     rbind (DeconstructInnerPayload P innerPayload) (\<lambda>payload.
     DeconstructPayload P W payload))"

fun extract_packets :: "crypto_prims \<Rightarrow> wrappers \<Rightarrow> bytes list \<Rightarrow> Payload list d3p_res" where
  "extract_packets P W [] = Inr []"
| "extract_packets P W (p # ps) =
     rbind (extract_packet P W p) (\<lambda>f. rbind (extract_packets P W ps) (\<lambda>fs. Inr (f # fs)))"

text \<open>No packets is a nil message and no error.\<close>

definition Extract :: "crypto_prims \<Rightarrow> wrappers \<Rightarrow> bytes list \<Rightarrow> (Message option \<times> int) d3p_res" where
  "Extract P W packets =
     (if length packets = 0 then Inr (None, 0)
      else rbind (extract_packets P W packets) (\<lambda>fragments.
      rbind (Defragment fragments) (\<lambda>primary.
      Inr (Some \<lparr> m_Timestamp = Timestamp primary, m_Hostname = Hostname primary,
             m_Fields = CustomFields primary, m_Data = Data primary \<rparr>, HostID primary))))"

section \<open>One packet\<close>

lemma create_packet_inner:
  assumes "create_packet P W cs ss f tp = Inr (packet, tp'')"
  obtains f' proto inner tp' where "ConstructPayload P f ss = (f', Inr proto)"
    and "ConstructInnerPayload proto tp = Inr (inner, tp')" and "inner_wf P proto"
    and "minInnerPayloadLen \<le> length inner" and "DeconstructInnerPayload P inner = Inr proto"
    and "ConstructOuterPayload P W inner cs tp' = Inr (packet, tp'')"
    and "\<exists>k. tp' = drop k tp" and "wire_host f \<noteq> []" and "data_ok (Data f)"
    and "length inner = length (inner_bytes proto) + nat (w_PaddingLen proto)"
proof -
  from assms obtain f' proto inner tp' where c: "ConstructPayload P f ss = (f', Inr proto)"
    and i: "ConstructInnerPayload proto tp = Inr (inner, tp')"
    and o: "ConstructOuterPayload P W inner cs tp' = Inr (packet, tp'')"
    by (cases "ConstructPayload P f ss") (auto simp: create_packet_def rbind_eq_Inr)
  note r = ConstructPayload_eq_Inr [OF c]
  have sel: "w_Data proto = Data f" "w_PaddingLen proto = PaddingLen f" "w_Hostname proto = wire_host f"
    by (subst r(9), simp add: wire_host_def)+
  from i obtain padding where w: "inner_writable proto" and pad: "rand_Read (nat (PaddingLen f)) tp = Inr (padding, tp')"
    and inner: "inner = inner_bytes proto @ padding"
    by (auto simp: ConstructInnerPayload_eq_Inr sel)
  have ok: "wire_host f \<noteq> []" "data_ok (Data f)"
    using w by (auto simp: inner_writable_def sel data_ok_def)
  then have wf: "inner_wf P proto"
    using ConstructPayload_inner_wf [OF c] sel by simp
  have "1 \<le> length (w_Hostname proto)" "1 \<le> length (w_Data proto)"
    using w by (auto simp: inner_writable_def Suc_le_eq)
  then have len: "minInnerPayloadLen \<le> length inner"
    using rand_Read_eq_Inr [OF pad] r(5) by (simp add: inner length_simps len_consts)
  show thesis
    using that [OF c i wf len inner_roundtrip [OF wf i len] o _ ok] rand_Read_eq_Inr [OF pad] sel inner by auto
qed

context packet_channel
begin

lemma packet_roundtrip:
  assumes c: "create_packet P S i ss f tp = Inr (packet, tp')" and pair: "paired keypair S R"
    and fr: "\<And>k. fresh (drop k tp)" and fits: "payload_fits f"
    and fin: "list_all (\<lambda>(k, v). finite_value v) (CustomFields f)"
    and ident: "\<And>proto. ConstructPayload P f ss = (f\<lparr>Hostname := strip_markers (Hostname f)\<rparr>, Inr proto) \<Longrightarrow>
      check_identity P R proto (strip_markers (wire_host f)) = Inr h"
  shows "extract_packet P R packet = Inr (recv_payload f ss h)" and "\<exists>k. tp' = drop k tp"
proof -
  from c obtain f' proto inner tp1 where
    cp: "ConstructPayload P f ss = (f', Inr proto)" and len: "minInnerPayloadLen \<le> length inner"
    and d: "DeconstructInnerPayload P inner = Inr proto"
    and o: "ConstructOuterPayload P S inner i tp1 = Inr (packet, tp')"
    and t: "\<exists>k. tp1 = drop k tp" and h: "wire_host f \<noteq> []"
    by (rule create_packet_inner)
  have "fresh tp1" using t fr by auto
  then have "DeconstructOuterPayload P R packet = Inr inner"
    using outer_roundtrip [OF o pair _ len] by simp
  moreover have "DeconstructPayload P R proto = Inr (recv_payload f ss h)"
    using payload_roundtrip_wire [OF cp fits fin h] ident [of proto] cp ConstructPayload_eq_Inr(1) [OF cp] by simp
  ultimately show "extract_packet P R packet = Inr (recv_payload f ss h)"
    using d by (simp add: extract_packet_def)
  from o registered obtain pub ct eph nonce where
    "si_Encrypt suite pub inner tp1 = Inr ((ct, eph, nonce), tp')"
    by (elim ConstructOuterPayload_eq_Inr) auto
  then show "\<exists>k. tp' = drop k tp"
    using t suite_tape by fastforce
qed

lemma packets_roundtrip:
  assumes "create_packets P S i ss fs tp = Inr (packets, tp')" and "paired keypair S R"
    and "\<And>k. fresh (drop k tp)" and "list_all payload_fits fs"
    and "\<And>f. f \<in> set fs \<Longrightarrow> list_all (\<lambda>(k, v). finite_value v) (CustomFields f)"
    and "\<And>f proto. f \<in> set fs \<Longrightarrow>
      ConstructPayload P f ss = (f\<lparr>Hostname := strip_markers (Hostname f)\<rparr>, Inr proto) \<Longrightarrow>
      check_identity P R proto (strip_markers (wire_host f)) = Inr h"
  shows "map (extract_packet P R) packets = map (\<lambda>f. Inr (recv_payload f ss h)) fs"
  using assms
proof (induction fs arbitrary: tp packets)
  case (Cons f fs)
  from Cons.prems(1) obtain packet tp1 ps where c: "create_packet P S i ss f tp = Inr (packet, tp1)"
    and cs: "create_packets P S i ss fs tp1 = Inr (ps, tp')" and ps: "packets = packet # ps"
    by (auto simp: rbind_eq_Inr)
  have 1: "extract_packet P R packet = Inr (recv_payload f ss h) \<and> (\<exists>k. tp1 = drop k tp)"
    using packet_roundtrip [OF c Cons.prems(2)] Cons.prems(3-6) by simp
  then have "\<And>k. fresh (drop k tp1)"
    using Cons.prems(3) by auto
  with 1 Cons.IH [OF cs] Cons.prems ps show ?case by simp
qed simp

end

section \<open>Messages\<close>

text \<open>The packets that arrive: a choice of the sent ones in some order, each at most once.\<close>

definition arrival :: "nat list \<Rightarrow> nat \<Rightarrow> bool" where
  "arrival is n \<longleftrightarrow> is \<noteq> [] \<and> distinct is \<and> list_all (\<lambda>j. j < n) is"

definition delivered_text :: "bytes list \<Rightarrow> nat list \<Rightarrow> bytes" where
  "delivered_text ds is =
     concat (map (\<lambda>j. if j \<in> set is then ds ! j else MissingFragmentPlaceholder) [0..<length ds])"

lemma delivered_all:
  assumes "set is = {0..<length ds}"
  shows "delivered_text ds is = concat ds"
proof -
  have "map (\<lambda>j. if j \<in> set is then ds ! j else MissingFragmentPlaceholder) [0..<length ds] = map (nth ds) [0..<length ds]"
    using assms by (intro map_cong) auto
  then show ?thesis by (simp only: delivered_text_def map_nth)
qed

lemma extract_packets_eq:
  "map (extract_packet P R) packets = map (\<lambda>f. Inr (g f)) fs \<Longrightarrow> extract_packets P R packets = Inr (map g fs)"
  by (induction packets arbitrary: fs) auto

lemma Create_fragments:
  assumes "Create P S msg hostID mx i ss tp = Inr (packets, tp')"
  obtains msgID newMsg fixed fs tp1 k where
    "newMsg = (new_payload msg hostID msgID)\<lparr>Signature := Signature newMsg, SignatureID := ss\<rparr>"
    and "sign_payload P S ss (new_payload msg hostID msgID) = Inr newMsg"
    and "0 \<le> msgID" and "msgID < 2 ^ 32"
    and "CalculateProtocolOverhead P i newMsg = Inr fixed"
    and "Fragment newMsg mx (int fixed) (drop 4 tp) = Inr (fs, tp1)"
    and "create_packets P S i ss fs tp1 = Inr (packets, tp')"
proof -
  from assms obtain b tp0 newMsg fixed fs tp1 where b: "rand_Read 4 tp = Inr (b, tp0)"
    and s: "sign_payload P S ss (new_payload msg hostID (int (be_val b))) = Inr newMsg"
    and o: "CalculateProtocolOverhead P i newMsg = Inr fixed"
    and f0: "Fragment newMsg mx (int fixed) tp0 = Inr (fs, tp1)"
    and c: "create_packets P S i ss fs tp1 = Inr (packets, tp')"
    by (auto simp: Create_def FourByte_def rbind_eq_Inr)
  have f: "Fragment newMsg mx (int fixed) (drop 4 tp) = Inr (fs, tp1)"
    using f0 rand_Read_eq_Inr [OF b] by simp
  have "newMsg = (new_payload msg hostID (int (be_val b)))\<lparr>Signature := Signature newMsg, SignatureID := ss\<rparr>"
    using s by (auto simp: sign_payload_def rbind_eq_Inr)
  moreover have "be_val b < 2 ^ 32"
    using be_val_less [of b] rand_Read_eq_Inr [OF b] by simp
  ultimately show thesis
    using that [OF _ s _ _ o f c] by simp
qed

lemma create_packets_each:
  "create_packets P W cs ss fs tp = Inr (packets, tp') \<Longrightarrow> f \<in> set fs \<Longrightarrow>
     \<exists>tp1 pk tp2. create_packet P W cs ss f tp1 = Inr (pk, tp2)"
  by (induction fs arbitrary: tp packets) (auto simp: rbind_eq_Inr)

lemma fragment_of_sel:
  assumes "fragment_of primary room f"
  shows "HostID f = HostID primary" "MsgID f = MsgID primary" "Timestamp f = Timestamp primary"
    "Hostname f = Hostname primary" "CustomFields f = CustomFields primary" "Signature f = Signature primary"
    "SignatureID f = SignatureID primary" "RemoteIP f = RemoteIP primary"
  using assms by (cases f; cases primary; simp add: fragment_of_def)+

lemma recv_fields_ok: "fields_ok m \<Longrightarrow> fields_ok (recv_fields fs m)"
  by (induction fs arbitrary: m) (auto simp: recv_fields_def intro: fields_ok_map_put)

lemma list_all_map_put: "list_all (\<lambda>(k, v). Q v) m \<Longrightarrow> Q v \<Longrightarrow> list_all (\<lambda>(k, v). Q v) (map_put k v m)"
  by (induction m) auto

lemma upto_int: "[0..int n - 1] = map int [0..<n]"
  by (induction n) (simp_all add: upto_rec2)

lemma recv_fields_values:
  "list_all (\<lambda>(k, v). Q (recv_value v)) fs \<Longrightarrow> list_all (\<lambda>(k, v). Q v) m \<Longrightarrow>
     list_all (\<lambda>(k, v). Q v) (recv_fields fs m)"
  by (induction fs arbitrary: m) (auto simp: recv_fields_def list_all_map_put)

lemma fragment_text_index:
  assumes "\<And>j. j \<in> set is \<Longrightarrow> MessageSeq (g j) = int j"
  shows "fragment_text (map g is) (int j) = (if j \<in> set is then Data (g j) else MissingFragmentPlaceholder)"
  using assms
proof (induction "is")
  case (Cons i "is")
  then show ?case by (auto simp: fragment_text_Cons)
qed (simp add: fragment_text_def)

lemma message_text_index:
  assumes "\<And>j. j \<in> set is \<Longrightarrow> MessageSeq (g j) = int j \<and> Data (g j) = ds ! j"
  shows "message_text (map g is) (int (length ds) - 1) = delivered_text ds is"
proof -
  have "[0..int (length ds) - 1] = map int [0..<length ds]"
    by (rule upto_int)
  moreover have "\<And>j. fragment_text (map g is) (int j) = (if j \<in> set is then ds ! j else MissingFragmentPlaceholder)"
    using assms by (simp add: fragment_text_index)
  ultimately show ?thesis by (simp add: message_text_def delivered_text_def comp_def)
qed

text \<open>The message that a receiver puts together from the packets that arrived.\<close>

definition received :: "Message \<Rightarrow> bytes \<Rightarrow> bytes \<Rightarrow> Message" where
  "received msg host txt = \<lparr> m_Timestamp = time_UnixMilli (UnixMilli (m_Timestamp msg)), m_Hostname = host,
     m_Fields = recv_fields (m_Fields msg) [], m_Data = txt \<rparr>"

definition sendable :: "Message \<Rightarrow> int \<Rightarrow> bool" where
  "sendable msg hostID \<longleftrightarrow> 0 < hostID \<and> hostID < 2 ^ 32 \<and>
     - (2 ^ 63) \<le> UnixMilli (m_Timestamp msg) \<and> UnixMilli (m_Timestamp msg) < 2 ^ 63 \<and>
     list_all (\<lambda>(k, v). finite_value v) (m_Fields msg)"

text \<open>Reassembly of received fragments, all of them with the same source address.\<close>

lemma Defragment_received:
  assumes n: "length fs = n" and arr: "arrival is n"
    and seq: "map MessageSeq fs = map int [0..<n]" and mx: "list_all (\<lambda>p. MessageSeqMax p = int n - 1) fs"
    and same: "list_all (fragment_of new room) fs"
    and cmp: "length is = 1 \<or> list_all (\<lambda>(k, v). self_equal (recv_value v)) (CustomFields new)"
  shows "Defragment (map (\<lambda>j. (recv_payload (fs ! j) ss h)\<lparr>RemoteIP := a\<rparr>) is) =
    Inr (Payload_zero\<lparr> RemoteIP := a, HostID := HostID new, MsgID := MsgID new,
      Timestamp := time_UnixMilli (UnixMilli (Timestamp new)), CustomFields := recv_fields (CustomFields new) [],
      Hostname := h, Data := delivered_text (map Data fs) is \<rparr>)"
proof -
  let ?g = "\<lambda>j. (recv_payload (fs ! j) ss h)\<lparr>RemoteIP := a\<rparr>"
  let ?ps = "map ?g is"
  have idx: "\<And>j. j \<in> set is \<Longrightarrow> j < n" and isn: "is \<noteq> []" "distinct is"
    using arr by (auto simp: arrival_def list_all_iff)
  have at: "MessageSeq (?g j) = int j" "MessageSeqMax (?g j) = int n - 1" "Data (?g j) = map Data fs ! j"
    "fragment_of new room (fs ! j)" if "j \<in> set is" for j
    using idx [OF that] seq mx same n
    by (auto simp: recv_payload_def list_all_iff dest: arg_cong [where f = "\<lambda>xs. xs ! j"])
  have shared: "RemoteIP (?g j) = a" "HostID (?g j) = HostID new" "MsgID (?g j) = MsgID new"
    "Timestamp (?g j) = time_UnixMilli (UnixMilli (Timestamp new))" "Hostname (?g j) = h"
    "CustomFields (?g j) = recv_fields (CustomFields new) []" if "j \<in> set is" for j
    using fragment_of_sel [OF at(4) [OF that]] by (simp_all add: recv_payload_def)
  have fset: "fragment_set ?ps (int n - 1)"
    using isn at idx by (auto simp: fragment_set_def list_all_iff distinct_map inj_on_def)
  have allEq: "allFieldsEqual ?ps = Inr True"
  proof -
    obtain j js where j: "is = j # js" using isn by (cases "is") auto
    show ?thesis
    proof (cases "js = []")
      case False
      then have "list_all (\<lambda>(k, v). self_equal (recv_value v)) (CustomFields new)" using cmp j by simp
      then have "list_all (\<lambda>(k, v). self_equal v) (CustomFields (?g j))"
        using recv_fields_values [of self_equal "CustomFields new" "[]"] shared(6) [of j] j by simp
      moreover have "fields_ok (CustomFields (?g j))"
        using shared(6) [of j] j recv_fields_ok [of "[]"] by (simp add: fields_ok_def)
      ultimately show ?thesis
        using j shared by (auto simp: same_message_def intro!: all_equal_to_same)
    qed (simp add: j)
  qed
  have body: "message_text ?ps (int n - 1) = delivered_text (map Data fs) is"
    using message_text_index [of "is" ?g "map Data fs"] at n by simp
  from Defragment_spec [OF fset allEq] obtain r q where r: "Defragment ?ps = Inr r" "q \<in> set ?ps"
    "Data r = delivered_text (map Data fs) is" and req: "r = Payload_zero\<lparr> RemoteIP := RemoteIP q, HostID := HostID q,
      MsgID := MsgID q, Timestamp := Timestamp q, CustomFields := CustomFields q, Hostname := Hostname q, Data := Data r \<rparr>"
    unfolding body by blast
  from r(2) obtain j where "j \<in> set is" "q = ?g j" by auto
  with shared req have "r = Payload_zero\<lparr> RemoteIP := a, HostID := HostID new, MsgID := MsgID new,
      Timestamp := time_UnixMilli (UnixMilli (Timestamp new)), CustomFields := recv_fields (CustomFields new) [],
      Hostname := h, Data := delivered_text (map Data fs) is \<rparr>"
    unfolding r(3) by simp
  with r(1) show ?thesis by simp
qed

lemma Extract_fragments:
  assumes ps: "map (extract_packet P R) packets = map (\<lambda>f. Inr (recv_payload f ss h)) fs"
    and n: "length fs = n" and arr: "arrival is n"
    and seq: "map MessageSeq fs = map int [0..<n]" and mx: "list_all (\<lambda>p. MessageSeqMax p = int n - 1) fs"
    and same: "list_all (fragment_of new room) fs"
    and cmp: "length is = 1 \<or> list_all (\<lambda>(k, v). self_equal (recv_value v)) (CustomFields new)"
  shows "Extract P R (map (nth packets) is) =
    Inr (Some \<lparr> m_Timestamp = time_UnixMilli (UnixMilli (Timestamp new)), m_Hostname = h,
      m_Fields = recv_fields (CustomFields new) [], m_Data = delivered_text (map Data fs) is \<rparr>, HostID new)"
proof -
  have idx: "\<And>j. j \<in> set is \<Longrightarrow> j < n" and isn: "is \<noteq> []" using arr by (auto simp: arrival_def list_all_iff)
  have np: "length packets = n" using ps n by (metis length_map)
  have "map (extract_packet P R) (map (nth packets) is) = map (\<lambda>f. Inr (recv_payload f ss h)) (map (nth fs) is)"
    using idx np n ps by (auto intro!: map_cong) (metis nth_map)
  from extract_packets_eq [OF this]
  have "extract_packets P R (map (nth packets) is) = Inr (map (\<lambda>j. (recv_payload (fs ! j) ss h)\<lparr>RemoteIP := AddrZero\<rparr>) is)"
    by (simp add: comp_def recv_payload_def)
  with Defragment_received [OF n arr seq mx same cmp, where ss = ss and h = h and a = AddrZero] isn show ?thesis by (simp add: Extract_def)
qed

text \<open>The identity the receiver will settle on, for every fragment of the message.\<close>

definition identity_as :: "crypto_prims \<Rightarrow> wrappers \<Rightarrow> wrappers \<Rightarrow> 8 word \<Rightarrow> Message \<Rightarrow> int \<Rightarrow> bytes \<Rightarrow> bool" where
  "identity_as P S R ss msg hostID h \<longleftrightarrow>
     (\<forall>msgID new f room f' proto.
        sign_payload P S ss (new_payload msg hostID msgID) = Inr new \<longrightarrow> fragment_of new room f \<longrightarrow>
        ConstructPayload P f ss = (f', Inr proto) \<longrightarrow>
        check_identity P R proto (strip_markers (wire_host new)) = Inr h)"

lemma fragment_tape:
  "fragment_loop primary mx fixed seq remaining tp = Inr (fs, seq', tp') \<Longrightarrow> \<exists>k. tp' = drop k tp"
proof (induction primary mx fixed seq remaining tp arbitrary: fs seq' tp' rule: fragment_loop.induct)
  case (1 primary mx fixed seq remaining tp)
  show ?case
  proof (cases "remaining = []")
    case True
    with "1.prems" show ?thesis by (auto simp: fragment_loop.simps intro: exI [of _ 0])
  next
    case False
    with "1.prems" obtain pad tp1 gs rest where pad: "NumberInRange (int minPaddingLen) (int maxPaddingLen) tp = Inr (pad, tp1)"
      and room: "mx - fixed - pad > 0"
      and rest: "rest = (if int (length remaining) > mx - fixed - pad then drop (nat (mx - fixed - pad)) remaining else [])"
      and rec: "fragment_loop primary mx fixed (seq + 1) rest tp1 = Inr (gs, seq', tp')"
      by (subst (asm) fragment_loop.simps) (auto simp: rbind_eq_Inr Let_def not_le split: if_splits)
    have "wrap [ErrFragmentation] (NumberInRange (int minPaddingLen) (int maxPaddingLen) tp) = Inr (pad, tp1)"
      using pad by simp
    with False room rec rest have "\<exists>k. tp' = drop k tp1"
      by (intro "1.IH") (auto simp: Let_def)
    moreover have "tp1 = drop 1 tp"
      using NumberInRange_bounds [OF pad] by (metis drop0 drop_Suc_Cons One_nat_def)
    ultimately show ?thesis by auto
  qed
qed

lemma Fragment_tape: "Fragment primary mx fixed tp = Inr (fs, tp') \<Longrightarrow> \<exists>k. tp' = drop k tp"
  by (auto simp: Fragment_def rbind_eq_Inr dest: fragment_tape split: if_splits)

context packet_channel
begin

text \<open>What a receiver makes of each packet of a message: the fragments of it, in wire form.\<close>

lemma packets_of_message:
  assumes c: "Create P S msg hostID mx i ss tp = Inr (packets, tp')" and pair: "paired keypair S R"
    and fr: "\<And>k. fresh (drop k tp)" and send: "sendable msg hostID" and few: "length packets \<le> 65536"
    and ident: "identity_as P S R ss msg hostID h"
  obtains new room fs where "map (extract_packet P R) packets = map (\<lambda>f. Inr (recv_payload f ss h)) fs"
    and "map MessageSeq fs = map int [0..<length fs]" and "list_all (\<lambda>p. MessageSeqMax p = int (length fs) - 1) fs"
    and "list_all (fragment_of new room) fs" and "concat (map Data fs) = m_Data msg" and "length fs = length packets"
    and "HostID new = hostID" and "0 \<le> MsgID new" and "MsgID new < 2 ^ 32" and "Timestamp new = m_Timestamp msg"
    and "CustomFields new = m_Fields msg"
proof -
  from c obtain msgID new fixed fs tp1 where
    new: "new = (new_payload msg hostID msgID)\<lparr>Signature := Signature new, SignatureID := ss\<rparr>"
    and sign: "sign_payload P S ss (new_payload msg hostID msgID) = Inr new"
    and m: "0 \<le> msgID" "msgID < 2 ^ 32"
    and f: "Fragment new mx (int fixed) (drop 4 tp) = Inr (fs, tp1)"
    and cp: "create_packets P S i ss fs tp1 = Inr (packets, tp')"
    by (rule Create_fragments)
  have nsel: "HostID new = hostID" "MsgID new = msgID" "Timestamp new = m_Timestamp msg"
    "CustomFields new = m_Fields msg" "Data new = m_Data msg"
    by (subst new, simp add: new_payload_def)+
  note fspec = Fragment_spec [OF f]
  let ?n = "length fs"
  have frag: "fragment_of new (mx - int fixed) x" if "x \<in> set fs" for x
    using fspec(3) that by (simp add: list_all_iff)
  obtain k where "tp1 = drop k (drop 4 tp)" using Fragment_tape [OF f] by blast
  then have fr1: "\<And>k. fresh (drop k tp1)" using fr by simp
  have len: "length packets = ?n"
    using cp by (induction fs arbitrary: tp1 packets) (auto simp: rbind_eq_Inr)
  have host: "wire_host x = wire_host new" if "x \<in> set fs" for x
    using fragment_of_sel(4) [OF frag [OF that]] by (simp add: wire_host_def)
  have fits: "payload_fits x" if x: "x \<in> set fs" for x
  proof -
    from create_packets_each [OF cp x] obtain t pk t' where "create_packet P S i ss x t = Inr (pk, t')" by blast
    then obtain x' proto where "ConstructPayload P x ss = (x', Inr proto)" and d: "data_ok (Data x)"
      by (rule create_packet_inner)
    then have "MsgID x \<noteq> 0" by (auto dest: ConstructPayload_eq_Inr)
    moreover have "MessageSeq x \<in> set (map int [0..<?n])" "MessageSeqMax x = int ?n - 1"
      using x fspec(2,4) by (metis image_eqI list.set_map) (simp add: fspec(4) [unfolded list_all_iff, rule_format, OF x])
    ultimately show ?thesis
      using fragment_of_sel [OF frag [OF x]] d m send few len
      by (auto simp: payload_fits_def nsel sendable_def)
  qed
  have "map (extract_packet P R) packets = map (\<lambda>f. Inr (recv_payload f ss h)) fs"
  proof (rule packets_roundtrip [OF cp pair fr1])
    show "list_all payload_fits fs" using fits by (simp add: list_all_iff)
    show "list_all (\<lambda>(k, v). finite_value v) (CustomFields x)" if "x \<in> set fs" for x
      using fragment_of_sel(5) [OF frag [OF that]] send by (simp add: nsel sendable_def)
    show "check_identity P R proto (strip_markers (wire_host x)) = Inr h"
      if "x \<in> set fs" "ConstructPayload P x ss = (x\<lparr>Hostname := strip_markers (Hostname x)\<rparr>, Inr proto)" for x proto
      using ident sign frag [OF that(1)] that host [OF that(1)] unfolding identity_as_def by metis
  qed
  from that [OF this fspec(2,4,3) _ len [symmetric]] fspec(1) nsel m show thesis by simp
qed

lemma message_roundtrip:
  assumes c: "Create P S msg hostID mx i ss tp = Inr (packets, tp')" and pair: "paired keypair S R"
    and fr: "\<And>k. fresh (drop k tp)" and send: "sendable msg hostID" and few: "length packets \<le> 65536"
    and ident: "identity_as P S R ss msg hostID h" and arr: "arrival is (length packets)"
    and cmp: "length is = 1 \<or> list_all (\<lambda>(k, v). self_equal (recv_value v)) (m_Fields msg)"
  shows "\<exists>ds. length ds = length packets \<and> concat ds = m_Data msg \<and>
    Extract P R (map (nth packets) is) = Inr (Some (received msg h (delivered_text ds is)), hostID)"
proof -
  from packets_of_message [OF assms(1-6)] obtain new room fs where
    ps: "map (extract_packet P R) packets = map (\<lambda>f. Inr (recv_payload f ss h)) fs"
    "map MessageSeq fs = map int [0..<length fs]" "list_all (\<lambda>p. MessageSeqMax p = int (length fs) - 1) fs"
    "list_all (fragment_of new room) fs" and d: "concat (map Data fs) = m_Data msg" "length fs = length packets"
    and nsel: "HostID new = hostID" "Timestamp new = m_Timestamp msg" "CustomFields new = m_Fields msg"
    by metis
  from Extract_fragments [OF ps(1) refl _ ps(2-4)] arr cmp d
  have "Extract P R (map (nth packets) is) =
      Inr (Some (received msg h (delivered_text (map Data fs) is)), hostID)"
    by (simp add: nsel received_def)
  then show ?thesis using d by (intro exI [of _ "map Data fs"]) simp
qed

end

section \<open>The identity of the sender\<close>

definition wire_hostname :: "bytes \<Rightarrow> bytes" where
  "wire_hostname h = strip_markers (cleanStringToBytes (strip_markers h) maxHostnameLen)"

lemma sign_payload_sel:
  assumes "sign_payload P S ss (new_payload msg hostID msgID) = Inr new" and "fragment_of new room f"
    and "ConstructPayload P f ss = (f', Inr proto)"
  shows "strip_markers (wire_host new) = wire_hostname (m_Hostname msg)" and "w_SignatureID proto = ss"
    and "w_HostID proto = of_int hostID" and "w_Timestamp proto = of_int (UnixMilli (m_Timestamp msg))"
    and "w_Signature proto = (if ss = 0 then [] else Signature new)"
proof -
  note r = ConstructPayload_eq_Inr [OF assms(3)]
  have new: "Hostname new = m_Hostname msg" "HostID new = hostID" "Timestamp new = m_Timestamp msg"
    using assms(1) by (auto simp: sign_payload_def rbind_eq_Inr new_payload_def)
  show "strip_markers (wire_host new) = wire_hostname (m_Hostname msg)"
    by (simp add: wire_host_def wire_hostname_def new)
  show "w_SignatureID proto = ss" "w_HostID proto = of_int hostID"
    "w_Timestamp proto = of_int (UnixMilli (m_Timestamp msg))"
    using fragment_of_sel [OF assms(2)] new by (subst r(9), simp)+
  show "w_Signature proto = (if ss = 0 then [] else Signature new)"
    using construct_signature_ok(2) [OF r(7)] fragment_of_sel(6) [OF assms(2)] by simp
qed

lemma identity_unsigned:
  assumes "LookupPinnedSender R (wire_hostname (m_Hostname msg)) = None"
  shows "identity_as P S R 0 msg hostID (HostPrefixUnverified @ wire_hostname (m_Hostname msg))"
  using assms sign_payload_sel(1,2) by (auto simp: identity_as_def check_identity_def)

lemma identity_signed:
  assumes ed: "ed25519_ok P" and host: "wire_hostname (m_Hostname msg) = m_Hostname msg"
    and key: "CreateSignature_var S = FnSet priv" and ver: "VerifySignature_var R = FnSet ()"
    and pin: "LookupPinnedSender R (m_Hostname msg) = Some (Ed_Public P priv)"
    and nz: "\<not> IsZero (Ed_Public P priv)"
  shows "identity_as P S R 1 msg hostID (m_Hostname msg)"
  unfolding identity_as_def
proof (intro allI impI)
  fix msgID new f room f' proto
  assume s: "sign_payload P S 1 (new_payload msg hostID msgID) = Inr new" and f: "fragment_of new room f"
    and c: "ConstructPayload P f 1 = (f', Inr proto)"
  note sel = sign_payload_sel [OF s f c]
  have "CreateSignature P S (SerializeSignature (m_Hostname msg) (of_int hostID)
      (of_int (UnixMilli (m_Timestamp msg)))) 1 = Inr (Signature new)"
    using s by (auto simp: sign_payload_def rbind_eq_Inr new_payload_def Payload_zero_def)
  from CreateSignature_verifies(1) [OF ed this _ key ver nz] sel host pin
  show "check_identity P R proto (strip_markers (wire_host new)) = Inr (m_Hostname msg)"
    by (simp add: check_identity_def)
qed

text \<open>A plain hostname (printable, no marker, of wire length) is its own wire form.\<close>

lemma wire_hostname_id:
  "strip_markers h = h \<Longrightarrow> isPrintableASCII h \<Longrightarrow> h \<noteq> [] \<Longrightarrow> length h \<le> maxHostnameLen \<Longrightarrow> wire_hostname h = h"
  by (simp add: wire_hostname_def clean_id)

section \<open>End to end\<close>

definition tape_fresh :: "tape \<Rightarrow> bool" where
  "tape_fresh tp = list_all (\<lambda>k. suite1_fresh (drop k tp)) [0..<length tp]"

lemma tape_fresh_drop: "tape_fresh tp \<Longrightarrow> suite1_fresh (drop k tp)"
  by (cases "k < length tp") (auto simp: tape_fresh_def list_all_iff suite1_fresh_def crypto_sizes)

lemma suite1_message_roundtrip:
  assumes "x25519_ok P" and "chacha_ok P"
    and "Create P S msg hostID mx 1 ss tp = Inr (packets, tp')" and "paired (suite1_keypair P) S R"
    and "tape_fresh tp" and "sendable msg hostID" and "length packets \<le> 65536"
    and "identity_as P S R ss msg hostID h" and "arrival is (length packets)"
    and "length is = 1 \<or> list_all (\<lambda>(k, v). self_equal (recv_value v)) (m_Fields msg)"
  shows "\<exists>ds. length ds = length packets \<and> concat ds = m_Data msg \<and>
    Extract P R (map (nth packets) is) = Inr (Some (received msg h (delivered_text ds is)), hostID)"
  using packet_channel.message_roundtrip [OF suite1_packet_channel [OF assms(1,2)] assms(3,4) _ assms(6-10)]
    tape_fresh_drop [OF assms(5)] by blast

lemma arrival_perm:
  assumes "mset is = mset [0..<n]" and "0 < n"
  shows "arrival is n" and "set is = {0..<n}"
proof -
  have "distinct is" "set is = {0..<n}"
    using assms(1) by (metis distinct_upt mset_eq_imp_distinct_iff, metis mset_eq_setD set_upt)
  with assms(2) show "arrival is n" "set is = {0..<n}"
    by (auto simp: arrival_def list_all_iff)
qed

section \<open>The size of packets\<close>

lemma CalculateProtocolOverhead_fragment:
  "fragment_of new room f \<Longrightarrow> CalculateProtocolOverhead P i f = CalculateProtocolOverhead P i new"
  by (simp add: CalculateProtocolOverhead_def fragment_of_sel cong: option.case_cong)

lemma create_packets_sizes:
  assumes "create_packets P S cs ss fs tp = Inr (packets, tp')"
    and "\<And>f t pk t'. f \<in> set fs \<Longrightarrow> create_packet P S cs ss f t = Inr (pk, t') \<Longrightarrow> Q (length pk)"
  shows "list_all (\<lambda>pk. Q (length pk)) packets"
  using assms
proof (induction fs arbitrary: tp packets)
  case (Cons f fs)
  then obtain pk t pks where "create_packet P S cs ss f tp = Inr (pk, t)"
    "create_packets P S cs ss fs t = Inr (pks, tp')" "packets = pk # pks"
    by (auto simp: rbind_eq_Inr)
  with Cons.IH Cons.prems(2) show ?case by (metis list.set_intros list.pred_inject(2))
qed simp

context packet_channel
begin

lemma packet_size:
  assumes c: "create_packet P S i ss f t = Inr (pk, t')" and f: "fragment_of new (mx - int fixed) f"
    and o: "CalculateProtocolOverhead P i new = Inr fixed"
    and h: "strip_markers (Hostname new) = Hostname new" and few: "placeholders new \<le> 3"
  shows "int (length pk) \<le> mx"
proof -
  from c obtain f' proto inner t1 where cp: "ConstructPayload P f ss = (f', Inr proto)"
    and inner: "length inner = length (inner_bytes proto) + nat (w_PaddingLen proto)"
    and out: "ConstructOuterPayload P S inner i t1 = Inr (pk, t')"
    by (rule create_packet_inner)
  note sel = fragment_of_sel [OF f]
  have "SuiteIDLen + KeySize suite + NonceSize suite + length (inner_bytes proto) + nat (w_PaddingLen proto) +
      CipherOverhead suite \<le> fixed + length (Data f) + nat (PaddingLen f)"
    using inner_length_estimate [OF cp registered, of fixed "length (Data f)"] CalculateProtocolOverhead_fragment [OF f] o h few
    by (simp add: sel placeholders_def)
  moreover have "int (length (Data f)) + PaddingLen f \<le> mx - int fixed" "0 \<le> PaddingLen f"
    using f by (auto simp: fragment_of_def)
  moreover have "length pk = SuiteIDLen + KeySize suite + NonceSize suite + length inner + CipherOverhead suite"
    using out by (rule outer_length)
  ultimately show ?thesis
    unfolding inner by linarith
qed

lemma packets_fit:
  assumes c: "Create P S msg hostID mx i ss tp = Inr (packets, tp')"
    and h: "strip_markers (m_Hostname msg) = m_Hostname msg"
    and few: "(if m_Hostname msg = [] then 1 else 0) + sum_list (map field_placeholders (m_Fields msg)) \<le> 3"
  shows "list_all (\<lambda>pk. int (length pk) \<le> mx) packets"
proof -
  from c obtain msgID new fixed fs tp1 where
    new: "new = (new_payload msg hostID msgID)\<lparr>Signature := Signature new, SignatureID := ss\<rparr>"
    and o: "CalculateProtocolOverhead P i new = Inr fixed"
    and f: "Fragment new mx (int fixed) (drop 4 tp) = Inr (fs, tp1)"
    and cp: "create_packets P S i ss fs tp1 = Inr (packets, tp')"
    by (rule Create_fragments)
  have nsel: "Hostname new = m_Hostname msg" "CustomFields new = m_Fields msg"
    by (subst new, simp add: new_payload_def)+
  have "fragment_of new (mx - int fixed) x" if "x \<in> set fs" for x
    using Fragment_spec(3) [OF f] that by (simp add: list_all_iff)
  then show ?thesis
    using packet_size [OF _ _ o] h few by (intro create_packets_sizes [OF cp]) (auto simp: nsel placeholders_def)
qed

end

section \<open>Properties\<close>

definition example_message :: "string \<Rightarrow> Message" where
  "example_message h = \<lparr> m_Timestamp = 3000000, m_Hostname = bytes_of_string h,
     m_Fields = [(bytes_of_string ''pid'', AnyInt32 7)], m_Data = bytes_of_string ''hello wor'' \<rparr>"

definition example_tape :: tape where
  "example_tape = [0, 0, 0, 1] @ map (\<lambda>i. i mod 2) [0..<160]"

definition created :: "(bytes list \<times> tape) d3p_res \<Rightarrow> nat \<Rightarrow> bool" where
  "created r n = (case r of Inr (packets, _) \<Rightarrow> length packets = n | Inl _ \<Rightarrow> False)"

lemma createdE:
  assumes "created r n" obtains packets tp' where "r = Inr (packets, tp')" and "length packets = n"
  using assms by (auto simp: created_def split: sum.splits)

lemma example_unsigned: "created (Create example_prims example_sender (example_message ''web2'') 12 124 1 0 example_tape) 2"
  by code_simp

lemma example_signed: "created (Create example_prims example_sender (example_message ''web1'') 12 188 1 1 example_tape) 2"
  by code_simp

lemma example_paired: "paired (suite1_keypair example_prims) example_sender example_receiver"
  by code_simp

lemma isAllIdentical_nth: "isAllIdentical xs \<Longrightarrow> Suc 0 < length xs \<Longrightarrow> xs ! 0 = xs ! Suc 0"
  by (cases xs) (auto simp: list_all_length)

lemma tape_freshI:
  assumes "\<And>j. ScalarSize \<le> j \<Longrightarrow> Suc j < length tp \<Longrightarrow> (of_nat (tp ! j) :: byte) \<noteq> of_nat (tp ! Suc j)"
  shows "tape_fresh tp"
  unfolding tape_fresh_def list_all_iff
proof
  fix k
  let ?nonce = "map of_nat (take ChaChaNonceSize (drop ScalarSize (drop k tp))) :: bytes"
  have "\<not> isAllIdentical ?nonce" if len: "ScalarSize + ChaChaNonceSize \<le> length (drop k tp)"
  proof
    assume "isAllIdentical ?nonce"
    from isAllIdentical_nth [OF this] len
    have "(of_nat (tp ! (ScalarSize + k)) :: byte) = of_nat (tp ! Suc (ScalarSize + k))"
      by (simp add: crypto_sizes add.commute)
    moreover have "Suc (ScalarSize + k) < length tp" using len by (simp add: crypto_sizes)
    ultimately show False using assms [of "ScalarSize + k"] by simp
  qed
  then show "suite1_fresh (drop k tp)"
    unfolding suite1_fresh_def by linarith
qed

lemma example_tape_nth: "i < 160 \<Longrightarrow> example_tape ! (4 + i) = i mod 2"
  using nth_append_length_plus [of "[0, 0, 0, 1]" "map (\<lambda>i. i mod 2) [0..<160]" i]
  by (simp add: example_tape_def)

lemma example_tape_fresh: "tape_fresh example_tape"
proof (rule tape_freshI)
  fix j
  assume "ScalarSize \<le> j" and "Suc j < length example_tape"
  then obtain i where j: "j = 4 + i" and i: "Suc i < 160"
    by (auto simp: example_tape_def crypto_sizes intro: that [of "j - 4"])
  have "example_tape ! j = i mod 2" "example_tape ! Suc j = Suc i mod 2"
    using example_tape_nth [of i] example_tape_nth [of "Suc i"] i by (simp_all add: j)
  then show "(of_nat (example_tape ! j) :: byte) \<noteq> of_nat (example_tape ! Suc j)"
    by (cases "even i") (simp_all add: mod_Suc odd_iff_mod_2_eq_one)
qed

lemma example_sendable: "sendable (example_message h) 12"
  "list_all (\<lambda>(k, v). self_equal (recv_value v)) (m_Fields (example_message h))"
  by (simp_all add: sendable_def example_message_def UnixMilli_def finite_value_def self_equal_def recv_value_def iface_eq_def)

lemma example_wire_hostname: "wire_hostname (bytes_of_string ''web2'') = bytes_of_string ''web2''"
  "wire_hostname (bytes_of_string ''web1'') = bytes_of_string ''web1''"
  by code_simp+

text \<open>
  C1. End to end over the encrypted suite: whichever packets of a message arrive, in whatever order,
  the receiver rebuilds the message: its timestamp in milliseconds, its fields in their wire form,
  its data with a placeholder for each lost fragment, and the hostname marked as unverified, since
  the sender did not sign and has no pinned key. With more than one packet the fields must be
  comparable (no byte slices).
\<close>

theorem message_survives_reordering_and_loss:
  assumes "x25519_ok P" and "chacha_ok P"
    and "Create P S msg hostID mx 1 0 tp = Inr (packets, tp')"
    and "paired (suite1_keypair P) S R" and "tape_fresh tp"
    and "sendable msg hostID" and "length packets \<le> 65536"
    and "LookupPinnedSender R (wire_hostname (m_Hostname msg)) = None"
    and "arrival is (length packets)"
    and "length is = 1 \<or> list_all (\<lambda>(k, v). self_equal (recv_value v)) (m_Fields msg)"
  shows "\<exists>ds. length ds = length packets \<and> concat ds = m_Data msg \<and>
    Extract P R (map (nth packets) is) =
      Inr (Some (received msg (HostPrefixUnverified @ wire_hostname (m_Hostname msg)) (delivered_text ds is)), hostID)"
  using suite1_message_roundtrip [OF assms(1-7) identity_unsigned [OF assms(8)] assms(9,10)] .

theorem message_survives_reordering_and_loss_witness:
  "\<exists>packets tp' ds. Create example_prims example_sender (example_message ''web2'') 12 124 1 0 example_tape = Inr (packets, tp') \<and>
    concat ds = bytes_of_string ''hello wor'' \<and>
    Extract example_prims example_receiver (map (nth packets) [1]) = Inr (Some (received (example_message ''web2'')
      (HostPrefixUnverified @ bytes_of_string ''web2'') (delivered_text ds [1])), 12)"
proof -
  obtain packets tp' where c: "Create example_prims example_sender (example_message ''web2'') 12 124 1 0 example_tape = Inr (packets, tp')"
    "length packets = 2"
    using example_unsigned by (rule createdE)
  have "LookupPinnedSender example_receiver (wire_hostname (m_Hostname (example_message ''web2''))) = None"
    by code_simp
  from message_survives_reordering_and_loss [OF example_prims_ok(1,2) c(1) example_paired example_tape_fresh
      example_sendable(1) _ this, of "[1]"] c example_wire_hostname
  show ?thesis by (auto simp: arrival_def example_message_def)
qed

text \<open>
  C2. A signed message from a pinned sender is delivered in full under its own, unmarked hostname
  when all its packets arrive, in any order.
\<close>

theorem signed_message_delivered:
  assumes "x25519_ok P" and "chacha_ok P" and "ed25519_ok P"
    and "Create P S msg hostID mx 1 1 tp = Inr (packets, tp')"
    and "paired (suite1_keypair P) S R" and "tape_fresh tp"
    and "sendable msg hostID" and "0 < length packets" and "length packets \<le> 65536"
    and "CreateSignature_var S = FnSet priv" and "VerifySignature_var R = FnSet ()"
    and "LookupPinnedSender R (m_Hostname msg) = Some (Ed_Public P priv)" and "\<not> IsZero (Ed_Public P priv)"
    and "wire_hostname (m_Hostname msg) = m_Hostname msg"
    and "mset is = mset [0..<length packets]"
    and "list_all (\<lambda>(k, v). self_equal (recv_value v)) (m_Fields msg)"
  shows "Extract P R (map (nth packets) is) = Inr (Some (received msg (m_Hostname msg) (m_Data msg)), hostID)"
proof -
  note arr = arrival_perm [OF assms(15,8)]
  from suite1_message_roundtrip [OF assms(1,2,4-7,9) identity_signed [OF assms(3,14,10,11,12,13)] arr(1)] assms(16)
  obtain ds where "length ds = length packets" "concat ds = m_Data msg"
    "Extract P R (map (nth packets) is) = Inr (Some (received msg (m_Hostname msg) (delivered_text ds is)), hostID)"
    by blast
  with delivered_all [of "is" ds] arr(2) show ?thesis by simp
qed

theorem signed_message_delivered_witness:
  "\<exists>packets tp'. Create example_prims example_sender (example_message ''web1'') 12 188 1 1 example_tape = Inr (packets, tp') \<and>
    Extract example_prims example_receiver (map (nth packets) [1, 0]) = Inr (Some (received (example_message ''web1'')
      (bytes_of_string ''web1'') (bytes_of_string ''hello wor'')), 12)"
proof -
  obtain packets tp' where c: "Create example_prims example_sender (example_message ''web1'') 12 188 1 1 example_tape = Inr (packets, tp')"
    "length packets = 2"
    using example_signed by (rule createdE)
  have k: "CreateSignature_var example_sender = FnSet (replicate 64 7)" "VerifySignature_var example_receiver = FnSet ()"
    by (simp_all add: example_sender_def example_receiver_def)
  have p: "LookupPinnedSender example_receiver (m_Hostname (example_message ''web1'')) = Some (Ed_Public example_prims (replicate 64 7))"
    "\<not> IsZero (Ed_Public example_prims (replicate 64 7))"
    by code_simp+
  have "wire_hostname (m_Hostname (example_message ''web1'')) = m_Hostname (example_message ''web1'')"
    using example_wire_hostname by (simp add: example_message_def)
  from signed_message_delivered [OF example_prims_ok c(1) example_paired example_tape_fresh
      example_sendable(1) _ _ k p this, of "[1, 0]"] c example_sendable(2)
  show ?thesis by (simp add: example_message_def upt_rec)
qed

text \<open>
  C12. No packet exceeds the maximum payload size, as long as the hostname carries no trust marker and
  at most three placeholders are inserted for empty values (the estimate of the overhead has three
  bytes to spare and does not count placeholders).
\<close>

theorem packets_within_maximum:
  assumes "x25519_ok P" and "chacha_ok P"
    and "Create P S msg hostID mx 1 ss tp = Inr (packets, tp')"
    and "strip_markers (m_Hostname msg) = m_Hostname msg"
    and "(if m_Hostname msg = [] then 1 else 0) + sum_list (map field_placeholders (m_Fields msg)) \<le> 3"
  shows "list_all (\<lambda>pk. int (length pk) \<le> mx) packets"
  using packet_channel.packets_fit [OF suite1_packet_channel [OF assms(1,2)] assms(3-5)] .

theorem packets_within_maximum_witness:
  "\<exists>packets tp'. Create example_prims example_sender (example_message ''web2'') 12 124 1 0 example_tape = Inr (packets, tp') \<and>
    list_all (\<lambda>pk. int (length pk) \<le> 124) packets"
proof -
  obtain packets tp' where c: "Create example_prims example_sender (example_message ''web2'') 12 124 1 0 example_tape = Inr (packets, tp')"
    using example_unsigned by (rule createdE)
  moreover have "strip_markers (m_Hostname (example_message ''web2'')) = m_Hostname (example_message ''web2'')"
    by code_simp
  ultimately show ?thesis
    using packets_within_maximum [OF example_prims_ok(1,2) c]
    by (auto simp: example_message_def field_placeholders_def bytes_of_string_def)
qed

end
