(* ===== verification/Filtering.thy ===== *)
theory Filtering
  imports Proto_Types "HOL-Library.Sublist"
begin

text \<open>
  \<^verbatim>\<open>internal/filtering\<close> and \<^verbatim>\<open>pkg/protocol/filtering.go\<close>: configured filters over bytes and over
  messages. A filter node is a struct with seven optional parts, of which a valid node sets exactly
  one; the specification is the boolean formula that a valid filter stands for, and matching a valid
  filter is the truth of its formula.
\<close>

section \<open>Filters\<close>

datatype Filter = Filter
  (And: "Filter list") (Or: "Filter list") (Not: "Filter option")
  (Prefix: bytes) (Suffix: bytes) (Contains: bytes) (Exact: bytes)

fun bytes_Contains :: "bytes \<Rightarrow> bytes \<Rightarrow> bool" where
  "bytes_Contains s [] = True"
| "bytes_Contains [] p = False"
| "bytes_Contains (b # s) p = (prefix p (b # s) \<or> bytes_Contains s p)"

text \<open>The cases are tried in the order of the source; the empty node matches nothing.\<close>

fun Match :: "Filter \<Rightarrow> bytes \<Rightarrow> bool" where
  "Match (Filter fand forr fnot pre suf con ex) input =
     (if length fand > 0 then list_all (\<lambda>sub. Match sub input) fand
      else if length forr > 0 then list_ex (\<lambda>sub. Match sub input) forr
      else (case fnot of
              Some sub \<Rightarrow> \<not> Match sub input
            | None \<Rightarrow>
                if pre \<noteq> [] then prefix pre input
                else if suf \<noteq> [] then suffix suf input
                else if con \<noteq> [] then bytes_Contains input con
                else if ex \<noteq> [] then input = ex
                else False))"

text \<open>The error of a validation: an empty node, several parts, or the path to one.\<close>

datatype filter_error = EmptyNode | SeveralParts nat | InAnd nat filter_error | InOr nat filter_error | InNot filter_error

definition parts_set :: "Filter \<Rightarrow> nat" where
  "parts_set f =
     (if length (And f) > 0 then 1 else 0) + (if length (Or f) > 0 then 1 else 0) +
     (if Not f \<noteq> None then 1 else 0) + (if Prefix f \<noteq> [] then 1 else 0) +
     (if Suffix f \<noteq> [] then 1 else 0) + (if Contains f \<noteq> [] then 1 else 0) +
     (if Exact f \<noteq> [] then 1 else 0)"

text \<open>The first error among the children, with its index.\<close>

fun first_error :: "(nat \<Rightarrow> 'e \<Rightarrow> 'e) \<Rightarrow> nat \<Rightarrow> ('e + unit) list \<Rightarrow> 'e + unit" where
  "first_error tag i [] = Inr ()"
| "first_error tag i (Inl e # rs) = Inl (tag i e)"
| "first_error tag i (Inr u # rs) = first_error tag (Suc i) rs"

fun Validate :: "Filter \<Rightarrow> filter_error + unit" where
  "Validate (Filter fand forr fnot pre suf con ex) =
     (let n = parts_set (Filter fand forr fnot pre suf con ex) in
      if n = 0 then Inl EmptyNode
      else if n > 1 then Inl (SeveralParts n)
      else rbind (first_error InAnd 0 (map Validate fand)) (\<lambda>_.
           rbind (first_error InOr 0 (map Validate forr)) (\<lambda>_.
           (case fnot of None \<Rightarrow> Inr ()
            | Some sub \<Rightarrow> (case Validate sub of Inl e \<Rightarrow> Inl (InNot e) | Inr _ \<Rightarrow> Inr ())))))"

section \<open>Message filters\<close>

record MessageFilter =
  mf_Data :: "Filter option"
  mf_FieldsKey :: "Filter option"
  mf_FieldsValue :: "Filter option"
  mf_UseAnd :: bool

text \<open>
  The text of a field value is \<^verbatim>\<open>fmt.Sprint\<close>, an argument of the definition: its rendering of
  floating-point numbers is not part of the program.
\<close>

definition MessageFilter_Match :: "(any \<Rightarrow> bytes) \<Rightarrow> MessageFilter \<Rightarrow> Message \<Rightarrow> bool" where
  "MessageFilter_Match sprint mf msg =
     (let matches =
        (case mf_Data mf of None \<Rightarrow> [] | Some f \<Rightarrow> [Match f (m_Data msg)]) @
        (case mf_FieldsKey mf of None \<Rightarrow> [] | Some f \<Rightarrow> [list_ex (\<lambda>(k, v). Match f k) (m_Fields msg)]) @
        (case mf_FieldsValue mf of None \<Rightarrow> [] | Some f \<Rightarrow> [list_ex (\<lambda>(k, v). Match f (sprint v)) (m_Fields msg)]) in
      if length matches = 0 then False
      else if mf_UseAnd mf then list_all (\<lambda>m. m) matches else list_ex (\<lambda>m. m) matches)"

definition validate_part :: "Filter option \<Rightarrow> filter_error + unit" where
  "validate_part p = (case p of None \<Rightarrow> Inr () | Some f \<Rightarrow> Validate f)"

definition MessageFilter_Validate :: "MessageFilter \<Rightarrow> filter_error + unit" where
  "MessageFilter_Validate mf =
     rbind (validate_part (mf_Data mf)) (\<lambda>_.
     rbind (validate_part (mf_FieldsKey mf)) (\<lambda>_. validate_part (mf_FieldsValue mf)))"

section \<open>Formulas\<close>

datatype formula =
    FAll "formula list" | FAny "formula list" | FNot formula
  | FPrefix bytes | FSuffix bytes | FContains bytes | FExact bytes

fun holds :: "formula \<Rightarrow> bytes \<Rightarrow> bool" where
  "holds (FAll fs) s = (\<forall>f \<in> set fs. holds f s)"
| "holds (FAny fs) s = (\<exists>f \<in> set fs. holds f s)"
| "holds (FNot f) s = (\<not> holds f s)"
| "holds (FPrefix p) s = (\<exists>t. s = p @ t)"
| "holds (FSuffix p) s = (\<exists>t. s = t @ p)"
| "holds (FContains p) s = (\<exists>t u. s = t @ p @ u)"
| "holds (FExact p) s = (s = p)"

fun formula_of :: "Filter \<Rightarrow> formula" where
  "formula_of (Filter fand forr fnot pre suf con ex) =
     (if fand \<noteq> [] then FAll (map formula_of fand)
      else if forr \<noteq> [] then FAny (map formula_of forr)
      else (case fnot of Some sub \<Rightarrow> FNot (formula_of sub) | None \<Rightarrow>
        if pre \<noteq> [] then FPrefix pre
        else if suf \<noteq> [] then FSuffix suf
        else if con \<noteq> [] then FContains con
        else FExact ex))"

text \<open>Formulas a configuration can write: no empty conjunction, disjunction or literal.\<close>

fun expressible :: "formula \<Rightarrow> bool" where
  "expressible (FAll fs) = (fs \<noteq> [] \<and> (\<forall>f \<in> set fs. expressible f))"
| "expressible (FAny fs) = (fs \<noteq> [] \<and> (\<forall>f \<in> set fs. expressible f))"
| "expressible (FNot f) = expressible f"
| "expressible (FPrefix p) = (p \<noteq> [])"
| "expressible (FSuffix p) = (p \<noteq> [])"
| "expressible (FContains p) = (p \<noteq> [])"
| "expressible (FExact p) = (p \<noteq> [])"

fun filter_of :: "formula \<Rightarrow> Filter" where
  "filter_of (FAll fs) = Filter (map filter_of fs) [] None [] [] [] []"
| "filter_of (FAny fs) = Filter [] (map filter_of fs) None [] [] [] []"
| "filter_of (FNot f) = Filter [] [] (Some (filter_of f)) [] [] [] []"
| "filter_of (FPrefix p) = Filter [] [] None p [] [] []"
| "filter_of (FSuffix p) = Filter [] [] None [] p [] []"
| "filter_of (FContains p) = Filter [] [] None [] [] p []"
| "filter_of (FExact p) = Filter [] [] None [] [] [] p"

section \<open>Correctness\<close>

lemma bytes_Contains_iff: "bytes_Contains s p \<longleftrightarrow> (\<exists>t u. s = t @ p @ u)"
proof -
  have "bytes_Contains s p \<longleftrightarrow> sublist p s"
    by (induction s p rule: bytes_Contains.induct) (auto simp: sublist_Cons_right)
  then show ?thesis by (auto simp: sublist_def)
qed

lemma first_error_Inr: "first_error tag i rs = Inr u \<longleftrightarrow> (\<forall>r \<in> set rs. r = Inr ())"
  by (induction tag i rs rule: first_error.induct) auto

lemma Validate_node:
  "Validate f = Inr u \<Longrightarrow> parts_set f = 1 \<and> (\<forall>g \<in> set (And f). Validate g = Inr ()) \<and>
     (\<forall>g \<in> set (Or f). Validate g = Inr ()) \<and> (\<forall>g. Not f = Some g \<longrightarrow> Validate g = Inr ())"
  by (cases f) (auto simp: rbind_eq_Inr first_error_Inr Let_def split: if_splits option.splits sum.splits)

lemma Validate_nodeI:
  "parts_set f = 1 \<Longrightarrow> \<forall>g \<in> set (And f). Validate g = Inr () \<Longrightarrow> \<forall>g \<in> set (Or f). Validate g = Inr () \<Longrightarrow>
     \<forall>g. Not f = Some g \<longrightarrow> Validate g = Inr () \<Longrightarrow> Validate f = Inr ()"
  by (cases f) (auto simp: rbind_eq_Inr first_error_Inr Let_def split: option.splits)

lemma Match_formula:
  assumes "Validate f = Inr ()"
  shows "Match f s \<longleftrightarrow> holds (formula_of f) s"
  using assms
proof (induction f rule: formula_of.induct)
  case (1 fand forr fnot pre suf con ex)
  note v = Validate_node [OF "1.prems"]
  then show ?case
    using "1.IH"
    by (auto simp: list_all_iff list_ex_iff prefix_def suffix_def bytes_Contains_iff parts_set_def
        split: option.splits if_splits)
qed

lemma filter_of_valid: "expressible \<phi> \<Longrightarrow> Validate (filter_of \<phi>) = Inr () \<and> formula_of (filter_of \<phi>) = \<phi>"
proof (induction \<phi>)
  case (FAll fs)
  then show ?case by (intro conjI Validate_nodeI) (auto simp: parts_set_def map_idI simp del: Validate.simps)
next
  case (FAny fs)
  then show ?case by (intro conjI Validate_nodeI) (auto simp: parts_set_def map_idI simp del: Validate.simps)
qed (intro conjI Validate_nodeI; auto simp: parts_set_def simp del: Validate.simps)+

lemma formula_of_expressible: "Validate f = Inr () \<Longrightarrow> expressible (formula_of f)"
proof (induction f rule: formula_of.induct)
  case (1 fand forr fnot pre suf con ex)
  note v = Validate_node [OF "1.prems"]
  then show ?case
    using "1.IH" by (auto simp: parts_set_def split: option.splits if_splits)
qed

section \<open>Properties\<close>

text \<open>
  C18. A filter that passes validation matches exactly the inputs for which the boolean formula it
  stands for is true, and that formula has no empty operator or literal.
\<close>

theorem valid_filter_is_formula:
  assumes "Validate f = Inr ()"
  shows "(Match f s \<longleftrightarrow> holds (formula_of f) s) \<and> expressible (formula_of f)"
  using Match_formula [OF assms] formula_of_expressible [OF assms] by simp

theorem valid_filter_is_formula_witness:
  "Match (Filter [Filter [] [] None [101] [] [] [], Filter [] [] None [] [] [100] []] [] None [] [] [] []) [101, 32, 100] \<longleftrightarrow>
   holds (formula_of (Filter [Filter [] [] None [101] [] [] [], Filter [] [] None [] [] [100] []] [] None [] [] [] [])) [101, 32, 100]"
  by (rule valid_filter_is_formula [THEN conjunct1]) (simp add: parts_set_def)

text \<open>
  Validation is complete: every formula without empty operators and literals is the formula of a
  filter that passes validation, so nothing expressible is refused.
\<close>

theorem every_formula_has_filter:
  assumes "expressible \<phi>"
  shows "Validate (filter_of \<phi>) = Inr () \<and> formula_of (filter_of \<phi>) = \<phi>"
  using assms by (rule filter_of_valid)

theorem every_formula_has_filter_witness:
  "Validate (filter_of (FNot (FAny [FPrefix [101], FExact [102]]))) = Inr () \<and>
   formula_of (filter_of (FNot (FAny [FPrefix [101], FExact [102]]))) = FNot (FAny [FPrefix [101], FExact [102]])"
  by (rule every_formula_has_filter) simp

end
