(* ===== verification/Atomics.thy ===== *)
theory Atomics
  imports Go_Prelude
begin

text \<open>
  \<^verbatim>\<open>internal/atomics\<close>: a subtraction that never goes below zero, under contention, and the poll
  that waits for a counter to stay at zero. What other threads do between two accesses, and the
  clock, are arguments.
\<close>

section \<open>Atomic counters\<close>

text \<open>
  \<^verbatim>\<open>atomics.Subtract\<close>: the list holds what other threads make of the counter between the load and the
  compare-and-swap of each attempt; the empty list is the undisturbed run.
\<close>

fun Subtract :: "64 word \<Rightarrow> 64 word \<Rightarrow> nat \<Rightarrow> 64 word list \<Rightarrow> 64 word \<times> bool" where
  "Subtract source v 0 others = (source, False)"
| "Subtract source v (Suc maxRetries) others =
     (let current = source in
      if current = 0 then (source, True)
      else
        let newValue = (if v \<ge> current then 0 else current - v) in
        case others of
          [] \<Rightarrow> (newValue, True)
        | x # xs \<Rightarrow> if x = current then (newValue, True) else Subtract x v maxRetries xs)"

section \<open>Waiting for zero\<close>

text \<open>
  \<^verbatim>\<open>atomics.WaitUntilZero\<close>: each round observes the counter and the clock (nanoseconds). The result
  holds the verdict, the last value and the pauses made; None means that the observations end
  before the loop does.
\<close>

definition maxBackoff :: int where "maxBackoff = 1000000000"

fun wait_loop :: "int \<Rightarrow> nat \<Rightarrow> int \<Rightarrow> (64 word \<times> int) list \<Rightarrow> ((bool \<times> 64 word) \<times> int list) option" where
  "wait_loop deadline zeroStreak backoff [] = None"
| "wait_loop deadline zeroStreak backoff ((lastValue, now) # obs) =
     (let zeroStreak = (if lastValue = 0 then zeroStreak + 1 else 0) in
      if lastValue = 0 \<and> zeroStreak \<ge> 3 then Some ((True, lastValue), [])
      else
        let remaining = deadline - now in
        if remaining \<le> 0 then Some ((False, lastValue), [])
        else
          let sleep = (if backoff > remaining then remaining else backoff);
              backoff = (if backoff < maxBackoff
                         then (if backoff * 2 > maxBackoff then maxBackoff else backoff * 2) else backoff) in
          map_option (\<lambda>(r, sleeps). (r, sleep # sleeps)) (wait_loop deadline zeroStreak backoff obs))"

definition WaitUntilZero :: "int \<Rightarrow> int \<Rightarrow> (64 word \<times> int) list \<Rightarrow> ((bool \<times> 64 word) \<times> int list) option" where
  "WaitUntilZero start timeout obs = wait_loop (start + timeout) 0 50000000 obs"

section \<open>Lemmas\<close>

lemma Subtract_undisturbed:
  "Subtract a b (Suc n) [] = (if b \<ge> a then 0 else a - b, True)"
  by (auto simp: Let_def)

lemma unat_Subtract:
  assumes "0 < n" shows "unat (fst (Subtract a b n [])) = unat a - unat b"
proof -
  obtain m where n: "n = Suc m" using assms by (cases n) auto
  have "unat (a - b) = unat a - unat b" if "\<not> b \<ge> a"
    using that by (simp add: unat_sub not_le)
  then show ?thesis by (auto simp: n Subtract_undisturbed word_le_nat_alt)
qed

text \<open>
  The contended subtraction takes effect once or not at all: if it reports success, the counter
  holds what one saturating subtraction makes of the value it last had.
\<close>

lemma Subtract_contended:
  "Subtract a b n others = (c, ok) \<Longrightarrow>
     (ok \<longrightarrow> (\<exists>x \<in> set (a # others). unat c = unat x - unat b)) \<and> (\<not> ok \<longrightarrow> c \<in> set (a # others))"
proof (induction a b n others rule: Subtract.induct)
  case (2 a v n others)
  have sat: "unat (if v \<ge> a then 0 else a - v) = unat a - unat v"
    using unat_Subtract [of "Suc n" a v] unfolding Subtract_undisturbed by simp
  show ?case
  proof (cases others)
    case Nil
    then show ?thesis using "2.prems" sat by (auto simp: Let_def split: if_splits)
  next
    case (Cons x xs)
    show ?thesis
    proof (cases "a = 0 \<or> x = a")
      case True
      then show ?thesis using "2.prems" sat Cons by (auto simp: Let_def split: if_splits)
    next
      case False
      then have "Subtract x v n xs = (c, ok)" using "2.prems" Cons by (simp add: Let_def)
      from "2.IH" [OF refl _ refl Cons _ this] False show ?thesis using Cons by auto
    qed
  qed
qed auto

text \<open>The rounds of the poll, with the observations made before as a reversed prefix.\<close>

lemma wait_loop_true:
  assumes "wait_loop deadline streak backoff obs = Some ((True, v), sleeps)"
    and "streak \<le> length seen" and "\<forall>j < streak. fst (seen ! j) = 0"
  shows "v = 0 \<and> length sleeps < length obs \<and>
    (\<forall>j < 3. j < length (rev (take (Suc (length sleeps)) obs) @ seen) \<and>
       fst ((rev (take (Suc (length sleeps)) obs) @ seen) ! j) = 0)"
  using assms
proof (induction deadline streak backoff obs arbitrary: sleeps seen rule: wait_loop.induct)
  case (2 deadline streak backoff u now obs)
  let ?streak = "if u = 0 then streak + 1 else 0"
  have seen: "?streak \<le> length ((u, now) # seen)" "\<forall>j < ?streak. fst (((u, now) # seen) ! j) = 0"
    using "2.prems"(2,3) by (auto simp: nth_Cons split: nat.split)
  show ?case
  proof (cases "u = 0 \<and> ?streak \<ge> 3")
    case True
    then show ?thesis using "2.prems"(1) seen by (auto simp: Let_def)
  next
    case False
    with "2.prems"(1) obtain b sl where rem: "\<not> deadline - now \<le> 0" and sl: "sleeps = b # sl"
      and rec: "wait_loop deadline ?streak (if backoff < maxBackoff
                         then (if backoff * 2 > maxBackoff then maxBackoff else backoff * 2) else backoff) obs = Some ((True, v), sl)"
      by (auto simp: Let_def split: if_splits)
    from "2.IH" [OF refl _ refl _ refl refl rec seen] False rem show ?thesis
      by (auto simp: sl min_def split: if_splits)
  qed
qed simp

lemma wait_loop_false:
  "wait_loop deadline streak backoff obs = Some ((False, v), sleeps) \<Longrightarrow>
     length sleeps < length obs \<and> deadline \<le> snd (obs ! length sleeps)"
  by (induction deadline streak backoff obs arbitrary: sleeps rule: wait_loop.induct)
    (auto simp: Let_def split: if_splits)

lemma wait_loop_none: "wait_loop deadline streak backoff obs = None \<Longrightarrow> o' \<in> set obs \<Longrightarrow> snd o' < deadline"
  by (induction deadline streak backoff obs rule: wait_loop.induct) (auto simp: Let_def split: if_splits)

section \<open>Properties\<close>

text \<open>
  The poll of a counter: it reports zero only after its last three observations were all zero; it
  gives up only at or after the deadline; and it returns at the latest with the first observation
  made at or after the deadline.
\<close>

theorem wait_until_zero_sound:
  "(\<forall>v sleeps. WaitUntilZero start timeout obs = Some ((True, v), sleeps) \<longrightarrow>
      v = 0 \<and> 2 \<le> length sleeps \<and> length sleeps < length obs \<and>
      (\<forall>j \<le> 2. fst (obs ! (length sleeps - j)) = 0)) \<and>
   (\<forall>v sleeps. WaitUntilZero start timeout obs = Some ((False, v), sleeps) \<longrightarrow>
      length sleeps < length obs \<and> start + timeout \<le> snd (obs ! length sleeps)) \<and>
   (WaitUntilZero start timeout obs = None \<longrightarrow> (\<forall>o' \<in> set obs. snd o' < start + timeout))"
proof -
  have "v = 0 \<and> 2 \<le> length sleeps \<and> length sleeps < length obs \<and> (\<forall>j \<le> 2. fst (obs ! (length sleeps - j)) = 0)"
    if "WaitUntilZero start timeout obs = Some ((True, v), sleeps)" for v sleeps
  proof -
    from wait_loop_true [OF that [unfolded WaitUntilZero_def], of "[]"]
    have v: "v = 0" and l: "length sleeps < length obs"
      and z: "\<And>j. j < 3 \<Longrightarrow> j < Suc (length sleeps) \<and> fst (rev (take (Suc (length sleeps)) obs) ! j) = 0"
      by (auto simp: min_def split: if_splits)
    have "fst (obs ! (length sleeps - j)) = 0" if "j \<le> 2" for j
    proof -
      have "length (take (Suc (length sleeps)) obs) = Suc (length sleeps)" using l by simp
      then have "rev (take (Suc (length sleeps)) obs) ! j = obs ! (length sleeps - j)"
        using z [of j] that by (subst rev_nth) auto
      with z [of j] that show ?thesis by simp
    qed
    with v l z [of 2] show ?thesis by simp
  qed
  moreover note wait_loop_false [of "start + timeout" 0 50000000 obs] wait_loop_none [of "start + timeout" 0 50000000 obs]
  ultimately show ?thesis by (auto simp: WaitUntilZero_def)
qed

theorem wait_until_zero_sound_witness:
  "WaitUntilZero 0 1000000000 [(1, 5), (0, 50000010), (0, 150000010), (0, 350000010)] =
     Some ((True, 0), [50000000, 100000000, 200000000]) \<and>
   list_all (\<lambda>i. fst ([(1 :: 64 word, 5 :: int), (0, 50000010), (0, 150000010), (0, 350000010)] ! i) = 0) [1, 2, 3]"
proof -
  let ?obs = "[(1 :: 64 word, 5 :: int), (0, 50000010), (0, 150000010), (0, 350000010)]"
  have r: "WaitUntilZero 0 1000000000 ?obs = Some ((True, 0), [50000000, 100000000, 200000000])" by code_simp
  with wait_until_zero_sound [of 0 1000000000 ?obs] have z: "fst (?obs ! (3 - j)) = 0" if "j \<le> 2" for j
    using that by (auto simp: numeral_eq_Suc)
  show ?thesis using r z [of 0] z [of 1] z [of 2] by simp
qed

end
