(* ===== verification/Go_Numeric.thy ===== *)
theory Go_Numeric
  imports Go_Prelude Complex_Main "HOL-Library.Log_Nat"
begin

text \<open>
  The numbers and times of the Go language that the metrics and the scaling decisions compute with:
  \<^verbatim>\<open>float64\<close> as IEEE 754 double precision values over exact rationals, every operation rounded once
  to the nearest value (ties to even), and \<^verbatim>\<open>time.Time\<close> as nanoseconds since the Unix epoch.
  Integers up to 2 to the 53 are exact, which is what the sums of counters rely on. The decimal text
  of a number (\<^verbatim>\<open>strconv\<close>) is unambiguous.
\<close>

section \<open>Time\<close>

text \<open>The zero time is the first of January of the year 1; \<^verbatim>\<open>Truncate\<close> rounds down from there.\<close>

definition Time_zero :: int where "Time_zero = - 62135596800 * 1000000000"

definition UnixNano :: "int \<Rightarrow> int" where "UnixNano t = signed_take_bit 63 t"

definition Time_Sub :: "int \<Rightarrow> int \<Rightarrow> int" where
  "Time_Sub t u = max (- (2 ^ 63)) (min (2 ^ 63 - 1) (t - u))"

definition Time_Truncate :: "int \<Rightarrow> int \<Rightarrow> int" where
  "Time_Truncate t d = (if d \<le> 0 then t else t - (t - Time_zero) mod d)"

lemma Time_Truncate_idem [simp]: "Time_Truncate (Time_Truncate t d) d = Time_Truncate t d"
proof (cases "d \<le> 0")
  case False
  have "(t - (t - Time_zero) mod d - Time_zero) mod d = ((t - Time_zero) - (t - Time_zero) mod d) mod d"
    by (simp add: algebra_simps)
  also have "\<dots> = 0"
    by (simp add: minus_mod_eq_mult_div)
  finally show ?thesis
    using False by (simp add: Time_Truncate_def)
qed (simp add: Time_Truncate_def)

lemma Time_Truncate_bounds:
  assumes "0 < d"
  shows "Time_Truncate t d \<le> t" and "t < Time_Truncate t d + d"
  using assms pos_mod_bound [of d "t - Time_zero"] pos_mod_sign [of d "t - Time_zero"]
  by (simp_all add: Time_Truncate_def)

section \<open>Double precision floating point\<close>

text \<open>
  The payload of a NaN is not observed by the program. Signs are True for negative; a finite value
  is its exact rational.
\<close>

datatype float64 = FNaN | FInf bool | FZero bool | Fin rat

definition pow2 :: "int \<Rightarrow> rat" where
  "pow2 e = (if 0 \<le> e then 2 ^ nat e else 1 / 2 ^ nat (- e))"

text \<open>The fexponent of a positive rational: the integer part of its binary logarithm.\<close>

definition fexponent :: "rat \<Rightarrow> int" where
  "fexponent x = (case quotient_of x of (p, q) \<Rightarrow>
     let e = bitlen p - bitlen q in if pow2 e \<le> x then e else e - 1)"

definition round_even :: "rat \<Rightarrow> int" where
  "round_even x = (let f = \<lfloor>x\<rfloor>; d = x - of_int f in
     if d < 1 / 2 then f else if 1 / 2 < d then f + 1 else if even f then f else f + 1)"

definition fmagnitude :: "bool \<Rightarrow> rat \<Rightarrow> float64" where
  "fmagnitude s x =
     (let q = pow2 (max (fexponent x) (- 1022) - 52); n = round_even (x / q); r = of_int n * q in
      if 2 ^ 1024 \<le> r then FInf s else if n = 0 then FZero s else Fin (if s then - r else r))"

definition fround :: "bool \<Rightarrow> rat \<Rightarrow> float64" where
  "fround s x = (if x = 0 then FZero s else if 0 < x then fmagnitude False x else fmagnitude True (- x))"

fun fval :: "float64 \<Rightarrow> rat" where
  "fval (Fin r) = r"
| "fval _ = 0"

fun fneg :: "float64 \<Rightarrow> float64" where
  "fneg FNaN = FNaN"
| "fneg (FInf s) = FInf (\<not> s)"
| "fneg (FZero s) = FZero (\<not> s)"
| "fneg (Fin r) = Fin (- r)"

fun fsign :: "float64 \<Rightarrow> bool" where
  "fsign FNaN = False"
| "fsign (FInf s) = s"
| "fsign (FZero s) = s"
| "fsign (Fin r) = (r < 0)"

fun is_zero :: "float64 \<Rightarrow> bool" where
  "is_zero (FZero s) = True"
| "is_zero _ = False"

fun fadd :: "float64 \<Rightarrow> float64 \<Rightarrow> float64" where
  "fadd FNaN y = FNaN"
| "fadd x FNaN = FNaN"
| "fadd (FInf s) (FInf t) = (if s = t then FInf s else FNaN)"
| "fadd (FInf s) y = FInf s"
| "fadd x (FInf t) = FInf t"
| "fadd (FZero s) (FZero t) = FZero (s \<and> t)"
| "fadd x y = fround False (fval x + fval y)"

definition fsub :: "float64 \<Rightarrow> float64 \<Rightarrow> float64" where
  "fsub x y = fadd x (fneg y)"

definition fmul :: "float64 \<Rightarrow> float64 \<Rightarrow> float64" where
  "fmul x y =
     (let s = (fsign x \<noteq> fsign y) in
      case (x, y) of
        (FNaN, _) \<Rightarrow> FNaN
      | (_, FNaN) \<Rightarrow> FNaN
      | (FInf _, _) \<Rightarrow> if is_zero y then FNaN else FInf s
      | (_, FInf _) \<Rightarrow> if is_zero x then FNaN else FInf s
      | _ \<Rightarrow> fround s (fval x * fval y))"

definition fdiv :: "float64 \<Rightarrow> float64 \<Rightarrow> float64" where
  "fdiv x y =
     (let s = (fsign x \<noteq> fsign y) in
      case (x, y) of
        (FNaN, _) \<Rightarrow> FNaN
      | (_, FNaN) \<Rightarrow> FNaN
      | (FInf _, FInf _) \<Rightarrow> FNaN
      | (FInf _, _) \<Rightarrow> FInf s
      | (_, FInf _) \<Rightarrow> FZero s
      | _ \<Rightarrow> if is_zero y then (if is_zero x then FNaN else FInf s) else fround s (fval x / fval y))"

fun fless :: "float64 \<Rightarrow> float64 \<Rightarrow> bool" where
  "fless FNaN y = False"
| "fless x FNaN = False"
| "fless (FInf s) (FInf t) = (s \<and> \<not> t)"
| "fless (FInf s) y = s"
| "fless x (FInf t) = (\<not> t)"
| "fless x y = (fval x < fval y)"

definition float_of_int :: "int \<Rightarrow> float64" where
  "float_of_int n = fround False (of_int n)"

text \<open>Conversion of a finite value to an integer drops the fraction.\<close>

definition int_of_float :: "float64 \<Rightarrow> int" where
  "int_of_float x = (if 0 \<le> fval x then \<lfloor>fval x\<rfloor> else - \<lfloor>- fval x\<rfloor>)"

subsection \<open>Integers are exact\<close>

lemma pow2_pos [simp]: "0 < pow2 e"
  by (simp add: pow2_def)

lemma pow2_of_nat: "pow2 (int n) = 2 ^ n"
  by (simp add: pow2_def)

lemma round_even_of_int [simp]: "round_even (of_int n) = n"
  by (simp add: round_even_def)

lemma fexponent_of_int:
  assumes "0 < n"
  shows "fexponent (of_int n) = bitlen n - 1"
proof -
  have "(2 :: rat) ^ nat (bitlen n - 1) = of_int (2 ^ nat (bitlen n - 1))"
    by simp
  also have "\<dots> \<le> of_int n"
    using assms bitlen_bounds [of n] by (simp only: of_int_le_iff)
  finally have "pow2 (bitlen n - 1) \<le> of_int n"
    using assms bitlen_eq_zero_iff [of n] bitlen_nonneg [of n] by (simp add: pow2_def)
  moreover have "bitlen 1 = 1"
    by (simp add: bitlen_alt_def)
  ultimately show ?thesis
    by (simp add: fexponent_def Let_def)
qed

lemma of_int_on_grid:
  assumes "0 < n" and "n \<le> 2 ^ 53"
  obtains k where "of_int n / pow2 (bitlen n - 53) = of_int k" and "k \<noteq> 0"
proof (cases "bitlen n \<le> 53")
  case True
  have "of_int n / pow2 (bitlen n - 53) = of_int (n * 2 ^ nat (53 - bitlen n))"
    using True by (simp add: pow2_def)
  then show ?thesis
    by (rule that) (use assms in simp)
next
  case False
  then have "2 ^ nat 53 \<le> n"
    using assms bitlen_ge_iff_power [of 54 n] by simp
  with assms have n: "n = 2 ^ 53" by simp
  then have "bitlen n = 54"
    using bitlen_pow2 [of 1 53] by (simp add: bitlen_alt_def)
  with n have "of_int n / pow2 (bitlen n - 53) = of_int (2 ^ 52)"
    by (simp add: pow2_def)
  then show ?thesis
    by (rule that) simp
qed

lemma fmagnitude_of_int:
  assumes "0 < n" and "n \<le> 2 ^ 53"
  shows "fmagnitude s (of_int n) = Fin (if s then - of_int n else of_int n)"
proof -
  from assms have one: "1 \<le> bitlen n"
    using bitlen_eq_zero_iff [of n] bitlen_nonneg [of n] by simp
  let ?q = "pow2 (max (fexponent (of_int n)) (- 1022) - 52)"
  have q: "?q = pow2 (bitlen n - 53)"
    using one assms by (simp add: fexponent_of_int max_def)
  from assms obtain k where k: "of_int n / ?q = of_int k" "k \<noteq> 0"
    using of_int_on_grid [of n] q by metis
  have r: "of_int k * ?q = of_int n"
    using k(1) pow2_pos [of "max (fexponent (of_int n)) (- 1022) - 52"] by (simp add: field_simps)
  have "(of_int n :: rat) \<le> of_int (2 ^ 53)"
    using assms by (simp only: of_int_le_iff)
  also have "\<dots> < 2 ^ 1024"
    by simp
  finally show ?thesis
    using k r by (simp add: fmagnitude_def Let_def)
qed

definition exact :: "int \<Rightarrow> bool" where
  "exact n = (\<bar>n\<bar> \<le> 2 ^ 53)"

definition fint :: "bool \<Rightarrow> int \<Rightarrow> float64" where
  "fint s n = (if n = 0 then FZero s else Fin (of_int n))"

lemma fround_of_int:
  assumes "exact n"
  shows "fround s (of_int n) = fint s n"
  using assms fmagnitude_of_int [of n False] fmagnitude_of_int [of "- n" True]
  by (auto simp: fround_def fint_def exact_def)

lemma float_of_int_exact: "exact n \<Longrightarrow> float_of_int n = fint False n"
  by (simp add: float_of_int_def fround_of_int)

lemma fval_fint [simp]: "fval (fint s n) = of_int n"
  by (simp add: fint_def)

lemma fadd_fint:
  assumes "exact (m + n)"
  shows "fadd (fint False m) (fint False n) = fint False (m + n)"
  using fround_of_int [OF assms, of False] by (auto simp: fint_def)

lemma fless_fint [simp]: "fless (fint s m) (fint t n) \<longleftrightarrow> m < n"
  by (auto simp: fint_def)

section \<open>Decimal text\<close>

text \<open>\<^verbatim>\<open>strconv.FormatInt(n, 10)\<close>.\<close>

definition digit :: "nat \<Rightarrow> byte" where "digit d = of_nat (48 + d)"

fun decimal :: "nat \<Rightarrow> bytes" where
  "decimal n = (if n < 10 then [digit n] else decimal (n div 10) @ [digit (n mod 10)])"

declare decimal.simps [simp del]

definition FormatInt :: "int \<Rightarrow> bytes" where
  "FormatInt n = (if n < 0 then 45 # decimal (nat (- n)) else decimal (nat n))"

lemma unat_digit: "d < 10 \<Longrightarrow> unat (digit d) = 48 + d"
  unfolding digit_def by (subst unat_of_nat) simp

lemma decimal_digits: "b \<in> set (decimal n) \<Longrightarrow> 48 \<le> unat b \<and> unat b \<le> 57"
proof (induction n rule: decimal.induct)
  case (1 n)
  have u: "48 \<le> unat (digit (n mod 10)) \<and> unat (digit (n mod 10)) \<le> 57"
    using unat_digit [of "n mod 10"] mod_less_divisor [of 10 n] by linarith
  show ?case
  proof (cases "n < 10")
    case True
    then show ?thesis using "1.prems" u by (simp add: decimal.simps)
  next
    case False
    then show ?thesis using "1.prems" u "1.IH" by (subst (asm) decimal.simps) auto
  qed
qed

definition undecimal :: "bytes \<Rightarrow> nat" where
  "undecimal bs = foldl (\<lambda>a b. a * 10 + (unat b - 48)) 0 bs"

lemma undecimal_decimal: "undecimal (decimal n) = n"
proof (induction n rule: decimal.induct)
  case (1 n)
  show ?case
  proof (cases "n < 10")
    case True
    then show ?thesis by (simp add: decimal.simps undecimal_def unat_digit)
  next
    case False
    then have "undecimal (decimal n) = undecimal (decimal (n div 10)) * 10 + n mod 10"
      by (subst decimal.simps) (simp add: undecimal_def unat_digit)
    with "1.IH" False show ?thesis by simp
  qed
qed

lemma decimal_inj: "decimal m = decimal n \<Longrightarrow> m = n"
  by (metis undecimal_decimal)

lemma decimal_no_dash: "45 \<notin> set (decimal n)"
proof
  assume "45 \<in> set (decimal n)"
  from decimal_digits [OF this] show False by simp
qed

end
