(* ===== verification/Metric_Types.thy ===== *)
theory Metric_Types
  imports Go_Numeric
begin

text \<open>
  The data of \<^verbatim>\<open>internal/metrics\<close> (\<^verbatim>\<open>types.go\<close>, \<^verbatim>\<open>consts.go\<close>): a metric with its namespace and value, and
  the names of the aggregations. The dynamic type of a raw value is a constructor.
\<close>

datatype metric_raw =
    RawFloat64 float64
  | RawFloat32 float64
  | RawInt int
  | RawInt64 int
  | RawInt32 int
  | RawUint "64 word"
  | RawUint64 "64 word"
  | RawUint32 "32 word"
  | RawString bytes
  | RawNil
  | RawOther bytes

type_synonym MetricType = bytes

definition Counter :: MetricType where "Counter = bytes_of_string ''counter''"
definition Gauge :: MetricType where "Gauge = bytes_of_string ''gauge''"
definition Summary :: MetricType where "Summary = bytes_of_string ''summary''"

record MetricValue =
  mv_Raw :: metric_raw
  mv_Unit :: bytes
  mv_Interval :: int

record Metric =
  mt_Name :: bytes
  mt_Description :: bytes
  mt_Namespace :: "bytes list"
  mt_Value :: MetricValue
  mt_Type :: MetricType
  mt_Timestamp :: int

definition MetricSum :: bytes where "MetricSum = bytes_of_string ''sum''"
definition MetricAvg :: bytes where "MetricAvg = bytes_of_string ''average''"
definition MetricMin :: bytes where "MetricMin = bytes_of_string ''min''"
definition MetricMax :: bytes where "MetricMax = bytes_of_string ''max''"

definition MTDropped :: string where "MTDropped = ''dropped_count''"
definition DescDropped :: string where
  "DescDropped = ''Count of internally dropped packets/payloads/messages (that are otherwise valid)''"

text \<open>The composite literal every collector builds: one metric of a namespace, read at one time.\<close>

definition mk_metric ::
  "bytes list \<Rightarrow> int \<Rightarrow> int \<Rightarrow> string \<Rightarrow> string \<Rightarrow> metric_raw \<Rightarrow> string \<Rightarrow> MetricType \<Rightarrow> Metric" where
  "mk_metric namespace interval recordTime name description raw unit t =
     \<lparr>mt_Name = bytes_of_string name, mt_Description = bytes_of_string description, mt_Namespace = namespace,
      mt_Value = \<lparr>mv_Raw = raw, mv_Unit = bytes_of_string unit, mv_Interval = interval\<rparr>,
      mt_Type = t, mt_Timestamp = recordTime\<rparr>"

lemma mk_metric_namespace [simp]: "mt_Namespace (mk_metric ns i t n d r u ty) = ns"
  by (simp add: mk_metric_def)

lemma mk_metric_name [simp]: "mt_Name (mk_metric ns i t n d r u ty) = bytes_of_string n"
  by (simp add: mk_metric_def)

end
