(* ===== verification/MPMC_Queue.thy ===== *)
theory MPMC_Queue
  imports Atomics Metric_Types
begin

unbundle bit_operations_syntax

text \<open>
  \<^verbatim>\<open>internal/queue/mpmc\<close>: the ring buffer queue with its container of a write
  and a read instance, as each operation runs when no other thread interferes. An operation that
  would spin forever without another thread is the value None. The specification is a bounded FIFO
  (a locale), which the ring implements; interleaved executions are the subject of
  \<open>MPMC_Concurrent\<close>.
\<close>

section \<open>Types\<close>

record 'a cell =
  seq :: "64 word"
  csize :: "64 word"
  data :: 'a

record MetricStorage =
  Capacity :: "64 word"
  Depth :: "64 word"
  Bytes :: "64 word"
  PushAttempts :: "64 word"
  PushSuccess :: "64 word"
  PushCASRetries :: "64 word"
  PushSeqBehindTail :: "64 word"
  PushStaleRetries :: "64 word"
  PopAttempts :: "64 word"
  PopSuccess :: "64 word"
  PopCASRetries :: "64 word"
  PopEmptySeqBehind :: "64 word"
  PopStaleRetries :: "64 word"

definition MetricStorage_zero :: MetricStorage where
  "MetricStorage_zero = \<lparr> Capacity = 0, Depth = 0, Bytes = 0, PushAttempts = 0, PushSuccess = 0,
     PushCASRetries = 0, PushSeqBehindTail = 0, PushStaleRetries = 0, PopAttempts = 0, PopSuccess = 0,
     PopCASRetries = 0, PopEmptySeqBehind = 0, PopStaleRetries = 0 \<rparr>"

text \<open>The channel \<^verbatim>\<open>notEmpty\<close> has a buffer of one: it is set or not.\<close>

record 'a QueueInst =
  Namespace :: "bytes list"
  Size :: int
  qmask :: "64 word"
  buf :: "'a cell list"
  head :: "64 word"
  tail :: "64 word"
  notEmpty :: bool
  draining :: bool
  Metrics :: MetricStorage

text \<open>The container: its instances as allocated, the two pointers and the migration channel.\<close>

record 'a Queue =
  insts :: "'a QueueInst list"
  ActiveWrite :: nat
  ActiveRead :: nat
  migrateCh :: bool
  minimumSize :: int
  maximumSize :: int

datatype queue_error = NotPowerOfTwo | CapacityTooSmall | QueueFull int

section \<open>Construction\<close>

definition newQueueInst :: "'a \<Rightarrow> bytes list \<Rightarrow> 64 word \<Rightarrow> queue_error + 'a QueueInst" where
  "newQueueInst zero namespace capacity =
     (if (capacity AND (capacity - 1)) \<noteq> 0 then Inl NotPowerOfTwo
      else if capacity < 2 then Inl CapacityTooSmall
      else Inr \<lparr> Namespace = namespace @ [NSQueue], Size = sint capacity, qmask = capacity - 1,
             buf = map (\<lambda>i. \<lparr>seq = of_nat i, csize = 0, data = zero\<rparr>) [0..<unat capacity],
             head = 0, tail = 0, notEmpty = False, draining = False,
             Metrics = MetricStorage_zero\<lparr>Capacity := capacity\<rparr> \<rparr>)"

definition New :: "'a \<Rightarrow> bytes list \<Rightarrow> 64 word \<Rightarrow> int \<Rightarrow> int \<Rightarrow> queue_error + 'a Queue" where
  "New zero namespace initialCapacity minCapacity maxCapacity =
     rbind (newQueueInst zero namespace initialCapacity) (\<lambda>qInst.
     Inr \<lparr> insts = [qInst], ActiveWrite = 0, ActiveRead = 0, migrateCh = False,
           minimumSize = minCapacity, maximumSize = maxCapacity \<rparr>)"

definition mutateSize :: "'a \<Rightarrow> 'a Queue \<Rightarrow> 64 word \<Rightarrow> 'a Queue \<times> (queue_error + unit)" where
  "mutateSize zero container newCapacity =
     (if ActiveRead container \<noteq> ActiveWrite container then (container, Inr ())
      else (case newQueueInst zero (Namespace (insts container ! ActiveWrite container)) newCapacity of
              Inl e \<Rightarrow> (container, Inl e)
            | Inr qInst \<Rightarrow>
                let old = insts container ! ActiveWrite container;
                    is = (insts container)[ActiveWrite container := old\<lparr>draining := True\<rparr>] @ [qInst] in
                (container\<lparr>migrateCh := False, insts := is, ActiveWrite := length (insts container)\<rparr>, Inr ())))"

definition ResyncDepthMetric :: "'a QueueInst \<Rightarrow> 'a QueueInst" where
  "ResyncDepthMetric queue = queue\<lparr>Metrics := (Metrics queue)\<lparr>Depth := tail queue - head queue\<rparr>\<rparr>"

section \<open>Push\<close>

text \<open>One pass over the write loop of an instance; a stale view would spin.\<close>

definition inst_push :: "'a QueueInst \<Rightarrow> 'a \<Rightarrow> 64 word \<Rightarrow> ('a QueueInst \<times> (queue_error + unit)) option" where
  "inst_push queue val sz =
     (let queue = queue\<lparr>Metrics := (Metrics queue)\<lparr>PushAttempts := PushAttempts (Metrics queue) + 1\<rparr>\<rparr>;
          pos = tail queue;
          i = unat (pos AND qmask queue);
          s = seq (buf queue ! i) in
      if s = pos then
        let c = (buf queue ! i)\<lparr>data := val, seq := pos + 1, csize := sz\<rparr>;
            m = Metrics queue in
        Some (queue\<lparr> tail := pos + 1, buf := (buf queue)[i := c],
                Metrics := m\<lparr>PushSuccess := PushSuccess m + 1, Depth := Depth m + 1, Bytes := Bytes m + sz\<rparr>,
                notEmpty := True \<rparr>, Inr ())
      else if s < pos then
        Some (queue\<lparr>Metrics := (Metrics queue)\<lparr>PushSeqBehindTail := PushSeqBehindTail (Metrics queue) + 1\<rparr>\<rparr>,
              Inl (QueueFull (Size queue)))
      else None)"

definition Push :: "'a Queue \<Rightarrow> 'a \<Rightarrow> 64 word \<Rightarrow> ('a Queue \<times> (queue_error + unit)) option" where
  "Push container val sz =
     (let w = ActiveWrite container; queue = insts container ! w in
      if draining queue then None
      else (case inst_push queue val sz of
              None \<Rightarrow> None
            | Some (queue', r) \<Rightarrow> Some (container\<lparr>insts := (insts container)[w := queue']\<rparr>, r)))"

text \<open>The retries of \<^verbatim>\<open>PushWithRetry\<close>; its pauses are where other threads run.\<close>

fun push_retry :: "nat \<Rightarrow> 'a Queue \<Rightarrow> 'a \<Rightarrow> 64 word \<Rightarrow> (queue_error + unit) \<Rightarrow> ('a Queue \<times> (queue_error + unit)) option" where
  "push_retry 0 container val sz err = Some (container, err)"
| "push_retry (Suc n) container val sz err =
     (case Push container val sz of
        None \<Rightarrow> None
      | Some (container', Inr u) \<Rightarrow> Some (container', Inr u)
      | Some (container', Inl e) \<Rightarrow> push_retry n container' val sz (Inl e))"

definition PushWithRetry :: "'a Queue \<Rightarrow> 'a \<Rightarrow> 64 word \<Rightarrow> int \<Rightarrow> ('a Queue \<times> (queue_error + unit)) option" where
  "PushWithRetry container val sz maxRetries =
     push_retry (nat (if maxRetries = 0 then 1 else maxRetries)) container val sz (Inr ())"

text \<open>\<^verbatim>\<open>PushBlocking\<close>: the list says at which iterations the context is done.\<close>

fun PushBlocking :: "bool list \<Rightarrow> 'a Queue \<Rightarrow> 'a \<Rightarrow> 64 word \<Rightarrow> 'a Queue option" where
  "PushBlocking [] container val sz = None"
| "PushBlocking (ctxDone # ds) container val sz =
     (if ctxDone then Some container
      else (case Push container val sz of
              None \<Rightarrow> None
            | Some (container', Inr _) \<Rightarrow> Some container'
            | Some (container', Inl _) \<Rightarrow> PushBlocking ds container' val sz))"

section \<open>Pop\<close>

datatype 'a inst_pop_result = Popped 'a | Empty

definition inst_pop :: "'a QueueInst \<Rightarrow> ('a QueueInst \<times> 'a inst_pop_result) option" where
  "inst_pop queue =
     (let pos = head queue;
          i = unat (pos AND qmask queue);
          c = buf queue ! i;
          readySeq = pos + 1 in
      if seq c = readySeq then
        let m = Metrics queue;
            c' = c\<lparr>seq := pos + qmask queue + 1, csize := 0\<rparr>;
            m = m\<lparr>PopAttempts := PopAttempts m + 1, PopSuccess := PopSuccess m + 1,
                 Depth := fst (Subtract (Depth m) 1 4 []),
                 Bytes := fst (Subtract (Bytes m) (csize c) 4 [])\<rparr> in
        Some (queue\<lparr>head := pos + 1, buf := (buf queue)[i := c'], Metrics := m\<rparr>, Popped (data c))
      else if seq c < readySeq then
        Some (queue\<lparr>Metrics := (Metrics queue)\<lparr>PopEmptySeqBehind := PopEmptySeqBehind (Metrics queue) + 1\<rparr>\<rparr>, Empty)
      else None)"

text \<open>
  The select of an empty queue takes one of the ready cases; \<open>sel\<close> lists the choices of the
  scheduler, one per wait, and the list ending means the consumer stays blocked.
\<close>

datatype wake = CtxDone | NotEmptySignal | MigrateSignal

datatype 'a pop_result = PopOut 'a | PopCancelled | PopBlocked

definition wake_ready :: "bool \<Rightarrow> 'a Queue \<Rightarrow> wake \<Rightarrow> bool" where
  "wake_ready ctxDone container w =
     (case w of CtxDone \<Rightarrow> ctxDone
      | NotEmptySignal \<Rightarrow> notEmpty (insts container ! ActiveRead container)
      | MigrateSignal \<Rightarrow> migrateCh container)"

fun Pop :: "bool \<Rightarrow> wake list \<Rightarrow> 'a Queue \<Rightarrow> ('a Queue \<times> 'a pop_result) option" where
  "Pop ctxDone sel container =
     (let r = ActiveRead container in
      case inst_pop (insts container ! r) of
        None \<Rightarrow> None
      | Some (queue, Popped out) \<Rightarrow>
          let container = container\<lparr>insts := (insts container)[r := queue]\<rparr>;
              container = (if draining queue \<and> head queue = tail queue
                           then container\<lparr>migrateCh := True\<rparr> else container) in
          Some (container, PopOut out)
      | Some (queue, Empty) \<Rightarrow>
          let container = container\<lparr>insts := (insts container)[r := queue]\<rparr> in
          (case sel of
             [] \<Rightarrow> Some (container, PopBlocked)
           | w # sel \<Rightarrow>
               if \<not> wake_ready ctxDone container w then Some (container, PopBlocked)
               else (case w of
                       CtxDone \<Rightarrow> Some (container, PopCancelled)
                     | NotEmptySignal \<Rightarrow>
                         Pop ctxDone sel (container\<lparr>insts := (insts container)[r := queue\<lparr>notEmpty := False\<rparr>]\<rparr>)
                     | MigrateSignal \<Rightarrow>
                         Pop ctxDone sel (container\<lparr>migrateCh := False, ActiveRead := ActiveWrite container\<rparr>))))"

declare Pop.simps [simp del]

section \<open>Metrics\<close>

definition reset_counters :: "MetricStorage \<Rightarrow> MetricStorage" where
  "reset_counters m = m\<lparr> PushAttempts := 0, PushSuccess := 0, PushCASRetries := 0, PushSeqBehindTail := 0,
     PushStaleRetries := 0, PopAttempts := 0, PopSuccess := 0, PopCASRetries := 0, PopEmptySeqBehind := 0,
     PopStaleRetries := 0 \<rparr>"

text \<open>
  Depth and bytes are read, the counters of both instances are swapped with zero. The interval and
  the time of the reading are arguments.
\<close>

definition CollectMetrics :: "int \<Rightarrow> int \<Rightarrow> 'a Queue \<Rightarrow> 'a Queue \<times> Metric list" where
  "CollectMetrics interval recordTime container =
     (let w = ActiveWrite container; r = ActiveRead container;
          idx = (if r \<noteq> w then [w, r] else [w]);
          ms = map (\<lambda>i. Metrics (insts container ! i)) idx;
          agg = (\<lambda>f. sum_list (map f ms));
          ns = Namespace (insts container ! w);
          add = (\<lambda>name raw unit t description. mk_metric ns interval recordTime name description (RawUint64 raw) unit t);
          zeroed = foldl (\<lambda>is i. is[i := (is ! i)\<lparr>Metrics := reset_counters (Metrics (is ! i))\<rparr>]) (insts container) idx in
      (container\<lparr>insts := zeroed\<rparr>,
       [add ''capacity'' (Capacity (Metrics (insts container ! w))) ''capacity'' Summary
          ''Current active queue max capacity (total allocated entries) at time of metric collection'',
        add ''depth'' (agg Depth) ''count'' Gauge
          ''Current number of items in the queue'',
        add ''total_bytes'' (agg Bytes) ''bytes'' Gauge
          ''Byte sum of all items in the queue'',
        add ''push_attempts'' (agg PushAttempts) ''count'' Counter
          ''Total push attempts in the interval'',
        add ''push_success'' (agg PushSuccess) ''count'' Counter
          ''Total push attempts that succeeded in the interval'',
        add ''push_cas_retries'' (agg PushCASRetries) ''count'' Counter
          ''Sum of retries to push in the interval'',
        add ''push_seq_behind_tail'' (agg PushSeqBehindTail) ''count'' Counter
          ''Push observed a sequence value behind the expected tail position, indicating the slot is not yet available for writing (writer ahead)'',
        add ''push_stale_retries'' (agg PushStaleRetries) ''count'' Counter
          ''Push observed sequence ahead of local position (seq > pos), indicating another writer advanced the tail; retry due to stale local view of ring state.'',
        add ''pop_attempts'' (agg PopAttempts) ''count'' Counter
          ''Total pop attempts in the interval'',
        add ''pop_success'' (agg PopSuccess) ''count'' Counter
          ''Total pop attempts that succeeded in the interval'',
        add ''pop_cas_retries'' (agg PopCASRetries) ''count'' Counter
          ''Sum of retries to pop in the interval'',
        add ''pop_empty_seq_behind'' (agg PopEmptySeqBehind) ''count'' Counter
          ''Pop observed sequence behind expected read position (seq < readySeq), indicating the slot is not yet visible/ready for consumption (read-before-write or visibility lag).'',
        add ''pop_stale_retries'' (agg PopStaleRetries) ''count'' Counter
          ''Pop observed sequence ahead of expected head position (seq > readySeq), indicating another consumer advanced the head; retry due to stale local view of ring state.'']))"

section \<open>Scaling\<close>

text \<open>
  Go's \<^verbatim>\<open>int\<close> has 64 bits: shifts are arithmetic and the final increment wraps.
\<close>

definition int64 :: "int \<Rightarrow> int" where
  "int64 x = signed_take_bit 63 x"

definition nextPowerOfTwo :: "int \<Rightarrow> int" where
  "nextPowerOfTwo start =
     (if start \<le> 1 then 1
      else
        let s = start - 1;
            s = s OR drop_bit 1 s;
            s = s OR drop_bit 2 s;
            s = s OR drop_bit 4 s;
            s = s OR drop_bit 8 s;
            s = s OR drop_bit 16 s;
            s = s OR drop_bit 32 s in
        int64 (s + 1))"

definition prevPowerOfTwo :: "int \<Rightarrow> int" where
  "prevPowerOfTwo start = (if start = 0 then 0 else drop_bit 1 (nextPowerOfTwo start))"

text \<open>
  The capacity of a queue is a power of two, for which the percentages in floating point are exact;
  they are compared here as integers. Free memory is what the library call reports.
\<close>

definition ScaleCapacity :: "'a \<Rightarrow> 64 word \<Rightarrow> 'a Queue \<Rightarrow> 'a Queue" where
  "ScaleCapacity zero availMem container =
     (let activeQueue = insts container ! ActiveWrite container;
          currentCapacity = Size activeQueue;
          currentDepth = Depth (Metrics activeQueue) in
      if currentCapacity \<le> minimumSize container then container
      else if currentCapacity \<ge> maximumSize container then container
      else
        let currentSizePerItem = Bytes (Metrics activeQueue) div of_int currentCapacity;
            expectedMax = (of_int (nextPowerOfTwo currentCapacity) * currentSizePerItem :: 64 word) in
        if uint currentDepth * 100 \<ge> 90 * currentCapacity then
          if availMem > 0 \<and> expectedMax > availMem then container
          else fst (mutateSize zero container (of_int (nextPowerOfTwo (currentCapacity + 1))))
        else if uint currentDepth * 100 \<le> 2 * currentCapacity then
          fst (mutateSize zero container (of_int (prevPowerOfTwo currentCapacity)))
        else container)"

text \<open>The trend loop runs from the newest pair of samples to older ones.\<close>

fun trend_loop :: "int \<Rightarrow> nat \<Rightarrow> int list \<Rightarrow> int \<times> nat" where
  "trend_loop trend cnt (newer # older # rest) =
     (if cnt < 3 then
        let d = sgn (newer - older) in
        if trend = 0 then trend_loop d cnt (older # rest)
        else if d = trend then trend_loop trend (Suc cnt) (older # rest)
        else (trend, cnt)
      else (trend, cnt))"
| "trend_loop trend cnt _ = (trend, cnt)"

definition Trend :: "nat list \<Rightarrow> int \<Rightarrow> bool \<times> bool" where
  "Trend depthValues queueSize =
     (if length depthValues < 3 then (False, False)
      else
        let latest = int (last depthValues);
            (trend, cnt) = trend_loop 0 1 (rev (map int depthValues)) in
        if latest * 100 > 40 * queueSize \<and> trend > 0 \<and> cnt \<ge> 3 then (True, False)
        else if latest * 100 < 20 * queueSize \<and> trend < 0 \<and> cnt \<ge> 3 then (False, True)
        else (False, False))"

section \<open>The interface of a bounded queue\<close>

text \<open>
  What a client of the ring relies on: within a budget of pushes, an operation returns, a push
  appends unless the queue is full, a pop takes the oldest element unless the queue is empty.
\<close>

locale bounded_fifo =
  fixes inv :: "'q \<Rightarrow> bool"
    and budget :: "'q \<Rightarrow> nat"
    and capacity :: "'q \<Rightarrow> nat"
    and contents :: "'q \<Rightarrow> 'x list"
    and push :: "'q \<Rightarrow> 'x \<Rightarrow> ('q \<times> bool) option"
    and pop :: "'q \<Rightarrow> ('q \<times> 'x option) option"
  assumes contents_bound: "inv q \<Longrightarrow> length (contents q) \<le> capacity q"
    and push_room: "inv q \<Longrightarrow> 0 < budget q \<Longrightarrow> length (contents q) < capacity q \<Longrightarrow>
      \<exists>q'. push q x = Some (q', True) \<and> inv q' \<and> contents q' = contents q @ [x] \<and>
        capacity q' = capacity q \<and> budget q = Suc (budget q')"
    and push_full: "inv q \<Longrightarrow> length (contents q) = capacity q \<Longrightarrow>
      \<exists>q'. push q x = Some (q', False) \<and> inv q' \<and> contents q' = contents q \<and>
        capacity q' = capacity q \<and> budget q' = budget q"
    and pop_some: "inv q \<Longrightarrow> contents q = x # xs \<Longrightarrow>
      \<exists>q'. pop q = Some (q', Some x) \<and> inv q' \<and> contents q' = xs \<and>
        capacity q' = capacity q \<and> budget q' = budget q"
    and pop_none: "inv q \<Longrightarrow> contents q = [] \<Longrightarrow>
      \<exists>q'. pop q = Some (q', None) \<and> inv q' \<and> contents q' = [] \<and>
        capacity q' = capacity q \<and> budget q' = budget q"

datatype 'x queue_op = OpPush 'x | OpPop

datatype 'x queue_out = OutPushed bool | OutPopped "'x option"

text \<open>The specification: operations on a list with a capacity.\<close>

fun spec_run :: "nat \<Rightarrow> 'x list \<Rightarrow> 'x queue_op list \<Rightarrow> 'x list \<times> 'x queue_out list" where
  "spec_run n xs [] = (xs, [])"
| "spec_run n xs (OpPush x # ops) =
     (let ok = length xs < n; (ys, outs) = spec_run n (if ok then xs @ [x] else xs) ops in (ys, OutPushed ok # outs))"
| "spec_run n [] (OpPop # ops) = (let (ys, outs) = spec_run n [] ops in (ys, OutPopped None # outs))"
| "spec_run n (x # xs) (OpPop # ops) = (let (ys, outs) = spec_run n xs ops in (ys, OutPopped (Some x) # outs))"

context bounded_fifo
begin

fun run :: "'q \<Rightarrow> 'x queue_op list \<Rightarrow> ('q \<times> 'x queue_out list) option" where
  "run q [] = Some (q, [])"
| "run q (OpPush x # ops) =
     (case push q x of None \<Rightarrow> None
      | Some (q', ok) \<Rightarrow> map_option (\<lambda>(q'', outs). (q'', OutPushed ok # outs)) (run q' ops))"
| "run q (OpPop # ops) =
     (case pop q of None \<Rightarrow> None
      | Some (q', r) \<Rightarrow> map_option (\<lambda>(q'', outs). (q'', OutPopped r # outs)) (run q' ops))"

lemma run_refines:
  assumes "inv q" and "length ops \<le> budget q"
  shows "\<exists>q' outs. run q ops = Some (q', outs) \<and> inv q' \<and> capacity q' = capacity q \<and>
    spec_run (capacity q) (contents q) ops = (contents q', outs)"
  using assms
proof (induction ops arbitrary: q)
  case (Cons op ops)
  show ?case
  proof (cases op)
    case (OpPush x)
    show ?thesis
    proof (cases "length (contents q) < capacity q")
      case True
      with Cons.prems obtain q1 where q1: "push q x = Some (q1, True)" "inv q1" "contents q1 = contents q @ [x]"
        "capacity q1 = capacity q" "budget q = Suc (budget q1)"
        using push_room [of q x] by auto
      with Cons.IH [of q1] Cons.prems(2) True OpPush show ?thesis by (auto split: prod.splits)
    next
      case False
      with Cons.prems contents_bound [of q] obtain q1 where "push q x = Some (q1, False)" "inv q1"
        "contents q1 = contents q" "capacity q1 = capacity q" "budget q1 = budget q"
        using push_full [of q x] by auto
      with Cons.IH [of q1] Cons.prems(2) False OpPush show ?thesis by (auto split: prod.splits)
    qed
  next
    case OpPop
    show ?thesis
    proof (cases "contents q")
      case Nil
      with Cons.prems obtain q1 where "pop q = Some (q1, None)" "inv q1" "contents q1 = []"
        "capacity q1 = capacity q" "budget q1 = budget q"
        using pop_none [of q] by auto
      with Cons.IH [of q1] Cons.prems(2) Nil OpPop show ?thesis by (auto split: prod.splits)
    next
      case (Cons x xs)
      with Cons.prems obtain q1 where "pop q = Some (q1, Some x)" "inv q1" "contents q1 = xs"
        "capacity q1 = capacity q" "budget q1 = budget q"
        using pop_some [of q x xs] by auto
      with Cons.IH [of q1] Cons.prems(2) Cons OpPop show ?thesis by (auto split: prod.splits)
    qed
  qed
qed simp

end

section \<open>The ring is a bounded queue\<close>

abbreviation hpos :: "'a QueueInst \<Rightarrow> nat" where "hpos q \<equiv> unat (head q)"
abbreviation tpos :: "'a QueueInst \<Rightarrow> nat" where "tpos q \<equiv> unat (tail q)"

definition slot :: "'a QueueInst \<Rightarrow> nat \<Rightarrow> 'a cell" where
  "slot q p = buf q ! (p mod length (buf q))"

text \<open>
  Positions from head to tail hold elements (their sequence number is one ahead), the others up to
  one round ahead are free for the producer of that position.
\<close>

definition ring_inv :: "'a QueueInst \<Rightarrow> bool" where
  "ring_inv q \<longleftrightarrow>
     (\<exists>k. 0 < k \<and> k < 64 \<and> qmask q = mask k \<and> length (buf q) = 2 ^ k) \<and>
     hpos q \<le> tpos q \<and> tpos q \<le> hpos q + length (buf q) \<and> tpos q + length (buf q) < 2 ^ 64 \<and>
     (\<forall>p. hpos q \<le> p \<and> p < tpos q \<longrightarrow> unat (seq (slot q p)) = Suc p) \<and>
     (\<forall>p. tpos q \<le> p \<and> p < hpos q + length (buf q) \<longrightarrow> unat (seq (slot q p)) = p)"

definition ring_contents :: "'a QueueInst \<Rightarrow> ('a \<times> 64 word) list" where
  "ring_contents q = map (\<lambda>p. (data (slot q p), csize (slot q p))) [hpos q..<tpos q]"

definition ring_budget :: "'a QueueInst \<Rightarrow> nat" where
  "ring_budget q = 2 ^ 64 - 1 - length (buf q) - tpos q"

lemma length_ring_contents [simp]: "length (ring_contents q) = tpos q - hpos q"
  by (simp add: ring_contents_def)

lemma mod_window_neq: "p < r \<Longrightarrow> r < p + n \<Longrightarrow> p mod n \<noteq> r mod n" for p r n :: nat
proof
  assume "p < r" "r < p + n" "p mod n = r mod n"
  then have "n dvd r - p" by (metis less_imp_le mod_eq_dvd_iff_nat)
  with \<open>p < r\<close> have "n \<le> r - p" by (intro dvd_imp_le) auto
  with \<open>r < p + n\<close> \<open>p < r\<close> show False by simp
qed

lemma unat_mask64:
  assumes "k < 64"
  shows "unat (mask k :: 64 word) + 1 = 2 ^ k"
proof -
  have "(mask k :: nat) < 2 ^ k" by (simp add: mask_eq_exp_minus_1)
  also have "(2::nat) ^ k < 2 ^ 64" using assms by (intro power_strict_increasing) auto
  finally have lt: "(mask k :: nat) < 2 ^ LENGTH(64)" by simp
  have "unat (mask k :: 64 word) = unat (of_nat (mask k) :: 64 word)"
    by (simp only: of_nat_mask_eq)
  also have "\<dots> = mask k"
    using lt by (simp only: unat_of_nat mod_less)
  finally show ?thesis by (simp add: mask_eq_exp_minus_1)
qed

lemma ring_index:
  assumes "ring_inv q"
  shows "unat (w AND qmask q) = unat w mod length (buf q)" and "2 \<le> length (buf q)"
    and "unat (qmask q) + 1 = length (buf q)"
proof -
  from assms obtain k where k: "0 < k" "k < 64" "qmask q = mask k" "length (buf q) = 2 ^ k"
    by (auto simp: ring_inv_def)
  have "unat (w AND qmask q) = take_bit k (unat w)"
    by (simp only: k(3) take_bit_eq_mask [symmetric] unsigned_take_bit_eq)
  then show "unat (w AND qmask q) = unat w mod length (buf q)"
    by (simp add: take_bit_eq_mod k(4))
  have "(2::nat) ^ 1 \<le> 2 ^ k" using k(1) by (intro power_increasing) auto
  then show "2 \<le> length (buf q)" using k(4) by simp
  show "unat (qmask q) + 1 = length (buf q)"
    using unat_mask64 [of k] k by simp
qed

lemma unat_Suc64: "unat w + 1 < 2 ^ 64 \<Longrightarrow> unat (w + 1 :: 64 word) = Suc (unat w)"
  by (simp add: unat_word_ariths)

lemma inst_push_room:
  assumes inv: "ring_inv q" and room: "tpos q < hpos q + length (buf q)"
    and fit: "Suc (tpos q) + length (buf q) < 2 ^ 64"
  shows "\<exists>q'. inst_push q x sz = Some (q', Inr ()) \<and> ring_inv q' \<and>
    ring_contents q' = ring_contents q @ [(x, sz)] \<and> length (buf q') = length (buf q) \<and> tpos q' = Suc (tpos q)"
proof -
  let ?n = "length (buf q)" and ?i = "tpos q mod length (buf q)"
  note ix = ring_index [OF inv]
  define c where "c = (buf q ! ?i)\<lparr>data := x, seq := tail q + 1, csize := sz\<rparr>"
  have free: "unat (seq (slot q (tpos q))) = tpos q"
    using inv room by (auto simp: ring_inv_def)
  then have s: "seq (buf q ! ?i) = tail q"
    by (simp add: slot_def word_unat_eq_iff)
  obtain q' where q': "inst_push q x sz = Some (q', Inr ())"
    and sel: "tail q' = tail q + 1" "head q' = head q" "qmask q' = qmask q" "buf q' = (buf q)[?i := c]"
    using s by (simp add: inst_push_def Let_def ix c_def)
  have t': "tpos q' = Suc (tpos q)"
    using fit by (simp add: sel unat_Suc64)
  have i: "?i < ?n" using ix(2) by (intro mod_less_divisor) linarith
  have slot_new: "slot q' (tpos q) = c" using i by (simp add: slot_def sel)
  have slot_old: "slot q' p = slot q p" if "hpos q \<le> p" "p < hpos q + ?n" "p \<noteq> tpos q" for p
  proof -
    have "hpos q \<le> tpos q" using inv by (simp add: ring_inv_def)
    with that room have "p mod ?n \<noteq> ?i"
      using mod_window_neq [of p "tpos q" ?n] mod_window_neq [of "tpos q" p ?n] by (cases "p < tpos q") auto
    then show ?thesis by (simp add: slot_def sel)
  qed
  have "unat (seq c) = Suc (tpos q)" using fit by (simp add: c_def unat_Suc64)
  then have inv': "ring_inv q'"
    using inv room fit t' slot_new slot_old
    unfolding ring_inv_def by (auto simp: sel less_Suc_eq)
  have "ring_contents q' = ring_contents q @ [(x, sz)]"
  proof -
    have le: "hpos q \<le> tpos q" "tpos q \<le> hpos q + ?n" using inv by (auto simp: ring_inv_def)
    have "map (\<lambda>p. (data (slot q' p), csize (slot q' p))) [hpos q..<tpos q] = ring_contents q"
      unfolding ring_contents_def using le by (intro map_cong) (auto simp: slot_old)
    then show ?thesis
      using le by (simp add: ring_contents_def [of q'] t' sel(2) slot_new c_def)
  qed
  with q' inv' t' show ?thesis by (auto simp: sel)
qed

lemma inst_push_full:
  assumes inv: "ring_inv q" and full: "tpos q = hpos q + length (buf q)"
  shows "\<exists>q'. inst_push q x sz = Some (q', Inl (QueueFull (Size q))) \<and> ring_inv q' \<and>
    ring_contents q' = ring_contents q \<and> length (buf q') = length (buf q) \<and> tpos q' = tpos q"
proof -
  note ix = ring_index [OF inv]
  have "slot q (tpos q) = slot q (hpos q)" by (simp add: slot_def full)
  moreover have "unat (seq (slot q (hpos q))) = Suc (hpos q)"
    using inv full ix(2) by (auto simp: ring_inv_def)
  ultimately have "unat (seq (buf q ! (tpos q mod length (buf q)))) < tpos q"
    using full ix(2) by (simp add: slot_def)
  then have s: "seq (buf q ! (tpos q mod length (buf q))) < tail q"
    by (simp add: word_less_nat_alt)
  with less_imp_neq [OF s] obtain q' where "inst_push q x sz = Some (q', Inl (QueueFull (Size q)))" "tail q' = tail q"
    "head q' = head q" "qmask q' = qmask q" "buf q' = buf q"
    by (auto simp: inst_push_def Let_def ix)
  with inv show ?thesis by (auto simp: ring_inv_def ring_contents_def slot_def)
qed

lemma inst_pop_some:
  assumes inv: "ring_inv q" and some: "hpos q < tpos q"
  shows "\<exists>q'. inst_pop q = Some (q', Popped (data (slot q (hpos q)))) \<and> ring_inv q' \<and>
    ring_contents q' = tl (ring_contents q) \<and> length (buf q') = length (buf q) \<and> tpos q' = tpos q"
proof -
  let ?n = "length (buf q)" and ?i = "hpos q mod length (buf q)"
  note ix = ring_index [OF inv]
  have fit: "tpos q \<le> hpos q + ?n" "tpos q + ?n < 2 ^ 64" using inv by (auto simp: ring_inv_def)
  have "unat (seq (slot q (hpos q))) = Suc (hpos q)"
    using inv some by (auto simp: ring_inv_def)
  moreover have h1: "unat (head q + 1) = Suc (hpos q)"
    using fit some by (intro unat_Suc64) linarith
  ultimately have s: "seq (buf q ! ?i) = head q + 1"
    by (simp add: slot_def word_unat_eq_iff)
  define c where "c = (buf q ! ?i)\<lparr>seq := head q + qmask q + 1, csize := 0\<rparr>"
  obtain q' where q': "inst_pop q = Some (q', Popped (data (slot q (hpos q))))"
    and sel: "tail q' = tail q" "head q' = head q + 1" "qmask q' = qmask q" "buf q' = (buf q)[?i := c]"
    using s by (simp add: inst_pop_def Let_def ix c_def slot_def)
  have h': "hpos q' = Suc (hpos q)" using h1 by (simp add: sel)
  have i: "?i < ?n" using ix(2) by (intro mod_less_divisor) linarith
  have slot_new: "slot q' (hpos q + ?n) = c" using i by (simp add: slot_def sel)
  have slot_old: "slot q' p = slot q p" if "hpos q < p" "p < hpos q + ?n" for p
    using that mod_window_neq [of "hpos q" p ?n] by (simp add: slot_def sel)
  have "unat (seq c) = hpos q + ?n"
  proof -
    have "head q + qmask q + 1 = of_nat (hpos q + ?n)"
      using ix(3) by (simp flip: ix(3))
    moreover have "seq c = head q + qmask q + 1" by (simp add: c_def)
    ultimately have "unat (seq c) = (hpos q + ?n) mod 2 ^ LENGTH(64)"
      by (simp only: unat_of_nat)
    then show ?thesis using fit some by simp
  qed
  then have inv': "ring_inv q'"
    using inv some fit h' slot_new slot_old
    unfolding ring_inv_def by (auto simp: sel less_Suc_eq)
  have "ring_contents q' = tl (ring_contents q)"
  proof -
    have "map (\<lambda>p. (data (slot q' p), csize (slot q' p))) [Suc (hpos q)..<tpos q] =
        map (\<lambda>p. (data (slot q p), csize (slot q p))) [Suc (hpos q)..<tpos q]"
      using fit by (intro map_cong) (auto simp: slot_old)
    then show ?thesis
      using some by (simp add: ring_contents_def h' sel(1) upt_conv_Cons)
  qed
  with q' inv' show ?thesis by (auto simp: sel)
qed

lemma inst_pop_none:
  assumes inv: "ring_inv q" and none: "hpos q = tpos q"
  shows "\<exists>q'. inst_pop q = Some (q', Empty) \<and> ring_inv q' \<and>
    ring_contents q' = [] \<and> length (buf q') = length (buf q) \<and> tpos q' = tpos q"
proof -
  note ix = ring_index [OF inv]
  have "unat (seq (slot q (tpos q))) = tpos q"
    using inv none ix(2) by (auto simp: ring_inv_def)
  moreover have h1: "unat (head q + 1) = Suc (hpos q)"
    using inv none ix(2) by (intro unat_Suc64) (auto simp: ring_inv_def)
  ultimately have s: "seq (buf q ! (hpos q mod length (buf q))) < head q + 1"
    using none by (simp add: slot_def word_less_nat_alt)
  with less_imp_neq [OF s] obtain q' where "inst_pop q = Some (q', Empty)" "tail q' = tail q" "head q' = head q"
    "qmask q' = qmask q" "buf q' = buf q"
    by (auto simp: inst_pop_def Let_def ix)
  with inv none show ?thesis by (auto simp: ring_inv_def ring_contents_def slot_def)
qed

definition ring_push :: "64 word \<Rightarrow> 'a QueueInst \<Rightarrow> 'a \<Rightarrow> ('a QueueInst \<times> bool) option" where
  "ring_push sz q x = map_option (\<lambda>(q', r). (q', r = Inr ())) (inst_push q x sz)"

definition ring_pop :: "'a QueueInst \<Rightarrow> ('a QueueInst \<times> 'a option) option" where
  "ring_pop q = map_option (\<lambda>(q', r). (q', case r of Popped v \<Rightarrow> Some v | Empty \<Rightarrow> None)) (inst_pop q)"

interpretation ring: bounded_fifo ring_inv ring_budget "\<lambda>q. length (buf q)" "\<lambda>q. map fst (ring_contents q)"
  "ring_push sz" ring_pop for sz
proof
  fix q :: "'a QueueInst" and x
  assume inv: "ring_inv q"
  then have t: "hpos q \<le> tpos q" "tpos q \<le> hpos q + length (buf q)" by (auto simp: ring_inv_def)
  show "length (map fst (ring_contents q)) \<le> length (buf q)" using t by simp
  show "\<exists>q'. ring_push sz q x = Some (q', True) \<and> ring_inv q' \<and>
      map fst (ring_contents q') = map fst (ring_contents q) @ [x] \<and> length (buf q') = length (buf q) \<and>
      ring_budget q = Suc (ring_budget q')"
    if "0 < ring_budget q" "length (map fst (ring_contents q)) < length (buf q)"
  proof -
    have "tpos q < hpos q + length (buf q)" "Suc (tpos q) + length (buf q) < 2 ^ 64"
      using that t by (auto simp: ring_budget_def)
    from inst_push_room [OF inv this, of x sz] that(1) show ?thesis
      by (auto simp: ring_push_def ring_budget_def)
  qed
  show "\<exists>q'. ring_push sz q x = Some (q', False) \<and> ring_inv q' \<and>
      map fst (ring_contents q') = map fst (ring_contents q) \<and> length (buf q') = length (buf q) \<and>
      ring_budget q' = ring_budget q"
    if "length (map fst (ring_contents q)) = length (buf q)"
  proof -
    have "tpos q = hpos q + length (buf q)" using that t by simp
    from inst_push_full [OF inv this, of x sz] show ?thesis by (auto simp: ring_push_def ring_budget_def)
  qed
  show "\<exists>q'. ring_pop q = Some (q', Some x) \<and> ring_inv q' \<and> map fst (ring_contents q') = xs \<and>
      length (buf q') = length (buf q) \<and> ring_budget q' = ring_budget q"
    if "map fst (ring_contents q) = x # xs" for xs
  proof -
    have "hpos q < tpos q" using arg_cong [OF that, of length] by simp
    moreover from this that have "x = data (slot q (hpos q))" by (simp add: ring_contents_def upt_conv_Cons)
    ultimately show ?thesis
      using inst_pop_some [OF inv] that by (auto simp: ring_pop_def ring_budget_def map_tl)
  qed
  show "\<exists>q'. ring_pop q = Some (q', None) \<and> ring_inv q' \<and> map fst (ring_contents q') = [] \<and>
      length (buf q') = length (buf q) \<and> ring_budget q' = ring_budget q"
    if "map fst (ring_contents q) = []"
  proof -
    have "hpos q = tpos q" using arg_cong [OF that, of length] t by simp
    from inst_pop_none [OF inv this] show ?thesis by (auto simp: ring_pop_def ring_budget_def)
  qed
qed

section \<open>A new instance\<close>

lemma and_pred_eq_0:
  fixes x :: nat
  assumes "0 < x" and "x AND (x - 1) = 0"
  shows "\<exists>k. x = 2 ^ k"
proof -
  obtain k where k: "2 ^ k \<le> x" "x < 2 ^ (k + 1)" using ex_power_ivl1 [of 2 x] assms(1) by auto
  have "x = 2 ^ k"
  proof (rule ccontr)
    assume "x \<noteq> 2 ^ k"
    with k have "x div 2 ^ k = 1" "(x - 1) div 2 ^ k = 1" by (auto simp: div_nat_eqI)
    then have "bit x k" "bit (x - 1) k" by (simp_all add: bit_iff_odd)
    then have "bit (x AND (x - 1)) k" by (simp only: bit_and_iff)
    with assms(2) show False by simp
  qed
  then show ?thesis by blast
qed

lemma newQueueInst_eq_Inr:
  assumes "newQueueInst zero ns capacity = Inr q" and "unat capacity < 2 ^ 62"
  shows "ring_inv q" and "ring_contents q = []" and "length (buf q) = unat capacity" and "\<not> draining q"
    and "Metrics q = MetricStorage_zero\<lparr>Capacity := capacity\<rparr>" and "\<not> notEmpty q"
proof -
  from assms(1) have pw: "capacity AND (capacity - 1) = 0" and ge: "2 \<le> unat capacity"
    and q: "q = \<lparr> Namespace = ns @ [NSQueue], Size = sint capacity, qmask = capacity - 1,
             buf = map (\<lambda>i. \<lparr>seq = of_nat i, csize = 0, data = zero\<rparr>) [0..<unat capacity],
             head = 0, tail = 0, notEmpty = False, draining = False,
             Metrics = MetricStorage_zero\<lparr>Capacity := capacity\<rparr> \<rparr>"
    by (auto simp: newQueueInst_def word_less_nat_alt not_less split: if_splits)
  have pred: "unat (capacity - 1) = unat capacity - 1"
    using ge by (intro unat_minus_one) auto
  have "unat capacity AND (unat capacity - 1) = unat (capacity AND (capacity - 1))"
    by (simp only: unsigned_and_eq pred)
  with pw ge obtain k where k: "unat capacity = 2 ^ k" using and_pred_eq_0 [of "unat capacity"] by auto
  have kpos: "0 < k" "k < 62"
  proof -
    show "0 < k" using ge k by (cases k) auto
    have "(2::nat) ^ k < 2 ^ 62" using assms(2) k by simp
    then show "k < 62" by (simp only: power_strict_increasing_iff)
  qed
  have "unat (capacity - 1) = unat (mask k :: 64 word)"
    using pred k unat_mask64 [of k] kpos by simp
  then have m: "capacity - 1 = mask k" by (simp only: word_unat_eq_iff)
  have sl: "slot q p = \<lparr>seq = of_nat (p mod 2 ^ k), csize = 0, data = zero\<rparr>" for p
    by (simp add: slot_def q k)
  have sq: "unat (seq (slot q p)) = p" if "p < 2 ^ k" for p
  proof -
    have "(2::nat) ^ k < 2 ^ 64" using kpos by (intro power_strict_increasing) auto
    with that show ?thesis by (simp add: sl unat_of_nat)
  qed
  show "ring_inv q"
    using sq kpos m k assms(2) unfolding ring_inv_def by (auto simp: q)
  show "ring_contents q = []" "length (buf q) = unat capacity" "\<not> draining q"
    "Metrics q = MetricStorage_zero\<lparr>Capacity := capacity\<rparr>" "\<not> notEmpty q"
    by (simp_all add: q ring_contents_def)
qed

section \<open>Depth and bytes\<close>

text \<open>The gauges agree with the contents.\<close>

definition gauges_ok :: "'a QueueInst \<Rightarrow> bool" where
  "gauges_ok q \<longleftrightarrow> unat (Depth (Metrics q)) = length (ring_contents q) \<and>
     unat (Bytes (Metrics q)) = sum_list (map (unat \<circ> snd) (ring_contents q))"

lemma inst_push_metrics:
  "inst_push q x sz = Some (q', Inr ()) \<Longrightarrow>
     Depth (Metrics q') = Depth (Metrics q) + 1 \<and> Bytes (Metrics q') = Bytes (Metrics q) + sz"
  by (auto simp: inst_push_def Let_def split: if_splits)

lemma inst_pop_metrics:
  "inst_pop q = Some (q', Popped v) \<Longrightarrow>
     Depth (Metrics q') = fst (Subtract (Depth (Metrics q)) 1 4 []) \<and>
     Bytes (Metrics q') = fst (Subtract (Bytes (Metrics q)) (csize (buf q ! unat (head q AND qmask q))) 4 [])"
  by (auto simp: inst_pop_def Let_def split: if_splits)

lemma gauges_push:
  assumes inv: "ring_inv q" and ok: "gauges_ok q" and p: "inst_push q x sz = Some (q', Inr ())"
    and c: "ring_contents q' = ring_contents q @ [(x, sz)]"
    and d: "length (ring_contents q) + 1 < 2 ^ 64"
    and b: "sum_list (map (unat \<circ> snd) (ring_contents q)) + unat sz < 2 ^ 64"
  shows "gauges_ok q'"
proof -
  have "unat (Bytes (Metrics q) + sz) = unat (Bytes (Metrics q)) + unat sz"
    using ok b by (simp add: unat_word_ariths gauges_ok_def)
  moreover have "unat (Depth (Metrics q) + 1) = Suc (unat (Depth (Metrics q)))"
    using ok d by (intro unat_Suc64) (simp add: gauges_ok_def)
  ultimately show ?thesis
    using ok inst_push_metrics [OF p] arg_cong [OF c, of length] by (simp add: gauges_ok_def c)
qed

lemma gauges_pop:
  assumes inv: "ring_inv q" and ok: "gauges_ok q" and p: "inst_pop q = Some (q', Popped v)"
    and c: "ring_contents q' = tl (ring_contents q)" and some: "hpos q < tpos q"
  shows "gauges_ok q'"
proof -
  have hd: "ring_contents q = (data (slot q (hpos q)), csize (slot q (hpos q))) # tl (ring_contents q)"
    using some by (simp add: ring_contents_def upt_conv_Cons)
  have sz: "csize (buf q ! unat (head q AND qmask q)) = csize (slot q (hpos q))"
    by (simp add: slot_def ring_index [OF inv])
  have "unat (Bytes (Metrics q')) = unat (Bytes (Metrics q)) - unat (csize (slot q (hpos q)))"
    using inst_pop_metrics [OF p] by (simp add: unat_Subtract sz)
  moreover have "unat (Depth (Metrics q')) = unat (Depth (Metrics q)) - 1"
    using inst_pop_metrics [OF p] by (simp add: unat_Subtract)
  moreover have "length (ring_contents q') = length (ring_contents q) - 1"
    by (simp only: c length_tl)
  moreover have "sum_list (map (unat \<circ> snd) (ring_contents q)) =
      unat (csize (slot q (hpos q))) + sum_list (map (unat \<circ> snd) (tl (ring_contents q)))"
    by (subst hd) simp
  ultimately show ?thesis
    using ok by (simp only: gauges_ok_def c) simp
qed

section \<open>The container\<close>

definition queue_inv :: "'a Queue \<Rightarrow> bool" where
  "queue_inv c \<longleftrightarrow>
     ActiveWrite c < length (insts c) \<and> ActiveRead c < length (insts c) \<and>
     ring_inv (insts c ! ActiveWrite c) \<and> ring_inv (insts c ! ActiveRead c) \<and>
     \<not> draining (insts c ! ActiveWrite c) \<and>
     (ActiveRead c \<noteq> ActiveWrite c \<longrightarrow> draining (insts c ! ActiveRead c))"

text \<open>What a consumer is going to read: the draining instance first, then the new one.\<close>

definition queue_contents :: "'a Queue \<Rightarrow> 'a list" where
  "queue_contents c =
     map fst (ring_contents (insts c ! ActiveRead c)) @
     (if ActiveRead c = ActiveWrite c then [] else map fst (ring_contents (insts c ! ActiveWrite c)))"

lemma inst_push_draining: "inst_push q x sz = Some (q', r) \<Longrightarrow> draining q' = draining q"
  by (auto simp: inst_push_def Let_def split: if_splits)

lemma inst_pop_keeps: "inst_pop q = Some (q', r) \<Longrightarrow> draining q' = draining q \<and> notEmpty q' = notEmpty q"
  by (auto simp: inst_pop_def Let_def split: if_splits)

lemma Push_appends:
  assumes inv: "queue_inv c" and room: "length (ring_contents (insts c ! ActiveWrite c)) < length (buf (insts c ! ActiveWrite c))"
    and b: "0 < ring_budget (insts c ! ActiveWrite c)"
  shows "\<exists>c'. Push c x sz = Some (c', Inr ()) \<and> queue_inv c' \<and> queue_contents c' = queue_contents c @ [x] \<and>
    ActiveRead c' = ActiveRead c \<and> ActiveWrite c' = ActiveWrite c \<and> migrateCh c' = migrateCh c \<and>
    (ActiveRead c \<noteq> ActiveWrite c \<longrightarrow> insts c' ! ActiveRead c = insts c ! ActiveRead c)"
proof -
  let ?w = "insts c ! ActiveWrite c"
  have w: "ring_inv ?w" "\<not> draining ?w" "hpos ?w \<le> tpos ?w" using inv by (auto simp: queue_inv_def ring_inv_def)
  with room b have "tpos ?w < hpos ?w + length (buf ?w)" "Suc (tpos ?w) + length (buf ?w) < 2 ^ 64"
    by (auto simp: ring_budget_def)
  from inst_push_room [OF w(1) this, of x sz] obtain w' where
    w': "inst_push ?w x sz = Some (w', Inr ())" "ring_inv w'" "ring_contents w' = ring_contents ?w @ [(x, sz)]"
    by auto
  with inst_push_draining [OF w'(1)] w inv show ?thesis
    by (auto simp: Push_def Let_def queue_inv_def queue_contents_def)
qed

text \<open>A queue that is not being resized and has room for \<open>n\<close> more elements.\<close>

definition has_room :: "nat \<Rightarrow> 'a Queue \<Rightarrow> bool" where
  "has_room n q \<longleftrightarrow> queue_inv q \<and> ActiveRead q = ActiveWrite q \<and>
     length (ring_contents (insts q ! ActiveWrite q)) + n \<le> length (buf (insts q ! ActiveWrite q)) \<and>
     n \<le> ring_budget (insts q ! ActiveWrite q)"

lemma has_room_less: "has_room n q \<Longrightarrow> k \<le> n \<Longrightarrow> has_room k q"
  by (auto simp: has_room_def)

lemma has_room_Push:
  assumes "has_room (Suc n) q"
  shows "\<exists>q'. Push q x sz = Some (q', Inr ()) \<and> has_room n q' \<and> queue_contents q' = queue_contents q @ [x]"
proof -
  let ?w = "insts q ! ActiveWrite q"
  have q: "queue_inv q" "ActiveRead q = ActiveWrite q" "length (ring_contents ?w) + Suc n \<le> length (buf ?w)"
    "Suc n \<le> ring_budget ?w" using assms by (auto simp: has_room_def)
  have w: "ring_inv ?w" "\<not> draining ?w" "hpos ?w \<le> tpos ?w" "ActiveWrite q < length (insts q)"
    using q(1) by (auto simp: queue_inv_def ring_inv_def)
  have "tpos ?w < hpos ?w + length (buf ?w)" "Suc (tpos ?w) + length (buf ?w) < 2 ^ 64"
    using q(3,4) w(3) by (auto simp: ring_budget_def)
  from inst_push_room [OF w(1) this, of x sz] obtain w' where
    w': "inst_push ?w x sz = Some (w', Inr ())" "ring_inv w'" "ring_contents w' = ring_contents ?w @ [(x, sz)]"
      "length (buf w') = length (buf ?w)" "tpos w' = Suc (tpos ?w)" by auto
  let ?q = "q\<lparr>insts := (insts q)[ActiveWrite q := w']\<rparr>"
  have p: "Push q x sz = Some (?q, Inr ())" using w w'(1) by (simp add: Push_def Let_def)
  have len: "length (ring_contents w') = Suc (length (ring_contents ?w))"
    using arg_cong [OF w'(3), of length] by (simp del: length_ring_contents)
  have "has_room n ?q"
    using q w w' len inst_push_draining [OF w'(1)]
    by (auto simp: has_room_def queue_inv_def ring_budget_def simp del: length_ring_contents)
  moreover have "queue_contents ?q = queue_contents q @ [x]" using q(2) w w'(3) by (simp add: queue_contents_def)
  ultimately show ?thesis using p by blast
qed

lemma fresh_queue:
  obtains q :: "'a Queue" where "has_room 8 q" and "queue_contents q = []"
proof -
  obtain z :: 'a where True by blast
  obtain q where q: "newQueueInst z [] 8 = Inr q" by (simp add: newQueueInst_def)
  then have t: "tpos q = 0" by (auto simp: newQueueInst_def)
  note ok = newQueueInst_eq_Inr [OF q, simplified]
  show thesis
    using that [of "\<lparr> insts = [q], ActiveWrite = 0, ActiveRead = 0, migrateCh = False, minimumSize = 2, maximumSize = 16 \<rparr>"] ok t
    by (simp add: has_room_def queue_inv_def queue_contents_def ring_budget_def)
qed

lemma Pop_oldest:
  assumes inv: "queue_inv c" and some: "ring_contents (insts c ! ActiveRead c) \<noteq> []"
  shows "\<exists>c'. Pop ctxDone sel c = Some (c', PopOut (hd (queue_contents c))) \<and> queue_inv c' \<and>
    queue_contents c' = tl (queue_contents c) \<and> ActiveRead c' = ActiveRead c \<and> ActiveWrite c' = ActiveWrite c"
proof -
  let ?r = "insts c ! ActiveRead c"
  have r: "ring_inv ?r" using inv by (auto simp: queue_inv_def)
  have ht: "hpos ?r < tpos ?r" using some by (auto simp: ring_contents_def)
  from inst_pop_some [OF r ht] obtain r' where
    r': "inst_pop ?r = Some (r', Popped (data (slot ?r (hpos ?r))))" "ring_inv r'" "ring_contents r' = tl (ring_contents ?r)"
    by auto
  have "hd (queue_contents c) = data (slot ?r (hpos ?r))" "tl (queue_contents c) = map fst (tl (ring_contents ?r)) @
      (if ActiveRead c = ActiveWrite c then [] else map fst (ring_contents (insts c ! ActiveWrite c)))"
    using ht some by (simp_all add: queue_contents_def ring_contents_def upt_conv_Cons map_tl)
  with r' inst_pop_keeps [OF r'(1)] inv show ?thesis
    by (subst Pop.simps) (auto simp: Let_def queue_inv_def queue_contents_def)
qed

lemma Pop_empty:
  assumes "queue_inv c" and "ring_contents (insts c ! ActiveRead c) = []"
  obtains r' where "inst_pop (insts c ! ActiveRead c) = Some (r', Empty)" and "ring_inv r'" and "ring_contents r' = []"
    and "draining r' = draining (insts c ! ActiveRead c)" and "notEmpty r' = notEmpty (insts c ! ActiveRead c)"
proof -
  let ?r = "insts c ! ActiveRead c"
  have r: "ring_inv ?r" "hpos ?r = tpos ?r"
    using assms by (auto simp: queue_inv_def ring_contents_def ring_inv_def)
  from inst_pop_none [OF r] inst_pop_keeps that show ?thesis by blast
qed

text \<open>The migration signal moves the consumer to the new instance and loses nothing.\<close>

lemma Pop_migrates:
  assumes inv: "queue_inv c" and e: "ring_contents (insts c ! ActiveRead c) = []" and m: "migrateCh c"
    and mig: "ActiveRead c \<noteq> ActiveWrite c"
  shows "\<exists>c'. Pop ctxDone (MigrateSignal # sel) c = Pop ctxDone sel c' \<and> queue_inv c' \<and>
    ActiveRead c' = ActiveWrite c' \<and> queue_contents c' = queue_contents c"
proof -
  from Pop_empty [OF inv e] obtain r' where r': "inst_pop (insts c ! ActiveRead c) = Some (r', Empty)" "ring_inv r'" by blast
  let ?c = "c\<lparr>insts := (insts c)[ActiveRead c := r'], migrateCh := False, ActiveRead := ActiveWrite c\<rparr>"
  have "Pop ctxDone (MigrateSignal # sel) c = Pop ctxDone sel ?c"
    using r' m by (subst Pop.simps) (simp add: Let_def wake_ready_def)
  moreover have "queue_inv ?c" "queue_contents ?c = queue_contents c"
    using inv mig e by (auto simp: queue_inv_def queue_contents_def)
  ultimately show ?thesis by (intro exI [of _ ?c]) simp
qed

text \<open>Without the signal the consumer never gets past an empty draining instance.\<close>

lemma Pop_stuck:
  assumes "queue_inv c" and "ActiveRead c \<noteq> ActiveWrite c" and "ring_contents (insts c ! ActiveRead c) = []"
    and "\<not> migrateCh c"
  shows "\<exists>c'. Pop False sel c = Some (c', PopBlocked)"
  using assms
proof (induction sel arbitrary: c)
  case Nil
  from Pop_empty [OF Nil(1,3)] show ?case
    by (metis (no_types, lifting) Pop.simps inst_pop_result.case(2) list.case(1) option.case(2) prod.case)
next
  case (Cons w sel)
  from Pop_empty [OF Cons.prems(1,3)] obtain r' where r': "inst_pop (insts c ! ActiveRead c) = Some (r', Empty)"
    "ring_inv r'" "ring_contents r' = []" "draining r' = draining (insts c ! ActiveRead c)" by blast
  let ?c = "c\<lparr>insts := (insts c)[ActiveRead c := r'\<lparr>notEmpty := False\<rparr>]\<rparr>"
  have "ring_inv (r'\<lparr>notEmpty := False\<rparr>)" "ring_contents (r'\<lparr>notEmpty := False\<rparr>) = []"
    using r'(2,3) by (simp_all add: ring_inv_def ring_contents_def slot_def)
  with r' Cons.prems have "\<exists>c'. Pop False sel ?c = Some (c', PopBlocked)"
    by (intro Cons.IH) (auto simp: queue_inv_def)
  with r' Cons.prems(4) show ?case
    by (subst Pop.simps) (auto simp: Let_def wake_ready_def split: wake.splits)
qed

lemma mutateSize_keeps:
  assumes inv: "queue_inv c" and n: "unat n < 2 ^ 62"
  shows "queue_inv (fst (mutateSize zero c n)) \<and> queue_contents (fst (mutateSize zero c n)) = queue_contents c"
proof -
  let ?w = "insts c ! ActiveWrite c"
  show ?thesis
  proof (cases "ActiveRead c = ActiveWrite c \<and> (\<exists>q. newQueueInst zero (Namespace ?w) n = Inr q)")
    case True
    then obtain q where r: "ActiveRead c = ActiveWrite c" and q: "newQueueInst zero (Namespace ?w) n = Inr q" by blast
    note nq = newQueueInst_eq_Inr [OF q n]
    have "ring_inv (?w\<lparr>draining := True\<rparr>)" "ring_contents (?w\<lparr>draining := True\<rparr>) = ring_contents ?w"
      using inv by (auto simp: queue_inv_def ring_inv_def ring_contents_def slot_def)
    with r q nq inv show ?thesis
      by (auto simp: mutateSize_def Let_def queue_inv_def queue_contents_def nth_append)
  next
    case False
    then show ?thesis using inv by (auto simp: mutateSize_def split: sum.splits)
  qed
qed

section \<open>Sequences of operations around a resize\<close>

text \<open>
  A resize in progress: \<open>Some k\<close> when \<open>k\<close> elements are left in the old instance, with the migration signal sent
  when none is, and \<open>None\<close> when consumers and producers use the same instance.
\<close>

definition phase :: "nat option \<Rightarrow> 'a Queue \<Rightarrow> bool" where
  "phase ph c \<longleftrightarrow> (case ph of
       None \<Rightarrow> ActiveRead c = ActiveWrite c
     | Some k \<Rightarrow> ActiveRead c \<noteq> ActiveWrite c \<and> length (ring_contents (insts c ! ActiveRead c)) = k \<and> (k = 0 \<longrightarrow> migrateCh c))"

definition phase_after :: "nat option \<Rightarrow> nat \<Rightarrow> nat option" where
  "phase_after ph n = (case ph of None \<Rightarrow> None | Some k \<Rightarrow> if n \<le> k then Some (k - n) else None)"

lemma phase_after_simps [simp]:
  "phase_after ph 0 = ph" "phase_after (phase_after ph (Suc 0)) n = phase_after ph (Suc n)"
  by (auto simp: phase_after_def split: option.splits)

definition write_room :: "nat \<Rightarrow> 'a Queue \<Rightarrow> bool" where
  "write_room n c \<longleftrightarrow>
     length (ring_contents (insts c ! ActiveWrite c)) + n \<le> length (buf (insts c ! ActiveWrite c)) \<and>
     n \<le> ring_budget (insts c ! ActiveWrite c)"

fun is_push :: "'x queue_op \<Rightarrow> bool" where
  "is_push (OpPush _) = True"
| "is_push OpPop = False"

text \<open>
  The operations one after the other; a pop that finds its instance empty is woken by the migration signal. None
  where a push is refused or a pop does not return an element.
\<close>

fun queue_run :: "64 word \<Rightarrow> 'a Queue \<Rightarrow> 'a queue_op list \<Rightarrow> ('a Queue \<times> 'a list) option" where
  "queue_run sz c [] = Some (c, [])"
| "queue_run sz c (OpPush x # ops) = (case Push c x sz of Some (c', Inr _) \<Rightarrow> queue_run sz c' ops | _ \<Rightarrow> None)"
| "queue_run sz c (OpPop # ops) =
     (case Pop False [MigrateSignal] c of
        Some (c', PopOut x) \<Rightarrow> map_option (apsnd ((#) x)) (queue_run sz c' ops)
      | _ \<Rightarrow> None)"

text \<open>The specification: a list used as a queue, with what is left and what was taken.\<close>

fun fifo_run :: "'x list \<Rightarrow> 'x queue_op list \<Rightarrow> ('x list \<times> 'x list) option" where
  "fifo_run xs [] = Some (xs, [])"
| "fifo_run xs (OpPush x # ops) = fifo_run (xs @ [x]) ops"
| "fifo_run [] (OpPop # ops) = None"
| "fifo_run (x # xs) (OpPop # ops) = map_option (apsnd ((#) x)) (fifo_run xs ops)"

lemma Push_phase:
  assumes inv: "queue_inv c" and ph: "phase ph c" and room: "write_room (Suc n) c"
  shows "\<exists>c'. Push c x sz = Some (c', Inr ()) \<and> queue_inv c' \<and> queue_contents c' = queue_contents c @ [x] \<and>
    phase ph c' \<and> write_room n c'"
proof -
  let ?w = "insts c ! ActiveWrite c"
  have w: "ring_inv ?w" "\<not> draining ?w" "hpos ?w \<le> tpos ?w" "ActiveWrite c < length (insts c)"
    using inv by (auto simp: queue_inv_def ring_inv_def)
  have "tpos ?w < hpos ?w + length (buf ?w)" "Suc (tpos ?w) + length (buf ?w) < 2 ^ 64"
    using room w(3) by (auto simp: write_room_def ring_budget_def)
  from inst_push_room [OF w(1) this, of x sz] obtain w' where
    w': "inst_push ?w x sz = Some (w', Inr ())" "ring_inv w'" "ring_contents w' = ring_contents ?w @ [(x, sz)]"
      "length (buf w') = length (buf ?w)" "tpos w' = Suc (tpos ?w)" by auto
  let ?c = "c\<lparr>insts := (insts c)[ActiveWrite c := w']\<rparr>"
  have p: "Push c x sz = Some (?c, Inr ())" using w w'(1) by (simp add: Push_def Let_def)
  have len: "length (ring_contents w') = Suc (length (ring_contents ?w))"
    using arg_cong [OF w'(3), of length] by (simp del: length_ring_contents)
  have "queue_inv ?c" "queue_contents ?c = queue_contents c @ [x]"
    using inv w w' inst_push_draining [OF w'(1)] by (auto simp: queue_inv_def queue_contents_def nth_list_update)
  moreover have "phase ph ?c" using ph w(4) by (auto simp: phase_def split: option.splits)
  moreover have "write_room n ?c"
    using room w(4) w'(4,5) len by (auto simp: write_room_def ring_budget_def simp del: length_ring_contents)
  ultimately show ?thesis using p by blast
qed

lemma Pop_read:
  assumes inv: "queue_inv c" and some: "ring_contents (insts c ! ActiveRead c) \<noteq> []"
  shows "\<exists>r' mig. Pop ctxDone sel c = Some (c\<lparr>insts := (insts c)[ActiveRead c := r'], migrateCh := mig\<rparr>, PopOut (hd (queue_contents c))) \<and>
    ring_inv r' \<and> ring_contents r' = tl (ring_contents (insts c ! ActiveRead c)) \<and>
    length (buf r') = length (buf (insts c ! ActiveRead c)) \<and> tpos r' = tpos (insts c ! ActiveRead c) \<and>
    draining r' = draining (insts c ! ActiveRead c) \<and> (draining r' \<and> ring_contents r' = [] \<longrightarrow> mig)"
proof -
  let ?r = "insts c ! ActiveRead c"
  have r: "ring_inv ?r" using inv by (auto simp: queue_inv_def)
  have ht: "hpos ?r < tpos ?r" using some by (auto simp: ring_contents_def)
  from inst_pop_some [OF r ht] obtain r' where
    r': "inst_pop ?r = Some (r', Popped (data (slot ?r (hpos ?r))))" "ring_inv r'" "ring_contents r' = tl (ring_contents ?r)"
      "length (buf r') = length (buf ?r)" "tpos r' = tpos ?r" by auto
  have "hd (queue_contents c) = data (slot ?r (hpos ?r))"
    using ht some by (simp add: queue_contents_def ring_contents_def upt_conv_Cons)
  moreover have "head r' = tail r'" if "ring_contents r' = []"
  proof -
    have "tpos r' - hpos r' = 0" using length_ring_contents [of r'] unfolding that by simp
    then have "hpos r' = tpos r'" using r'(2) by (simp add: ring_inv_def)
    then show ?thesis by (simp add: word_unat_eq_iff)
  qed
  ultimately show ?thesis
    using r' inst_pop_keeps [OF r'(1)]
    by (intro exI [of _ r'] exI [of _ "if draining r' \<and> head r' = tail r' then True else migrateCh c"])
      (subst Pop.simps, auto simp: Let_def)
qed

lemma Pop_phase:
  assumes inv: "queue_inv c" and ph: "phase ph c" and some: "queue_contents c \<noteq> []" and room: "write_room n c"
  shows "\<exists>c'. Pop False [MigrateSignal] c = Some (c', PopOut (hd (queue_contents c))) \<and> queue_inv c' \<and>
    queue_contents c' = tl (queue_contents c) \<and> phase (phase_after ph 1) c' \<and> write_room n c'"
proof -
  have here: "\<exists>c'. Pop False sel d = Some (c', PopOut (hd (queue_contents d))) \<and> queue_inv c' \<and>
      queue_contents c' = tl (queue_contents d) \<and> phase (phase_after ph' 1) c' \<and> write_room n c'"
    if d: "queue_inv d" "phase ph' d" "write_room n d" and ne: "ring_contents (insts d ! ActiveRead d) \<noteq> []" for d :: "'a Queue" and ph' sel
  proof -
    from Pop_read [OF d(1) ne, of False sel] obtain r' mig where
      r': "Pop False sel d = Some (d\<lparr>insts := (insts d)[ActiveRead d := r'], migrateCh := mig\<rparr>, PopOut (hd (queue_contents d)))"
      "ring_inv r'" "ring_contents r' = tl (ring_contents (insts d ! ActiveRead d))"
      "length (buf r') = length (buf (insts d ! ActiveRead d))" "tpos r' = tpos (insts d ! ActiveRead d)"
      "draining r' = draining (insts d ! ActiveRead d)" "draining r' \<and> ring_contents r' = [] \<longrightarrow> mig" by blast
    let ?d = "d\<lparr>insts := (insts d)[ActiveRead d := r'], migrateCh := mig\<rparr>"
    have lt: "ActiveRead d < length (insts d)" using d(1) by (simp add: queue_inv_def)
    have len: "length (ring_contents r') = length (ring_contents (insts d ! ActiveRead d)) - 1"
      using arg_cong [OF r'(3), of length] by (simp del: length_ring_contents)
    have last: "ring_contents r' = []" if "length (ring_contents (insts d ! ActiveRead d)) \<le> Suc 0"
      using len that by (simp only: length_0_conv [symmetric])
    have "queue_inv ?d" "queue_contents ?d = tl (queue_contents d)"
      using d(1) r' ne lt by (auto simp: queue_inv_def queue_contents_def map_tl nth_list_update)
    moreover have "phase (phase_after ph' 1) ?d"
      using d(1,2) r' ne lt len last
      by (auto simp: phase_def phase_after_def queue_inv_def Suc_le_eq split: option.splits simp del: length_ring_contents)
    moreover have "write_room n ?d"
      using d(3) r'(4,5) lt len by (auto simp: write_room_def ring_budget_def nth_list_update simp del: length_ring_contents)
    ultimately show ?thesis using r'(1) by blast
  qed
  show ?thesis
  proof (cases "ring_contents (insts c ! ActiveRead c) = []")
    case False
    then show ?thesis using here [OF inv ph room] by blast
  next
    case True
    then have p: "ph = Some 0" and mig: "ActiveRead c \<noteq> ActiveWrite c" "migrateCh c"
      using ph some by (auto simp: phase_def queue_contents_def split: option.splits)
    from Pop_empty [OF inv True] obtain r' where r': "inst_pop (insts c ! ActiveRead c) = Some (r', Empty)" "ring_inv r'" by blast
    let ?c = "c\<lparr>insts := (insts c)[ActiveRead c := r'], migrateCh := False, ActiveRead := ActiveWrite c\<rparr>"
    have "Pop False [MigrateSignal] c = Pop False [] ?c"
      using r' mig(2) by (subst Pop.simps) (simp add: Let_def wake_ready_def)
    moreover have "queue_inv ?c" "queue_contents ?c = queue_contents c" "phase None ?c" "write_room n ?c"
      using inv mig True room by (auto simp: queue_inv_def queue_contents_def phase_def write_room_def)
    moreover have "ring_contents (insts ?c ! ActiveRead ?c) \<noteq> []"
      using some True mig by (simp add: queue_contents_def)
    ultimately show ?thesis using here [of ?c None "[]"] p by (simp add: phase_after_def)
  qed
qed

lemma queue_run_delivers:
  assumes "queue_inv c" and "phase ph c" and "write_room n c" and "length (filter is_push ops) \<le> n"
    and "fifo_run (queue_contents c) ops = Some (rest, outs)"
  shows "\<exists>c'. queue_run sz c ops = Some (c', outs) \<and> queue_inv c' \<and> queue_contents c' = rest \<and>
    phase (phase_after ph (length outs)) c'"
  using assms
proof (induction ops arbitrary: c ph n outs)
  case Nil
  then show ?case by auto
next
  case (Cons opn ops)
  show ?case
  proof (cases opn)
    case (OpPush x)
    then obtain n' where n: "n = Suc n'" using Cons.prems(4) by (cases n) auto
    from Push_phase [OF Cons.prems(1,2) Cons.prems(3) [unfolded n], of x sz] obtain c1 where
      c1: "Push c x sz = Some (c1, Inr ())" "queue_inv c1" "queue_contents c1 = queue_contents c @ [x]" "phase ph c1" "write_room n' c1"
      by blast
    from Cons.IH [OF c1(2,4,5), of outs] c1 Cons.prems(4,5) OpPush n show ?thesis by auto
  next
    case OpPop
    then obtain x xs where q: "queue_contents c = x # xs" using Cons.prems(5) by (cases "queue_contents c") auto
    then obtain outs' where o: "fifo_run xs ops = Some (rest, outs')" "outs = x # outs'"
      using Cons.prems(5) OpPop by auto
    from Pop_phase [OF Cons.prems(1,2) _ Cons.prems(3)] q obtain c1 where
      c1: "Pop False [MigrateSignal] c = Some (c1, PopOut x)" "queue_inv c1" "queue_contents c1 = xs"
        "phase (phase_after ph 1) c1" "write_room n c1" by auto
    from Cons.IH [OF c1(2,4,5), of outs'] c1 o Cons.prems(4) OpPop show ?thesis by auto
  qed
qed

lemma mutateSize_phase:
  assumes inv: "queue_inv c" and one: "ActiveRead c = ActiveWrite c"
    and q: "newQueueInst zero (Namespace (insts c ! ActiveWrite c)) n = Inr q" and n: "unat n < 2 ^ 62"
  shows "queue_contents c \<noteq> [] \<Longrightarrow> phase (Some (length (queue_contents c))) (fst (mutateSize zero c n))"
    and "write_room (unat n) (fst (mutateSize zero c n))"
proof -
  let ?w = "insts c ! ActiveWrite c"
  note nq = newQueueInst_eq_Inr [OF q n]
  have lt: "ActiveWrite c < length (insts c)" using inv by (simp add: queue_inv_def)
  have m: "fst (mutateSize zero c n) = c\<lparr>migrateCh := False, insts := (insts c)[ActiveWrite c := ?w\<lparr>draining := True\<rparr>] @ [q],
      ActiveWrite := length (insts c)\<rparr>"
    using one q by (simp add: mutateSize_def Let_def)
  have "ring_contents (?w\<lparr>draining := True\<rparr>) = ring_contents ?w" by (simp add: ring_contents_def slot_def)
  then show "queue_contents c \<noteq> [] \<Longrightarrow> phase (Some (length (queue_contents c))) (fst (mutateSize zero c n))"
    using one lt by (simp add: m phase_def nth_append queue_contents_def del: length_ring_contents)
  have "tpos q = 0" using q by (auto simp: newQueueInst_def split: if_splits)
  then show "write_room (unat n) (fst (mutateSize zero c n))"
    using nq(2,3) n by (simp add: m write_room_def nth_append ring_budget_def del: length_ring_contents)
qed

section \<open>Sequences of operations and the gauges\<close>

datatype 'x gauge_op = GPush 'x "64 word" | GPop | GResync

fun gauge_run :: "'a QueueInst \<Rightarrow> 'a gauge_op list \<Rightarrow> 'a QueueInst option" where
  "gauge_run q [] = Some q"
| "gauge_run q (GPush x sz # ops) = (case inst_push q x sz of None \<Rightarrow> None | Some (q', _) \<Rightarrow> gauge_run q' ops)"
| "gauge_run q (GPop # ops) = (case inst_pop q of None \<Rightarrow> None | Some (q', _) \<Rightarrow> gauge_run q' ops)"
| "gauge_run q (GResync # ops) = gauge_run (ResyncDepthMetric q) ops"

fun gauge_pushes :: "'x gauge_op list \<Rightarrow> nat" where
  "gauge_pushes [] = 0"
| "gauge_pushes (GPush _ _ # ops) = Suc (gauge_pushes ops)"
| "gauge_pushes (_ # ops) = gauge_pushes ops"

fun gauge_bytes :: "'x gauge_op list \<Rightarrow> nat" where
  "gauge_bytes [] = 0"
| "gauge_bytes (GPush _ sz # ops) = unat sz + gauge_bytes ops"
| "gauge_bytes (_ # ops) = gauge_bytes ops"

abbreviation ring_bytes :: "'a QueueInst \<Rightarrow> nat" where
  "ring_bytes q \<equiv> sum_list (map (unat \<circ> snd) (ring_contents q))"

lemma inst_refused_metrics:
  "inst_push q x sz = Some (q', Inl e) \<Longrightarrow> Depth (Metrics q') = Depth (Metrics q) \<and> Bytes (Metrics q') = Bytes (Metrics q)"
  "inst_pop q = Some (q', Empty) \<Longrightarrow> Depth (Metrics q') = Depth (Metrics q) \<and> Bytes (Metrics q') = Bytes (Metrics q)"
  by (auto simp: inst_push_def inst_pop_def Let_def split: if_splits)

lemma resync_depth:
  assumes "ring_inv q"
  shows "unat (Depth (Metrics (ResyncDepthMetric q))) = length (ring_contents q)"
proof -
  have "hpos q \<le> tpos q" using assms by (simp add: ring_inv_def)
  then show ?thesis by (simp add: ResyncDepthMetric_def unat_sub word_le_nat_alt)
qed

lemma resync_frame: "ring_inv (ResyncDepthMetric q) = ring_inv q" "ring_contents (ResyncDepthMetric q) = ring_contents q"
    "ring_budget (ResyncDepthMetric q) = ring_budget q" "Bytes (Metrics (ResyncDepthMetric q)) = Bytes (Metrics q)"
  by (simp_all add: ResyncDepthMetric_def ring_inv_def ring_contents_def ring_budget_def slot_def)

lemma gauge_push:
  assumes inv: "ring_inv q" and ok: "gauges_ok q" and b: "0 < ring_budget q" and bytes: "ring_bytes q + unat sz < 2 ^ 64"
  shows "\<exists>q' r. inst_push q x sz = Some (q', r) \<and> ring_inv q' \<and> gauges_ok q' \<and> ring_budget q \<le> Suc (ring_budget q') \<and>
    ring_bytes q' \<le> ring_bytes q + unat sz"
proof (cases "tpos q < hpos q + length (buf q)")
  case True
  have fit: "Suc (tpos q) + length (buf q) < 2 ^ 64" using b by (simp add: ring_budget_def)
  from inst_push_room [OF inv True fit, of x sz] obtain q' where
    q': "inst_push q x sz = Some (q', Inr ())" "ring_inv q'" "ring_contents q' = ring_contents q @ [(x, sz)]"
      "length (buf q') = length (buf q)" "tpos q' = Suc (tpos q)" by auto
  have "length (ring_contents q) + 1 < 2 ^ 64" using fit by simp
  then have "gauges_ok q'" by (rule gauges_push [OF inv ok q'(1,3) _ bytes])
  then show ?thesis using q' by (simp add: ring_budget_def)
next
  case False
  then have "tpos q = hpos q + length (buf q)" using inv by (simp add: ring_inv_def)
  from inst_push_full [OF inv this, of x sz] obtain q' where
    q': "inst_push q x sz = Some (q', Inl (QueueFull (Size q)))" "ring_inv q'" "ring_contents q' = ring_contents q"
      "length (buf q') = length (buf q)" "tpos q' = tpos q" by auto
  then have "gauges_ok q'" using ok inst_refused_metrics(1) [OF q'(1)] by (simp only: gauges_ok_def)
  then show ?thesis using q' by (simp add: ring_budget_def)
qed

lemma gauge_pop:
  assumes inv: "ring_inv q" and ok: "gauges_ok q"
  shows "\<exists>q' r. inst_pop q = Some (q', r) \<and> ring_inv q' \<and> gauges_ok q' \<and> ring_budget q' = ring_budget q \<and> ring_bytes q' \<le> ring_bytes q"
proof (cases "hpos q < tpos q")
  case True
  from inst_pop_some [OF inv True] obtain q' where
    q': "inst_pop q = Some (q', Popped (data (slot q (hpos q))))" "ring_inv q'" "ring_contents q' = tl (ring_contents q)"
      "length (buf q') = length (buf q)" "tpos q' = tpos q" by auto
  have "gauges_ok q'" by (rule gauges_pop [OF inv ok q'(1,3) True])
  moreover have "ring_bytes q' \<le> ring_bytes q" unfolding q'(3) by (cases "ring_contents q") auto
  ultimately show ?thesis using q' by (simp add: ring_budget_def)
next
  case False
  then have "hpos q = tpos q" using inv by (simp add: ring_inv_def)
  from inst_pop_none [OF inv this] obtain q' where
    q': "inst_pop q = Some (q', Empty)" "ring_inv q'" "ring_contents q' = []" "length (buf q') = length (buf q)" "tpos q' = tpos q"
    by auto
  moreover have "ring_contents q = []" using \<open>hpos q = tpos q\<close> by (simp add: ring_contents_def)
  ultimately have "gauges_ok q'" using ok inst_refused_metrics(2) [OF q'(1)] by (simp only: gauges_ok_def)
  then show ?thesis using q' by (simp add: ring_budget_def)
qed

lemma gauge_run_exact:
  assumes "ring_inv q" and "gauges_ok q" and "gauge_pushes ops \<le> ring_budget q" and "ring_bytes q + gauge_bytes ops < 2 ^ 64"
  shows "\<exists>q'. gauge_run q ops = Some q' \<and> gauges_ok q'"
  using assms
proof (induction q ops rule: gauge_run.induct)
  case (2 q x sz ops)
  then have "0 < ring_budget q" "ring_bytes q + unat sz < 2 ^ 64"
    unfolding gauge_pushes.simps gauge_bytes.simps by linarith+
  from gauge_push [OF "2.prems"(1,2) this, of x] obtain q' r where
    q': "inst_push q x sz = Some (q', r)" "ring_inv q'" "gauges_ok q'" "ring_budget q \<le> Suc (ring_budget q')"
      "ring_bytes q' \<le> ring_bytes q + unat sz" by blast
  then have "gauge_pushes ops \<le> ring_budget q'" "ring_bytes q' + gauge_bytes ops < 2 ^ 64"
    using "2.prems"(3,4) unfolding gauge_pushes.simps gauge_bytes.simps by linarith+
  from "2.IH" [OF q'(1) refl q'(2,3) this] q'(1) show ?case by simp
next
  case (3 q ops)
  from gauge_pop [OF "3.prems"(1,2)] obtain q' r where
    q': "inst_pop q = Some (q', r)" "ring_inv q'" "gauges_ok q'" "ring_budget q' = ring_budget q" "ring_bytes q' \<le> ring_bytes q" by blast
  then have "gauge_pushes ops \<le> ring_budget q'" "ring_bytes q' + gauge_bytes ops < 2 ^ 64"
    using "3.prems"(3,4) unfolding gauge_pushes.simps gauge_bytes.simps by linarith+
  from "3.IH" [OF q'(1) refl q'(2,3) this] q'(1) show ?case by simp
next
  case (4 q ops)
  then show ?case using resync_depth [of q] by (simp add: gauges_ok_def resync_frame)
qed simp

section \<open>Powers of two\<close>

text \<open>A smeared number has a bit wherever the original has one within a window above.\<close>

definition smeared :: "nat \<Rightarrow> int \<Rightarrow> int \<Rightarrow> bool" where
  "smeared w s y \<longleftrightarrow> (\<forall>n. bit y n \<longleftrightarrow> (\<exists>j<w. bit s (n + j)))"

lemma smeared_start: "smeared 1 s s"
  by (simp add: smeared_def)

lemma smeared_double:
  assumes "smeared w s y"
  shows "smeared (w + w) s (y OR drop_bit w y)"
  unfolding smeared_def
proof
  fix n
  have "bit (y OR drop_bit w y) n \<longleftrightarrow> (\<exists>j<w. bit s (n + j)) \<or> (\<exists>j<w. bit s (w + n + j))"
    using assms by (simp add: smeared_def bit_or_iff bit_drop_bit_eq)
  also have "\<dots> \<longleftrightarrow> (\<exists>j<w + w. bit s (n + j))"
  proof
    assume "(\<exists>j<w. bit s (n + j)) \<or> (\<exists>j<w. bit s (w + n + j))"
    then show "\<exists>j<w + w. bit s (n + j)"
      by (metis (no_types, lifting) add.assoc add.commute add_less_mono1 trans_less_add1)
  next
    assume "\<exists>j<w + w. bit s (n + j)"
    then obtain j where j: "j < w + w" "bit s (n + j)" by blast
    show "(\<exists>j<w. bit s (n + j)) \<or> (\<exists>j<w. bit s (w + n + j))"
    proof (cases "j < w")
      case False
      then have "j - w < w" "n + j = w + n + (j - w)" using j by auto
      then show ?thesis using j by metis
    qed (use j in blast)
  qed
  finally show "bit (y OR drop_bit w y) n \<longleftrightarrow> (\<exists>j<w + w. bit s (n + j))" .
qed

lemma bits_of_range:
  fixes s :: int
  assumes "2 ^ k \<le> s" and "s < 2 ^ Suc k"
  shows "bit s k" and "k < j \<Longrightarrow> \<not> bit s j"
proof -
  have "s div 2 ^ k = 1" using assms by (intro int_div_pos_eq [where r = "s - 2 ^ k"]) auto
  then show "bit s k" by (simp add: bit_iff_odd)
  show "\<not> bit s j" if "k < j"
  proof -
    have "(2::int) ^ Suc k \<le> 2 ^ j" using that by (intro power_increasing) auto
    moreover have "0 \<le> s" using assms(1) by (meson order.trans zero_le_numeral zero_le_power)
    ultimately have "s div 2 ^ j = 0" using assms(2) by (intro div_pos_pos_trivial) auto
    then show ?thesis by (simp add: bit_iff_odd)
  qed
qed

lemma smeared_mask:
  assumes "2 ^ k \<le> s" and "s < 2 ^ Suc k" and "k < 64" and "smeared 64 s y"
  shows "y = mask (Suc k)"
proof (rule bit_eqI)
  fix n
  have "bit y n \<longleftrightarrow> (\<exists>j<64. bit s (n + j))" using assms(4) by (simp add: smeared_def)
  also have "\<dots> \<longleftrightarrow> n \<le> k"
  proof
    assume "\<exists>j<64. bit s (n + j)"
    then obtain j where "bit s (n + j)" by blast
    then have "\<not> k < n + j" using bits_of_range(2) [OF assms(1,2)] by blast
    then show "n \<le> k" by simp
  next
    assume "n \<le> k"
    then show "\<exists>j<64. bit s (n + j)"
      using bits_of_range(1) [OF assms(1,2)] assms(3) by (intro exI [of _ "k - n"]) auto
  qed
  finally show "bit y n \<longleftrightarrow> bit (mask (Suc k) :: int) n" by (auto simp: bit_mask_iff)
qed

lemma pow2_less: "(2::int) ^ a < 2 ^ b \<Longrightarrow> a < b"
  by simp

lemma int64_pow2: "k \<le> 62 \<Longrightarrow> signed_take_bit 63 ((2::int) ^ k) = 2 ^ k"
proof (intro signed_take_bit_int_eq_self)
  assume "k \<le> 62"
  then show "(2::int) ^ k < 2 ^ 63" by (intro power_strict_increasing) auto
  have "- (2 ^ 63) \<le> (0::int)" by simp
  also have "(0::int) \<le> 2 ^ k" by simp
  finally show "- (2 ^ 63) \<le> (2::int) ^ k" .
qed

lemma nextPowerOfTwo_range:
  assumes "2 ^ k < n" and "n \<le> 2 ^ Suc k" and "Suc k \<le> 62"
  shows "nextPowerOfTwo n = 2 ^ Suc k"
proof -
  let ?s = "n - 1"
  define s1 where "s1 = ?s OR drop_bit 1 ?s"
  define s2 where "s2 = s1 OR drop_bit 2 s1"
  define s3 where "s3 = s2 OR drop_bit 4 s2"
  define s4 where "s4 = s3 OR drop_bit 8 s3"
  define s5 where "s5 = s4 OR drop_bit 16 s4"
  define s6 where "s6 = s5 OR drop_bit 32 s5"
  have "smeared 2 ?s s1" using smeared_double [OF smeared_start, of ?s] by (simp add: s1_def numeral_2_eq_2)
  from smeared_double [OF this] have "smeared 4 ?s s2" by (simp add: s2_def)
  from smeared_double [OF this] have "smeared 8 ?s s3" by (simp add: s3_def)
  from smeared_double [OF this] have "smeared 16 ?s s4" by (simp add: s4_def)
  from smeared_double [OF this] have "smeared 32 ?s s5" by (simp add: s5_def)
  from smeared_double [OF this] have "smeared 64 ?s s6" by (simp add: s6_def)
  then have "s6 = mask (Suc k)" using assms by (intro smeared_mask) auto
  then have s: "s6 + 1 = 2 ^ Suc k" by (simp add: mask_eq_exp_minus_1)
  have "int64 (s6 + 1) = 2 ^ Suc k"
    unfolding s int64_def by (rule int64_pow2 [OF assms(3)])
  moreover have "\<not> n \<le> 1" using assms(1) one_le_power [of "2::int" k] by linarith
  ultimately show ?thesis
    unfolding nextPowerOfTwo_def Let_def s6_def s5_def s4_def s3_def s2_def s1_def by (simp only: if_False)
qed

lemma nextPowerOfTwo_least:
  assumes "1 \<le> n" and "n \<le> 2 ^ 62"
  shows "\<exists>k. nextPowerOfTwo n = 2 ^ k \<and> n \<le> 2 ^ k \<and> (\<forall>j. n \<le> 2 ^ j \<longrightarrow> k \<le> j)"
proof (cases "n = 1")
  case True
  then show ?thesis by (intro exI [of _ 0]) (simp add: nextPowerOfTwo_def)
next
  case False
  with assms(1) have "2 \<le> nat n" by linarith
  then obtain k where k: "2 ^ k < nat n" "nat n \<le> 2 ^ Suc k"
    using ex_power_ivl2 [of 2 "nat n"] by auto
  then have ki: "2 ^ k < n" "n \<le> 2 ^ Suc k"
    using assms(1) by (auto simp: zless_nat_eq_int_zless nat_le_iff simp del: power_Suc)
  have "(2::int) ^ k < 2 ^ 62" using ki(1) assms(2) by linarith
  then have "Suc k \<le> 62" by (intro Suc_leI pow2_less)
  with nextPowerOfTwo_range [OF ki] have "nextPowerOfTwo n = 2 ^ Suc k" by simp
  moreover have "Suc k \<le> j" if "n \<le> 2 ^ j" for j
  proof -
    have "(2::int) ^ k < 2 ^ j" using ki(1) that by linarith
    then show ?thesis by (intro Suc_leI pow2_less)
  qed
  ultimately show ?thesis using ki by blast
qed

lemma nextPowerOfTwo_double: "k < 62 \<Longrightarrow> nextPowerOfTwo (2 ^ k + 1) = 2 ^ Suc k"
  by (intro nextPowerOfTwo_range) auto

lemma prevPowerOfTwo_half:
  assumes "0 < k" and "k \<le> 62" shows "prevPowerOfTwo (2 ^ k) = 2 ^ (k - 1)"
proof -
  obtain j where k: "k = Suc j" using assms(1) by (cases k) auto
  have "nextPowerOfTwo (2 ^ k) = 2 ^ k"
    unfolding k using assms(2) k by (intro nextPowerOfTwo_range) auto
  then show ?thesis by (simp add: prevPowerOfTwo_def k drop_bit_eq_div)
qed

text \<open>Scaling doubles or halves the capacity of the write instance, or leaves it.\<close>

lemma mutateSize_Size:
  assumes "ActiveWrite c < length (insts c)" and "k \<le> 62"
  shows "Size (insts (fst (mutateSize zero c (of_int (2 ^ k)))) ! ActiveWrite (fst (mutateSize zero c (of_int (2 ^ k)))))
    \<in> {Size (insts c ! ActiveWrite c), 2 ^ k}"
proof -
  have "sint (of_int (2 ^ k) :: 64 word) = 2 ^ k"
    using int64_pow2 [OF assms(2)] by (simp only: signed_of_int) simp
  then show ?thesis
    using assms(1) by (auto simp: mutateSize_def newQueueInst_def Let_def nth_append split: sum.splits if_splits)
qed

lemma ScaleCapacity_Size:
  assumes "ActiveWrite c < length (insts c)" and "Size (insts c ! ActiveWrite c) = 2 ^ k" and "0 < k" and "k < 62"
    and "2 ^ a \<le> (2::int) ^ k" "(2::int) ^ k \<le> 2 ^ b" and "minimumSize c = 2 ^ a" "maximumSize c = 2 ^ b"
  shows "let c' = ScaleCapacity zero mem c; s = Size (insts c' ! ActiveWrite c') in 2 ^ a \<le> s \<and> s \<le> 2 ^ b"
proof -
  let ?c = "insts c ! ActiveWrite c"
  consider (same) "ScaleCapacity zero mem c = c"
    | (up) "(2::int) ^ k < 2 ^ b" "ScaleCapacity zero mem c = fst (mutateSize zero c (of_int (2 ^ Suc k)))"
    | (down) "(2::int) ^ a < 2 ^ k" "ScaleCapacity zero mem c = fst (mutateSize zero c (of_int (2 ^ (k - 1))))"
    unfolding ScaleCapacity_def Let_def assms(2,7,8) nextPowerOfTwo_double [OF assms(4)]
      prevPowerOfTwo_half [OF assms(3) less_imp_le [OF assms(4)]]
    using assms(5,6) by (smt (verit, ccfv_threshold))
  then show ?thesis
  proof cases
    case same
    then show ?thesis using assms by simp
  next
    case up
    then have "Suc k \<le> b" by (intro Suc_leI pow2_less)
    then have "(2::int) ^ Suc k \<le> 2 ^ b" by (intro power_increasing) auto
    moreover have "(2::int) ^ k \<le> 2 ^ Suc k" by simp
    ultimately have "2 ^ a \<le> (2::int) ^ Suc k" "(2::int) ^ Suc k \<le> 2 ^ b" using assms(5) by linarith+
    then show ?thesis
      using mutateSize_Size [OF assms(1), of "Suc k" zero] up(2) assms(2,4,5,6) by (auto simp: Let_def)
  next
    case down
    then have "a \<le> k - 1" using pow2_less [of a k] by simp
    then have "(2::int) ^ a \<le> 2 ^ (k - 1)" by (intro power_increasing) auto
    moreover have "(2::int) ^ (k - 1) \<le> 2 ^ k" by (intro power_increasing) auto
    ultimately have "2 ^ a \<le> (2::int) ^ (k - 1)" "(2::int) ^ (k - 1) \<le> 2 ^ b" using assms(6) by linarith+
    then show ?thesis
      using mutateSize_Size [OF assms(1), of "k - 1" zero, OF order.trans [OF diff_le_self less_imp_le [OF assms(4)]]]
        down(2) assms(2,5,6) by (auto simp: Let_def)
  qed
qed

section \<open>The trend of the depth\<close>

lemma trend_loop_started:
  assumes "t \<noteq> 0"
  shows "trend_loop t 1 l = (t', n) \<and> 3 \<le> n \<longleftrightarrow>
    t' = t \<and> n = 3 \<and> (\<exists>c b a rest. l = c # b # a # rest \<and> sgn (c - b) = t \<and> sgn (b - a) = t)"
proof (cases "(t, 1 :: nat, l)" rule: trend_loop.cases)
  case (1 tr ct c b rest)
  show ?thesis
  proof (cases rest)
    case (Cons a rest')
    then show ?thesis
      using assms 1 by (cases rest') (auto simp: Let_def numeral_eq_Suc)
  qed (use assms 1 in \<open>auto simp: Let_def\<close>)
qed (use assms in \<open>auto simp: Let_def\<close>)

text \<open>
  Read from the newest sample \<open>x\<close> backwards: some repetitions of it, then three strict steps in the
  direction \<open>t\<close>.
\<close>

definition steady :: "int \<Rightarrow> int \<Rightarrow> int list \<Rightarrow> bool" where
  "steady t x l \<longleftrightarrow> t \<noteq> 0 \<and> (\<exists>m c b a rest. l = replicate m x @ c # b # a # rest \<and>
     sgn (x - c) = t \<and> sgn (c - b) = t \<and> sgn (b - a) = t)"

lemma steady_repeat: "steady t x (x # l) \<longleftrightarrow> steady t x l"
proof
  assume "steady t x (x # l)"
  then obtain m c b a rest where e: "x # l = replicate m x @ c # b # a # rest" "sgn (x - c) = t"
    "sgn (c - b) = t" "sgn (b - a) = t" "t \<noteq> 0" by (auto simp: steady_def)
  then obtain m' where "m = Suc m'" by (cases m) auto
  with e have "l = replicate m' x @ c # b # a # rest" by simp
  with e show "steady t x l" unfolding steady_def by blast
next
  assume "steady t x l"
  then obtain m c b a rest where e: "l = replicate m x @ c # b # a # rest" "sgn (x - c) = t"
    "sgn (c - b) = t" "sgn (b - a) = t" "t \<noteq> 0" by (auto simp: steady_def)
  then have "x # l = replicate (Suc m) x @ c # b # a # rest" by simp
  with e show "steady t x (x # l)" unfolding steady_def by blast
qed

lemma steady_step:
  assumes "x \<noteq> y"
  shows "steady t x (y # l) \<longleftrightarrow> t \<noteq> 0 \<and> sgn (x - y) = t \<and>
    (\<exists>b a rest. l = b # a # rest \<and> sgn (y - b) = t \<and> sgn (b - a) = t)"
proof
  assume "steady t x (y # l)"
  then obtain m c b a rest where e: "y # l = replicate m x @ c # b # a # rest" "sgn (x - c) = t"
    "sgn (c - b) = t" "sgn (b - a) = t" "t \<noteq> 0" by (auto simp: steady_def)
  then have "m = 0" using assms by (cases m) auto
  with e show "t \<noteq> 0 \<and> sgn (x - y) = t \<and> (\<exists>b a rest. l = b # a # rest \<and> sgn (y - b) = t \<and> sgn (b - a) = t)"
    by auto
next
  assume "t \<noteq> 0 \<and> sgn (x - y) = t \<and> (\<exists>b a rest. l = b # a # rest \<and> sgn (y - b) = t \<and> sgn (b - a) = t)"
  then obtain b a rest where "y # l = replicate 0 x @ y # b # a # rest" "sgn (x - y) = t"
    "sgn (y - b) = t" "sgn (b - a) = t" "t \<noteq> 0" by auto
  then show "steady t x (y # l)" unfolding steady_def by blast
qed

lemma trend_loop_spec:
  "trend_loop 0 1 (x # l) = (t, n) \<and> 3 \<le> n \<longleftrightarrow> n = 3 \<and> steady t x l"
proof (induction l)
  case (Cons y l)
  show ?case
  proof (cases "x = y")
    case True
    then show ?thesis using Cons by (simp add: steady_repeat Let_def)
  next
    case False
    then have d: "sgn (x - y) \<noteq> 0" by (simp add: sgn_if)
    then have "trend_loop 0 1 (x # y # l) = trend_loop (sgn (x - y)) 1 (y # l)" by (simp add: Let_def)
    with trend_loop_started [OF d, of "y # l" t n] d show ?thesis
      by (auto simp: steady_step [OF False])
  qed
qed (simp add: steady_def)

lemma Trend_spec:
  assumes "ds \<noteq> []"
  shows "fst (Trend ds n) \<longleftrightarrow> 40 * n < 100 * int (last ds) \<and> steady 1 (int (last ds)) (rev (map int (butlast ds)))"
    and "snd (Trend ds n) \<longleftrightarrow> 100 * int (last ds) < 20 * n \<and> steady (-1) (int (last ds)) (rev (map int (butlast ds)))"
proof -
  let ?x = "int (last ds)" and ?l = "rev (map int (butlast ds))"
  have r: "rev (map int ds) = ?x # ?l"
    using assms by (cases ds rule: rev_cases) simp_all
  obtain t k where tk: "trend_loop 0 1 (?x # ?l) = (t, k)" by (cases "trend_loop 0 1 (?x # ?l)")
  have spec: "3 \<le> k \<longleftrightarrow> k = 3 \<and> steady t ?x ?l" using trend_loop_spec [of ?x ?l t k] tk by simp
  have short: "\<not> steady t' ?x ?l" if "length ds < 3" for t'
  proof
    assume "steady t' ?x ?l"
    then obtain m c b a rest where "?l = replicate m ?x @ c # b # a # rest" unfolding steady_def by blast
    from arg_cong [OF this, of length] that show False by simp
  qed
  have uniq: "steady 1 ?x ?l \<Longrightarrow> t = 1 \<and> k = 3" "steady (-1) ?x ?l \<Longrightarrow> t = -1 \<and> k = 3"
    using trend_loop_spec [of ?x ?l 1 3] trend_loop_spec [of ?x ?l "-1" 3] tk by auto
  have st: "steady t ?x ?l \<Longrightarrow> t = 1 \<or> t = -1" by (auto simp: steady_def sgn_if split: if_splits)
  show "fst (Trend ds n) \<longleftrightarrow> 40 * n < 100 * ?x \<and> steady 1 ?x ?l"
    using spec short uniq st tk r by (auto simp: Trend_def Let_def)
  show "snd (Trend ds n) \<longleftrightarrow> 100 * ?x < 20 * n \<and> steady (-1) ?x ?l"
    using spec short uniq st tk r by (auto simp: Trend_def Let_def)
qed

section \<open>Properties\<close>

definition example_ring :: "nat QueueInst" where
  "example_ring = projr (newQueueInst 0 [] 2)"

lemma example_ring_new: "newQueueInst 0 [] 2 = Inr example_ring"
  by (simp add: example_ring_def newQueueInst_def)

lemmas example_ring_ok = newQueueInst_eq_Inr [OF example_ring_new, simplified]

definition example_queue :: "nat Queue" where
  "example_queue = \<lparr> insts = [example_ring], ActiveWrite = 0, ActiveRead = 0, migrateCh = False,
     minimumSize = 2, maximumSize = 8 \<rparr>"

lemma example_queue_inv: "queue_inv example_queue"
  using example_ring_ok by (simp add: queue_inv_def example_queue_def)

text \<open>
  C15. The ring buffer implements a bounded FIFO: any sequence of pushes and pops, as long as the
  64-bit positions do not wrap, returns (never spins) with the outputs and the final contents of the
  list specification, a push failing exactly when the ring is full and a pop finding nothing exactly
  when it is empty.
\<close>

theorem ring_implements_fifo:
  assumes "ring_inv q" and "length ops \<le> ring_budget q"
  shows "\<exists>q' outs. ring.run sz q ops = Some (q', outs) \<and> ring_inv q' \<and> length (buf q') = length (buf q) \<and>
    spec_run (length (buf q)) (map fst (ring_contents q)) ops = (map fst (ring_contents q'), outs)"
  using ring.run_refines [OF assms] by blast

theorem ring_implements_fifo_witness:
  "\<exists>q' outs. ring.run 8 example_ring [OpPush 5, OpPush 6, OpPush 7, OpPop] = Some (q', outs) \<and>
    outs = [OutPushed True, OutPushed True, OutPushed False, OutPopped (Some 5)]"
proof -
  have "length [OpPush (5::nat), OpPush 6, OpPush 7, OpPop] \<le> ring_budget example_ring"
    using example_ring_ok(3) by (simp add: ring_budget_def example_ring_def newQueueInst_def)
  from ring_implements_fifo [OF example_ring_ok(1) this, of 8] example_ring_ok(2,3)
  show ?thesis by auto
qed




lemma example_pushed:
  obtains c where "Push example_queue 5 8 = Some (c, Inr ())" and "queue_inv c" and "queue_contents c = [5]"
    and "ActiveRead c = ActiveWrite c" and "ActiveWrite c = 0"
proof -
  have "tpos example_ring = 0" by (simp add: example_ring_def newQueueInst_def)
  then show thesis
    using Push_appends [OF example_queue_inv, of 5 8] example_ring_ok that
    by (auto simp: example_queue_def queue_contents_def ring_budget_def)
qed


text \<open>
  Resizing an empty queue strands its consumers: no pop sends the migration signal, so a value
  pushed afterwards is in the queue and yet every pop, whatever wakes it short of a cancelled
  context, stays blocked.
\<close>

theorem resize_of_empty_queue_strands:
  assumes "queue_inv c" and "ActiveRead c = ActiveWrite c" and "queue_contents c = []"
    and "newQueueInst zero (Namespace (insts c ! ActiveWrite c)) n = Inr q" and "unat n < 2 ^ 62"
  shows "\<exists>c'. Push (fst (mutateSize zero c n)) x sz = Some (c', Inr ()) \<and> queue_contents c' = [x] \<and>
    (\<exists>c''. Pop False sel c' = Some (c'', PopBlocked))"
proof -
  let ?c = "fst (mutateSize zero c n)" and ?w = "insts c ! ActiveWrite c"
  note nq = newQueueInst_eq_Inr [OF assms(4,5)]
  have m: "?c = c\<lparr>migrateCh := False, insts := (insts c)[ActiveWrite c := ?w\<lparr>draining := True\<rparr>] @ [q],
      ActiveWrite := length (insts c)\<rparr>"
    using assms(2,4) by (simp add: mutateSize_def Let_def)
  have inv: "queue_inv ?c" "queue_contents ?c = []"
    using mutateSize_keeps [OF assms(1,5)] assms(3) by auto
  have lt: "ActiveWrite c < length (insts c)" using assms(1) by (simp add: queue_inv_def)
  have w: "insts ?c ! ActiveWrite ?c = q" by (simp add: m nth_append)
  have diff: "ActiveRead ?c \<noteq> ActiveWrite ?c" using assms(2) lt by (simp add: m)
  have e: "ring_contents (insts ?c ! ActiveRead ?c) = []" "\<not> migrateCh ?c"
    using inv(2) by (auto simp: queue_contents_def m)
  have q: "length (ring_contents q) < length (buf q)" "0 < ring_budget q"
    using nq(1,2,3) ring_index(2) [OF nq(1)] assms(5) assms(4)
    by (auto simp: ring_budget_def newQueueInst_def split: if_splits)
  from Push_appends [OF inv(1), of x sz] w q obtain c' where c': "Push ?c x sz = Some (c', Inr ())" "queue_inv c'"
    "queue_contents c' = [x]" "ActiveRead c' = ActiveRead ?c" "ActiveWrite c' = ActiveWrite ?c"
    "\<not> migrateCh c'" "insts c' ! ActiveRead ?c = insts ?c ! ActiveRead ?c"
    using inv(2) e(2) diff by auto
  with Pop_stuck [of c' sel] diff e show ?thesis by auto
qed

theorem resize_of_empty_queue_strands_witness:
  "\<exists>c'. Push (fst (mutateSize 0 example_queue 4)) 5 8 = Some (c', Inr ()) \<and> queue_contents c' = [5] \<and>
    (\<exists>c''. Pop False [NotEmptySignal, MigrateSignal] c' = Some (c'', PopBlocked))"
proof -
  have "newQueueInst 0 (Namespace (insts example_queue ! ActiveWrite example_queue)) 4 =
      Inr (projr (newQueueInst 0 [NSQueue] 4))"
    by (simp add: example_queue_def example_ring_def newQueueInst_def)
  from resize_of_empty_queue_strands [OF example_queue_inv _ _ this] example_ring_ok(2)
  show ?thesis by (simp add: example_queue_def queue_contents_def)
qed

text \<open>
  \<^verbatim>\<open>nextPowerOfTwo\<close> computes the least power of two that is not below its argument, for arguments
  up to \<open>2 ^ 62\<close>.
\<close>

theorem next_power_of_two_least:
  assumes "1 \<le> n" and "n \<le> 2 ^ 62"
  shows "\<exists>k. nextPowerOfTwo n = 2 ^ k \<and> n \<le> 2 ^ k \<and> (\<forall>j. n \<le> 2 ^ j \<longrightarrow> k \<le> j)"
  using assms by (rule nextPowerOfTwo_least)

theorem next_power_of_two_least_witness:
  "\<exists>k. nextPowerOfTwo 1000 = 2 ^ k \<and> 1000 \<le> (2::int) ^ k \<and> (\<forall>j. 1000 \<le> (2::int) ^ j \<longrightarrow> k \<le> j)"
  by (rule next_power_of_two_least) simp_all

text \<open>
  Automatic scaling keeps the capacity of the write instance between the configured bounds, when
  these are powers of two.
\<close>

theorem scaling_stays_within_bounds:
  assumes "ActiveWrite c < length (insts c)" and "Size (insts c ! ActiveWrite c) = 2 ^ k" and "0 < k" and "k < 62"
    and "2 ^ a \<le> (2::int) ^ k" and "(2::int) ^ k \<le> 2 ^ b" and "minimumSize c = 2 ^ a" and "maximumSize c = 2 ^ b"
  shows "let c' = ScaleCapacity zero mem c; s = Size (insts c' ! ActiveWrite c') in 2 ^ a \<le> s \<and> s \<le> 2 ^ b"
  using assms by (rule ScaleCapacity_Size)

theorem scaling_stays_within_bounds_witness:
  "let c' = ScaleCapacity 0 0 (example_queue\<lparr>minimumSize := 2 ^ 0\<rparr>); s = Size (insts c' ! ActiveWrite c')
   in 2 ^ 0 \<le> s \<and> s \<le> 2 ^ 3"
  by (rule scaling_stays_within_bounds [where k = 1])
    (simp_all add: example_queue_def example_ring_def newQueueInst_def)

text \<open>
  Scaling of the readers is suggested exactly when the newest depth crosses its watermark (above
  40% up, below 20% down) and the samples, after repetitions of the newest, made three strict steps
  in that direction.
\<close>

theorem trend_suggests_on_three_steps:
  assumes "ds \<noteq> []"
  shows "(fst (Trend ds n) \<longleftrightarrow> 40 * n < 100 * int (last ds) \<and> steady 1 (int (last ds)) (rev (map int (butlast ds)))) \<and>
    (snd (Trend ds n) \<longleftrightarrow> 100 * int (last ds) < 20 * n \<and> steady (-1) (int (last ds)) (rev (map int (butlast ds))))"
  using Trend_spec [OF assms] by blast

theorem trend_suggests_on_three_steps_witness:
  "fst (Trend [1, 2, 3, 5, 5] 10) \<longleftrightarrow> 40 * 10 < 100 * int 5 \<and> steady 1 5 [5, 3, 2, 1]"
  using trend_suggests_on_three_steps [of "[1, 2, 3, 5, 5]" 10] by simp

end
