(* ===== verification/MPMC_Concurrent.thy ===== *)
theory MPMC_Concurrent
  imports MPMC_Queue
begin

text \<open>
  The ring buffer of \<^verbatim>\<open>internal/queue/mpmc\<close> under concurrency: any number of producers and consumers,
  each atomic operation of \<^verbatim>\<open>Push\<close> and \<^verbatim>\<open>Pop\<close> one step, interleaved arbitrarily. Positions are
  unbounded (the 64-bit counters do not wrap within the life of a queue). The history variables
  record the values in the order in which producers won the tail and what consumers got at each
  position. Gauges, signals and migration are left to the sequential model.
\<close>

section \<open>States and steps\<close>

text \<open>Where a producer is: before the load of the tail, of the sequence number, and so on.\<close>

datatype 'a prod_pc =
    PIdle
  | PLoadTail 'a
  | PLoadSeq 'a nat
  | PCas 'a nat
  | PWrite 'a nat
  | PPublish 'a nat

datatype 'a cons_pc =
    CIdle
  | CLoadSeq nat
  | CCas nat
  | CRead nat
  | CRelease nat 'a

record 'a ring_state =
  rhead :: nat
  rtail :: nat
  rseq :: "nat \<Rightarrow> nat"
  rdata :: "nat \<Rightarrow> 'a"
  prods :: "nat \<Rightarrow> 'a prod_pc"
  conss :: "nat \<Rightarrow> 'a cons_pc"
  pushed :: "'a list"
  popped :: "nat \<Rightarrow> 'a option"

definition ring_start :: "(nat \<Rightarrow> 'a) \<Rightarrow> 'a ring_state" where
  "ring_start junk = \<lparr> rhead = 0, rtail = 0, rseq = (\<lambda>i. i), rdata = junk, prods = (\<lambda>_. PIdle),
     conss = (\<lambda>_. CIdle), pushed = [], popped = (\<lambda>_. None) \<rparr>"

inductive ring_step :: "nat \<Rightarrow> 'a ring_state \<Rightarrow> 'a ring_state \<Rightarrow> bool" for n where
  push_call: "prods s t = PIdle \<Longrightarrow> ring_step n s (s\<lparr>prods := (prods s)(t := PLoadTail v)\<rparr>)"
| push_load_tail: "prods s t = PLoadTail v \<Longrightarrow> ring_step n s (s\<lparr>prods := (prods s)(t := PLoadSeq v (rtail s))\<rparr>)"
| push_ready: "prods s t = PLoadSeq v pos \<Longrightarrow> rseq s (pos mod n) = pos \<Longrightarrow>
    ring_step n s (s\<lparr>prods := (prods s)(t := PCas v pos)\<rparr>)"
| push_full: "prods s t = PLoadSeq v pos \<Longrightarrow> rseq s (pos mod n) < pos \<Longrightarrow>
    ring_step n s (s\<lparr>prods := (prods s)(t := PIdle)\<rparr>)"
| push_stale: "prods s t = PLoadSeq v pos \<Longrightarrow> rseq s (pos mod n) > pos \<Longrightarrow>
    ring_step n s (s\<lparr>prods := (prods s)(t := PLoadTail v)\<rparr>)"
| push_cas: "prods s t = PCas v pos \<Longrightarrow> rtail s = pos \<Longrightarrow>
    ring_step n s (s\<lparr>rtail := pos + 1, prods := (prods s)(t := PWrite v pos), pushed := pushed s @ [v]\<rparr>)"
| push_cas_fails: "prods s t = PCas v pos \<Longrightarrow> rtail s \<noteq> pos \<Longrightarrow>
    ring_step n s (s\<lparr>prods := (prods s)(t := PLoadTail v)\<rparr>)"
| push_write: "prods s t = PWrite v pos \<Longrightarrow>
    ring_step n s (s\<lparr>rdata := (rdata s)(pos mod n := v), prods := (prods s)(t := PPublish v pos)\<rparr>)"
| push_publish: "prods s t = PPublish v pos \<Longrightarrow>
    ring_step n s (s\<lparr>rseq := (rseq s)(pos mod n := pos + 1), prods := (prods s)(t := PIdle)\<rparr>)"
| pop_load_head: "conss s t = CIdle \<Longrightarrow> ring_step n s (s\<lparr>conss := (conss s)(t := CLoadSeq (rhead s))\<rparr>)"
| pop_ready: "conss s t = CLoadSeq pos \<Longrightarrow> rseq s (pos mod n) = pos + 1 \<Longrightarrow>
    ring_step n s (s\<lparr>conss := (conss s)(t := CCas pos)\<rparr>)"
| pop_not_ready: "conss s t = CLoadSeq pos \<Longrightarrow> rseq s (pos mod n) \<noteq> pos + 1 \<Longrightarrow>
    ring_step n s (s\<lparr>conss := (conss s)(t := CIdle)\<rparr>)"
| pop_cas: "conss s t = CCas pos \<Longrightarrow> rhead s = pos \<Longrightarrow>
    ring_step n s (s\<lparr>rhead := pos + 1, conss := (conss s)(t := CRead pos)\<rparr>)"
| pop_cas_fails: "conss s t = CCas pos \<Longrightarrow> rhead s \<noteq> pos \<Longrightarrow>
    ring_step n s (s\<lparr>conss := (conss s)(t := CIdle)\<rparr>)"
| pop_read: "conss s t = CRead pos \<Longrightarrow>
    ring_step n s (s\<lparr>conss := (conss s)(t := CRelease pos (rdata s (pos mod n)))\<rparr>)"
| pop_release: "conss s t = CRelease pos v \<Longrightarrow>
    ring_step n s (s\<lparr>rseq := (rseq s)(pos mod n := pos + n), conss := (conss s)(t := CIdle),
      popped := (popped s)(pos \<mapsto> v)\<rparr>)"

inductive ring_reachable :: "nat \<Rightarrow> 'a ring_state \<Rightarrow> bool" for n where
  start: "ring_reachable n (ring_start junk)"
| step: "ring_reachable n s \<Longrightarrow> ring_step n s s' \<Longrightarrow> ring_reachable n s'"

inductive_cases ring_stepE: "ring_step n s s'"

section \<open>The invariant\<close>

fun writes :: "'a prod_pc \<Rightarrow> nat \<Rightarrow> bool" where
  "writes (PWrite v p) q = (p = q)"
| "writes (PPublish v p) q = (p = q)"
| "writes _ q = False"

fun reads :: "'a cons_pc \<Rightarrow> nat \<Rightarrow> bool" where
  "reads (CRead p) q = (p = q)"
| "reads (CRelease p v) q = (p = q)"
| "reads _ q = False"

text \<open>What a thread knows about the position it works on.\<close>

fun prod_ok :: "nat \<Rightarrow> 'a ring_state \<Rightarrow> 'a prod_pc \<Rightarrow> bool" where
  "prod_ok n s (PLoadSeq v p) = (p \<le> rtail s)"
| "prod_ok n s (PCas v p) = (p \<le> rtail s \<and> (rtail s = p \<longrightarrow> rseq s (p mod n) = p))"
| "prod_ok n s (PWrite v p) = (rhead s \<le> p \<and> p < rtail s \<and> rseq s (p mod n) = p \<and> pushed s ! p = v)"
| "prod_ok n s (PPublish v p) =
     (rhead s \<le> p \<and> p < rtail s \<and> rseq s (p mod n) = p \<and> pushed s ! p = v \<and> rdata s (p mod n) = v)"
| "prod_ok n s _ = True"

fun cons_ok :: "nat \<Rightarrow> 'a ring_state \<Rightarrow> 'a cons_pc \<Rightarrow> bool" where
  "cons_ok n s (CLoadSeq p) = (p \<le> rhead s)"
| "cons_ok n s (CCas p) = (p \<le> rhead s \<and> (rhead s = p \<longrightarrow> rseq s (p mod n) = p + 1 \<and> p < rtail s))"
| "cons_ok n s (CRead p) =
     (p < rhead s \<and> rtail s \<le> p + n \<and> rseq s (p mod n) = p + 1 \<and> rdata s (p mod n) = pushed s ! p \<and> popped s p = None)"
| "cons_ok n s (CRelease p v) =
     (p < rhead s \<and> rtail s \<le> p + n \<and> rseq s (p mod n) = p + 1 \<and> v = pushed s ! p \<and> popped s p = None)"
| "cons_ok n s CIdle = True"

definition ring_safe :: "nat \<Rightarrow> 'a ring_state \<Rightarrow> bool" where
  "ring_safe n s \<longleftrightarrow>
     rhead s \<le> rtail s \<and> rtail s \<le> rhead s + n \<and> length (pushed s) = rtail s \<and>
     (\<forall>t. prod_ok n s (prods s t)) \<and> (\<forall>t. cons_ok n s (conss s t)) \<and>
     (\<forall>t u p. writes (prods s t) p \<and> writes (prods s u) p \<longrightarrow> t = u) \<and>
     (\<forall>t u p. reads (conss s t) p \<and> reads (conss s u) p \<longrightarrow> t = u) \<and>
     (\<forall>p. rtail s \<le> p \<and> p < rhead s + n \<longrightarrow> rseq s (p mod n) = p \<or> (n \<le> p \<and> (\<exists>t. reads (conss s t) (p - n)))) \<and>
     (\<forall>p. rhead s \<le> p \<and> p < rtail s \<longrightarrow>
        (rseq s (p mod n) = p + 1 \<and> rdata s (p mod n) = pushed s ! p) \<or> (\<exists>t. writes (prods s t) p)) \<and>
     (\<forall>p. p < rhead s \<longrightarrow> popped s p = Some (pushed s ! p) \<or> (\<exists>t. reads (conss s t) p)) \<and>
     (\<forall>p. rhead s \<le> p \<longrightarrow> popped s p = None)"

lemma ring_safe_start: "ring_safe n (ring_start junk)"
  by (auto simp: ring_safe_def ring_start_def)

lemma slot_neq_Suc: "2 \<le> n \<Longrightarrow> Suc p mod n \<noteq> p mod n" for p :: nat
  using mod_window_neq [of p "Suc p" n] by fastforce

text \<open>The invariant depends on the shared variables, on who owns which position, and on the threads.\<close>

lemma ring_safe_cong:
  assumes "ring_safe n s" and "rhead s' = rhead s" "rtail s' = rtail s" "rseq s' = rseq s" "rdata s' = rdata s"
    "pushed s' = pushed s" "popped s' = popped s"
    and w: "\<And>u q. writes (prods s' u) q \<longleftrightarrow> writes (prods s u) q"
    and r: "\<And>u q. reads (conss s' u) q \<longleftrightarrow> reads (conss s u) q"
    and "\<And>u. prod_ok n s' (prods s' u)" and "\<And>u. cons_ok n s' (conss s' u)"
  shows "ring_safe n s'"
  using assms(1,10,11) unfolding ring_safe_def assms(2-7) w r by blast

lemma prod_ok_shared:
  assumes "rhead s' = rhead s" "rtail s' = rtail s" "rseq s' = rseq s" "rdata s' = rdata s" "pushed s' = pushed s"
  shows "prod_ok n s' pc = prod_ok n s pc"
  using assms by (cases pc) auto

lemma cons_ok_shared:
  assumes "rhead s' = rhead s" "rtail s' = rtail s" "rseq s' = rseq s" "rdata s' = rdata s" "pushed s' = pushed s"
    "popped s' = popped s"
  shows "cons_ok n s' pc = cons_ok n s pc"
  using assms by (cases pc) auto

lemma ring_safe_threads:
  "ring_safe n s \<Longrightarrow> prod_ok n s (prods s t)" "ring_safe n s \<Longrightarrow> cons_ok n s (conss s t)"
  by (auto simp: ring_safe_def)

text \<open>A step of one thread that changes nothing but its place and owns the same positions after it.\<close>

lemma ring_safe_prod_local:
  assumes "ring_safe n s" and "\<And>q. writes pc q \<longleftrightarrow> writes (prods s t) q" and "prod_ok n s pc"
  shows "ring_safe n (s\<lparr>prods := (prods s)(t := pc)\<rparr>)"
  by (rule ring_safe_cong [OF assms(1)])
    (use assms ring_safe_threads [OF assms(1)] in
      \<open>auto simp: prod_ok_shared [of "s\<lparr>prods := (prods s)(t := pc)\<rparr>" s] cons_ok_shared [of "s\<lparr>prods := (prods s)(t := pc)\<rparr>" s]\<close>)

lemma ring_safe_cons_local:
  assumes "ring_safe n s" and "\<And>q. reads pc q \<longleftrightarrow> reads (conss s t) q" and "cons_ok n s pc"
  shows "ring_safe n (s\<lparr>conss := (conss s)(t := pc)\<rparr>)"
  by (rule ring_safe_cong [OF assms(1)])
    (use assms ring_safe_threads [OF assms(1)] in
      \<open>auto simp: prod_ok_shared [of "s\<lparr>conss := (conss s)(t := pc)\<rparr>" s] cons_ok_shared [of "s\<lparr>conss := (conss s)(t := pc)\<rparr>" s]\<close>)

lemma ring_safeI:
  assumes "rhead s \<le> rtail s" "rtail s \<le> rhead s + n" "length (pushed s) = rtail s"
    and "\<And>t. prod_ok n s (prods s t)" "\<And>t. cons_ok n s (conss s t)"
    and "\<And>t u p. writes (prods s t) p \<Longrightarrow> writes (prods s u) p \<Longrightarrow> t = u"
    and "\<And>t u p. reads (conss s t) p \<Longrightarrow> reads (conss s u) p \<Longrightarrow> t = u"
    and "\<And>p. rtail s \<le> p \<Longrightarrow> p < rhead s + n \<Longrightarrow>
      rseq s (p mod n) = p \<or> (n \<le> p \<and> (\<exists>t. reads (conss s t) (p - n)))"
    and "\<And>p. rhead s \<le> p \<Longrightarrow> p < rtail s \<Longrightarrow>
      (rseq s (p mod n) = p + 1 \<and> rdata s (p mod n) = pushed s ! p) \<or> (\<exists>t. writes (prods s t) p)"
    and "\<And>p. p < rhead s \<Longrightarrow> popped s p = Some (pushed s ! p) \<or> (\<exists>t. reads (conss s t) p)"
    and "\<And>p. rhead s \<le> p \<Longrightarrow> popped s p = None"
  shows "ring_safe n s"
  using assms unfolding ring_safe_def by blast

lemma ring_safeD:
  assumes "ring_safe n s"
  shows "rhead s \<le> rtail s" "rtail s \<le> rhead s + n" "length (pushed s) = rtail s"
    and "writes (prods s t) p \<Longrightarrow> writes (prods s u) p \<Longrightarrow> t = u"
    and "reads (conss s t) p \<Longrightarrow> reads (conss s u) p \<Longrightarrow> t = u"
    and "rtail s \<le> p \<Longrightarrow> p < rhead s + n \<Longrightarrow>
      rseq s (p mod n) = p \<or> (n \<le> p \<and> (\<exists>t. reads (conss s t) (p - n)))"
    and "rhead s \<le> p \<Longrightarrow> p < rtail s \<Longrightarrow>
      (rseq s (p mod n) = p + 1 \<and> rdata s (p mod n) = pushed s ! p) \<or> (\<exists>t. writes (prods s t) p)"
    and "p < rhead s \<Longrightarrow> popped s p = Some (pushed s ! p) \<or> (\<exists>t. reads (conss s t) p)"
    and "rhead s \<le> p \<Longrightarrow> popped s p = None"
  using assms unfolding ring_safe_def by blast+

lemma writes_ok:
  assumes "ring_safe n s" and "writes (prods s t) p"
  shows "rhead s \<le> p \<and> p < rtail s \<and> rseq s (p mod n) = p"
  using assms(2) ring_safe_threads(1) [OF assms(1), of t] by (cases "prods s t") auto

lemma reads_ok:
  assumes "ring_safe n s" and "reads (conss s t) p"
  shows "p < rhead s \<and> rtail s \<le> p + n \<and> rseq s (p mod n) = p + 1 \<and> popped s p = None"
  using assms(2) ring_safe_threads(2) [OF assms(1), of t] by (cases "conss s t") auto

text \<open>Two positions of one slot: the sequence number tells free from full, so they cannot be confused.\<close>

lemma seq_unique:
  fixes n p q :: nat
  assumes "2 \<le> n" and "p mod n = q mod n"
  shows "p \<noteq> q + 1"
  using slot_neq_Suc [OF assms(1), of q] assms(2) by auto

lemma push_cas_room:
  assumes inv: "ring_safe n s" and n: "2 \<le> n" and pc: "prods s t = PCas v (rtail s)"
  shows "rtail s < rhead s + n" and "rseq s (rtail s mod n) = rtail s"
proof -
  show sq: "rseq s (rtail s mod n) = rtail s"
    using ring_safe_threads(1) [OF inv, of t] pc by simp
  have "rtail s \<noteq> rhead s + n"
  proof
    assume e: "rtail s = rhead s + n"
    then have m: "rtail s mod n = rhead s mod n" by simp
    from ring_safeD(7) [OF inv, of "rhead s"] e n
    consider "rseq s (rhead s mod n) = rhead s + 1" | t' where "writes (prods s t') (rhead s)" by auto
    then show False
    proof cases
      case 1
      with sq m e n show False by simp
    next
      case 2
      with writes_ok [OF inv 2] sq m e n show False by simp
    qed
  qed
  with ring_safeD(2) [OF inv] show "rtail s < rhead s + n" by simp
qed

lemma ring_safe_push_cas:
  assumes inv: "ring_safe n s" and n: "2 \<le> n" and pc: "prods s t = PCas v (rtail s)"
  shows "ring_safe n (s\<lparr>rtail := rtail s + 1, prods := (prods s)(t := PWrite v (rtail s)), pushed := pushed s @ [v]\<rparr>)"
    (is "ring_safe n ?s")
proof (rule ring_safeI)
  note room = push_cas_room [OF inv n pc]
  note D = ring_safeD [OF inv]
  have nt: "\<not> writes (prods s t) q" for q using pc by simp
  show "rhead ?s \<le> rtail ?s" "rtail ?s \<le> rhead ?s + n" "length (pushed ?s) = rtail ?s"
    using D(1,3) room by simp_all
  show "prod_ok n ?s (prods ?s u)" for u
  proof (cases "u = t")
    case True
    then show ?thesis using D(1,3) room by (simp add: nth_append)
  next
    case False
    then show ?thesis
      using ring_safe_threads(1) [OF inv, of u] D(3) by (cases "prods s u") (auto simp: nth_append)
  qed
  show "cons_ok n ?s (conss ?s u)" for u
  proof -
    have "p + n \<noteq> rtail s" if r: "reads (conss s u) p" for p
    proof
      assume e: "p + n = rtail s"
      then have "rtail s mod n = p mod n" by (metis mod_add_self2)
      with reads_ok [OF inv r] room(2) e n show False by simp
    qed
    then show ?thesis
      using ring_safe_threads(2) [OF inv, of u] D(1,3)
      by (cases "conss s u") (auto simp: nth_append le_less)
  qed
  show "a = b" if "writes (prods ?s a) p" "writes (prods ?s b) p" for a b p
  proof -
    have "\<not> writes (prods s u) (rtail s)" for u using writes_ok [OF inv, of u "rtail s"] by auto
    then show ?thesis using that D(4) [of a p b] by (auto split: if_splits)
  qed
  show "a = b" if "reads (conss ?s a) p" "reads (conss ?s b) p" for a b p
    using that D(5) by simp
  show "rseq ?s (p mod n) = p \<or> (n \<le> p \<and> (\<exists>t. reads (conss ?s t) (p - n)))"
    if "rtail ?s \<le> p" "p < rhead ?s + n" for p
    using that D(6) [of p] by simp
  show "(rseq ?s (p mod n) = p + 1 \<and> rdata ?s (p mod n) = pushed ?s ! p) \<or> (\<exists>t. writes (prods ?s t) p)"
    if "rhead ?s \<le> p" "p < rtail ?s" for p
  proof (cases "p = rtail s")
    case True
    then show ?thesis by auto
  next
    case False
    then have "p < rtail s" using that by simp
    with D(7) [of p] that D(3) nt show ?thesis by (auto simp: nth_append) metis+
  qed
  show "popped ?s p = Some (pushed ?s ! p) \<or> (\<exists>t. reads (conss ?s t) p)" if "p < rhead ?s" for p
    using that D(1,3) D(8) [of p] by (auto simp: nth_append)
  show "popped ?s p = None" if "rhead ?s \<le> p" for p
    using that D(9) [of p] by simp
qed

lemma ring_safe_push_write:
  assumes inv: "ring_safe n s" and n: "2 \<le> n" and pc: "prods s t = PWrite v pos"
  shows "ring_safe n (s\<lparr>rdata := (rdata s)(pos mod n := v), prods := (prods s)(t := PPublish v pos)\<rparr>)"
    (is "ring_safe n ?s")
proof (rule ring_safeI)
  note D = ring_safeD [OF inv]
  have own: "rhead s \<le> pos" "pos < rtail s" "rseq s (pos mod n) = pos" "pushed s ! pos = v"
    using ring_safe_threads(1) [OF inv, of t] pc by auto
  have w: "writes (prods ?s u) q \<longleftrightarrow> writes (prods s u) q" for u q using pc by simp
  have full: "rdata ?s (p mod n) = rdata s (p mod n)" if "rseq s (p mod n) = p + 1" for p
    using that own(3) seq_unique [OF n, of pos p] by auto
  show "rhead ?s \<le> rtail ?s" "rtail ?s \<le> rhead ?s + n" "length (pushed ?s) = rtail ?s"
    using D(1-3) by simp_all
  show "prod_ok n ?s (prods ?s u)" for u
  proof (cases "u = t")
    case False
    then have "p mod n \<noteq> pos mod n" if "writes (prods s u) p" for p
      using writes_ok [OF inv that] own(3) D(4) [of u pos t] that pc by auto
    with False show ?thesis
      using ring_safe_threads(1) [OF inv, of u] by (cases "prods s u") auto
  qed (use own in simp)
  show "cons_ok n ?s (conss ?s u)" for u
    using ring_safe_threads(2) [OF inv, of u] full by (cases "conss s u") (auto simp del: fun_upd_apply)
  show "a = b" if "writes (prods ?s a) p" "writes (prods ?s b) p" for a b p
    using that D(4) unfolding w by blast
  show "a = b" if "reads (conss ?s a) p" "reads (conss ?s b) p" for a b p
    using that D(5) by simp
  show "rseq ?s (p mod n) = p \<or> (n \<le> p \<and> (\<exists>t. reads (conss ?s t) (p - n)))"
    if "rtail ?s \<le> p" "p < rhead ?s + n" for p
    using that D(6) [of p] by simp
  show "(rseq ?s (p mod n) = p + 1 \<and> rdata ?s (p mod n) = pushed ?s ! p) \<or> (\<exists>t. writes (prods ?s t) p)"
    if "rhead ?s \<le> p" "p < rtail ?s" for p
    using that D(7) [of p] full [of p] unfolding w by auto
  show "popped ?s p = Some (pushed ?s ! p) \<or> (\<exists>t. reads (conss ?s t) p)" if "p < rhead ?s" for p
    using that D(8) [of p] by simp
  show "popped ?s p = None" if "rhead ?s \<le> p" for p
    using that D(9) [of p] by simp
qed

lemma ring_safe_push_publish:
  assumes inv: "ring_safe n s" and n: "2 \<le> n" and pc: "prods s t = PPublish v pos"
  shows "ring_safe n (s\<lparr>rseq := (rseq s)(pos mod n := pos + 1), prods := (prods s)(t := PIdle)\<rparr>)"
    (is "ring_safe n ?s")
proof (rule ring_safeI)
  note D = ring_safeD [OF inv]
  have own: "rhead s \<le> pos" "pos < rtail s" "rseq s (pos mod n) = pos" "pushed s ! pos = v" "rdata s (pos mod n) = v"
    using ring_safe_threads(1) [OF inv, of t] pc by auto
  have w: "writes (prods ?s u) q \<longleftrightarrow> u \<noteq> t \<and> writes (prods s u) q" for u q by simp
  have wt: "writes (prods s t) q \<longleftrightarrow> q = pos" for q using pc by auto
  have full: "rseq ?s (p mod n) = p + 1" if "rseq s (p mod n) = p + 1" for p
    using that own(3) seq_unique [OF n, of pos p] by auto
  have free: "rseq ?s (p mod n) = p" if "rseq s (p mod n) = p" "p \<noteq> pos" for p
    using that own(3) by auto
  show "rhead ?s \<le> rtail ?s" "rtail ?s \<le> rhead ?s + n" "length (pushed ?s) = rtail ?s"
    using D(1-3) by simp_all
  show "prod_ok n ?s (prods ?s u)" for u
  proof (cases "u = t")
    case False
    have "p \<noteq> pos" if "writes (prods s u) p" for p using that D(4) [of u p t] wt False by auto
    with False show ?thesis
      using ring_safe_threads(1) [OF inv, of u] free own(2) by (cases "prods s u") (auto simp del: fun_upd_apply simp: fun_upd_other)
  qed simp
  show "cons_ok n ?s (conss ?s u)" for u
    using ring_safe_threads(2) [OF inv, of u] full by (cases "conss s u") (auto simp del: fun_upd_apply)
  show "a = b" if "writes (prods ?s a) p" "writes (prods ?s b) p" for a b p
    using that D(4) unfolding w by blast
  show "a = b" if "reads (conss ?s a) p" "reads (conss ?s b) p" for a b p
    using that D(5) by simp
  show "rseq ?s (p mod n) = p \<or> (n \<le> p \<and> (\<exists>t. reads (conss ?s t) (p - n)))"
    if "rtail ?s \<le> p" "p < rhead ?s + n" for p
    using that D(6) [of p] free [of p] own(2) by auto
  show "(rseq ?s (p mod n) = p + 1 \<and> rdata ?s (p mod n) = pushed ?s ! p) \<or> (\<exists>t. writes (prods ?s t) p)"
    if "rhead ?s \<le> p" "p < rtail ?s" for p
  proof (cases "p = pos")
    case True
    then show ?thesis using own by simp
  next
    case False
    from that D(7) [of p] consider "rseq s (p mod n) = p + 1" "rdata s (p mod n) = pushed s ! p"
      | u where "writes (prods s u) p" by auto
    then show ?thesis
    proof cases
      case 1
      then show ?thesis using full [of p] by simp
    next
      case 2
      then have "u \<noteq> t" using wt [of p] False by auto
      with 2 show ?thesis unfolding w by blast
    qed
  qed
  show "popped ?s p = Some (pushed ?s ! p) \<or> (\<exists>t. reads (conss ?s t) p)" if "p < rhead ?s" for p
    using that D(8) [of p] by simp
  show "popped ?s p = None" if "rhead ?s \<le> p" for p
    using that D(9) [of p] by simp
qed

lemma ring_safe_pop_cas:
  assumes inv: "ring_safe n s" and n: "2 \<le> n" and pc: "conss s t = CCas (rhead s)"
  shows "ring_safe n (s\<lparr>rhead := rhead s + 1, conss := (conss s)(t := CRead (rhead s))\<rparr>)"
    (is "ring_safe n ?s")
proof (rule ring_safeI)
  note D = ring_safeD [OF inv]
  let ?pos = "rhead s"
  have rd: "rseq s (?pos mod n) = ?pos + 1" "?pos < rtail s"
    using ring_safe_threads(2) [OF inv, of t] pc by auto
  have nw: "\<not> writes (prods s u) ?pos" for u using writes_ok [OF inv, of u ?pos] rd by auto
  have dat: "rdata s (?pos mod n) = pushed s ! ?pos" using D(7) [of ?pos] rd nw by auto
  have rt: "\<not> reads (conss s t) q" for q using pc by simp
  have rs: "reads (conss ?s u) q \<longleftrightarrow> (if u = t then q = ?pos else reads (conss s u) q)" for u q by auto
  show "rhead ?s \<le> rtail ?s" "rtail ?s \<le> rhead ?s + n" "length (pushed ?s) = rtail ?s"
    using D(2,3) rd by simp_all
  show "prod_ok n ?s (prods ?s u)" for u
  proof -
    have "?pos + 1 \<le> p" if "writes (prods s u) p" for p
      using writes_ok [OF inv that] nw [of u] that by (cases "p = ?pos") auto
    then show ?thesis using ring_safe_threads(1) [OF inv, of u] by (cases "prods s u") auto
  qed
  show "cons_ok n ?s (conss ?s u)" for u
  proof (cases "u = t")
    case True
    then show ?thesis using rd dat D(2) D(9) [of ?pos] by simp
  next
    case False
    then show ?thesis using ring_safe_threads(2) [OF inv, of u] by (cases "conss s u") auto
  qed
  show "a = b" if "writes (prods ?s a) p" "writes (prods ?s b) p" for a b p
    using that D(4) by simp
  show "a = b" if "reads (conss ?s a) p" "reads (conss ?s b) p" for a b p
  proof -
    have "\<not> reads (conss s u) ?pos" for u using reads_ok [OF inv, of u ?pos] by auto
    then show ?thesis using that D(5) [of a p b] unfolding rs by (auto split: if_splits)
  qed
  show "rseq ?s (p mod n) = p \<or> (n \<le> p \<and> (\<exists>t. reads (conss ?s t) (p - n)))"
    if "rtail ?s \<le> p" "p < rhead ?s + n" for p
  proof (cases "p < rhead s + n")
    case True
    then show ?thesis using that D(6) [of p] rt unfolding rs by auto metis
  next
    case False
    then have "p = ?pos + n" using that by simp
    then show ?thesis unfolding rs by auto
  qed
  show "(rseq ?s (p mod n) = p + 1 \<and> rdata ?s (p mod n) = pushed ?s ! p) \<or> (\<exists>t. writes (prods ?s t) p)"
    if "rhead ?s \<le> p" "p < rtail ?s" for p
    using that D(7) [of p] by simp
  show "popped ?s p = Some (pushed ?s ! p) \<or> (\<exists>t. reads (conss ?s t) p)" if "p < rhead ?s" for p
    using that D(8) [of p] rt unfolding rs by (cases "p = ?pos") (auto, metis)
  show "popped ?s p = None" if "rhead ?s \<le> p" for p
    using that D(9) [of p] by simp
qed

lemma ring_safe_pop_release:
  assumes inv: "ring_safe n s" and n: "2 \<le> n" and pc: "conss s t = CRelease pos v"
  shows "ring_safe n (s\<lparr>rseq := (rseq s)(pos mod n := pos + n), conss := (conss s)(t := CIdle),
    popped := (popped s)(pos \<mapsto> v)\<rparr>)" (is "ring_safe n ?s")
proof (rule ring_safeI)
  note D = ring_safeD [OF inv]
  have own: "pos < rhead s" "rtail s \<le> pos + n" "rseq s (pos mod n) = pos + 1" "v = pushed s ! pos"
    using ring_safe_threads(2) [OF inv, of t] pc by auto
  have r: "reads (conss ?s u) q \<longleftrightarrow> u \<noteq> t \<and> reads (conss s u) q" for u q by simp
  have rt: "reads (conss s t) q \<longleftrightarrow> q = pos" for q using pc by auto
  have free: "rseq ?s (p mod n) = p" if "rseq s (p mod n) = p" for p
    using that own(3) seq_unique [OF n, of p pos] by auto
  have full: "rseq ?s (p mod n) = p + 1" if "rseq s (p mod n) = p + 1" "p \<noteq> pos" for p
    using that own(3) by auto
  show "rhead ?s \<le> rtail ?s" "rtail ?s \<le> rhead ?s + n" "length (pushed ?s) = rtail ?s"
    using D(1-3) by simp_all
  show "prod_ok n ?s (prods ?s u)" for u
    using ring_safe_threads(1) [OF inv, of u] free by (cases "prods s u") (auto simp del: fun_upd_apply)
  show "cons_ok n ?s (conss ?s u)" for u
  proof (cases "u = t")
    case False
    have "p \<noteq> pos" if "reads (conss s u) p" for p using that D(5) [of u p t] rt False by auto
    with False show ?thesis
      using ring_safe_threads(2) [OF inv, of u] full own(1)
      by (cases "conss s u") (auto simp del: fun_upd_apply simp: fun_upd_other)
  qed simp
  show "a = b" if "writes (prods ?s a) p" "writes (prods ?s b) p" for a b p
    using that D(4) by simp
  show "a = b" if "reads (conss ?s a) p" "reads (conss ?s b) p" for a b p
    using that D(5) unfolding r by blast
  show "rseq ?s (p mod n) = p \<or> (n \<le> p \<and> (\<exists>t. reads (conss ?s t) (p - n)))"
    if "rtail ?s \<le> p" "p < rhead ?s + n" for p
  proof (cases "p = pos + n")
    case False
    from that D(6) [of p] consider "rseq s (p mod n) = p" | u where "n \<le> p" "reads (conss s u) (p - n)" by auto
    then show ?thesis
    proof cases
      case 1
      then show ?thesis using free [of p] by simp
    next
      case 2
      then show ?thesis using rt [of "p - n"] False unfolding r by fastforce
    qed
  qed simp
  show "(rseq ?s (p mod n) = p + 1 \<and> rdata ?s (p mod n) = pushed ?s ! p) \<or> (\<exists>t. writes (prods ?s t) p)"
    if "rhead ?s \<le> p" "p < rtail ?s" for p
    using that D(7) [of p] full [of p] own(1) by auto
  show "popped ?s p = Some (pushed ?s ! p) \<or> (\<exists>t. reads (conss ?s t) p)" if "p < rhead ?s" for p
    using that D(8) [of p] own(4) rt [of p] unfolding r by auto
  show "popped ?s p = None" if "rhead ?s \<le> p" for p
    using that D(9) [of p] own(1) by simp
qed


text \<open>An empty ring has no published cell at its head.\<close>

lemma pop_ready_nonempty:
  assumes inv: "ring_safe n s" and n: "2 \<le> n" and sq: "rseq s (rhead s mod n) = rhead s + 1"
  shows "rhead s < rtail s"
proof (rule ccontr)
  assume "\<not> ?thesis"
  then have e: "rtail s = rhead s" using ring_safeD(1) [OF inv] by simp
  from ring_safeD(6) [OF inv, of "rhead s"] e n sq
  obtain t where "n \<le> rhead s" "reads (conss s t) (rhead s - n)" by auto
  with reads_ok [OF inv, of t "rhead s - n"] sq n show False by (simp add: le_mod_geq)
qed

lemma ring_safe_step:
  assumes step: "ring_step n s s'" and n: "2 \<le> n" and inv: "ring_safe n s"
  shows "ring_safe n s'"
proof -
  note okP = ring_safe_threads(1) [OF inv] and okC = ring_safe_threads(2) [OF inv]
  note P = ring_safe_prod_local [OF inv] and C = ring_safe_cons_local [OF inv]
  from step show ?thesis
  proof (cases rule: ring_step.cases)
    case (push_call t v) then show ?thesis by (simp add: P)
  next
    case (push_load_tail t v) then show ?thesis by (simp add: P)
  next
    case (push_ready t v pos) then show ?thesis using okP [of t] by (simp add: P)
  next
    case (push_full t v pos) then show ?thesis by (simp add: P)
  next
    case (push_stale t v pos) then show ?thesis by (simp add: P)
  next
    case (push_cas t v pos) then show ?thesis using ring_safe_push_cas [OF inv n, of t v] by simp
  next
    case (push_cas_fails t v pos) then show ?thesis by (simp add: P)
  next
    case (push_write t v pos) then show ?thesis using ring_safe_push_write [OF inv n, of t v pos] by simp
  next
    case (push_publish t v pos) then show ?thesis using ring_safe_push_publish [OF inv n, of t v pos] by simp
  next
    case (pop_load_head t) then show ?thesis by (simp add: C)
  next
    case (pop_ready t pos)
    then have "rhead s = pos \<Longrightarrow> pos < rtail s" using pop_ready_nonempty [OF inv n] by simp
    with pop_ready show ?thesis using okC [of t] by (simp add: C)
  next
    case (pop_not_ready t pos) then show ?thesis by (simp add: C)
  next
    case (pop_cas t pos) then show ?thesis using ring_safe_pop_cas [OF inv n, of t] by simp
  next
    case (pop_cas_fails t pos) then show ?thesis by (simp add: C)
  next
    case (pop_read t pos) then show ?thesis using okC [of t] by (simp add: C)
  next
    case (pop_release t pos v) then show ?thesis using ring_safe_pop_release [OF inv n, of t pos v] by simp
  qed
qed

lemma ring_reachable_safe: "ring_reachable n s \<Longrightarrow> 2 \<le> n \<Longrightarrow> ring_safe n s"
  by (induction rule: ring_reachable.induct) (auto simp: ring_safe_start intro: ring_safe_step)

section \<open>Executions\<close>

text \<open>The next atomic operation of one thread, and the execution of a schedule of threads.\<close>

definition adv_prod :: "nat \<Rightarrow> nat \<Rightarrow> 'a \<Rightarrow> 'a ring_state \<Rightarrow> 'a ring_state" where
  "adv_prod n t v s = (case prods s t of
       PIdle \<Rightarrow> s\<lparr>prods := (prods s)(t := PLoadTail v)\<rparr>
     | PLoadTail w \<Rightarrow> s\<lparr>prods := (prods s)(t := PLoadSeq w (rtail s))\<rparr>
     | PLoadSeq w pos \<Rightarrow> s\<lparr>prods := (prods s)(t :=
         (if rseq s (pos mod n) = pos then PCas w pos
          else if rseq s (pos mod n) < pos then PIdle
          else PLoadTail w))\<rparr>
     | PCas w pos \<Rightarrow>
         if rtail s = pos
         then s\<lparr>rtail := pos + 1, prods := (prods s)(t := PWrite w pos), pushed := pushed s @ [w]\<rparr>
         else s\<lparr>prods := (prods s)(t := PLoadTail w)\<rparr>
     | PWrite w pos \<Rightarrow> s\<lparr>rdata := (rdata s)(pos mod n := w), prods := (prods s)(t := PPublish w pos)\<rparr>
     | PPublish w pos \<Rightarrow> s\<lparr>rseq := (rseq s)(pos mod n := pos + 1), prods := (prods s)(t := PIdle)\<rparr>)"

definition adv_cons :: "nat \<Rightarrow> nat \<Rightarrow> 'a ring_state \<Rightarrow> 'a ring_state" where
  "adv_cons n t s = (case conss s t of
       CIdle \<Rightarrow> s\<lparr>conss := (conss s)(t := CLoadSeq (rhead s))\<rparr>
     | CLoadSeq pos \<Rightarrow> s\<lparr>conss := (conss s)(t := (if rseq s (pos mod n) = pos + 1 then CCas pos else CIdle))\<rparr>
     | CCas pos \<Rightarrow>
         if rhead s = pos then s\<lparr>rhead := pos + 1, conss := (conss s)(t := CRead pos)\<rparr>
         else s\<lparr>conss := (conss s)(t := CIdle)\<rparr>
     | CRead pos \<Rightarrow> s\<lparr>conss := (conss s)(t := CRelease pos (rdata s (pos mod n)))\<rparr>
     | CRelease pos v \<Rightarrow> s\<lparr>rseq := (rseq s)(pos mod n := pos + n), conss := (conss s)(t := CIdle),
         popped := (popped s)(pos \<mapsto> v)\<rparr>)"

datatype 'a turn = Producer nat 'a | Consumer nat

fun run_turns :: "nat \<Rightarrow> 'a turn list \<Rightarrow> 'a ring_state \<Rightarrow> 'a ring_state" where
  "run_turns n [] s = s"
| "run_turns n (Producer t v # ts) s = run_turns n ts (adv_prod n t v s)"
| "run_turns n (Consumer t # ts) s = run_turns n ts (adv_cons n t s)"

lemma adv_prod_step: "ring_step n s (adv_prod n t v s)"
  by (auto simp: adv_prod_def intro: ring_step.intros [simplified] split: prod_pc.split)

lemma adv_cons_step: "ring_step n s (adv_cons n t s)"
  by (auto simp: adv_cons_def intro: ring_step.intros [simplified] split: cons_pc.split)

lemma run_turns_reachable: "ring_reachable n s \<Longrightarrow> ring_reachable n (run_turns n ts s)"
  by (induction n ts s rule: run_turns.induct) (auto intro: ring_reachable.step adv_prod_step adv_cons_step)

lemmas run_from_start = run_turns_reachable [OF ring_reachable.start]

text \<open>The sequence number of a slot never falls behind a position that was claimed in it.\<close>

lemma seq_not_behind: "ring_reachable n s \<Longrightarrow> 2 \<le> n \<Longrightarrow> p < rtail s \<Longrightarrow> p \<le> rseq s (p mod n)"
proof (induction arbitrary: p rule: ring_reachable.induct)
  case (start junk)
  then show ?case by (simp add: ring_start_def)
next
  case (step s s')
  note inv = ring_reachable_safe [OF step.hyps(1) step.prems(1)]
  from step.hyps(2) show ?case
  proof (cases rule: ring_step.cases)
    case (push_cas t v pos)
    then show ?thesis using step push_cas_room(2) [OF inv step.prems(1), of t v] by (cases "p = rtail s") auto
  next
    case (push_publish t v pos)
    then show ?thesis using step.IH [of p] step.prems writes_ok [OF inv, of t pos] by auto
  next
    case (pop_release t pos v)
    then show ?thesis using step.IH [of p] step.prems reads_ok [OF inv, of t pos] by auto
  qed (use step in auto)
qed

section \<open>Properties\<close>

text \<open>
  C14. The ring under concurrency is a bounded FIFO with exactly-once delivery: whatever the interleaving of
  any number of producers and consumers, at most the capacity of values is between head and tail; a
  value handed to a consumer at a position is the value of the producer that won that position; a
  position behind the head was delivered or is held by exactly one consumer; and once no consumer
  is between its claim and its release, the delivered values are a prefix of the values pushed, in order.
\<close>

theorem concurrent_ring_delivers_once:
  assumes "ring_reachable n s" and "2 \<le> n"
  shows "rhead s \<le> rtail s \<and> rtail s \<le> rhead s + n \<and> length (pushed s) = rtail s \<and>
    (\<forall>p v. popped s p = Some v \<longrightarrow> p < rhead s \<and> v = pushed s ! p) \<and>
    (\<forall>p. p < rhead s \<and> popped s p = None \<longrightarrow> (\<exists>!t. reads (conss s t) p)) \<and>
    ((\<forall>t p. \<not> reads (conss s t) p) \<longrightarrow>
       map (popped s) [0..<rhead s] = map Some (take (rhead s) (pushed s)))"
proof -
  note D = ring_safeD [OF ring_reachable_safe [OF assms]] and R = reads_ok [OF ring_reachable_safe [OF assms]]
  have got: "p < rhead s \<and> v = pushed s ! p" if "popped s p = Some v" for p v
  proof -
    have "p < rhead s" using that D(9) [of p] by (cases "p < rhead s") auto
    moreover have "\<not> reads (conss s t) p" for t using R [of t p] that by auto
    ultimately show ?thesis using D(8) [of p] that by auto
  qed
  have held: "\<exists>!t. reads (conss s t) p" if "p < rhead s" "popped s p = None" for p
    using D(5,8) [where p = p] that by auto
  have all: "map (popped s) [0..<rhead s] = map Some (take (rhead s) (pushed s))"
    if "\<forall>t p. \<not> reads (conss s t) p"
    using that D(1,3) D(8) by (intro nth_equalityI) auto
  show ?thesis using D(1-3) got held all by blast
qed

theorem concurrent_ring_delivers_once_witness:
  "let s = run_turns 2 (replicate 6 (Producer 0 7) @ [Producer 1 8, Producer 1 8] @ replicate 6 (Consumer 3)) (ring_start (\<lambda>_. 0::nat))
   in ring_reachable 2 s \<and> rhead s = 1 \<and> rtail s = 1 \<and> pushed s = [7] \<and> (\<forall>p v. popped s p = Some v \<longrightarrow> v = pushed s ! p)"
proof -
  let ?s = "run_turns 2 (replicate 6 (Producer 0 7) @ [Producer 1 8, Producer 1 8] @ replicate 6 (Consumer 3)) (ring_start (\<lambda>_. 0::nat))"
  have r: "ring_reachable 2 ?s" by (rule run_from_start)
  have "rhead ?s = 1 \<and> rtail ?s = 1 \<and> pushed ?s = [7]" by code_simp
  with r concurrent_ring_delivers_once [OF r] show ?thesis unfolding Let_def by simp
qed

text \<open>
  A producer is refused only when the ring has no room: when \<^verbatim>\<open>Push\<close> sees a sequence number behind
  its position, that position is the tail, and either the ring holds its full capacity or a
  consumer has claimed the value in that slot and not yet released it.
\<close>

theorem push_refused_only_when_full:
  assumes "ring_reachable n s" and "2 \<le> n" and "prods s t = PLoadSeq v pos" and "rseq s (pos mod n) < pos"
  shows "pos = rtail s \<and> (rtail s = rhead s + n \<or> (\<exists>u. reads (conss s u) (pos - n)))"
proof -
  note inv = ring_reachable_safe [OF assms(1,2)]
  have "pos \<le> rtail s" using ring_safe_threads(1) [OF inv, of t] assms(3) by simp
  moreover have "\<not> pos < rtail s" using seq_not_behind [OF assms(1,2), of pos] assms(4) by auto
  ultimately have "pos = rtail s" by simp
  then show ?thesis using ring_safeD(2) [OF inv] ring_safeD(6) [OF inv, of pos] assms(4) by (auto simp: le_less)
qed

theorem push_refused_only_when_full_witness:
  "let s = run_turns 2 (replicate 14 (Producer 0 (7::nat))) (ring_start (\<lambda>_. 0))
   in rtail s = rhead s + 2 \<or> (\<exists>u. reads (conss s u) 0)"
proof -
  let ?s = "run_turns 2 (replicate 14 (Producer 0 (7::nat))) (ring_start (\<lambda>_. 0))"
  have "prods ?s 0 = PLoadSeq 7 2" "rseq ?s (2 mod 2) < 2" by code_simp+
  from push_refused_only_when_full [OF run_from_start _ this] show ?thesis unfolding Let_def by auto
qed

end
