(* ===== verification/Replay_Cache.thy ===== *)
theory Replay_Cache
  imports Go_Prelude
begin

unbundle bit_operations_syntax

text \<open>
  \<^verbatim>\<open>internal/receiver/listener/replayprotection.go\<close>: the sharded cache of the ephemeral public keys seen
  by the listeners, with its eviction worker. The interface of a replay guard is a locale, whose
  client lemma says which packets of a history are dropped; the cache is an interpretation.
  Clock readings are arguments, in seconds.
\<close>

section \<open>The cache\<close>

type_synonym replayCacheShard = "bytes \<rightharpoonup> int"

record replayCache =
  shards :: "replayCacheShard list"
  ttl :: int

definition newReplayCacheWithShards :: "nat \<Rightarrow> int \<Rightarrow> replayCache" where
  "newReplayCacheWithShards numShards ttlSeconds = \<lparr> shards = replicate numShards Map.empty, ttl = ttlSeconds \<rparr>"

text \<open>\<^verbatim>\<open>hash/fnv.New32a\<close>.\<close>

definition fnv32a :: "bytes \<Rightarrow> 32 word" where
  "fnv32a bs = foldl (\<lambda>h b. (h XOR ucast b) * 16777619) 2166136261 bs"

text \<open>The index of the shard; the remainder by zero of an empty cache is a panic (None).\<close>

definition getShard :: "replayCache \<Rightarrow> bytes \<Rightarrow> nat option" where
  "getShard cache publicKey =
     (let shardNum = (of_nat (length (shards cache)) :: 32 word) in
      if shardNum = 0 then None else Some (unat (fnv32a publicKey mod shardNum)))"

definition isReplayed :: "replayCache \<Rightarrow> int \<Rightarrow> bytes \<Rightarrow> (replayCache \<times> bool) option" where
  "isReplayed cache now pubKey =
     (case getShard cache pubKey of
        None \<Rightarrow> None
      | Some i \<Rightarrow>
          let store = shards cache ! i in
          (case store pubKey of
             Some seenTime \<Rightarrow>
               if now - seenTime < ttl cache then Some (cache, True)
               else Some (cache\<lparr>shards := (shards cache)[i := store(pubKey \<mapsto> now)]\<rparr>, False)
           | None \<Rightarrow> Some (cache\<lparr>shards := (shards cache)[i := store(pubKey \<mapsto> now)]\<rparr>, False)))"

definition cleanupShard :: "int \<Rightarrow> int \<Rightarrow> replayCacheShard \<Rightarrow> replayCacheShard" where
  "cleanupShard ttlSeconds now store = (\<lambda>key.
     case store key of
       Some seenTime \<Rightarrow> if now - seenTime \<ge> ttlSeconds then None else Some seenTime
     | None \<Rightarrow> None)"

definition cleanup_at :: "replayCache \<Rightarrow> nat \<Rightarrow> int \<Rightarrow> replayCache" where
  "cleanup_at cache i now =
     (if i < length (shards cache)
      then cache\<lparr>shards := (shards cache)[i := cleanupShard (ttl cache) now (shards cache ! i)]\<rparr> else cache)"

text \<open>One tick of \<^verbatim>\<open>cleanupLoop\<close>: every shard in turn, each at its own reading of the clock.\<close>

definition cleanup_tick :: "(nat \<Rightarrow> int) \<Rightarrow> replayCache \<Rightarrow> replayCache" where
  "cleanup_tick clock cache = foldl (\<lambda>c i. cleanup_at c i (clock i)) cache [0..<length (shards cache)]"

text \<open>The loop until its context is done: one clock per tick.\<close>

fun cleanupLoop :: "(nat \<Rightarrow> int) list \<Rightarrow> replayCache \<Rightarrow> replayCache" where
  "cleanupLoop [] cache = cache"
| "cleanupLoop (clock # ticks) cache = cleanupLoop ticks (cleanup_tick clock cache)"

section \<open>The interface of a replay guard\<close>

text \<open>
  A packet's key is checked at a time and either reported as seen or recorded; a sweep may forget
  keys. \<open>recent t s k\<close> says that the guard holds the key as seen at time \<open>t\<close>. The laws: a check
  reports exactly the recent keys; a key recorded is recent for the window; nothing else changes
  what is recent from then on, a sweep included.
\<close>

datatype guard_event = Packet int bytes | Sweep nat int

fun event_time :: "guard_event \<Rightarrow> int" where
  "event_time (Packet t k) = t"
| "event_time (Sweep i t) = t"

locale replay_guard =
  fixes inv :: "'s \<Rightarrow> bool"
    and window :: int
    and recent :: "int \<Rightarrow> 's \<Rightarrow> bytes \<Rightarrow> bool"
    and check :: "'s \<Rightarrow> int \<Rightarrow> bytes \<Rightarrow> ('s \<times> bool) option"
    and sweep :: "'s \<Rightarrow> nat \<Rightarrow> int \<Rightarrow> 's"
  assumes check_returns: "inv s \<Longrightarrow> \<exists>s'. check s t k = Some (s', recent t s k) \<and> inv s'"
    and check_recent: "inv s \<Longrightarrow> check s t k = Some (s', r) \<Longrightarrow> t \<le> t' \<Longrightarrow>
      recent t' s' k' \<longleftrightarrow> recent t' s k' \<or> (\<not> r \<and> k' = k \<and> t' - t < window)"
    and sweep_inv: "inv s \<Longrightarrow> inv (sweep s i t)"
    and sweep_recent: "inv s \<Longrightarrow> t \<le> t' \<Longrightarrow> recent t' (sweep s i t) k \<longleftrightarrow> recent t' s k"

fun guard_run ::
  "('s \<Rightarrow> int \<Rightarrow> bytes \<Rightarrow> ('s \<times> bool) option) \<Rightarrow> ('s \<Rightarrow> nat \<Rightarrow> int \<Rightarrow> 's) \<Rightarrow> guard_event list \<Rightarrow> 's \<Rightarrow>
   ('s \<times> (int \<times> bytes \<times> bool) list) option" where
  "guard_run check sweep [] s = Some (s, [])"
| "guard_run check sweep (Packet t k # evs) s =
     (case check s t k of
        None \<Rightarrow> None
      | Some (s', r) \<Rightarrow> map_option (\<lambda>(s'', log). (s'', (t, k, r) # log)) (guard_run check sweep evs s'))"
| "guard_run check sweep (Sweep i t # evs) s = guard_run check sweep evs (sweep s i t)"

text \<open>The specification: the verdicts that a history of packets deserves, oldest first.\<close>

fun verdicts :: "int \<Rightarrow> (int \<times> bytes) list \<Rightarrow> guard_event list \<Rightarrow> (int \<times> bytes \<times> bool) list" where
  "verdicts w accepted [] = []"
| "verdicts w accepted (Packet t k # evs) =
     (let r = (\<exists>(t0, k0) \<in> set accepted. k0 = k \<and> t - t0 < w) in
      (t, k, r) # verdicts w (if r then accepted else (t, k) # accepted) evs)"
| "verdicts w accepted (Sweep i t # evs) = verdicts w accepted evs"

context replay_guard
begin

lemma run_verdicts:
  assumes "inv s" and "sorted (map event_time evs)" and "\<And>e. e \<in> set evs \<Longrightarrow> t0 \<le> event_time e"
    and "\<And>t k. t0 \<le> t \<Longrightarrow> recent t s k \<longleftrightarrow> (\<exists>(u, k0) \<in> set accepted. k0 = k \<and> t - u < window)"
  shows "\<exists>s'. guard_run check sweep evs s = Some (s', verdicts window accepted evs) \<and> inv s'"
  using assms
proof (induction evs arbitrary: s accepted t0)
  case Nil
  then show ?case by simp
next
  case (Cons e evs)
  have after: "event_time e \<le> event_time e'" if "e' \<in> set evs" for e'
    using Cons.prems(2) that by auto
  have now: "t0 \<le> event_time e" using Cons.prems(3) by simp
  have sorted: "sorted (map event_time evs)" using Cons.prems(2) by simp
  show ?case
  proof (cases e)
    case (Packet t k)
    from check_returns [OF Cons.prems(1), of t k] obtain s1 where
      s1: "check s t k = Some (s1, recent t s k)" "inv s1" by blast
    let ?acc = "if recent t s k then accepted else (t, k) # accepted"
    have "recent t' s1 k' \<longleftrightarrow> (\<exists>(u, k0) \<in> set ?acc. k0 = k' \<and> t' - u < window)" if "t \<le> t'" for t' k'
      using check_recent [OF Cons.prems(1) s1(1) that, of k'] Cons.prems(4) [of t' k'] now that Packet by auto
    from Cons.IH [OF s1(2) sorted _ this] after Packet
    obtain s2 where "guard_run check sweep evs s1 = Some (s2, verdicts window ?acc evs)" "inv s2" by fastforce
    moreover have "recent t s k \<longleftrightarrow> (\<exists>(u, k0) \<in> set accepted. k0 = k \<and> t - u < window)"
      using Cons.prems(4) [of t k] now Packet by simp
    ultimately show ?thesis using s1(1) Packet by (auto simp: Let_def)
  next
    case (Sweep i t)
    have "recent t' (sweep s i t) k \<longleftrightarrow> (\<exists>(u, k0) \<in> set accepted. k0 = k \<and> t' - u < window)" if "t \<le> t'" for t' k
      using sweep_recent [OF Cons.prems(1) that] Cons.prems(4) [of t' k] now that Sweep by simp
    from Cons.IH [OF sweep_inv [OF Cons.prems(1)] sorted _ this] after Sweep show ?thesis by fastforce
  qed
qed

end

text \<open>What the verdicts say of a history, packet by packet.\<close>

lemma verdicts_packets: "map (\<lambda>(t, k, r). (t, k)) (verdicts w acc evs) = [(t, k). Packet t k \<leftarrow> evs]"
  by (induction w acc evs rule: verdicts.induct) (auto simp: Let_def)

definition dropped_iff_seen :: "int \<Rightarrow> (int \<times> bytes \<times> bool) list \<Rightarrow> bool" where
  "dropped_iff_seen w log \<longleftrightarrow> (\<forall>i < length log. case log ! i of (t, k, r) \<Rightarrow>
     r \<longleftrightarrow> (\<exists>j < i. case log ! j of (t0, k0, r0) \<Rightarrow> k0 = k \<and> \<not> r0 \<and> t - t0 < w))"

lemma verdicts_nth:
  assumes "i < length (verdicts w acc evs)" and "verdicts w acc evs ! i = (t, k, r)"
  shows "r \<longleftrightarrow> (\<exists>(t0, k0) \<in> set acc. k0 = k \<and> t - t0 < w) \<or>
    (\<exists>j < i. case verdicts w acc evs ! j of (t0, k0, r0) \<Rightarrow> k0 = k \<and> \<not> r0 \<and> t - t0 < w)"
  using assms
proof (induction w acc evs arbitrary: i rule: verdicts.induct)
  case (2 w acc t1 k1 evs)
  define r1 where "r1 \<longleftrightarrow> (\<exists>(t0, k0) \<in> set acc. k0 = k1 \<and> t1 - t0 < w)"
  have v: "verdicts w acc (Packet t1 k1 # evs) = (t1, k1, r1) # verdicts w (if r1 then acc else (t1, k1) # acc) evs"
    by (simp add: r1_def Let_def)
  show ?case
  proof (cases i)
    case 0
    then show ?thesis using "2.prems" v by (auto simp: r1_def)
  next
    case (Suc i')
    note IH = "2.IH" [OF refl, folded r1_def, of i']
    have "(\<exists>j < i. P ((verdicts w acc (Packet t1 k1 # evs)) ! j)) \<longleftrightarrow>
        P (t1, k1, r1) \<or> (\<exists>j < i'. P (verdicts w (if r1 then acc else (t1, k1) # acc) evs ! j))" for P
      unfolding v Suc by (auto simp: less_Suc_eq_0_disj)
    then show ?thesis using IH "2.prems" v Suc by auto
  qed
qed auto

lemma verdicts_dropped: "dropped_iff_seen w (verdicts w [] evs)"
  unfolding dropped_iff_seen_def using verdicts_nth [of _ w "[]" evs] by (fastforce split: prod.splits)

section \<open>The cache is a replay guard\<close>

definition cache_inv :: "int \<Rightarrow> replayCache \<Rightarrow> bool" where
  "cache_inv w cache \<longleftrightarrow> 0 < length (shards cache) \<and> length (shards cache) < 2 ^ 32 \<and> ttl cache = w"

definition home :: "replayCache \<Rightarrow> bytes \<Rightarrow> nat" where
  "home cache k = unat (fnv32a k mod of_nat (length (shards cache)))"

definition cache_recent :: "int \<Rightarrow> replayCache \<Rightarrow> bytes \<Rightarrow> bool" where
  "cache_recent t cache k =
     (case (shards cache ! home cache k) k of Some seen \<Rightarrow> t - seen < ttl cache | None \<Rightarrow> False)"

lemma home_less: "cache_inv w cache \<Longrightarrow> home cache k < length (shards cache)"
  by (simp add: home_def cache_inv_def unat_mod_distrib unat_of_nat)

lemma home_update [simp]: "length xs = length (shards cache) \<Longrightarrow> home (cache\<lparr>shards := xs\<rparr>) k = home cache k"
  by (simp add: home_def)

lemma getShard_home: "cache_inv w cache \<Longrightarrow> getShard cache k = Some (home cache k)"
  by (auto simp: getShard_def home_def cache_inv_def word_unat_eq_iff unat_of_nat)

definition cache_record :: "int \<Rightarrow> bytes \<Rightarrow> replayCache \<Rightarrow> replayCache" where
  "cache_record t k cache =
     cache\<lparr>shards := (shards cache)[home cache k := (shards cache ! home cache k)(k \<mapsto> t)]\<rparr>"

lemma isReplayed_home:
  "cache_inv w cache \<Longrightarrow> isReplayed cache t k =
    Some (if cache_recent t cache k then (cache, True) else (cache_record t k cache, False))"
  by (simp add: isReplayed_def getShard_home cache_recent_def cache_record_def Let_def split: option.split)

lemma cache_record_recent:
  "cache_inv w cache \<Longrightarrow> cache_recent t' (cache_record t k cache) k' \<longleftrightarrow>
    (if k' = k then t' - t < w else cache_recent t' cache k')"
  using home_less [of w cache k]
  by (cases "home cache k' = home cache k") (auto simp: cache_recent_def cache_record_def cache_inv_def split: option.splits)

lemma cache_recent_antimono: "cache_recent t' cache k \<Longrightarrow> t \<le> t' \<Longrightarrow> cache_recent t cache k"
  by (auto simp: cache_recent_def split: option.splits)

interpretation rc: replay_guard "cache_inv w" w cache_recent isReplayed cleanup_at for w
proof
  fix s t k
  assume "cache_inv w s"
  then show "\<exists>s'. isReplayed s t k = Some (s', cache_recent t s k) \<and> cache_inv w s'"
    using isReplayed_home [of w s t k] by (auto simp: cache_inv_def cache_record_def)
next
  fix s t k s' r k' and t' :: int
  assume inv: "cache_inv w s" and step: "isReplayed s t k = Some (s', r)" and le: "t \<le> t'"
  show "cache_recent t' s' k' \<longleftrightarrow> cache_recent t' s k' \<or> (\<not> r \<and> k' = k \<and> t' - t < w)"
  proof (cases "cache_recent t s k")
    case True
    then show ?thesis using step isReplayed_home [OF inv, of t k] by simp
  next
    case False
    then have "\<not> cache_recent t' s k" using cache_recent_antimono [OF _ le] by blast
    with False show ?thesis
      using step isReplayed_home [OF inv, of t k] cache_record_recent [OF inv, of t' t k k'] by auto
  qed
next
  show "cache_inv w (cleanup_at s i t)" if "cache_inv w s" for s i t
    using that by (simp add: cleanup_at_def cache_inv_def)
next
  fix s i k and t t' :: int
  assume "cache_inv w s" and "t \<le> t'"
  then show "cache_recent t' (cleanup_at s i t) k \<longleftrightarrow> cache_recent t' s k"
    by (cases "i = home s k")
      (auto simp: cleanup_at_def cache_recent_def cache_inv_def cleanupShard_def split: option.splits)
qed

lemma cleanup_tick_events:
  "cleanup_tick clock cache = fst (the (guard_run isReplayed cleanup_at
     (map (\<lambda>i. Sweep i (clock i)) [0..<length (shards cache)]) cache))"
proof -
  have "guard_run isReplayed cleanup_at (map (\<lambda>i. Sweep i (clock i)) js) c =
      Some (foldl (\<lambda>c i. cleanup_at c i (clock i)) c js, [])" for js c
    by (induction js arbitrary: c) auto
  then show ?thesis by (simp add: cleanup_tick_def)
qed

section \<open>Properties\<close>

text \<open>
  C19. Replay protection is exact: over any history of packets and cache sweeps at non-decreasing
  times, a packet is dropped exactly when an earlier packet with the same ephemeral key was accepted
  less than the window before it. Neither the sharding by hash nor the eviction worker changes a
  verdict, and no packet makes the cache panic.
\<close>

theorem replay_dropped_iff_seen:
  assumes "0 < numShards" and "numShards < 2 ^ 32" and "sorted (map event_time evs)"
  shows "\<exists>cache log. guard_run isReplayed cleanup_at evs (newReplayCacheWithShards numShards ttlSeconds) = Some (cache, log) \<and>
    map (\<lambda>(t, k, r). (t, k)) log = [(t, k). Packet t k \<leftarrow> evs] \<and> dropped_iff_seen ttlSeconds log"
proof -
  let ?c = "newReplayCacheWithShards numShards ttlSeconds"
  have inv: "cache_inv ttlSeconds ?c"
    using assms by (simp add: cache_inv_def newReplayCacheWithShards_def)
  have none: "\<not> cache_recent t ?c k" for t k
    using home_less [OF inv, of k] by (simp add: cache_recent_def newReplayCacheWithShards_def)
  let ?t0 = "if evs = [] then 0 else event_time (hd evs)"
  have "?t0 \<le> event_time e" if "e \<in> set evs" for e using assms(3) that by (cases evs) auto
  from rc.run_verdicts [OF inv assms(3) this, of "[]"] none show ?thesis
    by (auto simp: verdicts_packets verdicts_dropped)
qed

theorem replay_dropped_iff_seen_witness:
  "\<exists>cache log. guard_run isReplayed cleanup_at
      [Packet 10 [1], Packet 12 [1], Sweep 0 13, Packet 19 [2], Packet 20 [1]] (newReplayCacheWithShards 4 10) = Some (cache, log) \<and>
    map (\<lambda>(t, k, r). (t, k)) log = [(10, [1]), (12, [1]), (19, [2]), (20, [1])] \<and> dropped_iff_seen 10 log"
  using replay_dropped_iff_seen [of 4 "[Packet 10 [1], Packet 12 [1], Sweep 0 13, Packet 19 [2], Packet 20 [1]]" 10]
  by simp

end
