(* ===== verification/Shard_Queue.thy ===== *)
theory Shard_Queue
  imports Atomics Proto_Types Metric_Types "HOL-Library.AList"
begin

text \<open>
  \<^verbatim>\<open>internal/receiver/shard\<close> (\<^verbatim>\<open>queue.go\<close>, \<^verbatim>\<open>runtime.go\<close>, \<^verbatim>\<open>types.go\<close>): the buckets in which the fragments
  of a message are collected, the queue of the keys of finished buckets, and the watcher that
  finishes buckets after the packet deadline. Go maps are association lists in some order of
  iteration. A send to or receive from a channel that would block is the value None; which ready
  case a select takes is an argument. Times are those of \<open>Go_Numeric\<close>. The deadline is owned by the manager and an argument.
\<close>

section \<open>Types\<close>

record Bucket =
  filled :: bool
  Fragments :: "(int \<times> Payload) list"
  maxSeq :: int
  lastProcessStartTime :: int

record ShardMetrics =
  sm_Bytes :: "64 word"
  sm_TotalBuckets :: "64 word"
  sm_WaitingBuckets :: "64 word"
  sm_TimedOutBuckets :: "64 word"
  sm_SumFragmentTimeSpacing :: "64 word"
  sm_PushCount :: "64 word"
  sm_PopCount :: "64 word"

record Shard =
  sh_Namespace :: "bytes list"
  Buckets :: "(bytes \<times> Bucket) list"
  keyQueue :: "bytes list"
  keyCap :: nat
  InShutdown :: bool
  sh_Metrics :: ShardMetrics

definition ShardMetrics_zero :: ShardMetrics where
  "ShardMetrics_zero = \<lparr> sm_Bytes = 0, sm_TotalBuckets = 0, sm_WaitingBuckets = 0, sm_TimedOutBuckets = 0,
     sm_SumFragmentTimeSpacing = 0, sm_PushCount = 0, sm_PopCount = 0 \<rparr>"

definition Shard_New :: "bytes list \<Rightarrow> nat \<Rightarrow> Shard" where
  "Shard_New namespace buffer = \<lparr> sh_Namespace = namespace @ [NSQueue], Buckets = [], keyQueue = [],
     keyCap = buffer, InShutdown = False, sh_Metrics = ShardMetrics_zero \<rparr>"

section \<open>Push\<close>

text \<open>Changing one metric, and storing a bucket.\<close>

definition metrics_upd :: "(ShardMetrics \<Rightarrow> ShardMetrics) \<Rightarrow> Shard \<Rightarrow> Shard" where
  "metrics_upd f queue = queue\<lparr>sh_Metrics := f (sh_Metrics queue)\<rparr>"

definition put_bucket :: "bytes \<Rightarrow> Bucket \<Rightarrow> Shard \<Rightarrow> Shard" where
  "put_bucket key b queue = queue\<lparr>Buckets := AList.update key b (Buckets queue)\<rparr>"

definition Bucket_new :: "int \<Rightarrow> Bucket" where
  "Bucket_new mx = \<lparr> filled = False, Fragments = [], maxSeq = mx, lastProcessStartTime = Time_zero \<rparr>"

text \<open>
  From the time spacing on, with the bucket at hand: the shard after it, and the key to hand to the
  assembler with the reason (true: the fragment came too late).
\<close>

definition push_admitted ::
  "int \<Rightarrow> Shard \<Rightarrow> bytes \<Rightarrow> Bucket \<Rightarrow> Payload \<Rightarrow> int \<Rightarrow> Shard \<times> (bytes \<times> bool) option" where
  "push_admitted packetDeadline queue bucketKey bucket fragment processingStartTime =
     (let elapsed = (if UnixNano (lastProcessStartTime bucket) \<le> 0 then 0
                     else Time_Sub processingStartTime (lastProcessStartTime bucket));
          queue = (if elapsed > 0
                   then metrics_upd (\<lambda>m. m\<lparr>sm_SumFragmentTimeSpacing := sm_SumFragmentTimeSpacing m + of_int elapsed\<rparr>) queue
                   else queue) in
      if elapsed > packetDeadline then
        (put_bucket bucketKey (bucket\<lparr>filled := True\<rparr>) queue, Some (bucketKey, True))
      else
        let bucket = bucket\<lparr> lastProcessStartTime := processingStartTime,
                       Fragments := AList.update (MessageSeq fragment) fragment (Fragments bucket) \<rparr>;
            queue = metrics_upd (\<lambda>m. m\<lparr>sm_Bytes := sm_Bytes m + of_nat (Payload_Size fragment)\<rparr>) queue in
        if int (length (Fragments bucket)) = maxSeq bucket + 1 then
          (put_bucket bucketKey (bucket\<lparr>filled := True\<rparr>) queue, Some (bucketKey, False))
        else (put_bucket bucketKey bucket queue, None))"

text \<open>\<^verbatim>\<open>push\<close> up to its select, all of it under the mutex.\<close>

definition push_locked ::
  "int \<Rightarrow> Shard \<Rightarrow> bytes \<Rightarrow> Payload \<Rightarrow> int \<Rightarrow> Shard \<times> (bytes \<times> bool) option" where
  "push_locked packetDeadline queue bucketKey fragment processingStartTime =
     (let queue = metrics_upd (\<lambda>m. m\<lparr>sm_PushCount := sm_PushCount m + 1\<rparr>) queue in
      case map_of (Buckets queue) bucketKey of
        None \<Rightarrow>
          let bucket = Bucket_new (MessageSeqMax fragment);
              queue = put_bucket bucketKey bucket queue;
              queue = metrics_upd (\<lambda>m. m\<lparr>sm_TotalBuckets := sm_TotalBuckets m + 1\<rparr>) queue in
          push_admitted packetDeadline queue bucketKey bucket fragment processingStartTime
      | Some bucket \<Rightarrow>
          if filled bucket then (queue, None)
          else if maxSeq bucket \<noteq> MessageSeqMax fragment then (queue, None)
          else push_admitted packetDeadline queue bucketKey bucket fragment processingStartTime)"

text \<open>The send of a key that succeeded.\<close>

definition send_key :: "Shard \<Rightarrow> bytes \<times> bool \<Rightarrow> Shard" where
  "send_key queue kl = (case kl of (bucketKey, late) \<Rightarrow>
     metrics_upd (\<lambda>m. m\<lparr> sm_WaitingBuckets := sm_WaitingBuckets m + 1,
        sm_TimedOutBuckets := sm_TimedOutBuckets m + (if late then 1 else 0) \<rparr>)
       (queue\<lparr>keyQueue := keyQueue queue @ [bucketKey]\<rparr>))"

definition push ::
  "int \<Rightarrow> bool \<Rightarrow> Shard \<Rightarrow> bytes \<Rightarrow> Payload \<Rightarrow> int \<Rightarrow> Shard option" where
  "push packetDeadline ctxDone queue bucketKey fragment processingStartTime =
     (case push_locked packetDeadline queue bucketKey fragment processingStartTime of
        (queue, None) \<Rightarrow> Some queue
      | (queue, Some kl) \<Rightarrow>
          if ctxDone then Some queue
          else if length (keyQueue queue) < keyCap queue then Some (send_key queue kl)
          else None)"

section \<open>PopKey and DrainBucket\<close>

definition pop_counted :: "Shard \<Rightarrow> Shard" where
  "pop_counted queue = metrics_upd (\<lambda>m. m\<lparr>sm_PopCount := sm_PopCount m + 1\<rparr>) queue"

definition waiting_decrement :: "Shard \<Rightarrow> Shard" where
  "waiting_decrement queue =
     metrics_upd (\<lambda>m. m\<lparr>sm_WaitingBuckets := fst (Subtract (sm_WaitingBuckets m) 1 1 [])\<rparr>) queue"

definition PopKey :: "bool \<Rightarrow> Shard \<Rightarrow> (Shard \<times> bytes option) option" where
  "PopKey ctxDone queue =
     (let queue = pop_counted queue in
      if ctxDone then Some (queue, None)
      else (case keyQueue queue of
              [] \<Rightarrow> None
            | key # rest \<Rightarrow> Some (waiting_decrement (queue\<lparr>keyQueue := rest\<rparr>), Some key)))"

text \<open>
  A missing bucket unlocks the mutex twice, which the runtime treats as a fatal error that ends the
  process.
\<close>

datatype drain_result = Drained Bucket | FatalUnlock

definition bucket_size :: "Bucket \<Rightarrow> nat" where
  "bucket_size b = sum_list (map (\<lambda>(s, frag). Payload_Size frag) (Fragments b))"

definition DrainBucket :: "Shard \<Rightarrow> bytes \<Rightarrow> Shard \<times> drain_result" where
  "DrainBucket queue key =
     (case map_of (Buckets queue) key of
        None \<Rightarrow> (queue, FatalUnlock)
      | Some bucket \<Rightarrow>
          (metrics_upd (\<lambda>m. m\<lparr> sm_Bytes := fst (Subtract (sm_Bytes m) (of_nat (bucket_size bucket)) 1 []),
              sm_TotalBuckets := fst (Subtract (sm_TotalBuckets m) 1 1 []) \<rparr>)
             (queue\<lparr>Buckets := AList.delete key (Buckets queue)\<rparr>), Drained bucket))"

section \<open>The deadline watcher\<close>

text \<open>
  One pass over the buckets under the mutex: the buckets that timed out are marked and their keys
  collected; \<open>clock\<close> is the time at which each bucket is looked at.
\<close>

fun scan_buckets :: "int \<Rightarrow> (bytes \<Rightarrow> int) \<Rightarrow> (bytes \<times> Bucket) list \<Rightarrow> (bytes \<times> Bucket) list \<times> bytes list" where
  "scan_buckets packetDeadline clock [] = ([], [])"
| "scan_buckets packetDeadline clock ((bucketKey, bucket) # bs) =
     (let (bs', keysToSend) = scan_buckets packetDeadline clock bs in
      if filled bucket then ((bucketKey, bucket) # bs', keysToSend)
      else if Time_Sub (clock bucketKey) (lastProcessStartTime bucket) > packetDeadline
      then ((bucketKey, bucket\<lparr>filled := True\<rparr>) # bs', bucketKey # keysToSend)
      else ((bucketKey, bucket) # bs', keysToSend))"

definition timeout_scan :: "int \<Rightarrow> (bytes \<Rightarrow> int) \<Rightarrow> Shard \<Rightarrow> Shard \<times> bytes list" where
  "timeout_scan packetDeadline clock queue =
     (let (bs, keysToSend) = scan_buckets packetDeadline clock (Buckets queue) in
      (metrics_upd (\<lambda>m. m\<lparr>sm_TimedOutBuckets := sm_TimedOutBuckets m + of_nat (length keysToSend)\<rparr>)
         (queue\<lparr>Buckets := bs\<rparr>), keysToSend))"

text \<open>Then the keys are sent one by one, outside the mutex.\<close>

definition watcher_send :: "Shard \<Rightarrow> bytes \<Rightarrow> Shard" where
  "watcher_send queue bucketKey =
     metrics_upd (\<lambda>m. m\<lparr>sm_WaitingBuckets := sm_WaitingBuckets m + 1\<rparr>)
       (queue\<lparr>keyQueue := keyQueue queue @ [bucketKey]\<rparr>)"

fun send_keys :: "bool \<Rightarrow> Shard \<Rightarrow> bytes list \<Rightarrow> Shard option" where
  "send_keys ctxDone queue [] = Some queue"
| "send_keys ctxDone queue (k # ks) =
     (if ctxDone then Some queue
      else if length (keyQueue queue) < keyCap queue then send_keys ctxDone (watcher_send queue k) ks
      else None)"

text \<open>One round of \<^verbatim>\<open>StartTimeoutWatcher\<close>.\<close>

definition watcher_round :: "int \<Rightarrow> (bytes \<Rightarrow> int) \<Rightarrow> bool \<Rightarrow> Shard \<Rightarrow> Shard option" where
  "watcher_round packetDeadline clock ctxDone queue =
     (case timeout_scan packetDeadline clock queue of (queue, keys) \<Rightarrow> send_keys ctxDone queue keys)"

section \<open>The buckets of a shard\<close>

text \<open>What a fragment that the processor accepted satisfies.\<close>

definition frag_ok :: "Payload \<Rightarrow> bool" where
  "frag_ok f \<longleftrightarrow> 0 \<le> MessageSeq f \<and> MessageSeq f \<le> MessageSeqMax f"

definition bucket_ok :: "Bucket \<Rightarrow> bool" where
  "bucket_ok b \<longleftrightarrow> distinct (map fst (Fragments b)) \<and>
     list_all (\<lambda>(s, f). s = MessageSeq f \<and> MessageSeqMax f = maxSeq b \<and> frag_ok f) (Fragments b) \<and>
     (\<not> filled b \<longrightarrow> int (length (Fragments b)) \<le> maxSeq b)"

definition shard_wf :: "Shard \<Rightarrow> bool" where
  "shard_wf q \<longleftrightarrow> distinct (map fst (Buckets q)) \<and> list_all (\<lambda>(k, b). bucket_ok b) (Buckets q)"

definition filled_keys :: "Shard \<Rightarrow> bytes set" where
  "filled_keys q = {k. \<exists>b. map_of (Buckets q) k = Some b \<and> filled b}"

text \<open>A bucket that holds every fragment of its message.\<close>

definition complete :: "Bucket \<Rightarrow> bool" where
  "complete b \<longleftrightarrow> int (length (Fragments b)) = maxSeq b + 1"

lemma list_all_update:
  "list_all P al \<Longrightarrow> P (k, v) \<Longrightarrow> list_all P (AList.update k v al)"
  by (induction al) auto

lemma list_all_delete: "list_all P al \<Longrightarrow> list_all P (AList.delete k al)"
  by (auto simp: AList.delete_eq list_all_iff)

lemma length_update: "length (AList.update k v al) = (if map_of al k = None then Suc (length al) else length al)"
  by (induction al) auto

lemma set_update_sub: "set (AList.update k v al) \<subseteq> insert (k, v) (set al)"
  by (induction al) auto

lemma shard_wf_bucket: "shard_wf q \<Longrightarrow> map_of (Buckets q) k = Some b \<Longrightarrow> bucket_ok b"
  by (auto simp: shard_wf_def list_all_iff dest: map_of_SomeD)

lemma shard_wf_put: "shard_wf q \<Longrightarrow> bucket_ok b \<Longrightarrow> shard_wf (put_bucket k b q)"
  by (simp add: shard_wf_def put_bucket_def distinct_update list_all_update)

lemma metrics_upd_sel [simp]:
  "Buckets (metrics_upd f q) = Buckets q" "keyQueue (metrics_upd f q) = keyQueue q"
  "keyCap (metrics_upd f q) = keyCap q" "InShutdown (metrics_upd f q) = InShutdown q"
  "sh_Metrics (metrics_upd f q) = f (sh_Metrics q)" "sh_Namespace (metrics_upd f q) = sh_Namespace q"
  by (simp_all add: metrics_upd_def)

lemma put_bucket_sel [simp]:
  "Buckets (put_bucket k b q) = AList.update k b (Buckets q)" "keyQueue (put_bucket k b q) = keyQueue q"
  "keyCap (put_bucket k b q) = keyCap q" "InShutdown (put_bucket k b q) = InShutdown q"
  "sh_Metrics (put_bucket k b q) = sh_Metrics q" "sh_Namespace (put_bucket k b q) = sh_Namespace q"
  by (simp_all add: put_bucket_def)

lemma shard_wf_metrics [simp]: "shard_wf (metrics_upd f q) = shard_wf q"
  by (simp add: shard_wf_def)

lemma filled_keys_metrics [simp]: "filled_keys (metrics_upd f q) = filled_keys q"
  by (simp add: filled_keys_def)

lemma filled_keys_put [simp]:
  "filled_keys (put_bucket k b q) = (if filled b then insert k (filled_keys q) else filled_keys q - {k})"
  by (auto simp: filled_keys_def update_conv')

lemma shard_wf_queue [simp]: "shard_wf (q\<lparr>keyQueue := ks\<rparr>) = shard_wf q"
  by (simp add: shard_wf_def)

lemma filled_keys_queue [simp]: "filled_keys (q\<lparr>keyQueue := ks\<rparr>) = filled_keys q"
  by (simp add: filled_keys_def)

text \<open>Storing one more fragment in an open bucket.\<close>

definition stored :: "Bucket \<Rightarrow> Payload \<Rightarrow> int \<Rightarrow> Bucket" where
  "stored b f t = b\<lparr> lastProcessStartTime := t, Fragments := AList.update (MessageSeq f) f (Fragments b) \<rparr>"

lemma bucket_ok_new: "0 \<le> mx \<Longrightarrow> bucket_ok (Bucket_new mx)"
  by (simp add: bucket_ok_def Bucket_new_def)

lemma stored_ok:
  assumes "bucket_ok b" and "\<not> filled b" and "maxSeq b = MessageSeqMax f" and "frag_ok f"
  shows "bucket_ok ((stored b f t)\<lparr>filled := True\<rparr>)"
    and "\<not> complete (stored b f t) \<Longrightarrow> bucket_ok (stored b f t)"
  using assms by (auto simp: bucket_ok_def stored_def complete_def distinct_update list_all_update length_update)

text \<open>The outcomes of a push on a bucket at hand.\<close>

lemma push_admitted_cases:
  assumes "push_admitted d q k b f t = (q', r)"
  obtains (late) "r = Some (k, True)" and "Buckets q' = AList.update k (b\<lparr>filled := True\<rparr>) (Buckets q)"
    | (last) "r = Some (k, False)" and "complete (stored b f t)"
        and "Buckets q' = AList.update k ((stored b f t)\<lparr>filled := True\<rparr>) (Buckets q)"
    | (more) "r = None" and "\<not> complete (stored b f t)" and "Buckets q' = AList.update k (stored b f t) (Buckets q)"
  using assms by (auto simp: push_admitted_def Let_def complete_def stored_def split: if_splits)

lemma push_admitted_frame:
  "push_admitted d q k b f t = (q', r) \<Longrightarrow>
     keyQueue q' = keyQueue q \<and> keyCap q' = keyCap q \<and> InShutdown q' = InShutdown q \<and>
     sm_WaitingBuckets (sh_Metrics q') = sm_WaitingBuckets (sh_Metrics q) \<and>
     sm_TotalBuckets (sh_Metrics q') = sm_TotalBuckets (sh_Metrics q)"
  by (auto simp: push_admitted_def Let_def split: if_splits)

lemma filled_keys_update:
  "Buckets q' = AList.update k b (Buckets q) \<Longrightarrow>
     filled_keys q' = (if filled b then insert k (filled_keys q) else filled_keys q - {k})"
  using filled_keys_put [of k b q] by (simp add: filled_keys_def)

lemma shard_wf_update:
  "shard_wf q \<Longrightarrow> Buckets q' = AList.update k b (Buckets q) \<Longrightarrow> bucket_ok b \<Longrightarrow> shard_wf q'"
  using shard_wf_put [of q b k] by (simp add: shard_wf_def)

text \<open>The fragments a shard holds for a key.\<close>

definition frags_of :: "Shard \<Rightarrow> bytes \<Rightarrow> Payload set" where
  "frags_of q k = (case map_of (Buckets q) k of Some b \<Rightarrow> snd ` set (Fragments b) | None \<Rightarrow> {})"

lemma frags_of_update:
  "Buckets q' = AList.update k b (Buckets q) \<Longrightarrow>
     frags_of q' j = (if j = k then snd ` set (Fragments b) else frags_of q j)"
  by (simp add: frags_of_def update_conv')

lemma frags_of_sel [simp]:
  "frags_of (metrics_upd g q) k = frags_of q k" "frags_of (q\<lparr>keyQueue := ks\<rparr>) k = frags_of q k"
  by (simp_all add: frags_of_def)

lemma stored_frags: "snd ` set (Fragments (stored b f t)) \<subseteq> insert f (snd ` set (Fragments b))"
  using set_update_sub [of "MessageSeq f" f "Fragments b"] by (auto simp: stored_def)

text \<open>What one call of push changes.\<close>

definition push_effect :: "Shard \<Rightarrow> bytes \<Rightarrow> Payload \<Rightarrow> Shard \<Rightarrow> (bytes \<times> bool) option \<Rightarrow> bool" where
  "push_effect q k f q' r \<longleftrightarrow>
     shard_wf q' \<and> keyQueue q' = keyQueue q \<and> keyCap q' = keyCap q \<and> InShutdown q' = InShutdown q \<and>
     (\<forall>j. j \<noteq> k \<longrightarrow> map_of (Buckets q') j = map_of (Buckets q) j) \<and>
     frags_of q' k \<subseteq> insert f (frags_of q k) \<and>
     (case r of
        None \<Rightarrow> filled_keys q' = filled_keys q \<and> (k \<in> filled_keys q \<longrightarrow> map_of (Buckets q') k = map_of (Buckets q) k)
      | Some (k', late) \<Rightarrow> k' = k \<and> k \<notin> filled_keys q \<and> filled_keys q' = insert k (filled_keys q) \<and>
          (\<not> late \<longrightarrow> (\<exists>b. map_of (Buckets q') k = Some b \<and> complete b)))"

lemma push_admitted_effect:
  assumes a: "push_admitted d q k b f t = (q', r)" and wf: "shard_wf q" and b: "map_of (Buckets q) k = Some b"
    and ok: "\<not> filled b" "maxSeq b = MessageSeqMax f" "frag_ok f"
  shows "push_effect q k f q' r"
proof -
  note bk = shard_wf_bucket [OF wf b]
  note st = stored_ok [OF bk ok, of t]
  note frame = push_admitted_frame [OF a]
  have nf: "k \<notin> filled_keys q" using b ok by (simp add: filled_keys_def)
  have fr: "frags_of q k = snd ` set (Fragments b)" using b by (simp add: frags_of_def)
  from a show ?thesis
  proof (cases rule: push_admitted_cases)
    case late
    have "bucket_ok (b\<lparr>filled := True\<rparr>)" using bk by (simp add: bucket_ok_def)
    from shard_wf_update [OF wf late(2) this] filled_keys_update [OF late(2)] frags_of_update [OF late(2)] nf frame fr late
    show ?thesis by (auto simp: push_effect_def update_conv')
  next
    case last
    have "complete ((stored b f t)\<lparr>filled := True\<rparr>)" using last(2) by (simp add: complete_def)
    with shard_wf_update [OF wf last(3) st(1)] filled_keys_update [OF last(3)] frags_of_update [OF last(3)]
      stored_frags [of b f t] nf frame fr last
    show ?thesis by (simp add: push_effect_def update_conv')
  next
    case more
    have "\<not> filled (stored b f t)" using ok by (simp add: stored_def)
    with shard_wf_update [OF wf more(3) st(2) [OF more(2)]] filled_keys_update [OF more(3)] frags_of_update [OF more(3)]
      stored_frags [of b f t] nf frame fr more
    show ?thesis by (simp add: push_effect_def update_conv')
  qed
qed

lemma push_effect_through:
  assumes "push_effect q1 k f q' r" and "\<And>j. j \<noteq> k \<Longrightarrow> map_of (Buckets q1) j = map_of (Buckets q) j"
    and "frags_of q1 k = frags_of q k" and "filled_keys q1 = filled_keys q" and "k \<notin> filled_keys q"
    and "keyQueue q1 = keyQueue q" "keyCap q1 = keyCap q" "InShutdown q1 = InShutdown q"
  shows "push_effect q k f q' r"
  using assms by (auto simp: push_effect_def split: option.splits)

lemma push_locked_effect:
  assumes p: "push_locked d q k f t = (q', r)" and wf: "shard_wf q" and f: "frag_ok f"
  shows "push_effect q k f q' r"
proof -
  define q0 where "q0 = metrics_upd (\<lambda>m. m\<lparr>sm_PushCount := sm_PushCount m + 1\<rparr>) q"
  have q0: "Buckets q0 = Buckets q" "shard_wf q0" "filled_keys q0 = filled_keys q" "keyQueue q0 = keyQueue q"
    "keyCap q0 = keyCap q" "InShutdown q0 = InShutdown q" "\<And>j. frags_of q0 j = frags_of q j"
    using wf by (simp_all add: q0_def)
  show ?thesis
  proof (cases "map_of (Buckets q) k")
    case None
    define q1 where "q1 = metrics_upd (\<lambda>m. m\<lparr>sm_TotalBuckets := sm_TotalBuckets m + 1\<rparr>)
      (put_bucket k (Bucket_new (MessageSeqMax f)) q0)"
    have "0 \<le> MessageSeqMax f" using f by (simp add: frag_ok_def)
    then have "shard_wf q1" using q0(2) by (simp add: q1_def shard_wf_put bucket_ok_new)
    moreover have "push_admitted d q1 k (Bucket_new (MessageSeqMax f)) f t = (q', r)"
      using p None q0(1) unfolding push_locked_def Let_def q0_def [symmetric] q1_def by simp
    ultimately have "push_effect q1 k f q' r"
      using push_admitted_effect [of d q1 k "Bucket_new (MessageSeqMax f)" f t q' r] f
      by (simp add: q1_def Bucket_new_def update_conv')
    moreover have "k \<notin> filled_keys q" "frags_of q k = {}" using None by (auto simp: filled_keys_def frags_of_def)
    ultimately show ?thesis
      using q0 by (intro push_effect_through [of q1 k f q' r q]) (auto simp: q1_def Bucket_new_def update_conv' frags_of_def)
  next
    case (Some b)
    show ?thesis
    proof (cases "filled b \<or> maxSeq b \<noteq> MessageSeqMax f")
      case True
      then have "q' = q0 \<and> r = None"
        using p Some q0(1) unfolding push_locked_def Let_def q0_def [symmetric] by (auto split: if_splits)
      then show ?thesis using q0 by (auto simp: push_effect_def)
    next
      case False
      then have "push_admitted d q0 k b f t = (q', r)"
        using p Some q0(1) unfolding push_locked_def Let_def q0_def [symmetric] by simp
      from push_admitted_effect [OF this q0(2) _ _ _ f] Some False q0 have "push_effect q0 k f q' r" by simp
      then show ?thesis
        using False Some q0 by (intro push_effect_through [of q0 k f q' r q]) (auto simp: filled_keys_def)
    qed
  qed
qed

text \<open>Draining and scanning.\<close>

lemma DrainBucket_filled:
  assumes wf: "shard_wf q" and k: "k \<in> filled_keys q"
  obtains b where "map_of (Buckets q) k = Some b" and "snd (DrainBucket q k) = Drained b" and "filled b"
    and "bucket_ok b" and "shard_wf (fst (DrainBucket q k))"
    and "filled_keys (fst (DrainBucket q k)) = filled_keys q - {k}"
    and "\<And>j. j \<noteq> k \<Longrightarrow> map_of (Buckets (fst (DrainBucket q k))) j = map_of (Buckets q) j"
    and "map_of (Buckets (fst (DrainBucket q k))) k = None"
    and "keyQueue (fst (DrainBucket q k)) = keyQueue q" and "keyCap (fst (DrainBucket q k)) = keyCap q"
proof -
  from k obtain b where b: "map_of (Buckets q) k = Some b" "filled b" by (auto simp: filled_keys_def)
  have wf': "shard_wf (fst (DrainBucket q k))"
    using wf b by (simp add: DrainBucket_def shard_wf_def distinct_delete list_all_delete)
  have "filled_keys (fst (DrainBucket q k)) = filled_keys q - {k}"
    using b by (auto simp: DrainBucket_def filled_keys_def delete_conv' split: if_splits)
  then show thesis
    using that [OF b(1) _ b(2) shard_wf_bucket [OF wf b(1)] wf'] b by (simp add: DrainBucket_def delete_conv')
qed

lemma scan_buckets_spec:
  assumes "scan_buckets d clock bs = (bs', keys)" and "distinct (map fst bs)" and "list_all (\<lambda>(k, b). bucket_ok b) bs"
  shows "map fst bs' = map fst bs" and "list_all (\<lambda>(k, b). bucket_ok b) bs'" and "distinct keys"
    and "set keys \<subseteq> {k. \<exists>b. map_of bs k = Some b \<and> \<not> filled b}"
    and "map_of bs' k = (if k \<in> set keys then map_option (\<lambda>b. b\<lparr>filled := True\<rparr>) (map_of bs k) else map_of bs k)"
proof -
  have "map fst bs' = map fst bs \<and> list_all (\<lambda>(k, b). bucket_ok b) bs' \<and> distinct keys \<and>
    set keys \<subseteq> {k. \<exists>b. map_of bs k = Some b \<and> \<not> filled b} \<and> set keys \<subseteq> fst ` set bs \<and>
    (\<forall>k. map_of bs' k = (if k \<in> set keys then map_option (\<lambda>b. b\<lparr>filled := True\<rparr>) (map_of bs k) else map_of bs k))"
    using assms
  proof (induction bs arbitrary: bs' keys)
    case (Cons kb bs)
    obtain k b where kb: "kb = (k, b)" by (cases kb)
    obtain bs1 keys1 where r: "scan_buckets d clock bs = (bs1, keys1)" by (cases "scan_buckets d clock bs")
    from Cons.IH [OF r] Cons.prems kb have IH: "map fst bs1 = map fst bs" "list_all (\<lambda>(k, b). bucket_ok b) bs1"
      "distinct keys1" "set keys1 \<subseteq> {k. \<exists>b. map_of bs k = Some b \<and> \<not> filled b}" "set keys1 \<subseteq> fst ` set bs"
      "\<And>k. map_of bs1 k = (if k \<in> set keys1 then map_option (\<lambda>b. b\<lparr>filled := True\<rparr>) (map_of bs k) else map_of bs k)"
      by auto
    have new: "k \<notin> set keys1" using IH(5) Cons.prems(2) kb by auto
    have "bucket_ok (b\<lparr>filled := True\<rparr>)" using Cons.prems(3) kb by (simp add: bucket_ok_def)
    with IH new Cons.prems kb r show ?case by (auto simp: Let_def split: if_splits)
  qed auto
  then show "map fst bs' = map fst bs" and "list_all (\<lambda>(k, b). bucket_ok b) bs'" and "distinct keys"
    and "set keys \<subseteq> {k. \<exists>b. map_of bs k = Some b \<and> \<not> filled b}"
    and "map_of bs' k = (if k \<in> set keys then map_option (\<lambda>b. b\<lparr>filled := True\<rparr>) (map_of bs k) else map_of bs k)"
    by blast+
qed

lemma timeout_scan_effect:
  assumes t: "timeout_scan d clock q = (q', keys)" and wf: "shard_wf q"
  shows "shard_wf q'" and "distinct keys" and "set keys \<inter> filled_keys q = {}"
    and "filled_keys q' = filled_keys q \<union> set keys" and "keyQueue q' = keyQueue q" and "keyCap q' = keyCap q"
    and "frags_of q' k = frags_of q k" and "k \<notin> set keys \<Longrightarrow> map_of (Buckets q') k = map_of (Buckets q) k"
    and "map fst (Buckets q') = map fst (Buckets q)"
proof -
  obtain bs where s: "scan_buckets d clock (Buckets q) = (bs, keys)" and q': "Buckets q' = bs"
    "keyQueue q' = keyQueue q" "keyCap q' = keyCap q"
    using t by (auto simp: timeout_scan_def Let_def split: prod.splits)
  have w: "distinct (map fst (Buckets q))" "list_all (\<lambda>(k, b). bucket_ok b) (Buckets q)"
    using wf by (simp_all add: shard_wf_def)
  note sp = scan_buckets_spec [OF s w]
  show "shard_wf q'" using sp(1,2) w(1) q' by (simp add: shard_wf_def)
  show "distinct keys" using sp(3) by simp
  show "set keys \<inter> filled_keys q = {}" using sp(4) by (fastforce simp: filled_keys_def)
  show "filled_keys q' = filled_keys q \<union> set keys"
    using sp(4,5) q' by (fastforce simp: filled_keys_def split: if_splits)
  show "keyQueue q' = keyQueue q" "keyCap q' = keyCap q" by (rule q')+
  show "frags_of q' k = frags_of q k"
    using sp(5) [of k] q' by (auto simp: frags_of_def split: option.splits if_splits)
  show "k \<notin> set keys \<Longrightarrow> map_of (Buckets q') k = map_of (Buckets q) k" using sp(5) [of k] q' by simp
  show "map fst (Buckets q') = map fst (Buckets q)" using sp(1) q' by simp
qed

end
