(* ===== verification/Shard_Concurrent.thy ===== *)
theory Shard_Concurrent
  imports Shard_Queue
begin

text \<open>
  One shard under concurrency: any number of processors that push fragments, the deadline watcher
  and the one assembler, interleaved. A push runs under the mutex, which it keeps while its send to
  the key queue blocks; the watcher sends outside the mutex and counts after the send; the assembler
  receives a key, then takes the mutex to count, then again to drain. A context that is done is
  possible only where the first argument of the step allows it. History variables record the
  fragments offered, the keys that the deadline finished and the buckets drained.
\<close>

section \<open>States and steps\<close>

datatype asm_pc = AsmIdle | AsmKey bytes | AsmDrain bytes

record shard_sys =
  shard :: Shard
  sending :: "(bytes \<times> bool) option"
  watch :: "bytes list"
  counting :: bool
  asm :: asm_pc
  out :: "(bytes \<times> Bucket) list"
  offered :: "(bytes \<times> Payload) list"
  expired :: "bytes list"
  crashed :: bool

definition sys_start :: "bytes list \<Rightarrow> nat \<Rightarrow> shard_sys" where
  "sys_start ns buffer = \<lparr> shard = Shard_New ns buffer, sending = None, watch = [], counting = False,
     asm = AsmIdle, out = [], offered = [], expired = [], crashed = False \<rparr>"

definition late_keys :: "(bytes \<times> bool) option \<Rightarrow> bytes list" where
  "late_keys r = (case r of Some (k, True) \<Rightarrow> [k] | _ \<Rightarrow> [])"

inductive shard_step :: "bool \<Rightarrow> shard_sys \<Rightarrow> shard_sys \<Rightarrow> bool" for stop where
  push_enter: "sending s = None \<Longrightarrow> frag_ok f \<Longrightarrow> push_locked d (shard s) k f t = (q, r) \<Longrightarrow>
    shard_step stop s (s\<lparr>shard := q, sending := r, offered := (k, f) # offered s, expired := late_keys r @ expired s\<rparr>)"
| push_send: "sending s = Some kl \<Longrightarrow> length (keyQueue (shard s)) < keyCap (shard s) \<Longrightarrow>
    shard_step stop s (s\<lparr>shard := send_key (shard s) kl, sending := None\<rparr>)"
| push_cancel: "stop \<Longrightarrow> sending s = Some kl \<Longrightarrow> shard_step stop s (s\<lparr>sending := None\<rparr>)"
| watch_scan: "sending s = None \<Longrightarrow> watch s = [] \<Longrightarrow> \<not> counting s \<Longrightarrow> timeout_scan d clock (shard s) = (q, keys) \<Longrightarrow>
    shard_step stop s (s\<lparr>shard := q, watch := keys, expired := keys @ expired s\<rparr>)"
| watch_send: "watch s = k # ks \<Longrightarrow> \<not> counting s \<Longrightarrow> length (keyQueue (shard s)) < keyCap (shard s) \<Longrightarrow>
    shard_step stop s (s\<lparr>shard := (shard s)\<lparr>keyQueue := keyQueue (shard s) @ [k]\<rparr>, watch := ks, counting := True\<rparr>)"
| watch_count: "counting s \<Longrightarrow>
    shard_step stop s (s\<lparr>shard := metrics_upd (\<lambda>m. m\<lparr>sm_WaitingBuckets := sm_WaitingBuckets m + 1\<rparr>) (shard s), counting := False\<rparr>)"
| watch_stop: "stop \<Longrightarrow> \<not> counting s \<Longrightarrow> shard_step stop s (s\<lparr>watch := []\<rparr>)"
| asm_receive: "asm s = AsmIdle \<Longrightarrow> keyQueue (shard s) = k # ks \<Longrightarrow>
    shard_step stop s (s\<lparr>shard := (pop_counted (shard s))\<lparr>keyQueue := ks\<rparr>, asm := AsmKey k\<rparr>)"
| asm_count: "asm s = AsmKey k \<Longrightarrow> sending s = None \<Longrightarrow>
    shard_step stop s (s\<lparr>shard := waiting_decrement (shard s), asm := AsmDrain k\<rparr>)"
| asm_drain: "asm s = AsmDrain k \<Longrightarrow> sending s = None \<Longrightarrow> DrainBucket (shard s) k = (q, Drained b) \<Longrightarrow>
    shard_step stop s (s\<lparr>shard := q, asm := AsmIdle, out := (k, b) # out s\<rparr>)"
| asm_fatal: "asm s = AsmDrain k \<Longrightarrow> sending s = None \<Longrightarrow> DrainBucket (shard s) k = (q, FatalUnlock) \<Longrightarrow>
    shard_step stop s (s\<lparr>crashed := True\<rparr>)"

inductive shard_reachable :: "bool \<Rightarrow> bytes list \<Rightarrow> nat \<Rightarrow> shard_sys \<Rightarrow> bool" for stop ns buffer where
  start: "shard_reachable stop ns buffer (sys_start ns buffer)"
| step: "shard_reachable stop ns buffer s \<Longrightarrow> shard_step stop s s' \<Longrightarrow> shard_reachable stop ns buffer s'"

section \<open>The invariant\<close>

text \<open>The keys on their way to the assembler.\<close>

fun asm_keys :: "asm_pc \<Rightarrow> bytes list" where
  "asm_keys AsmIdle = []"
| "asm_keys (AsmKey k) = [k]"
| "asm_keys (AsmDrain k) = [k]"

definition inflight :: "shard_sys \<Rightarrow> bytes list" where
  "inflight s = keyQueue (shard s) @ watch s @ (case sending s of Some (k, _) \<Rightarrow> [k] | None \<Rightarrow> []) @ asm_keys (asm s)"

definition out_ok :: "(bytes \<times> Payload) list \<Rightarrow> bytes list \<Rightarrow> bytes \<times> Bucket \<Rightarrow> bool" where
  "out_ok offers late = (\<lambda>(k, b). bucket_ok b \<and> filled b \<and> (\<forall>f \<in> snd ` set (Fragments b). (k, f) \<in> set offers) \<and>
     (k \<notin> set late \<longrightarrow> complete b))"

definition sys_inv :: "shard_sys \<Rightarrow> bool" where
  "sys_inv s \<longleftrightarrow> shard_wf (shard s) \<and> \<not> crashed s \<and>
     distinct (inflight s) \<and> set (inflight s) \<subseteq> filled_keys (shard s) \<and>
     (\<forall>k. \<forall>f \<in> frags_of (shard s) k. (k, f) \<in> set (offered s)) \<and>
     (\<forall>k b. map_of (Buckets (shard s)) k = Some b \<and> filled b \<and> k \<notin> set (expired s) \<longrightarrow> complete b) \<and>
     list_all (out_ok (offered s) (expired s)) (out s)"

definition no_loss :: "shard_sys \<Rightarrow> bool" where
  "no_loss s \<longleftrightarrow> filled_keys (shard s) \<subseteq> set (inflight s)"

lemma out_ok_mono:
  "list_all (out_ok os es) xs \<Longrightarrow> set os \<subseteq> set os' \<Longrightarrow> set es \<subseteq> set es' \<Longrightarrow> list_all (out_ok os' es') xs"
  by (fastforce simp: out_ok_def list_all_iff)

lemma sys_inv_start: "sys_inv (sys_start ns buffer)"
  by (simp add: sys_inv_def sys_start_def Shard_New_def inflight_def shard_wf_def frags_of_def)

lemma no_loss_start: "no_loss (sys_start ns buffer)"
  by (simp add: no_loss_def sys_start_def Shard_New_def inflight_def filled_keys_def)

lemma sys_invI:
  assumes "shard_wf (shard s)" and "\<not> crashed s" and "distinct (inflight s)"
    and "set (inflight s) \<subseteq> filled_keys (shard s)"
    and "\<And>k f. f \<in> frags_of (shard s) k \<Longrightarrow> (k, f) \<in> set (offered s)"
    and "\<And>k b. map_of (Buckets (shard s)) k = Some b \<Longrightarrow> filled b \<Longrightarrow> k \<notin> set (expired s) \<Longrightarrow> complete b"
    and "list_all (out_ok (offered s) (expired s)) (out s)"
  shows "sys_inv s"
  using assms unfolding sys_inv_def by blast

lemma sys_invD:
  assumes "sys_inv s"
  shows "shard_wf (shard s)" and "\<not> crashed s" and "distinct (inflight s)"
    and "set (inflight s) \<subseteq> filled_keys (shard s)"
    and "f \<in> frags_of (shard s) k \<Longrightarrow> (k, f) \<in> set (offered s)"
    and "map_of (Buckets (shard s)) k = Some b \<Longrightarrow> filled b \<Longrightarrow> k \<notin> set (expired s) \<Longrightarrow> complete b"
    and "list_all (out_ok (offered s) (expired s)) (out s)"
  using assms unfolding sys_inv_def by blast+

text \<open>A step that moves keys between the places of \<open>inflight\<close> and changes metrics only.\<close>

lemma distinct_submset:
  assumes "mset xs \<subseteq># mset ys" and "distinct ys"
  shows "distinct xs"
proof -
  from assms(1) obtain zs where "mset ys = mset (xs @ zs)" by (metis ex_mset mset_append mset_subset_eq_exists_conv)
  then show ?thesis using assms(2) by (metis distinct_append mset_eq_imp_distinct_iff)
qed

lemma sys_inv_move:
  assumes "sys_inv s" and "Buckets (shard s') = Buckets (shard s)" and "crashed s' = crashed s"
    and "offered s' = offered s" "expired s' = expired s" "out s' = out s"
    and "mset (inflight s') \<subseteq># mset (inflight s)"
  shows "sys_inv s'"
proof (rule sys_invI)
  note D = sys_invD [OF assms(1)]
  have same: "shard_wf (shard s') = shard_wf (shard s)" "filled_keys (shard s') = filled_keys (shard s)"
    "\<And>k. frags_of (shard s') k = frags_of (shard s) k"
    using assms(2) by (simp_all add: shard_wf_def filled_keys_def frags_of_def)
  show "distinct (inflight s')" using distinct_submset [OF assms(7) D(3)] .
  show "set (inflight s') \<subseteq> filled_keys (shard s')"
    using D(4) set_mset_mono [OF assms(7)] same by auto
qed (use sys_invD [OF assms(1)] assms in \<open>auto simp: shard_wf_def filled_keys_def frags_of_def\<close>)

lemma no_loss_move:
  assumes "no_loss s" and "Buckets (shard s') = Buckets (shard s)" and "set (inflight s') = set (inflight s)"
  shows "no_loss s'"
  using assms by (simp add: no_loss_def filled_keys_def)

section \<open>Preservation\<close>

lemma inv_push_enter:
  assumes inv: "sys_inv s" and idle: "sending s = None" and f: "frag_ok f"
    and p: "push_locked d (shard s) k f t = (q, r)"
  shows "sys_inv (s\<lparr>shard := q, sending := r, offered := (k, f) # offered s, expired := late_keys r @ expired s\<rparr>)"
    (is "sys_inv ?s")
proof (rule sys_invI)
  note D = sys_invD [OF inv]
  note e = push_locked_effect [OF p D(1) f, unfolded push_effect_def]
  have fl: "filled_keys q = filled_keys (shard s) \<union> (case r of Some (k', _) \<Rightarrow> {k'} | None \<Rightarrow> {})"
    and new: "\<And>k' l. r = Some (k', l) \<Longrightarrow> k' = k \<and> k \<notin> filled_keys (shard s)"
    and fin: "\<And>k'. r = Some (k', False) \<Longrightarrow> \<exists>b. map_of (Buckets q) k = Some b \<and> complete b"
    using e by (auto split: option.splits)
  show "shard_wf (shard ?s)" "\<not> crashed ?s" using e D(2) by auto
  show "distinct (inflight ?s)" "set (inflight ?s) \<subseteq> filled_keys (shard ?s)"
    using D(3,4) e idle new fl by (auto simp: inflight_def split: option.splits)
  show "(j, g) \<in> set (offered ?s)" if "g \<in> frags_of (shard ?s) j" for j g
  proof (cases "j = k")
    case True
    then show ?thesis using that e D(5) [of g k] by auto
  next
    case False
    then show ?thesis using that e D(5) [of g j] by (auto simp: frags_of_def)
  qed
  show "complete b" if b: "map_of (Buckets (shard ?s)) j = Some b" "filled b" and j: "j \<notin> set (expired ?s)" for j b
  proof (cases "j = k \<and> r \<noteq> None")
    case True
    then obtain k' where "r = Some (k', False)" using j new by (auto simp: late_keys_def split: option.splits bool.splits)
    then show ?thesis using fin b True by auto
  next
    case False
    have "j \<in> filled_keys q" using b by (auto simp: filled_keys_def)
    then have "map_of (Buckets (shard s)) j = Some b"
      using e b False fl by (cases "j = k") (auto split: option.splits)
    then show ?thesis using D(6) b j by simp
  qed
  show "list_all (out_ok (offered ?s) (expired ?s)) (out ?s)"
    using out_ok_mono [OF D(7)] by (auto simp: subset_insertI)
qed

lemma inv_watch_scan:
  assumes inv: "sys_inv s" and w: "watch s = []" and t: "timeout_scan d clock (shard s) = (q, keys)"
  shows "sys_inv (s\<lparr>shard := q, watch := keys, expired := keys @ expired s\<rparr>)" (is "sys_inv ?s")
proof (rule sys_invI)
  note D = sys_invD [OF inv]
  note e = timeout_scan_effect [OF t D(1)]
  show "shard_wf (shard ?s)" "\<not> crashed ?s" using e D(2) by auto
  show "distinct (inflight ?s)" "set (inflight ?s) \<subseteq> filled_keys (shard ?s)"
    using D(3,4) e(2-5) w by (auto simp: inflight_def)
  show "(j, g) \<in> set (offered ?s)" if "g \<in> frags_of (shard ?s) j" for j g
    using that e(7) D(5) by simp
  show "complete b" if "map_of (Buckets (shard ?s)) j = Some b" "filled b" "j \<notin> set (expired ?s)" for j b
    using that e(8) [of j] D(6) [of j b] by simp
  show "list_all (out_ok (offered ?s) (expired ?s)) (out ?s)"
    using out_ok_mono [OF D(7)] by (auto simp: subset_insertI)
qed

lemma inv_asm_drain:
  assumes inv: "sys_inv s" and a: "asm s = AsmDrain k" and dr: "DrainBucket (shard s) k = (q, Drained b)"
  shows "sys_inv (s\<lparr>shard := q, asm := AsmIdle, out := (k, b) # out s\<rparr>)" (is "sys_inv ?s")
proof (rule sys_invI)
  note D = sys_invD [OF inv]
  have k: "k \<in> filled_keys (shard s)" using D(4) a by (auto simp: inflight_def)
  have b: "map_of (Buckets (shard s)) k = Some b" "filled b" "bucket_ok b" and q: "shard_wf q"
    "filled_keys q = filled_keys (shard s) - {k}" "\<And>j. j \<noteq> k \<Longrightarrow> map_of (Buckets q) j = map_of (Buckets (shard s)) j"
    "map_of (Buckets q) k = None" "keyQueue q = keyQueue (shard s)"
    using DrainBucket_filled [OF D(1) k] dr by (metis fst_conv snd_conv drain_result.inject)+
  show "shard_wf (shard ?s)" "\<not> crashed ?s" using q D(2) by auto
  show "distinct (inflight ?s)" "set (inflight ?s) \<subseteq> filled_keys (shard ?s)"
    using D(3,4) q a by (auto simp: inflight_def)
  show "(j, g) \<in> set (offered ?s)" if "g \<in> frags_of (shard ?s) j" for j g
    using that q(3,4) D(5) [of g j] by (cases "j = k") (auto simp: frags_of_def)
  show "complete c" if "map_of (Buckets (shard ?s)) j = Some c" "filled c" "j \<notin> set (expired ?s)" for j c
    using that q(3,4) D(6) [of j c] by (cases "j = k") auto
  show "list_all (out_ok (offered ?s) (expired ?s)) (out ?s)"
    using D(5-7) b by (auto simp: out_ok_def frags_of_def)
qed

text \<open>The key that the assembler holds has a finished bucket, so the fatal branch is never taken.\<close>

lemma no_fatal:
  assumes "sys_inv s" and "asm s = AsmDrain k"
  shows "snd (DrainBucket (shard s) k) \<noteq> FatalUnlock"
proof -
  have "k \<in> filled_keys (shard s)" using sys_invD(4) [OF assms(1)] assms(2) by (auto simp: inflight_def)
  then obtain b where "map_of (Buckets (shard s)) k = Some b" by (auto simp: filled_keys_def)
  then show ?thesis by (simp add: DrainBucket_def)
qed

lemmas inflight_defs = inflight_def send_key_def pop_counted_def waiting_decrement_def

lemma sys_inv_step:
  assumes "shard_step stop s s'" and inv: "sys_inv s"
  shows "sys_inv s'"
  using assms(1)
proof cases
  case (push_enter f d k t q r)
  then show ?thesis using inv_push_enter [OF inv] by simp
next
  case (push_send kl)
  then show ?thesis by (intro sys_inv_move [OF inv]) (auto simp: inflight_defs split: prod.splits)
next
  case (push_cancel kl)
  then show ?thesis by (intro sys_inv_move [OF inv]) (auto simp: inflight_defs split: prod.splits)
next
  case (watch_scan d clock q keys)
  then show ?thesis using inv_watch_scan [OF inv] by simp
next
  case (watch_send k ks)
  then show ?thesis by (intro sys_inv_move [OF inv]) (auto simp: inflight_defs)
next
  case watch_count
  then show ?thesis by (intro sys_inv_move [OF inv]) (auto simp: inflight_defs)
next
  case watch_stop
  then show ?thesis by (intro sys_inv_move [OF inv]) (auto simp: inflight_defs)
next
  case (asm_receive k ks)
  then show ?thesis by (intro sys_inv_move [OF inv]) (auto simp: inflight_defs)
next
  case (asm_count k)
  then show ?thesis by (intro sys_inv_move [OF inv]) (auto simp: inflight_defs)
next
  case (asm_drain k q b)
  then show ?thesis using inv_asm_drain [OF inv] by simp
next
  case (asm_fatal k q)
  then show ?thesis using no_fatal [OF inv] by fastforce
qed

lemma shard_reachable_inv: "shard_reachable stop ns buffer s \<Longrightarrow> sys_inv s"
  by (induction rule: shard_reachable.induct) (auto simp: sys_inv_start intro: sys_inv_step)

lemma no_loss_step:
  assumes "shard_step False s s'" and inv: "sys_inv s" and nl: "no_loss s"
  shows "no_loss s'"
  using assms(1)
proof cases
  case (push_enter f d k t q r)
  note e = push_locked_effect [OF push_enter(4) sys_invD(1) [OF inv] push_enter(3), unfolded push_effect_def]
  show ?thesis using push_enter(1,2) e nl by (auto simp: no_loss_def inflight_def split: option.splits)
next
  case (watch_scan d clock q keys)
  note e = timeout_scan_effect [OF watch_scan(5) sys_invD(1) [OF inv]]
  show ?thesis using watch_scan(1,3) e(4,5) nl by (auto simp: no_loss_def inflight_def)
next
  case (asm_drain k q b)
  have "k \<in> filled_keys (shard s)" using sys_invD(4) [OF inv] asm_drain(2) by (auto simp: inflight_def)
  then have "filled_keys q = filled_keys (shard s) - {k}" "keyQueue q = keyQueue (shard s)"
    using DrainBucket_filled [OF sys_invD(1) [OF inv]] asm_drain(4) by (metis fst_conv)+
  then show ?thesis using asm_drain(1,2) nl by (auto simp: no_loss_def inflight_def)
next
  case (asm_fatal k q)
  then show ?thesis using no_fatal [OF inv] by fastforce
qed (use nl in \<open>auto intro!: no_loss_move [OF nl] simp: inflight_defs split: prod.splits\<close>)

lemma shard_reachable_no_loss: "shard_reachable False ns buffer s \<Longrightarrow> no_loss s"
  by (induction rule: shard_reachable.induct) (auto simp: no_loss_start intro: no_loss_step shard_reachable_inv)

section \<open>Executions\<close>

lemma complete_seqs:
  assumes "bucket_ok b" and "complete b"
  shows "set (map fst (Fragments b)) = {0..maxSeq b}"
proof (rule card_subset_eq)
  show "finite {0..maxSeq b}" by simp
  show "set (map fst (Fragments b)) \<subseteq> {0..maxSeq b}"
    using assms(1) by (auto simp: bucket_ok_def frag_ok_def list_all_iff)
  show "card (set (map fst (Fragments b))) = card {0..maxSeq b}"
    using assms distinct_card [of "map fst (Fragments b)"] by (simp add: bucket_ok_def complete_def)
qed

text \<open>A message of one fragment finishes its bucket at once.\<close>

definition lone :: Payload where "lone = Payload_zero"

definition nth_key :: "nat \<Rightarrow> bytes" where "nth_key i = replicate i 0"

lemma nth_key_eq [simp]: "nth_key i = nth_key j \<longleftrightarrow> i = j"
  unfolding nth_key_def by (metis length_replicate)

lemma push_lone:
  assumes "map_of (Buckets q) k = None"
  obtains q' where "push_locked 0 q k lone t = (q', Some (k, False))" and "keyQueue q' = keyQueue q"
    and "keyCap q' = keyCap q" and "\<And>j. j \<noteq> k \<Longrightarrow> map_of (Buckets q') j = map_of (Buckets q) j"
proof -
  have z: "UnixNano Time_zero \<le> 0" by code_simp
  obtain q' r where p: "push_locked 0 q k lone t = (q', r)" by (cases "push_locked 0 q k lone t")
  have "r = Some (k, False) \<and> keyQueue q' = keyQueue q \<and> keyCap q' = keyCap q \<and>
      (\<forall>j. j \<noteq> k \<longrightarrow> map_of (Buckets q') j = map_of (Buckets q) j)"
    using p assms z
    by (auto simp: push_locked_def push_admitted_def Let_def Bucket_new_def lone_def Payload_zero_def update_conv')
  then show thesis using that p by blast
qed

lemma frag_ok_lone: "frag_ok lone"
  by (simp add: frag_ok_def lone_def Payload_zero_def)

text \<open>The state that has pushed the first \<open>i\<close> messages and has \<open>n\<close> keys waiting.\<close>

definition pushed_up_to :: "nat \<Rightarrow> nat \<Rightarrow> nat \<Rightarrow> shard_sys \<Rightarrow> bool" where
  "pushed_up_to buffer n i s \<longleftrightarrow> sending s = None \<and> watch s = [] \<and> \<not> counting s \<and>
     length (keyQueue (shard s)) = n \<and> keyCap (shard s) = buffer \<and> (\<forall>j \<ge> i. map_of (Buckets (shard s)) (nth_key j) = None)"

lemma push_one:
  assumes r: "shard_reachable False ns buffer s" and s: "pushed_up_to buffer n i s"
  obtains s1 where "shard_reachable False ns buffer s1" and "sending s1 = Some (nth_key i, False)"
    and "pushed_up_to buffer n (Suc i) (s1\<lparr>sending := None\<rparr>)" and "asm s1 = asm s"
proof -
  from s have k: "map_of (Buckets (shard s)) (nth_key i) = None" by (simp add: pushed_up_to_def)
  obtain q where q: "push_locked 0 (shard s) (nth_key i) lone 0 = (q, Some (nth_key i, False))"
    "keyQueue q = keyQueue (shard s)" "keyCap q = keyCap (shard s)"
    "\<And>j. j \<noteq> nth_key i \<Longrightarrow> map_of (Buckets q) j = map_of (Buckets (shard s)) j"
    using push_lone [OF k] by blast
  let ?s = "s\<lparr>shard := q, sending := Some (nth_key i, False), offered := (nth_key i, lone) # offered s,
    expired := late_keys (Some (nth_key i, False)) @ expired s\<rparr>"
  have "shard_reachable False ns buffer ?s"
    using r shard_step.push_enter [OF _ frag_ok_lone q(1), of False] s
    by (intro shard_reachable.step [OF r]) (simp add: pushed_up_to_def)
  moreover have "pushed_up_to buffer n (Suc i) (?s\<lparr>sending := None\<rparr>)"
    using s q by (auto simp: pushed_up_to_def)
  ultimately show thesis using that [of ?s] by simp
qed

lemma push_two:
  assumes r: "shard_reachable False ns buffer s" and s: "pushed_up_to buffer n i s" and room: "n < buffer"
  obtains s1 where "shard_reachable False ns buffer s1" and "pushed_up_to buffer (Suc n) (Suc i) s1" and "asm s1 = asm s"
proof -
  obtain s1 where s1: "shard_reachable False ns buffer s1" "sending s1 = Some (nth_key i, False)"
    "pushed_up_to buffer n (Suc i) (s1\<lparr>sending := None\<rparr>)" "asm s1 = asm s"
    using push_one [OF r s] by blast
  let ?s = "s1\<lparr>shard := send_key (shard s1) (nth_key i, False), sending := None\<rparr>"
  have "shard_reachable False ns buffer ?s"
    using s1 room by (intro shard_reachable.step [OF s1(1)] shard_step.push_send) (auto simp: pushed_up_to_def)
  moreover have "pushed_up_to buffer (Suc n) (Suc i) ?s"
    using s1(3) by (auto simp: pushed_up_to_def send_key_def)
  ultimately show thesis using that [of ?s] s1(4) by simp
qed

lemma fill_queue:
  "i \<le> buffer \<Longrightarrow> \<exists>s. shard_reachable False ns buffer s \<and> pushed_up_to buffer i i s \<and> asm s = AsmIdle"
proof (induction i)
  case 0
  then show ?case
    by (intro exI [of _ "sys_start ns buffer"] conjI shard_reachable.start)
      (auto simp: pushed_up_to_def sys_start_def Shard_New_def)
next
  case (Suc i)
  then obtain s where s: "shard_reachable False ns buffer s" "pushed_up_to buffer i i s" "asm s = AsmIdle" by auto
  then show ?case using push_two [OF s(1,2)] Suc.prems by (metis Suc_le_lessD)
qed

lemma stuck_state:
  assumes "sending s = Some kl" and "keyCap (shard s) \<le> length (keyQueue (shard s))" and "asm s = AsmKey k" and "\<not> counting s"
  shows "\<not> shard_step False s s'"
  using assms by (auto elim!: shard_step.cases)

text \<open>Schedules of moves, each with its guard; a move that is not enabled does nothing.\<close>

datatype move =
    MPush int bytes Payload int
  | MSend
  | MScan int "bytes \<Rightarrow> int"
  | MWatchSend
  | MWatchCount
  | MReceive
  | MCount
  | MDrain

fun do_move :: "move \<Rightarrow> shard_sys \<Rightarrow> shard_sys" where
  "do_move (MPush d k f t) s =
     (if sending s = None \<and> frag_ok f
      then (case push_locked d (shard s) k f t of (q, r) \<Rightarrow>
              s\<lparr>shard := q, sending := r, offered := (k, f) # offered s, expired := late_keys r @ expired s\<rparr>)
      else s)"
| "do_move MSend s =
     (case sending s of
        Some kl \<Rightarrow> if length (keyQueue (shard s)) < keyCap (shard s)
          then s\<lparr>shard := send_key (shard s) kl, sending := None\<rparr> else s
      | None \<Rightarrow> s)"
| "do_move (MScan d clock) s =
     (if sending s = None \<and> watch s = [] \<and> \<not> counting s
      then (case timeout_scan d clock (shard s) of (q, keys) \<Rightarrow>
              s\<lparr>shard := q, watch := keys, expired := keys @ expired s\<rparr>)
      else s)"
| "do_move MWatchSend s =
     (case watch s of
        k # ks \<Rightarrow> if \<not> counting s \<and> length (keyQueue (shard s)) < keyCap (shard s)
          then s\<lparr>shard := (shard s)\<lparr>keyQueue := keyQueue (shard s) @ [k]\<rparr>, watch := ks, counting := True\<rparr> else s
      | [] \<Rightarrow> s)"
| "do_move MWatchCount s =
     (if counting s then s\<lparr>shard := metrics_upd (\<lambda>m. m\<lparr>sm_WaitingBuckets := sm_WaitingBuckets m + 1\<rparr>) (shard s), counting := False\<rparr>
      else s)"
| "do_move MReceive s =
     (case (asm s, keyQueue (shard s)) of
        (AsmIdle, k # ks) \<Rightarrow> s\<lparr>shard := (pop_counted (shard s))\<lparr>keyQueue := ks\<rparr>, asm := AsmKey k\<rparr>
      | _ \<Rightarrow> s)"
| "do_move MCount s =
     (case asm s of
        AsmKey k \<Rightarrow> if sending s = None then s\<lparr>shard := waiting_decrement (shard s), asm := AsmDrain k\<rparr> else s
      | _ \<Rightarrow> s)"
| "do_move MDrain s =
     (case asm s of
        AsmDrain k \<Rightarrow> if sending s = None
          then (case DrainBucket (shard s) k of
                  (q, Drained b) \<Rightarrow> s\<lparr>shard := q, asm := AsmIdle, out := (k, b) # out s\<rparr>
                | (q, FatalUnlock) \<Rightarrow> s\<lparr>crashed := True\<rparr>)
          else s
      | _ \<Rightarrow> s)"

lemma do_move_step: "do_move m s = s \<or> shard_step stop s (do_move m s)"
  by (cases m) (auto split: option.split list.split asm_pc.split prod.split drain_result.split intro: shard_step.intros)

lemma moves_reachable: "shard_reachable stop ns buffer s \<Longrightarrow> shard_reachable stop ns buffer (fold do_move ms s)"
  by (induction ms arbitrary: s) (auto, metis do_move_step shard_reachable.step)

lemmas moves_from_start = moves_reachable [OF shard_reachable.start]

section \<open>Properties\<close>

text \<open>
  C22. A shard delivers intact buckets whatever the interleaving: the assembler never takes the fatal
  branch of \<^verbatim>\<open>DrainBucket\<close>; no key is handed to the assembler twice at a time and each stands for
  a finished bucket; a drained bucket holds fragments of its own message only, one per sequence
  number, with the sequence numbers complete unless the deadline finished it; and as long as no
  context is cancelled every finished bucket is on its way to the assembler.
\<close>

theorem shard_delivers_intact:
  assumes "shard_reachable stop ns buffer s"
  shows "\<not> crashed s \<and> distinct (inflight s) \<and> set (inflight s) \<subseteq> filled_keys (shard s) \<and>
    (\<forall>(k, b) \<in> set (out s). distinct (map fst (Fragments b)) \<and>
       (\<forall>(i, f) \<in> set (Fragments b). MessageSeq f = i \<and> MessageSeqMax f = maxSeq b \<and> (k, f) \<in> set (offered s)) \<and>
       (k \<notin> set (expired s) \<longrightarrow> set (map fst (Fragments b)) = {0..maxSeq b})) \<and>
    (\<not> stop \<longrightarrow> filled_keys (shard s) = set (inflight s))"
proof -
  note D = sys_invD [OF shard_reachable_inv [OF assms]]
  have "\<not> stop \<Longrightarrow> filled_keys (shard s) = set (inflight s)"
    using shard_reachable_no_loss [of ns buffer s] assms D(4) by (cases stop) (auto simp: no_loss_def)
  moreover have "distinct (map fst (Fragments b)) \<and>
       (\<forall>(i, f) \<in> set (Fragments b). MessageSeq f = i \<and> MessageSeqMax f = maxSeq b \<and> (k, f) \<in> set (offered s)) \<and>
       (k \<notin> set (expired s) \<longrightarrow> set (map fst (Fragments b)) = {0..maxSeq b})" if "(k, b) \<in> set (out s)" for k b
    using D(7) that complete_seqs [of b] by (fastforce simp: list_all_iff out_ok_def bucket_ok_def)
  ultimately show ?thesis using D(2-4) by blast
qed

theorem shard_delivers_intact_witness:
  "let s = fold do_move [MPush 0 [1] lone 5, MSend, MReceive, MCount, MDrain] (sys_start [] 2)
   in map fst (out s) = [[1]] \<and> \<not> crashed s \<and> filled_keys (shard s) = set (inflight s)"
proof -
  let ?s = "fold do_move [MPush 0 [1] lone 5, MSend, MReceive, MCount, MDrain] (sys_start [] 2)"
  have "map fst (out ?s) = [[1]]" by code_simp
  moreover have "shard_reachable False [] 2 ?s" by (rule moves_from_start)
  ultimately show ?thesis using shard_delivers_intact [of False "[]" 2 ?s] unfolding Let_def by blast
qed

text \<open>
  C23. A shard can deadlock, for every buffer size: the assembler takes a key and waits for the mutex
  to count it, a push that holds the mutex waits for room in the key queue, and only the assembler
  makes room. No thread can move unless a context is cancelled, although messages are waiting.
\<close>

theorem shard_can_deadlock:
  assumes "0 < buffer"
  shows "\<exists>s. shard_reachable False ns buffer s \<and> (\<nexists>s'. shard_step False s s') \<and> length (keyQueue (shard s)) = buffer"
proof -
  obtain s where s: "shard_reachable False ns buffer s" "pushed_up_to buffer buffer buffer s" "asm s = AsmIdle"
    using fill_queue [of buffer buffer ns] by auto
  obtain k ks where k: "keyQueue (shard s) = k # ks" "Suc (length ks) = buffer"
    using s(2) assms by (cases "keyQueue (shard s)") (auto simp: pushed_up_to_def)
  let ?s = "s\<lparr>shard := (pop_counted (shard s))\<lparr>keyQueue := ks\<rparr>, asm := AsmKey k\<rparr>"
  have "shard_reachable False ns buffer ?s"
    by (rule shard_reachable.step [OF s(1) shard_step.asm_receive [OF s(3) k(1)]])
  moreover have "pushed_up_to buffer (length ks) buffer ?s"
    using s(2) k by (auto simp: pushed_up_to_def pop_counted_def)
  moreover have "length ks < buffer" using k(2) by simp
  moreover have "asm ?s = AsmKey k" by simp
  ultimately obtain s1 where s1: "shard_reachable False ns buffer s1" "pushed_up_to buffer buffer (Suc buffer) s1" "asm s1 = AsmKey k"
    using push_two [of ns buffer ?s "length ks" buffer] unfolding k(2) by metis
  then obtain s2 where s2: "shard_reachable False ns buffer s2" "sending s2 = Some (nth_key (Suc buffer), False)"
    "pushed_up_to buffer buffer (Suc (Suc buffer)) (s2\<lparr>sending := None\<rparr>)" "asm s2 = AsmKey k"
    using push_one [OF s1(1,2)] by metis
  then have "\<not> shard_step False s2 s'" for s'
    by (intro stuck_state [of s2 "(nth_key (Suc buffer), False)" k]) (auto simp: pushed_up_to_def)
  then show ?thesis using s2(1,3) by (auto simp: pushed_up_to_def)
qed

theorem shard_can_deadlock_witness:
  "\<exists>s. shard_reachable False [] 1024 s \<and> (\<nexists>s'. shard_step False s s') \<and> length (keyQueue (shard s)) = 1024"
  using shard_can_deadlock [of 1024 "[]"] by simp

text \<open>
  The gauge of waiting buckets can drift: the watcher counts a key after sending it and outside the
  mutex, so the assembler's decrement can come first and be lost at zero. Here the shard is empty
  and nothing is in flight, and the gauge is one (buffer size 1024, as in production).
\<close>

theorem waiting_gauge_drifts:
  "\<exists>s. shard_reachable False [] 1024 s \<and> inflight s = [] \<and> Buckets (shard s) = [] \<and> \<not> counting s \<and>
     sm_WaitingBuckets (sh_Metrics (shard s)) = 1"
proof -
  let ?s = "fold do_move [MPush 10 [1] (lone\<lparr>MessageSeqMax := 1\<rparr>) 5, MScan 10 (\<lambda>_. 50), MWatchSend, MReceive, MCount,
    MWatchCount, MDrain] (sys_start [] 1024)"
  have "inflight ?s = [] \<and> Buckets (shard ?s) = [] \<and> \<not> counting ?s \<and> sm_WaitingBuckets (sh_Metrics (shard ?s)) = 1"
    by code_simp
  then show ?thesis using moves_from_start by blast
qed

end
