(* ===== verification/Shard_Routing.thy ===== *)
theory Shard_Routing
  imports Shard_Queue
begin

text \<open>
  Routing of fragments to shards: \<^verbatim>\<open>internal/receiver/shard/routing.go\<close>, and behind its interface
  \<^verbatim>\<open>RoutingView\<close> the routing snapshot of \<^verbatim>\<open>internal/receiver/assembler\<close> (\<^verbatim>\<open>routing.go\<close>,
  \<^verbatim>\<open>runtime.go\<close>, \<^verbatim>\<open>manager.go\<close>) with the operations that add and remove instances. A call sees one snapshot.
  SHA-256 is an argument; so is the outcome of handing a fragment to another process
  (\<^verbatim>\<open>fiprsend\<close>), which talks over a socket. The order in which a range visits a map is an argument
  where the result depends on it.
\<close>

section \<open>Text of numbers and addresses\<close>

text \<open>\<^verbatim>\<open>netip.Addr.String\<close>: dotted decimal, or groups of hexadecimal digits with the longest run of
  two or more zero groups (the first one of that length) cut out, and the zone.\<close>

fun hexdigits :: "nat \<Rightarrow> bytes" where
  "hexdigits n = (let d = (\<lambda>i. of_nat (if i < 10 then 48 + i else 87 + i) :: byte) in
     if n < 16 then [d n] else hexdigits (n div 16) @ [d (n mod 16)])"

declare hexdigits.simps [simp del]

definition string4 :: "32 word \<Rightarrow> bytes" where
  "string4 a = decimal (unat (drop_bit 24 a) mod 256) @ [46] @ decimal (unat (drop_bit 16 a) mod 256) @ [46] @
     decimal (unat (drop_bit 8 a) mod 256) @ [46] @ decimal (unat a mod 256)"

definition v6u16 :: "128 word \<Rightarrow> nat \<Rightarrow> nat" where
  "v6u16 a i = unat (drop_bit (112 - 16 * i) a) mod 65536"

fun zero_run :: "128 word \<Rightarrow> nat \<Rightarrow> nat \<Rightarrow> nat" where
  "zero_run a i 0 = i"
| "zero_run a i (Suc n) = (if i < 8 \<and> v6u16 a i = 0 then zero_run a (Suc i) n else i)"

definition longest_run :: "128 word \<Rightarrow> nat \<times> nat" where
  "longest_run a = foldl (\<lambda>(zs, ze) i. let j = zero_run a i 8; l = j - i in
     if l \<ge> 2 \<and> l > ze - zs then (i, j) else (zs, ze)) (255, 255) [0..<8]"

fun groups6 :: "128 word \<Rightarrow> nat \<Rightarrow> nat \<Rightarrow> nat \<Rightarrow> nat \<Rightarrow> bytes" where
  "groups6 a zs ze i 0 = []"
| "groups6 a zs ze i (Suc n) =
     (if i \<ge> 8 then []
      else if i = zs then
        (if ze \<ge> 8 then [58, 58] else [58, 58] @ hexdigits (v6u16 a ze) @ groups6 a zs ze (Suc ze) n)
      else (if i > 0 then [58] else []) @ hexdigits (v6u16 a i) @ groups6 a zs ze (Suc i) n)"

definition string6 :: "128 word \<Rightarrow> bytes \<Rightarrow> bytes" where
  "string6 a zone = (case longest_run a of (zs, ze) \<Rightarrow> groups6 a zs ze 0 8) @ (if zone = [] then [] else 37 # zone)"

fun Addr_String :: "netip_addr \<Rightarrow> bytes" where
  "Addr_String AddrZero = bytes_of_string ''invalid IP''"
| "Addr_String (Addr4 a) = string4 a"
| "Addr_String (Addr6 a zone) =
     (if drop_bit 32 a = 65535
      then bytes_of_string ''::ffff:'' @ string4 (ucast a) @ (if zone = [] then [] else 37 # zone)
      else string6 a zone)"

section \<open>The manager and its routing snapshot\<close>

record Manager =
  MinInstanceCount :: "32 word"
  MaxInstanceCount :: "32 word"
  FIPRSocketDirectory :: bytes
  PacketDeadline :: int
  nextInstanceID :: "16 word"
  instances :: "(bytes \<times> Shard) list"
  ids :: "bytes list"
  FIPRRunning :: bool
  m_tags :: "bytes list"

datatype config_error = EmptyMin | EmptyMax | MinNotBelowMax | EmptyDeadline | EmptySocketDir

text \<open>\<^verbatim>\<open>validate\<close> keeps the last error it finds.\<close>

definition Manager_validate :: "32 word \<Rightarrow> 32 word \<Rightarrow> int \<Rightarrow> bytes \<Rightarrow> config_error option" where
  "Manager_validate mn mx deadline dir =
     (let err = None;
          err = (if mn = 0 then Some EmptyMin else err);
          err = (if mx = 0 then Some EmptyMax else err);
          err = (if mn \<ge> mx then Some MinNotBelowMax else err);
          err = (if deadline = 0 then Some EmptyDeadline else err);
          err = (if dir = [] then Some EmptySocketDir else err) in err)"

definition DefaultMinPacketDeadline :: int where "DefaultMinPacketDeadline = 200 * 1000000"
definition DefaultMaxPacketDeadline :: int where "DefaultMaxPacketDeadline = 1000000000"

definition NSmDefrag :: bytes where "NSmDefrag = bytes_of_string ''Defrag''"

definition NewManager :: "bytes list \<Rightarrow> 32 word \<Rightarrow> 32 word \<Rightarrow> bytes \<Rightarrow> config_error + Manager" where
  "NewManager tags mn mx dir =
     (case Manager_validate mn mx DefaultMinPacketDeadline dir of
        Some e \<Rightarrow> Inl e
      | None \<Rightarrow> Inr \<lparr> MinInstanceCount = mn, MaxInstanceCount = mx, FIPRSocketDirectory = dir,
            PacketDeadline = DefaultMinPacketDeadline, nextInstanceID = 0, instances = [],
            ids = replicate (unat mn) [], FIPRRunning = False, m_tags = tags @ [NSmDefrag] \<rparr>)"

text \<open>
  \<^verbatim>\<open>AddInstance\<close>: the new list of identifiers is rebuilt from a range over the map, whose order is
  the argument.
\<close>

definition AddInstance :: "bytes list \<Rightarrow> Manager \<Rightarrow> Manager \<times> bytes" where
  "AddInstance order manager =
     (let instanceID = decimal (unat (nextInstanceID manager)) in
      if map_of (instances manager) instanceID \<noteq> None then (manager, instanceID)
      else
        (manager\<lparr> nextInstanceID := nextInstanceID manager + 1,
            instances := AList.update instanceID (Shard_New (m_tags manager @ [instanceID]) 1024) (instances manager),
            ids := order @ [instanceID] \<rparr>, instanceID))"

text \<open>
  \<^verbatim>\<open>removeInstance\<close>: the shard is marked, and after waiting for it to drain the snapshot loaded at the
  start is replaced by one without the instance. \<open>others\<close> is what other threads make of the shards
  meanwhile. If the snapshot itself was replaced meanwhile (\<open>replaced\<close>) the compare-and-swap fails
  for ever, since the loop does not load it again: None.
\<close>

definition mark_shutdown :: "bytes \<Rightarrow> Manager \<Rightarrow> Manager" where
  "mark_shutdown i manager =
     manager\<lparr>instances := AList.map_entry i (\<lambda>sh. sh\<lparr>InShutdown := True\<rparr>) (instances manager)\<rparr>"

definition removeInstance :: "(bytes \<Rightarrow> Shard \<Rightarrow> Shard) \<Rightarrow> bool \<Rightarrow> bytes \<Rightarrow> Manager \<Rightarrow> Manager option" where
  "removeInstance others replaced instanceID manager =
     (if map_of (instances manager) instanceID = None then Some manager
      else
        let manager = mark_shutdown instanceID manager;
            manager = manager\<lparr>instances := map (\<lambda>(i, sh). (i, others i sh)) (instances manager)\<rparr> in
        if replaced then None
        else Some (manager\<lparr> instances := AList.delete instanceID (instances manager),
                     ids := filter (\<lambda>i. i \<noteq> instanceID) (ids manager) \<rparr>))"

definition RemoveOldestInstance :: "(bytes \<Rightarrow> Shard \<Rightarrow> Shard) \<Rightarrow> bool \<Rightarrow> Manager \<Rightarrow> (Manager \<times> bytes) option" where
  "RemoveOldestInstance others replaced manager =
     (case ids manager of
        [] \<Rightarrow> Some (manager, [])
      | i # _ \<Rightarrow> map_option (\<lambda>m. (m, i)) (removeInstance others replaced i manager))"

text \<open>
  The methods of the routing view. \<^verbatim>\<open>GetNonDrainingIDs\<close> ranges over the map, in the order of the argument.
\<close>

definition GetAllIDs :: "Manager \<Rightarrow> bytes list" where "GetAllIDs m = ids m"

definition GetNonDrainingIDs :: "bytes list \<Rightarrow> Manager \<Rightarrow> bytes list" where
  "GetNonDrainingIDs order m =
     filter (\<lambda>i. case map_of (instances m) i of None \<Rightarrow> False | Some sh \<Rightarrow> \<not> InShutdown sh) order"

definition BucketExists :: "Manager \<Rightarrow> bytes \<Rightarrow> bytes \<Rightarrow> bool" where
  "BucketExists m shardID bucketKey =
     (case map_of (instances m) shardID of None \<Rightarrow> False | Some sh \<Rightarrow> map_of (Buckets sh) bucketKey \<noteq> None)"

definition BucketExistsAnywhere :: "Manager \<Rightarrow> bytes \<Rightarrow> bool" where
  "BucketExistsAnywhere m bucketKey = list_ex (\<lambda>(i, sh). BucketExists m i bucketKey) (instances m)"

definition GetShard :: "Manager \<Rightarrow> bytes \<Rightarrow> Shard option" where
  "GetShard m shardID = map_of (instances m) shardID"

definition IsShardShutdown :: "Manager \<Rightarrow> bytes \<Rightarrow> bool" where
  "IsShardShutdown m shardID = (case map_of (instances m) shardID of None \<Rightarrow> True | Some sh \<Rightarrow> InShutdown sh)"

section \<open>RouteFragment\<close>

definition routeSelect :: "(bytes \<Rightarrow> bytes) \<Rightarrow> bytes \<Rightarrow> bytes list \<Rightarrow> bytes \<times> bytes" where
  "routeSelect sha256 key candidates =
     (let candidateNum = length candidates in
      if candidateNum = 0 then ([], [])
      else if candidateNum = 1 then (candidates ! 0, candidates ! 0)
      else
        let h = be_val (take 8 (sha256 key)) mod candidateNum;
            idx = h mod candidateNum in
        (candidates ! idx, candidates ! ((idx + 1) mod candidateNum)))"

definition bucketKey_of :: "netip_addr \<Rightarrow> Payload \<Rightarrow> bytes" where
  "bucketKey_of remoteAddress fragment =
     Addr_String remoteAddress @ [45] @ FormatInt (HostID fragment) @ [45] @ FormatInt (MsgID fragment)"

datatype remote_result = RemoteError | RemoteReroute | RemoteTaken

text \<open>
  What the state does not determine: the files of the socket directory (None: it cannot be read), the
  outcome of sending a fragment to the process behind a socket, with the fragment as the sending
  leaves it, and the order in which the range over the instances visits them.
\<close>

record remote_env =
  socket_files :: "bytes list option"
  remote_route :: "bytes \<Rightarrow> bytes \<Rightarrow> bytes \<Rightarrow> netip_addr \<Rightarrow> Payload \<Rightarrow> Payload \<times> remote_result"
  range_order :: "bytes list"

datatype route = NotRouted | ToShard bytes | ToProcess bytes

definition push_to :: "bool \<Rightarrow> Manager \<Rightarrow> bytes \<Rightarrow> Shard \<Rightarrow> bytes \<Rightarrow> Payload \<Rightarrow> int \<Rightarrow> (Manager \<times> route) option" where
  "push_to ctxDone rv shardID sh key fragment start =
     map_option (\<lambda>sh'. (rv\<lparr>instances := AList.update shardID sh' (instances rv)\<rparr>, ToShard shardID))
       (push (PacketDeadline rv) ctxDone sh key fragment start)"

fun route_loop ::
  "nat \<Rightarrow> (bytes \<Rightarrow> bytes) \<Rightarrow> remote_env \<Rightarrow> bool \<Rightarrow> Manager \<Rightarrow> bytes list \<Rightarrow> netip_addr \<Rightarrow> bytes \<Rightarrow> Payload \<Rightarrow> int \<Rightarrow>
   (Manager \<times> route) option" where
  "route_loop 0 sha256 env ctxDone rv remoteShards addr key fragment start = Some (rv, NotRouted)"
| "route_loop (Suc n) sha256 env ctxDone rv remoteShards addr key fragment start =
     (let shardList = GetAllIDs rv in
      if length shardList = 0 then Some (rv, NotRouted)
      else
        let (primary, secondary) = routeSelect sha256 key shardList in
        if \<not> IsShardShutdown rv primary \<or> BucketExists rv primary key then
          (case GetShard rv primary of
             None \<Rightarrow> route_loop n sha256 env ctxDone rv remoteShards addr key fragment start
           | Some sh \<Rightarrow> push_to ctxDone rv primary sh key fragment start)
        else if length remoteShards > 0 then
          let primarySocket = fst (routeSelect sha256 key remoteShards) in
          (case remote_route env (FIPRSocketDirectory rv) primarySocket key addr fragment of
             (fragment, RemoteTaken) \<Rightarrow> Some (rv, ToProcess primarySocket)
           | (fragment, _) \<Rightarrow> route_loop n sha256 env ctxDone rv [] addr key fragment start)
        else if secondary = [] then Some (rv, NotRouted)
        else
          (case GetShard rv secondary of
             None \<Rightarrow> route_loop n sha256 env ctxDone rv remoteShards addr key fragment start
           | Some sh \<Rightarrow> push_to ctxDone rv secondary sh key fragment start))"

definition RouteFragment ::
  "(bytes \<Rightarrow> bytes) \<Rightarrow> remote_env \<Rightarrow> bool \<Rightarrow> Manager \<Rightarrow> netip_addr \<Rightarrow> Payload \<Rightarrow> int \<Rightarrow> (Manager \<times> route) option" where
  "RouteFragment sha256 env ctxDone rv remoteAddress fragment processingStartTime =
     (let bucketKey = bucketKey_of remoteAddress fragment in
      if MessageSeqMax fragment = 0 then
        let nonDrainingIDs = GetNonDrainingIDs (range_order env) rv in
        if length nonDrainingIDs = 0 then Some (rv, NotRouted)
        else
          let shardIndex = (if length nonDrainingIDs > 1 then fst (routeSelect sha256 bucketKey nonDrainingIDs)
                            else nonDrainingIDs ! 0) in
          (case GetShard rv shardIndex of
             None \<Rightarrow> Some (rv, NotRouted)
           | Some sh \<Rightarrow> push_to ctxDone rv shardIndex sh bucketKey fragment processingStartTime)
      else if FIPRRunning rv then
        (case socket_files env of
           None \<Rightarrow> Some (rv, NotRouted)
         | Some remoteShards \<Rightarrow>
             route_loop 3 sha256 env ctxDone rv remoteShards remoteAddress bucketKey fragment processingStartTime)
      else route_loop 3 sha256 env ctxDone rv [] remoteAddress bucketKey fragment processingStartTime)"

section \<open>Keys\<close>

lemma split_last_dash:
  assumes "xs @ [45] @ us = ys @ [45] @ vs" and "(45 :: byte) \<notin> set us" and "45 \<notin> set vs"
  shows "xs = ys \<and> us = vs"
proof -
  have "takeWhile (\<lambda>b. b \<noteq> 45) (rev (xs @ [45] @ us)) = rev us" "takeWhile (\<lambda>b. b \<noteq> 45) (rev (ys @ [45] @ vs)) = rev vs"
    using assms(2,3) takeWhile_append2 [of "rev us" "\<lambda>b. b \<noteq> 45"] takeWhile_append2 [of "rev vs" "\<lambda>b. b \<noteq> 45"]
    by fastforce+
  then have "us = vs" using assms(1) by (metis rev_rev_ident)
  then show ?thesis using assms(1) by simp
qed

lemma bucketKey_inj:
  assumes "bucketKey_of a f = bucketKey_of b g"
    and "0 \<le> HostID f" "0 \<le> MsgID f" "0 \<le> HostID g" "0 \<le> MsgID g"
  shows "Addr_String a = Addr_String b \<and> HostID f = HostID g \<and> MsgID f = MsgID g"
proof -
  let ?h = "\<lambda>p. decimal (nat (HostID p))" and ?m = "\<lambda>p. decimal (nat (MsgID p))"
  have "(Addr_String a @ [45] @ ?h f) @ [45] @ ?m f = (Addr_String b @ [45] @ ?h g) @ [45] @ ?m g"
    using assms by (simp add: bucketKey_of_def FormatInt_def)
  from split_last_dash [OF this decimal_no_dash decimal_no_dash]
  have 1: "Addr_String a @ [45] @ ?h f = Addr_String b @ [45] @ ?h g" and m: "?m f = ?m g" by auto
  from split_last_dash [OF 1 decimal_no_dash decimal_no_dash] have "Addr_String a = Addr_String b" "?h f = ?h g" by auto
  with m assms(2-5) show ?thesis by (auto dest: decimal_inj)
qed

section \<open>Where a fragment goes\<close>

text \<open>A snapshot as the instances are: every identifier has its shard, once.\<close>

definition view_ok :: "Manager \<Rightarrow> bool" where
  "view_ok m \<longleftrightarrow> distinct (map fst (instances m)) \<and> distinct (ids m) \<and> set (ids m) = fst ` set (instances m) \<and>
     [] \<notin> set (ids m) \<and> list_all (\<lambda>(i, sh). shard_wf sh) (instances m)"

definition target :: "(bytes \<Rightarrow> bytes) \<Rightarrow> Manager \<Rightarrow> bytes \<Rightarrow> bytes" where
  "target sha256 m key =
     (case routeSelect sha256 key (ids m) of (primary, secondary) \<Rightarrow>
        if \<not> IsShardShutdown m primary \<or> BucketExists m primary key then primary else secondary)"

lemma routeSelect_mem:
  assumes "candidates \<noteq> []"
  shows "fst (routeSelect sha key candidates) \<in> set candidates" "snd (routeSelect sha key candidates) \<in> set candidates"
proof -
  have "0 < length candidates" using assms by simp
  then show "fst (routeSelect sha key candidates) \<in> set candidates" "snd (routeSelect sha key candidates) \<in> set candidates"
    by (auto simp: routeSelect_def Let_def intro!: nth_mem mod_less_divisor)
qed

lemma target_mem: "ids m \<noteq> [] \<Longrightarrow> target sha m key \<in> set (ids m)"
  using routeSelect_mem [of "ids m" sha key] by (auto simp: target_def split: prod.split)

lemma view_shard:
  assumes "view_ok m" and "i \<in> set (ids m)"
  obtains sh where "map_of (instances m) i = Some sh" and "shard_wf sh"
proof -
  from assms obtain sh where sh: "map_of (instances m) i = Some sh"
    by (auto simp: view_ok_def dest: weak_map_of_SomeI)
  then have "shard_wf sh" using assms by (auto simp: view_ok_def list_all_iff dest: map_of_SomeD)
  with sh that show thesis by blast
qed

lemma route_local:
  assumes v: "view_ok m" and n: "ids m \<noteq> []" and f: "FIPRRunning m = False" and mx: "MessageSeqMax fragment \<noteq> 0"
    and sh: "map_of (instances m) (target sha m (bucketKey_of addr fragment)) = Some sh"
  shows "RouteFragment sha env c m addr fragment t =
    push_to c m (target sha m (bucketKey_of addr fragment)) sh (bucketKey_of addr fragment) fragment t"
proof -
  let ?k = "bucketKey_of addr fragment"
  obtain p q where pq: "routeSelect sha ?k (ids m) = (p, q)" by (cases "routeSelect sha ?k (ids m)")
  have mem: "p \<in> set (ids m)" "q \<in> set (ids m)" using routeSelect_mem [OF n, of sha ?k] pq by auto
  then have "q \<noteq> []" using v unfolding view_ok_def by blast
  then show ?thesis using n f mx sh pq
    by (auto simp: RouteFragment_def Let_def numeral_3_eq_3 GetAllIDs_def GetShard_def target_def)
qed

section \<open>Collecting a message\<close>

text \<open>The bucket that the fragments of a message build, in order of arrival with their times.\<close>

definition bucket_of :: "int \<Rightarrow> (Payload \<times> int) list \<Rightarrow> Bucket" where
  "bucket_of mx fs = \<lparr> filled = (int (length fs) = mx + 1), Fragments = map (\<lambda>(f, t). (MessageSeq f, f)) fs,
     maxSeq = mx, lastProcessStartTime = snd (last fs) \<rparr>"

text \<open>Arrivals that the deadline tolerates: times after the epoch, and no gap above the deadline.\<close>

definition in_time :: "int \<Rightarrow> (Payload \<times> int) list \<Rightarrow> bool" where
  "in_time d fs \<longleftrightarrow> list_all (\<lambda>(f, t). 0 < t \<and> t < 2 ^ 63) fs \<and>
     (\<forall>i. Suc i < length fs \<longrightarrow> snd (fs ! Suc i) - snd (fs ! i) \<le> d)"

definition one_message :: "int \<Rightarrow> (Payload \<times> int) list \<Rightarrow> bool" where
  "one_message mx fs \<longleftrightarrow> 0 \<le> mx \<and> distinct (map (MessageSeq \<circ> fst) fs) \<and>
     list_all (\<lambda>(f, t). MessageSeqMax f = mx \<and> frag_ok f) fs"

lemma update_new: "k \<notin> fst ` set al \<Longrightarrow> AList.update k v al = al @ [(k, v)]"
  by (induction al) auto

lemma one_message_length:
  assumes "one_message mx fs"
  shows "int (length fs) \<le> mx + 1"
proof -
  have "MessageSeq ` fst ` set fs \<subseteq> {0..mx}"
    using assms by (auto simp: one_message_def frag_ok_def list_all_iff)
  then have "card (set (map (MessageSeq \<circ> fst) fs)) \<le> card {0..mx}"
    by (intro card_mono) (auto simp: image_comp)
  then show ?thesis using assms distinct_card [of "map (MessageSeq \<circ> fst) fs"]
    by (auto simp: one_message_def le_nat_iff)
qed

lemma UnixNano_id: "0 < t \<Longrightarrow> t < 2 ^ 63 \<Longrightarrow> UnixNano t = t"
  by (simp add: UnixNano_def signed_take_bit_int_eq_self)

lemma Time_Sub_id: "0 < t \<Longrightarrow> t < 2 ^ 63 \<Longrightarrow> 0 < u \<Longrightarrow> u < 2 ^ 63 \<Longrightarrow> Time_Sub t u = t - u"
  by (simp add: Time_Sub_def min_def max_def)

text \<open>One more fragment, the bucket being as the earlier ones left it.\<close>

definition holds :: "Shard \<Rightarrow> bytes \<Rightarrow> int \<Rightarrow> (Payload \<times> int) list \<Rightarrow> bool" where
  "holds sh k mx fs \<longleftrightarrow> map_of (Buckets sh) k = (if fs = [] then None else Some (bucket_of mx fs))"

lemma push_admitted_in_time:
  assumes "push_admitted d q k b f t = (q', r)" and "\<not> filled b"
    and "(if UnixNano (lastProcessStartTime b) \<le> 0 then 0 else Time_Sub t (lastProcessStartTime b)) \<le> d"
  shows "r = (if complete (stored b f t) then Some (k, False) else None)"
    and "Buckets q' = AList.update k ((stored b f t)\<lparr>filled := complete (stored b f t)\<rparr>) (Buckets q)"
  using assms by (cases b, auto simp: push_admitted_def Let_def complete_def stored_def split: if_splits)+

lemma bucket_of_snoc:
  assumes "fs \<noteq> []" and "MessageSeq f \<notin> (MessageSeq \<circ> fst) ` set fs"
  shows "(stored (bucket_of mx fs) f t)\<lparr>filled := complete (stored (bucket_of mx fs) f t)\<rparr> = bucket_of mx (fs @ [(f, t)])"
    and "complete (stored (bucket_of mx fs) f t) \<longleftrightarrow> int (length fs) = mx"
proof -
  have new: "MessageSeq f \<notin> fst ` set (map (\<lambda>(f, t). (MessageSeq f, f)) fs)" using assms(2) by force
  show c: "complete (stored (bucket_of mx fs) f t) \<longleftrightarrow> int (length fs) = mx"
    using update_new [OF new] by (auto simp: complete_def stored_def bucket_of_def)
  show "(stored (bucket_of mx fs) f t)\<lparr>filled := complete (stored (bucket_of mx fs) f t)\<rparr> = bucket_of mx (fs @ [(f, t)])"
    unfolding c using update_new [OF new] by (auto simp: stored_def bucket_of_def)
qed

lemma bucket_of_first:
  "(stored (Bucket_new mx) f t)\<lparr>filled := complete (stored (Bucket_new mx) f t)\<rparr> = bucket_of mx [(f, t)]"
  "complete (stored (Bucket_new mx) f t) \<longleftrightarrow> mx = 0"
  by (auto simp: complete_def stored_def bucket_of_def Bucket_new_def)

lemma in_time_gap:
  assumes "in_time d (fs @ [(f, t)])" and "fs \<noteq> []"
  shows "Time_Sub t (snd (last fs)) \<le> d" and "0 < UnixNano (snd (last fs))"
proof -
  have t: "0 < t" "t < 2 ^ 63" "0 < snd (last fs)" "snd (last fs) < 2 ^ 63"
    using assms by (auto simp: in_time_def list_all_iff dest!: last_in_set)
  have "Suc (length fs - 1) < length (fs @ [(f, t)])" using assms(2) by simp
  then have "snd ((fs @ [(f, t)]) ! Suc (length fs - 1)) - snd ((fs @ [(f, t)]) ! (length fs - 1)) \<le> d"
    using assms(1) unfolding in_time_def by blast
  then show "Time_Sub t (snd (last fs)) \<le> d" "0 < UnixNano (snd (last fs))"
    using assms(2) t by (simp_all add: nth_append last_conv_nth Time_Sub_id UnixNano_id)
qed

lemma push_locked_next:
  assumes h: "holds sh k mx fs" and m: "one_message mx (fs @ [(f, t)])" and it: "in_time d (fs @ [(f, t)])" and d: "0 \<le> d"
  shows "\<exists>sh'. push_locked d sh k f t = (sh', if int (length fs) = mx then Some (k, False) else None) \<and>
    holds sh' k mx (fs @ [(f, t)]) \<and> keyQueue sh' = keyQueue sh \<and> keyCap sh' = keyCap sh \<and> InShutdown sh' = InShutdown sh"
proof -
  have mx: "MessageSeqMax f = mx" and new: "MessageSeq f \<notin> (MessageSeq \<circ> fst) ` set fs"
    using m by (auto simp: one_message_def)
  have len: "int (length fs) \<le> mx" using one_message_length [OF m] by simp
  define q0 where "q0 = metrics_upd (\<lambda>m. m\<lparr>sm_PushCount := sm_PushCount m + 1\<rparr>) sh"
  have q0: "Buckets q0 = Buckets sh" "keyQueue q0 = keyQueue sh" "keyCap q0 = keyCap sh" "InShutdown q0 = InShutdown sh"
    by (simp_all add: q0_def)
  show ?thesis
  proof (cases "fs = []")
    case True
    define q1 where "q1 = metrics_upd (\<lambda>m. m\<lparr>sm_TotalBuckets := sm_TotalBuckets m + 1\<rparr>) (put_bucket k (Bucket_new mx) q0)"
    obtain sh' r where p: "push_admitted d q1 k (Bucket_new mx) f t = (sh', r)"
      by (cases "push_admitted d q1 k (Bucket_new mx) f t")
    have "push_locked d sh k f t = (sh', r)"
      using p h True mx q0(1) unfolding push_locked_def Let_def q0_def [symmetric] q1_def by (simp add: holds_def)
    moreover have z: "UnixNano Time_zero \<le> 0" by code_simp
    have "r = (if mx = 0 then Some (k, False) else None)" "Buckets sh' = AList.update k (bucket_of mx [(f, t)]) (Buckets q1)"
      using push_admitted_in_time [OF p] d z bucket_of_first [of mx f t] by (auto simp: Bucket_new_def)
    ultimately show ?thesis
      using True push_admitted_frame [OF p] q0 by (auto simp: holds_def q1_def update_conv')
  next
    case False
    define b where "b = bucket_of mx fs"
    have b: "map_of (Buckets q0) k = Some b" "\<not> filled b" "maxSeq b = mx" "lastProcessStartTime b = snd (last fs)"
      using h False len q0 by (auto simp: holds_def b_def bucket_of_def)
    obtain sh' r where p: "push_admitted d q0 k b f t = (sh', r)" by (cases "push_admitted d q0 k b f t")
    have "push_locked d sh k f t = (sh', r)"
      using p b mx unfolding push_locked_def Let_def q0_def [symmetric] by simp
    moreover have gap: "(if UnixNano (lastProcessStartTime b) \<le> 0 then 0 else Time_Sub t (lastProcessStartTime b)) \<le> d"
      using in_time_gap [OF it False] b(4) by simp
    have "r = (if int (length fs) = mx then Some (k, False) else None)"
      "Buckets sh' = AList.update k (bucket_of mx (fs @ [(f, t)])) (Buckets q0)"
      using push_admitted_in_time [OF p b(2) gap] bucket_of_snoc [OF False new, of mx t] by (simp_all add: b_def)
    ultimately show ?thesis
      using False push_admitted_frame [OF p] q0 by (auto simp: holds_def update_conv')
  qed
qed

lemma push_next:
  assumes h: "holds sh k mx fs" and m: "one_message mx (fs @ [(f, t)])" and it: "in_time d (fs @ [(f, t)])" and d: "0 \<le> d"
    and wf: "shard_wf sh" and room: "length (keyQueue sh) < keyCap sh"
  shows "\<exists>sh'. push d False sh k f t = Some sh' \<and> holds sh' k mx (fs @ [(f, t)]) \<and> shard_wf sh' \<and>
    keyQueue sh' = keyQueue sh @ (if int (length fs) = mx then [k] else []) \<and>
    keyCap sh' = keyCap sh \<and> InShutdown sh' = InShutdown sh"
proof -
  from push_locked_next [OF h m it d] obtain sh' where p:
    "push_locked d sh k f t = (sh', if int (length fs) = mx then Some (k, False) else None)" "holds sh' k mx (fs @ [(f, t)])"
    "keyQueue sh' = keyQueue sh" "keyCap sh' = keyCap sh" "InShutdown sh' = InShutdown sh" by blast
  have "frag_ok f" using m by (simp add: one_message_def)
  then have "shard_wf sh'" using push_locked_effect [OF p(1) wf] by (simp add: push_effect_def)
  with p room show ?thesis by (auto simp: push_def send_key_def holds_def)
qed

section \<open>Routing a whole message\<close>

fun route_all ::
  "(bytes \<Rightarrow> bytes) \<Rightarrow> remote_env \<Rightarrow> Manager \<Rightarrow> netip_addr \<Rightarrow> (Payload \<times> int) list \<Rightarrow> (Manager \<times> route list) option" where
  "route_all sha env m addr [] = Some (m, [])"
| "route_all sha env m addr ((f, t) # fs) =
     (case RouteFragment sha env False m addr f t of
        None \<Rightarrow> None
      | Some (m', r) \<Rightarrow> map_option (\<lambda>(m'', rs). (m'', r # rs)) (route_all sha env m' addr fs))"

lemma route_all_append:
  "route_all sha env m addr (xs @ ys) =
     (case route_all sha env m addr xs of
        None \<Rightarrow> None
      | Some (m', rs) \<Rightarrow> map_option (\<lambda>(m'', rs'). (m'', rs @ rs')) (route_all sha env m' addr ys))"
proof (induction xs arbitrary: m)
  case Nil
  show ?case by (simp add: option.map_id0 case_prod_eta id_def [symmetric] flip: id_def)
next
  case (Cons x xs)
  then show ?case by (cases x) (auto split: option.splits prod.splits simp: option.map_comp intro!: option.map_cong)
qed

text \<open>The manager with one shard replaced.\<close>

definition with_shard :: "Manager \<Rightarrow> bytes \<Rightarrow> Shard \<Rightarrow> Manager" where
  "with_shard m i sh = m\<lparr>instances := AList.update i sh (instances m)\<rparr>"

lemma with_shard_sel [simp]:
  "instances (with_shard m i sh) = AList.update i sh (instances m)" "ids (with_shard m i sh) = ids m"
  "FIPRRunning (with_shard m i sh) = FIPRRunning m" "PacketDeadline (with_shard m i sh) = PacketDeadline m"
  by (simp_all add: with_shard_def)

lemma with_shard_again [simp]: "with_shard (with_shard m i sh) i sh' = with_shard m i sh'"
  by (simp add: with_shard_def update_Some_unfold)

lemma with_shard_overwrite: "(with_shard m i sh)\<lparr>instances := AList.update i sh' (instances m)\<rparr> = with_shard m i sh'"
  by (simp add: with_shard_def)

lemma with_shard_same: "map_of (instances m) i = Some sh \<Longrightarrow> with_shard m i sh = m"
proof -
  have "map_of al i = Some sh \<Longrightarrow> AList.update i sh al = al" for al :: "(bytes \<times> Shard) list"
    by (induction al) auto
  then show "map_of (instances m) i = Some sh \<Longrightarrow> with_shard m i sh = m" by (simp add: with_shard_def)
qed

lemma view_ok_with_shard:
  assumes "view_ok m" and "i \<in> set (ids m)" and "shard_wf sh"
  shows "view_ok (with_shard m i sh)"
  using assms by (auto simp: view_ok_def distinct_update list_all_update dom_update insert_absorb)

lemma target_with_shard:
  assumes "map_of (instances m) i = Some sh0" and "i = target sha m k" and "InShutdown sh = InShutdown sh0"
    and "\<not> BucketExists m (fst (routeSelect sha k (ids m))) k"
  shows "target sha (with_shard m i sh) k = i"
proof -
  obtain p q where pq: "routeSelect sha k (ids m) = (p, q)" by (cases "routeSelect sha k (ids m)")
  show ?thesis
  proof (cases "i = p")
    case True
    then show ?thesis using assms pq
      by (auto simp: target_def IsShardShutdown_def BucketExists_def update_conv' split: if_splits option.splits)
  next
    case False
    then have sd: "IsShardShutdown m p" and iq: "i = q" using assms(2) pq by (auto simp: target_def split: if_splits)
    have "IsShardShutdown (with_shard m i sh) p" "\<not> BucketExists (with_shard m i sh) p k"
      using sd assms(4) pq False by (auto simp: IsShardShutdown_def BucketExists_def update_conv')
    then show ?thesis using pq iq by (simp add: target_def)
  qed
qed

lemma route_all_collects:
  assumes v: "view_ok m" and n: "ids m \<noteq> []" and fip: "\<not> FIPRRunning m" and mx: "mx \<noteq> 0" and d: "0 \<le> PacketDeadline m"
    and i: "i = target sha m k" and sh0: "map_of (instances m) i = Some sh0"
    and fresh: "\<not> BucketExistsAnywhere m k" and room: "length (keyQueue sh0) < keyCap sh0"
    and keys: "list_all (\<lambda>(f, t). bucketKey_of addr f = k) fs"
    and one: "one_message mx fs" and it: "in_time (PacketDeadline m) fs"
  shows "\<exists>sh. route_all sha env m addr fs = Some (with_shard m i sh, replicate (length fs) (ToShard i)) \<and>
    holds sh k mx fs \<and> shard_wf sh \<and> keyCap sh = keyCap sh0 \<and> InShutdown sh = InShutdown sh0 \<and>
    keyQueue sh = keyQueue sh0 @ (if int (length fs) = mx + 1 then [k] else [])"
  using keys one it
proof (induction fs rule: rev_induct)
  case Nil
  have "map_of (Buckets sh0) k = None"
    using fresh sh0 map_of_SomeD [OF sh0] by (fastforce simp: BucketExistsAnywhere_def BucketExists_def list_ex_iff)
  moreover have "shard_wf sh0" using v sh0 by (auto simp: view_ok_def list_all_iff dest: map_of_SomeD)
  moreover have "mx + 1 \<noteq> 0" using Nil by (simp add: one_message_def)
  ultimately show ?case using sh0 by (intro exI [of _ sh0]) (auto simp: holds_def with_shard_same)
next
  case (snoc x fs)
  obtain f t where x: "x = (f, t)" by (cases x)
  have pre: "one_message mx fs" "in_time (PacketDeadline m) fs" "list_all (\<lambda>(f, t). bucketKey_of addr f = k) fs"
    using snoc.prems x by (auto simp: one_message_def in_time_def nth_append split: if_splits)
  have f: "bucketKey_of addr f = k" "MessageSeqMax f = mx" using snoc.prems x by (auto simp: one_message_def)
  have few: "int (length fs) \<le> mx" using one_message_length [OF snoc.prems(2)] by simp
  from snoc.IH [OF pre(3,1,2)] few obtain sh where
    r: "route_all sha env m addr fs = Some (with_shard m i sh, replicate (length fs) (ToShard i))" and
    sh: "holds sh k mx fs" "shard_wf sh" "keyCap sh = keyCap sh0" "InShutdown sh = InShutdown sh0" "keyQueue sh = keyQueue sh0"
    by auto
  let ?m = "with_shard m i sh"
  have im: "i \<in> set (ids m)" using target_mem [OF n] i by simp
  have "\<not> BucketExists m j k" if "j \<in> set (ids m)" for j
    using fresh that v by (auto simp: BucketExistsAnywhere_def list_ex_iff view_ok_def)
  then have t1: "target sha ?m k = i"
    using target_with_shard [OF sh0 i sh(4)] routeSelect_mem(1) [OF n] by simp
  have "RouteFragment sha env False ?m addr f t = push_to False ?m i sh k f t"
    using route_local [of ?m f sha addr sh env False t] view_ok_with_shard [OF v im sh(2)] n fip f mx t1
    by (simp add: update_conv')
  moreover obtain sh' where "push (PacketDeadline m) False sh k f t = Some sh'" "holds sh' k mx (fs @ [(f, t)])" "shard_wf sh'"
    "keyQueue sh' = keyQueue sh @ (if int (length fs) = mx then [k] else [])" "keyCap sh' = keyCap sh" "InShutdown sh' = InShutdown sh"
    using push_next [OF sh(1) _ _ d sh(2)] snoc.prems(2,3) x sh room by auto
  ultimately show ?case using r sh x
    by (intro exI [of _ sh'])
      (auto simp: route_all_append push_to_def with_shard_overwrite replicate_append_same)
qed

section \<open>Concrete managers\<close>

definition example_shard :: "bool \<Rightarrow> Shard" where
  "example_shard down = (Shard_New [] 1024)\<lparr>InShutdown := down\<rparr>"

definition example_manager :: "(string \<times> bool) list \<Rightarrow> Manager" where
  "example_manager shards = \<lparr> MinInstanceCount = 1, MaxInstanceCount = 4, FIPRSocketDirectory = bytes_of_string ''/run'',
     PacketDeadline = DefaultMinPacketDeadline, nextInstanceID = of_nat (length shards),
     instances = map (\<lambda>(i, down). (bytes_of_string i, example_shard down)) shards,
     ids = map (bytes_of_string \<circ> fst) shards, FIPRRunning = False, m_tags = [NSmDefrag] \<rparr>"

definition example_part :: "int \<Rightarrow> int \<Rightarrow> Payload" where
  "example_part mx i = Payload_zero\<lparr>HostID := 7, MsgID := 9, MessageSeq := i, MessageSeqMax := mx\<rparr>"

definition example_key :: bytes where "example_key = bytes_of_string ''10.0.0.1-7-9''"

definition example_addr :: netip_addr where "example_addr = Addr4 0x0A000001"

section \<open>Properties\<close>

text \<open>
  C21. All fragments of a message reach the same shard and are handed on together: whatever the order of
  arrival and the number of shards, the bucket of the message is closed by its last fragment, its key
  is queued once, and draining it gives back exactly the fragments that were routed.
\<close>

theorem message_collected_in_one_shard:
  assumes "view_ok m" and "ids m \<noteq> []" and "\<not> FIPRRunning m" and "0 \<le> PacketDeadline m"
    and "\<not> BucketExistsAnywhere m k" and room: "list_all (\<lambda>(i, sh). length (keyQueue sh) < keyCap sh) (instances m)"
    and "list_all (\<lambda>(f, t). bucketKey_of addr f = k) fs" and "one_message mx fs" and "in_time (PacketDeadline m) fs"
    and mx: "mx \<noteq> 0" and len: "int (length fs) = mx + 1"
  shows "\<exists>m' i sh0 sh. route_all sha env m addr fs = Some (m', replicate (length fs) (ToShard i)) \<and>
    map_of (instances m) i = Some sh0 \<and> map_of (instances m') i = Some sh \<and> keyQueue sh = keyQueue sh0 @ [k] \<and>
    snd (DrainBucket sh k) = Drained (bucket_of mx fs)"
proof -
  let ?i = "target sha m k"
  obtain sh0 where sh0: "map_of (instances m) ?i = Some sh0"
    using view_shard [OF assms(1) target_mem [OF assms(2)]] by blast
  then have "length (keyQueue sh0) < keyCap sh0" using room by (auto simp: list_all_iff dest: map_of_SomeD)
  from route_all_collects [OF assms(1-3) mx assms(4) refl sh0 assms(5) this assms(7-9)] len
  obtain sh where "route_all sha env m addr fs = Some (with_shard m ?i sh, replicate (length fs) (ToShard ?i))"
    "holds sh k mx fs" "keyQueue sh = keyQueue sh0 @ [k]" by auto
  moreover have "fs \<noteq> []" using len mx assms(8) by (auto simp: one_message_def)
  ultimately show ?thesis using sh0
    by (intro exI [of _ "with_shard m ?i sh"] exI [of _ ?i] exI [of _ sh0] exI [of _ sh])
      (auto simp: holds_def DrainBucket_def update_conv')
qed

theorem message_collected_in_one_shard_witness:
  "\<exists>m' i sh0 sh. route_all (\<lambda>_. replicate 32 5) \<lparr>socket_files = None, remote_route = (\<lambda>_ _ _ _ f. (f, RemoteError)), range_order = []\<rparr>
      (example_manager [(''0'', False), (''1'', False)]) example_addr
      [(example_part 1 1, 1000), (example_part 1 0, 2000)] = Some (m', replicate 2 (ToShard i)) \<and>
    map_of (instances (example_manager [(''0'', False), (''1'', False)])) i = Some sh0 \<and>
    map_of (instances m') i = Some sh \<and> keyQueue sh = keyQueue sh0 @ [example_key] \<and>
    snd (DrainBucket sh example_key) = Drained (bucket_of 1 [(example_part 1 1, 1000), (example_part 1 0, 2000)])"
proof -
  let ?m = "example_manager [(''0'', False), (''1'', False)]"
  let ?fs = "[(example_part 1 1, 1000), (example_part 1 0, 2000)]"
  have v: "view_ok ?m" by code_simp
  have t: "in_time (PacketDeadline ?m) ?fs"
    by (auto simp: in_time_def example_manager_def DefaultMinPacketDeadline_def)
  have h: "ids ?m \<noteq> [] \<and> \<not> FIPRRunning ?m \<and> 0 \<le> PacketDeadline ?m \<and> \<not> BucketExistsAnywhere ?m example_key \<and>
    list_all (\<lambda>(i, sh). length (keyQueue sh) < keyCap sh) (instances ?m) \<and>
    list_all (\<lambda>(f, t). bucketKey_of example_addr f = example_key) ?fs" by code_simp
  have o: "one_message 1 ?fs" by code_simp
  show ?thesis
    using message_collected_in_one_shard [OF v _ _ _ _ _ _ o t, where k = example_key and addr = example_addr] h
    by (simp add: numeral_2_eq_2 del: route_all.simps)
qed

text \<open>
  The bucket key tells messages apart: two fragments with the same key come from addresses that print
  alike and carry the same host and message identifiers.
\<close>

theorem bucket_key_identifies_message:
  assumes "bucketKey_of a f = bucketKey_of b g"
    and "0 \<le> HostID f" "0 \<le> MsgID f" "0 \<le> HostID g" "0 \<le> MsgID g"
  shows "Addr_String a = Addr_String b \<and> HostID f = HostID g \<and> MsgID f = MsgID g"
  using bucketKey_inj [OF assms] .

theorem bucket_key_identifies_message_witness:
  "Addr_String (Addr4 5) = Addr_String (Addr4 5) \<and> HostID (example_part 1 0) = HostID (example_part 1 1) \<and>
   MsgID (example_part 1 0) = MsgID (example_part 1 1)"
proof -
  have "bucketKey_of (Addr4 5) (example_part 1 0) = bucketKey_of (Addr4 5) (example_part 1 1)" by code_simp
  then show ?thesis
    using bucket_key_identifies_message [of "Addr4 5" "example_part 1 0" "Addr4 5" "example_part 1 1"]
    by (simp add: example_part_def)
qed

text \<open>
  Shutting a shard down does not keep new buckets out of it: when every shard drains, the first
  fragment of a new message of several fragments is still stored, in a new bucket of a draining
  shard, while a message of one fragment is dropped.
\<close>

theorem draining_shard_opens_buckets:
  assumes "view_ok m" and "ids m \<noteq> []" and "\<not> FIPRRunning m" and d: "0 \<le> PacketDeadline m"
    and down: "list_all (\<lambda>(i, sh). InShutdown sh) (instances m)"
    and fresh: "\<not> BucketExistsAnywhere m (bucketKey_of addr f)" and f: "frag_ok f" and t: "0 < t" "t < 2 ^ 63"
    and room: "list_all (\<lambda>(i, sh). length (keyQueue sh) < keyCap sh) (instances m)"
  shows "if MessageSeqMax f = 0 then RouteFragment sha env False m addr f t = Some (m, NotRouted)
    else \<exists>m' i. RouteFragment sha env False m addr f t = Some (m', ToShard i) \<and> IsShardShutdown m' i \<and>
      BucketExists m' i (bucketKey_of addr f)"
proof (cases "MessageSeqMax f = 0")
  case True
  have "GetNonDrainingIDs (range_order env) m = []"
    using down by (auto simp: GetNonDrainingIDs_def list_all_iff filter_empty_conv dest!: map_of_SomeD split: option.splits)
  then show ?thesis using True by (simp add: RouteFragment_def Let_def)
next
  case False
  let ?k = "bucketKey_of addr f" let ?i = "target sha m ?k"
  obtain sh0 where sh0: "map_of (instances m) ?i = Some sh0"
    using view_shard [OF assms(1) target_mem [OF assms(2)]] by blast
  have "length (keyQueue sh0) < keyCap sh0" "InShutdown sh0"
    using room down sh0 by (auto simp: list_all_iff dest: map_of_SomeD)
  moreover have "one_message (MessageSeqMax f) [(f, t)]" using f by (auto simp: one_message_def frag_ok_def)
  moreover have "in_time (PacketDeadline m) [(f, t)]" using t by (simp add: in_time_def)
  ultimately obtain sh where sh: "route_all sha env m addr [(f, t)] = Some (with_shard m ?i sh, [ToShard ?i])"
    "holds sh ?k (MessageSeqMax f) [(f, t)]" "InShutdown sh"
    using route_all_collects [OF assms(1-3) False d refl sh0 fresh, of addr "[(f, t)]" env] by auto
  then have "RouteFragment sha env False m addr f t = Some (with_shard m ?i sh, ToShard ?i)"
    by (auto split: option.splits)
  then show ?thesis using False sh by (auto simp: IsShardShutdown_def BucketExists_def holds_def update_conv')
qed

theorem draining_shard_opens_buckets_witness:
  "\<exists>m' i. RouteFragment (\<lambda>_. replicate 32 5) \<lparr>socket_files = None, remote_route = (\<lambda>_ _ _ _ f. (f, RemoteError)), range_order = []\<rparr> False
      (example_manager [(''0'', True), (''1'', True)]) example_addr (example_part 1 0) 1000 = Some (m', ToShard i) \<and>
    IsShardShutdown m' i \<and> BucketExists m' i (bucketKey_of example_addr (example_part 1 0))"
proof -
  let ?m = "example_manager [(''0'', True), (''1'', True)]"
  have v: "view_ok ?m" by code_simp
  have h: "ids ?m \<noteq> [] \<and> \<not> FIPRRunning ?m \<and> 0 \<le> PacketDeadline ?m \<and> list_all (\<lambda>(i, sh). InShutdown sh) (instances ?m) \<and>
    \<not> BucketExistsAnywhere ?m (bucketKey_of example_addr (example_part 1 0)) \<and> frag_ok (example_part 1 0) \<and>
    list_all (\<lambda>(i, sh). length (keyQueue sh) < keyCap sh) (instances ?m) \<and> MessageSeqMax (example_part 1 0) \<noteq> 0" by code_simp
  show ?thesis
    using draining_shard_opens_buckets [OF v, where addr = example_addr and f = "example_part 1 0" and t = 1000] h by simp
qed

end
