(* ===== verification/Receiver_Pipeline.thy ===== *)
theory Receiver_Pipeline
  imports Proto_Wrapper MPMC_Queue Replay_Cache Shard_Routing
begin

text \<open>
  The workers of the receiver: \<^verbatim>\<open>internal/receiver/listener/worker.go\<close>, \<^verbatim>\<open>processor/worker.go\<close> and
  \<^verbatim>\<open>assembler/worker.go\<close>, one turn of each loop as a function of the worker's state, and the
  composition of the three: what was read from the socket is what reaches the output queue. Durations
  and the current time are arguments; a panic is recovered by the loop and is a result of the turn; a turn that
  blocks is None. Log lines are left out.
\<close>

section \<open>The listener\<close>

text \<open>The maximum kept by a compare-and-swap loop, read as a signed number.\<close>

definition bump_max :: "int \<Rightarrow> 64 word \<Rightarrow> 64 word" where
  "bump_max durNs oldMax = (if durNs > sint oldMax then of_int durNs else oldMax)"

record Container =
  cData :: bytes
  cRemoteIP :: netip_addr

record ListenerMetrics =
  BusyNs :: "64 word"
  ValidPackets :: "64 word"
  InvalidPackets :: "64 word"
  ls_SumNs :: "64 word"
  ls_MaxNs :: "64 word"
  ls_Dropped :: "64 word"

text \<open>A listener with the replay cache of its manager and the queue to the processors.\<close>

record Listener =
  minLen :: nat
  ls_Metrics :: ListenerMetrics
  ls_cache :: replayCache
  ls_outbox :: "Container Queue"

definition netipAddrSize :: nat where "netipAddrSize = 24"

definition listener_newWorker :: "replayCache \<Rightarrow> Container Queue \<Rightarrow> Listener" where
  "listener_newWorker cache outbox = \<lparr> minLen = MinOuterPayloadLen,
     ls_Metrics = \<lparr> BusyNs = 0, ValidPackets = 0, InvalidPackets = 0, ls_SumNs = 0, ls_MaxNs = 0, ls_Dropped = 0 \<rparr>,
     ls_cache = cache, ls_outbox = outbox \<rparr>"

text \<open>The outcome of a read; an error is silent when the worker is being stopped.\<close>

datatype udp_read = ReadError bool | Datagram bytes netip_addr

datatype listen_result = ListenQuiet | ListenReadFailed | ListenInvalid | ListenReplayed | ListenDropped | ListenQueued | ListenPanic

record listen_clock =
  lc_now :: int
  lc_dur :: int
  lc_busy :: int

definition ls_metrics_upd :: "(ListenerMetrics \<Rightarrow> ListenerMetrics) \<Rightarrow> Listener \<Rightarrow> Listener" where
  "ls_metrics_upd f s = s\<lparr>ls_Metrics := f (ls_Metrics s)\<rparr>"

definition listen_refuse :: "listen_clock \<Rightarrow> Listener \<Rightarrow> Listener" where
  "listen_refuse clk = ls_metrics_upd (\<lambda>m. m\<lparr>InvalidPackets := InvalidPackets m + 1, BusyNs := BusyNs m + of_int (lc_busy clk)\<rparr>)"

definition listen_turn :: "crypto_prims \<Rightarrow> listen_clock \<Rightarrow> udp_read \<Rightarrow> Listener \<Rightarrow> (Listener \<times> listen_result) option" where
  "listen_turn P clk rd s =
     (case rd of
        ReadError stopping \<Rightarrow>
          if stopping then Some (s, ListenQuiet)
          else Some (ls_metrics_upd (\<lambda>m. m\<lparr>BusyNs := BusyNs m + of_int (lc_busy clk)\<rparr>) s, ListenReadFailed)
      | Datagram payload remoteAddr \<Rightarrow>
          if length payload = 0 then Some (s, ListenQuiet)
          else (case GetSuiteInfo P (payload ! 0) of
             None \<Rightarrow> Some (listen_refuse clk s, ListenInvalid)
           | Some suiteInfo \<Rightarrow>
               if length payload < minLen s then Some (listen_refuse clk s, ListenInvalid)
               else
                 let pubKey = take (KeySize suiteInfo) (drop SuiteIDLen payload) in
                 (case isReplayed (ls_cache s) (lc_now clk) pubKey of
                    None \<Rightarrow> Some (s, ListenPanic)
                  | Some (cache, True) \<Rightarrow> Some (listen_refuse clk (s\<lparr>ls_cache := cache\<rparr>), ListenReplayed)
                  | Some (cache, False) \<Rightarrow>
                      let newQueueEntry = \<lparr>cData = payload, cRemoteIP = remoteAddr\<rparr>;
                          s = ls_metrics_upd (\<lambda>m. m\<lparr>ls_SumNs := ls_SumNs m + of_int (lc_dur clk),
                                ls_MaxNs := bump_max (lc_dur clk) (ls_MaxNs m)\<rparr>) (s\<lparr>ls_cache := cache\<rparr>) in
                      (case PushWithRetry (ls_outbox s) newQueueEntry (of_nat (length payload + netipAddrSize)) 4 of
                         None \<Rightarrow> None
                       | Some (outbox, Inl _) \<Rightarrow>
                           Some (ls_metrics_upd (\<lambda>m. m\<lparr>ls_Dropped := ls_Dropped m + 1\<rparr>) (s\<lparr>ls_outbox := outbox\<rparr>), ListenDropped)
                       | Some (outbox, Inr _) \<Rightarrow>
                           Some (ls_metrics_upd (\<lambda>m. m\<lparr>ValidPackets := ValidPackets m + 1,
                             BusyNs := BusyNs m + of_int (lc_busy clk)\<rparr>) (s\<lparr>ls_outbox := outbox\<rparr>), ListenQueued)))))"

section \<open>The processor\<close>

record ProcMetrics =
  ValidPayloads :: "64 word"
  InvalidPayloads :: "64 word"
  ps_SumNs :: "64 word"
  ps_MaxNs :: "64 word"
  ps_Dropped :: "64 word"

record Processor =
  pastTimestampLimit :: int
  futureTimestampLimit :: int
  ps_Metrics :: ProcMetrics

definition processor_newWorker :: "int \<Rightarrow> int \<Rightarrow> Processor" where
  "processor_newWorker past future = \<lparr> pastTimestampLimit = past, futureTimestampLimit = future,
     ps_Metrics = \<lparr> ValidPayloads = 0, InvalidPayloads = 0, ps_SumNs = 0, ps_MaxNs = 0, ps_Dropped = 0 \<rparr> \<rparr>"

datatype proc_result = ProcIdle | ProcPanic | ProcBadOuter | ProcBadInner | ProcBadPayload | ProcFuture | ProcPast | ProcRouted route

definition ps_metrics_upd :: "(ProcMetrics \<Rightarrow> ProcMetrics) \<Rightarrow> Processor \<Rightarrow> Processor" where
  "ps_metrics_upd f p = p\<lparr>ps_Metrics := f (ps_Metrics p)\<rparr>"

definition proc_invalid :: "Processor \<Rightarrow> Processor" where
  "proc_invalid = ps_metrics_upd (\<lambda>m. m\<lparr>InvalidPayloads := InvalidPayloads m + 1\<rparr>)"

text \<open>An error of the protocol counts as invalid; a panic skips the count.\<close>

definition proc_failed :: "d3p_sentinel go_error \<Rightarrow> Processor \<Rightarrow> Manager \<Rightarrow> proc_result \<Rightarrow> (Processor \<times> Manager \<times> proc_result) option" where
  "proc_failed e p m r = Some (case e of Panic \<Rightarrow> (p, m, ProcPanic) | Err _ \<Rightarrow> (proc_invalid p, m, r))"

definition process_entry ::
  "(bytes \<Rightarrow> bytes) \<Rightarrow> remote_env \<Rightarrow> bool \<Rightarrow> crypto_prims \<Rightarrow> wrappers \<Rightarrow> Container \<Rightarrow> int \<Rightarrow> Processor \<Rightarrow> Manager \<Rightarrow>
   (Processor \<times> Manager \<times> proc_result) option" where
  "process_entry sha256 env ctxDone P W queueEntry processingStartTime p m =
     (case DeconstructOuterPayload P W (cData queueEntry) of
        Inl e \<Rightarrow> proc_failed e p m ProcBadOuter
      | Inr innerPayload \<Rightarrow>
     (case DeconstructInnerPayload P innerPayload of
        Inl e \<Rightarrow> proc_failed e p m ProcBadInner
      | Inr payload \<Rightarrow>
     (case DeconstructPayload P W payload of
        Inl e \<Rightarrow> proc_failed e p m ProcBadPayload
      | Inr msg \<Rightarrow>
          let msg = msg\<lparr>RemoteIP := cRemoteIP queueEntry\<rparr> in
          if Timestamp msg > processingStartTime + futureTimestampLimit p then Some (proc_invalid p, m, ProcFuture)
          else if Timestamp msg < processingStartTime + (- pastTimestampLimit p) then Some (proc_invalid p, m, ProcPast)
          else
            let p = ps_metrics_upd (\<lambda>m. m\<lparr>ValidPayloads := ValidPayloads m + 1\<rparr>) p in
            (case RouteFragment sha256 env ctxDone m (cRemoteIP queueEntry) msg processingStartTime of
               None \<Rightarrow> None
             | Some (m, r) \<Rightarrow>
                 Some (if r = NotRouted then ps_metrics_upd (\<lambda>m. m\<lparr>ps_Dropped := ps_Dropped m + 1\<rparr>) p else p, m, ProcRouted r)))))"

text \<open>
  One turn of the loop. The size of the entry is subtracted from the byte gauge of the queue, which
  \<^verbatim>\<open>Pop\<close> has already done. The time is recorded whatever the outcome, panic included.
\<close>

definition bytes_subtract :: "nat \<Rightarrow> 'a Queue \<Rightarrow> 'a Queue" where
  "bytes_subtract n inbox =
     (let w = ActiveWrite inbox; q = insts inbox ! w in
      inbox\<lparr>insts := (insts inbox)[w := q\<lparr>Metrics := (Metrics q)\<lparr>Bytes := fst (Subtract (Bytes (Metrics q)) (of_nat n) 4 [])\<rparr>\<rparr>]\<rparr>)"

definition inbox_subtract :: "Container \<Rightarrow> Container Queue \<Rightarrow> Container Queue" where
  "inbox_subtract queueEntry inbox = bytes_subtract (length (cData queueEntry) + netipAddrSize) inbox"

definition proc_timed :: "int \<Rightarrow> Processor \<Rightarrow> Processor" where
  "proc_timed durNs = ps_metrics_upd (\<lambda>m. m\<lparr>ps_SumNs := ps_SumNs m + of_int durNs, ps_MaxNs := bump_max durNs (ps_MaxNs m)\<rparr>)"

definition proc_turn ::
  "(bytes \<Rightarrow> bytes) \<Rightarrow> remote_env \<Rightarrow> bool \<Rightarrow> wake list \<Rightarrow> crypto_prims \<Rightarrow> wrappers \<Rightarrow> int \<Rightarrow> int \<Rightarrow>
   Container Queue \<times> Processor \<times> Manager \<Rightarrow> ((Container Queue \<times> Processor \<times> Manager) \<times> proc_result) option" where
  "proc_turn sha256 env ctxDone sel P W processingStartTime durNs st =
     (case st of (inbox, p, m) \<Rightarrow>
        (case Pop ctxDone sel inbox of
           None \<Rightarrow> None
         | Some (inbox, PopOut queueEntry) \<Rightarrow>
             map_option (\<lambda>(p, m, r). ((inbox_subtract queueEntry inbox, proc_timed durNs p, m), r))
               (process_entry sha256 env ctxDone P W queueEntry processingStartTime p m)
         | Some (inbox, PopCancelled) \<Rightarrow> Some ((inbox, p, m), ProcIdle)
         | Some (inbox, PopBlocked) \<Rightarrow> None))"

section \<open>The assembler\<close>

record AsmMetrics =
  ProcessedBuckets :: "64 word"
  as_SumNs :: "64 word"
  as_MaxNs :: "64 word"
  as_Dropped :: "64 word"

text \<open>An assembler with the shard it empties and the queue to the output.\<close>

record Assembler =
  as_Shard :: Shard
  as_outbox :: "Payload Queue"
  as_Metrics :: AsmMetrics

definition assembler_newWorker :: "Shard \<Rightarrow> Payload Queue \<Rightarrow> Assembler" where
  "assembler_newWorker sh outQueue = \<lparr> as_Shard = sh, as_outbox = outQueue,
     as_Metrics = \<lparr> ProcessedBuckets = 0, as_SumNs = 0, as_MaxNs = 0, as_Dropped = 0 \<rparr> \<rparr>"

datatype asm_result = AsmNoKey | AsmFatal | AsmPanic | AsmFailed | AsmDropped | AsmDone Payload

text \<open>\<open>order\<close> is the order in which the range over the fragments of the bucket visits their sequence numbers.\<close>

definition asm_turn :: "bool \<Rightarrow> int list \<Rightarrow> int \<Rightarrow> Assembler \<Rightarrow> (Assembler \<times> asm_result) option" where
  "asm_turn ctxDone order durNs a =
     (case PopKey ctxDone (as_Shard a) of
        None \<Rightarrow> None
      | Some (sh, None) \<Rightarrow> Some (a\<lparr>as_Shard := sh\<rparr>, AsmNoKey)
      | Some (sh, Some bucketKey) \<Rightarrow>
     (case DrainBucket sh bucketKey of
        (sh, FatalUnlock) \<Rightarrow> Some (a\<lparr>as_Shard := sh\<rparr>, AsmFatal)
      | (sh, Drained bucket) \<Rightarrow>
          let a = a\<lparr>as_Shard := sh\<rparr>;
              fragSlice = List.map_filter (map_of (Fragments bucket)) order in
     (case Defragment fragSlice of
        Inl Panic \<Rightarrow> Some (a, AsmPanic)
      | Inl (Err _) \<Rightarrow> Some (a, AsmFailed)
      | Inr finalMsg \<Rightarrow>
          let a = a\<lparr>as_Metrics := (as_Metrics a)\<lparr>as_SumNs := as_SumNs (as_Metrics a) + of_int durNs,
                    as_MaxNs := bump_max durNs (as_MaxNs (as_Metrics a))\<rparr>\<rparr> in
          (case PushWithRetry (as_outbox a) finalMsg (of_nat (Payload_Size finalMsg)) 10 of
             None \<Rightarrow> None
           | Some (outbox, Inl _) \<Rightarrow>
               Some (a\<lparr>as_outbox := outbox, as_Metrics := (as_Metrics a)\<lparr>as_Dropped := as_Dropped (as_Metrics a) + 1\<rparr>\<rparr>, AsmDropped)
           | Some (outbox, Inr _) \<Rightarrow>
               Some (a\<lparr>as_outbox := outbox, as_Metrics := (as_Metrics a)\<lparr>ProcessedBuckets := ProcessedBuckets (as_Metrics a) + 1\<rparr>\<rparr>,
                 AsmDone finalMsg)))))"

section \<open>The listener's checks\<close>

text \<open>The length test covers the keys of both suites, so the slice of the key lies within the packet.\<close>

lemma minLen_covers_key:
  assumes "GetSuiteInfo P i = Some suite" and "MinOuterPayloadLen \<le> length payload"
  shows "SuiteIDLen + KeySize suite \<le> length payload"
proof -
  have "KeySize cryptoSuite0 \<le> 32" by code_simp
  then have "KeySize suite \<le> 32"
    using assms(1) by (auto simp: GetSuiteInfo_def cryptoSuites_def cryptoSuite1_def crypto_sizes split: if_splits)
  moreover have "SuiteIDLen + 32 \<le> MinOuterPayloadLen" by code_simp
  ultimately show ?thesis using assms(2) by simp
qed

section \<open>A packet through the processor\<close>

lemma process_entry_accepted:
  assumes "extract_packet P W (cData e) = Inr f"
    and "Timestamp f \<le> start + futureTimestampLimit p" and "start - pastTimestampLimit p \<le> Timestamp f"
    and "RouteFragment sha env c m (cRemoteIP e) (f\<lparr>RemoteIP := cRemoteIP e\<rparr>) start = Some (m', r)" and "r \<noteq> NotRouted"
  shows "process_entry sha env c P W e start p m =
    Some (ps_metrics_upd (\<lambda>m. m\<lparr>ValidPayloads := ValidPayloads m + 1\<rparr>) p, m', ProcRouted r)"
  using assms by (auto simp: process_entry_def extract_packet_def rbind_eq_Inr Let_def)

lemma bytes_subtract_contents:
  assumes "queue_inv q"
  shows "queue_inv (bytes_subtract n q)" "queue_contents (bytes_subtract n q) = queue_contents q"
    "ActiveRead (bytes_subtract n q) = ActiveRead q" "ActiveWrite (bytes_subtract n q) = ActiveWrite q"
  using assms
  by (auto simp: bytes_subtract_def Let_def queue_inv_def queue_contents_def nth_list_update ring_inv_def ring_contents_def slot_def)

lemma inbox_subtract_contents:
  assumes "queue_inv q"
  shows "queue_inv (inbox_subtract e q)" "queue_contents (inbox_subtract e q) = queue_contents q"
    "ActiveRead (inbox_subtract e q) = ActiveRead q" "ActiveWrite (inbox_subtract e q) = ActiveWrite q"
  using bytes_subtract_contents [OF assms] by (simp_all add: inbox_subtract_def)

text \<open>Several turns of a processor, each with its start and duration.\<close>

fun proc_turns ::
  "(bytes \<Rightarrow> bytes) \<Rightarrow> remote_env \<Rightarrow> crypto_prims \<Rightarrow> wrappers \<Rightarrow> (int \<times> int) list \<Rightarrow>
   Container Queue \<times> Processor \<times> Manager \<Rightarrow> ((Container Queue \<times> Processor \<times> Manager) \<times> proc_result list) option" where
  "proc_turns sha256 env P W [] st = Some (st, [])"
| "proc_turns sha256 env P W ((start, dur) # ts) st =
     (case proc_turn sha256 env False [] P W start dur st of
        None \<Rightarrow> None
      | Some (st', r) \<Rightarrow> map_option (\<lambda>(st'', rs). (st'', r # rs)) (proc_turns sha256 env P W ts st'))"

definition accepts :: "Processor \<Rightarrow> int \<Rightarrow> int \<Rightarrow> bool" where
  "accepts p start t \<longleftrightarrow> t \<le> start + futureTimestampLimit p \<and> start - pastTimestampLimit p \<le> t"

lemma proc_turn_routed:
  assumes q: "queue_inv inbox" "ActiveRead inbox = ActiveWrite inbox" "queue_contents inbox = e # es"
    and f: "extract_packet P W (cData e) = Inr f" "accepts p start (Timestamp f)"
    and r: "RouteFragment sha env False m (cRemoteIP e) (f\<lparr>RemoteIP := cRemoteIP e\<rparr>) start = Some (m', r)" "r \<noteq> NotRouted"
  shows "\<exists>inbox' p'. proc_turn sha env False [] P W start dur (inbox, p, m) = Some ((inbox', p', m'), ProcRouted r) \<and>
    queue_inv inbox' \<and> ActiveRead inbox' = ActiveWrite inbox' \<and> queue_contents inbox' = es \<and>
    pastTimestampLimit p' = pastTimestampLimit p \<and> futureTimestampLimit p' = futureTimestampLimit p \<and>
    ValidPayloads (ps_Metrics p') = ValidPayloads (ps_Metrics p) + 1 \<and>
    InvalidPayloads (ps_Metrics p') = InvalidPayloads (ps_Metrics p) \<and> ps_Dropped (ps_Metrics p') = ps_Dropped (ps_Metrics p)"
proof -
  have "ring_contents (insts inbox ! ActiveRead inbox) \<noteq> []" using q by (auto simp: queue_contents_def)
  from Pop_oldest [OF q(1) this, of False "[]"] q obtain inbox1 where
    i1: "Pop False [] inbox = Some (inbox1, PopOut e)" "queue_inv inbox1" "queue_contents inbox1 = es"
      "ActiveRead inbox1 = ActiveWrite inbox1" by auto
  note sub = inbox_subtract_contents [OF i1(2), of e]
  show ?thesis
    using process_entry_accepted [OF f(1) _ _ r] f(2) i1 sub
    by (intro exI [of _ "inbox_subtract e inbox1"])
      (auto simp: proc_turn_def accepts_def proc_timed_def ps_metrics_upd_def)
qed

lemma proc_turns_route:
  assumes "queue_inv inbox" "ActiveRead inbox = ActiveWrite inbox"
    and "queue_contents inbox = map (\<lambda>pk. \<lparr>cData = pk, cRemoteIP = addr\<rparr>) pks"
    and "map (extract_packet P W) pks = map Inr fs" and "length ts = length pks"
    and "list_all2 (\<lambda>f (t, d). accepts p t (Timestamp f)) fs ts"
    and "route_all sha env m addr (zip (map (\<lambda>f. f\<lparr>RemoteIP := addr\<rparr>) fs) (map fst ts)) = Some (m', rs)"
    and "NotRouted \<notin> set rs"
  shows "\<exists>inbox' p'. proc_turns sha env P W ts (inbox, p, m) = Some ((inbox', p', m'), map ProcRouted rs) \<and>
    queue_contents inbox' = [] \<and> ValidPayloads (ps_Metrics p') = ValidPayloads (ps_Metrics p) + of_nat (length pks) \<and>
    InvalidPayloads (ps_Metrics p') = InvalidPayloads (ps_Metrics p) \<and> ps_Dropped (ps_Metrics p') = ps_Dropped (ps_Metrics p)"
  using assms
proof (induction pks arbitrary: fs ts inbox p m rs)
  case Nil
  then show ?case by auto
next
  case (Cons pk pks)
  from Cons.prems(4,5) obtain f fs' t d ts' where fs: "fs = f # fs'" "extract_packet P W pk = Inr f"
    "map (extract_packet P W) pks = map Inr fs'" and ts: "ts = (t, d) # ts'" "length ts' = length pks"
    by (cases fs; cases ts) auto
  from Cons.prems(7) fs ts obtain m1 r rs' where m1: "RouteFragment sha env False m addr (f\<lparr>RemoteIP := addr\<rparr>) t = Some (m1, r)"
    and rs: "route_all sha env m1 addr (zip (map (\<lambda>f. f\<lparr>RemoteIP := addr\<rparr>) fs') (map fst ts')) = Some (m', rs')" "rs = r # rs'"
    by (auto split: option.splits)
  have "accepts p t (Timestamp f)" "r \<noteq> NotRouted" using Cons.prems(6,8) fs ts rs by auto
  from proc_turn_routed [of inbox "\<lparr>cData = pk, cRemoteIP = addr\<rparr>" "map (\<lambda>pk. \<lparr>cData = pk, cRemoteIP = addr\<rparr>) pks",
      OF Cons.prems(1,2) _ _ this(1) _ this(2), of P W sha env m m1 d] Cons.prems(3) fs m1
  obtain inbox1 p1 where one: "proc_turn sha env False [] P W t d (inbox, p, m) = Some ((inbox1, p1, m1), ProcRouted r)"
    "queue_inv inbox1" "ActiveRead inbox1 = ActiveWrite inbox1" "queue_contents inbox1 = map (\<lambda>pk. \<lparr>cData = pk, cRemoteIP = addr\<rparr>) pks"
    and p1: "pastTimestampLimit p1 = pastTimestampLimit p" "futureTimestampLimit p1 = futureTimestampLimit p"
    "ValidPayloads (ps_Metrics p1) = ValidPayloads (ps_Metrics p) + 1"
    "InvalidPayloads (ps_Metrics p1) = InvalidPayloads (ps_Metrics p)" "ps_Dropped (ps_Metrics p1) = ps_Dropped (ps_Metrics p)"
    by auto
  have "list_all2 (\<lambda>f (t, d). accepts p1 t (Timestamp f)) fs' ts'"
    using Cons.prems(6) fs ts p1 by (simp add: accepts_def)
  from Cons.IH [OF one(2-4) fs(3) ts(2) this rs(1)] Cons.prems(8) rs(2) obtain inbox' p' where
    "proc_turns sha env P W ts' (inbox1, p1, m1) = Some ((inbox', p', m'), map ProcRouted rs')" "queue_contents inbox' = []"
    "ValidPayloads (ps_Metrics p') = ValidPayloads (ps_Metrics p1) + of_nat (length pks)"
    "InvalidPayloads (ps_Metrics p') = InvalidPayloads (ps_Metrics p1)" "ps_Dropped (ps_Metrics p') = ps_Dropped (ps_Metrics p1)"
    by auto
  then show ?case using one(1) p1 rs(2) ts by (auto simp: add_ac)
qed

section \<open>A bucket through the assembler\<close>

lemma PushWithRetry_appends:
  assumes "queue_inv c" and "length (ring_contents (insts c ! ActiveWrite c)) < length (buf (insts c ! ActiveWrite c))"
    and "0 < ring_budget (insts c ! ActiveWrite c)" and "0 < n"
  shows "\<exists>c'. PushWithRetry c x sz n = Some (c', Inr ()) \<and> queue_inv c' \<and> queue_contents c' = queue_contents c @ [x]"
proof -
  obtain k where "nat (if n = 0 then 1 else n) = Suc k" using assms(4) by (cases "nat n") auto
  with Push_appends [OF assms(1-3), of x sz] show ?thesis by (auto simp: PushWithRetry_def)
qed

lemma asm_turn_done:
  assumes k: "keyQueue (as_Shard a) = k # rest" and b: "map_of (Buckets (as_Shard a)) k = Some b"
    and f: "Defragment (List.map_filter (map_of (Fragments b)) order) = Inr f"
    and q: "queue_inv (as_outbox a)" "length (ring_contents (insts (as_outbox a) ! ActiveWrite (as_outbox a))) < length (buf (insts (as_outbox a) ! ActiveWrite (as_outbox a)))"
      "0 < ring_budget (insts (as_outbox a) ! ActiveWrite (as_outbox a))"
  shows "\<exists>a'. asm_turn False order dur a = Some (a', AsmDone f) \<and> queue_contents (as_outbox a') = queue_contents (as_outbox a) @ [f] \<and>
    keyQueue (as_Shard a') = rest \<and> map_of (Buckets (as_Shard a')) k = None"
proof -
  define sh where "sh = waiting_decrement ((pop_counted (as_Shard a))\<lparr>keyQueue := rest\<rparr>)"
  have p: "PopKey False (as_Shard a) = Some (sh, Some k)" "map_of (Buckets sh) k = Some b" "keyQueue sh = rest"
    using k b by (auto simp: PopKey_def sh_def Let_def pop_counted_def waiting_decrement_def)
  obtain c where c: "PushWithRetry (as_outbox a) f (of_nat (Payload_Size f)) 10 = Some (c, Inr ())"
    "queue_contents c = queue_contents (as_outbox a) @ [f]"
    using PushWithRetry_appends [OF q, of 10 f "of_nat (Payload_Size f)"] by auto
  show ?thesis using p f c by (simp add: asm_turn_def DrainBucket_def Let_def delete_conv')
qed

section \<open>A message through the receiver\<close>

definition timely :: "int \<Rightarrow> int list \<Rightarrow> bool" where
  "timely d ts \<longleftrightarrow> list_all (\<lambda>t. 0 < t \<and> t < 2 ^ 63) ts \<and> list_all (\<lambda>(t, u). u - t \<le> d) (zip ts (tl ts))"

lemma in_time_zip:
  assumes "length gs = length ts" and "timely d ts"
  shows "in_time d (zip gs ts)"
proof -
  have "ts ! Suc i - ts ! i \<le> d" if "Suc i < length ts" for i
    using assms(2) that by (auto simp: timely_def list_all_length nth_tl)
  moreover have "0 < t \<and> t < 2 ^ 63" if "(f, t) \<in> set (zip gs ts)" for f t
    using assms(2) set_zip_rightD [OF that] by (auto simp: timely_def list_all_iff)
  ultimately show ?thesis using assms(1) by (auto simp: in_time_def list_all_iff)
qed

lemma bucket_by_order:
  assumes "\<And>j. j \<in> set is \<Longrightarrow> MessageSeq (g j) = int j" and "length ts = length is" and "set js \<subseteq> set is"
  shows "List.map_filter (map_of (Fragments (bucket_of mx (zip (map g is) ts)))) (map int js) = map g js"
proof -
  have f: "Fragments (bucket_of mx (zip (map g is) ts)) = map (\<lambda>j. (int j, g j)) is"
    using assms(1,2) by (intro nth_equalityI) (simp_all add: bucket_of_def)
  have "map_of (map (\<lambda>j. (int j, g j)) is) (int j) = Some (g j)" if "j \<in> set is" for j
    using that by (induction "is") auto
  then show ?thesis using assms(3) unfolding f by (induction js) (auto simp: List.map_filter_def)
qed

lemma one_message_received:
  assumes "length ts = length is" and "distinct is" and "\<And>j. j \<in> set is \<Longrightarrow> int j \<le> mx"
    and "\<And>j. j \<in> set is \<Longrightarrow> MessageSeq (g j) = int j" and "\<And>j. j \<in> set is \<Longrightarrow> MessageSeqMax (g j) = mx" and "is \<noteq> []"
  shows "one_message mx (zip (map g is) ts)"
proof -
  have "map (MessageSeq \<circ> fst) (zip (map g is) ts) = map int is"
    using assms(1,4) by (intro nth_equalityI) auto
  moreover have "MessageSeqMax f = mx \<and> frag_ok f" if "(f, t) \<in> set (zip (map g is) ts)" for f t
    using set_zip_leftD [OF that] assms(3-5) by (auto simp: frag_ok_def)
  moreover have "0 \<le> mx" using assms(3) [of "hd is"] assms(6) by simp
  ultimately show ?thesis using assms(2) by (auto simp: one_message_def list_all_iff distinct_map)
qed

definition idle :: "Manager \<Rightarrow> bool" where
  "idle m \<longleftrightarrow> view_ok m \<and> ids m \<noteq> [] \<and> \<not> FIPRRunning m \<and> 0 \<le> PacketDeadline m \<and>
     list_all (\<lambda>(i, sh). Buckets sh = [] \<and> keyQueue sh = [] \<and> 0 < keyCap sh) (instances m)"

text \<open>The fragments of a message, routed to an idle manager.\<close>

lemma idle_collects:
  assumes m: "idle m" and ts: "timely (PacketDeadline m) ts" "length ts = length is"
    and key: "\<And>j. j \<in> set is \<Longrightarrow> bucketKey_of addr (g j) = k"
    and one: "one_message mx (zip (map g is) ts)" and mx: "mx \<noteq> 0" and len: "int (length is) = mx + 1"
  obtains m' i sh where "route_all sha env m addr (zip (map g is) ts) = Some (m', replicate (length is) (ToShard i))"
    and "map_of (instances m') i = Some sh" and "keyQueue sh = [k]"
    and "map_of (Buckets sh) k = Some (bucket_of mx (zip (map g is) ts))"
proof -
  let ?i = "target sha m k" and ?fs = "zip (map g is) ts"
  have m1: "view_ok m" "ids m \<noteq> []" "\<not> FIPRRunning m" "0 \<le> PacketDeadline m" using m by (auto simp: idle_def)
  obtain sh0 where sh0: "map_of (instances m) ?i = Some sh0" using view_shard [OF m1(1) target_mem [OF m1(2)]] by blast
  then have e: "Buckets sh0 = []" "keyQueue sh0 = []" "0 < keyCap sh0"
    using m by (auto simp: idle_def list_all_iff dest!: map_of_SomeD)
  have fresh: "\<not> BucketExistsAnywhere m k"
    using m by (fastforce simp: idle_def BucketExistsAnywhere_def BucketExists_def list_all_iff list_ex_iff
      dest: map_of_SomeD split: option.splits)
  have keys: "list_all (\<lambda>(f, t). bucketKey_of addr f = k) ?fs"
    using key by (auto simp: list_all_iff dest!: set_zip_leftD)
  have "in_time (PacketDeadline m) ?fs" using in_time_zip [OF _ ts(1), of "map g is"] ts(2) by simp
  from route_all_collects [OF m1(1-3) mx m1(4) refl sh0 fresh _ keys one this, of env] e ts(2) len
  obtain sh where "route_all sha env m addr ?fs = Some (with_shard m ?i sh, replicate (length is) (ToShard ?i))"
    "holds sh k mx ?fs" "keyQueue sh = [k]" by auto
  moreover have "?fs \<noteq> []" using len one ts(2) by (auto simp: one_message_def zip_eq_Nil_iff)
  ultimately show thesis
    using that [of "with_shard m ?i sh" ?i sh] by (auto simp: holds_def update_conv')
qed

text \<open>
  From the queue of the processors to the queue of the output: the turns of a processor on the packets
  of a message, then one turn of the assembler of the shard they reached.
\<close>

lemma suite1_receiver_delivers:
  assumes P: "x25519_ok P" "chacha_ok P"
    and c: "Create P S msg hostID mx 1 ss tp = Inr (packets, tp')" "paired (suite1_keypair P) S R" "tape_fresh tp"
      "sendable msg hostID" "length packets \<le> 65536" "identity_as P S R ss msg hostID h"
    and n: "1 < length packets" and fields: "list_all (\<lambda>(k, v). self_equal (recv_value v)) (m_Fields msg)"
    and perm: "mset is = mset [0..<length packets]" "mset js = mset [0..<length packets]"
    and inbox: "queue_inv inbox" "ActiveRead inbox = ActiveWrite inbox"
      "queue_contents inbox = map (\<lambda>j. \<lparr>cData = packets ! j, cRemoteIP = addr\<rparr>) is"
    and ts: "length ts = length packets" "timely (PacketDeadline m) (map fst ts)"
      "list_all (\<lambda>(t, d). accepts p t (time_UnixMilli (UnixMilli (m_Timestamp msg)))) ts"
    and m: "idle m"
    and outbox: "queue_inv outbox" "length (ring_contents (insts outbox ! ActiveWrite outbox)) < length (buf (insts outbox ! ActiveWrite outbox))"
      "0 < ring_budget (insts outbox ! ActiveWrite outbox)"
  obtains inbox' p' m' i sh a' f where
    "proc_turns sha env P R ts (inbox, p, m) = Some ((inbox', p', m'), replicate (length packets) (ProcRouted (ToShard i)))"
    and "queue_contents inbox' = []" and "map_of (instances m') i = Some sh"
    and "asm_turn False (map int js) dur (assembler_newWorker sh outbox) = Some (a', AsmDone f)"
    and "queue_contents (as_outbox a') = queue_contents outbox @ [f]"
    and "RemoteIP f = addr" "HostID f = hostID" "Timestamp f = time_UnixMilli (UnixMilli (m_Timestamp msg))"
      "Hostname f = h" "CustomFields f = recv_fields (m_Fields msg) []" "Data f = m_Data msg"
proof -
  let ?n = "length packets"
  from packet_channel.packets_of_message [OF suite1_packet_channel [OF P] c(1,2) tape_fresh_drop [OF c(3)] c(4-6)]
  obtain new room fs where ps: "map (extract_packet P R) packets = map (\<lambda>f. Inr (recv_payload f ss h)) fs"
    and fs0: "map MessageSeq fs = map int [0..<length fs]" "list_all (\<lambda>p. MessageSeqMax p = int (length fs) - 1) fs"
      "list_all (fragment_of new room) fs" "concat (map Data fs) = m_Data msg" "length fs = ?n"
    and new: "HostID new = hostID" "Timestamp new = m_Timestamp msg" "CustomFields new = m_Fields msg" .
  note fs = fs0(5) fs0(1,2) [unfolded fs0(5)] fs0(3,4)
  have n0: "0 < ?n" using n by linarith
  note arr = arrival_perm [OF perm(1) n0] arrival_perm [OF perm(2) n0]
  have isn: "set is = {0..<?n}" "distinct is" "is \<noteq> []" "length is = ?n" "set js = {0..<?n}"
    using arr mset_eq_length [OF perm(1)] by (simp_all add: arrival_def)
  define g where "g j = (recv_payload (fs ! j) ss h)\<lparr>RemoteIP := addr\<rparr>" for j
  have g: "MessageSeq (g j) = int j" "MessageSeqMax (g j) = int ?n - 1" "fragment_of new room (fs ! j)" if "j < ?n" for j
    using that fs by (auto simp: g_def recv_payload_def list_all_length dest: arg_cong [where f = "\<lambda>xs. xs ! j"])
  have key: "bucketKey_of addr (g j) = bucketKey_of addr new" if "j < ?n" for j
    using fragment_of_sel [OF g(3) [OF that]] by (simp add: g_def recv_payload_def bucketKey_of_def)
  have one: "one_message (int ?n - 1) (zip (map g is) (map fst ts))"
    using isn ts(1) g by (intro one_message_received) auto
  obtain m' i sh where r: "route_all sha env m addr (zip (map g is) (map fst ts)) = Some (m', replicate ?n (ToShard i))"
    "map_of (instances m') i = Some sh" "keyQueue sh = [bucketKey_of addr new]"
    "map_of (Buckets sh) (bucketKey_of addr new) = Some (bucket_of (int ?n - 1) (zip (map g is) (map fst ts)))"
    using idle_collects [OF m ts(2) _ _ one, of addr "bucketKey_of addr new" sha env] key isn ts(1) n by auto
  have ext: "map (extract_packet P R) (map (nth packets) is) = map Inr (map (\<lambda>j. recv_payload (fs ! j) ss h) is)"
    using ps isn fs(1) by (auto intro!: map_cong) (metis nth_map length_map)
  have acc: "list_all2 (\<lambda>f (t, d). accepts p t (Timestamp f)) (map (\<lambda>j. recv_payload (fs ! j) ss h) is) ts"
    unfolding list_all2_conv_all_nth
  proof (intro conjI allI impI)
    show "length (map (\<lambda>j. recv_payload (fs ! j) ss h) is) = length ts" using isn ts(1) by simp
    fix x assume "x < length (map (\<lambda>j. recv_payload (fs ! j) ss h) is)"
    then have x: "x < length ts" "is ! x < ?n" using isn ts(1) nth_mem [of x "is"] by auto
    then show "case ts ! x of (t, d) \<Rightarrow> accepts p t (Timestamp (map (\<lambda>j. recv_payload (fs ! j) ss h) is ! x))"
      using ts(1,3) isn(4) fragment_of_sel(3) [OF g(3) [OF x(2)]] new(2) by (auto simp: list_all_length recv_payload_def)
  qed
  obtain inbox' p' where pt: "proc_turns sha env P R ts (inbox, p, m) = Some ((inbox', p', m'), replicate ?n (ProcRouted (ToShard i)))"
    "queue_contents inbox' = []"
    using proc_turns_route [OF inbox(1,2) _ ext _ acc, of addr sha env m m' "replicate ?n (ToShard i)"] inbox(3) ts(1) isn r(1)
    by (auto simp: comp_def g_def [abs_def])
  have d: "Defragment (List.map_filter (map_of (Fragments (bucket_of (int ?n - 1) (zip (map g is) (map fst ts))))) (map int js)) =
    Inr (Payload_zero\<lparr> RemoteIP := addr, HostID := HostID new, MsgID := MsgID new,
      Timestamp := time_UnixMilli (UnixMilli (Timestamp new)), CustomFields := recv_fields (CustomFields new) [],
      Hostname := h, Data := m_Data msg \<rparr>)" (is "_ = Inr ?f")
    using bucket_by_order [of "is" g "map fst ts" js] g(1) isn ts(1) delivered_all [of js "map Data fs"] fs(1,5) n arr(3)
      Defragment_received [OF fs(1) arr(3) fs(2-4), where ss = ss and h = h and a = addr] fields new(3)
    by (auto simp: g_def [abs_def])
  from asm_turn_done [of "assembler_newWorker sh outbox", OF _ _ d, of "bucketKey_of addr new" "[]" dur] r(3,4) outbox
  obtain a' where "asm_turn False (map int js) dur (assembler_newWorker sh outbox) = Some (a', AsmDone ?f)"
    "queue_contents (as_outbox a') = queue_contents outbox @ [?f]"
    by (auto simp: assembler_newWorker_def)
  from that [OF pt r(2) this] new show thesis by simp
qed

section \<open>Concrete queues\<close>

lemma queue_holding:
  assumes "length xs \<le> 8"
  obtains q :: "'a Queue" where "queue_inv q" and "ActiveRead q = ActiveWrite q" and "queue_contents q = xs"
proof -
  obtain z :: 'a where True by blast
  obtain q0 where q0: "newQueueInst z [] 8 = Inr q0" by (simp add: newQueueInst_def)
  note q0_ok = newQueueInst_eq_Inr [OF q0, simplified]
  have t: "tpos q0 = 0" using q0 by (auto simp: newQueueInst_def)
  have "length (map OpPush xs) \<le> ring_budget q0" using assms q0_ok(3) t by (simp add: ring_budget_def)
  from ring.run_refines [OF q0_ok(1) this, of 0] obtain q1 outs where
    q1: "ring_inv q1" "spec_run 8 [] (map OpPush xs) = (map fst (ring_contents q1), outs)"
    using q0_ok(2,3) by auto
  have spec: "fst (spec_run 8 ys (map OpPush xs)) = ys @ xs" if "length ys + length xs \<le> 8" for ys
    using that
  proof (induction xs arbitrary: ys)
    case (Cons x xs)
    obtain zs outs where r: "spec_run 8 (ys @ [x]) (map OpPush xs) = (zs, outs)" by (cases "spec_run 8 (ys @ [x]) (map OpPush xs)")
    have "zs = (ys @ [x]) @ xs" using Cons.IH [of "ys @ [x]"] Cons.prems r by simp
    then show ?case using r Cons.prems by simp
  qed simp
  have "map fst (ring_contents q1) = xs" using spec [of "[]"] q1(2) assms by (metis append_Nil add_0 fst_conv list.size(3))
  then show thesis
    using that [of "\<lparr> insts = [q1\<lparr>draining := False\<rparr>], ActiveWrite = 0, ActiveRead = 0, migrateCh = False, minimumSize = 2, maximumSize = 8 \<rparr>"]
      q1(1) by (simp add: queue_inv_def queue_contents_def ring_inv_def ring_contents_def slot_def)
qed

definition example_outbox :: "Payload Queue" where
  "example_outbox = projr (New Payload_zero [] 8 2 16)"

lemma example_outbox_ok:
  "queue_inv example_outbox" "queue_contents example_outbox = []"
  "length (ring_contents (insts example_outbox ! ActiveWrite example_outbox)) < length (buf (insts example_outbox ! ActiveWrite example_outbox))"
  "0 < ring_budget (insts example_outbox ! ActiveWrite example_outbox)"
proof -
  obtain q where q: "newQueueInst Payload_zero [] 8 = Inr q" by (simp add: newQueueInst_def)
  then have t: "tpos q = 0" by (auto simp: newQueueInst_def)
  note ok = newQueueInst_eq_Inr [OF q, simplified]
  show "queue_inv example_outbox" "queue_contents example_outbox = []"
    "length (ring_contents (insts example_outbox ! ActiveWrite example_outbox)) < length (buf (insts example_outbox ! ActiveWrite example_outbox))"
    "0 < ring_budget (insts example_outbox ! ActiveWrite example_outbox)"
    using ok t q by (simp_all add: example_outbox_def New_def queue_inv_def queue_contents_def ring_budget_def)
qed

section \<open>Properties\<close>

text \<open>
  C3. From the packets in the processor queue to the message in the output queue: the packets of a
  message, in any order of arrival, are decrypted, validated and routed to one shard, whose
  assembler, visiting the fragments in any order, puts one message into the output queue with the
  data and fields of the message sent, its time in milliseconds, the address it came from, and the
  hostname marked as unverified. The packets are processed within the deadline of each other and
  within the cut-offs for the time stamp, by an idle receiver.
\<close>

theorem receiver_delivers_message:
  assumes "x25519_ok P" "chacha_ok P"
    and "Create P S msg hostID mx 1 0 tp = Inr (packets, tp')" "paired (suite1_keypair P) S R" "tape_fresh tp"
      "sendable msg hostID" "1 < length packets" "length packets \<le> 65536"
    and "LookupPinnedSender R (wire_hostname (m_Hostname msg)) = None"
    and "list_all (\<lambda>(k, v). self_equal (recv_value v)) (m_Fields msg)"
    and "mset is = mset [0..<length packets]" "mset js = mset [0..<length packets]"
    and "queue_inv inbox" "ActiveRead inbox = ActiveWrite inbox"
      "queue_contents inbox = map (\<lambda>j. \<lparr>cData = packets ! j, cRemoteIP = addr\<rparr>) is"
    and "length ts = length packets" "timely (PacketDeadline m) (map fst ts)"
      "list_all (\<lambda>(t, d). accepts p t (time_UnixMilli (UnixMilli (m_Timestamp msg)))) ts"
    and "idle m"
    and "queue_inv outbox" "length (ring_contents (insts outbox ! ActiveWrite outbox)) < length (buf (insts outbox ! ActiveWrite outbox))"
      "0 < ring_budget (insts outbox ! ActiveWrite outbox)"
  shows "\<exists>inbox' p' m' i sh a' f.
    proc_turns sha env P R ts (inbox, p, m) = Some ((inbox', p', m'), replicate (length packets) (ProcRouted (ToShard i))) \<and>
    queue_contents inbox' = [] \<and> map_of (instances m') i = Some sh \<and>
    asm_turn False (map int js) dur (assembler_newWorker sh outbox) = Some (a', AsmDone f) \<and>
    queue_contents (as_outbox a') = queue_contents outbox @ [f] \<and>
    RemoteIP f = addr \<and> HostID f = hostID \<and> Timestamp f = time_UnixMilli (UnixMilli (m_Timestamp msg)) \<and>
    Hostname f = HostPrefixUnverified @ wire_hostname (m_Hostname msg) \<and>
    CustomFields f = recv_fields (m_Fields msg) [] \<and> Data f = m_Data msg"
  using suite1_receiver_delivers [OF assms(1-6,8) identity_unsigned [OF assms(9)] assms(7,10-22)] by metis

theorem receiver_delivers_message_witness:
  "\<exists>packets tp' inbox inbox' p' m' i sh a' f.
    Create example_prims example_sender (example_message ''web2'') 12 124 1 0 example_tape = Inr (packets, tp') \<and>
    proc_turns (\<lambda>_. replicate 32 5) \<lparr>socket_files = None, remote_route = (\<lambda>_ _ _ _ f. (f, RemoteError)), range_order = []\<rparr>
      example_prims example_receiver [(4000000, 10), (5000000, 10)]
      (inbox, processor_newWorker 60000000000 60000000000, example_manager [(''0'', False), (''1'', False)]) =
      Some ((inbox', p', m'), replicate 2 (ProcRouted (ToShard i))) \<and> map_of (instances m') i = Some sh \<and>
    asm_turn False [1, 0] 7 (assembler_newWorker sh example_outbox) = Some (a', AsmDone f) \<and>
    queue_contents (as_outbox a') = [f] \<and> Data f = bytes_of_string ''hello wor''"
proof -
  obtain packets tp' where c: "Create example_prims example_sender (example_message ''web2'') 12 124 1 0 example_tape = Inr (packets, tp')"
    "length packets = 2"
    using example_unsigned by (rule createdE)
  obtain inbox where inbox: "queue_inv inbox" "ActiveRead inbox = ActiveWrite inbox"
    "queue_contents inbox = map (\<lambda>j. \<lparr>cData = packets ! j, cRemoteIP = example_addr\<rparr>) [1, 0]"
    by (rule queue_holding [of "map (\<lambda>j. \<lparr>cData = packets ! j, cRemoteIP = example_addr\<rparr>) [1, 0]"]) simp
  let ?m = "example_manager [(''0'', False), (''1'', False)]"
  have pin: "LookupPinnedSender example_receiver (wire_hostname (m_Hostname (example_message ''web2''))) = None" by code_simp
  have m: "idle ?m" by code_simp
  have t: "timely (PacketDeadline ?m) (map fst [(4000000, 10 :: int), (5000000, 10)])" by code_simp
  have a: "list_all (\<lambda>(t, d). accepts (processor_newWorker 60000000000 60000000000) t
    (time_UnixMilli (UnixMilli (m_Timestamp (example_message ''web2''))))) [(4000000, 10 :: int), (5000000, 10)]" by code_simp
  obtain inbox' p' m' i sh a' f where
    "proc_turns (\<lambda>_. replicate 32 5) \<lparr>socket_files = None, remote_route = (\<lambda>_ _ _ _ f. (f, RemoteError)), range_order = []\<rparr>
      example_prims example_receiver [(4000000, 10), (5000000, 10)] (inbox, processor_newWorker 60000000000 60000000000, ?m) =
      Some ((inbox', p', m'), replicate 2 (ProcRouted (ToShard i)))"
    "map_of (instances m') i = Some sh" "asm_turn False [1, 0] 7 (assembler_newWorker sh example_outbox) = Some (a', AsmDone f)"
    "queue_contents (as_outbox a') = [f]" "Data f = bytes_of_string ''hello wor''"
    using receiver_delivers_message [OF example_prims_ok(1,2) c(1) example_paired example_tape_fresh example_sendable(1) _ _ pin
        example_sendable(2) _ _ inbox _ t a m example_outbox_ok(1,3,4), of "[1, 0]"
          "\<lambda>_. replicate 32 5" "\<lparr>socket_files = None, remote_route = (\<lambda>_ _ _ _ f. (f, RemoteError)), range_order = []\<rparr>" 7]
      c(2) example_outbox_ok(2)
    by (auto simp: upt_rec example_message_def simp del: proc_turns.simps)
  with c(1) show ?thesis by blast
qed

text \<open>
  The pop has already taken the size of its element off the byte gauge; the second subtraction of the processor makes an exact gauge
  too small, by the size again or down to zero.
\<close>

theorem processor_gauge_drifts:
  assumes "ActiveWrite c < length (insts c)" and "gauges_ok (insts c ! ActiveWrite c)"
  shows "unat (Bytes (Metrics (insts (inbox_subtract e c) ! ActiveWrite c))) =
    ring_bytes (insts c ! ActiveWrite c) - unat (of_nat (length (cData e) + netipAddrSize) :: 64 word)"
  using assms unat_Subtract [of 4] by (simp add: inbox_subtract_def bytes_subtract_def Let_def gauges_ok_def)

lemma GetSuiteInfo_ids:
  "GetSuiteInfo P i = (if i = 0 then Some cryptoSuite0 else if i = 1 then Some (cryptoSuite1 P) else None)"
  by (auto simp: GetSuiteInfo_def cryptoSuites_def)


definition example_packet :: "byte \<Rightarrow> bytes" where "example_packet suite = suite # replicate 60 7"


end
