(* ===== verification/FIPR_Session.thy ===== *)
theory FIPR_Session
  imports Crypto_Wrappers
begin

text \<open>
  The fragment inter-process routing protocol, \<^verbatim>\<open>pkg/fipr\<close>: frames with a length, a sequence number,
  an operation code and a truncated HMAC, exchanged over a stream socket by two sessions that count
  every frame, sent or received, with the same counter. Each operation is a function from the session
  to the session and a result; HMAC-SHA256 is an argument. The socket is part of the session: the
  events of its reads, the results of its writes and the bytes written. When the events are used up
  a read waits until its deadline, and a write takes the whole slice. A socket that refuses a deadline behaves
  here as a closed one.
\<close>

section \<open>Constants and state\<close>

definition SocketFileNamePrefix :: bytes where "SocketFileNamePrefix = bytes_of_string ''proc_''"
definition SocketFileNameSuffix :: bytes where "SocketFileNameSuffix = bytes_of_string ''.sock''"

definition lenFieldFrameLen :: nat where "lenFieldFrameLen = 4"
definition lenFieldSequence :: nat where "lenFieldSequence = 2"
definition lenFieldOpCode :: nat where "lenFieldOpCode = 1"
definition lenFieldHMAC :: nat where "lenFieldHMAC = 16"
definition maxDataLength :: nat where "maxDataLength = 65535"
definition minDataLength :: nat where
  "minDataLength = lenFieldFrameLen + lenFieldSequence + lenFieldOpCode + lenFieldHMAC"
definition minFrameLen :: nat where "minFrameLen = lenFieldSequence + lenFieldOpCode + lenFieldHMAC"

type_synonym opCode = byte

definition opStart :: opCode where "opStart = 0x00"
definition opOBO :: opCode where "opOBO = 0x05"
definition opAck :: opCode where "opAck = 0x10"
definition opResend :: opCode where "opResend = 0x11"
definition opAccepted :: opCode where "opAccepted = 0x12"
definition opRejected :: opCode where "opRejected = 0x13"
definition opShardCheck :: opCode where "opShardCheck = 0x20"
definition opShardStatus :: opCode where "opShardStatus = 0x21"
definition opMsgCheck :: opCode where "opMsgCheck = 0x22"
definition opMsgStatus :: opCode where "opMsgStatus = 0x23"
definition opFrgRoute :: opCode where "opFrgRoute = 0x24"

definition shardRunning :: byte where "shardRunning = 0x01"
definition shardDraining :: byte where "shardDraining = 0x11"
definition shardShutdown :: byte where "shardShutdown = 0x22"
definition msgNew :: byte where "msgNew = 0x00"
definition msgExisting :: byte where "msgExisting = 0x10"

definition maxConsecutiveResends :: nat where "maxConsecutiveResends = 3"
definition maxSequence :: "16 word" where "maxSequence = 65535"

lemmas fipr_lens = lenFieldFrameLen_def lenFieldSequence_def lenFieldOpCode_def lenFieldHMAC_def
  minDataLength_def minFrameLen_def maxDataLength_def HMACSize_def

lemmas fipr_ops = opStart_def opOBO_def opAck_def opResend_def opAccepted_def opRejected_def opShardCheck_def
  opShardStatus_def opMsgCheck_def opMsgStatus_def opFrgRoute_def

datatype fipr_sentinel = ErrTransportFailure | ErrTransportWasClosed | ErrFrameHasPayload | ErrFrameHasNoPayload
  | ErrInvalidFrameLen | ErrPayloadWrongLength | ErrFrameTooShort | ErrFrameTooLarge | ErrOutOfOrderStart | ErrLateStart
  | ErrUnexpectedResponse | ErrBadSequence | ErrWrappedSequence | ErrInvalidResend | ErrResendWithoutSeq | ErrTooManyResends | ErrInvalidHMAC | ErrInvalidOpcode
  | ErrReceivedNoAck | ErrRemoteRejected | ErrShardShutdown | ErrSessionClosed | ErrSessionShutdown

text \<open>
  An error is a sentinel itself, which \<^verbatim>\<open>==\<close> recognizes, or wraps the sentinels that \<^verbatim>\<open>errors.Is\<close> finds.
\<close>

datatype fipr_err = Bare fipr_sentinel | Wrapped "fipr_sentinel list"

fun sentinels :: "fipr_err \<Rightarrow> fipr_sentinel list" where
  "sentinels (Bare e) = [e]"
| "sentinels (Wrapped es) = es"

definition wrapE :: "fipr_err \<Rightarrow> fipr_err" where
  "wrapE e = Wrapped (sentinels e)"

datatype sessionState = stateInit | stateStarted | stateClosed

record framebody =
  sequence :: "16 word"
  op :: opCode
  payload :: bytes

datatype read_event = ReadChunk bytes | ReadClosed | ReadFailed
datatype write_event = WriteSome nat | WriteClosed | WriteFailed

record Session =
  messageID :: "bytes option"
  obo :: "bytes option"
  hmacSecret :: bytes
  state :: sessionState
  sseq :: "16 word"
  transportBuffer :: bytes
  sentFrames :: "16 word \<rightharpoonup> framebody"
  consecResends :: nat
  reads :: "read_event list"
  write_results :: "write_event list"
  written :: bytes

type_synonym 'a sess = "Session \<Rightarrow> Session \<times> (fipr_err + 'a)"

definition Session_New :: "bytes \<Rightarrow> read_event list \<Rightarrow> write_event list \<Rightarrow> fipr_err + Session" where
  "Session_New secret rs ws =
     (if length secret \<noteq> HMACSize then Inl (Wrapped [ErrInvalidHMAC])
      else Inr \<lparr> messageID = None, obo = None, hmacSecret = secret, state = stateInit, sseq = 0, transportBuffer = [],
        sentFrames = Map.empty, consecResends = 0, reads = rs, write_results = ws, written = [] \<rparr>)"

section \<open>helpers.go\<close>

definition IsClosed :: "Session \<Rightarrow> bool" where "IsClosed s \<longleftrightarrow> state s = stateClosed"

definition Close :: "Session \<Rightarrow> Session" where "Close s = s\<lparr>state := stateClosed\<rparr>"

definition setOriginalSender :: "bytes \<Rightarrow> Session \<Rightarrow> Session" where
  "setOriginalSender a s = (if obo s = None then s\<lparr>obo := Some a\<rparr> else s)"

definition OriginalSender :: "Session \<Rightarrow> bytes" where
  "OriginalSender s = (case obo s of None \<Rightarrow> [] | Some a \<Rightarrow> a)"

definition setMessageID :: "bytes \<Rightarrow> Session \<Rightarrow> Session" where
  "setMessageID i s = (if messageID s = None then s\<lparr>messageID := Some i\<rparr> else s)"

definition MessageID :: "Session \<Rightarrow> bytes" where
  "MessageID s = (case messageID s of None \<Rightarrow> [] | Some i \<Rightarrow> i)"

definition requiresAck :: "opCode \<Rightarrow> bool" where
  "requiresAck c \<longleftrightarrow> \<not> (c = opAck \<or> c = opResend \<or> c = opAccepted \<or> c = opRejected)"

definition isRetryableError :: "fipr_err \<Rightarrow> bool" where
  "isRetryableError e \<longleftrightarrow> list_ex (\<lambda>t. t \<in> set (sentinels e)) [ErrFrameHasNoPayload, ErrFrameHasPayload, ErrPayloadWrongLength]"

section \<open>The message authentication code\<close>

text \<open>\<^verbatim>\<open>internal/crypto/hmac\<close>, over the HMAC-SHA256 of the argument.\<close>

definition ComputeSHA256 :: "(bytes \<Rightarrow> bytes \<Rightarrow> bytes) \<Rightarrow> bytes \<Rightarrow> nat \<Rightarrow> bytes \<Rightarrow> bytes" where
  "ComputeSHA256 hmac key desiredSize d = take desiredSize (hmac key d)"

definition VerifySHA256 :: "(bytes \<Rightarrow> bytes \<Rightarrow> bytes) \<Rightarrow> bytes \<Rightarrow> nat \<Rightarrow> bytes \<Rightarrow> bytes \<Rightarrow> bool" where
  "VerifySHA256 hmac key requiredSize d mac \<longleftrightarrow> take requiredSize (hmac key d) = mac"

section \<open>encoding.go and validation.go\<close>

definition encodeSeq :: "16 word \<Rightarrow> bytes" where "encodeSeq q = put_uint16 q"
definition decodeSeq :: "bytes \<Rightarrow> 16 word" where "decodeSeq b = of_nat (be_val (take 2 b))"

definition encodeFrame :: "(bytes \<Rightarrow> bytes \<Rightarrow> bytes) \<Rightarrow> opCode \<Rightarrow> bytes \<Rightarrow> bytes sess" where
  "encodeFrame hmac c pl s =
     (if IsClosed s then (s, Inl (Bare ErrSessionClosed))
      else
        let q = sseq s in
        if q = maxSequence then (s\<lparr>state := stateClosed\<rparr>, Inl (Bare ErrBadSequence))
        else
          let bodyLen = lenFieldSequence + lenFieldOpCode + length pl + HMACSize;
              front = put_uint32 (of_nat bodyLen) @ encodeSeq q @ [c] @ pl;
              mac = ComputeSHA256 hmac (hmacSecret s) HMACSize front in
          (s\<lparr> sseq := q + 1, sentFrames := (sentFrames s)(q \<mapsto> \<lparr>sequence = q, op = c, payload = pl\<rparr>) \<rparr>, Inr (front @ mac)))"

definition validateFrame :: "framebody \<Rightarrow> Session \<Rightarrow> Session \<times> fipr_sentinel option" where
  "validateFrame frame s =
     (if IsClosed s then (s, Some ErrSessionClosed)
      else
        let n = length (payload frame) in
        if op frame = opStart then
          let (s, err) = (if state s \<noteq> stateInit then (Close s, Some ErrLateStart)
                          else if sequence frame \<noteq> 0 then (Close s, Some ErrOutOfOrderStart) else (s, None)) in
          (s, if n \<le> 0 then Some ErrFrameHasNoPayload else err)
        else if op frame = opOBO then (s, if n = 0 then Some ErrFrameHasNoPayload else None)
        else if op frame = opShardCheck \<or> op frame = opMsgCheck then (s, if n > 0 then Some ErrFrameHasPayload else None)
        else if op frame = opShardStatus \<or> op frame = opMsgStatus then
          (s, let err = (if n = 0 then Some ErrFrameHasNoPayload else None) in if n > 1 then Some ErrPayloadWrongLength else err)
        else if op frame = opFrgRoute then (s, if n = 0 then Some ErrFrameHasNoPayload else None)
        else if op frame = opResend \<or> op frame = opAck then (s, if n \<noteq> 2 then Some ErrPayloadWrongLength else None)
        else if op frame = opAccepted then (Close s, None)
        else if op frame = opRejected then (s, Some ErrRemoteRejected)
        else (Close s, Some ErrInvalidOpcode))"

text \<open>
  The slices of the payload and of the code lie within a frame that \<^verbatim>\<open>readFrame\<close> returned, which has the
  length that its first field declares.
\<close>

definition decodeFrame :: "(bytes \<Rightarrow> bytes \<Rightarrow> bytes) \<Rightarrow> bytes \<Rightarrow> framebody sess" where
  "decodeFrame hmac wireFrame s =
     (if length wireFrame < minDataLength then (s, Inl (Bare ErrFrameTooShort))
      else if length wireFrame > maxDataLength then (s, Inl (Bare ErrFrameTooLarge))
      else
        let bodyLen = be_val (take lenFieldFrameLen wireFrame) in
        if bodyLen < minFrameLen then (s, Inl (Bare ErrInvalidFrameLen))
        else
          let q = decodeSeq (drop lenFieldFrameLen wireFrame) in
          if q \<noteq> sseq s then (s, Inl (Wrapped [ErrBadSequence]))
          else
            let opCodeIndex = lenFieldFrameLen + lenFieldSequence;
                c = wireFrame ! opCodeIndex;
                payloadStart = opCodeIndex + lenFieldOpCode;
                payloadLen = bodyLen - (lenFieldSequence + lenFieldOpCode + HMACSize);
                payloadEnd = payloadStart + payloadLen;
                pl = take payloadLen (drop payloadStart wireFrame);
                mac = drop payloadEnd wireFrame in
            if \<not> VerifySHA256 hmac (hmacSecret s) HMACSize (take payloadEnd wireFrame) mac
            then (s\<lparr>state := stateClosed\<rparr>, Inl (Bare ErrInvalidHMAC))
            else
              let rawFrame = \<lparr>sequence = q, op = c, payload = pl\<rparr> in
              (case validateFrame rawFrame s of
                 (s, None) \<Rightarrow> (s\<lparr>sseq := sseq s + 1\<rparr>, Inr rawFrame)
               | (s, Some e) \<Rightarrow>
                   (if isRetryableError (Bare e) then s\<lparr>sseq := sseq s + 1\<rparr> else s, Inl (Wrapped [e]))))"

section \<open>framing.go\<close>

fun write_loop :: "bytes \<Rightarrow> write_event list \<Rightarrow> Session \<Rightarrow> Session \<times> (fipr_err + unit)" where
  "write_loop [] ws s = (s\<lparr>write_results := ws\<rparr>, Inr ())"
| "write_loop wireFrame [] s = (s\<lparr>write_results := [], written := written s @ wireFrame\<rparr>, Inr ())"
| "write_loop wireFrame (WriteSome n # ws) s = write_loop (drop n wireFrame) ws (s\<lparr>written := written s @ take n wireFrame\<rparr>)"
| "write_loop wireFrame (WriteClosed # ws) s = (Close (s\<lparr>write_results := ws\<rparr>), Inl (Bare ErrTransportWasClosed))"
| "write_loop wireFrame (WriteFailed # ws) s = (s\<lparr>write_results := ws\<rparr>, Inl (Wrapped [ErrTransportFailure]))"

definition writeFrame :: "bytes \<Rightarrow> unit sess" where
  "writeFrame wireFrame s = write_loop wireFrame (write_results s) s"

text \<open>None: more bytes are needed.\<close>

definition tryParseFrame :: "bytes \<Rightarrow> fipr_err + (nat \<times> bytes) option" where
  "tryParseFrame buf =
     (if length buf < lenFieldFrameLen then Inr None
      else
        let frameLen = be_val (take 4 buf) in
        if frameLen < minFrameLen then Inl (Bare ErrInvalidFrameLen)
        else
          let totalLen = lenFieldFrameLen + frameLen in
          if length buf < totalLen then Inr None
          else Inr (Some (totalLen, take totalLen buf)))"

fun read_loop :: "bytes \<Rightarrow> read_event list \<Rightarrow> Session \<Rightarrow> Session \<times> (fipr_err + bytes)" where
  "read_loop buf rs s =
     (case tryParseFrame buf of
        Inl e \<Rightarrow> (s\<lparr>transportBuffer := buf, reads := rs\<rparr>, Inl e)
      | Inr (Some (n, wireFrame)) \<Rightarrow> (s\<lparr>transportBuffer := drop n buf, reads := rs\<rparr>, Inr wireFrame)
      | Inr None \<Rightarrow>
          (case rs of
             [] \<Rightarrow> (s\<lparr>transportBuffer := buf, reads := []\<rparr>, Inl (Wrapped [ErrTransportFailure]))
           | ReadChunk tmp # rs \<Rightarrow> read_loop (buf @ tmp) rs s
           | ReadClosed # rs \<Rightarrow> (Close (s\<lparr>transportBuffer := buf, reads := rs\<rparr>), Inl (Bare ErrTransportWasClosed))
           | ReadFailed # rs \<Rightarrow> (s\<lparr>transportBuffer := buf, reads := rs\<rparr>, Inl (Wrapped [ErrTransportFailure]))))"

declare read_loop.simps [simp del]

definition readFrame :: "bytes sess" where
  "readFrame s = read_loop (transportBuffer s) (reads s) s"

section \<open>handlers.go\<close>

text \<open>
  \<^verbatim>\<open>send\<close> of an operation that needs no acknowledgement, which is what \<^verbatim>\<open>await\<close> sends itself.
\<close>

definition send_frame :: "(bytes \<Rightarrow> bytes \<Rightarrow> bytes) \<Rightarrow> opCode \<Rightarrow> bytes \<Rightarrow> (16 word) sess" where
  "send_frame hmac c pl s =
     (let reqSeq = sseq s in
      case encodeFrame hmac c pl s of
        (s, Inl e) \<Rightarrow> (s, Inl (wrapE e))
      | (s, Inr request) \<Rightarrow>
          (case writeFrame request s of
             (s, Inl e) \<Rightarrow> (s, Inl e)
           | (s, Inr _) \<Rightarrow> (s, Inr reqSeq)))"

definition sendAck :: "(bytes \<Rightarrow> bytes \<Rightarrow> bytes) \<Rightarrow> 16 word \<Rightarrow> (16 word) sess" where
  "sendAck hmac seqToAck = send_frame hmac opAck (encodeSeq seqToAck)"

fun await_loop :: "(bytes \<Rightarrow> bytes \<Rightarrow> bytes) \<Rightarrow> nat \<Rightarrow> 16 word \<Rightarrow> opCode list \<Rightarrow> framebody sess" where
  "await_loop hmac 0 prevSeqForResendReq expectedOps s = (Close s, Inl (Bare ErrTooManyResends))"
| "await_loop hmac (Suc n) prevSeqForResendReq expectedOps s =
     (case readFrame s of
        (s, Inl e) \<Rightarrow> (s, Inl (wrapE e))
      | (s, Inr wireFrame) \<Rightarrow>
     (case decodeFrame hmac wireFrame s of
        (s, Inl e) \<Rightarrow>
          if isRetryableError e then
            if length wireFrame < lenFieldFrameLen + lenFieldSequence then (s, Inl (Wrapped (ErrResendWithoutSeq # sentinels e)))
            else
              (case send_frame hmac opResend (take lenFieldSequence (drop lenFieldFrameLen wireFrame)) s of
                 (s, Inl e) \<Rightarrow> (s, Inl (wrapE e))
               | (s, Inr sentSeq) \<Rightarrow>
                   let s = s\<lparr>consecResends := consecResends s + 1\<rparr>;
                       s = (if prevSeqForResendReq > 0 then s\<lparr>sentFrames := (sentFrames s)(prevSeqForResendReq := None)\<rparr> else s) in
                   await_loop hmac n sentSeq expectedOps s)
          else (Close s, Inl (wrapE e))
      | (s, Inr responseFrame) \<Rightarrow>
          let s = s\<lparr>consecResends := 0\<rparr>;
              opCodeMatches = (op responseFrame \<in> set expectedOps) in
          if opCodeMatches \<and> requiresAck (op responseFrame) then
            (case sendAck hmac (sequence responseFrame) s of
               (s, Inl e) \<Rightarrow> (s, Inl (wrapE e))
             | (s, Inr _) \<Rightarrow> (s, Inr responseFrame))
          else if \<not> opCodeMatches then (Close s, Inl (Bare ErrInvalidOpcode))
          else (s, Inr responseFrame)))"

definition await :: "(bytes \<Rightarrow> bytes \<Rightarrow> bytes) \<Rightarrow> opCode list \<Rightarrow> framebody sess" where
  "await hmac expectedOps = await_loop hmac maxConsecutiveResends 0 expectedOps"

definition resend :: "(bytes \<Rightarrow> bytes \<Rightarrow> bytes) \<Rightarrow> 16 word \<Rightarrow> (16 word) sess" where
  "resend hmac seqToResend s =
     (if consecResends s > maxConsecutiveResends then (Close s, Inl (Bare ErrTooManyResends))
      else (case sentFrames s seqToResend of
              None \<Rightarrow> (Close s, Inl (Bare ErrInvalidResend))
            | Some oldFrame \<Rightarrow>
                let s = s\<lparr>consecResends := consecResends s + 1\<rparr> in
                send_frame hmac (op oldFrame) (payload oldFrame) s))"

text \<open>The loop ends without an error when each of its rounds was a request to send again.\<close>

fun awaitAck_loop :: "(bytes \<Rightarrow> bytes \<Rightarrow> bytes) \<Rightarrow> nat \<Rightarrow> 16 word \<Rightarrow> unit sess" where
  "awaitAck_loop hmac 0 expectedAckdSeq s = (s, Inr ())"
| "awaitAck_loop hmac (Suc n) expectedAckdSeq s =
     (case await hmac [opAck, opResend] s of
        (s, Inl e) \<Rightarrow>
          let err = (if e = Bare ErrInvalidOpcode then Bare ErrReceivedNoAck else e) in (Close s, Inl (wrapE err))
      | (s, Inr response) \<Rightarrow>
          if op response = opResend then
            (case resend hmac (decodeSeq (payload response)) s of
               (s, Inl e) \<Rightarrow> (s, Inl (wrapE e))
             | (s, Inr sentSequence) \<Rightarrow>
                 awaitAck_loop hmac n sentSequence (s\<lparr>sentFrames := (sentFrames s)(expectedAckdSeq := None)\<rparr>))
          else
            let ackdSeq = decodeSeq (payload response) in
            if ackdSeq \<noteq> expectedAckdSeq then (Close s, Inl (Bare ErrBadSequence))
            else (s\<lparr>sentFrames := (sentFrames s)(expectedAckdSeq := None), consecResends := 0\<rparr>, Inr ()))"

definition awaitAck :: "(bytes \<Rightarrow> bytes \<Rightarrow> bytes) \<Rightarrow> 16 word \<Rightarrow> unit sess" where
  "awaitAck hmac = awaitAck_loop hmac maxConsecutiveResends"

text \<open>A failed write is forgotten when an acknowledgement is awaited.\<close>

definition send :: "(bytes \<Rightarrow> bytes \<Rightarrow> bytes) \<Rightarrow> opCode \<Rightarrow> bytes \<Rightarrow> (16 word) sess" where
  "send hmac c pl s =
     (if requiresAck c then
        let reqSeq = sseq s in
        (case encodeFrame hmac c pl s of
           (s, Inl e) \<Rightarrow> (s, Inl (wrapE e))
         | (s, Inr request) \<Rightarrow>
             (case awaitAck hmac reqSeq (fst (writeFrame request s)) of
                (s, Inl e) \<Rightarrow> (s, Inl (wrapE e))
              | (s, Inr _) \<Rightarrow> (s, Inr reqSeq)))
      else send_frame hmac c pl s)"

section \<open>public.go\<close>

definition sess_bind :: "'a sess \<Rightarrow> ('a \<Rightarrow> 'b sess) \<Rightarrow> 'b sess" where
  "sess_bind m f s = (case m s of (s, Inl e) \<Rightarrow> (s, Inl e) | (s, Inr x) \<Rightarrow> f x s)"

text \<open>\<^verbatim>\<open>fmt.Errorf("...: %w", err)\<close> around a call.\<close>

definition wrapping :: "'a sess \<Rightarrow> 'a sess" where
  "wrapping m s = (case m s of (s, Inl e) \<Rightarrow> (s, Inl (wrapE e)) | r \<Rightarrow> r)"

definition sess_upd :: "(Session \<Rightarrow> Session) \<Rightarrow> unit sess" where
  "sess_upd f s = (f s, Inr ())"

definition sess_fail :: "fipr_err \<Rightarrow> 'a sess" where "sess_fail e s = (s, Inl e)"
definition sess_return :: "'a \<Rightarrow> 'a sess" where "sess_return x s = (s, Inr x)"

definition SendStart :: "(bytes \<Rightarrow> bytes \<Rightarrow> bytes) \<Rightarrow> bytes \<Rightarrow> unit sess" where
  "SendStart hmac i =
     (if i = [] then sess_fail (Wrapped [ErrFrameHasNoPayload])
      else sess_bind (wrapping (send hmac opStart i)) (\<lambda>_. sess_upd (\<lambda>s. s\<lparr>state := stateStarted\<rparr>)))"

definition WaitStart :: "(bytes \<Rightarrow> bytes \<Rightarrow> bytes) \<Rightarrow> unit sess" where
  "WaitStart hmac =
     sess_bind (wrapping (await hmac [opStart])) (\<lambda>recvFrame.
       if length (payload recvFrame) = 0 then sess_fail (Bare ErrFrameHasNoPayload)
       else sess_upd (\<lambda>s. (setMessageID (payload recvFrame) s)\<lparr>state := stateStarted\<rparr>))"

definition SendAccept :: "(bytes \<Rightarrow> bytes \<Rightarrow> bytes) \<Rightarrow> unit sess" where
  "SendAccept hmac = sess_bind (wrapping (send hmac opAccepted [])) (\<lambda>_. sess_upd Close)"

definition SendReject :: "(bytes \<Rightarrow> bytes \<Rightarrow> bytes) \<Rightarrow> unit sess" where
  "SendReject hmac = sess_bind (wrapping (send hmac opRejected [])) (\<lambda>_. sess_upd Close)"

definition SendOnBehalfOf :: "(bytes \<Rightarrow> bytes \<Rightarrow> bytes) \<Rightarrow> bytes \<Rightarrow> unit sess" where
  "SendOnBehalfOf hmac originalSender = sess_bind (wrapping (send hmac opOBO originalSender)) (\<lambda>_. sess_return ())"

definition WaitOnBehalfOf :: "(bytes \<Rightarrow> bytes \<Rightarrow> bytes) \<Rightarrow> unit sess" where
  "WaitOnBehalfOf hmac =
     sess_bind (wrapping (await hmac [opOBO])) (\<lambda>recvFrame. sess_upd (setOriginalSender (payload recvFrame)))"

definition SendShardCheck :: "(bytes \<Rightarrow> bytes \<Rightarrow> bytes) \<Rightarrow> bool sess" where
  "SendShardCheck hmac =
     sess_bind (wrapping (send hmac opShardCheck [])) (\<lambda>_.
     sess_bind (wrapping (await hmac [opShardStatus])) (\<lambda>recvFrame.
       let currentStatus = payload recvFrame ! 0 in
       if currentStatus = shardDraining then sess_return True
       else if currentStatus = shardShutdown then sess_fail (Bare ErrShardShutdown)
       else sess_return False))"

definition WaitShardCheck :: "(bytes \<Rightarrow> bytes \<Rightarrow> bytes) \<Rightarrow> unit sess" where
  "WaitShardCheck hmac = sess_bind (wrapping (await hmac [opShardCheck])) (\<lambda>_. sess_return ())"

definition SendShardStatus :: "(bytes \<Rightarrow> bytes \<Rightarrow> bytes) \<Rightarrow> bool \<Rightarrow> bool \<Rightarrow> unit sess" where
  "SendShardStatus hmac running draining =
     (let body = (if running \<and> \<not> draining then shardRunning else if draining then shardDraining else shardShutdown) in
      sess_bind (wrapping (send hmac opShardStatus [body])) (\<lambda>_. sess_return ()))"

definition SendMessageCheck :: "(bytes \<Rightarrow> bytes \<Rightarrow> bytes) \<Rightarrow> bool sess" where
  "SendMessageCheck hmac =
     sess_bind (wrapping (send hmac opMsgCheck [])) (\<lambda>_.
     sess_bind (wrapping (await hmac [opMsgStatus])) (\<lambda>recvFrame.
       sess_return (payload recvFrame ! 0 = msgExisting)))"

definition WaitMessageCheck :: "(bytes \<Rightarrow> bytes \<Rightarrow> bytes) \<Rightarrow> unit sess" where
  "WaitMessageCheck hmac = sess_bind (wrapping (await hmac [opMsgCheck])) (\<lambda>_. sess_return ())"

definition SendMessageStatus :: "(bytes \<Rightarrow> bytes \<Rightarrow> bytes) \<Rightarrow> bool \<Rightarrow> unit sess" where
  "SendMessageStatus hmac exists =
     sess_bind (send hmac opMsgStatus [if exists then msgExisting else msgNew]) (\<lambda>_. sess_return ())"

definition SendFragment :: "(bytes \<Rightarrow> bytes \<Rightarrow> bytes) \<Rightarrow> bytes \<Rightarrow> unit sess" where
  "SendFragment hmac fragment =
     sess_bind (wrapping (send hmac opFrgRoute fragment)) (\<lambda>_ s.
       case await hmac [opAccepted] s of
         (s, Inl e) \<Rightarrow> (s, Inl (wrapE (if e = Bare ErrInvalidOpcode then Bare ErrRemoteRejected else e)))
       | (s, Inr _) \<Rightarrow> (s, Inr ()))"

definition WaitFragment :: "(bytes \<Rightarrow> bytes \<Rightarrow> bytes) \<Rightarrow> bytes sess" where
  "WaitFragment hmac = sess_bind (wrapping (await hmac [opFrgRoute])) (\<lambda>recvFrame. sess_return (payload recvFrame))"

section \<open>Frames on the wire\<close>

text \<open>What HMAC-SHA256 promises here is the size of its output.\<close>

definition hmac_ok :: "(bytes \<Rightarrow> bytes \<Rightarrow> bytes) \<Rightarrow> bool" where
  "hmac_ok hmac \<longleftrightarrow> (\<forall>k d. length (hmac k d) = 32)"

definition frame_front :: "nat \<Rightarrow> opCode \<Rightarrow> bytes \<Rightarrow> bytes" where
  "frame_front q c pl = be 4 (minFrameLen + length pl) @ be 2 q @ [c] @ pl"

definition frame_bytes :: "(bytes \<Rightarrow> bytes \<Rightarrow> bytes) \<Rightarrow> bytes \<Rightarrow> nat \<Rightarrow> opCode \<Rightarrow> bytes \<Rightarrow> bytes" where
  "frame_bytes hmac secret q c pl = frame_front q c pl @ take HMACSize (hmac secret (frame_front q c pl))"

lemma length_frame_bytes: "hmac_ok hmac \<Longrightarrow> length (frame_bytes hmac secret q c pl) = minDataLength + length pl"
  by (simp add: frame_bytes_def frame_front_def hmac_ok_def fipr_lens)

lemma frame_len_field: "length pl \<le> 65512 \<Longrightarrow> be_val (take 4 (frame_bytes hmac secret q c pl @ rest)) = minFrameLen + length pl"
  by (simp add: frame_bytes_def frame_front_def be_val_be fipr_lens)

lemma tryParseFrame_frame:
  assumes "hmac_ok hmac" and "length pl \<le> 65512"
  shows "tryParseFrame (frame_bytes hmac secret q c pl @ rest) =
    Inr (Some (minDataLength + length pl, frame_bytes hmac secret q c pl))"
proof -
  have "minDataLength = lenFieldFrameLen + minFrameLen" by (simp add: fipr_lens)
  then show ?thesis
    using length_frame_bytes [OF assms(1), of secret q c pl] frame_len_field [OF assms(2), of hmac secret q c rest]
    by (simp add: tryParseFrame_def Let_def fipr_lens)
qed

text \<open>A proper prefix of a frame is not taken for one.\<close>

lemma tryParseFrame_prefix:
  assumes ok: "hmac_ok hmac" "length pl \<le> 65512" and pre: "frame_bytes hmac secret q c pl @ rest = buf @ after"
    and short: "length buf < minDataLength + length pl"
  shows "tryParseFrame buf = Inr None"
proof (cases "length buf < 4")
  case False
  then have "take 4 buf = take 4 (frame_bytes hmac secret q c pl @ rest)" using pre by simp
  then have "be_val (take 4 buf) = minFrameLen + length pl" using frame_len_field [OF ok(2)] by metis
  then show ?thesis using short False by (simp add: tryParseFrame_def Let_def fipr_lens)
qed (simp add: tryParseFrame_def fipr_lens)

definition incoming :: "Session \<Rightarrow> bytes \<Rightarrow> read_event list \<Rightarrow> bool" where
  "incoming s bs tail \<longleftrightarrow> (\<exists>cs. reads s = map ReadChunk cs @ tail \<and> transportBuffer s @ concat cs = bs)"

lemma read_loop_frame:
  assumes ok: "hmac_ok hmac" "length pl \<le> 65512" and "buf @ concat cs = frame_bytes hmac secret q c pl @ rest"
  shows "\<exists>cs' buf'. read_loop buf (map ReadChunk cs @ tail) s =
    (s\<lparr>transportBuffer := buf', reads := map ReadChunk cs' @ tail\<rparr>, Inr (frame_bytes hmac secret q c pl)) \<and> buf' @ concat cs' = rest"
  using assms(3)
proof (induction cs arbitrary: buf)
  case Nil
  then have b: "buf = frame_bytes hmac secret q c pl @ rest" by simp
  have "drop (minDataLength + length pl) buf = rest" using b length_frame_bytes [OF ok(1)] by simp
  then have "read_loop buf tail s = (s\<lparr>transportBuffer := rest, reads := tail\<rparr>, Inr (frame_bytes hmac secret q c pl))"
    using tryParseFrame_frame [OF ok, of secret q c rest] by (subst read_loop.simps) (simp add: b)
  then show ?case by (intro exI [of _ "[]"] exI [of _ rest]) simp
next
  case (Cons ch cs)
  let ?f = "frame_bytes hmac secret q c pl"
  show ?case
  proof (cases "length buf < minDataLength + length pl")
    case True
    have "tryParseFrame buf = Inr None"
      using tryParseFrame_prefix [OF ok Cons.prems [symmetric] True] .
    then show ?thesis using Cons.IH [of "buf @ ch"] Cons.prems by (subst read_loop.simps) simp
  next
    case False
    then have l: "length ?f \<le> length buf" using length_frame_bytes [OF ok(1)] by simp
    have "take (length ?f) buf = ?f" using Cons.prems l by (metis append_eq_append_conv_if append_eq_conv_conj)
    then obtain r where r: "buf = ?f @ r" by (metis append_take_drop_id)
    then show ?thesis
      using Cons.prems tryParseFrame_frame [OF ok, of secret q c r] length_frame_bytes [OF ok(1), of secret q c pl]
      by (subst read_loop.simps) (auto intro!: exI [of _ "ch # cs"])
  qed
qed

lemma readFrame_frame:
  assumes "hmac_ok hmac" and "length pl \<le> 65512" and "incoming s (frame_bytes hmac secret q c pl @ rest) tail"
  obtains buf rs where "readFrame s = (s\<lparr>transportBuffer := buf, reads := rs\<rparr>, Inr (frame_bytes hmac secret q c pl))"
    and "incoming (s\<lparr>transportBuffer := buf, reads := rs\<rparr>) rest tail"
proof -
  from assms(3) obtain cs where cs: "reads s = map ReadChunk cs @ tail" "transportBuffer s @ concat cs = frame_bytes hmac secret q c pl @ rest"
    by (auto simp: incoming_def)
  from read_loop_frame [OF assms(1,2) cs(2), of tail s] cs(1) obtain cs' buf' where
    "readFrame s = (s\<lparr>transportBuffer := buf', reads := map ReadChunk cs' @ tail\<rparr>, Inr (frame_bytes hmac secret q c pl))"
    "buf' @ concat cs' = rest" by (auto simp: readFrame_def)
  then show thesis by (intro that [of "map ReadChunk cs' @ tail" buf']) (auto simp: incoming_def)
qed

lemma encodeFrame_frame:
  assumes "\<not> IsClosed s" and "sseq s = of_nat q" and "q < 65535" and "hmacSecret s = secret" and "length pl \<le> 65512"
  shows "encodeFrame hmac c pl s = (s\<lparr> sseq := of_nat (Suc q),
    sentFrames := (sentFrames s)(of_nat q \<mapsto> \<lparr>sequence = of_nat q, op = c, payload = pl\<rparr>) \<rparr>, Inr (frame_bytes hmac secret q c pl))"
proof -
  have u: "unat (of_nat q :: 16 word) = q" using assms(3) by (simp add: unat_of_nat)
  have "(of_nat q :: 16 word) \<noteq> maxSequence"
  proof
    assume "(of_nat q :: 16 word) = maxSequence"
    then have "unat (of_nat q :: 16 word) = 65535" by (simp add: maxSequence_def)
    then show False using u assms(3) by simp
  qed
  moreover have "unat (of_nat (lenFieldSequence + lenFieldOpCode + length pl + HMACSize) :: 32 word) = minFrameLen + length pl"
    using assms(5) by (subst unat_of_nat) (simp add: fipr_lens)
  ultimately show ?thesis
    using assms u by (simp add: encodeFrame_def Let_def frame_bytes_def frame_front_def ComputeSHA256_def encodeSeq_def
      put_uint32_def put_uint16_def add.commute)
qed

lemma decodeSeq_be: "q < 65536 \<Longrightarrow> decodeSeq (be 2 q @ rest) = of_nat q"
  by (simp add: decodeSeq_def be_val_be)

lemma decodeFrame_frame:
  assumes ok: "hmac_ok hmac" "length pl \<le> 65512" and s: "sseq s = of_nat q" "q < 65536" "hmacSecret s = secret"
  shows "decodeFrame hmac (frame_bytes hmac secret q c pl) s =
    (case validateFrame \<lparr>sequence = of_nat q, op = c, payload = pl\<rparr> s of
       (s, None) \<Rightarrow> (s\<lparr>sseq := sseq s + 1\<rparr>, Inr \<lparr>sequence = of_nat q, op = c, payload = pl\<rparr>)
     | (s, Some e) \<Rightarrow> (if isRetryableError (Bare e) then s\<lparr>sseq := sseq s + 1\<rparr> else s, Inl (Wrapped [e])))"
proof -
  let ?w = "frame_bytes hmac secret q c pl" and ?m = "take HMACSize (hmac secret (frame_front q c pl))"
  have w: "?w = be 4 (minFrameLen + length pl) @ be 2 q @ [c] @ pl @ ?m" by (simp add: frame_bytes_def frame_front_def)
  have len: "length ?w = minDataLength + length pl" using length_frame_bytes [OF ok(1)] .
  have bl: "be_val (take lenFieldFrameLen ?w) = minFrameLen + length pl"
    using frame_len_field [OF ok(2), of hmac secret q c "[]"] by (simp add: fipr_lens)
  have sq: "decodeSeq (drop lenFieldFrameLen ?w) = of_nat q"
    using s(2) decodeSeq_be by (simp add: w fipr_lens)
  have c: "?w ! (lenFieldFrameLen + lenFieldSequence) = c"
    by (simp add: w fipr_lens nth_append)
  have pl: "take (length pl) (drop (lenFieldFrameLen + lenFieldSequence + lenFieldOpCode) ?w) = pl"
    "take (lenFieldFrameLen + lenFieldSequence + lenFieldOpCode + length pl) ?w = frame_front q c pl"
    "drop (lenFieldFrameLen + lenFieldSequence + lenFieldOpCode + length pl) ?w = ?m"
    by (simp_all add: w fipr_lens frame_front_def)
  have small: "\<not> length ?w < minDataLength" "\<not> maxDataLength < length ?w" "\<not> minFrameLen + length pl < minFrameLen"
    "minFrameLen + length pl - (lenFieldSequence + lenFieldOpCode + HMACSize) = length pl"
    using len ok(2) by (simp_all add: fipr_lens)
  show ?thesis
    unfolding decodeFrame_def Let_def bl sq c small(4) pl VerifySHA256_def using small(1-3) s(1,3) by simp
qed

section \<open>Operations on a reliable connection\<close>

text \<open>
  A session at sequence number \<open>q\<close> that has written \<open>w\<close> and is going to read \<open>bs\<close>, in chunks of any
  size, and then \<open>tail\<close>.
\<close>

definition ready :: "bytes \<Rightarrow> nat \<Rightarrow> sessionState \<Rightarrow> bytes \<Rightarrow> bytes \<Rightarrow> read_event list \<Rightarrow> Session \<Rightarrow> bool" where
  "ready secret q st w bs tail s \<longleftrightarrow> hmacSecret s = secret \<and> sseq s = of_nat q \<and> state s = st \<and>
     write_results s = [] \<and> written s = w \<and> incoming s bs tail"

definition idents :: "Session \<Rightarrow> bytes option \<times> bytes option" where
  "idents s = (messageID s, obo s)"

lemma ready_upd [simp]:
  "ready secret q st w bs tail (s\<lparr>consecResends := n\<rparr>) = ready secret q st w bs tail s"
  "ready secret q st w bs tail (s\<lparr>sentFrames := m\<rparr>) = ready secret q st w bs tail s"
  "idents (s\<lparr>consecResends := n\<rparr>) = idents s" "idents (s\<lparr>sentFrames := m\<rparr>) = idents s"
  by (simp_all add: ready_def incoming_def idents_def)

lemma write_all: "write_results s = [] \<Longrightarrow> writeFrame f s = (s\<lparr>written := written s @ f\<rparr>, Inr ())"
  by (cases s; cases f) (auto simp: writeFrame_def)

lemma send_frame_ready:
  assumes "ready secret q st w bs tail s" and "st \<noteq> stateClosed" and "q < 65535" and "length pl \<le> 65512"
  shows "\<exists>s'. send_frame hmac c pl s = (s', Inr (of_nat q)) \<and>
    ready secret (Suc q) st (w @ frame_bytes hmac secret q c pl) bs tail s' \<and> idents s' = idents s"
proof -
  have "encodeFrame hmac c pl s = (s\<lparr> sseq := of_nat (Suc q),
      sentFrames := (sentFrames s)(of_nat q \<mapsto> \<lparr>sequence = of_nat q, op = c, payload = pl\<rparr>) \<rparr>, Inr (frame_bytes hmac secret q c pl))"
    using assms by (intro encodeFrame_frame) (auto simp: ready_def IsClosed_def)
  then show ?thesis
    using assms by (auto simp: send_frame_def Let_def ready_def write_all incoming_def idents_def)
qed

definition valid_body :: "nat \<Rightarrow> sessionState \<Rightarrow> opCode \<Rightarrow> bytes \<Rightarrow> bool" where
  "valid_body q st c pl \<longleftrightarrow>
     c = opStart \<and> st = stateInit \<and> q = 0 \<and> pl \<noteq> [] \<or> c \<in> {opOBO, opFrgRoute} \<and> pl \<noteq> [] \<or>
     c \<in> {opShardCheck, opMsgCheck} \<and> pl = [] \<or> c \<in> {opShardStatus, opMsgStatus} \<and> length pl = 1 \<or>
     c \<in> {opResend, opAck} \<and> length pl = 2"

lemma validateFrame_valid:
  assumes "valid_body q (state s) c pl" and "state s \<noteq> stateClosed"
  shows "validateFrame \<lparr>sequence = of_nat q, op = c, payload = pl\<rparr> s = (s, None)"
  using assms by (auto simp: validateFrame_def valid_body_def IsClosed_def Let_def fipr_ops)

lemma read_decode:
  assumes ok: "hmac_ok hmac" "length pl \<le> 65512" and r: "ready secret q st w (frame_bytes hmac secret q c pl @ bs) tail s"
    and v: "valid_body q st c pl" and st: "st \<noteq> stateClosed" and q: "q < 65535"
  obtains s1 s2 where "readFrame s = (s1, Inr (frame_bytes hmac secret q c pl))"
    and "decodeFrame hmac (frame_bytes hmac secret q c pl) s1 = (s2, Inr \<lparr>sequence = of_nat q, op = c, payload = pl\<rparr>)"
    and "ready secret (Suc q) st w bs tail s2" and "idents s2 = idents s"
proof -
  from readFrame_frame [OF ok] r obtain buf rs where
    rd: "readFrame s = (s\<lparr>transportBuffer := buf, reads := rs\<rparr>, Inr (frame_bytes hmac secret q c pl))"
    "incoming (s\<lparr>transportBuffer := buf, reads := rs\<rparr>) bs tail" unfolding ready_def by blast
  let ?s1 = "s\<lparr>transportBuffer := buf, reads := rs\<rparr>"
  have s1: "sseq ?s1 = of_nat q" "hmacSecret ?s1 = secret" "state ?s1 = st" using r by (auto simp: ready_def)
  have "decodeFrame hmac (frame_bytes hmac secret q c pl) ?s1 =
      (?s1\<lparr>sseq := sseq ?s1 + 1\<rparr>, Inr \<lparr>sequence = of_nat q, op = c, payload = pl\<rparr>)"
    using decodeFrame_frame [OF ok s1(1) _ s1(2), of c] q validateFrame_valid [of q ?s1 c pl] v st s1(3) by simp
  moreover have "ready secret (Suc q) st w bs tail (?s1\<lparr>sseq := sseq ?s1 + 1\<rparr>)"
    using r rd(2) by (auto simp: ready_def incoming_def)
  moreover have "idents (?s1\<lparr>sseq := sseq ?s1 + 1\<rparr>) = idents s" by (simp add: idents_def)
  ultimately show thesis using rd(1) by (intro that)
qed

lemma await_acked:
  assumes ok: "hmac_ok hmac" "length pl \<le> 65512" and r: "ready secret q st w (frame_bytes hmac secret q c pl @ bs) tail s"
    and v: "valid_body q st c pl" and st: "st \<noteq> stateClosed" and q: "q < 65534" and c: "c \<in> set ops" "requiresAck c"
  shows "\<exists>s'. await hmac ops s = (s', Inr \<lparr>sequence = of_nat q, op = c, payload = pl\<rparr>) \<and>
    ready secret (q + 2) st (w @ frame_bytes hmac secret (Suc q) opAck (be 2 q)) bs tail s' \<and> idents s' = idents s"
proof -
  from q have "q < 65535" by simp
  from read_decode [OF ok r v st this] obtain s1 s2 where rd: "readFrame s = (s1, Inr (frame_bytes hmac secret q c pl))"
    "decodeFrame hmac (frame_bytes hmac secret q c pl) s1 = (s2, Inr \<lparr>sequence = of_nat q, op = c, payload = pl\<rparr>)"
    "ready secret (Suc q) st w bs tail s2" "idents s2 = idents s" by blast
  have "unat (of_nat q :: 16 word) = q" using q by (simp add: unat_of_nat)
  then have e: "encodeSeq (of_nat q) = be 2 q" by (simp add: encodeSeq_def put_uint16_def)
  have "ready secret (Suc q) st w bs tail (s2\<lparr>consecResends := 0\<rparr>)" using rd(3) by simp
  from send_frame_ready [OF this st, of "be 2 q" hmac opAck] q obtain s3 where
    "send_frame hmac opAck (be 2 q) (s2\<lparr>consecResends := 0\<rparr>) = (s3, Inr (of_nat (Suc q)))"
    "ready secret (q + 2) st (w @ frame_bytes hmac secret (Suc q) opAck (be 2 q)) bs tail s3" "idents s3 = idents s2"
    by auto
  then show ?thesis using rd c e by (auto simp: await_def maxConsecutiveResends_def numeral_3_eq_3 Let_def sendAck_def)
qed

lemma await_plain:
  assumes ok: "hmac_ok hmac" "length pl \<le> 65512" and r: "ready secret q st w (frame_bytes hmac secret q c pl @ bs) tail s"
    and v: "valid_body q st c pl" and st: "st \<noteq> stateClosed" and q: "q < 65535" and c: "c \<in> set ops" "\<not> requiresAck c"
  shows "\<exists>s'. await hmac ops s = (s', Inr \<lparr>sequence = of_nat q, op = c, payload = pl\<rparr>) \<and>
    ready secret (Suc q) st w bs tail s' \<and> idents s' = idents s"
proof -
  from read_decode [OF ok r v st q] obtain s1 s2 where "readFrame s = (s1, Inr (frame_bytes hmac secret q c pl))"
    "decodeFrame hmac (frame_bytes hmac secret q c pl) s1 = (s2, Inr \<lparr>sequence = of_nat q, op = c, payload = pl\<rparr>)"
    "ready secret (Suc q) st w bs tail s2" "idents s2 = idents s" by blast
  then show ?thesis using c by (auto simp: await_def maxConsecutiveResends_def numeral_3_eq_3 Let_def)
qed

lemma await_accepted:
  assumes ok: "hmac_ok hmac" and r: "ready secret q st w (frame_bytes hmac secret q opAccepted [] @ bs) tail s"
    and st: "st \<noteq> stateClosed" and q: "q < 65535"
  shows "\<exists>s'. await hmac [opAccepted] s = (s', Inr \<lparr>sequence = of_nat q, op = opAccepted, payload = []\<rparr>) \<and>
    state s' = stateClosed \<and> written s' = w \<and> idents s' = idents s"
proof -
  from readFrame_frame [OF ok, of "[]"] r obtain buf rs where
    rd: "readFrame s = (s\<lparr>transportBuffer := buf, reads := rs\<rparr>, Inr (frame_bytes hmac secret q opAccepted []))"
    unfolding ready_def by (metis list.size(3) zero_le)
  let ?s1 = "s\<lparr>transportBuffer := buf, reads := rs\<rparr>"
  have "decodeFrame hmac (frame_bytes hmac secret q opAccepted []) ?s1 =
      ((Close ?s1)\<lparr>sseq := sseq ?s1 + 1\<rparr>, Inr \<lparr>sequence = of_nat q, op = opAccepted, payload = []\<rparr>)"
    using decodeFrame_frame [OF ok, of "[]" ?s1 q secret opAccepted] q r st
    by (auto simp: ready_def validateFrame_def IsClosed_def Let_def fipr_ops Close_def)
  then show ?thesis
    using rd r by (auto simp: await_def maxConsecutiveResends_def numeral_3_eq_3 Let_def requiresAck_def Close_def ready_def idents_def)
qed

lemma send_acked:
  assumes ok: "hmac_ok hmac" "length pl \<le> 65512"
    and r: "ready secret q st w (frame_bytes hmac secret (Suc q) opAck (be 2 q) @ bs) tail s"
    and st: "st \<noteq> stateClosed" and q: "q < 65534" and c: "requiresAck c"
  shows "\<exists>s'. send hmac c pl s = (s', Inr (of_nat q)) \<and>
    ready secret (q + 2) st (w @ frame_bytes hmac secret q c pl) bs tail s' \<and> idents s' = idents s"
proof -
  let ?s1 = "s\<lparr> sseq := of_nat (Suc q), sentFrames := (sentFrames s)(of_nat q \<mapsto> \<lparr>sequence = of_nat q, op = c, payload = pl\<rparr>) \<rparr>"
  let ?s2 = "?s1\<lparr>written := written s @ frame_bytes hmac secret q c pl\<rparr>"
  have s0: "\<not> IsClosed s" "sseq s = of_nat q" "hmacSecret s = secret" "write_results s = []"
    using r st by (auto simp: ready_def IsClosed_def)
  have e: "encodeFrame hmac c pl s = (?s1, Inr (frame_bytes hmac secret q c pl))"
    using encodeFrame_frame [OF s0(1,2) _ s0(3) ok(2)] q by simp
  have w: "writeFrame (frame_bytes hmac secret q c pl) ?s1 = (?s2, Inr ())"
    using write_all [of ?s1] s0(4) by simp
  have r2: "ready secret (Suc q) st (w @ frame_bytes hmac secret q c pl) (frame_bytes hmac secret (Suc q) opAck (be 2 q) @ bs) tail ?s2"
    using r by (auto simp: ready_def incoming_def)
  have v: "valid_body (Suc q) st opAck (be 2 q)" by (simp add: valid_body_def)
  have q': "Suc q < 65535" using q by simp
  from await_plain [OF ok(1) _ r2 v st q', of "[opAck, opResend]"] obtain s3 where
    a: "await hmac [opAck, opResend] ?s2 = (s3, Inr \<lparr>sequence = of_nat (Suc q), op = opAck, payload = be 2 q\<rparr>)"
    "ready secret (q + 2) st (w @ frame_bytes hmac secret q c pl) bs tail s3" "idents s3 = idents ?s2"
    by (auto simp: requiresAck_def)
  have d: "decodeSeq (be 2 q) = of_nat q" using decodeSeq_be [of q "[]"] q by simp
  have "opAck \<noteq> opResend" by (simp add: fipr_ops)
  then show ?thesis
    using e w a c d s0(2)
    by (auto simp: send_def Let_def awaitAck_def maxConsecutiveResends_def numeral_3_eq_3 idents_def ready_def incoming_def)
qed

section \<open>What a session accepts\<close>

lemma be_frame_len: "be_val (take 4 w) = n \<Longrightarrow> 4 \<le> length w \<Longrightarrow> take 4 w = be 4 n"
  using be_be_val [of "take 4 w"] by simp

text \<open>A frame that was read is its fields, put together again.\<close>

lemma frame_fields:
  assumes "length w = lenFieldFrameLen + be_val (take 4 w)" and "minFrameLen \<le> be_val (take 4 w)"
  defines "n \<equiv> be_val (take 4 w) - minFrameLen"
  shows "take (7 + n) w = frame_front (be_val (take 2 (drop 4 w))) (w ! 6) (take n (drop 7 w))" and "length w = minDataLength + n"
proof -
  have len: "length w = 23 + n" and b: "be_val (take 4 w) = 19 + n"
    using assms(1,2) unfolding n_def fipr_lens by linarith+
  then show "length w = minDataLength + n" by (simp add: fipr_lens)
  have 4: "take 4 w = be 4 (19 + n)" using b len by (intro be_frame_len) simp_all
  have 2: "take 2 (drop 4 w) = be 2 (be_val (take 2 (drop 4 w)))"
    using be_be_val [of "take 2 (drop 4 w)"] len by simp
  have 6: "take 1 (drop 6 w) = [w ! 6]" using len by (simp add: take_Suc hd_drop_conv_nth)
  have "take (7 + n) w = take 7 w @ take n (drop 7 w)" by (rule take_add)
  also have "take 7 w = take 6 w @ take 1 (drop 6 w)" using take_add [of 6 1 w] by simp
  also have "take 6 w = take 4 w @ take 2 (drop 4 w)" using take_add [of 4 2 w] by simp
  finally have "take (7 + n) w = be 4 (19 + n) @ be 2 (be_val (take 2 (drop 4 w))) @ [w ! 6] @ take n (drop 7 w)"
    unfolding 4 6 by (subst 2 [symmetric]) simp
  moreover have "length (take n (drop 7 w)) = n" using len by simp
  ultimately show "take (7 + n) w = frame_front (be_val (take 2 (drop 4 w))) (w ! 6) (take n (drop 7 w))"
    by (simp add: frame_front_def fipr_lens)
qed

text \<open>
  The conditions of \<^verbatim>\<open>validateFrame\<close> under which a frame is taken: those of the exchange, or the final acceptance.
\<close>

lemma validateFrame_None:
  assumes "sseq s = of_nat q" and "q < 65536"
  shows "snd (validateFrame \<lparr>sequence = of_nat q, op = c, payload = pl\<rparr> s) = None \<longleftrightarrow>
    state s \<noteq> stateClosed \<and> (valid_body q (state s) c pl \<or> c = opAccepted)"
proof -
  have "(of_nat q :: 16 word) = 0 \<longleftrightarrow> q = 0"
    using assms(2) unat_eq_zero [of "of_nat q :: 16 word"] by (simp add: unat_of_nat)
  moreover have "length pl = Suc 0 \<longleftrightarrow> pl \<noteq> [] \<and> \<not> Suc 0 < length pl" by (cases pl) auto
  ultimately show ?thesis
    by (auto simp: validateFrame_def valid_body_def IsClosed_def Let_def fipr_ops split: if_splits)
qed

section \<open>Properties\<close>

text \<open>The frames that are taken, without the operation that ends the session apart.\<close>

lemma decodeFrame_accepts:
  assumes ok: "hmac_ok hmac" and w: "length w = lenFieldFrameLen + be_val (take 4 w)" "minFrameLen \<le> be_val (take 4 w)"
  shows "(\<exists>s'. decodeFrame hmac w s = (s', Inr f)) \<longleftrightarrow>
    w = frame_bytes hmac (hmacSecret s) (unat (sseq s)) (op f) (payload f) \<and> sequence f = sseq s \<and>
    length (payload f) \<le> 65512 \<and> state s \<noteq> stateClosed \<and>
    (valid_body (unat (sseq s)) (state s) (op f) (payload f) \<or> op f = opAccepted)" (is "?acc \<longleftrightarrow> ?frame")
proof
  let ?q = "unat (sseq s)"
  have q: "sseq s = of_nat ?q" "?q < 65536" using unsigned_less [of "sseq s"] by simp_all
  assume ?frame
  then have "w = frame_bytes hmac (hmacSecret s) ?q (op f) (payload f)" "f = \<lparr>sequence = of_nat ?q, op = op f, payload = payload f\<rparr>"
    and l: "length (payload f) \<le> 65512" and v: "snd (validateFrame \<lparr>sequence = of_nat ?q, op = op f, payload = payload f\<rparr> s) = None"
    using validateFrame_None [OF q] by auto
  with decodeFrame_frame [OF ok l q refl, of "op f"] show ?acc by (auto split: prod.splits option.splits)
next
  let ?q = "unat (sseq s)" and ?n = "be_val (take 4 w) - minFrameLen"
  have q: "sseq s = of_nat ?q" "?q < 65536" using unsigned_less [of "sseq s"] by simp_all
  note fields = frame_fields [OF w]
  assume ?acc
  then obtain s' where d: "decodeFrame hmac w s = (s', Inr f)" by blast
  have ix: "lenFieldFrameLen = 4" "lenFieldSequence = 2" "lenFieldOpCode = 1" "4 + 2 = (6 :: nat)" "6 + 1 = (7 :: nat)"
    "be_val (take 4 w) - (2 + 1 + HMACSize) = ?n" by (simp_all add: fipr_lens)
  from d have len: "length w \<le> maxDataLength" and sq: "decodeSeq (drop 4 w) = sseq s"
    and mac: "take HMACSize (hmac (hmacSecret s) (take (7 + ?n) w)) = drop (7 + ?n) w"
    and f: "f = \<lparr>sequence = sseq s, op = w ! 6, payload = take ?n (drop 7 w)\<rparr>" and v: "snd (validateFrame f s) = None"
    unfolding decodeFrame_def Let_def ix VerifySHA256_def by (auto split: if_splits prod.splits option.splits)
  have "6 \<le> length w" using fields(2) unfolding fipr_lens by linarith
  then have "length (take 2 (drop 4 w)) = 2" by simp
  then have "be_val (take 2 (drop 4 w)) < 65536" using be_val_less [of "take 2 (drop 4 w)"] by (simp only:) simp
  then have "unat (decodeSeq (drop 4 w)) = be_val (take 2 (drop 4 w))"
    unfolding decodeSeq_def by (subst unat_of_nat) simp
  then have sq': "be_val (take 2 (drop 4 w)) = ?q" using sq by simp
  have "w = take (7 + ?n) w @ drop (7 + ?n) w" by simp
  also have "\<dots> = frame_bytes hmac (hmacSecret s) ?q (op f) (payload f)"
    unfolding mac [symmetric] fields(1) sq' f by (simp add: frame_bytes_def)
  finally have "w = frame_bytes hmac (hmacSecret s) ?q (op f) (payload f)" .
  moreover have "length (payload f) \<le> 65512"
  proof -
    have "?n \<le> 65512" using len fields(2) unfolding fipr_lens by linarith
    moreover have "length (payload f) \<le> ?n" unfolding f by simp
    ultimately show ?thesis by linarith
  qed
  moreover have "f = \<lparr>sequence = of_nat ?q, op = op f, payload = payload f\<rparr>" "sequence f = sseq s" using f by simp_all
  ultimately show ?frame using v validateFrame_None [OF q, of "op f" "payload f"] by metis
qed

text \<open>
  What \<^verbatim>\<open>docs/FIPR.md\<close> asks of a frame beyond the body of its operation: the start of a session and nothing else has the sequence
  number zero, an acceptance is empty, and the sequence number never wraps around.
\<close>

definition documented_frame :: "nat \<Rightarrow> opCode \<Rightarrow> bytes \<Rightarrow> bool" where
  "documented_frame q c pl \<longleftrightarrow> (q = 0 \<longleftrightarrow> c = opStart) \<and> (c = opAccepted \<longrightarrow> pl = []) \<and> q < 65535"

definition undocumented_frames :: "(nat \<times> opCode \<times> bytes) list" where
  "undocumented_frames = [(0, opShardCheck, []), (5, opAccepted, [1]), (65535, opAck, [0, 0])]"

lemma undocumented_frame_taken:
  assumes ok: "hmac_ok hmac" and q: "q < 65536" and len: "length pl \<le> 65512" and body: "valid_body q stateInit c pl \<or> c = opAccepted"
  shows "\<exists>s s'. hmacSecret s = secret \<and> sseq s = of_nat q \<and>
    decodeFrame hmac (frame_bytes hmac secret q c pl) s = (s', Inr \<lparr>sequence = of_nat q, op = c, payload = pl\<rparr>) \<and> sseq s' = of_nat (Suc q)"
proof -
  let ?f = "\<lparr>sequence = of_nat q, op = c, payload = pl\<rparr>"
  define s where "s = \<lparr>messageID = None, obo = None, hmacSecret = secret, state = stateInit, sseq = of_nat q, transportBuffer = [],
    sentFrames = Map.empty, consecResends = 0, reads = [], write_results = [], written = []\<rparr>"
  have s: "sseq s = of_nat q" "hmacSecret s = secret" "state s = stateInit" by (simp_all add: s_def)
  then have "snd (validateFrame ?f s) = None" using validateFrame_None [OF s(1) q, of c pl] body by simp
  then obtain s1 where v: "validateFrame ?f s = (s1, None)" by (metis prod.collapse)
  then have "sseq s1 = sseq s" by (auto simp: validateFrame_def Close_def Let_def split: if_splits)
  with decodeFrame_frame [OF ok len s(1) q s(2), of c] v s show ?thesis
    by (intro exI [of _ s] exI [of _ "s1\<lparr>sseq := sseq s1 + 1\<rparr>"]) (simp add: add.commute)
qed


definition example_hmac :: "bytes \<Rightarrow> bytes \<Rightarrow> bytes" where
  "example_hmac k d = replicate 31 (foldl (+) 7 k) @ [foldl (+) 3 d]"

definition example_session :: "read_event list \<Rightarrow> Session" where
  "example_session rs = projr (Session_New (replicate 16 9) rs [])"


text \<open>
  Three requests to send again in a row count as success: the loop that waits for an
  acknowledgement ends without an error after its third round, so the start of a session is reported
  as delivered although no acknowledgement was received.
\<close>

theorem unacknowledged_send_succeeds:
  "snd (SendStart example_hmac [1] (example_session (map ReadChunk
      [frame_bytes example_hmac (replicate 16 9) 1 opResend (be 2 0),
       frame_bytes example_hmac (replicate 16 9) 3 opResend (be 2 2),
       frame_bytes example_hmac (replicate 16 9) 5 opResend (be 2 4)]))) = Inr ()"
  by code_simp

end
