(* ===== verification/FIPR_Routing.thy ===== *)
theory FIPR_Routing
  imports FIPR_Session Proto_Wrapper Shard_Routing
begin

text \<open>
  The two ends of the inter-process routing protocol: \<^verbatim>\<open>internal/receiver/shard/fiprsend\<close>, which hands a
  fragment to another process, and \<^verbatim>\<open>internal/receiver/shard/fiprrecv\<close>, which serves one connection. The
  text of the original address is parsed by \<^verbatim>\<open>netip.ParseAddr\<close>, an argument.
\<close>

section \<open>discovery.go\<close>

record dir_entry =
  entry_Name :: bytes
  entry_regular :: bool
  entry_dir :: bool

definition has_prefix :: "bytes \<Rightarrow> bytes \<Rightarrow> bool" where "has_prefix p xs \<longleftrightarrow> take (length p) xs = p"
definition has_suffix :: "bytes \<Rightarrow> bytes \<Rightarrow> bool" where
  "has_suffix p xs \<longleftrightarrow> length p \<le> length xs \<and> drop (length xs - length p) xs = p"

text \<open>
  The listing of the directory: None when it is missing or not accessible, which counts as no sockets, or
  an error. Names are compared bytewise.
\<close>

definition GetSocketFileList :: "(unit + dir_entry list option) \<Rightarrow> nat \<Rightarrow> bytes list option" where
  "GetSocketFileList listing selfID =
     (case listing of
        Inl _ \<Rightarrow> None
      | Inr None \<Rightarrow> Some []
      | Inr (Some entries) \<Rightarrow>
          let selfSocketFile = SocketFileNamePrefix @ decimal selfID @ SocketFileNameSuffix;
              keep = (\<lambda>e. \<not> (entry_regular e \<or> entry_dir e) \<and> has_suffix SocketFileNameSuffix (entry_Name e) \<and>
                has_prefix SocketFileNamePrefix (entry_Name e) \<and> entry_Name e \<noteq> selfSocketFile) in
          Some (sort (map entry_Name (filter keep entries))))"

section \<open>send.go\<close>

text \<open>
  A dialled connection is the events of its reads and writes and whether closing it fails; None: the
  dial failed. A panic is recovered and is an error. The session is returned for what it wrote.
\<close>

record connection =
  conn_reads :: "read_event list"
  conn_writes :: "write_event list"
  conn_close_fails :: bool

definition fiprsend_serialize :: "crypto_prims \<Rightarrow> Payload \<Rightarrow> tape \<Rightarrow> Payload \<times> bytes option" where
  "fiprsend_serialize P fragment tp =
     (case ConstructPayload P fragment (SignatureID fragment) of
        (fragment, Inl _) \<Rightarrow> (fragment, None)
      | (fragment, Inr rawPayload) \<Rightarrow>
          (case ConstructInnerPayload rawPayload tp of
             Inl _ \<Rightarrow> (fragment, None)
           | Inr (pl, tp') \<Rightarrow> (fragment, Some pl)))"

definition fiprsend_setup :: "(bytes \<Rightarrow> bytes \<Rightarrow> bytes) \<Rightarrow> bytes \<Rightarrow> netip_addr \<Rightarrow> (bool \<times> bool) sess" where
  "fiprsend_setup hmac i remoteAddress =
     sess_bind (SendStart hmac i) (\<lambda>_.
     sess_bind (SendOnBehalfOf hmac (Addr_String remoteAddress)) (\<lambda>_.
     sess_bind (SendShardCheck hmac) (\<lambda>draining.
     sess_bind (SendMessageCheck hmac) (\<lambda>msgExists. sess_return (draining, msgExists)))))"

definition fiprsend_RouteFragment ::
  "(bytes \<Rightarrow> bytes \<Rightarrow> bytes) \<Rightarrow> crypto_prims \<Rightarrow> wrappers \<Rightarrow> connection option \<Rightarrow> tape \<Rightarrow> bytes \<Rightarrow> netip_addr \<Rightarrow> Payload \<Rightarrow>
   (Payload \<times> remote_result) \<times> Session option" where
  "fiprsend_RouteFragment hmac P W dialled tp i remoteAddress fragment =
     (case dialled of
        None \<Rightarrow> ((fragment, RemoteError), None)
      | Some conn \<Rightarrow>
     (case GetSharedSecret W of
        Inl _ \<Rightarrow> ((fragment, RemoteError), None)
      | Inr secret \<Rightarrow>
     (case Session_New secret (conn_reads conn) (conn_writes conn) of
        Inl _ \<Rightarrow> ((fragment, RemoteError), None)
      | Inr s \<Rightarrow>
     (case fiprsend_setup hmac i remoteAddress s of
        (s, Inl _) \<Rightarrow> ((fragment, RemoteError), Some s)
      | (s, Inr (draining, msgExists)) \<Rightarrow>
          let closed = (\<lambda>r. if conn_close_fails conn then RemoteError else r) in
          if \<not> msgExists \<and> draining then ((fragment, closed RemoteReroute), Some s)
          else (case fiprsend_serialize P fragment tp of
             (fragment, None) \<Rightarrow> ((fragment, RemoteError), Some s)
           | (fragment, Some pl) \<Rightarrow>
               (case SendFragment hmac pl s of
                  (s, Inl _) \<Rightarrow> ((fragment, RemoteError), Some s)
                | (s, Inr _) \<Rightarrow> ((fragment, closed RemoteTaken), Some s)))))))"

section \<open>receive.go\<close>

record fiprrecv_metrics =
  Connections :: "64 word"
  AcceptedFragments :: "64 word"
  RejectedFragments :: "64 word"

record fiprrecv_instance =
  socketPath :: bytes
  rcv_secret :: bytes
  localRoutingView :: "Manager option"
  rcv_Metrics :: fiprrecv_metrics

text \<open>The directory is given as a clean path, to which \<^verbatim>\<open>filepath.Join\<close> appends the name.\<close>

definition fiprrecv_New :: "wrappers \<Rightarrow> nat \<Rightarrow> bytes \<Rightarrow> Manager option \<Rightarrow> fiprrecv_instance d3p_res" where
  "fiprrecv_New W pid socketDirectoryPath localRouterView =
     (let fileName = SocketFileNamePrefix @ decimal pid @ SocketFileNameSuffix;
          path = socketDirectoryPath @ [47] @ fileName in
      rbind (GetSharedSecret W) (\<lambda>secret.
        Inr \<lparr> socketPath = path, rcv_secret = secret, localRoutingView = localRouterView,
          rcv_Metrics = \<lparr>Connections = 0, AcceptedFragments = 0, RejectedFragments = 0\<rparr> \<rparr>))"

datatype conn_result = ConnPanic | ConnFailed | ConnBadAddress | ConnShutdown | ConnNotRouted | ConnRejected | ConnAccepted

definition rcv_count :: "(fiprrecv_metrics \<Rightarrow> fiprrecv_metrics) \<Rightarrow> fiprrecv_instance \<Rightarrow> fiprrecv_instance" where
  "rcv_count f inst = inst\<lparr>rcv_Metrics := f (rcv_Metrics inst)\<rparr>"

definition rcv_reject :: "(bytes \<Rightarrow> bytes \<Rightarrow> bytes) \<Rightarrow> fiprrecv_instance \<Rightarrow> Session \<Rightarrow> (fiprrecv_instance \<times> Session \<times> conn_result) option" where
  "rcv_reject hmac inst s =
     Some (rcv_count (\<lambda>m. m\<lparr>RejectedFragments := RejectedFragments m + 1\<rparr>) inst, fst (SendReject hmac s), ConnRejected)"

text \<open>From the fragment on: it is deserialized, validated, routed and answered.\<close>

definition handle_fragment ::
  "(bytes \<Rightarrow> bytes \<Rightarrow> bytes) \<Rightarrow> crypto_prims \<Rightarrow> wrappers \<Rightarrow> (bytes \<Rightarrow> bytes) \<Rightarrow> remote_env \<Rightarrow> bool \<Rightarrow> int \<Rightarrow> netip_addr \<Rightarrow> bytes \<Rightarrow>
   fiprrecv_instance \<Rightarrow> Manager \<Rightarrow> Session \<Rightarrow> (fiprrecv_instance \<times> Session \<times> conn_result) option" where
  "handle_fragment hmac P W sha256 env ctxDone start origAddr rawFragment inst rv s =
     (case DeconstructInnerPayload P rawFragment of
        Inl Panic \<Rightarrow> Some (inst, s, ConnPanic)
      | Inl (Err _) \<Rightarrow> rcv_reject hmac inst s
      | Inr pl \<Rightarrow>
     (case DeconstructPayload P W pl of
        Inl Panic \<Rightarrow> Some (inst, s, ConnPanic)
      | Inl (Err _) \<Rightarrow> rcv_reject hmac inst s
      | Inr fragment \<Rightarrow>
     (case RouteFragment sha256 env ctxDone rv origAddr fragment start of
        None \<Rightarrow> None
      | Some (rv, r) \<Rightarrow>
          let inst = inst\<lparr>localRoutingView := Some rv\<rparr> in
          if r = NotRouted then rcv_reject hmac inst s
          else Some (rcv_count (\<lambda>m. m\<lparr>AcceptedFragments := AcceptedFragments m + 1\<rparr>) inst, fst (SendAccept hmac s), ConnAccepted))))"

definition handle_setup :: "(bytes \<Rightarrow> bytes \<Rightarrow> bytes) \<Rightarrow> unit sess" where
  "handle_setup hmac = sess_bind (WaitStart hmac) (\<lambda>_. WaitOnBehalfOf hmac)"

definition handleConnection ::
  "(bytes \<Rightarrow> bytes \<Rightarrow> bytes) \<Rightarrow> crypto_prims \<Rightarrow> wrappers \<Rightarrow> (bytes \<Rightarrow> bytes) \<Rightarrow> remote_env \<Rightarrow> bool \<Rightarrow> (bytes \<Rightarrow> netip_addr option) \<Rightarrow>
   int \<Rightarrow> connection \<Rightarrow> fiprrecv_instance \<Rightarrow> (fiprrecv_instance \<times> Session option \<times> conn_result) option" where
  "handleConnection hmac P W sha256 env ctxDone ParseAddr start conn inst =
     (case Session_New (rcv_secret inst) (conn_reads conn) (conn_writes conn) of
        Inl _ \<Rightarrow> Some (inst, None, ConnFailed)
      | Inr s \<Rightarrow>
     (case handle_setup hmac s of
        (s, Inl _) \<Rightarrow> Some (inst, Some s, ConnFailed)
      | (s, Inr _) \<Rightarrow>
     (case ParseAddr (OriginalSender s) of
        None \<Rightarrow> Some (inst, Some s, ConnBadAddress)
      | Some origAddr \<Rightarrow>
     (case WaitShardCheck hmac s of
        (s, Inl _) \<Rightarrow> Some (inst, Some s, ConnFailed)
      | (s, Inr _) \<Rightarrow>
          let running = (localRoutingView inst \<noteq> None); draining = running in
     (case SendShardStatus hmac running draining s of
        (s, Inl _) \<Rightarrow> Some (inst, Some s, ConnFailed)
      | (s, Inr _) \<Rightarrow>
     (case localRoutingView inst of
        None \<Rightarrow> Some (inst, Some s, ConnShutdown)
      | Some rv \<Rightarrow>
     (case WaitMessageCheck hmac s of
        (s, Inl _) \<Rightarrow> Some (inst, Some s, ConnFailed)
      | (s, Inr _) \<Rightarrow>
     (case SendMessageStatus hmac (BucketExistsAnywhere rv (MessageID s)) s of
        (s, Inl _) \<Rightarrow> Some (inst, Some s, ConnFailed)
      | (s, Inr _) \<Rightarrow>
     (case WaitFragment hmac s of
        (s, Inl e) \<Rightarrow> Some (inst, Some s, if ErrTransportWasClosed \<in> set (sentinels e) then ConnNotRouted else ConnFailed)
      | (s, Inr rawFragment) \<Rightarrow>
          map_option (\<lambda>(inst, s, r). (inst, Some s, r))
            (handle_fragment hmac P W sha256 env ctxDone start origAddr rawFragment inst rv s))))))))))"

section \<open>The dialogue\<close>

text \<open>
  The effect of each operation on a session that reads what the other end is going to write. The
  acknowledgement of frame \<open>q\<close> is frame \<open>q + 1\<close>.
\<close>

definition ack :: "(bytes \<Rightarrow> bytes \<Rightarrow> bytes) \<Rightarrow> bytes \<Rightarrow> nat \<Rightarrow> bytes" where
  "ack hmac secret q = frame_bytes hmac secret (Suc q) opAck (be 2 q)"

lemmas sess_defs = sess_bind_def wrapping_def sess_upd_def sess_return_def sess_fail_def

lemma acked_ops:
  "requiresAck opStart" "requiresAck opOBO" "requiresAck opShardCheck" "requiresAck opShardStatus"
  "requiresAck opMsgCheck" "requiresAck opMsgStatus" "requiresAck opFrgRoute" "\<not> requiresAck opAccepted"
  by (simp_all add: requiresAck_def fipr_ops)

definition does :: "'a sess \<Rightarrow> Session \<Rightarrow> 'a \<Rightarrow> (Session \<Rightarrow> bool) \<Rightarrow> bool" where
  "does m s x Q \<longleftrightarrow> (\<exists>s'. m s = (s', Inr x) \<and> Q s')"

lemma does_bind:
  assumes "does m s x Q" and "\<And>s'. Q s' \<Longrightarrow> does (f x) s' y R"
  shows "does (sess_bind m f) s y R"
  using assms by (auto simp: does_def sess_bind_def)

lemma does_return: "Q s \<Longrightarrow> does (sess_return x) s x Q"
  by (simp add: does_def sess_return_def)

lemma does_wrapping: "does m s x Q \<Longrightarrow> does (wrapping m) s x Q"
  by (auto simp: does_def wrapping_def)

lemma does_mono: "does m s x Q \<Longrightarrow> (\<And>s'. Q s' \<Longrightarrow> R s') \<Longrightarrow> does m s x R"
  by (auto simp: does_def)

definition sess_at :: "bytes \<Rightarrow> nat \<Rightarrow> sessionState \<Rightarrow> bytes \<Rightarrow> bytes \<Rightarrow> read_event list \<Rightarrow> bytes option \<times> bytes option \<Rightarrow> Session \<Rightarrow> bool" where
  "sess_at secret q st w bs tail iz s \<longleftrightarrow> ready secret q st w bs tail s \<and> idents s = iz"

lemma does_send:
  assumes "hmac_ok hmac" and "length pl \<le> 65512" and "sess_at secret q st w (ack hmac secret q @ bs) tail iz s"
    and "st \<noteq> stateClosed" and "q < 65534" and "requiresAck c"
  shows "does (send hmac c pl) s (of_nat q) (sess_at secret (q + 2) st (w @ frame_bytes hmac secret q c pl) bs tail iz)"
  using send_acked [OF assms(1,2) _ assms(4-6)] assms(3) by (auto simp: does_def sess_at_def ack_def)

lemma does_await:
  assumes "hmac_ok hmac" and "length pl \<le> 65512" and "sess_at secret q st w (frame_bytes hmac secret q c pl @ bs) tail iz s"
    and "valid_body q st c pl" and "st \<noteq> stateClosed" and "q < 65534" and "requiresAck c"
  shows "does (await hmac [c]) s \<lparr>sequence = of_nat q, op = c, payload = pl\<rparr>
    (sess_at secret (q + 2) st (w @ ack hmac secret q) bs tail iz)"
  using await_acked [OF assms(1,2) _ assms(4-6) _ assms(7), where ops = "[c]"] assms(3)
  by (auto simp: does_def sess_at_def ack_def)

text \<open>The client.\<close>

lemma does_SendStart:
  assumes "hmac_ok hmac" and "length k \<le> 65512" and "k \<noteq> []" and "sess_at secret 0 stateInit w (ack hmac secret 0 @ bs) tail iz s"
  shows "does (SendStart hmac k) s () (sess_at secret 2 stateStarted (w @ frame_bytes hmac secret 0 opStart k) bs tail iz)"
proof -
  from does_wrapping [OF does_send [OF assms(1,2,4) _ _ acked_ops(1)]] obtain s' where
    "wrapping (send hmac opStart k) s = (s', Inr 0)" "sess_at secret 2 stateInit (w @ frame_bytes hmac secret 0 opStart k) bs tail iz s'"
    by (auto simp: does_def numeral_2_eq_2)
  then show ?thesis
    using assms(3) by (auto simp: SendStart_def does_def sess_defs sess_at_def ready_def incoming_def idents_def)
qed

lemma does_SendOnBehalfOf:
  assumes "hmac_ok hmac" and "length a \<le> 65512" and "sess_at secret q stateStarted w (ack hmac secret q @ bs) tail iz s" and "q < 65534"
  shows "does (SendOnBehalfOf hmac a) s () (sess_at secret (q + 2) stateStarted (w @ frame_bytes hmac secret q opOBO a) bs tail iz)"
  unfolding SendOnBehalfOf_def
  by (rule does_bind [OF does_wrapping [OF does_send [OF assms(1,2,3) _ assms(4) acked_ops(2)]]]) (auto intro: does_return)

lemma does_SendShardCheck:
  assumes ok: "hmac_ok hmac" and q: "q < 65530"
    and s: "sess_at secret q stateStarted w (ack hmac secret q @ frame_bytes hmac secret (q + 2) opShardStatus [shardDraining] @ bs) tail iz s"
  shows "does (SendShardCheck hmac) s True
    (sess_at secret (q + 4) stateStarted (w @ frame_bytes hmac secret q opShardCheck [] @ ack hmac secret (q + 2)) bs tail iz)"
  unfolding SendShardCheck_def
proof (rule does_bind)
  show "does (wrapping (send hmac opShardCheck [])) s (of_nat q)
      (sess_at secret (q + 2) stateStarted (w @ frame_bytes hmac secret q opShardCheck []) (frame_bytes hmac secret (q + 2) opShardStatus [shardDraining] @ bs) tail iz)"
    using q by (intro does_wrapping does_send [OF ok _ s _ _ acked_ops(3)]) auto
  fix s' assume s': "sess_at secret (q + 2) stateStarted (w @ frame_bytes hmac secret q opShardCheck []) (frame_bytes hmac secret (q + 2) opShardStatus [shardDraining] @ bs) tail iz s'"
  have aw: "does (await hmac [opShardStatus]) s' \<lparr>sequence = of_nat (q + 2), op = opShardStatus, payload = [shardDraining]\<rparr>
      (sess_at secret (q + 2 + 2) stateStarted ((w @ frame_bytes hmac secret q opShardCheck []) @ ack hmac secret (q + 2)) bs tail iz)"
    using q by (intro does_await [OF ok _ s' _ _ _ acked_ops(4)]) (auto simp: valid_body_def)
  show "does (sess_bind (wrapping (await hmac [opShardStatus])) (\<lambda>recvFrame.
       let currentStatus = payload recvFrame ! 0 in
       if currentStatus = shardDraining then sess_return True
       else if currentStatus = shardShutdown then sess_fail (Bare ErrShardShutdown)
       else sess_return False)) s' True
    (sess_at secret (q + 4) stateStarted (w @ frame_bytes hmac secret q opShardCheck [] @ ack hmac secret (q + 2)) bs tail iz)"
    by (intro does_bind [OF does_wrapping [OF aw]]) (auto simp: does_def sess_return_def eval_nat_numeral)
qed

lemma does_SendMessageCheck:
  assumes ok: "hmac_ok hmac" and q: "q < 65530"
    and s: "sess_at secret q stateStarted w (ack hmac secret q @ frame_bytes hmac secret (q + 2) opMsgStatus [if e then msgExisting else msgNew] @ bs) tail iz s"
  shows "does (SendMessageCheck hmac) s e
    (sess_at secret (q + 4) stateStarted (w @ frame_bytes hmac secret q opMsgCheck [] @ ack hmac secret (q + 2)) bs tail iz)"
  unfolding SendMessageCheck_def
proof (rule does_bind)
  let ?b = "[if e then msgExisting else msgNew]"
  show "does (wrapping (send hmac opMsgCheck [])) s (of_nat q)
      (sess_at secret (q + 2) stateStarted (w @ frame_bytes hmac secret q opMsgCheck []) (frame_bytes hmac secret (q + 2) opMsgStatus ?b @ bs) tail iz)"
    using q by (intro does_wrapping does_send [OF ok _ s _ _ acked_ops(5)]) auto
  fix s' assume s': "sess_at secret (q + 2) stateStarted (w @ frame_bytes hmac secret q opMsgCheck []) (frame_bytes hmac secret (q + 2) opMsgStatus ?b @ bs) tail iz s'"
  have aw: "does (await hmac [opMsgStatus]) s' \<lparr>sequence = of_nat (q + 2), op = opMsgStatus, payload = ?b\<rparr>
      (sess_at secret (q + 2 + 2) stateStarted ((w @ frame_bytes hmac secret q opMsgCheck []) @ ack hmac secret (q + 2)) bs tail iz)"
    using q by (intro does_await [OF ok _ s' _ _ _ acked_ops(6)]) (auto simp: valid_body_def)
  have "msgNew \<noteq> msgExisting" by (simp add: msgExisting_def msgNew_def)
  then show "does (sess_bind (wrapping (await hmac [opMsgStatus])) (\<lambda>recvFrame. sess_return (payload recvFrame ! 0 = msgExisting))) s' e
    (sess_at secret (q + 4) stateStarted (w @ frame_bytes hmac secret q opMsgCheck [] @ ack hmac secret (q + 2)) bs tail iz)"
    by (intro does_bind [OF does_wrapping [OF aw]]) (auto simp: does_def sess_return_def eval_nat_numeral)
qed

lemma does_SendFragment:
  assumes ok: "hmac_ok hmac" "length pl \<le> 65512" and q: "q < 65530"
    and s: "sess_at secret q stateStarted w (ack hmac secret q @ frame_bytes hmac secret (q + 2) opAccepted [] @ bs) tail iz s"
  shows "does (SendFragment hmac pl) s () (\<lambda>s'. written s' = w @ frame_bytes hmac secret q opFrgRoute pl)"
  unfolding SendFragment_def
proof (rule does_bind)
  show "does (wrapping (send hmac opFrgRoute pl)) s (of_nat q)
      (sess_at secret (q + 2) stateStarted (w @ frame_bytes hmac secret q opFrgRoute pl) (frame_bytes hmac secret (q + 2) opAccepted [] @ bs) tail iz)"
    using q by (intro does_wrapping does_send [OF ok s _ _ acked_ops(7)]) auto
  fix s' assume "sess_at secret (q + 2) stateStarted (w @ frame_bytes hmac secret q opFrgRoute pl) (frame_bytes hmac secret (q + 2) opAccepted [] @ bs) tail iz s'"
  from await_accepted [OF ok(1), of secret "q + 2" stateStarted "w @ frame_bytes hmac secret q opFrgRoute pl" bs tail s'] this q
  show "does (\<lambda>s. case await hmac [opAccepted] s of
         (s, Inl e) \<Rightarrow> (s, Inl (wrapE (if e = Bare ErrInvalidOpcode then Bare ErrRemoteRejected else e)))
       | (s, Inr _) \<Rightarrow> (s, Inr ())) s' () (\<lambda>s'. written s' = w @ frame_bytes hmac secret q opFrgRoute pl)"
    by (auto simp: does_def sess_at_def)
qed

text \<open>The server.\<close>

lemma does_WaitStart:
  assumes "hmac_ok hmac" and "length k \<le> 65512" and "k \<noteq> []"
    and s: "sess_at secret 0 stateInit w (frame_bytes hmac secret 0 opStart k @ bs) tail (None, a) s"
  shows "does (WaitStart hmac) s () (sess_at secret 2 stateStarted (w @ ack hmac secret 0) bs tail (Some k, a))"
  unfolding WaitStart_def
  by (rule does_bind [OF does_wrapping [OF does_await [OF assms(1,2) s _ _ _ acked_ops(1)]]])
    (use assms(3) in \<open>auto simp: valid_body_def does_def sess_defs sess_at_def ready_def incoming_def idents_def setMessageID_def numeral_2_eq_2\<close>)

lemma does_WaitOnBehalfOf:
  assumes "hmac_ok hmac" and "length b \<le> 65512" and "b \<noteq> []" and "q < 65534"
    and s: "sess_at secret q stateStarted w (frame_bytes hmac secret q opOBO b @ bs) tail (k, None) s"
  shows "does (WaitOnBehalfOf hmac) s () (sess_at secret (q + 2) stateStarted (w @ ack hmac secret q) bs tail (k, Some b))"
  unfolding WaitOnBehalfOf_def
  by (rule does_bind [OF does_wrapping [OF does_await [OF assms(1,2) s _ _ assms(4) acked_ops(2)]]])
    (use assms(3) in \<open>auto simp: valid_body_def does_def sess_defs sess_at_def ready_def incoming_def idents_def setOriginalSender_def\<close>)

lemma does_WaitShardCheck:
  assumes "hmac_ok hmac" and "q < 65534" and s: "sess_at secret q stateStarted w (frame_bytes hmac secret q opShardCheck [] @ bs) tail iz s"
  shows "does (WaitShardCheck hmac) s () (sess_at secret (q + 2) stateStarted (w @ ack hmac secret q) bs tail iz)"
  unfolding WaitShardCheck_def
  by (rule does_bind [OF does_wrapping [OF does_await [OF assms(1) _ s _ _ assms(2) acked_ops(3)]]])
    (auto simp: valid_body_def intro: does_return)

lemma does_WaitMessageCheck:
  assumes "hmac_ok hmac" and "q < 65534" and s: "sess_at secret q stateStarted w (frame_bytes hmac secret q opMsgCheck [] @ bs) tail iz s"
  shows "does (WaitMessageCheck hmac) s () (sess_at secret (q + 2) stateStarted (w @ ack hmac secret q) bs tail iz)"
  unfolding WaitMessageCheck_def
  by (rule does_bind [OF does_wrapping [OF does_await [OF assms(1) _ s _ _ assms(2) acked_ops(5)]]])
    (auto simp: valid_body_def intro: does_return)

lemma does_WaitFragment:
  assumes "hmac_ok hmac" and "length pl \<le> 65512" and "pl \<noteq> []" and "q < 65534"
    and s: "sess_at secret q stateStarted w (frame_bytes hmac secret q opFrgRoute pl @ bs) tail iz s"
  shows "does (WaitFragment hmac) s pl (sess_at secret (q + 2) stateStarted (w @ ack hmac secret q) bs tail iz)"
  unfolding WaitFragment_def
  by (rule does_bind [OF does_wrapping [OF does_await [OF assms(1,2) s _ _ assms(4) acked_ops(7)]]])
    (use assms(3) in \<open>auto simp: valid_body_def does_def sess_return_def\<close>)

lemma does_SendShardStatus:
  assumes "hmac_ok hmac" and "q < 65534" and s: "sess_at secret q stateStarted w (ack hmac secret q @ bs) tail iz s"
  shows "does (SendShardStatus hmac True True) s ()
    (sess_at secret (q + 2) stateStarted (w @ frame_bytes hmac secret q opShardStatus [shardDraining]) bs tail iz)"
  unfolding SendShardStatus_def Let_def
  by (rule does_bind [OF does_wrapping [OF does_send [OF assms(1) _ s _ assms(2) acked_ops(4)]]]) (auto intro: does_return)

lemma does_SendMessageStatus:
  assumes "hmac_ok hmac" and "q < 65534" and s: "sess_at secret q stateStarted w (ack hmac secret q @ bs) tail iz s"
  shows "does (SendMessageStatus hmac e) s ()
    (sess_at secret (q + 2) stateStarted (w @ frame_bytes hmac secret q opMsgStatus [if e then msgExisting else msgNew]) bs tail iz)"
  unfolding SendMessageStatus_def
  by (rule does_bind [OF does_send [OF assms(1) _ s _ assms(2) acked_ops(6)]]) (auto intro: does_return)

lemma does_SendAccept:
  assumes "q < 65535" and s: "sess_at secret q stateStarted w bs tail iz s"
  shows "does (SendAccept hmac) s () (\<lambda>s'. written s' = w @ frame_bytes hmac secret q opAccepted [])"
  using send_frame_ready [of secret q stateStarted w bs tail s "[]" hmac opAccepted] assms acked_ops(8)
  by (auto simp: SendAccept_def does_def sess_defs send_def sess_at_def ready_def Close_def)

text \<open>When the client closes instead of sending the fragment.\<close>

lemma WaitFragment_closed:
  assumes "sess_at secret q stateStarted w [] [ReadClosed] iz s"
  shows "\<exists>s'. WaitFragment hmac s = (s', Inl (Wrapped [ErrTransportWasClosed])) \<and> written s' = w"
proof -
  from assms obtain cs where cs: "reads s = map ReadChunk cs @ [ReadClosed]" "transportBuffer s = []" "concat cs = []" and w: "written s = w"
    by (auto simp: sess_at_def ready_def incoming_def)
  have n: "tryParseFrame [] = Inr None" by (simp add: tryParseFrame_def fipr_lens)
  have "read_loop [] (map ReadChunk cs @ [ReadClosed]) s =
      (Close (s\<lparr>transportBuffer := [], reads := []\<rparr>), Inl (Bare ErrTransportWasClosed))"
    using cs(3) by (induction cs) (subst read_loop.simps, simp add: n)+
  then show ?thesis
    using cs w by (auto simp: WaitFragment_def sess_defs await_def maxConsecutiveResends_def numeral_3_eq_3 readFrame_def
      wrapE_def Close_def)
qed

text \<open>
  What the two ends write in a dialogue: the client its frames and its acknowledgements of the
  server's two status frames, the server the acknowledgements and the status frames.
\<close>

definition client_says :: "(bytes \<Rightarrow> bytes \<Rightarrow> bytes) \<Rightarrow> bytes \<Rightarrow> bytes \<Rightarrow> bytes \<Rightarrow> bytes" where
  "client_says hmac secret k a = frame_bytes hmac secret 0 opStart k @ frame_bytes hmac secret 2 opOBO a @
     frame_bytes hmac secret 4 opShardCheck [] @ ack hmac secret 6 @ frame_bytes hmac secret 8 opMsgCheck [] @ ack hmac secret 10"

definition server_says :: "(bytes \<Rightarrow> bytes \<Rightarrow> bytes) \<Rightarrow> bytes \<Rightarrow> bool \<Rightarrow> bytes" where
  "server_says hmac secret e = ack hmac secret 0 @ ack hmac secret 2 @ ack hmac secret 4 @
     frame_bytes hmac secret 6 opShardStatus [shardDraining] @ ack hmac secret 8 @
     frame_bytes hmac secret 10 opMsgStatus [if e then msgExisting else msgNew]"

lemma client_setup:
  assumes ok: "hmac_ok hmac" and k: "k \<noteq> []" "length k \<le> 65512" and a: "length (Addr_String addr) \<le> 65512"
    and s: "sess_at secret 0 stateInit [] (server_says hmac secret e @ bs) tail iz s"
  shows "does (fiprsend_setup hmac k addr) s (True, e) (sess_at secret 12 stateStarted (client_says hmac secret k (Addr_String addr)) bs tail iz)"
proof -
  let ?A = "ack hmac secret" and ?F = "frame_bytes hmac secret"
  let ?S6 = "?F 6 opShardStatus [shardDraining]" and ?S10 = "?F 10 opMsgStatus [if e then msgExisting else msgNew]"
  have "sess_at secret 0 stateInit [] (?A 0 @ ?A 2 @ ?A 4 @ ?S6 @ ?A 8 @ ?S10 @ bs) tail iz s" using s by (simp add: server_says_def)
  from does_SendStart [OF ok k(2,1) this] obtain s1 where s1: "SendStart hmac k s = (s1, Inr ())"
    "sess_at secret 2 stateStarted (?F 0 opStart k) (?A 2 @ ?A 4 @ ?S6 @ ?A 8 @ ?S10 @ bs) tail iz s1" by (auto simp: does_def)
  from does_SendOnBehalfOf [OF ok a s1(2)] obtain s2 where s2: "SendOnBehalfOf hmac (Addr_String addr) s1 = (s2, Inr ())"
    "sess_at secret 4 stateStarted (?F 0 opStart k @ ?F 2 opOBO (Addr_String addr)) (?A 4 @ ?S6 @ ?A 8 @ ?S10 @ bs) tail iz s2"
    by (auto simp: does_def)
  from does_SendShardCheck [OF ok, of 4, simplified, OF s2(2)] obtain s3 where s3: "SendShardCheck hmac s2 = (s3, Inr True)"
    "sess_at secret 8 stateStarted ((?F 0 opStart k @ ?F 2 opOBO (Addr_String addr)) @ ?F 4 opShardCheck [] @ ?A 6) (?A 8 @ ?S10 @ bs) tail iz s3"
    by (auto simp: does_def)
  from does_SendMessageCheck [OF ok, of 8, simplified, OF s3(2) [simplified append_assoc]] obtain s4 where s4: "SendMessageCheck hmac s3 = (s4, Inr e)"
    "sess_at secret 12 stateStarted (client_says hmac secret k (Addr_String addr)) bs tail iz s4"
    by (auto simp: does_def client_says_def)
  show ?thesis using s1 s2 s3 s4 by (simp add: does_def fiprsend_setup_def sess_bind_def sess_return_def)
qed

text \<open>The server up to the point where it waits for the fragment.\<close>

lemma server_setup:
  assumes ok: "hmac_ok hmac" and k: "k \<noteq> []" "length k \<le> 65512" and a: "a \<noteq> []" "length a \<le> 65512"
    and s: "sess_at secret 0 stateInit [] (client_says hmac secret k a @ bs) tail (None, None) s"
  obtains s2 s3 s4 s5 s6 where "handle_setup hmac s = (s2, Inr ())" and "OriginalSender s2 = a"
    and "WaitShardCheck hmac s2 = (s3, Inr ())" and "SendShardStatus hmac True True s3 = (s4, Inr ())"
    and "WaitMessageCheck hmac s4 = (s5, Inr ())" and "MessageID s5 = k"
    and "SendMessageStatus hmac e s5 = (s6, Inr ())" and "sess_at secret 12 stateStarted (server_says hmac secret e) bs tail (Some k, Some a) s6"
proof -
  let ?A = "ack hmac secret" and ?F = "frame_bytes hmac secret" and ?z = "(Some k, Some a)"
  let ?S6 = "?F 6 opShardStatus [shardDraining]"
  have "sess_at secret 0 stateInit [] (?F 0 opStart k @ ?F 2 opOBO a @ ?F 4 opShardCheck [] @ ?A 6 @ ?F 8 opMsgCheck [] @ ?A 10 @ bs) tail (None, None) s"
    using s by (simp add: client_says_def)
  from does_WaitStart [OF ok k(2,1) this] obtain s1 where s1: "WaitStart hmac s = (s1, Inr ())"
    "sess_at secret 2 stateStarted (?A 0) (?F 2 opOBO a @ ?F 4 opShardCheck [] @ ?A 6 @ ?F 8 opMsgCheck [] @ ?A 10 @ bs) tail (Some k, None) s1"
    by (auto simp: does_def)
  from does_WaitOnBehalfOf [OF ok a(2,1) _ s1(2)] obtain s2 where s2: "WaitOnBehalfOf hmac s1 = (s2, Inr ())"
    "sess_at secret 4 stateStarted (?A 0 @ ?A 2) (?F 4 opShardCheck [] @ ?A 6 @ ?F 8 opMsgCheck [] @ ?A 10 @ bs) tail ?z s2"
    by (auto simp: does_def)
  from does_WaitShardCheck [OF ok _ s2(2)] obtain s3 where s3: "WaitShardCheck hmac s2 = (s3, Inr ())"
    "sess_at secret 6 stateStarted (?A 0 @ ?A 2 @ ?A 4) (?A 6 @ ?F 8 opMsgCheck [] @ ?A 10 @ bs) tail ?z s3"
    by (auto simp: does_def)
  from does_SendShardStatus [OF ok _ s3(2)] obtain s4 where s4: "SendShardStatus hmac True True s3 = (s4, Inr ())"
    "sess_at secret 8 stateStarted (?A 0 @ ?A 2 @ ?A 4 @ ?S6) (?F 8 opMsgCheck [] @ ?A 10 @ bs) tail ?z s4"
    by (auto simp: does_def)
  from does_WaitMessageCheck [OF ok _ s4(2)] obtain s5 where s5: "WaitMessageCheck hmac s4 = (s5, Inr ())"
    "sess_at secret 10 stateStarted (?A 0 @ ?A 2 @ ?A 4 @ ?S6 @ ?A 8) (?A 10 @ bs) tail ?z s5"
    by (auto simp: does_def)
  from does_SendMessageStatus [OF ok _ s5(2), where e = e] obtain s6 where s6: "SendMessageStatus hmac e s5 = (s6, Inr ())"
    "sess_at secret 12 stateStarted (server_says hmac secret e) bs tail ?z s6"
    by (auto simp: does_def server_says_def)
  have "handle_setup hmac s = (s2, Inr ())" using s1 s2 by (simp add: handle_setup_def sess_bind_def)
  moreover have "OriginalSender s2 = a" "MessageID s5 = k"
    using s2(2) s5(2) by (auto simp: sess_at_def idents_def OriginalSender_def MessageID_def)
  ultimately show thesis using that s3 s4 s5 s6 by blast
qed

text \<open>Both ends over a connection that loses nothing and cuts the stream into any chunks.\<close>

definition reliable :: "bytes list \<Rightarrow> read_event list \<Rightarrow> connection" where
  "reliable chunks tail = \<lparr> conn_reads = map ReadChunk chunks @ tail, conn_writes = [], conn_close_fails = False \<rparr>"

lemma session_start:
  assumes "length secret = 16"
  obtains s where "Session_New secret (map ReadChunk cs @ tail) [] = Inr s" and "sess_at secret 0 stateInit [] (concat cs) tail (None, None) s"
  using that assms by (auto simp: Session_New_def HMACSize_def sess_at_def ready_def incoming_def idents_def)

lemma client_dialogue:
  assumes ok: "hmac_ok hmac" "length secret = 16" "GetSharedSecret W = Inr secret"
    and k: "k \<noteq> []" "length k \<le> 65512" and a: "length (Addr_String addr) \<le> 65512"
    and f: "e \<Longrightarrow> fiprsend_serialize P f tp = (f', Some pl)" "e \<Longrightarrow> length pl \<le> 65512"
    and cs: "concat cs = server_says hmac secret e @ (if e then ack hmac secret 12 @ frame_bytes hmac secret 14 opAccepted [] else [])"
  shows "\<exists>s. fiprsend_RouteFragment hmac P W (Some (reliable cs [])) tp k addr f =
      (if e then (f', RemoteTaken) else (f, RemoteReroute), Some s) \<and>
    written s = client_says hmac secret k (Addr_String addr) @ (if e then frame_bytes hmac secret 12 opFrgRoute pl else [])"
proof -
  let ?bs = "if e then ack hmac secret 12 @ frame_bytes hmac secret 14 opAccepted [] else []"
  obtain s0 where s0: "Session_New secret (map ReadChunk cs @ []) [] = Inr s0" "sess_at secret 0 stateInit [] (concat cs) [] (None, None) s0"
    by (rule session_start [OF ok(2)])
  from client_setup [OF ok(1) k a s0(2) [unfolded cs]] obtain s1 where
    s1: "fiprsend_setup hmac k addr s0 = (s1, Inr (True, e))"
      "sess_at secret 12 stateStarted (client_says hmac secret k (Addr_String addr)) ?bs [] (None, None) s1" by (auto simp: does_def)
  show ?thesis
  proof (cases e)
    case True
    have "sess_at secret 12 stateStarted (client_says hmac secret k (Addr_String addr))
        (ack hmac secret 12 @ frame_bytes hmac secret (12 + 2) opAccepted [] @ []) [] (None, None) s1" using s1(2) True by simp
    from does_SendFragment [OF ok(1) f(2) [OF True] _ this] obtain s2 where "SendFragment hmac pl s1 = (s2, Inr ())"
      "written s2 = client_says hmac secret k (Addr_String addr) @ frame_bytes hmac secret 12 opFrgRoute pl"
      by (auto simp: does_def)
    then show ?thesis using s0 s1 ok(3) f(1) True by (simp add: fiprsend_RouteFragment_def reliable_def)
  next
    case False
    then show ?thesis using s0 s1 ok(3) by (auto simp: fiprsend_RouteFragment_def reliable_def sess_at_def ready_def)
  qed
qed

lemma server_dialogue:
  assumes ok: "hmac_ok hmac" "length secret = 16" "rcv_secret inst = secret" and rv: "localRoutingView inst = Some rv"
    and k: "k \<noteq> []" "length k \<le> 65512" and a: "length (Addr_String addr) \<le> 65512" "ParseAddr (Addr_String addr) = Some addr" "ParseAddr [] = None"
    and e: "e = BucketExistsAnywhere rv k"
    and f: "e \<Longrightarrow> DeconstructInnerPayload P pl = Inr raw" "e \<Longrightarrow> DeconstructPayload P W raw = Inr g" "e \<Longrightarrow> length pl \<le> 65512"
    and r: "e \<Longrightarrow> RouteFragment sha env False rv addr g t = Some (rv', r)" "r \<noteq> NotRouted"
    and cs: "concat cs = client_says hmac secret k (Addr_String addr) @ (if e then frame_bytes hmac secret 12 opFrgRoute pl else [])"
  shows "\<exists>s. handleConnection hmac P W sha env False ParseAddr t (reliable cs [ReadClosed]) inst =
      Some (if e then (rcv_count (\<lambda>m. m\<lparr>AcceptedFragments := AcceptedFragments m + 1\<rparr>) (inst\<lparr>localRoutingView := Some rv'\<rparr>), Some s, ConnAccepted)
            else (inst, Some s, ConnNotRouted)) \<and>
    written s = server_says hmac secret e @ (if e then ack hmac secret 12 @ frame_bytes hmac secret 14 opAccepted [] else [])"
proof -
  let ?bs = "if e then frame_bytes hmac secret 12 opFrgRoute pl else []"
  obtain s0 where s0: "Session_New secret (map ReadChunk cs @ [ReadClosed]) [] = Inr s0"
    "sess_at secret 0 stateInit [] (concat cs) [ReadClosed] (None, None) s0"
    by (rule session_start [OF ok(2)])
  have an: "Addr_String addr \<noteq> []" using a(2,3) by auto
  from server_setup [OF ok(1) k an a(1) s0(2) [unfolded cs], where e = e] obtain s2 s3 s4 s5 s6 where
    d: "handle_setup hmac s0 = (s2, Inr ())" "OriginalSender s2 = Addr_String addr" "WaitShardCheck hmac s2 = (s3, Inr ())"
      "SendShardStatus hmac True True s3 = (s4, Inr ())" "WaitMessageCheck hmac s4 = (s5, Inr ())" "MessageID s5 = k"
      "SendMessageStatus hmac e s5 = (s6, Inr ())"
    and s6: "sess_at secret 12 stateStarted (server_says hmac secret e) ?bs [ReadClosed] (Some k, Some (Addr_String addr)) s6" .
  note step = s0(1) d a(2) rv ok(3) e
  show ?thesis
  proof (cases e)
    case True
    have pl: "pl \<noteq> []" using f(1) [OF True] by (auto simp: DeconstructInnerPayload_def minInnerPayloadLen_def len_consts)
    have "sess_at secret 12 stateStarted (server_says hmac secret e) (frame_bytes hmac secret 12 opFrgRoute pl @ []) [ReadClosed]
        (Some k, Some (Addr_String addr)) s6" using s6 True by simp
    from does_WaitFragment [OF ok(1) f(3) [OF True] pl _ this] obtain s7 where s7: "WaitFragment hmac s6 = (s7, Inr pl)"
      "sess_at secret 14 stateStarted (server_says hmac secret e @ ack hmac secret 12) [] [ReadClosed] (Some k, Some (Addr_String addr)) s7"
      by (auto simp: does_def)
    from does_SendAccept [OF _ s7(2), of hmac] obtain s8 where "SendAccept hmac s7 = (s8, Inr ())"
      "written s8 = server_says hmac secret e @ ack hmac secret 12 @ frame_bytes hmac secret 14 opAccepted []"
      by (auto simp: does_def)
    then show ?thesis
      using step s7(1) True f(1,2) r
      by (simp add: handleConnection_def reliable_def handle_fragment_def Let_def)
  next
    case False
    obtain s7 where "WaitFragment hmac s6 = (s7, Inl (Wrapped [ErrTransportWasClosed]))" "written s7 = server_says hmac secret e"
      using WaitFragment_closed [of secret 12 "server_says hmac secret e" "(Some k, Some (Addr_String addr))" s6 hmac] s6 False by auto
    then show ?thesis using step False by (simp add: handleConnection_def reliable_def Let_def)
  qed
qed

section \<open>Properties\<close>

text \<open>
  C24. Two processes agree on a fragment: over a connection that loses nothing, however it cuts the two
  streams into chunks, each end reads what the other wrote, and when the second process holds a part of the
  message it routes the fragment to its own shards and the first counts it as taken; otherwise the
  first process keeps the fragment, unchanged, and the second is left as it was.
\<close>

theorem fragment_handover_agrees:
  assumes "hmac_ok hmac" "length secret = 16" "GetSharedSecret W = Inr secret" "rcv_secret inst = secret"
    and "localRoutingView inst = Some rv" and "k \<noteq> []" "length k \<le> 65512"
    and "length (Addr_String addr) \<le> 65512" "ParseAddr (Addr_String addr) = Some addr" "ParseAddr [] = None"
    and "e = BucketExistsAnywhere rv k"
    and "e \<Longrightarrow> fiprsend_serialize P f tp = (f', Some pl)" "e \<Longrightarrow> length pl \<le> 65512"
    and "e \<Longrightarrow> DeconstructInnerPayload P pl = Inr raw" "e \<Longrightarrow> DeconstructPayload P W' raw = Inr g"
    and "e \<Longrightarrow> RouteFragment sha env False rv addr g t = Some (rv', r)" "r \<noteq> NotRouted"
  shows "\<exists>toServer toClient. \<forall>cs ss. concat cs = toClient \<and> concat ss = toServer \<longrightarrow>
    (\<exists>c s. fiprsend_RouteFragment hmac P W (Some (reliable cs [])) tp k addr f =
        (if e then (f', RemoteTaken) else (f, RemoteReroute), Some c) \<and> written c = toServer \<and>
      handleConnection hmac P W' sha env False ParseAddr t (reliable ss [ReadClosed]) inst =
        Some (if e then (rcv_count (\<lambda>m. m\<lparr>AcceptedFragments := AcceptedFragments m + 1\<rparr>) (inst\<lparr>localRoutingView := Some rv'\<rparr>),
                Some s, ConnAccepted)
              else (inst, Some s, ConnNotRouted)) \<and> written s = toClient)"
proof -
  let ?toServer = "client_says hmac secret k (Addr_String addr) @ (if e then frame_bytes hmac secret 12 opFrgRoute pl else [])"
  let ?toClient = "server_says hmac secret e @ (if e then ack hmac secret 12 @ frame_bytes hmac secret 14 opAccepted [] else [])"
  note c = client_dialogue [OF assms(1-3,6-8,12,13)]
  note s = server_dialogue [OF assms(1,2,4-11,14,15,13,16,17)]
  show ?thesis
    by (rule exI [of _ ?toServer], rule exI [of _ ?toClient]) (use c s in blast)
qed

definition example_wrappers :: wrappers where
  "example_wrappers = example_receiver\<lparr>GetSharedSecret_var := FnSet (replicate 16 9)\<rparr>"

definition example_fragment2 :: Payload where
  "example_fragment2 = (example_part 1 1)\<lparr>Hostname := bytes_of_string ''web2'', Data := bytes_of_string ''hello'', Timestamp := 3000000, PaddingLen := 12\<rparr>"

definition example_env :: remote_env where
  "example_env = \<lparr>socket_files = None, remote_route = (\<lambda>_ _ _ _ f. (f, RemoteError)), range_order = []\<rparr>"

definition example_view :: Manager where
  "example_view = (case RouteFragment (\<lambda>_. replicate 32 5) example_env False (example_manager [(''0'', False), (''1'', False)])
     example_addr (example_part 1 0) 1000 of None \<Rightarrow> example_manager [] | Some (m, r) \<Rightarrow> m)"

definition example_exchange :: bool where
  "example_exchange =
     (case fiprsend_serialize example_prims example_fragment2 example_tape of
        (f', Some pl) \<Rightarrow> length pl \<le> 65512 \<and>
          (case DeconstructInnerPayload example_prims pl of
             Inr raw \<Rightarrow>
               (case DeconstructPayload example_prims example_wrappers raw of
                  Inr g \<Rightarrow>
                    (case RouteFragment (\<lambda>_. replicate 32 5) example_env False example_view example_addr g 2000 of
                       Some (rv', r) \<Rightarrow> r \<noteq> NotRouted | None \<Rightarrow> False)
                | Inl _ \<Rightarrow> False)
           | Inl _ \<Rightarrow> False)
      | _ \<Rightarrow> False)"

theorem fragment_handover_agrees_witness:
  "\<exists>toServer toClient f' c s inst'.
    fiprsend_RouteFragment example_hmac example_prims example_wrappers (Some (reliable [toClient] [])) example_tape
      example_key example_addr example_fragment2 = ((f', RemoteTaken), Some c) \<and> written c = toServer \<and>
    handleConnection example_hmac example_prims example_wrappers (\<lambda>_. replicate 32 5) example_env False
      (\<lambda>b. if b = Addr_String example_addr then Some example_addr else None) 2000 (reliable [toServer] [ReadClosed])
      (projr (fiprrecv_New example_wrappers 5 [] (Some example_view))) = Some (inst', Some s, ConnAccepted) \<and> written s = toClient"
proof -
  let ?i = "projr (fiprrecv_New example_wrappers 5 [] (Some example_view))"
  have ok: "hmac_ok example_hmac" by (simp add: hmac_ok_def example_hmac_def)
  have w: "length (replicate 16 9 :: bytes) = 16" "GetSharedSecret example_wrappers = Inr (replicate 16 9)"
    "rcv_secret ?i = replicate 16 9" "localRoutingView ?i = Some example_view"
    by (simp_all add: GetSharedSecret_def example_wrappers_def fiprrecv_New_def Let_def)
  have k: "example_key \<noteq> []" "length example_key \<le> 65512" "length (Addr_String example_addr) \<le> 65512" "Addr_String example_addr \<noteq> []"
    "BucketExistsAnywhere example_view example_key"
    by code_simp+
  have "example_exchange" by code_simp
  then obtain f' pl raw g rv' r where e: "fiprsend_serialize example_prims example_fragment2 example_tape = (f', Some pl)" "length pl \<le> 65512"
    "DeconstructInnerPayload example_prims pl = Inr raw" "DeconstructPayload example_prims example_wrappers raw = Inr g"
    "RouteFragment (\<lambda>_. replicate 32 5) example_env False example_view example_addr g 2000 = Some (rv', r)" "r \<noteq> NotRouted"
    by (auto simp: example_exchange_def split: prod.splits option.splits sum.splits)
  let ?parse = "\<lambda>b. if b = Addr_String example_addr then Some example_addr else None"
  have p: "?parse (Addr_String example_addr) = Some example_addr" "?parse [] = None" using k(4) by auto
  have t: "True = BucketExistsAnywhere example_view example_key" using k(5) by simp
  obtain toServer toClient where h: "\<And>cs ss. concat cs = toClient \<Longrightarrow> concat ss = toServer \<Longrightarrow>
    (\<exists>c s. fiprsend_RouteFragment example_hmac example_prims example_wrappers (Some (reliable cs [])) example_tape
        example_key example_addr example_fragment2 = ((f', RemoteTaken), Some c) \<and> written c = toServer \<and>
      handleConnection example_hmac example_prims example_wrappers (\<lambda>_. replicate 32 5) example_env False ?parse 2000 (reliable ss [ReadClosed]) ?i =
        Some (rcv_count (\<lambda>m. m\<lparr>AcceptedFragments := AcceptedFragments m + 1\<rparr>) (?i\<lparr>localRoutingView := Some rv'\<rparr>), Some s, ConnAccepted) \<and>
      written s = toClient)"
    using fragment_handover_agrees [OF ok w k(1-3) p t e] unfolding if_True by blast
  have "concat [toClient] = toClient" "concat [toServer] = toServer" by simp_all
  from h [OF this] show ?thesis by blast
qed

end
