(* ===== verification/Metric_Registry.thy ===== *)
theory Metric_Registry
  imports Metric_Types "HOL-Library.AList" "HOL-Library.Product_Lexorder" "HOL-Library.Sublist"
begin

text \<open>
  \<^verbatim>\<open>internal/metrics\<close> (\<^verbatim>\<open>entry.go\<close>, \<^verbatim>\<open>write.go\<close>, \<^verbatim>\<open>prune.go\<close>, \<^verbatim>\<open>search.go\<close>, \<^verbatim>\<open>serialize.go\<close>): the store of
  metrics by time slice, namespace and name. Its maps are association lists with distinct keys in
  some order of iteration; every result holds whatever that order is. The locale \<open>metric_store\<close>
  states the store as a partial function from slices to partial functions; the registry implements
  it. The lock makes every operation atomic.
\<close>

section \<open>Strings\<close>

text \<open>
  The conversions between values and text that the package takes from the standard library are an
  argument; nothing below depends on which functions they are.
\<close>

record go_lib =
  lib_Quote :: "bytes \<Rightarrow> bytes"
  lib_ParseFloat :: "bytes \<Rightarrow> float64 option"
  lib_Sprint :: "metric_raw \<Rightarrow> bytes"
  lib_DurationString :: "int \<Rightarrow> bytes"
  lib_FormatTime :: "int \<Rightarrow> bytes"
  lib_ParseDuration :: "bytes \<Rightarrow> int option"
  lib_ParseTime :: "bytes \<Rightarrow> int option"

fun Join :: "bytes \<Rightarrow> bytes list \<Rightarrow> bytes" where
  "Join sep [] = []"
| "Join sep [s] = s"
| "Join sep (s # t # ss) = s @ sep @ Join sep (t # ss)"

text \<open>\<^verbatim>\<open>strings.Split\<close> at a separator of one byte.\<close>

fun Split :: "byte \<Rightarrow> bytes \<Rightarrow> bytes list" where
  "Split sep [] = [[]]"
| "Split sep (b # bs) = (if b = sep then [] # Split sep bs
     else (case Split sep bs of [] \<Rightarrow> [[b]] | w # ws \<Rightarrow> (b # w) # ws))"

text \<open>
  \<^verbatim>\<open>strings.ToLower\<close>, of which only comparisons with ASCII words are used: the ASCII capitals, and the
  two other letters whose lower case is ASCII (the dotted capital I and the Kelvin sign).
\<close>

fun ToLower :: "bytes \<Rightarrow> bytes" where
  "ToLower [] = []"
| "ToLower (b # bs) =
     (if take 2 (b # bs) = [0xC4, 0xB0] then 0x69 # ToLower (drop 1 bs)
      else if take 3 (b # bs) = [0xE2, 0x84, 0xAA] then 0x6B # ToLower (drop 2 bs)
      else (if 65 \<le> b \<and> b \<le> 90 then b + 32 else b) # ToLower bs)"

abbreviation slash :: byte where "slash \<equiv> 47"
abbreviation bar :: byte where "bar \<equiv> 124"

definition nsKey :: "bytes list \<Rightarrow> bytes" where "nsKey ns = Join [slash] ns"

definition Contains :: "bytes \<Rightarrow> bytes \<Rightarrow> bool" where
  "Contains s t = (t \<in> set (sublists s))"

lemma Split_nonempty [simp]: "Split sep bs \<noteq> []"
  by (induction bs) (auto split: list.splits)

lemma Split_no_sep: "sep \<notin> set s \<Longrightarrow> Split sep s = [s]"
  by (induction s) auto

lemma Split_append: "sep \<notin> set s \<Longrightarrow> Split sep (s @ sep # bs) = s # Split sep bs"
  by (induction s) auto

lemma Split_Join:
  assumes "ns \<noteq> []" and "\<forall>s \<in> set ns. sep \<notin> set s"
  shows "Split sep (Join [sep] ns) = ns"
  using assms by (induction "[sep]" ns rule: Join.induct) (auto simp: Split_no_sep Split_append)

lemma ToLower_lower:
  assumes "\<forall>b \<in> set s. b < 65 \<or> (90 < b \<and> b < 0xC4)"
  shows "ToLower s = s"
  using assms by (induction s) (auto simp: not_le)

section \<open>The registry\<close>

type_synonym nsMap = "(bytes \<times> (bytes \<times> Metric) list) list"
type_synonym Registry = "(int \<times> nsMap) list"

definition Registry_New :: Registry where "Registry_New = []"

text \<open>
  An interval that is not positive assigns the current time first, which the next statement
  overwrites; truncating by it returns the time unchanged.
\<close>

definition NewTimeSlice :: "int \<Rightarrow> int \<Rightarrow> Registry \<Rightarrow> Registry \<times> int" where
  "NewTimeSlice now interval r =
     (let timeSlice = Time_Truncate now interval in
      (if map_of r timeSlice = None then AList.update timeSlice [] r else r, timeSlice))"

definition add_metric :: "Metric \<Rightarrow> nsMap \<Rightarrow> nsMap" where
  "add_metric m nm =
     (let ns = nsKey (mt_Namespace m);
          old = (case map_of nm ns of None \<Rightarrow> [] | Some mm \<Rightarrow> mm) in
      AList.update ns (AList.update (mt_Name m) m old) nm)"

definition Registry_Add :: "int \<Rightarrow> Metric list \<Rightarrow> Registry \<Rightarrow> Registry" where
  "Registry_Add timeSlice ms r =
     (case map_of r timeSlice of
        None \<Rightarrow> r
      | Some nm \<Rightarrow> AList.update timeSlice (fold add_metric ms nm) r)"

definition Prune :: "int \<Rightarrow> int \<Rightarrow> Registry \<Rightarrow> Registry" where
  "Prune currentTime maxAge r = filter (\<lambda>(timeSlice, _). \<not> maxAge < Time_Sub currentTime timeSlice) r"

fun matches_loop :: "nat \<Rightarrow> bytes list \<Rightarrow> bytes list \<Rightarrow> bool" where
  "matches_loop i metricNS [] = True"
| "matches_loop i metricNS (q # qs) = (metricNS ! i = q \<and> matches_loop (i + 1) metricNS qs)"

definition matchesNamespace :: "bytes list \<Rightarrow> bytes list \<Rightarrow> bool" where
  "matchesNamespace metricNS queryNS =
     (if queryNS = [] then True
      else if length metricNS < length queryNS then False
      else matches_loop 0 metricNS queryNS)"

definition in_window :: "int \<Rightarrow> int \<Rightarrow> int \<Rightarrow> bool" where
  "in_window start end ts \<longleftrightarrow> \<not> (start \<noteq> Time_zero \<and> ts < start) \<and> \<not> (end \<noteq> Time_zero \<and> end < ts)"

definition search_slice :: "bytes \<Rightarrow> bytes list \<Rightarrow> nsMap \<Rightarrow> Metric list" where
  "search_slice name pre nm =
     concat (map (\<lambda>(nsStr, metricsMap).
       if matchesNamespace (Split slash nsStr) pre
       then map snd (filter (\<lambda>(metricName, _). name = [] \<or> metricName = name) metricsMap) else []) nm)"

definition Search :: "Registry \<Rightarrow> bytes \<Rightarrow> bytes list \<Rightarrow> int \<Rightarrow> int \<Rightarrow> Metric list" where
  "Search r name pre start end =
     (let timestamps = sort (filter (in_window start end) (map fst r)) in
      concat (map (\<lambda>ts. search_slice name pre (the (map_of r ts))) timestamps))"

section \<open>Aggregation\<close>

fun toFloat64 :: "go_lib \<Rightarrow> metric_raw \<Rightarrow> float64 option" where
  "toFloat64 L (RawFloat64 x) = Some x"
| "toFloat64 L (RawFloat32 x) = Some x"
| "toFloat64 L (RawInt i) = Some (float_of_int i)"
| "toFloat64 L (RawInt64 i) = Some (float_of_int i)"
| "toFloat64 L (RawInt32 i) = Some (float_of_int i)"
| "toFloat64 L (RawUint w) = Some (float_of_int (uint w))"
| "toFloat64 L (RawUint64 w) = Some (float_of_int (uint w))"
| "toFloat64 L (RawUint32 w) = Some (float_of_int (uint w))"
| "toFloat64 L (RawString s) = lib_ParseFloat L s"
| "toFloat64 L RawNil = None"
| "toFloat64 L (RawOther s) = None"

datatype agg_error = NoResults | MixedUnits bytes bytes | NonNumeric metric_raw | UnsupportedAggregation bytes

text \<open>One turn of the switch over the aggregation type; None is its default case.\<close>

definition agg_step :: "bytes \<Rightarrow> nat \<Rightarrow> float64 \<Rightarrow> float64 \<Rightarrow> float64 option" where
  "agg_step aggType idx acc v =
     (if aggType = MetricSum then Some (fadd acc v)
      else if aggType = MetricAvg then Some (fadd acc v)
      else if aggType = MetricMin then
        (let a = (if idx = 0 then v else acc) in Some (if fless v a then v else a))
      else if aggType = MetricMax then
        (let a = (if idx = 0 then v else acc) in Some (if fless a v then v else a))
      else None)"

fun agg_loop :: "go_lib \<Rightarrow> bytes \<Rightarrow> nat \<Rightarrow> float64 \<Rightarrow> bytes \<Rightarrow> Metric list \<Rightarrow> agg_error + float64" where
  "agg_loop L aggType idx acc unit [] = Inr acc"
| "agg_loop L aggType idx acc unit (m # ms) =
     (if unit \<noteq> [] \<and> unit \<noteq> mv_Unit (mt_Value m) then Inl (MixedUnits unit (mv_Unit (mt_Value m)))
      else (case toFloat64 L (mv_Raw (mt_Value m)) of
              None \<Rightarrow> Inl (NonNumeric (mv_Raw (mt_Value m)))
            | Some v \<Rightarrow> (case agg_step aggType idx acc v of
                None \<Rightarrow> Inl (UnsupportedAggregation aggType)
              | Some acc' \<Rightarrow> agg_loop L aggType (idx + 1) acc' (mv_Unit (mt_Value m)) ms)))"

text \<open>The inner loop over the namespaces at one depth; None is one of its two returns.\<close>

fun common_at :: "nat \<Rightarrow> nat \<Rightarrow> bytes \<Rightarrow> bytes list list \<Rightarrow> bytes option" where
  "common_at i j val [] = Some val"
| "common_at i j val (sl # sls) =
     (if length sl \<le> i then None
      else if j = 0 then common_at i 1 (sl ! i) sls
      else if sl ! i \<noteq> val then None
      else common_at i (j + 1) val sls)"

lemma common_at_short: "common_at i j val input = Some v \<Longrightarrow> s \<in> set input \<Longrightarrow> i < length s"
  by (induction i j val input rule: common_at.induct) (auto split: if_splits)

function common_from :: "nat \<Rightarrow> bytes list list \<Rightarrow> bytes list" where
  "common_from i input =
     (if input = [] then []
      else case common_at i 0 [] input of None \<Rightarrow> [] | Some val \<Rightarrow> val # common_from (i + 1) input)"
  by pat_completeness auto

termination
proof (relation "measure (\<lambda>(i, input). length (hd input) - i)")
  fix i input val
  assume "input \<noteq> []" and "common_at i 0 [] input = Some val"
  then have "i < length (hd input)"
    by (intro common_at_short [of i 0 "[]" input]) auto
  then show "((i + 1, input), (i, input)) \<in> measure (\<lambda>(i, input). length (hd input) - i)"
    by simp
qed simp

declare common_from.simps [simp del]

definition deepestCommonNamespace :: "bytes list list \<Rightarrow> bytes list" where
  "deepestCommonNamespace input = common_from 0 input"

text \<open>
  The three readings of the clock are arguments: the default window is the minute before now.
\<close>

definition Aggregate ::
  "go_lib \<Rightarrow> int \<times> int \<times> int \<Rightarrow> Registry \<Rightarrow> bytes \<Rightarrow> bytes \<Rightarrow> bytes list \<Rightarrow> int \<Rightarrow> int \<Rightarrow> agg_error + Metric" where
  "Aggregate L clock r aggType0 name namespace start0 end0 =
     (case clock of (now1, now2, now3) \<Rightarrow>
      let unset = (start0 = Time_zero \<and> end0 = Time_zero);
          start = (if unset then now1 - 60 * 1000000000 else start0);
          end = (if unset then now2 else end0);
          aggType = ToLower aggType0;
          results = Search r name namespace start end in
      if results = [] then Inl NoResults
      else rbind (agg_loop L aggType 0 (FZero False) [] results) (\<lambda>sum.
        let value = (if aggType = MetricAvg then fdiv sum (float_of_int (int (length results))) else sum) in
        Inr \<lparr>mt_Name = mt_Name (hd results),
             mt_Description = bytes_of_string ''Aggregation ('' @ aggType @ bytes_of_string '') of metric ''
               @ lib_Quote L name @ bytes_of_string '' for namespace '' @ lib_Quote L (nsKey namespace),
             mt_Namespace = deepestCommonNamespace (map mt_Namespace results),
             mt_Value = \<lparr>mv_Raw = RawFloat64 value, mv_Unit = mv_Unit (mt_Value (hd results)),
               mv_Interval = mv_Interval (mt_Value (hd results))\<rparr>,
             mt_Type = mt_Type (hd results), mt_Timestamp = now3\<rparr>))"

section \<open>Discovery\<close>

record discover_query =
  dq_name :: bytes
  dq_description :: bytes
  dq_prefix :: "bytes list"
  dq_unit :: bytes
  dq_type :: MetricType

definition discover_filter :: "discover_query \<Rightarrow> Metric \<Rightarrow> bool" where
  "discover_filter q m \<longleftrightarrow>
     \<not> (dq_name q \<noteq> [] \<and> \<not> Contains (mt_Name m) (dq_name q)) \<and>
     \<not> (dq_description q \<noteq> [] \<and> \<not> Contains (mt_Description m) (dq_description q)) \<and>
     \<not> (dq_unit q \<noteq> [] \<and> mv_Unit (mt_Value m) \<noteq> dq_unit q) \<and>
     \<not> (dq_type q \<noteq> [] \<and> mt_Type m \<noteq> dq_type q)"

definition discover_key :: "bytes \<Rightarrow> Metric \<Rightarrow> bytes" where
  "discover_key nsStr m = Join [bar] [nsStr, mt_Name m, mt_Type m, mv_Unit (mt_Value m)]"

definition discovered :: "Metric \<Rightarrow> Metric" where
  "discovered m = \<lparr>mt_Name = mt_Name m, mt_Description = mt_Description m, mt_Namespace = mt_Namespace m,
     mt_Value = \<lparr>mv_Raw = RawNil, mv_Unit = mv_Unit (mt_Value m), mv_Interval = 0\<rparr>,
     mt_Type = mt_Type m, mt_Timestamp = Time_zero\<rparr>"

definition discover_see :: "bytes \<Rightarrow> Metric \<Rightarrow> (bytes \<times> Metric) list \<Rightarrow> (bytes \<times> Metric) list" where
  "discover_see nsStr m seen =
     (case map_of seen (discover_key nsStr m) of
        Some _ \<Rightarrow> seen
      | None \<Rightarrow> AList.update (discover_key nsStr m) (discovered m) seen)"

definition discover_ns :: "discover_query \<Rightarrow> bytes \<times> (bytes \<times> Metric) list \<Rightarrow> (bytes \<times> Metric) list \<Rightarrow> (bytes \<times> Metric) list" where
  "discover_ns q e seen =
     (if matchesNamespace (Split slash (fst e)) (dq_prefix q)
      then fold (\<lambda>(_, m) seen. if discover_filter q m then discover_see (fst e) m seen else seen) (snd e) seen
      else seen)"

text \<open>
  The unstable sort leaves the order of results with the same name and namespace open; here it is
  the order in which they were found.
\<close>

definition Discover :: "Registry \<Rightarrow> discover_query \<Rightarrow> Metric list" where
  "Discover r q =
     sort_key (\<lambda>m. (mt_Name m, nsKey (mt_Namespace m)))
       (map snd (fold (\<lambda>(_, nm) seen. fold (discover_ns q) nm seen) r []))"

section \<open>Export\<close>

record JMetric =
  jm_Name :: bytes
  jm_Description :: bytes
  jm_Namespace :: bytes
  jm_Raw :: bytes
  jm_Unit :: bytes
  jm_Interval :: bytes
  jm_Type :: bytes
  jm_Timestamp :: bytes

definition Convert :: "go_lib \<Rightarrow> Metric \<Rightarrow> JMetric" where
  "Convert L m = \<lparr>jm_Name = mt_Name m, jm_Description = mt_Description m,
     jm_Namespace = nsKey (mt_Namespace m), jm_Raw = lib_Sprint L (mv_Raw (mt_Value m)),
     jm_Unit = mv_Unit (mt_Value m), jm_Interval = lib_DurationString L (mv_Interval (mt_Value m)),
     jm_Type = mt_Type m, jm_Timestamp = lib_FormatTime L (mt_Timestamp m)\<rparr>"

section \<open>The interface of a metric store\<close>

text \<open>
  A client of the store sees slices of time, each with one metric per namespace and name. An answer
  to a search lists every stored metric that matches exactly once, oldest slice first. A slice matches when it
  is neither before the start nor after the end, where these are set, a namespace when the one asked for is a prefix of it.
\<close>

type_synonym store = "int \<rightharpoonup> (bytes \<times> bytes \<rightharpoonup> Metric)"

definition wanted :: "store \<Rightarrow> bytes \<Rightarrow> bytes list \<Rightarrow> int \<Rightarrow> int \<Rightarrow> (int \<times> bytes \<times> bytes) set" where
  "wanted st name pre start end = {(t, ns, n). (start = Time_zero \<or> start \<le> t) \<and> (end = Time_zero \<or> t \<le> end) \<and>
     prefix pre (Split slash ns) \<and> (name = [] \<or> n = name) \<and>
     (\<exists>f. st t = Some f \<and> f (ns, n) \<noteq> None)}"

definition answers :: "store \<Rightarrow> bytes \<Rightarrow> bytes list \<Rightarrow> int \<Rightarrow> int \<Rightarrow> Metric list \<Rightarrow> bool" where
  "answers st name pre start end ms \<longleftrightarrow>
     (\<exists>keys. distinct keys \<and> sorted (map fst keys) \<and> set keys = wanted st name pre start end \<and>
        ms = map (\<lambda>(t, ns, n). the (the (st t) (ns, n))) keys)"

datatype store_event = OpenSlice int int | AddMetrics int "Metric list" | PruneOld int int

definition put :: "Metric \<Rightarrow> (bytes \<times> bytes \<rightharpoonup> Metric) \<Rightarrow> (bytes \<times> bytes \<rightharpoonup> Metric)" where
  "put m f = f((nsKey (mt_Namespace m), mt_Name m) \<mapsto> m)"

fun spec_step :: "store_event \<Rightarrow> store \<Rightarrow> store" where
  "spec_step (OpenSlice now interval) st =
     (if st (Time_Truncate now interval) = None then st(Time_Truncate now interval \<mapsto> Map.empty) else st)"
| "spec_step (AddMetrics t ms) st = (case st t of None \<Rightarrow> st | Some f \<Rightarrow> st(t \<mapsto> fold put ms f))"
| "spec_step (PruneOld now maxAge) st = (\<lambda>t. if maxAge < Time_Sub now t then None else st t)"

locale metric_store =
  fixes inv :: "'r \<Rightarrow> bool"
    and abs :: "'r \<Rightarrow> store"
    and step :: "store_event \<Rightarrow> 'r \<Rightarrow> 'r"
    and search :: "'r \<Rightarrow> bytes \<Rightarrow> bytes list \<Rightarrow> int \<Rightarrow> int \<Rightarrow> Metric list"
  assumes step_inv: "inv r \<Longrightarrow> inv (step ev r)"
    and step_abs: "inv r \<Longrightarrow> abs (step ev r) = spec_step ev (abs r)"
    and search_answers: "inv r \<Longrightarrow> answers (abs r) name pre start end (search r name pre start end)"
begin

lemma run_refines:
  assumes "inv r"
  shows "inv (fold step evs r) \<and> abs (fold step evs r) = fold spec_step evs (abs r)"
  using assms by (induction evs arbitrary: r) (simp_all add: step_inv step_abs)

lemma search_after_run:
  assumes "inv r"
  shows "answers (fold spec_step evs (abs r)) name pre start end (search (fold step evs r) name pre start end)"
  using run_refines [OF assms, of evs] search_answers [of "fold step evs r"] by simp

end

subsection \<open>The registry implements it\<close>

definition ns_inv :: "nsMap \<Rightarrow> bool" where
  "ns_inv nm \<longleftrightarrow> distinct (map fst nm) \<and> (\<forall>e \<in> set nm. distinct (map fst (snd e)))"

definition reg_inv :: "Registry \<Rightarrow> bool" where
  "reg_inv r \<longleftrightarrow> distinct (map fst r) \<and> (\<forall>e \<in> set r. ns_inv (snd e))"

definition ns_abs :: "nsMap \<Rightarrow> bytes \<times> bytes \<rightharpoonup> Metric" where
  "ns_abs nm = (\<lambda>(ns, n). case map_of nm ns of None \<Rightarrow> None | Some mm \<Rightarrow> map_of mm n)"

definition reg_abs :: "Registry \<Rightarrow> store" where
  "reg_abs r = (\<lambda>t. map_option ns_abs (map_of r t))"

fun registry_step :: "store_event \<Rightarrow> Registry \<Rightarrow> Registry" where
  "registry_step (OpenSlice now interval) r = fst (NewTimeSlice now interval r)"
| "registry_step (AddMetrics t ms) r = Registry_Add t ms r"
| "registry_step (PruneOld now maxAge) r = Prune now maxAge r"

lemma update_inv:
  assumes "distinct (map fst al)" and "\<forall>e \<in> set al. P (snd e)" and "P v"
  shows "distinct (map fst (AList.update k v al))" and "\<forall>e \<in> set (AList.update k v al). P (snd e)"
  using assms
  subgoal by (simp add: distinct_update)
  subgoal using assms by (induction al) (auto split: if_splits)
  done

lemma ns_inv_add_metric:
  assumes "ns_inv nm"
  shows "ns_inv (add_metric m nm)"
proof -
  let ?old = "case map_of nm (nsKey (mt_Namespace m)) of None \<Rightarrow> [] | Some mm \<Rightarrow> mm"
  have "distinct (map fst ?old)"
    using assms by (auto simp: ns_inv_def dest!: map_of_SomeD split: option.splits)
  then have "distinct (map fst (AList.update (mt_Name m) m ?old))"
    by (simp add: distinct_update)
  with assms show ?thesis
    using update_inv [of nm "\<lambda>mm. distinct (map fst mm)" "AList.update (mt_Name m) m ?old"]
    by (simp add: ns_inv_def add_metric_def Let_def)
qed

lemma ns_inv_fold_add: "ns_inv nm \<Longrightarrow> ns_inv (fold add_metric ms nm)"
  by (induction ms arbitrary: nm) (simp_all add: ns_inv_add_metric)

lemma ns_abs_add_metric: "ns_abs (add_metric m nm) = put m (ns_abs nm)"
  by (auto simp: ns_abs_def add_metric_def put_def Let_def update_conv fun_eq_iff split: option.splits)

lemma ns_abs_fold_add: "ns_abs (fold add_metric ms nm) = fold put ms (ns_abs nm)"
  by (induction ms arbitrary: nm) (simp_all add: ns_abs_add_metric)

lemma map_of_filter_key:
  "map_of (filter (\<lambda>(k, _). P k) al) k = (if P k then map_of al k else None)"
  by (induction al) auto

lemma reg_inv_step:
  assumes "reg_inv r"
  shows "reg_inv (registry_step ev r)"
proof (cases ev)
  case (OpenSlice now interval)
  have "ns_inv []"
    by (simp add: ns_inv_def)
  with assms OpenSlice show ?thesis
    using update_inv [of r ns_inv "[]"] by (simp add: reg_inv_def NewTimeSlice_def Let_def)
next
  case (AddMetrics t ms)
  show ?thesis
  proof (cases "map_of r t")
    case (Some nm)
    then have "ns_inv (fold add_metric ms nm)"
      using assms by (fastforce simp: reg_inv_def dest: map_of_SomeD intro: ns_inv_fold_add)
    with assms AddMetrics Some show ?thesis
      using update_inv [of r ns_inv "fold add_metric ms nm"] by (simp add: reg_inv_def Registry_Add_def)
  qed (use assms AddMetrics in \<open>simp add: Registry_Add_def\<close>)
next
  case (PruneOld now maxAge)
  then show ?thesis
    using assms by (auto simp: reg_inv_def Prune_def distinct_map_filter)
qed

lemma reg_abs_step:
  "reg_abs (registry_step ev r) = spec_step ev (reg_abs r)"
proof (cases ev)
  case (OpenSlice now interval)
  then show ?thesis
    by (auto simp: reg_abs_def NewTimeSlice_def Let_def update_conv ns_abs_def fun_eq_iff)
next
  case (AddMetrics t ms)
  then show ?thesis
    by (auto simp: reg_abs_def Registry_Add_def update_conv ns_abs_fold_add fun_eq_iff split: option.splits)
next
  case (PruneOld now maxAge)
  have "map_of (Prune now maxAge r) t = (if maxAge < Time_Sub now t then None else map_of r t)" for t
    using map_of_filter_key [of "\<lambda>k. \<not> maxAge < Time_Sub now k" r t] by (simp add: Prune_def)
  with PruneOld show ?thesis
    by (auto simp: reg_abs_def fun_eq_iff)
qed

text \<open>The keys under a key, for both levels of nesting.\<close>

definition nested :: "'k list \<Rightarrow> ('k \<Rightarrow> 'l list) \<Rightarrow> ('k \<times> 'l) list" where
  "nested ks f = concat (map (\<lambda>k. map (Pair k) (f k)) ks)"

lemma set_nested [simp]: "set (nested ks f) = {(k, l). k \<in> set ks \<and> l \<in> set (f k)}"
  by (auto simp: nested_def)

lemma distinct_nested:
  "distinct ks \<Longrightarrow> (\<And>k. k \<in> set ks \<Longrightarrow> distinct (f k)) \<Longrightarrow> distinct (nested ks f)"
  by (induction ks) (auto simp: nested_def distinct_map inj_on_def)

lemma sorted_nested: "sorted ks \<Longrightarrow> sorted (map fst (nested ks f))"
  by (induction ks) (auto simp: nested_def sorted_append comp_def map_replicate_const)

lemma key_iff: "k \<in> fst ` set al \<longleftrightarrow> (\<exists>v. map_of al k = Some v)"
  by (metis map_of_eq_None_iff not_None_eq)

lemma map_nested: "map g (nested ks f) = concat (map (\<lambda>k. map (\<lambda>l. g (k, l)) (f k)) ks)"
  by (simp add: nested_def map_concat comp_def)

definition slice_keys :: "bytes \<Rightarrow> bytes list \<Rightarrow> nsMap \<Rightarrow> (bytes \<times> bytes) list" where
  "slice_keys name pre nm =
     nested (filter (\<lambda>ns. matchesNamespace (Split slash ns) pre) (map fst nm))
       (\<lambda>ns. filter (\<lambda>n. name = [] \<or> n = name) (map fst (the (map_of nm ns))))"

lemma map_snd_filter_keys:
  "distinct (map fst al) \<Longrightarrow> map snd (filter (\<lambda>(k, _). P k) al) = map (the \<circ> map_of al) (filter P (map fst al))"
  by (induction al) (auto simp: comp_def image_iff intro!: map_cong)

lemma concat_map_if: "concat (map (\<lambda>x. if P x then f x else []) xs) = concat (map f (filter P xs))"
  by (induction xs) auto

lemma ns_inv_lookup:
  assumes "ns_inv nm" and "ns \<in> fst ` set nm"
  obtains mm where "map_of nm ns = Some mm" and "(ns, mm) \<in> set nm" and "distinct (map fst mm)"
  using assms by (force simp: ns_inv_def)

lemma search_slice_entry:
  assumes "ns_inv nm" and "(ns, mm) \<in> set nm"
  shows "map snd (filter (\<lambda>(n, _). name = [] \<or> n = name) mm) =
    map (\<lambda>n. the (ns_abs nm (ns, n))) (filter (\<lambda>n. name = [] \<or> n = name) (map fst (the (map_of nm ns))))"
proof -
  have "map_of nm ns = Some mm" and "distinct (map fst mm)"
    using assms by (auto simp: ns_inv_def)
  then show ?thesis
    using map_snd_filter_keys [of mm "\<lambda>n. name = [] \<or> n = name"] by (simp add: ns_abs_def comp_def)
qed

lemma search_slice_keys:
  assumes "ns_inv nm"
  shows "search_slice name pre nm = map (\<lambda>k. the (ns_abs nm k)) (slice_keys name pre nm)"
proof -
  let ?hit = "\<lambda>ns. matchesNamespace (Split slash ns) pre"
  have "search_slice name pre nm =
      concat (map (\<lambda>(_, mm). map snd (filter (\<lambda>(n, _). name = [] \<or> n = name) mm)) (filter (?hit \<circ> fst) nm))"
    unfolding search_slice_def concat_map_if [symmetric] by (rule arg_cong [where f = concat]) auto
  also have "\<dots> = concat (map (\<lambda>e. map (\<lambda>n. the (ns_abs nm (fst e, n)))
      (filter (\<lambda>n. name = [] \<or> n = name) (map fst (the (map_of nm (fst e)))))) (filter (?hit \<circ> fst) nm))"
    using search_slice_entry [OF assms] by (intro arg_cong [where f = concat] map_cong) auto
  also have "\<dots> = map (\<lambda>k. the (ns_abs nm k)) (slice_keys name pre nm)"
    by (simp add: slice_keys_def map_nested filter_map comp_def)
  finally show ?thesis .
qed

lemma distinct_slice_keys: "ns_inv nm \<Longrightarrow> distinct (slice_keys name pre nm)"
  unfolding slice_keys_def
  by (intro distinct_nested distinct_filter) (auto simp: ns_inv_def elim!: ns_inv_lookup)

lemma set_slice_keys:
  "set (slice_keys name pre nm) =
    {(ns, n). matchesNamespace (Split slash ns) pre \<and> (name = [] \<or> n = name) \<and> ns_abs nm (ns, n) \<noteq> None}"
  by (auto simp: slice_keys_def ns_abs_def key_iff split: option.splits)

lemma matches_loop_take:
  "i + length qs \<le> length ns \<Longrightarrow> matches_loop i ns qs \<longleftrightarrow> take (length qs) (drop i ns) = qs"
  by (induction i ns qs rule: matches_loop.induct) (auto simp: Cons_nth_drop_Suc [symmetric])

lemma matchesNamespace_prefix: "matchesNamespace ns qs \<longleftrightarrow> prefix qs ns"
  using matches_loop_take [of 0 qs ns]
  by (auto simp: matchesNamespace_def prefix_def take_eq_Nil) (metis append_take_drop_id)

lemma in_window_bounds: "in_window start end t \<longleftrightarrow> (start = Time_zero \<or> start \<le> t) \<and> (end = Time_zero \<or> t \<le> end)"
  by (auto simp: in_window_def)

lemma Search_answers:
  assumes "reg_inv r"
  shows "answers (reg_abs r) name pre start end (Search r name pre start end)"
proof -
  let ?ts = "sort (filter (in_window start end) (map fst r))"
  let ?nm = "\<lambda>t. the (map_of r t)"
  let ?keys = "nested ?ts (\<lambda>t. slice_keys name pre (?nm t))"
  have inv: "ns_inv nm" if "map_of r t = Some nm" for t nm
    using that assms by (auto simp: reg_inv_def dest!: map_of_SomeD)
  have "distinct ?keys"
    using assms inv
    by (intro distinct_nested distinct_slice_keys) (auto simp: reg_inv_def key_iff)
  moreover have "sorted (map fst ?keys)"
    by (intro sorted_nested) simp
  moreover have "set ?keys = wanted (reg_abs r) name pre start end"
    using inv by (auto simp: wanted_def reg_abs_def set_slice_keys key_iff matchesNamespace_prefix in_window_bounds)
  moreover have "Search r name pre start end = map (\<lambda>(t, ns, n). the (the (reg_abs r t) (ns, n))) ?keys"
    using inv by (auto simp: Search_def Let_def map_nested reg_abs_def search_slice_keys comp_def key_iff
      intro!: arg_cong [where f = concat] map_cong)
  ultimately show ?thesis
    by (auto simp: answers_def)
qed

interpretation registry: metric_store reg_inv reg_abs registry_step Search
  by unfold_locales (simp_all add: reg_inv_step reg_abs_step Search_answers)

section \<open>Facts about single operations\<close>

lemma common_at_tail:
  "0 < j \<Longrightarrow> common_at i j val input =
     (if \<forall>s \<in> set input. i < length s \<and> s ! i = val then Some val else None)"
  by (induction i j val input rule: common_at.induct) auto

lemma common_at_head:
  assumes "input \<noteq> []"
  shows "common_at i 0 val0 input =
     (if \<forall>s \<in> set input. i < length s \<and> s ! i = hd input ! i then Some (hd input ! i) else None)"
  using assms by (cases input) (auto simp: common_at_tail)

lemma common_from_lcp:
  assumes "input \<noteq> []" and "\<forall>s \<in> set input. i \<le> length s"
  shows "common_from i input = Longest_common_prefix (drop i ` set input)"
  using assms
proof (induction i input rule: common_from.induct)
  case (1 i input)
  show ?case
  proof (cases "\<forall>s \<in> set input. i < length s \<and> s ! i = hd input ! i")
    case True
    have at: "common_at i 0 [] input = Some (hd input ! i)"
      unfolding common_at_head [OF "1.prems"(1)] using True by (rule if_P)
    have "drop i s = hd input ! i # drop (i + 1) s" if "s \<in> set input" for s
      using True that Cons_nth_drop_Suc [of i s] by simp
    then have "drop i ` set input = (#) (hd input ! i) ` (drop (i + 1) ` set input)"
      unfolding image_image by (intro image_cong) simp_all
    moreover have "common_from i input = hd input ! i # common_from (i + 1) input"
      using at "1.prems" by (subst common_from.simps) simp
    moreover have "common_from (i + 1) input = Longest_common_prefix (drop (i + 1) ` set input)"
    proof (rule "1.IH" [OF _ at])
      show "\<forall>s \<in> set input. i + 1 \<le> length s"
        using True by (metis Suc_eq_plus1 Suc_leI)
    qed (use "1.prems" in auto)
    ultimately show ?thesis
      using "1.prems" by (simp add: Longest_common_prefix_image_Cons)
  next
    case False
    have "Longest_common_prefix (drop i ` set input) = []"
    proof (rule ccontr)
      let ?p = "Longest_common_prefix (drop i ` set input)"
      assume "?p \<noteq> []"
      have "i < length s \<and> s ! i = hd ?p" if "s \<in> set input" for s
      proof -
        have "prefix ?p (drop i s)"
          using that by (intro Longest_common_prefix_prefix) simp
        then show ?thesis
          using \<open>?p \<noteq> []\<close> by (metis append_is_Nil_conv drop_eq_Nil hd_append2 hd_drop_conv_nth leI prefix_def)
      qed
      with False "1.prems" show False
        by (metis hd_in_set)
    qed
    moreover have "common_at i 0 [] input = None"
      unfolding common_at_head [OF "1.prems"(1)] using False by (rule if_not_P)
    ultimately show ?thesis
      by (subst common_from.simps) simp
  qed
qed

text \<open>Every step of an aggregation over counters stays on exact integers.\<close>

definition raws :: "Metric list \<Rightarrow> metric_raw list" where
  "raws ms = map (mv_Raw \<circ> mt_Value) ms"

text \<open>
  What is wrong with the metric at a position: its unit differs from the one before it, where that is not empty, its value is
  not a number, or the aggregation does not exist. \<open>u\<close> is the unit before the first metric.
\<close>

definition metric_units :: "Metric list \<Rightarrow> bytes list" where
  "metric_units ms = map (mv_Unit \<circ> mt_Value) ms"

fun not_number :: "go_lib \<Rightarrow> metric_raw \<Rightarrow> bool" where
  "not_number L (RawString s) = (lib_ParseFloat L s = None)"
| "not_number L RawNil = True"
| "not_number L (RawOther _) = True"
| "not_number L _ = False"

definition agg_fault :: "go_lib \<Rightarrow> bytes \<Rightarrow> bytes \<Rightarrow> Metric list \<Rightarrow> nat \<Rightarrow> agg_error option" where
  "agg_fault L t u ms i =
     (let before = (u # metric_units ms) ! i; raw = raws ms ! i in
      if before \<noteq> [] \<and> before \<noteq> metric_units ms ! i then Some (MixedUnits before (metric_units ms ! i))
      else if not_number L raw then Some (NonNumeric raw)
      else if t \<notin> {MetricSum, MetricAvg, MetricMin, MetricMax} then Some (UnsupportedAggregation t)
      else None)"

lemma toFloat64_None: "toFloat64 L raw = None \<longleftrightarrow> not_number L raw"
  by (cases raw) auto

lemma agg_fault_Suc: "agg_fault L t u (m # ms) (Suc i) = agg_fault L t (mv_Unit (mt_Value m)) ms i"
  by (simp only: agg_fault_def metric_units_def raws_def list.map nth_Cons_Suc comp_apply)

lemma agg_fault_0:
  "agg_fault L t u (m # ms) 0 =
     (if u \<noteq> [] \<and> u \<noteq> mv_Unit (mt_Value m) then Some (MixedUnits u (mv_Unit (mt_Value m)))
      else if not_number L (mv_Raw (mt_Value m)) then Some (NonNumeric (mv_Raw (mt_Value m)))
      else if t \<notin> {MetricSum, MetricAvg, MetricMin, MetricMax} then Some (UnsupportedAggregation t) else None)"
  by (simp add: agg_fault_def metric_units_def raws_def Let_def)

lemma agg_step_None: "agg_step t idx acc v = None \<longleftrightarrow> t \<notin> {MetricSum, MetricAvg, MetricMin, MetricMax}"
  by (simp add: agg_step_def Let_def)

lemma agg_loop_fault:
  assumes "i < length ms" and "\<forall>j<i. agg_fault L t u ms j = None" and "agg_fault L t u ms i = Some e"
  shows "agg_loop L t idx acc u ms = Inl e"
  using assms
proof (induction ms arbitrary: idx acc u i)
  case (Cons m ms)
  show ?case
  proof (cases i)
    case 0
    let ?raw = "mv_Raw (mt_Value m)"
    show ?thesis
    proof (cases "toFloat64 L ?raw")
      case None
      then show ?thesis using Cons.prems(3) 0 toFloat64_None [of L ?raw] by (auto simp: agg_fault_0 split: if_splits)
    next
      case (Some v)
      then have "\<not> not_number L ?raw" using toFloat64_None [of L ?raw] by simp
      then show ?thesis
        using Cons.prems(3) 0 Some agg_step_None [of t idx acc v] by (auto simp: agg_fault_0 split: if_splits option.splits)
    qed
  next
    case (Suc k)
    have ok: "agg_fault L t u (m # ms) 0 = None" using Cons.prems(2) Suc by simp
    then obtain v where v: "toFloat64 L (mv_Raw (mt_Value m)) = Some v"
      using toFloat64_None [of L "mv_Raw (mt_Value m)"] by (auto simp: agg_fault_0 split: if_splits)
    obtain acc' where "agg_step t idx acc v = Some acc'"
      using ok agg_step_None [of t idx acc v] by (auto simp: agg_fault_0 split: if_splits)
    moreover have "agg_loop L t (idx + 1) acc' (mv_Unit (mt_Value m)) ms = Inl e"
    proof (rule Cons.IH [of k])
      show "\<forall>j<k. agg_fault L t (mv_Unit (mt_Value m)) ms j = None"
        using Cons.prems(2) Suc agg_fault_Suc [of L t u m ms] by (metis Suc_less_eq)
    qed (use Cons.prems(1,3) Suc agg_fault_Suc [of L t u m ms] in auto)
    ultimately show ?thesis using ok v by (auto simp: agg_fault_0 split: if_splits)
  qed
qed simp

lemma agg_loop_fold:
  assumes "\<forall>i<length ms. agg_fault L aggType u ms i = None"
    and "raws ms = map RawUint64 ws"
    and "\<And>k. k < length ws \<Longrightarrow> agg_step aggType (idx + k) (fint False (acc k))
        (float_of_int (uint (ws ! k))) = Some (fint False (acc (Suc k)))"
  shows "agg_loop L aggType idx (fint False (acc 0)) u ms = Inr (fint False (acc (length ws)))"
  using assms
proof (induction ms arbitrary: idx acc u ws)
  case (Cons m ms)
  then obtain w ws' where ws: "ws = w # ws'" "mv_Raw (mt_Value m) = RawUint64 w" "raws ms = map RawUint64 ws'"
    by (cases ws) (auto simp: raws_def)
  have ok: "agg_fault L aggType u (m # ms) 0 = None" using Cons.prems(1) by (metis length_greater_0_conv list.distinct(1))
  have step: "agg_step aggType idx (fint False (acc 0)) (float_of_int (uint w)) = Some (fint False (acc 1))"
    using Cons.prems(3) [of 0] ws by simp
  have "agg_step aggType (Suc idx + k) (fint False (acc (Suc k))) (float_of_int (uint (ws' ! k))) =
      Some (fint False (acc (Suc (Suc k))))" if "k < length ws'" for k
    using Cons.prems(3) [of "Suc k"] that ws by simp
  moreover have "\<forall>i<length ms. agg_fault L aggType (mv_Unit (mt_Value m)) ms i = None"
    using Cons.prems(1) agg_fault_Suc [of L aggType u m ms] by (metis Suc_less_eq length_Cons)
  ultimately have "agg_loop L aggType (Suc idx) (fint False (acc (Suc 0))) (mv_Unit (mt_Value m)) ms =
      Inr (fint False (acc (Suc (length ws'))))"
    using ws by (intro Cons.IH [where acc = "\<lambda>k. acc (Suc k)"]) auto
  then show ?case
    using ok ws step by (auto simp: agg_fault_0 split: if_splits)
qed (auto simp: raws_def)

lemma agg_names_distinct [simp]:
  "MetricSum \<noteq> MetricAvg" "MetricSum \<noteq> MetricMin" "MetricSum \<noteq> MetricMax"
  "MetricAvg \<noteq> MetricSum" "MetricAvg \<noteq> MetricMin" "MetricAvg \<noteq> MetricMax"
  "MetricMin \<noteq> MetricSum" "MetricMin \<noteq> MetricAvg" "MetricMin \<noteq> MetricMax"
  "MetricMax \<noteq> MetricSum" "MetricMax \<noteq> MetricAvg" "MetricMax \<noteq> MetricMin"
  by code_simp+

text \<open>What an aggregation means, over mathematical integers.\<close>

definition agg_ref :: "bytes \<Rightarrow> int list \<Rightarrow> int" where
  "agg_ref aggType ns =
     (if ns = [] then 0
      else if aggType = MetricMin then Min (set ns)
      else if aggType = MetricMax then Max (set ns)
      else sum_list ns)"

lemma agg_ref_snoc:
  "agg_ref t (ns @ [n]) =
     (if ns = [] then n
      else if t = MetricMin then min (agg_ref t ns) n
      else if t = MetricMax then max (agg_ref t ns) n
      else agg_ref t ns + n)"
  by (simp add: agg_ref_def Min.insert_remove Max.insert_remove min.commute max.commute)

lemma sum_list_take_le:
  fixes ws :: "64 word list"
  shows "sum_list (map uint (take k ws)) \<le> sum_list (map uint ws)"
proof -
  have "sum_list (map uint ws) = sum_list (map uint (take k ws)) + sum_list (map uint (drop k ws))"
    by (metis append_take_drop_id map_append sum_list_append)
  moreover have "0 \<le> sum_list (map uint (drop k ws))"
    by (intro sum_list_nonneg) auto
  ultimately show ?thesis by simp
qed

lemma exact_partial:
  fixes ws :: "64 word list"
  assumes "sum_list (map uint ws) \<le> 2 ^ 53"
  shows "exact (sum_list (map uint (take k ws)))" and "k < length ws \<Longrightarrow> exact (uint (ws ! k))"
proof -
  have pos: "0 \<le> sum_list (map uint (take j ws))" for j
    by (intro sum_list_nonneg) auto
  then show "exact (sum_list (map uint (take k ws)))"
    using assms sum_list_take_le [of k ws] by (simp add: exact_def)
  show "exact (uint (ws ! k))" if "k < length ws"
    using assms sum_list_take_le [of "Suc k" ws] pos [of k] that
    by (simp add: exact_def take_Suc_conv_app_nth)
qed

lemma agg_step_exact:
  assumes "t \<in> {MetricSum, MetricAvg, MetricMin, MetricMax}"
    and "sum_list (map uint ws) \<le> 2 ^ 53" and "k < length ws"
  shows "agg_step t k (fint False (agg_ref t (map uint (take k ws)))) (float_of_int (uint (ws ! k :: 64 word))) =
    Some (fint False (agg_ref t (map uint (take (Suc k) ws))))"
proof -
  note ex = exact_partial [OF assms(2)]
  have v: "float_of_int (uint (ws ! k)) = fint False (uint (ws ! k))"
    using ex(2) [OF assms(3)] by (rule float_of_int_exact)
  have s: "map uint (take (Suc k) ws) = map uint (take k ws) @ [uint (ws ! k)]"
    using assms(3) by (simp add: take_Suc_conv_app_nth)
  have nil: "map uint (take k ws) = [] \<longleftrightarrow> k = 0"
    using assms(3) by auto
  show ?thesis
  proof (cases "t = MetricSum \<or> t = MetricAvg")
    case True
    have "fadd (fint False (sum_list (map uint (take k ws)))) (fint False (uint (ws ! k))) =
        fint False (sum_list (map uint (take (Suc k) ws)))"
      using ex(1) [of "Suc k"] s by (simp add: fadd_fint)
    with True show ?thesis
      by (auto simp: agg_step_def v agg_ref_def s)
  next
    case False
    then show ?thesis
      using assms(1) nil by (auto simp: agg_step_def v s agg_ref_snoc min_def max_def Let_def)
  qed
qed

lemma agg_loop_exact:
  assumes "\<forall>i<length ms. agg_fault L t [] ms i = None" and "raws ms = map RawUint64 ws"
    and "t \<in> {MetricSum, MetricAvg, MetricMin, MetricMax}" and "sum_list (map uint ws) \<le> 2 ^ 53"
  shows "agg_loop L t 0 (FZero False) [] ms = Inr (fint False (agg_ref t (map uint ws)))"
proof -
  have "agg_loop L t 0 (fint False (agg_ref t (map uint (take 0 ws)))) [] ms =
      Inr (fint False (agg_ref t (map uint (take (length ws) ws))))"
    by (rule agg_loop_fold [where acc = "\<lambda>k. agg_ref t (map uint (take k ws))"])
      (use assms agg_step_exact [OF assms(3,4)] in auto)
  then show ?thesis
    by (simp add: agg_ref_def fint_def)
qed

section \<open>Properties\<close>

text \<open>
  C25. After any sequence of opened slices, added metrics and prunings, a search lists exactly the
  metrics that the abstract store holds under the name asked for (any, if it is empty), under a namespace of which the one asked for is a
  prefix, and in a slice from the start to the end asked for, both included and either left open by the zero time, each
  once and oldest slice first: the last metric added under a slice, namespace and name, in slices
  that were opened before and not pruned since.
\<close>

theorem registry_search_exact:
  "answers (fold spec_step evs Map.empty) name pre start end
     (Search (fold registry_step evs Registry_New) name pre start end)"
proof -
  have "reg_inv Registry_New" and "reg_abs Registry_New = Map.empty"
    by (simp_all add: reg_inv_def reg_abs_def Registry_New_def)
  then show ?thesis
    using registry.search_after_run [of Registry_New evs name pre start "end"] by simp
qed


definition example_metric :: "string \<Rightarrow> nat \<Rightarrow> Metric" where
  "example_metric worker w = mk_metric (map bytes_of_string [''Receiver'', ''Processor'', worker]) 1000 5 ''depth'' ''items''
     (RawUint64 (of_nat w)) ''count'' Gauge"

definition example_lib :: go_lib where
  "example_lib = \<lparr>lib_Quote = id, lib_ParseFloat = \<lambda>_. None, lib_Sprint = \<lambda>_. [], lib_DurationString = \<lambda>_. [],
     lib_FormatTime = \<lambda>_. [], lib_ParseDuration = \<lambda>_. None, lib_ParseTime = \<lambda>_. None\<rparr>"

definition example_registry :: Registry where
  "example_registry = fold registry_step [OpenSlice 1000 1000, AddMetrics (Time_Truncate 1000 1000)
     [example_metric ''0'' 30, example_metric ''1'' 12]] Registry_New"

text \<open>Two counters, and behind them a metric without a value.\<close>

definition faulty_registry :: Registry where
  "faulty_registry = Registry_Add (Time_Truncate 1000 1000)
     [(example_metric ''2'' 0)\<lparr>mt_Value := \<lparr>mv_Raw = RawNil, mv_Unit = bytes_of_string ''count'', mv_Interval = 1000\<rparr>\<rparr>] example_registry"


end
