(* ===== verification/Go_Text.thy ===== *)
theory Go_Text
  imports Go_Numeric
begin

text \<open>
  The text functions of Go's library that the parsers use, on byte strings: trimming, searching and splitting
  (\<^verbatim>\<open>strings\<close>) and the parsing of integers (\<^verbatim>\<open>strconv\<close>), with the round trip of printed numbers.
\<close>

unbundle bit_operations_syntax

section \<open>Trimming and splitting\<close>

text \<open>
  The encodings of the white space of Unicode. A text starts (ends) with a white-space character exactly
  when it starts (ends) with one of them.
\<close>

definition space_runes :: "bytes list" where
  "space_runes = [[9], [10], [11], [12], [13], [32], [0xC2, 0x85], [0xC2, 0xA0], [0xE1, 0x9A, 0x80],
     [0xE2, 0x80, 0x80], [0xE2, 0x80, 0x81], [0xE2, 0x80, 0x82], [0xE2, 0x80, 0x83], [0xE2, 0x80, 0x84], [0xE2, 0x80, 0x85],
     [0xE2, 0x80, 0x86], [0xE2, 0x80, 0x87], [0xE2, 0x80, 0x88], [0xE2, 0x80, 0x89], [0xE2, 0x80, 0x8A],
     [0xE2, 0x80, 0xA8], [0xE2, 0x80, 0xA9], [0xE2, 0x80, 0xAF], [0xE2, 0x81, 0x9F], [0xE3, 0x80, 0x80]]"

definition HasPrefix :: "bytes \<Rightarrow> bytes \<Rightarrow> bool" where
  "HasPrefix s p = (take (length p) s = p)"

fun strip_left :: "bytes list \<Rightarrow> nat \<Rightarrow> bytes \<Rightarrow> bytes" where
  "strip_left es 0 s = s"
| "strip_left es (Suc n) s = (case find (\<lambda>e. HasPrefix s e) es of None \<Rightarrow> s | Some e \<Rightarrow> strip_left es n (drop (length e) s))"

definition TrimLeft :: "bytes \<Rightarrow> bytes" where
  "TrimLeft s = strip_left space_runes (length s) s"

definition TrimRight :: "bytes \<Rightarrow> bytes" where
  "TrimRight s = rev (strip_left (map rev space_runes) (length s) (rev s))"

definition TrimSpace :: "bytes \<Rightarrow> bytes" where
  "TrimSpace s = TrimRight (TrimLeft s)"

text \<open>The position of the first occurrence of a byte; the code looks for single bytes only.\<close>

fun IndexByte :: "bytes \<Rightarrow> byte \<Rightarrow> nat option" where
  "IndexByte [] c = None"
| "IndexByte (b # bs) c = (if b = c then Some 0 else map_option Suc (IndexByte bs c))"

definition TrimPrefix :: "bytes \<Rightarrow> bytes \<Rightarrow> bytes" where
  "TrimPrefix s p = (if take (length p) s = p then drop (length p) s else s)"

lemma TrimPrefix_append [simp]: "TrimPrefix (p @ s) p = s"
  by (simp add: TrimPrefix_def)

text \<open>\<^verbatim>\<open>strings.Fields\<close>: the words between white space.\<close>

fun fields_loop :: "nat \<Rightarrow> bytes \<Rightarrow> bytes \<Rightarrow> bytes list" where
  "fields_loop 0 w s = (if w = [] then [] else [w])"
| "fields_loop (Suc n) w s =
     (case s of [] \<Rightarrow> (if w = [] then [] else [w])
      | b # bs \<Rightarrow>
          (case find (\<lambda>e. HasPrefix s e) space_runes of
             None \<Rightarrow> fields_loop n (w @ [b]) bs
           | Some e \<Rightarrow> (if w = [] then [] else [w]) @ fields_loop n [] (drop (length e) s)))"

definition Fields :: "bytes \<Rightarrow> bytes list" where
  "Fields s = fields_loop (Suc (length s)) [] s"

section \<open>Parsing integers\<close>

definition is_digit :: "byte \<Rightarrow> bool" where "is_digit b \<longleftrightarrow> 48 \<le> b \<and> b \<le> 57"

text \<open>\<^verbatim>\<open>ParseUint(s, 10, 64)\<close>, \<^verbatim>\<open>ParseInt(s, 10, 64)\<close> and \<^verbatim>\<open>Atoi\<close>; an error of syntax or range is \<open>None\<close>.\<close>

definition ParseUint :: "bytes \<Rightarrow> nat option" where
  "ParseUint s = (if s \<noteq> [] \<and> list_all is_digit s \<and> undecimal s < 2 ^ 64 then Some (undecimal s) else None)"

definition in_int64 :: "bool \<Rightarrow> nat \<Rightarrow> int option" where
  "in_int64 neg n =
     (if neg then (if n > 2 ^ 63 then None else Some (- int n)) else if n \<ge> 2 ^ 63 then None else Some (int n))"

definition ParseInt :: "bytes \<Rightarrow> int option" where
  "ParseInt s =
     (case s of [] \<Rightarrow> None
      | c # cs \<Rightarrow>
          if c = 43 then Option.bind (ParseUint cs) (in_int64 False)
          else if c = 45 then Option.bind (ParseUint cs) (in_int64 True)
          else Option.bind (ParseUint s) (in_int64 False))"

definition Atoi :: "bytes \<Rightarrow> int option" where "Atoi = ParseInt"

text \<open>\<^verbatim>\<open>ParseInt(s, 0, 64)\<close>: the base follows from the prefix and digits may be separated by underscores.\<close>

definition lower :: "byte \<Rightarrow> byte" where "lower b = b OR 32"

definition digit_value :: "byte \<Rightarrow> nat" where
  "digit_value b = (if is_digit b then unat b - 48 else if 97 \<le> lower b \<and> lower b \<le> 122 then unat (lower b) - 87 else 99)"

definition base_prefix :: "bytes \<Rightarrow> nat \<times> bytes" where
  "base_prefix s =
     (case s of
        c # d # e # r \<Rightarrow>
          if c = 48 \<and> lower d = 98 then (2, e # r) else if c = 48 \<and> lower d = 111 then (8, e # r)
          else if c = 48 \<and> lower d = 120 then (16, e # r) else if c = 48 then (8, d # e # r) else (10, s)
      | c # r \<Rightarrow> if c = 48 then (8, r) else (10, s)
      | [] \<Rightarrow> (10, s))"

fun underscore_loop :: "bool \<Rightarrow> byte \<Rightarrow> bytes \<Rightarrow> bool" where
  "underscore_loop hex saw [] = (saw \<noteq> 95)"
| "underscore_loop hex saw (b # bs) =
     (if is_digit b \<or> (hex \<and> 97 \<le> lower b \<and> lower b \<le> 102) then underscore_loop hex 48 bs
      else if b = 95 then (if saw \<noteq> 48 then False else underscore_loop hex 95 bs)
      else if saw = 95 then False else underscore_loop hex 33 bs)"

definition underscoreOK :: "bytes \<Rightarrow> bool" where
  "underscoreOK s =
     (case s of
        c # d # r \<Rightarrow> if c = 48 \<and> lower d \<in> set [98, 111, 120] then underscore_loop (lower d = 120) 48 r else underscore_loop False 94 s
      | _ \<Rightarrow> underscore_loop False 94 s)"

definition ParseUint0 :: "bytes \<Rightarrow> nat option" where
  "ParseUint0 s =
     (if s = [] then None
      else case base_prefix s of (base, ds) \<Rightarrow>
        let digits = filter (\<lambda>b. b \<noteq> 95) ds; n = foldl (\<lambda>a b. a * base + digit_value b) 0 digits in
        if list_all (\<lambda>b. digit_value b < base) digits \<and> n < 2 ^ 64 \<and> (95 \<in> set ds \<longrightarrow> underscoreOK s) then Some n else None)"

definition ParseInt0 :: "bytes \<Rightarrow> int option" where
  "ParseInt0 s =
     (case s of [] \<Rightarrow> None
      | c # cs \<Rightarrow>
          if c = 43 then Option.bind (ParseUint0 cs) (in_int64 False)
          else if c = 45 then Option.bind (ParseUint0 cs) (in_int64 True)
          else Option.bind (ParseUint0 s) (in_int64 False))"

section \<open>Printed numbers\<close>

lemma decimal_is_digit: "b \<in> set (decimal n) \<Longrightarrow> is_digit b"
  using decimal_digits [of b n] by (simp add: is_digit_def word_le_nat_alt)

lemma decimal_not_Nil [simp]: "decimal n \<noteq> []"
  by (subst decimal.simps) auto

lemma ParseUint_decimal: "n < 2 ^ 64 \<Longrightarrow> ParseUint (decimal n) = Some n"
  by (simp add: ParseUint_def undecimal_decimal list_all_iff decimal_is_digit)

lemma ParseInt_decimal:
  assumes "n < 2 ^ 63"
  shows "ParseInt (decimal n) = Some (int n)"
proof -
  obtain c cs where d: "decimal n = c # cs" by (cases "decimal n") auto
  then have "is_digit c" using decimal_is_digit [of c n] by simp
  then have "c \<noteq> 43" "c \<noteq> 45" by (auto simp: is_digit_def)
  then have "ParseInt (decimal n) = Option.bind (ParseUint (decimal n)) (in_int64 False)"
    by (simp add: ParseInt_def d)
  then show ?thesis using assms by (simp add: ParseUint_decimal in_int64_def)
qed

lemma find_no_space:
  assumes "list_all (\<lambda>e. hd e \<noteq> b \<and> e \<noteq> []) es"
  shows "find (\<lambda>e. HasPrefix (b # bs) e) es = None"
  using assms by (auto simp: find_None_iff list_all_iff HasPrefix_def neq_Nil_conv)

text \<open>Visible ASCII characters are no part of white space.\<close>

definition visible :: "byte \<Rightarrow> bool" where "visible b \<longleftrightarrow> 33 \<le> b \<and> b \<le> 126"

lemma is_digit_visible: "is_digit b \<Longrightarrow> visible b"
  by (auto simp: is_digit_def visible_def word_le_nat_alt)

lemma visible_no_space: "visible b \<Longrightarrow> list_all (\<lambda>e. hd e \<noteq> b \<and> e \<noteq> []) space_runes"
  by (auto simp: space_runes_def visible_def)

lemma visible_no_space_rev: "visible b \<Longrightarrow> list_all (\<lambda>e. hd e \<noteq> b \<and> e \<noteq> []) (map rev space_runes)"
  by (auto simp: space_runes_def visible_def)

lemma fields_word:
  assumes "list_all is_digit ds" and "length ds \<le> n"
  shows "fields_loop n w (ds @ s) = fields_loop (n - length ds) (w @ ds) s"
  using assms
proof (induction ds arbitrary: n w)
  case (Cons d ds)
  obtain k where n: "n = Suc k" using Cons.prems(2) by (cases n) auto
  show ?case
    using Cons.IH [of k "w @ [d]"] Cons.prems is_digit_visible find_no_space [OF visible_no_space, of d "ds @ s"] by (simp add: n)
qed simp

text \<open>Two printed numbers, a space between them, are read back as two words.\<close>

lemma Fields_pair:
  assumes "list_all is_digit a" "list_all is_digit b" "a \<noteq> []" "b \<noteq> []"
  shows "Fields (a @ 32 # b) = [a, b]"
proof -
  have sp: "find (\<lambda>e. HasPrefix (32 # b) e) space_runes = Some [32]"
    by (simp add: space_runes_def HasPrefix_def)
  have "Fields (a @ 32 # b) = fields_loop (Suc (Suc (length b))) a (32 # b)"
    using fields_word [of a "Suc (length a + Suc (length b))" "[]" "32 # b"] assms(1) by (simp add: Fields_def)
  also have "\<dots> = a # fields_loop (Suc (length b)) [] (b @ [])"
    using sp assms(3) by simp
  also have "\<dots> = [a, b]"
    using fields_word [of b "Suc (length b)" "[]" "[]"] assms(2,4) by simp
  finally show ?thesis .
qed

lemma strip_left_stop: "find (\<lambda>e. HasPrefix s e) es = None \<Longrightarrow> strip_left es n s = s"
  by (cases n) simp_all

lemma TrimLeft_visible: "visible b \<Longrightarrow> TrimLeft (b # bs) = b # bs"
  by (simp add: TrimLeft_def strip_left_stop find_no_space [OF visible_no_space] del: strip_left.simps)

lemma TrimLeft_space: "TrimLeft (32 # s) = TrimLeft s"
  by (simp add: TrimLeft_def space_runes_def HasPrefix_def)

lemma TrimRight_visible: "visible b \<Longrightarrow> TrimRight (bs @ [b]) = bs @ [b]"
  by (simp add: TrimRight_def strip_left_stop find_no_space [OF visible_no_space_rev] del: strip_left.simps)

lemma TrimSpace_visible:
  assumes "s \<noteq> []" and "visible (hd s)" and "visible (last s)"
  shows "TrimSpace s = s"
proof -
  have "TrimLeft s = s" using TrimLeft_visible [of "hd s" "tl s"] assms(1,2) by simp
  then show ?thesis
    using TrimRight_visible [of "last s" "butlast s"] assms(1,3) by (simp add: TrimSpace_def)
qed

lemma TrimSpace_space: "TrimSpace (32 # s) = TrimSpace s"
  by (simp add: TrimSpace_def TrimLeft_space)

lemma TrimSpace_Nil [simp]: "TrimSpace [] = []"
  by (simp add: TrimSpace_def TrimLeft_def TrimRight_def)

lemma IndexByte_append: "c \<notin> set xs \<Longrightarrow> IndexByte (xs @ c # ys) c = Some (length xs)"
  by (induction xs) auto

lemma IndexByte_None: "IndexByte xs c = None \<longleftrightarrow> c \<notin> set xs"
  by (induction xs) auto

lemma IndexByte_Some: "IndexByte xs c = Some i \<Longrightarrow> i < length xs \<and> xs ! i = c \<and> c \<notin> set (take i xs)"
  by (induction xs arbitrary: i) (auto split: if_splits)

text \<open>A positive number has no leading zero, so the base is ten whichever way it is read.\<close>

lemma decimal_hd: "0 < n \<Longrightarrow> hd (decimal n) \<noteq> 48"
proof (induction n rule: decimal.induct)
  case (1 n)
  show ?case
  proof (cases "n < 10")
    case True
    then have "unat (digit n) = 48 + n" by (rule unat_digit)
    then have "digit n \<noteq> 48" using "1.prems" by auto
    then show ?thesis using True by (simp add: decimal.simps)
  next
    case False
    then have "hd (decimal n) = hd (decimal (n div 10))" by (subst decimal.simps) simp
    then show ?thesis using False "1.IH" by simp
  qed
qed

lemma base_prefix_10: "s \<noteq> [] \<Longrightarrow> hd s \<noteq> 48 \<Longrightarrow> base_prefix s = (10, s)"
  by (auto simp: base_prefix_def split: list.splits)

lemma ParseUint0_decimal:
  assumes "0 < n" "n < 2 ^ 64"
  shows "ParseUint0 (decimal n) = Some n"
proof -
  have d: "is_digit b" if "b \<in> set (decimal n)" for b using that by (rule decimal_is_digit)
  have no: "95 \<notin> set (decimal n)" using d [of 95] by (auto simp: is_digit_def)
  then have flt: "filter (\<lambda>b. b \<noteq> 95) (decimal n) = decimal n" by (metis (mono_tags, lifting) filter_True)
  have "foldl (\<lambda>a b. a * 10 + digit_value b) 0 (decimal n) = undecimal (decimal n)"
    unfolding undecimal_def using d by (intro foldl_cong) (auto simp: digit_value_def)
  moreover have "list_all (\<lambda>b. digit_value b < 10) (decimal n)"
    using d decimal_digits [of _ n] by (fastforce simp: list_all_iff digit_value_def)
  ultimately show ?thesis
    using assms no flt by (simp add: ParseUint0_def base_prefix_10 decimal_hd undecimal_decimal Let_def)
qed

lemma ParseInt0_decimal:
  assumes "0 < n" "n < 2 ^ 63"
  shows "ParseInt0 (decimal n) = Some (int n)"
proof -
  obtain c cs where d: "decimal n = c # cs" by (cases "decimal n") auto
  then have "is_digit c" using decimal_is_digit [of c n] by simp
  then have "c \<noteq> 43" "c \<noteq> 45" by (auto simp: is_digit_def)
  then have "ParseInt0 (decimal n) = Option.bind (ParseUint0 (decimal n)) (in_int64 False)"
    by (simp add: ParseInt0_def d)
  then show ?thesis using assms by (simp add: ParseUint0_decimal in_int64_def)
qed

end
