(* ===== verification/Metric_Server.thy ===== *)
theory Metric_Server
  imports Metric_Registry Go_Text
begin

text \<open>
  \<^verbatim>\<open>internal/metrics/server\<close>: the handlers of the HTTP server that answers queries about the metrics of
  the local process. A request is its method, path, form values and body; a response is a status
  with the value that is encoded as JSON. The decoding of the JSON body of a bulk request and the
  parsing of times and durations are arguments; listening and encoding are input and output.
\<close>

section \<open>Requests and responses\<close>

definition DiscoverMode :: bytes where "DiscoverMode = bytes_of_string ''discover''"
definition DataMode :: bytes where "DataMode = bytes_of_string ''data''"
definition AggregationMode :: bytes where "AggregationMode = bytes_of_string ''aggregation''"
definition BulkMode :: bytes where "BulkMode = bytes_of_string ''bulk''"

definition DiscoveryPath :: bytes where "DiscoveryPath = slash # DiscoverMode @ [slash]"
definition DataPath :: bytes where "DataPath = slash # DataMode @ [slash]"
definition AggregationPath :: bytes where "AggregationPath = slash # AggregationMode @ [slash]"
definition BulkPath :: bytes where "BulkPath = slash # BulkMode @ [slash]"

datatype http_method = MethodGet | MethodPost | OtherMethod

record request =
  rq_Method :: http_method
  rq_Path :: bytes
  rq_Form :: "string \<Rightarrow> bytes"
  rq_Body :: "bytes option"

datatype jbody =
    JNoResults
  | JAggError agg_error
  | JMetrics "JMetric list"
  | JMetricOne JMetric
  | JBulk "JMetric list list"
  | HelpPage

datatype response = Status nat | Respond jbody

definition StatusBadRequest :: nat where "StatusBadRequest = 400"
definition StatusNotFound :: nat where "StatusNotFound = 404"
definition StatusMethodNotAllowed :: nat where "StatusMethodNotAllowed = 405"
definition StatusInternalServerError :: nat where "StatusInternalServerError = 500"

section \<open>Time ranges\<close>

datatype time_error = BadRelative | BadAbsolute | StartAfterEnd

definition relative :: "bytes \<Rightarrow> bool" where
  "relative s \<longleftrightarrow> hd s = 45 \<or> hd s = 43"

definition parse_instant :: "go_lib \<Rightarrow> int \<Rightarrow> bytes \<Rightarrow> time_error + int" where
  "parse_instant L currentTime raw =
     (if relative raw then (case lib_ParseDuration L raw of None \<Rightarrow> Inl BadRelative | Some d \<Rightarrow> Inr (currentTime + d))
      else (case lib_ParseTime L raw of None \<Rightarrow> Inl BadAbsolute | Some t \<Rightarrow> Inr t))"

definition parseTimeRange :: "go_lib \<Rightarrow> int \<Rightarrow> bytes \<Rightarrow> bytes \<Rightarrow> time_error + int \<times> int" where
  "parseTimeRange L currentTime rawStart rawEnd =
     rbind (if rawStart = [] then Inr (currentTime - 60 * 1000000000) else parse_instant L currentTime rawStart) (\<lambda>startTime.
     rbind (if rawEnd = bytes_of_string ''now'' \<or> rawEnd = [] then Inr currentTime
            else parse_instant L currentTime rawEnd) (\<lambda>endTime.
       if endTime < startTime then Inl StartAfterEnd else Inr (startTime, endTime)))"

section \<open>Handlers\<close>

type_synonym AggSearcher = "bytes \<Rightarrow> bytes \<Rightarrow> bytes list \<Rightarrow> int \<Rightarrow> int \<Rightarrow> agg_error + Metric"
type_synonym DataSearcher = "bytes \<Rightarrow> bytes list \<Rightarrow> int \<Rightarrow> int \<Rightarrow> Metric list"
type_synonym Discoverer = "discover_query \<Rightarrow> Metric list"

definition jMetrics :: "go_lib \<Rightarrow> Metric list \<Rightarrow> response" where
  "jMetrics L rawResults =
     (let results = map (Convert L) rawResults in
      if results = [] then Respond JNoResults else Respond (JMetrics results))"

definition handleAggregation :: "go_lib \<Rightarrow> int \<Rightarrow> AggSearcher \<Rightarrow> request \<Rightarrow> response" where
  "handleAggregation L now search rq =
     (if rq_Method rq \<noteq> MethodGet then Status StatusMethodNotAllowed
      else let reqNamespace = Split slash (TrimPrefix (rq_Path rq) AggregationPath) in
        case parseTimeRange L now (rq_Form rq ''starttime'') (rq_Form rq ''endtime'') of
          Inl _ \<Rightarrow> Status StatusBadRequest
        | Inr (startTime, endTime) \<Rightarrow>
            (case search (rq_Form rq ''aggregation'') (rq_Form rq ''name'') reqNamespace startTime endTime of
               Inl e \<Rightarrow> Respond (JAggError e)
             | Inr m \<Rightarrow> Respond (JMetricOne (Convert L m))))"

definition handleData :: "go_lib \<Rightarrow> int \<Rightarrow> DataSearcher \<Rightarrow> request \<Rightarrow> response" where
  "handleData L now search rq =
     (if rq_Method rq \<noteq> MethodGet then Status StatusMethodNotAllowed
      else let reqNamespace = Split slash (TrimPrefix (rq_Path rq) DataPath) in
        case parseTimeRange L now (rq_Form rq ''starttime'') (rq_Form rq ''endtime'') of
          Inl _ \<Rightarrow> Status StatusBadRequest
        | Inr (startTime, endTime) \<Rightarrow>
            jMetrics L (search (rq_Form rq ''name'') reqNamespace startTime endTime))"

definition handleDiscovery :: "go_lib \<Rightarrow> Discoverer \<Rightarrow> request \<Rightarrow> response" where
  "handleDiscovery L discover rq =
     (if rq_Method rq \<noteq> MethodGet then Status StatusMethodNotAllowed
      else let rawNamespace = TrimPrefix (rq_Path rq) DiscoveryPath;
               reqNamespace = (if rawNamespace \<noteq> [] then Split slash rawNamespace else []);
               rawType = rq_Form rq ''type''; lowered = ToLower rawType;
               known = (lowered = Counter \<or> lowered = Gauge \<or> lowered = Summary) in
        if \<not> known \<and> rawType \<noteq> [] then Status StatusBadRequest
        else jMetrics L (discover \<lparr>dq_name = rq_Form rq ''name'', dq_description = rq_Form rq ''description'',
               dq_prefix = reqNamespace, dq_unit = rq_Form rq ''unit'',
               dq_type = (if known then lowered else [])\<rparr>))"

record MetricFilter =
  mf_SearchType :: bytes
  mf_AggregationType :: bytes
  mf_Name :: bytes
  mf_Namespace :: bytes
  mf_StartTime :: bytes
  mf_EndTime :: bytes

text \<open>The loop over the filters of a bulk request; the first response it writes ends it.\<close>

fun bulk_loop :: "go_lib \<Rightarrow> (nat \<Rightarrow> int) \<Rightarrow> DataSearcher \<Rightarrow> AggSearcher \<Rightarrow> nat \<Rightarrow> MetricFilter list \<Rightarrow> response + JMetric list list" where
  "bulk_loop L now search aggregate i [] = Inr []"
| "bulk_loop L now search aggregate i (f # fs) =
     (if mf_SearchType f \<noteq> AggregationMode \<and> mf_SearchType f \<noteq> DataMode then Inl (Status StatusBadRequest)
      else if mf_SearchType f = AggregationMode \<and> mf_AggregationType f = [] then Inl (Status StatusBadRequest)
      else (case parseTimeRange L (now i) (mf_StartTime f) (mf_EndTime f) of
          Inl _ \<Rightarrow> Inl (Status StatusBadRequest)
        | Inr (startTime, endTime) \<Rightarrow>
            (let reqNamespace = Split slash (mf_Namespace f) in
             rbind (if mf_AggregationType f \<noteq> []
                    then (case aggregate (mf_AggregationType f) (mf_Name f) reqNamespace startTime endTime of
                            Inl e \<Rightarrow> Inl (Respond (JAggError e)) | Inr m \<Rightarrow> Inr [m])
                    else Inr (search (mf_Name f) reqNamespace startTime endTime)) (\<lambda>rawResults.
             rbind (bulk_loop L now search aggregate (i + 1) fs) (\<lambda>rest.
               Inr (map (Convert L) rawResults # rest))))))"

definition handleBulk ::
  "go_lib \<Rightarrow> (bytes \<Rightarrow> MetricFilter list option) \<Rightarrow> (nat \<Rightarrow> int) \<Rightarrow> DataSearcher \<Rightarrow> AggSearcher \<Rightarrow> request \<Rightarrow> response" where
  "handleBulk L decode now search aggregate rq =
     (if rq_Method rq \<noteq> MethodPost then Status StatusMethodNotAllowed
      else (case rq_Body rq of
          None \<Rightarrow> Status StatusInternalServerError
        | Some body \<Rightarrow> (case decode body of
            None \<Rightarrow> Status StatusBadRequest
          | Some fs \<Rightarrow> (case bulk_loop L now search aggregate 0 fs of
              Inl resp \<Rightarrow> resp
            | Inr allResults \<Rightarrow> if allResults = [] then Respond JNoResults else Respond (JBulk allResults)))))"

definition handleRoot :: "request \<Rightarrow> response" where
  "handleRoot rq =
     (if rq_Method rq \<noteq> MethodGet then Status StatusMethodNotAllowed
      else if rq_Path rq \<noteq> [slash] then Status StatusNotFound
      else Respond HelpPage)"

text \<open>
  The multiplexer of \<^verbatim>\<open>SetupListener\<close> picks the longest registered pattern that is a prefix of the
  path (a pattern without a final slash matches only itself), for paths that it does not redirect.
\<close>

definition SetupListener ::
  "go_lib \<Rightarrow> (bytes \<Rightarrow> MetricFilter list option) \<Rightarrow> (nat \<Rightarrow> int) \<Rightarrow> DataSearcher \<Rightarrow> Discoverer \<Rightarrow> AggSearcher \<Rightarrow> request \<Rightarrow> response" where
  "SetupListener L decode now search discover aggregation rq =
     (let under = (\<lambda>p. take (length p) (rq_Path rq) = p) in
      if under DiscoveryPath then handleDiscovery L discover rq
      else if under DataPath then handleData L (now 0) search rq
      else if under AggregationPath then handleAggregation L (now 0) aggregation rq
      else if rq_Path rq = slash # BulkMode \<or> under BulkPath then handleBulk L decode now search aggregation rq
      else handleRoot rq)"

section \<open>Facts\<close>

lemma parseTimeRange_ordered:
  assumes "parseTimeRange L now s e = Inr (a, b)"
  shows "a \<le> b"
  using assms by (auto simp: parseTimeRange_def rbind_eq_Inr split: if_splits)

text \<open>Every namespace in a store was brought there by an added metric.\<close>

definition keys_satisfy :: "(bytes \<Rightarrow> bool) \<Rightarrow> store \<Rightarrow> bool" where
  "keys_satisfy Q st \<longleftrightarrow> (\<forall>t f ns n. st t = Some f \<longrightarrow> f (ns, n) \<noteq> None \<longrightarrow> Q ns)"

fun event_adds :: "store_event \<Rightarrow> Metric list" where
  "event_adds (AddMetrics t ms) = ms"
| "event_adds _ = []"

definition adds_satisfy :: "(bytes \<Rightarrow> bool) \<Rightarrow> store_event list \<Rightarrow> bool" where
  "adds_satisfy Q evs = list_all (\<lambda>ev. list_all (\<lambda>m. Q (nsKey (mt_Namespace m))) (event_adds ev)) evs"

lemma fold_put_keys:
  "fold put ms f (ns, n) \<noteq> None \<Longrightarrow> f (ns, n) \<noteq> None \<or> (\<exists>m \<in> set ms. ns = nsKey (mt_Namespace m))"
  by (induction ms arbitrary: f) (fastforce simp: put_def split: if_splits)+

lemma spec_step_keys:
  assumes "keys_satisfy Q st" and "\<forall>m \<in> set (event_adds ev). Q (nsKey (mt_Namespace m))"
  shows "keys_satisfy Q (spec_step ev st)"
proof (cases ev)
  case (AddMetrics t ms)
  show ?thesis
  proof (cases "st t")
    case (Some f)
    have "Q ns" if "fold put ms f (ns, n) \<noteq> None" for ns n
      using fold_put_keys [OF that] assms AddMetrics Some by (fastforce simp: keys_satisfy_def)
    then have "\<forall>ns n y. fold put ms f (ns, n) = Some y \<longrightarrow> Q ns"
      by blast
    with assms(1) AddMetrics Some show ?thesis
      by (auto simp: keys_satisfy_def)
  qed (use assms AddMetrics in simp)
qed (use assms in \<open>auto simp: keys_satisfy_def split: if_splits\<close>)

lemma run_keys:
  "keys_satisfy Q st \<Longrightarrow> adds_satisfy Q evs \<Longrightarrow> keys_satisfy Q (fold spec_step evs st)"
  by (induction evs arbitrary: st) (simp_all add: adds_satisfy_def spec_step_keys list_all_iff)

text \<open>
  A path without a namespace is split into one empty name, which is not the empty query: it matches
  only metrics whose namespace starts with an empty name.
\<close>

lemma hd_Split: "hd (Split sep s) = takeWhile (\<lambda>b. b \<noteq> sep) s"
  by (induction s) (auto split: list.splits)

definition named :: "bytes \<Rightarrow> bool" where
  "named ns \<longleftrightarrow> ns \<noteq> [] \<and> hd ns \<noteq> slash"

lemma Search_empty_name:
  assumes "adds_satisfy named evs"
  shows "Search (fold registry_step evs Registry_New) name [[]] start end = []"
proof -
  have "keys_satisfy named (fold spec_step evs Map.empty)"
    using assms by (intro run_keys) (simp_all add: keys_satisfy_def)
  moreover have "\<not> named ns" if "prefix [[]] (Split slash ns)" for ns
    using that hd_Split [of slash ns]
    by (cases ns) (auto simp: named_def prefix_def split: if_splits)
  ultimately have "wanted (fold spec_step evs Map.empty) name [[]] start end = {}"
    unfolding keys_satisfy_def wanted_def by blast
  moreover have "reg_inv Registry_New" and "reg_abs Registry_New = Map.empty"
    by (simp_all add: reg_inv_def reg_abs_def Registry_New_def)
  ultimately show ?thesis
    using registry.search_after_run [of Registry_New evs name "[[]]" start "end"] by (auto simp: answers_def)
qed

section \<open>Properties\<close>

text \<open>
  A query of the data path that names no namespace, the documented way to ask for all of them,
  finds nothing, whatever the registry holds (metrics whose namespace begins with a name): the
  handler turns the missing namespace into one empty name. The handler of the discovery path, which
  treats it apart, asks for every namespace.
\<close>

theorem data_query_without_namespace:
  assumes "adds_satisfy named evs" and "rq_Path rq = DataPath" and "rq_Method rq = MethodGet"
    and "parseTimeRange L now (rq_Form rq ''starttime'') (rq_Form rq ''endtime'') = Inr (s, e)"
  shows "handleData L now (Search (fold registry_step evs Registry_New)) rq = Respond JNoResults"
  using assms by (simp add: handleData_def TrimPrefix_def jMetrics_def Search_empty_name)

theorem data_query_without_namespace_witness:
  "length (Search example_registry [] [] 1 2000) = 2 \<and>
   handleData example_lib 500 (Search example_registry)
     \<lparr>rq_Method = MethodGet, rq_Path = DataPath, rq_Form = \<lambda>_. [], rq_Body = None\<rparr> = Respond JNoResults"
proof (rule conjI)
  show "length (Search example_registry [] [] 1 2000) = 2"
    by code_simp
  have "adds_satisfy named [OpenSlice 1000 1000, AddMetrics (Time_Truncate 1000 1000)
      [example_metric ''0'' 30, example_metric ''1'' 12]]"
    by code_simp
  then show "handleData example_lib 500 (Search example_registry)
      \<lparr>rq_Method = MethodGet, rq_Path = DataPath, rq_Form = \<lambda>_. [], rq_Body = None\<rparr> = Respond JNoResults"
    unfolding example_registry_def
    by (rule data_query_without_namespace) (simp_all add: parseTimeRange_def)
qed

end
