(* ===== verification/Output_Modules.thy ===== *)
theory Output_Modules
  imports Metric_Registry Shard_Routing
begin

text \<open>
  Output modules of the receiver: the text line of a message (\<^verbatim>\<open>formatAsText\<close> of
  \<^verbatim>\<open>internal/iomodules/file/parsing.go\<close>, \<^verbatim>\<open>FormatValue\<close> of \<^verbatim>\<open>pkg/protocol/context.go\<close>), the file module that
  writes lines in batches (\<^verbatim>\<open>internal/iomodules/file/write.go\<close>, \<^verbatim>\<open>new.go\<close>) and the module for a writer
  given by the caller (\<^verbatim>\<open>internal/iomodules/generic/write.go\<close>). What the operating system makes of a write is
  an argument: a list of outcomes, and success once the list is used up.
\<close>

section \<open>Text of a message\<close>

definition CFfacility :: bytes where "CFfacility = bytes_of_string ''Facility''"
definition CFseverity :: bytes where "CFseverity = bytes_of_string ''Severity''"
definition CFprocessid :: bytes where "CFprocessid = bytes_of_string ''ProcessID''"
definition CFappname :: bytes where "CFappname = bytes_of_string ''ApplicationName''"

definition hex_byte :: "byte \<Rightarrow> bytes" where
  "hex_byte b = (let d = (\<lambda>n. of_nat (if n < 10 then 48 + n else 87 + n)) in [d (unat b div 16), d (unat b mod 16)])"

text \<open>The text of floating point values and of times is an argument.\<close>

record text_lib =
  FormatFloat32 :: "32 word \<Rightarrow> bytes"
  FormatFloat64 :: "64 word \<Rightarrow> bytes"
  FormatRFC3339Nano :: "int \<Rightarrow> bytes"
  ParseRFC3339Nano :: "bytes \<Rightarrow> int option"

fun FormatValue :: "text_lib \<Rightarrow> any \<Rightarrow> bytes" where
  "FormatValue T (AnyString x) = x"
| "FormatValue T (AnyBytes x) = concat (map hex_byte x)"
| "FormatValue T (AnyInt x) = FormatInt (sint x)"
| "FormatValue T (AnyInt8 x) = FormatInt (sint x)"
| "FormatValue T (AnyInt16 x) = FormatInt (sint x)"
| "FormatValue T (AnyInt32 x) = FormatInt (sint x)"
| "FormatValue T (AnyInt64 x) = FormatInt (sint x)"
| "FormatValue T (AnyUint x) = decimal (unat x)"
| "FormatValue T (AnyUint8 x) = decimal (unat x)"
| "FormatValue T (AnyUint16 x) = decimal (unat x)"
| "FormatValue T (AnyUint32 x) = decimal (unat x)"
| "FormatValue T (AnyUint64 x) = decimal (unat x)"
| "FormatValue T (AnyFloat32 x) = FormatFloat32 T x"
| "FormatValue T (AnyFloat64 x) = FormatFloat64 T x"
| "FormatValue T (AnyBool x) = bytes_of_string (if x then ''true'' else ''false'')"
| "FormatValue T _ = []"

definition header_fields :: "bytes list" where
  "header_fields = [CFappname, CFprocessid, CFfacility, CFseverity]"

definition header_field :: "text_lib \<Rightarrow> fields \<Rightarrow> bytes \<Rightarrow> bytes" where
  "header_field T fs k = (case map_of fs k of None \<Rightarrow> [] | Some v \<Rightarrow> FormatValue T v)"

definition formatAsText :: "text_lib \<Rightarrow> Payload \<Rightarrow> bytes" where
  "formatAsText T msg =
     (let valid = (RemoteIP msg \<noteq> AddrZero);
          remoteID =
            (if valid \<and> Hostname msg \<noteq> [] then Addr_String (RemoteIP msg) @ [slash] @ Hostname msg
             else if \<not> valid then Hostname msg
             else if Hostname msg = [] then Addr_String (RemoteIP msg)
             else []);
          keyValString = map (\<lambda>(k, v). k @ bytes_of_string ''='' @ FormatValue T v)
            (filter (\<lambda>(k, v). k \<notin> set header_fields \<and> FormatValue T v \<noteq> []) (CustomFields msg));
          text = FormatRFC3339Nano T (Timestamp msg) @ bytes_of_string '' '' @
            remoteID @ bytes_of_string '' '' @
            header_field T (CustomFields msg) CFappname @
            bytes_of_string ''['' @ header_field T (CustomFields msg) CFprocessid @ bytes_of_string '']: '' @
            header_field T (CustomFields msg) CFfacility @ bytes_of_string '': '' @
            bytes_of_string ''['' @ header_field T (CustomFields msg) CFseverity @ bytes_of_string '']: '' @
            Data msg in
      if 0 < length keyValString
      then text @ bytes_of_string '' ('' @ Join (bytes_of_string '';'') (sort keyValString) @ bytes_of_string '')''
      else text)"

section \<open>The file module\<close>

abbreviation newline :: byte where "newline \<equiv> 10"
abbreviation space :: byte where "space \<equiv> 32"

text \<open>An outcome of a write: an error, or the number of bytes taken.\<close>

type_synonym disk = "nat option list"

record file_Out =
  fo_batchSize :: int
  fo_batch :: "bytes list"
  fo_file :: bytes
  fo_disk :: disk

definition file_NewOutput :: "disk option \<Rightarrow> bytes \<Rightarrow> int \<Rightarrow> unit + file_Out option" where
  "file_NewOutput opened filePath batchSize =
     (if filePath = [] then Inr None
      else let batchSize = (if batchSize = 0 then 20 else batchSize) in
        case opened of
          None \<Rightarrow> Inl ()
        | Some d \<Rightarrow> Inr (Some \<lparr>fo_batchSize = batchSize, fo_batch = [], fo_file = [], fo_disk = d\<rparr>))"

text \<open>The inner loop: what one line adds to the file, the outcomes left, and whether it succeeded.\<close>

fun write_line :: "bytes \<Rightarrow> disk \<Rightarrow> bytes \<times> disk \<times> bool" where
  "write_line line [] = (line, [], True)"
| "write_line line (o1 # d) =
     (if line = [] then ([], o1 # d, True)
      else case o1 of
        None \<Rightarrow> ([], d, False)
      | Some n \<Rightarrow> (case write_line (drop n line) d of (w, d', ok) \<Rightarrow> (take n line @ w, d', ok)))"

fun write_lines :: "bytes list \<Rightarrow> disk \<Rightarrow> bytes \<times> disk \<times> nat \<times> bool" where
  "write_lines [] d = ([], d, 0, True)"
| "write_lines (line # lines) d =
     (case write_line line d of
        (w, d, False) \<Rightarrow> (w, d, 0, False)
      | (w, d, True) \<Rightarrow> (case write_lines lines d of (w', d', cnt, ok) \<Rightarrow> (w @ w', d', cnt + 1, ok)))"

definition line_time :: "text_lib \<Rightarrow> bytes \<Rightarrow> int" where
  "line_time T s = (case ParseRFC3339Nano T (takeWhile (\<lambda>b. b \<noteq> space) s) of None \<Rightarrow> Time_zero | Some t \<Rightarrow> t)"

text \<open>
  The sort leaves the order of lines with the same time open; here they keep theirs. The buffer is
  sorted in place, also when a write fails, and is kept whole then.
\<close>

definition file_FlushBuffer :: "text_lib \<Rightarrow> file_Out \<Rightarrow> file_Out \<times> nat \<times> bool" where
  "file_FlushBuffer T md =
     (if fo_batch md = [] then (md, 0, True)
      else let ordered = sort_key (line_time T) (fo_batch md) in
        case write_lines ordered (fo_disk md) of (w, d, cnt, ok) \<Rightarrow>
          (md\<lparr>fo_batch := (if ok then [] else ordered), fo_file := fo_file md @ w, fo_disk := d\<rparr>, cnt, ok))"

definition text_line :: "text_lib \<Rightarrow> Payload \<Rightarrow> bytes" where
  "text_line T msg =
     (let newEntry = formatAsText T msg in
      if newEntry \<noteq> [] \<and> last newEntry = newline then newEntry else newEntry @ [newline])"

definition file_Write :: "text_lib \<Rightarrow> Payload \<Rightarrow> file_Out \<Rightarrow> file_Out \<times> nat \<times> bool" where
  "file_Write T msg md =
     (let md = md\<lparr>fo_batch := fo_batch md @ [text_line T msg]\<rparr> in
      if fo_batchSize md < int (length (fo_batch md)) then file_FlushBuffer T md else (md, 0, True))"

section \<open>The generic module\<close>

text \<open>The sink is given the data with exactly one newline added if it has none; the outcome is an argument.\<close>

definition generic_line :: "Payload \<Rightarrow> bytes" where
  "generic_line msg = (if length (Data msg) = 0 \<or> last (Data msg) \<noteq> newline then Data msg @ [newline] else Data msg)"

definition generic_Write :: "bool \<Rightarrow> Payload \<Rightarrow> bytes option \<Rightarrow> bytes option \<times> nat \<times> bool" where
  "generic_Write sinkFails msg md =
     (case md of
        None \<Rightarrow> (None, 0, True)
      | Some written \<Rightarrow> if sinkFails then (Some written, 0, False) else (Some (written @ generic_line msg), 1, True))"

section \<open>Facts about the file module\<close>

lemma write_lines_healthy: "write_lines ls [] = (concat ls, [], length ls, True)"
  by (induction ls) simp_all

text \<open>On a working disk a flush appends the buffered lines, ordered by time, and empties the buffer.\<close>

lemma file_FlushBuffer_healthy:
  assumes "fo_disk md = []"
  shows "file_FlushBuffer T md =
    (md\<lparr>fo_batch := [], fo_file := fo_file md @ concat (sort_key (line_time T) (fo_batch md))\<rparr>, length (fo_batch md), True)"
  using assms by (simp add: file_FlushBuffer_def write_lines_healthy Let_def)

text \<open>
  Nothing is lost on the way to a working disk: the file consists of lines which, with the buffer,
  are the lines written so far.
\<close>

definition holds_lines :: "file_Out \<Rightarrow> bytes list \<Rightarrow> bool" where
  "holds_lines md ls \<longleftrightarrow> fo_disk md = [] \<and>
     (\<exists>out. fo_file md = concat out \<and> mset (out @ fo_batch md) = mset ls)"

lemma holds_lines_flush:
  assumes "holds_lines md ls"
  shows "holds_lines (fst (file_FlushBuffer T md)) ls"
proof -
  from assms obtain out where "fo_file md = concat out" "mset (out @ fo_batch md) = mset ls" "fo_disk md = []"
    by (auto simp: holds_lines_def)
  then show ?thesis
    by (auto simp: file_FlushBuffer_healthy holds_lines_def
      intro!: exI [of _ "out @ sort_key (line_time T) (fo_batch md)"])
qed

lemma holds_lines_write:
  assumes "holds_lines md ls"
  shows "holds_lines (fst (file_Write T msg md)) (ls @ [text_line T msg])"
proof -
  have "holds_lines (md\<lparr>fo_batch := fo_batch md @ [text_line T msg]\<rparr>) (ls @ [text_line T msg])"
    using assms by (auto simp: holds_lines_def)
  then show ?thesis
    by (simp add: file_Write_def Let_def holds_lines_flush)
qed

lemma file_Write_buffers:
  assumes "int (length (fo_batch md)) < fo_batchSize md"
  shows "file_Write T msg md = (md\<lparr>fo_batch := fo_batch md @ [text_line T msg]\<rparr>, 0, True)"
  using assms by (simp add: file_Write_def Let_def)

end
