(* ===== verification/Worker_Pool.thy ===== *)
theory Worker_Pool
  imports Go_Numeric
begin

text \<open>
  What the worker managers of both daemons share: the tags of a logging context
  (\<^verbatim>\<open>internal/logctx/tagging.go\<close>, \<^verbatim>\<open>new.go\<close>), from which workers take the namespace of their metrics, and
  the list of running instances behind an atomic pointer, to which \<^verbatim>\<open>AddInstance\<close> appends and from
  which \<^verbatim>\<open>RemoveLastInstance\<close> takes by compare-and-swap. The locale \<open>worker_pool\<close> states the contract of
  the two operations; the managers interpret it.
\<close>

section \<open>Tags of a context\<close>

text \<open>Of a context only the tag list is kept, which may be missing.\<close>

type_synonym ctx = "bytes list option"

definition GetTagList :: "ctx \<Rightarrow> bytes list" where
  "GetTagList c = (case c of None \<Rightarrow> [] | Some currentTags \<Rightarrow> currentTags)"

definition AppendCtxTag :: "bytes \<Rightarrow> ctx \<Rightarrow> ctx" where
  "AppendCtxTag newTag c = Some (GetTagList c @ [newTag])"

definition RemoveLastCtxTag :: "ctx \<Rightarrow> ctx" where
  "RemoveLastCtxTag c = (let copiedTags = GetTagList c in
     Some (if 0 < length copiedTags then take (length copiedTags - 1) copiedTags else copiedTags))"

definition OverwriteCtxTag :: "bytes list \<Rightarrow> ctx \<Rightarrow> ctx" where
  "OverwriteCtxTag newTags c = Some newTags"

definition NewCancelWithValues :: "ctx \<Rightarrow> bytes list \<Rightarrow> ctx" where
  "NewCancelWithValues baseCtx addTags = fold AppendCtxTag addTags baseCtx"

lemma GetTagList_Append [simp]: "GetTagList (AppendCtxTag t c) = GetTagList c @ [t]"
  by (simp add: AppendCtxTag_def GetTagList_def)

lemma GetTagList_New [simp]: "GetTagList (NewCancelWithValues c ts) = GetTagList c @ ts"
  unfolding NewCancelWithValues_def by (induction ts arbitrary: c) simp_all

lemma RemoveLast_Append [simp]: "GetTagList (RemoveLastCtxTag (AppendCtxTag t c)) = GetTagList c"
  by (simp add: RemoveLastCtxTag_def Let_def) (simp add: GetTagList_def)

definition NSRecv :: bytes where "NSRecv = bytes_of_string ''Receiver''"
definition NSSend :: bytes where "NSSend = bytes_of_string ''Sender''"
definition NSProc :: bytes where "NSProc = bytes_of_string ''Processor''"
definition NSAssm :: bytes where "NSAssm = bytes_of_string ''Assembler''"
definition NSOut :: bytes where "NSOut = bytes_of_string ''Output''"
definition NSListen :: bytes where "NSListen = bytes_of_string ''Listener''"
definition NSWorker :: bytes where "NSWorker = bytes_of_string ''Worker''"
definition NSmIngest :: bytes where "NSmIngest = bytes_of_string ''Ingest''"
definition NSmOutput :: bytes where "NSmOutput = bytes_of_string ''Out''"
definition NSmPack :: bytes where "NSmPack = bytes_of_string ''Packaging''"

section \<open>The list of instances\<close>

text \<open>A worker with the namespace of its context and its counters.\<close>

record 'm worker =
  wk_ctx :: ctx
  wk_Metrics :: 'm

text \<open>
  The compare-and-swap loops. Every element of the list argument is a list that another thread
  installed between the load and the swap of one turn, which makes this turn fail. An instance is
  given its context under the position at which it was appended.
\<close>

fun cas_append :: "(nat \<Rightarrow> 'w) \<Rightarrow> 'w list \<Rightarrow> 'w list list \<Rightarrow> 'w list \<times> nat" where
  "cas_append new oldList [] = (oldList @ [new (length oldList)], length oldList)"
| "cas_append new oldList (race # races) = cas_append new race races"

fun cas_remove :: "'w list \<Rightarrow> 'w list list \<Rightarrow> 'w list \<times> nat" where
  "cas_remove oldList races =
     (if oldList = [] then (oldList, 0)
      else (case races of
              [] \<Rightarrow> (take (length oldList - 1) oldList, length oldList - 1)
            | race # races \<Rightarrow> cas_remove race races))"

declare cas_remove.simps [simp del]

definition worker_at :: "ctx \<Rightarrow> (bytes \<Rightarrow> bytes list) \<Rightarrow> 'm \<Rightarrow> nat \<Rightarrow> 'm worker" where
  "worker_at base addTags m i = \<lparr>wk_ctx = NewCancelWithValues base (addTags (decimal i)), wk_Metrics = m\<rparr>"

lemma cas_append_quiet: "cas_append new ws [] = (ws @ [new (length ws)], length ws)"
  by simp

lemma cas_append_last: "cas_append new ws races = (let l = last (ws # races) in (l @ [new (length l)], length l))"
  by (induction new ws races rule: cas_append.induct) (simp_all add: Let_def)

lemma cas_remove_last:
  "\<exists>l \<in> set (ws # races). cas_remove ws races = (butlast l, length l - 1)"
proof (induction ws races rule: cas_remove.induct)
  case (1 ws races)
  show ?case
  proof (cases "ws = [] \<or> races = []")
    case True
    then have "cas_remove ws races = (butlast ws, length ws - 1)"
      by (auto simp: cas_remove.simps butlast_conv_take)
    then show ?thesis by auto
  next
    case False
    then obtain r rs where races: "races = r # rs" by (cases races) auto
    then have "cas_remove ws races = cas_remove r rs"
      using False by (subst cas_remove.simps) simp
    moreover have "\<exists>l \<in> set (r # rs). cas_remove r rs = (butlast l, length l - 1)"
      using False races by (intro 1) auto
    ultimately show ?thesis
      using races by auto
  qed
qed

section \<open>The contract of a pool\<close>

text \<open>
  The instances of a pool are numbered from 0 in the order of the list, the number is in the
  namespace of the instance, and no two instances share a namespace.
\<close>

definition numbered :: "ctx \<Rightarrow> (bytes \<Rightarrow> bytes list) \<Rightarrow> 'm worker list \<Rightarrow> bool" where
  "numbered base addTags ws \<longleftrightarrow>
     (\<forall>i < length ws. GetTagList (wk_ctx (ws ! i)) = GetTagList base @ addTags (decimal i))"

datatype pool_op = AddOp | RemoveOp

locale worker_pool =
  fixes base :: ctx
    and addTags :: "bytes \<Rightarrow> bytes list"
    and add :: "'m worker list \<Rightarrow> 'm worker list list \<Rightarrow> 'm worker list \<times> nat"
    and remove :: "'m worker list \<Rightarrow> 'm worker list list \<Rightarrow> 'm worker list \<times> nat"
  assumes addTags_inj: "addTags s = addTags t \<Longrightarrow> s = t"
    and add_spec: "\<exists>l \<in> set (ws # races). \<exists>w. add ws races = (l @ [w], length l) \<and>
          GetTagList (wk_ctx w) = GetTagList base @ addTags (decimal (length l))"
    and remove_spec: "\<exists>l \<in> set (ws # races). remove ws races = (butlast l, length l - 1)"
begin

lemma numbered_add:
  assumes "\<forall>l \<in> set (ws # races). numbered base addTags l"
  shows "numbered base addTags (fst (add ws races))"
  using add_spec [of ws races] assms by (auto simp: numbered_def nth_append less_Suc_eq)

lemma numbered_remove:
  assumes "\<forall>l \<in> set (ws # races). numbered base addTags l"
  shows "numbered base addTags (fst (remove ws races))"
  using remove_spec [of ws races] assms by (auto simp: numbered_def nth_butlast)

lemma numbered_distinct:
  assumes "numbered base addTags ws"
  shows "distinct (map (GetTagList \<circ> wk_ctx) ws)"
  using assms by (auto simp: numbered_def distinct_conv_nth dest: addTags_inj decimal_inj)

fun run :: "pool_op list \<Rightarrow> 'm worker list \<Rightarrow> 'm worker list" where
  "run [] ws = ws"
| "run (AddOp # ops) ws = run ops (fst (add ws []))"
| "run (RemoveOp # ops) ws = run ops (fst (remove ws []))"

lemma run_numbered: "numbered base addTags ws \<Longrightarrow> numbered base addTags (run ops ws)"
  by (induction ops ws rule: run.induct) (simp_all add: numbered_add numbered_remove)

lemma length_add: "length (fst (add ws [])) = Suc (length ws)"
  using add_spec [of ws "[]"] by auto

lemma length_remove: "length (fst (remove ws [])) = length ws - 1"
  using remove_spec [of ws "[]"] by auto

text \<open>Starting a pool: a number of additions to the empty list.\<close>

lemma run_start: "length (run (replicate n AddOp) ws) = length ws + n"
  by (induction n arbitrary: ws) (simp_all add: length_add)

lemma start_numbered: "numbered base addTags (run (replicate n AddOp) [])"
  by (rule run_numbered) (simp add: numbered_def)

end

lemma worker_pool_cas:
  assumes "\<And>s t. addTags s = addTags t \<Longrightarrow> s = t"
  shows "worker_pool base addTags (cas_append (worker_at base addTags m)) cas_remove"
proof
  fix ws races
  show "\<exists>l \<in> set (ws # races). \<exists>w. cas_append (worker_at base addTags m) ws races = (l @ [w], length l) \<and>
      GetTagList (wk_ctx w) = GetTagList base @ addTags (decimal (length l))"
    by (rule bexI [of _ "last (ws # races)"]) (simp_all add: cas_append_last Let_def worker_at_def)
qed (use assms cas_remove_last in auto)

end
