(* ===== verification/File_Input.thy ===== *)
theory File_Input
  imports Output_Modules Filtering Worker_Pool MPMC_Queue Go_Text
begin

text \<open>
  The file input of the sender (\<^verbatim>\<open>internal/iomodules/file\<close>): the parser of log lines (\<^verbatim>\<open>parsing.go\<close>), the reader that
  follows a file through appends, rotations and truncations (\<^verbatim>\<open>read.go\<close>, \<^verbatim>\<open>rotation.go\<close>), and the position kept
  between runs (\<^verbatim>\<open>state.go\<close>). The file system and the clock are arguments, and so are the functions of
  Go's \<^verbatim>\<open>time\<close> package, which depend on the local time zone.
\<close>

section \<open>Parsing a line\<close>

definition CtxKey :: bytes where "CtxKey = bytes_of_string ''SourceSink''"
definition DefaultFacility :: bytes where "DefaultFacility = bytes_of_string ''daemon''"
definition DefaultSeverity :: bytes where "DefaultSeverity = bytes_of_string ''info''"

text \<open>
  \<^verbatim>\<open>time.Parse\<close> takes the layout and the text; the components of a time and \<^verbatim>\<open>time.Date\<close> are those of the local
  zone for the current year and of the parsed time otherwise.
\<close>

record time_lib =
  time_Parse :: "bytes \<Rightarrow> bytes \<Rightarrow> int option"
  time_Year :: "int \<Rightarrow> int"
  time_Month :: "int \<Rightarrow> int"
  time_Day :: "int \<Rightarrow> int"
  time_Hour :: "int \<Rightarrow> int"
  time_Minute :: "int \<Rightarrow> int"
  time_Second :: "int \<Rightarrow> int"
  time_Date :: "int \<Rightarrow> int \<Rightarrow> int \<Rightarrow> int \<Rightarrow> int \<Rightarrow> int \<Rightarrow> int \<Rightarrow> int"
  strings_ToLower :: "bytes \<Rightarrow> bytes"

definition withCurrentYear :: "time_lib \<Rightarrow> int \<Rightarrow> int \<Rightarrow> int" where
  "withCurrentYear T now old =
     time_Date T (time_Year T now) (time_Month T old) (time_Day T old) (time_Hour T old) (time_Minute T old) (time_Second T old) 0"

definition put_field :: "bytes \<Rightarrow> any \<Rightarrow> Message \<Rightarrow> Message" where
  "put_field k v msg = msg\<lparr>m_Fields := map_put k v (m_Fields msg)\<rparr>"

definition default_field :: "bytes \<Rightarrow> any \<Rightarrow> Message \<Rightarrow> Message" where
  "default_field k v msg = (if map_of (m_Fields msg) k = None then put_field k v msg else msg)"

definition default_basics :: "int \<Rightarrow> bytes \<Rightarrow> bytes \<Rightarrow> Message \<Rightarrow> Message" where
  "default_basics now raw localHostname msg =
     (let msg = (if m_Timestamp msg = Time_zero then msg\<lparr>m_Timestamp := now\<rparr> else msg);
          msg = (if m_Hostname msg = [] then msg\<lparr>m_Hostname := localHostname\<rparr> else msg) in
      if m_Data msg = [] then msg\<lparr>m_Data := (if raw = [] then [45] else raw)\<rparr> else msg)"

definition file_setDefaults :: "int \<Rightarrow> int \<Rightarrow> bytes \<Rightarrow> bytes \<Rightarrow> Message \<Rightarrow> Message" where
  "file_setDefaults now pid raw localHostname msg =
     (let msg = default_basics now raw localHostname msg;
          msg = default_field CFappname (AnyString [45]) msg;
          msg = default_field CFprocessid (AnyInt (of_int pid)) msg;
          msg = default_field CFfacility (AnyString DefaultFacility) msg in
      default_field CFseverity (AnyString DefaultSeverity) msg)"

text \<open>A position counts where the code asks for one greater than zero.\<close>

definition index_after :: "nat \<Rightarrow> bytes \<Rightarrow> byte \<Rightarrow> nat option" where
  "index_after n s c = (case IndexByte s c of Some i \<Rightarrow> if n < i then Some i else None | None \<Rightarrow> None)"

definition put_pid :: "bytes \<Rightarrow> Message \<Rightarrow> Message" where
  "put_pid s msg = (case Atoi s of Some pid \<Rightarrow> put_field CFprocessid (AnyInt (of_int pid)) msg | None \<Rightarrow> msg)"

text \<open>The bytes between two positions.\<close>

definition between :: "nat \<Rightarrow> nat \<Rightarrow> bytes \<Rightarrow> bytes" where
  "between i j s = take (j - i) (drop i s)"

text \<open>Each format returns the message as filled so far and whether it was recognised in full.\<close>

definition LayoutSyslog :: bytes where "LayoutSyslog = bytes_of_string ''Jan _2 15:04:05''"

definition syslog_header :: "bytes \<Rightarrow> Message \<Rightarrow> Message" where
  "syslog_header header msg =
     (case index_after 0 header 91 of
        None \<Rightarrow> put_field CFappname (AnyString header) msg
      | Some lb \<Rightarrow>
          let msg = put_field CFappname (AnyString (take lb header)) msg in
          (case index_after (lb + 1) header 93 of None \<Rightarrow> msg | Some rb \<Rightarrow> put_pid (between (lb + 1) rb header) msg))"

definition parse_syslog :: "time_lib \<Rightarrow> int \<Rightarrow> bytes \<Rightarrow> Message \<Rightarrow> Message \<times> bool" where
  "parse_syslog T now line msg =
     (if length line < 15 then (msg, False)
      else (case time_Parse T LayoutSyslog (take 15 line) of
        None \<Rightarrow> (msg, False)
      | Some ts \<Rightarrow>
          let rest = TrimSpace (drop 15 line) in
          (case index_after 0 rest 32 of
             None \<Rightarrow> (msg, False)
           | Some hostEnd \<Rightarrow>
               let msg = msg\<lparr>m_Hostname := take hostEnd rest\<rparr>; rest = TrimSpace (drop (hostEnd + 1) rest) in
               (case index_after 0 rest 58 of
                  None \<Rightarrow> (msg, False)
                | Some colon \<Rightarrow>
                    let msg = msg\<lparr>m_Data := TrimSpace (drop (colon + 1) rest)\<rparr>;
                        msg = syslog_header (take colon rest) msg in
                    (msg\<lparr>m_Timestamp := withCurrentYear T now ts\<rparr>, True)))))"

definition LayoutISO :: bytes where "LayoutISO = bytes_of_string ''2006-01-02T15:04:05.999999-07:00''"

definition iso_text :: "bytes \<Rightarrow> Message \<Rightarrow> Message" where
  "iso_text rest msg =
     (let (msg, rest) =
        (case (index_after 0 rest 91, IndexByte rest 93) of
           (Some pidStart, Some pidEnd) \<Rightarrow>
             if pidStart < pidEnd
             then (put_pid (between (pidStart + 1) pidEnd rest) (put_field CFappname (AnyString (take pidStart rest)) msg),
                   TrimPrefix (drop (pidEnd + 1) rest) [58])
             else (case index_after 0 rest 58 of None \<Rightarrow> (msg, rest)
                   | Some colon \<Rightarrow> (put_field CFappname (AnyString (take colon rest)) msg, drop (colon + 1) rest))
         | _ \<Rightarrow> (case index_after 0 rest 58 of None \<Rightarrow> (msg, rest)
                   | Some colon \<Rightarrow> (put_field CFappname (AnyString (take colon rest)) msg, drop (colon + 1) rest))) in
      msg\<lparr>m_Data := TrimSpace rest\<rparr>)"

definition parse_iso :: "time_lib \<Rightarrow> bytes \<Rightarrow> Message \<Rightarrow> Message \<times> bool" where
  "parse_iso T line msg =
     (if \<not> (33 \<le> length line \<and> line ! 10 = 84) then (msg, False)
      else (case time_Parse T LayoutISO (take 32 line) of
        None \<Rightarrow> (msg, False)
      | Some ts \<Rightarrow>
          let msg = msg\<lparr>m_Timestamp := ts\<rparr>; rest = TrimSpace (drop 32 line) in
          (case index_after 0 rest 32 of
             None \<Rightarrow> (msg, True)
           | Some hostEnd \<Rightarrow> (iso_text (TrimSpace (drop (hostEnd + 1) rest)) (msg\<lparr>m_Hostname := take hostEnd rest\<rparr>), True))))"

definition LayoutNginx :: bytes where "LayoutNginx = bytes_of_string ''2006/01/02 15:04:05''"

definition parse_nginx :: "time_lib \<Rightarrow> bytes \<Rightarrow> Message \<Rightarrow> Message \<times> bool" where
  "parse_nginx T line msg =
     (if length line < 19 then (msg, False)
      else (case time_Parse T LayoutNginx (take 19 line) of
        None \<Rightarrow> (msg, False)
      | Some ts \<Rightarrow>
          let rest = TrimSpace (drop 19 line) in
          if \<not> HasPrefix rest [91] then (msg, False)
          else (case index_after 1 rest 93 of
             None \<Rightarrow> (msg, False)
           | Some rb \<Rightarrow>
               let msg = put_field CFseverity (AnyString (strings_ToLower T (between 1 rb rest))) msg;
                   rest = TrimSpace (drop (rb + 1) rest) in
               (case index_after 0 rest 35 of
                  None \<Rightarrow> (msg, False)
                | Some hash \<Rightarrow>
                    (case index_after hash rest 58 of
                       None \<Rightarrow> (msg, False)
                     | Some colon \<Rightarrow>
                         ((put_pid (take hash rest) msg)\<lparr>m_Data := TrimSpace (drop (colon + 1) rest), m_Timestamp := ts\<rparr>, True))))))"

definition LayoutDpkg :: bytes where "LayoutDpkg = bytes_of_string ''2006-01-02 15:04:05''"

definition parse_dpkg :: "time_lib \<Rightarrow> bytes \<Rightarrow> Message \<Rightarrow> Message \<times> bool" where
  "parse_dpkg T line msg =
     (if length line < 19 then (msg, False)
      else (case time_Parse T LayoutDpkg (take 19 line) of
        None \<Rightarrow> (msg, False)
      | Some ts \<Rightarrow> (msg\<lparr>m_Timestamp := ts, m_Data := TrimSpace (drop 19 line)\<rparr>, True)))"

definition LayoutApache :: bytes where "LayoutApache = bytes_of_string ''02/Jan/2006:15:04:05 -0700''"

definition parse_apache :: "time_lib \<Rightarrow> bytes \<Rightarrow> Message \<Rightarrow> Message" where
  "parse_apache T line msg =
     (case IndexByte line 91 of
        None \<Rightarrow> msg
      | Some lb \<Rightarrow>
          (case index_after 0 (drop lb line) 93 of
             None \<Rightarrow> msg
           | Some rb \<Rightarrow>
               (case time_Parse T LayoutApache (between (lb + 1) (lb + rb) line) of None \<Rightarrow> msg | Some ts \<Rightarrow> msg\<lparr>m_Timestamp := ts\<rparr>)))"

definition LayoutPHP :: bytes where "LayoutPHP = bytes_of_string ''02-Jan-2006 15:04:05''"

definition parse_php :: "time_lib \<Rightarrow> bytes \<Rightarrow> Message \<Rightarrow> Message \<times> bool" where
  "parse_php T line msg =
     (if \<not> HasPrefix line [91] then (msg, False)
      else (case index_after 0 line 93 of
        None \<Rightarrow> (msg, False)
      | Some rb \<Rightarrow>
          (case time_Parse T LayoutPHP (between 1 rb line) of
             None \<Rightarrow> (msg, False)
           | Some ts \<Rightarrow>
               let rest = TrimSpace (drop (rb + 1) line);
                   msg = (case index_after 0 rest 58 of None \<Rightarrow> msg | Some colon \<Rightarrow> msg\<lparr>m_Data := TrimSpace (drop (colon + 1) rest)\<rparr>) in
               (msg\<lparr>m_Timestamp := ts\<rparr>, True))))"

text \<open>A format that is not recognised in full leaves what it has filled in for the next one.\<close>

definition unless_done :: "(Message \<Rightarrow> Message \<times> bool) \<Rightarrow> Message \<times> bool \<Rightarrow> Message \<times> bool" where
  "unless_done f st = (if snd st then st else f (fst st))"

definition parseLine :: "time_lib \<Rightarrow> int \<Rightarrow> int \<Rightarrow> bytes \<Rightarrow> bytes \<Rightarrow> Message" where
  "parseLine T now pid rawLine localHostname =
     (let line = TrimSpace rawLine;
          st = (\<lparr>m_Timestamp = Time_zero, m_Hostname = [], m_Fields = [], m_Data = []\<rparr>, False);
          st = unless_done (parse_syslog T now line) st;
          st = unless_done (parse_iso T line) st;
          st = unless_done (parse_nginx T line) st;
          st = unless_done (parse_dpkg T line) st;
          st = unless_done (\<lambda>msg. parse_php T line (parse_apache T line msg)) st in
      file_setDefaults now pid line localHostname (fst st))"
section \<open>The reader\<close>

text \<open>
  The state of the module and of its loop. The handle of the file is its position and whether it is
  valid; what it reads is an argument of the operations.
\<close>

record file_In =
  fi_localHostname :: bytes
  fi_filters :: "MessageFilter list"
  fi_ctx :: ctx
  fi_open :: bool
  fi_pos :: nat
  fi_currentReadOffset :: int
  fi_ino :: "64 word"
  fi_lineBuf :: bytes
  fi_outbox :: "Message Queue"
  fi_LinesRead :: "64 word"
  fi_Success :: "64 word"
  fi_iter :: "64 word"

text \<open>
  What stays the same for all lines, and what is read while a line is handled: the clock, and at
  each try to queue the message whether the context is done.
\<close>

record reader_lib =
  rl_time :: time_lib
  rl_sprint :: "any \<Rightarrow> bytes"
  rl_pid :: int

record line_env =
  le_now :: int
  le_done :: "bool list"

definition line_message :: "reader_lib \<Rightarrow> int \<Rightarrow> ctx \<Rightarrow> bytes \<Rightarrow> bytes \<Rightarrow> Message" where
  "line_message L now c localHostname line =
     put_field CtxKey (AnyString (Join [slash] (GetTagList c))) (parseLine (rl_time L) now (rl_pid L) line localHostname)"

definition file_line :: "reader_lib \<Rightarrow> line_env \<Rightarrow> file_In \<Rightarrow> file_In option" where
  "file_line L e st =
     (let st = st\<lparr>fi_LinesRead := fi_LinesRead st + 1\<rparr>;
          msg = line_message L (le_now e) (fi_ctx st) (fi_localHostname st) (fi_lineBuf st) in
      if list_ex (\<lambda>filter. MessageFilter_Match (rl_sprint L) filter msg) (fi_filters st) then Some st
      else (case PushBlocking (le_done e) (fi_outbox st) msg (of_nat (Message_Size msg)) of
              None \<Rightarrow> None
            | Some q \<Rightarrow> Some (st\<lparr>fi_outbox := q, fi_Success := fi_Success st + 1\<rparr>)))"

text \<open>The environment of a line is given by the offset of its end.\<close>

fun processFileChunk :: "reader_lib \<Rightarrow> (int \<Rightarrow> line_env) \<Rightarrow> bytes \<Rightarrow> file_In \<Rightarrow> file_In option" where
  "processFileChunk L env [] st = Some st"
| "processFileChunk L env (char # bs) st =
     (if char \<noteq> newline
      then processFileChunk L env bs
             (st\<lparr>fi_lineBuf := fi_lineBuf st @ [char], fi_currentReadOffset := fi_currentReadOffset st + 1\<rparr>)
      else (case file_line L (env (fi_currentReadOffset st)) st of
              None \<Rightarrow> None
            | Some st \<Rightarrow> processFileChunk L env bs (st\<lparr>fi_lineBuf := [], fi_currentReadOffset := fi_currentReadOffset st + 1\<rparr>)))"

lemma file_line_frame:
  "file_line L e st = Some st' \<Longrightarrow> fi_pos st' = fi_pos st \<and> fi_open st' = fi_open st \<and> fi_currentReadOffset st' = fi_currentReadOffset st \<and>
     fi_filters st' = fi_filters st \<and> fi_ctx st' = fi_ctx st \<and> fi_localHostname st' = fi_localHostname st \<and> fi_ino st' = fi_ino st"
  by (auto simp: file_line_def Let_def split: if_splits option.splits)

lemma processFileChunk_frame:
  "processFileChunk L env bs st = Some st' \<Longrightarrow> fi_pos st' = fi_pos st \<and> fi_open st' = fi_open st \<and>
     fi_currentReadOffset st' = fi_currentReadOffset st + int (length bs) \<and>
     fi_filters st' = fi_filters st \<and> fi_ctx st' = fi_ctx st \<and> fi_localHostname st' = fi_localHostname st \<and> fi_ino st' = fi_ino st"
  by (induction L env bs st rule: processFileChunk.induct) (auto split: if_splits option.splits dest!: file_line_frame)

text \<open>
  Reading to the end of the file in buffers of 64 KiB. The second result is false when the position
  could not be retrieved, which is the case for an invalid handle. Reads of a valid handle succeed; the branch for one that
  fails, which leaves the loop with an error, is not part of the model.
\<close>

function fileReadAll :: "reader_lib \<Rightarrow> (int \<Rightarrow> line_env) \<Rightarrow> bytes \<Rightarrow> file_In \<Rightarrow> (file_In \<times> bool) option" where
  "fileReadAll L env content st =
     (if \<not> fi_open st then Some (st\<lparr>fi_currentReadOffset := 0\<rparr>, False)
      else
        let chunk = take 65536 (drop (fi_pos st) content); st = st\<lparr>fi_currentReadOffset := int (fi_pos st)\<rparr> in
        if chunk = [] then Some (st, True)
        else (case processFileChunk L env chunk (st\<lparr>fi_pos := fi_pos st + length chunk\<rparr>) of
                None \<Rightarrow> None
              | Some st \<Rightarrow> fileReadAll L env content st))"
  by pat_completeness auto
termination
  by (relation "measure (\<lambda>(L, env, content, st). length content - fi_pos st)") (auto dest!: processFileChunk_frame)

declare fileReadAll.simps [simp del]

section \<open>Rotation and truncation\<close>

datatype stat_result = StatOk "64 word" | StatPermission | StatError

text \<open>Five tries; a refused permission ends them.\<close>

fun stat_retry :: "nat \<Rightarrow> stat_result list \<Rightarrow> 64 word option" where
  "stat_retry 0 rs = None"
| "stat_retry n [] = None"
| "stat_retry (Suc n) (r # rs) = (case r of StatOk ino \<Rightarrow> Some ino | StatPermission \<Rightarrow> None | StatError \<Rightarrow> stat_retry n rs)"

definition reopenLogfile :: "stat_result list \<Rightarrow> bool \<Rightarrow> file_In \<Rightarrow> file_In" where
  "reopenLogfile stats opened st =
     (case stat_retry 5 stats of
        None \<Rightarrow> st
      | Some ino \<Rightarrow>
          if fi_ino st = ino then st
          else let st = st\<lparr>fi_ino := ino, fi_open := opened\<rparr> in
            if \<not> opened then st else st\<lparr>fi_pos := 0, fi_currentReadOffset := 0\<rparr>)"

datatype watch = CtxDone | FileChanged | FileRotated

record reader_world =
  rw_content :: bytes
  rw_event :: watch
  rw_late :: bytes
  rw_stats :: "stat_result list"
  rw_opened :: bool
  rw_size :: "int option"
  rw_hostname :: "bytes option"

datatype turn_result = TurnStopped bytes | TurnTruncated | TurnStatFailed | TurnOn

text \<open>What \<^verbatim>\<open>savePosition\<close> writes.\<close>

definition position_text :: "64 word \<Rightarrow> int \<Rightarrow> bytes" where
  "position_text inode position = decimal (unat inode) @ [32] @ FormatInt position"

definition file_savePosition :: "bool \<Rightarrow> 64 word \<Rightarrow> int \<Rightarrow> bytes \<Rightarrow> bytes" where
  "file_savePosition writable inode position state = (if writable then position_text inode position else state)"

definition after_event :: "reader_world \<Rightarrow> file_In \<Rightarrow> file_In \<times> turn_result" where
  "after_event w st =
     (case rw_size w of
        None \<Rightarrow> (st\<lparr>fi_currentReadOffset := 0, fi_lineBuf := []\<rparr>, TurnStatFailed)
      | Some fileSize \<Rightarrow>
          if fi_currentReadOffset st > fileSize then (st\<lparr>fi_currentReadOffset := 0, fi_lineBuf := []\<rparr>, TurnTruncated)
          else
            let st = st\<lparr>fi_iter := fi_iter st + 1\<rparr>;
                st = (if unat (fi_iter st) mod 1024 = 0
                      then (case rw_hostname w of Some newName \<Rightarrow> st\<lparr>fi_localHostname := newName\<rparr> | None \<Rightarrow> st) else st) in
            (st\<lparr>fi_pos := nat (fi_currentReadOffset st)\<rparr>, TurnOn))"

text \<open>
  One turn: read what is there, wait for an event, act on it. When the reader is stopped the result is
  the text of the position it saves.
\<close>

definition reader_turn ::
  "reader_lib \<Rightarrow> (int \<Rightarrow> line_env) \<Rightarrow> (int \<Rightarrow> line_env) \<Rightarrow> reader_world \<Rightarrow> file_In \<Rightarrow> (file_In \<times> turn_result) option" where
  "reader_turn L env env' w st =
     (case fileReadAll L env (rw_content w) st of
        None \<Rightarrow> None
      | Some (st, _) \<Rightarrow>
          (case rw_event w of
             CtxDone \<Rightarrow> Some (st, TurnStopped (position_text (fi_ino st) (fi_currentReadOffset st)))
           | FileChanged \<Rightarrow> Some (after_event w st)
           | FileRotated \<Rightarrow>
               (case fileReadAll L env' (rw_late w) st of
                  None \<Rightarrow> None
                | Some (st, ok) \<Rightarrow> Some (after_event w (if ok then reopenLogfile (rw_stats w) (rw_opened w) st else st)))))"

section \<open>The position between runs\<close>

text \<open>
  The state file is read up to 128 bytes; an invalid one is emptied. The log file is given by its inode
  and size. The results are inode, position and the state file; \<open>None\<close> is a file that cannot be read.
\<close>

definition file_getLastPosition :: "bytes option \<Rightarrow> (64 word \<times> int) option \<Rightarrow> (64 word \<times> int) \<times> bytes option" where
  "file_getLastPosition state stat =
     (case state of
        None \<Rightarrow> ((0, 0), None)
      | Some text \<Rightarrow>
          let content = TrimSpace (take 128 text) in
          if content = [] then ((0, 0), state)
          else (case Fields content of
             [a, b] \<Rightarrow>
               (case (ParseUint a, ParseInt b) of
                  (Some inodeParsed, Some posParsed) \<Rightarrow>
                    (case stat of
                       None \<Rightarrow> ((0, 0), state)
                     | Some (currentInode, fileSize) \<Rightarrow>
                         let posParsed = (if posParsed > fileSize then fileSize else posParsed) in
                         (if of_nat inodeParsed = currentInode then (currentInode, posParsed) else (currentInode, 0), state))
                | _ \<Rightarrow> ((0, 0), Some []))
           | _ \<Rightarrow> ((0, 0), Some [])))"

datatype file_in_error = BadFilter nat filter_error | NoSourceFile | NoSeek | NoHostname | NoWatcher

record file_new_env =
  fe_opened :: bool
  fe_state :: "bytes option"
  fe_stat :: "(64 word \<times> int) option"
  fe_hostname :: "bytes option"
  fe_watcher :: bool

fun first_bad_filter :: "nat \<Rightarrow> MessageFilter list \<Rightarrow> (nat \<times> filter_error) option" where
  "first_bad_filter i [] = None"
| "first_bad_filter i (f # fs) = (case MessageFilter_Validate f of Inl e \<Rightarrow> Some (i, e) | Inr _ \<Rightarrow> first_bad_filter (Suc i) fs)"

definition NSoFile :: bytes where "NSoFile = bytes_of_string ''File''"

text \<open>\<open>Inr None\<close> is the absent module of an empty path. The state file is part of the result.\<close>

definition file_NewInput ::
  "file_new_env \<Rightarrow> ctx \<Rightarrow> bytes \<Rightarrow> bytes \<Rightarrow> MessageFilter list \<Rightarrow> Message Queue \<Rightarrow> file_in_error + file_In option" where
  "file_NewInput E c filePath base filters queue =
     (if filePath = [] then Inr None
      else (case first_bad_filter 0 filters of
        Some (i, e) \<Rightarrow> Inl (BadFilter i e)
      | None \<Rightarrow>
          if \<not> fe_opened E then Inl NoSourceFile
          else (case fst (file_getLastPosition (fe_state E) (fe_stat E)) of
            (ino, off) \<Rightarrow>
              if off < 0 then Inl NoSeek
              else (case fe_hostname E of
                 None \<Rightarrow> Inl NoHostname
               | Some h \<Rightarrow>
                   if \<not> fe_watcher E then Inl NoWatcher
                   else Inr (Some \<lparr>fi_localHostname = h, fi_filters = filters, fi_ctx = OverwriteCtxTag (GetTagList c @ [NSoFile, base]) c,
                     fi_open = True, fi_pos = nat off, fi_currentReadOffset = off, fi_ino = ino, fi_lineBuf = [], fi_outbox = queue,
                     fi_LinesRead = 0, fi_Success = 0, fi_iter = 0\<rparr>)))))"

definition file_in_CollectMetrics :: "int \<Rightarrow> int \<Rightarrow> file_In \<Rightarrow> file_In \<times> Metric list" where
  "file_in_CollectMetrics interval recordTime st =
     (let mk = mk_metric (GetTagList (fi_ctx st)) interval recordTime in
      (st\<lparr>fi_LinesRead := 0, fi_Success := 0\<rparr>,
       [mk ''lines_read'' ''Total lines read from file in the interval'' (RawUint64 (fi_LinesRead st)) ''count'' Counter,
        mk ''success_processed'' ''Total processed messages extracted from file in the interval''
          (RawUint64 (fi_Success st)) ''count'' Counter]))"
section \<open>What the parser returns\<close>

lemma put_field_sel [simp]:
  "m_Data (put_field k v msg) = m_Data msg" "m_Hostname (put_field k v msg) = m_Hostname msg"
  "m_Timestamp (put_field k v msg) = m_Timestamp msg" "map_of (m_Fields (put_field k v msg)) = (map_of (m_Fields msg))(k \<mapsto> v)"
  "fields_ok (m_Fields msg) \<Longrightarrow> fields_ok (m_Fields (put_field k v msg))"
  by (simp_all add: put_field_def map_of_map_put fields_ok_map_put)

lemma default_field_sel [simp]:
  "m_Data (default_field k v msg) = m_Data msg" "m_Hostname (default_field k v msg) = m_Hostname msg"
  "m_Timestamp (default_field k v msg) = m_Timestamp msg"
  "fields_ok (m_Fields msg) \<Longrightarrow> fields_ok (m_Fields (default_field k v msg))"
  "\<exists>v'. map_of (m_Fields (default_field k v msg)) k = Some v'"
  "map_of (m_Fields msg) k' = Some w \<Longrightarrow> map_of (m_Fields (default_field k v msg)) k' = Some w"
  by (auto simp: default_field_def)

lemma default_field_present: "\<exists>w. map_of (m_Fields msg) k' = Some w \<Longrightarrow> \<exists>w. map_of (m_Fields (default_field k v msg)) k' = Some w"
  by auto

lemma default_basics_sel:
  "m_Data (default_basics now raw h msg) \<noteq> []"
  "now \<noteq> Time_zero \<Longrightarrow> m_Timestamp (default_basics now raw h msg) \<noteq> Time_zero"
  "h \<noteq> [] \<Longrightarrow> m_Hostname (default_basics now raw h msg) \<noteq> []"
  "m_Fields (default_basics now raw h msg) = m_Fields msg"
  by (simp_all add: default_basics_def Let_def)

lemma put_pid_sel [simp]:
  "m_Data (put_pid s msg) = m_Data msg" "m_Hostname (put_pid s msg) = m_Hostname msg" "m_Timestamp (put_pid s msg) = m_Timestamp msg"
  "fields_ok (m_Fields msg) \<Longrightarrow> fields_ok (m_Fields (put_pid s msg))"
  by (auto simp: put_pid_def split: option.split)

lemma CF_distinct [simp]:
  "CFappname \<noteq> CFprocessid" "CFappname \<noteq> CFfacility" "CFappname \<noteq> CFseverity" "CFprocessid \<noteq> CFfacility"
  "CFprocessid \<noteq> CFseverity" "CFfacility \<noteq> CFseverity" "CtxKey \<noteq> CFappname" "CtxKey \<noteq> CFprocessid" "CtxKey \<noteq> CFfacility"
  "CtxKey \<noteq> CFseverity"
  by (simp_all add: CFappname_def CFprocessid_def CFfacility_def CFseverity_def CtxKey_def bytes_of_string_def)

lemmas CF_distinct_rev [simp] = CF_distinct [symmetric]

text \<open>Every format keeps the fields of the message in order.\<close>

lemma parts_fields_ok:
  assumes "fields_ok (m_Fields msg)"
  shows "fields_ok (m_Fields (fst (parse_syslog T now line msg)))" "fields_ok (m_Fields (fst (parse_iso T line msg)))"
    "fields_ok (m_Fields (fst (parse_nginx T line msg)))" "fields_ok (m_Fields (fst (parse_dpkg T line msg)))"
    "fields_ok (m_Fields (parse_apache T line msg))" "fields_ok (m_Fields (fst (parse_php T line msg)))"
  using assms
  by (auto simp: parse_syslog_def syslog_header_def parse_iso_def iso_text_def parse_nginx_def parse_dpkg_def parse_apache_def
      parse_php_def Let_def split: option.split)

lemma unless_done_ok:
  "fields_ok (m_Fields (fst st)) \<Longrightarrow> (\<And>msg. fields_ok (m_Fields msg) \<Longrightarrow> fields_ok (m_Fields (fst (f msg)))) \<Longrightarrow>
   fields_ok (m_Fields (fst (unless_done f st)))"
  by (simp add: unless_done_def)

text \<open>Whatever the line, the message is complete.\<close>

lemma setDefaults_complete:
  "m_Data (file_setDefaults now pid raw h msg) \<noteq> []"
  "now \<noteq> Time_zero \<Longrightarrow> m_Timestamp (file_setDefaults now pid raw h msg) \<noteq> Time_zero"
  "h \<noteq> [] \<Longrightarrow> m_Hostname (file_setDefaults now pid raw h msg) \<noteq> []"
  "fields_ok (m_Fields msg) \<Longrightarrow> fields_ok (m_Fields (file_setDefaults now pid raw h msg))"
  by (simp_all add: file_setDefaults_def Let_def default_basics_sel)

lemma setDefaults_fields_present:
  assumes "k \<in> set header_fields"
  shows "\<exists>v. map_of (m_Fields (file_setDefaults now pid raw h msg)) k = Some v"
proof -
  consider "k = CFappname" | "k = CFprocessid" | "k = CFfacility" | "k = CFseverity"
    using assms by (auto simp: header_fields_def)
  then show ?thesis
    by cases (simp_all only: file_setDefaults_def Let_def, (intro default_field_present default_field_sel(5))+)
qed

lemma parseLine_defaults:
  obtains raw msg where "parseLine T now pid line h = file_setDefaults now pid raw h msg" and "fields_ok (m_Fields msg)"
proof -
  let ?line = "TrimSpace line"
  let ?st = "unless_done (\<lambda>msg. parse_php T ?line (parse_apache T ?line msg)) (unless_done (parse_dpkg T ?line)
    (unless_done (parse_nginx T ?line) (unless_done (parse_iso T ?line) (unless_done (parse_syslog T now ?line)
      (\<lparr>m_Timestamp = Time_zero, m_Hostname = [], m_Fields = [], m_Data = []\<rparr>, False)))))"
  have "fields_ok []" by (simp add: fields_ok_def)
  then have "fields_ok (m_Fields (fst ?st))"
    by (intro unless_done_ok) (simp_all add: parts_fields_ok)
  then show thesis using that [of ?line "fst ?st"] by (simp add: parseLine_def Let_def)
qed

text \<open>A line in the format of syslog.\<close>

definition syslog_line :: "bytes \<Rightarrow> bytes \<Rightarrow> bytes \<Rightarrow> nat \<Rightarrow> bytes \<Rightarrow> bytes" where
  "syslog_line stamp host app pid body = stamp @ 32 # host @ 32 # app @ 91 # decimal pid @ 93 # 58 # 32 # body"

lemma decimal_misses: "\<not> is_digit c \<Longrightarrow> c \<notin> set (decimal n)"
  using decimal_is_digit by blast

lemma syslog_header_pid:
  assumes "app \<noteq> []" "91 \<notin> set app" "93 \<notin> set app" "pid < 2 ^ 63"
  shows "syslog_header (app @ 91 # decimal pid @ [93]) msg =
    put_field CFprocessid (AnyInt (of_nat pid)) (put_field CFappname (AnyString app) msg)"
proof -
  have "IndexByte (app @ 91 # decimal pid @ [93]) 91 = Some (length app)"
    using assms(2) by (rule IndexByte_append)
  moreover have "93 \<notin> set (app @ 91 # decimal pid)"
    using assms(3) decimal_misses [of 93 pid] by (simp add: is_digit_def)
  then have "IndexByte (app @ 91 # decimal pid @ [93]) 93 = Some (length app + 1 + length (decimal pid))"
    using IndexByte_append [of 93 "app @ 91 # decimal pid" "[]"] by simp
  moreover have "0 < length (decimal pid)" by simp
  moreover have "between (length app + 1) (length app + 1 + length (decimal pid)) (app @ 91 # decimal pid @ [93]) = decimal pid"
    by (simp add: between_def)
  ultimately show ?thesis
    using assms(1,4) by (simp add: syslog_header_def index_after_def put_pid_def Atoi_def ParseInt_decimal)
qed

lemma parse_syslog_parts:
  assumes "length stamp = 15" "time_Parse T LayoutSyslog stamp = Some ts"
    and "TrimSpace r = host @ 32 # r1" "host \<noteq> []" "32 \<notin> set host"
    and "TrimSpace r1 = header @ 58 # r2" "header \<noteq> []" "58 \<notin> set header"
  shows "parse_syslog T now (stamp @ r) msg =
    ((syslog_header header (msg\<lparr>m_Hostname := host, m_Data := TrimSpace r2\<rparr>))\<lparr>m_Timestamp := withCurrentYear T now ts\<rparr>, True)"
  using assms IndexByte_append [of 32 host r1] IndexByte_append [of 58 header r2]
  by (simp add: parse_syslog_def index_after_def)

lemma parse_syslog_line:
  assumes stamp: "length stamp = 15" "time_Parse T LayoutSyslog stamp = Some ts"
    and host: "host \<noteq> []" "list_all visible host"
    and app: "app \<noteq> []" "list_all visible app" "58 \<notin> set app" "91 \<notin> set app" "93 \<notin> set app" "pid < 2 ^ 63"
    and tail: "body \<noteq> []" "visible (hd body)" "visible (last body)"
  shows "parse_syslog T now (syslog_line stamp host app pid body) msg =
    (put_field CFprocessid (AnyInt (of_nat pid)) (put_field CFappname (AnyString app)
      (msg\<lparr>m_Hostname := host, m_Data := body\<rparr>))\<lparr>m_Timestamp := withCurrentYear T now ts\<rparr>, True)"
proof -
  let ?header = "app @ 91 # decimal pid @ [93]"
  let ?r1 = "?header @ 58 # 32 # body"
  have vis: "visible b" if "b \<in> set host \<or> b \<in> set app" for b using that host(2) app(2) by (auto simp: list_all_iff)
  have t1: "TrimSpace (32 # host @ 32 # ?r1) = host @ 32 # ?r1"
    using vis [of "hd host"] host(1) tail by (simp add: TrimSpace_space TrimSpace_visible)
  have no: "32 \<notin> set host" "58 \<notin> set ?header"
    using vis [of 32] app(3) decimal_misses [of 58 pid] by (auto simp: visible_def is_digit_def)
  have t2: "TrimSpace ?r1 = ?r1"
    using vis [of "hd app"] app(1) tail by (simp add: TrimSpace_visible)
  have t3: "TrimSpace (32 # body) = body" using tail by (simp add: TrimSpace_space TrimSpace_visible)
  have "syslog_line stamp host app pid body = stamp @ 32 # host @ 32 # ?r1" by (simp add: syslog_line_def)
  then show ?thesis
    using parse_syslog_parts [OF stamp t1 host(1) no(1) t2 _ no(2)] syslog_header_pid [OF app(1,4,5,6)] t3 by simp
qed
section \<open>Every line becomes one message\<close>

text \<open>The offsets of the ends of lines, and the messages of lines that no filter drops.\<close>

fun line_ends :: "int \<Rightarrow> bytes \<Rightarrow> int list" where
  "line_ends off [] = []"
| "line_ends off (b # bs) = (if b = newline then [off] else []) @ line_ends (off + 1) bs"

definition kept_messages :: "reader_lib \<Rightarrow> (int \<Rightarrow> line_env) \<Rightarrow> file_In \<Rightarrow> (int \<times> bytes) list \<Rightarrow> Message list" where
  "kept_messages L env st ls =
     filter (\<lambda>msg. \<not> list_ex (\<lambda>f. MessageFilter_Match (rl_sprint L) f msg) (fi_filters st))
       (map (\<lambda>(e, line). line_message L (le_now (env e)) (fi_ctx st) (fi_localHostname st) line) ls)"

definition lines_of :: "file_In \<Rightarrow> bytes \<Rightarrow> (int \<times> bytes) list" where
  "lines_of st bs = zip (line_ends (fi_currentReadOffset st) bs) (butlast (Split newline (fi_lineBuf st @ bs)))"

lemma Split_append_last: "Split c (xs @ ys) = butlast (Split c xs) @ Split c (last (Split c xs) @ ys)"
proof (induction xs)
  case (Cons x xs)
  obtain w ws where w: "Split c xs = w # ws" by (cases "Split c xs") auto
  show ?case
    using Cons.IH w by (cases ws) (auto split: list.splits)
qed simp

lemma last_Split: "c \<notin> set (last (Split c xs))"
proof (induction xs)
  case (Cons x xs)
  obtain w ws where w: "Split c xs = w # ws" by (cases "Split c xs") auto
  then show ?case using Cons.IH by auto
qed simp

lemma length_line_ends: "length (line_ends off bs) = count_list bs newline"
  by (induction off bs rule: line_ends.induct) auto

lemma length_Split: "length (Split c xs) = Suc (count_list xs c)"
proof (induction xs)
  case (Cons x xs)
  obtain w ws where "Split c xs = w # ws" by (cases "Split c xs") auto
  then show ?case using Cons.IH by auto
qed simp

lemma line_ends_append: "line_ends off (xs @ ys) = line_ends off xs @ line_ends (off + int (length xs)) ys"
  by (induction off xs rule: line_ends.induct) (auto simp: algebra_simps)

lemma length_lines_of: "newline \<notin> set (fi_lineBuf st) \<Longrightarrow> length (lines_of st bs) = count_list bs newline"
  by (simp add: lines_of_def length_line_ends length_Split count_notin)

definition reader_frame :: "file_In \<Rightarrow> file_In \<Rightarrow> bool" where
  "reader_frame st st' \<longleftrightarrow> fi_open st' = fi_open st \<and> fi_filters st' = fi_filters st \<and> fi_ctx st' = fi_ctx st \<and>
     fi_localHostname st' = fi_localHostname st \<and> fi_ino st' = fi_ino st"

lemma kept_messages_frame: "reader_frame st st' \<Longrightarrow> kept_messages L env st' = kept_messages L env st"
  by (simp add: reader_frame_def kept_messages_def fun_eq_iff)

text \<open>A line, with room in the queue and a context that is not done.\<close>

lemma file_line_queued:
  assumes "has_room (Suc n) (fi_outbox st)" and "\<exists>ds. le_done e = False # ds"
  shows "\<exists>q. file_line L e st = Some (st\<lparr>fi_LinesRead := fi_LinesRead st + 1, fi_outbox := q,
      fi_Success := fi_Success st + of_nat (length (kept_messages L (\<lambda>_. e) st [(0, fi_lineBuf st)]))\<rparr>) \<and>
    has_room n q \<and> queue_contents q = queue_contents (fi_outbox st) @ kept_messages L (\<lambda>_. e) st [(0, fi_lineBuf st)]"
proof (cases "kept_messages L (\<lambda>_. e) st [(0, fi_lineBuf st)]")
  case Nil
  then show ?thesis
    using has_room_less [OF assms(1), of n]
    by (intro exI [of _ "fi_outbox st"]) (simp add: kept_messages_def file_line_def Let_def split: if_splits)
next
  case (Cons m ms)
  let ?m = "line_message L (le_now e) (fi_ctx st) (fi_localHostname st) (fi_lineBuf st)"
  obtain q where q: "Push (fi_outbox st) ?m (of_nat (Message_Size ?m)) = Some (q, Inr ())" "has_room n q"
    "queue_contents q = queue_contents (fi_outbox st) @ [?m]"
    using has_room_Push [OF assms(1)] by blast
  from Cons assms(2) q show ?thesis
    by (intro exI [of _ q]) (auto simp: kept_messages_def file_line_def Let_def split: if_splits)
qed

lemma processFileChunk_lines:
  assumes "newline \<notin> set (fi_lineBuf st)" and "\<And>off. \<exists>ds. le_done (env off) = False # ds"
    and "has_room (count_list bs newline + n) (fi_outbox st)"
  shows "\<exists>st'. processFileChunk L env bs st = Some st' \<and> fi_lineBuf st' = last (Split newline (fi_lineBuf st @ bs)) \<and>
    has_room n (fi_outbox st') \<and> fi_pos st' = fi_pos st \<and> fi_currentReadOffset st' = fi_currentReadOffset st + int (length bs) \<and>
    queue_contents (fi_outbox st') = queue_contents (fi_outbox st) @ kept_messages L env st (lines_of st bs) \<and>
    fi_LinesRead st' = fi_LinesRead st + of_nat (count_list bs newline) \<and> reader_frame st st'"
  using assms(1,3)
proof (induction bs arbitrary: st)
  case Nil
  then show ?case by (simp add: Split_no_sep lines_of_def kept_messages_def reader_frame_def)
next
  case (Cons b bs)
  show ?case
  proof (cases "b = newline")
    case False
    let ?st = "st\<lparr>fi_lineBuf := fi_lineBuf st @ [b], fi_currentReadOffset := fi_currentReadOffset st + 1\<rparr>"
    have "lines_of st (b # bs) = lines_of ?st bs" "kept_messages L env ?st = kept_messages L env st"
      using False by (simp_all add: lines_of_def kept_messages_def fun_eq_iff)
    with Cons.IH [of ?st] Cons.prems False show ?thesis by (auto simp: reader_frame_def add_ac)
  next
    case True
    let ?e = "env (fi_currentReadOffset st)"
    obtain q where q: "file_line L ?e st = Some (st\<lparr>fi_LinesRead := fi_LinesRead st + 1, fi_outbox := q,
        fi_Success := fi_Success st + of_nat (length (kept_messages L (\<lambda>_. ?e) st [(0, fi_lineBuf st)]))\<rparr>)"
      "has_room (count_list bs newline + n) q"
      "queue_contents q = queue_contents (fi_outbox st) @ kept_messages L (\<lambda>_. ?e) st [(0, fi_lineBuf st)]"
      using file_line_queued [of "count_list bs newline + n" st ?e L] Cons.prems(2) assms(2) True by auto
    let ?st = "st\<lparr>fi_LinesRead := fi_LinesRead st + 1, fi_outbox := q,
        fi_Success := fi_Success st + of_nat (length (kept_messages L (\<lambda>_. ?e) st [(0, fi_lineBuf st)])),
        fi_lineBuf := [], fi_currentReadOffset := fi_currentReadOffset st + 1\<rparr>"
    have "lines_of st (b # bs) = (fi_currentReadOffset st, fi_lineBuf st) # lines_of ?st bs"
      using True Cons.prems(1) by (simp add: lines_of_def Split_append)
    then have "kept_messages L env st (lines_of st (b # bs)) =
        kept_messages L (\<lambda>_. ?e) st [(0, fi_lineBuf st)] @ kept_messages L env st (lines_of ?st bs)"
      by (simp add: kept_messages_def)
    moreover have "kept_messages L env ?st = kept_messages L env st" by (simp add: kept_messages_def fun_eq_iff)
    ultimately show ?thesis
      using Cons.IH [of ?st] q True Cons.prems(1) by (auto simp: reader_frame_def Split_append add_ac)
  qed
qed
definition at_pos :: "file_In \<Rightarrow> file_In" where
  "at_pos st = st\<lparr>fi_currentReadOffset := int (fi_pos st)\<rparr>"

lemma lines_of_append:
  assumes "fi_currentReadOffset st' = fi_currentReadOffset st + int (length xs)"
    and "fi_lineBuf st' = last (Split newline (fi_lineBuf st @ xs))" and "newline \<notin> set (fi_lineBuf st)"
  shows "lines_of st (xs @ ys) = lines_of st xs @ lines_of st' ys"
proof -
  have "Split newline (fi_lineBuf st @ xs @ ys) = butlast (Split newline (fi_lineBuf st @ xs)) @ Split newline (fi_lineBuf st' @ ys)"
    using Split_append_last [of newline "fi_lineBuf st @ xs" ys] assms(2) by simp
  then have "butlast (Split newline (fi_lineBuf st @ xs @ ys)) =
      butlast (Split newline (fi_lineBuf st @ xs)) @ butlast (Split newline (fi_lineBuf st' @ ys))"
    by (simp add: butlast_append)
  then show ?thesis
    using assms(1,3) by (simp add: lines_of_def line_ends_append length_line_ends length_Split count_notin)
qed

lemma fileReadAll_lines:
  assumes "fi_open st" and "newline \<notin> set (fi_lineBuf st)" and "fi_pos st \<le> length content"
    and "\<And>off. \<exists>ds. le_done (env off) = False # ds"
    and "has_room (count_list (drop (fi_pos st) content) newline + n) (fi_outbox st)"
  shows "\<exists>st'. fileReadAll L env content st = Some (st', True) \<and> fi_pos st' = length content \<and>
    fi_currentReadOffset st' = int (length content) \<and>
    fi_lineBuf st' = last (Split newline (fi_lineBuf st @ drop (fi_pos st) content)) \<and> has_room n (fi_outbox st') \<and>
    queue_contents (fi_outbox st') = queue_contents (fi_outbox st) @ kept_messages L env st (lines_of (at_pos st) (drop (fi_pos st) content)) \<and>
    fi_LinesRead st' = fi_LinesRead st + of_nat (count_list (drop (fi_pos st) content) newline) \<and> reader_frame st st'"
  using assms(1-3,5)
proof (induction "length content - fi_pos st" arbitrary: st rule: less_induct)
  case less
  let ?rest = "drop (fi_pos st) content"
  let ?chunk = "take 65536 ?rest" and ?more = "drop 65536 ?rest"
  show ?case
  proof (cases "?rest = []")
    case True
    then show ?thesis
      using less.prems by (subst fileReadAll.simps) (simp add: Split_no_sep lines_of_def kept_messages_def reader_frame_def at_pos_def Let_def)
  next
    case False
    define st0 where "st0 = (at_pos st)\<lparr>fi_pos := fi_pos st + length ?chunk\<rparr>"
    have st0: "fi_lineBuf st0 = fi_lineBuf st" "fi_outbox st0 = fi_outbox st" "fi_currentReadOffset st0 = int (fi_pos st)"
      "fi_LinesRead st0 = fi_LinesRead st" "fi_pos st0 = fi_pos st + length ?chunk" "reader_frame st st0"
      by (simp_all add: st0_def at_pos_def reader_frame_def)
    have cnt: "count_list ?rest newline = count_list ?chunk newline + count_list ?more newline"
      by (metis append_take_drop_id count_list_append)
    obtain st1 where st1: "processFileChunk L env ?chunk st0 = Some st1"
      "fi_lineBuf st1 = last (Split newline (fi_lineBuf st @ ?chunk))" "has_room (count_list ?more newline + n) (fi_outbox st1)"
      "fi_pos st1 = fi_pos st + length ?chunk" "fi_currentReadOffset st1 = int (fi_pos st) + int (length ?chunk)"
      "queue_contents (fi_outbox st1) = queue_contents (fi_outbox st) @ kept_messages L env st (lines_of st0 ?chunk)"
      "fi_LinesRead st1 = fi_LinesRead st + of_nat (count_list ?chunk newline)" "reader_frame st0 st1"
      using processFileChunk_lines [of st0 env ?chunk "count_list ?more newline + n" L] less.prems assms(4) st0 cnt
        kept_messages_frame [OF st0(6)] by (auto simp: add.assoc)
    have fr: "reader_frame st st1" using st0(6) st1(8) by (simp add: reader_frame_def)
    have more: "drop (fi_pos st1) content = ?more"
      using st1(4) by (cases "length ?rest \<le> 65536") (simp_all add: add.commute min_def)
    have pos: "fi_pos st1 \<le> length content" "length content - fi_pos st1 < length content - fi_pos st" "newline \<notin> set (fi_lineBuf st1)"
      using less.prems(3) False st1(2,4) last_Split by (auto simp: min_def)
    have step: "fileReadAll L env content st = fileReadAll L env content st1"
      using less.prems(1) False st1(1) by (subst fileReadAll.simps) (simp add: st0_def at_pos_def Let_def)
    have "lines_of (at_pos st) ?rest = lines_of st0 ?chunk @ lines_of (at_pos st1) ?more"
    proof -
      have "lines_of st0 (?chunk @ ?more) = lines_of st0 ?chunk @ lines_of (at_pos st1) ?more"
        by (rule lines_of_append) (use st0 st1 less.prems(2) in \<open>simp_all add: at_pos_def\<close>)
      moreover have "lines_of st0 ?rest = lines_of (at_pos st) ?rest" by (simp add: st0_def lines_of_def)
      ultimately show ?thesis unfolding append_take_drop_id by simp
    qed
    moreover have "Split newline (fi_lineBuf st @ ?rest) =
        butlast (Split newline (fi_lineBuf st @ ?chunk)) @ Split newline (fi_lineBuf st1 @ ?more)"
      using Split_append_last [of newline "fi_lineBuf st @ ?chunk" ?more] unfolding append_assoc append_take_drop_id st1(2) .
    ultimately show ?thesis
      using less.hyps [OF pos(2) _ pos(3,1)] less.prems(1) fr st1(3,6,7) more step cnt kept_messages_frame [OF fr, of L env]
      by (fastforce simp: reader_frame_def kept_messages_def add_ac)
  qed
qed
section \<open>Restarts\<close>

fun reader_run ::
  "reader_lib \<Rightarrow> ((int \<Rightarrow> line_env) \<times> (int \<Rightarrow> line_env) \<times> reader_world) list \<Rightarrow> file_In \<Rightarrow> (file_In \<times> turn_result) option" where
  "reader_run L [] st = Some (st, TurnOn)"
| "reader_run L ((env, env', w) # ws) st =
     (case reader_turn L env env' w st of
        None \<Rightarrow> None
      | Some (st, TurnStopped s) \<Rightarrow> Some (st, TurnStopped s)
      | Some (st, _) \<Rightarrow> reader_run L ws st)"

lemma fileReadAll_frame:
  "fileReadAll L env content st = Some (st', ok) \<Longrightarrow> fi_ino st' = fi_ino st \<and> 0 \<le> fi_currentReadOffset st'"
proof (induction L env content st rule: fileReadAll.induct)
  case (1 L env content st)
  show ?case
  proof (cases "fi_open st \<and> take 65536 (drop (fi_pos st) content) \<noteq> []")
    case True
    then obtain st1 where "processFileChunk L env (take 65536 (drop (fi_pos st) content))
        (st\<lparr>fi_currentReadOffset := int (fi_pos st), fi_pos := fi_pos st + length (take 65536 (drop (fi_pos st) content))\<rparr>) = Some st1"
      "fileReadAll L env content st1 = Some (st', ok)"
      using "1.prems" by (subst (asm) fileReadAll.simps) (auto simp: Let_def split: option.splits)
    then show ?thesis using "1.IH" True processFileChunk_frame by fastforce
  next
    case False
    then show ?thesis using "1.prems" by (subst (asm) fileReadAll.simps) (auto simp: Let_def split: if_splits)
  qed
qed

lemma after_event_frame: "fi_ino (fst (after_event w st)) = fi_ino st" "snd (after_event w st) \<noteq> TurnStopped s"
  by (simp_all add: after_event_def Let_def split: option.split)

text \<open>What a reader saves when it is stopped while it waits: the inode it holds for its file and the offset it reached.\<close>

lemma reader_turn_saved:
  assumes "reader_turn L env env' w st = Some (st', TurnStopped s)"
  shows "s = position_text (fi_ino st') (fi_currentReadOffset st')" and "0 \<le> fi_currentReadOffset st'"
proof -
  obtain st0 ok where r0: "fileReadAll L env (rw_content w) st = Some (st0, ok)"
    using assms by (auto simp: reader_turn_def split: option.splits)
  have no: "Some (after_event w x) \<noteq> Some (y, TurnStopped z)" for x y z
    using after_event_frame(2) [of w x z] by (cases "after_event w x") simp
  have "rw_event w = CtxDone"
  proof (cases "rw_event w")
    case FileChanged
    then show ?thesis using assms no [of st0 st' s] unfolding reader_turn_def r0 by simp
  next
    case FileRotated
    then show ?thesis
      using assms no unfolding reader_turn_def r0 by (cases "fileReadAll L env' (rw_late w) st0") (simp_all add: case_prod_unfold)
  qed
  then have "st' = st0" "s = position_text (fi_ino st0) (fi_currentReadOffset st0)"
    using assms r0 by (auto simp: reader_turn_def)
  then show "s = position_text (fi_ino st') (fi_currentReadOffset st')" "0 \<le> fi_currentReadOffset st'"
    using fileReadAll_frame [OF r0] by simp_all
qed

lemma reader_turn_ino:
  assumes "reader_turn L env env' w st = Some (st', r)" and "rw_event w \<noteq> FileRotated"
  shows "fi_ino st' = fi_ino st"
proof -
  obtain st0 ok where r0: "fileReadAll L env (rw_content w) st = Some (st0, ok)"
    using assms by (auto simp: reader_turn_def split: option.splits)
  have "fi_ino st' = fi_ino st0"
    using assms after_event_frame(1) [of w st0] unfolding reader_turn_def r0
    by (cases "rw_event w"; cases "after_event w st0") simp_all
  then show ?thesis using fileReadAll_frame [OF r0] by simp
qed

lemma reader_run_stopped:
  assumes "reader_run L ws st = Some (st', TurnStopped s)"
  shows "s = position_text (fi_ino st') (fi_currentReadOffset st') \<and> 0 \<le> fi_currentReadOffset st' \<and>
    ((\<forall>(env, env', w) \<in> set ws. rw_event w \<noteq> FileRotated) \<longrightarrow> fi_ino st' = fi_ino st)"
  using assms
proof (induction L ws st rule: reader_run.induct)
  case (2 L env env' w ws st)
  obtain st1 r where t: "reader_turn L env env' w st = Some (st1, r)"
    using "2.prems" by (auto split: option.splits)
  show ?case
  proof (cases "\<exists>s'. r = TurnStopped s'")
    case True
    then obtain s' where r: "r = TurnStopped s'" by blast
    then have "st' = st1" "s = s'" using "2.prems" unfolding reader_run.simps t by simp_all
    then show ?thesis using reader_turn_saved [OF t [unfolded r]] reader_turn_ino [OF t] by simp
  next
    case False
    then have "reader_run L ws st1 = Some (st', TurnStopped s)"
      using "2.prems" unfolding reader_run.simps t by (cases r) simp_all
    then have "s = position_text (fi_ino st') (fi_currentReadOffset st') \<and> 0 \<le> fi_currentReadOffset st' \<and>
        ((\<forall>(env, env', w) \<in> set ws. rw_event w \<noteq> FileRotated) \<longrightarrow> fi_ino st' = fi_ino st1)"
      using False "2.IH" [OF t refl] by (cases r) blast+
    then show ?thesis using reader_turn_ino [OF t] by simp
  qed
qed simp

lemma length_decimal: "0 < k \<Longrightarrow> n < 10 ^ k \<Longrightarrow> length (decimal n) \<le> k"
proof (induction n arbitrary: k rule: decimal.induct)
  case (1 n)
  show ?case
  proof (cases "n < 10")
    case True
    then show ?thesis using 1 by (subst decimal.simps) simp
  next
    case False
    then obtain j where j: "k = Suc j" "0 < j"
      using "1.prems" by (cases k; cases "k - 1") auto
    then have "n div 10 < 10 ^ j" using "1.prems"(2) by (simp add: less_mult_imp_div_less mult.commute)
    then show ?thesis using "1.IH" [of j] False j by (subst decimal.simps) simp
  qed
qed

text \<open>The position is read back as it was saved, if the file is still the same one.\<close>

lemma position_roundtrip:
  assumes "0 \<le> pos" and "pos < 2 ^ 63"
  shows "file_getLastPosition (Some (position_text ino pos)) (Some (cur, fileSize)) =
    (if ino = cur then (cur, min pos fileSize) else (cur, 0), Some (position_text ino pos))"
proof -
  let ?a = "decimal (unat ino)" and ?b = "decimal (nat pos)"
  have t: "position_text ino pos = ?a @ 32 # ?b" using assms(1) by (simp add: position_text_def FormatInt_def)
  have ino: "unat ino < 2 ^ 64" by (rule order_less_le_trans [OF unsigned_less]) simp
  have "length ?a \<le> 20" "length ?b \<le> 20"
    using length_decimal [of 20 "unat ino"] length_decimal [of 20 "nat pos"] ino assms by simp_all
  then have tk: "take 128 (?a @ 32 # ?b) = ?a @ 32 # ?b" by simp
  have "is_digit (hd (?a @ 32 # ?b))" "is_digit (last (?a @ 32 # ?b))"
    using decimal_is_digit [of "hd ?a" "unat ino"] decimal_is_digit [of "last ?b" "nat pos"] by simp_all
  then have tr: "TrimSpace (?a @ 32 # ?b) = ?a @ 32 # ?b" by (intro TrimSpace_visible is_digit_visible) simp_all
  have f: "Fields (?a @ 32 # ?b) = [?a, ?b]" by (intro Fields_pair) (simp_all add: list_all_iff decimal_is_digit)
  have "of_nat (unat ino) = cur \<longleftrightarrow> ino = cur" by simp
  then show ?thesis
    using assms ino by (simp add: file_getLastPosition_def t tk tr f Let_def ParseUint_decimal ParseInt_decimal min_def del: take_append)
qed

lemma file_NewInput_Some:
  assumes "file_NewInput E c path base fs q = Inr (Some st)"
  shows "fst (file_getLastPosition (fe_state E) (fe_stat E)) = (fi_ino st, fi_currentReadOffset st)"
    and "fi_pos st = nat (fi_currentReadOffset st)" and "fi_lineBuf st = []" and "fi_open st" and "fi_outbox st = q"
  using assms by (auto simp: file_NewInput_def split: if_splits option.splits prod.splits)

text \<open>A file of one line and the beginning of another, a clock that stands still, no filters.\<close>

definition no_times :: time_lib where
  "no_times = \<lparr>time_Parse = (\<lambda>_ _. None), time_Year = (\<lambda>_. 0), time_Month = (\<lambda>_. 0), time_Day = (\<lambda>_. 0), time_Hour = (\<lambda>_. 0),
     time_Minute = (\<lambda>_. 0), time_Second = (\<lambda>_. 0), time_Date = (\<lambda>_ _ _ _ _ _ _. 0), strings_ToLower = id\<rparr>"

definition example_reader :: reader_lib where
  "example_reader = \<lparr>rl_time = no_times, rl_sprint = (\<lambda>_. []), rl_pid = 7\<rparr>"

definition still :: "int \<Rightarrow> line_env" where "still _ = \<lparr>le_now = 5, le_done = [False]\<rparr>"

definition example_text :: bytes where "example_text = [104, 105, 10, 121, 111]"

definition example_world :: reader_world where
  "example_world = \<lparr>rw_content = example_text, rw_event = CtxDone, rw_late = [], rw_stats = [], rw_opened = True,
     rw_size = Some 5, rw_hostname = None\<rparr>"

definition example_new :: "bytes \<Rightarrow> file_new_env" where
  "example_new s = \<lparr>fe_opened = True, fe_state = Some s, fe_stat = Some (3, 9), fe_hostname = Some [104], fe_watcher = True\<rparr>"

definition example_file :: "64 word \<Rightarrow> Message Queue \<Rightarrow> file_In" where
  "example_file ino q = \<lparr>fi_localHostname = [104], fi_filters = [], fi_ctx = Some [NSoFile, [102]], fi_open = True, fi_pos = 0,
     fi_currentReadOffset = 0, fi_ino = ino, fi_lineBuf = [], fi_outbox = q, fi_LinesRead = 0, fi_Success = 0, fi_iter = 0\<rparr>"

lemma example_file_sel [simp]: "fi_open (example_file ino q)" "fi_lineBuf (example_file ino q) = []" "fi_pos (example_file ino q) = 0"
  "fi_outbox (example_file ino q) = q" "fi_ino (example_file ino q) = ino"
  by (simp_all add: example_file_def)

lemma example_new_file: "file_NewInput (example_new []) None [102] [102] [] q = Inr (Some (example_file 0 q))"
  by (simp add: file_NewInput_def example_new_def file_getLastPosition_def example_file_def OverwriteCtxTag_def GetTagList_def)

lemma example_data: "m_Data (line_message example_reader 5 (Some [NSoFile, [102]]) [104] [104, 105]) = [104, 105]"
  by code_simp

text \<open>The reader stopped after one turn, whatever the inode it knows.\<close>

lemma example_stopped:
  assumes "has_room 8 q"
  obtains st' s where "reader_run example_reader [(still, still, example_world)] (example_file ino q) = Some (st', TurnStopped s)"
    and "fi_currentReadOffset st' = 5"
proof -
  have "count_list example_text newline = 1" by code_simp
  then obtain st' where "fileReadAll example_reader still example_text (example_file ino q) = Some (st', True)" "fi_currentReadOffset st' = 5"
    using fileReadAll_lines [of "example_file ino q" example_text still 0 example_reader] has_room_less [OF assms, of 1]
    by (auto simp: still_def example_text_def)
  then show thesis using that by (simp add: reader_turn_def example_world_def)
qed

section \<open>Properties\<close>

text \<open>
  C32. The file input queues exactly the complete lines of the file, in order, each as one message,
  except those a filter drops: reading from a position with the beginning of a line in the buffer
  splits the new bytes at newlines, however they fall into read buffers, keeps what follows the last newline
  for the next read, and ends at the end of the file. The queue has room and the reader is not stopped.
\<close>

theorem file_lines_queued:
  assumes "fi_open st" and "newline \<notin> set (fi_lineBuf st)" and "fi_pos st \<le> length content"
    and "\<And>off. \<exists>ds. le_done (env off) = False # ds"
    and "has_room (count_list (drop (fi_pos st) content) newline) (fi_outbox st)"
  shows "\<exists>st'. fileReadAll L env content st = Some (st', True) \<and> fi_currentReadOffset st' = int (length content) \<and>
    fi_lineBuf st' = last (Split newline (fi_lineBuf st @ drop (fi_pos st) content)) \<and>
    queue_contents (fi_outbox st') = queue_contents (fi_outbox st) @ kept_messages L env st
      (zip (line_ends (int (fi_pos st)) (drop (fi_pos st) content)) (butlast (Split newline (fi_lineBuf st @ drop (fi_pos st) content)))) \<and>
    fi_LinesRead st' = fi_LinesRead st + of_nat (count_list (drop (fi_pos st) content) newline)"
  using fileReadAll_lines [of st content env 0 L, OF assms(1-4)] assms(5) by (auto simp: lines_of_def at_pos_def)

theorem file_lines_queued_witness:
  "\<exists>q st'. fileReadAll example_reader still example_text (example_file 3 q) = Some (st', True) \<and> fi_lineBuf st' = [121, 111] \<and>
    map m_Data (queue_contents (fi_outbox st')) = [[104, 105]]"
proof -
  obtain q :: "Message Queue" where q: "has_room 8 q" "queue_contents q = []" by (rule fresh_queue)
  have c: "count_list example_text newline = 1" by code_simp
  have s: "Split newline example_text = [[104, 105], [121, 111]]" "line_ends 0 example_text = [2]" by code_simp+
  have k: "map m_Data (kept_messages example_reader still (example_file 3 q) [(2, [104, 105])]) = [[104, 105]]"
    using example_data by (simp add: kept_messages_def example_file_def still_def)
  show ?thesis
    using file_lines_queued [of "example_file 3 q" example_text still example_reader] has_room_less [OF q(1), of 1] q(2) c s k
    by (intro exI [of _ q]) (auto simp: still_def)
qed



text \<open>
  A truncated file is not read from its start: the reader notices that the file is shorter than its
  offset, but leaves the position of the handle where it was, so nothing is read until the file has
  grown past the old position, and then only what lies behind it.
\<close>

theorem truncated_file_skipped:
  assumes "fi_open st" and "length (rw_content w) < fi_pos st" and "rw_event w = FileChanged"
    and "rw_size w = Some (int (length (rw_content w)))"
  shows "\<exists>st'. reader_turn L env env' w st = Some (st', TurnTruncated) \<and> fi_pos st' = fi_pos st \<and> fi_outbox st' = fi_outbox st \<and>
    (length content \<le> fi_pos st \<longrightarrow> (\<exists>st''. fileReadAll L env2 content st' = Some (st'', True) \<and> fi_outbox st'' = fi_outbox st \<and>
       fi_LinesRead st'' = fi_LinesRead st))"
proof -
  have r: "fileReadAll L e c st0 = Some (st0\<lparr>fi_currentReadOffset := int (fi_pos st0)\<rparr>, True)"
    if "fi_open st0" "length c \<le> fi_pos st0" for e c st0
    using that by (subst fileReadAll.simps) (simp add: Let_def)
  let ?st = "st\<lparr>fi_currentReadOffset := 0, fi_lineBuf := []\<rparr>"
  have "reader_turn L env env' w st = Some (?st, TurnTruncated)"
    using r [of st "rw_content w" env] assms by (simp add: reader_turn_def after_event_def)
  then show ?thesis using r [of ?st content env2] assms(1) by auto
qed

theorem truncated_file_skipped_witness:
  "\<exists>q st'. reader_turn example_reader still still (example_world\<lparr>rw_event := FileChanged\<rparr>) ((example_file 3 q)\<lparr>fi_pos := 9\<rparr>) =
    Some (st', TurnTruncated) \<and> fi_pos st' = 9 \<and> queue_contents (fi_outbox st') = []"
proof -
  obtain q :: "Message Queue" where "queue_contents q = []" by (rule fresh_queue)
  then show ?thesis
    using truncated_file_skipped [of "(example_file 3 q)\<lparr>fi_pos := 9\<rparr>" "example_world\<lparr>rw_event := FileChanged\<rparr>" example_reader still still]
    by (fastforce simp: example_world_def example_text_def)
qed

text \<open>
  A line in the format of syslog, time stamp, host, application with process id, text, becomes the message with
  exactly these parts: the time in the current year, facility and severity at their defaults.
\<close>

theorem syslog_line_parsed:
  assumes stamp: "length stamp = 15" "visible (hd stamp)" "time_Parse T LayoutSyslog stamp = Some ts" "withCurrentYear T now ts \<noteq> Time_zero"
    and host: "host \<noteq> []" "list_all visible host"
    and app: "app \<noteq> []" "list_all visible app" "58 \<notin> set app" "91 \<notin> set app" "93 \<notin> set app" "pid < 2 ^ 63"
    and body: "body \<noteq> []" "visible (hd body)" "visible (last body)"
  shows "\<exists>msg. parseLine T now self (syslog_line stamp host app pid body) localHostname = msg \<and>
    m_Timestamp msg = withCurrentYear T now ts \<and> m_Hostname msg = host \<and> m_Data msg = body \<and>
    map_of (m_Fields msg) = [CFappname \<mapsto> AnyString app, CFprocessid \<mapsto> AnyInt (of_nat pid),
      CFfacility \<mapsto> AnyString DefaultFacility, CFseverity \<mapsto> AnyString DefaultSeverity]"
proof -
  have "stamp \<noteq> []" using stamp(1) by auto
  then have "TrimSpace (syslog_line stamp host app pid body) = syslog_line stamp host app pid body"
    using stamp(2) body by (intro TrimSpace_visible) (simp_all add: syslog_line_def)
  then have "parseLine T now self (syslog_line stamp host app pid body) localHostname =
      file_setDefaults now self (syslog_line stamp host app pid body) localHostname
        (put_field CFprocessid (AnyInt (of_nat pid)) (put_field CFappname (AnyString app)
          \<lparr>m_Timestamp = Time_zero, m_Hostname = host, m_Fields = [], m_Data = body\<rparr>)\<lparr>m_Timestamp := withCurrentYear T now ts\<rparr>)"
    (is "_ = file_setDefaults _ _ _ _ ?m")
    using parse_syslog_line [OF stamp(1,3) host app body, of now] by (simp add: parseLine_def unless_done_def Let_def)
  moreover have b: "default_basics now raw localHostname ?m = ?m" for raw
    using stamp(4) host(1) body(1) by (simp add: default_basics_def Let_def)
  have "map_of (m_Fields ?m) = [CFappname \<mapsto> AnyString app, CFprocessid \<mapsto> AnyInt (of_nat pid)]" by simp
  ultimately show ?thesis by (simp add: file_setDefaults_def Let_def b default_field_def)
qed

definition stamp_lib :: time_lib where
  "stamp_lib = no_times\<lparr>time_Parse := (\<lambda>layout s. if layout = LayoutSyslog \<and> s = bytes_of_string ''Jan  2 15:04:05'' then Some 9 else None)\<rparr>"

theorem syslog_line_parsed_witness:
  "\<exists>msg. parseLine stamp_lib 5 1 (syslog_line (bytes_of_string ''Jan  2 15:04:05'') (bytes_of_string ''web1'') (bytes_of_string ''sshd'') 42
      (bytes_of_string ''session opened'')) (bytes_of_string ''here'') = msg \<and> m_Hostname msg = bytes_of_string ''web1'' \<and>
    map_of (m_Fields msg) CFprocessid = Some (AnyInt 42)"
proof -
  let ?b = bytes_of_string
  have "length (?b ''Jan  2 15:04:05'') = 15" "visible (hd (?b ''Jan  2 15:04:05''))"
    "time_Parse stamp_lib LayoutSyslog (?b ''Jan  2 15:04:05'') = Some 9" "withCurrentYear stamp_lib 5 9 \<noteq> Time_zero"
    "?b ''web1'' \<noteq> []" "list_all visible (?b ''web1'')" "?b ''sshd'' \<noteq> []" "list_all visible (?b ''sshd'')" "58 \<notin> set (?b ''sshd'')"
    "91 \<notin> set (?b ''sshd'')" "93 \<notin> set (?b ''sshd'')" "(42 :: nat) < 2 ^ 63" "?b ''session opened'' \<noteq> []"
    "visible (hd (?b ''session opened''))" "visible (last (?b ''session opened''))"
    by code_simp+
  from syslog_line_parsed [OF this, of 1 "?b ''here''"] show ?thesis by auto
qed

end
