(* ===== verification/Journal_Module.thy ===== *)
theory Journal_Module
  imports File_Input "HOL-Library.AList"
begin

text \<open>
  The systemd journal as input and output (\<^verbatim>\<open>internal/iomodules/journald\<close>) and the names of syslog it uses
  (\<^verbatim>\<open>internal/iomodules/syslog\<close>): reading an entry of the journal export format, turning its fields into a message, the
  cursor kept between runs, and the entry written for a received message. The pipe of the journal
  command is a byte string that ends where the command has ended; the order of a range over a map is an argument.
\<close>

section \<open>Syslog names\<close>

definition facilities :: "(bytes \<times> 16 word) list" where
  "facilities = map (\<lambda>(n, c). (bytes_of_string n, c))
     [(''kern'', 0), (''user'', 1), (''mail'', 2), (''daemon'', 3), (''auth'', 4), (''syslog'', 5), (''lpr'', 6), (''news'', 7),
      (''uucp'', 8), (''cron'', 9), (''authpriv'', 10), (''ftp'', 11), (''local0'', 16), (''local1'', 17), (''local2'', 18),
      (''local3'', 19), (''local4'', 20), (''local5'', 21), (''local6'', 22), (''local7'', 23)]"

definition severities :: "(bytes \<times> 16 word) list" where
  "severities = map (\<lambda>(n, c). (bytes_of_string n, c))
     [(''emerg'', 0), (''alert'', 1), (''crit'', 2), (''err'', 3), (''warning'', 4), (''notice'', 5), (''info'', 6), (''debug'', 7)]"

definition FacilityToCode :: "bytes \<Rightarrow> 16 word option" where "FacilityToCode = map_of facilities"
definition SeverityToCode :: "bytes \<Rightarrow> 16 word option" where "SeverityToCode = map_of severities"

text \<open>The reverse tables are filled by a range over the others, whose order does not matter.\<close>

definition CodeToFacility :: "16 word \<Rightarrow> bytes option" where "CodeToFacility = map_of (map prod.swap facilities)"
definition CodeToSeverity :: "16 word \<Rightarrow> bytes option" where "CodeToSeverity = map_of (map prod.swap severities)"

section \<open>Reading an entry\<close>

text \<open>A line of the stream without its newline, and what follows; at the end of the stream there is none.\<close>

definition read_line :: "bytes \<Rightarrow> (bytes \<times> bytes) option" where
  "read_line s = (case IndexByte s newline of None \<Rightarrow> None | Some i \<Rightarrow> Some (take i s, drop (i + 1) s))"

definition le_val :: "bytes \<Rightarrow> nat" where "le_val bs = be_val (rev bs)"

datatype entry_error = EmptyEntry | LengthRead | TooLarge nat | ValueRead | NoNewline

lemma read_line_shorter: "read_line s = Some (l, r) \<Longrightarrow> length r < length s"
  by (auto simp: read_line_def split: option.splits dest!: IndexByte_Some)

text \<open>
  The fields of an entry so far, in the order in which they were first seen; the end of the stream
  ends the entry without an error.
\<close>

function extract_loop :: "bytes \<Rightarrow> (bytes \<times> bytes) list \<Rightarrow> (entry_error + (bytes \<times> bytes) list) \<times> bytes" where
  "extract_loop s fs =
     (case read_line s of
        None \<Rightarrow> (Inr fs, [])
      | Some (line, s) \<Rightarrow>
          if line = [] then (if fs = [] then Inl EmptyEntry else Inr fs, s)
          else (case IndexByte line 61 of
             Some i \<Rightarrow> extract_loop s (AList.update (take i line) (drop (i + 1) line) fs)
           | None \<Rightarrow>
               if length s < 8 then (Inl LengthRead, [])
               else
                 let n = le_val (take 8 s); s = drop 8 s in
                 if n > 1024 * 1024 * 10 then (Inl (TooLarge n), s)
                 else if length s < n then (Inl ValueRead, [])
                 else
                   let val = take n s; s = drop n s in
                   if s = [] \<or> hd s \<noteq> newline then (Inl NoNewline, tl s)
                   else extract_loop (tl s) (AList.update line val fs)))"
  by pat_completeness auto
termination
  by (relation "measure (\<lambda>(s, fs). length s)") (auto dest!: read_line_shorter)

declare extract_loop.simps [simp del]

definition extractEntry :: "bytes \<Rightarrow> (entry_error + (bytes \<times> bytes) list) \<times> bytes" where
  "extractEntry s = extract_loop s []"

section \<open>Fields of a message\<close>

definition FieldTruncationSuffix :: bytes where "FieldTruncationSuffix = bytes_of_string ''[...TRUNCATED]''"
definition MaxTruncatedFieldLen :: nat where "MaxTruncatedFieldLen = MaxCtxValLen - length FieldTruncationSuffix"

datatype field_error =
  NoMessage | NoTimestamp | BadTimestamp | NoUnit | BadPriority | UnknownSeverity | BadPid | BadFacility | UnknownFacility

fun first_of :: "(bytes \<times> bytes) list \<Rightarrow> string list \<Rightarrow> bytes option" where
  "first_of fs [] = None"
| "first_of fs (key # keys) =
     (case map_of fs (bytes_of_string key) of Some val \<Rightarrow> Some val | None \<Rightarrow> first_of fs keys)"

definition truncated :: "bytes \<Rightarrow> bytes" where
  "truncated v = (if length v > MaxCtxValLen then take MaxTruncatedFieldLen v @ FieldTruncationSuffix else v)"

definition permittedJournalFields :: "bytes list" where
  "permittedJournalFields = map bytes_of_string [''_EXE'', ''_COMM'', ''_CMDLINE'', ''_UID'', ''_GID'']"

definition put_permitted :: "(bytes \<times> bytes) list \<Rightarrow> bytes \<Rightarrow> Message \<Rightarrow> Message" where
  "put_permitted fs field msg =
     (case map_of fs field of None \<Rightarrow> msg | Some v \<Rightarrow> put_field field (AnyString (truncated v)) msg)"

text \<open>A number of the entry, the default where the field is missing, as the name of its low 16 bits.\<close>

definition named_code :: "(16 word \<Rightarrow> bytes option) \<Rightarrow> field_error \<Rightarrow> field_error \<Rightarrow> bytes option \<Rightarrow> string \<Rightarrow> field_error + bytes" where
  "named_code names bad unknown v d =
     (case Atoi (case v of Some x \<Rightarrow> x | None \<Rightarrow> bytes_of_string d) of
        None \<Rightarrow> Inl bad
      | Some n \<Rightarrow> (case names (of_int n) of None \<Rightarrow> Inl unknown | Some name \<Rightarrow> Inr name))"

definition parseFields :: "int \<Rightarrow> (bytes \<times> bytes) list \<Rightarrow> bytes \<Rightarrow> field_error + Message" where
  "parseFields pid fs localHostname =
     (let get = (\<lambda>key. map_of fs (bytes_of_string key)) in
      case get ''MESSAGE'' of
        None \<Rightarrow> Inl NoMessage
      | Some rawData \<Rightarrow>
      (case get ''__REALTIME_TIMESTAMP'' of
        None \<Rightarrow> Inl NoTimestamp
      | Some rawTimestamp \<Rightarrow>
      (case ParseInt0 rawTimestamp of
        None \<Rightarrow> Inl BadTimestamp
      | Some rawTimestampUs \<Rightarrow>
      (case first_of fs [''SYSLOG_IDENTIFIER'', ''_SYSTEMD_USER_UNIT'', ''_SYSTEMD_UNIT''] of
        None \<Rightarrow> Inl NoUnit
      | Some unit \<Rightarrow>
        rbind (named_code CodeToSeverity BadPriority UnknownSeverity (get ''PRIORITY'') ''6'') (\<lambda>severity.
        rbind (case (case first_of fs [''_PID'', ''SYSLOG_PID''] of Some p \<Rightarrow> p | None \<Rightarrow> []) of
                 [] \<Rightarrow> Inr pid
               | c # cs \<Rightarrow> (case Atoi (c # cs) of None \<Rightarrow> Inl BadPid | Some n \<Rightarrow> Inr n)) (\<lambda>processid.
        rbind (named_code CodeToFacility BadFacility UnknownFacility (get ''SYSLOG_FACILITY'') ''3'') (\<lambda>facility.
        let msg = \<lparr>m_Timestamp = rawTimestampUs * 1000,
                   m_Hostname = (case get ''_HOSTNAME'' of Some h \<Rightarrow> h | None \<Rightarrow> localHostname), m_Fields = [], m_Data = rawData\<rparr>;
            msg = put_field CFappname (AnyString unit) msg;
            msg = put_field CFseverity (AnyString severity) msg;
            msg = put_field CFprocessid (AnyInt (of_int processid)) msg;
            msg = put_field CFfacility (AnyString facility) msg in
        Inr (fold (put_permitted fs) permittedJournalFields msg))))))))"

section \<open>The reader\<close>

record journal_In =
  ji_filters :: "MessageFilter list"
  ji_localHostname :: bytes
  ji_ctx :: ctx
  ji_outbox :: "Message Queue"
  ji_LinesRead :: "64 word"
  ji_Success :: "64 word"
  ji_iter :: "64 word"
  ji_readPosition :: bytes

datatype journal_result = JEntryError entry_error | JNothing | JFieldError field_error | JDropped | JQueued

text \<open>One turn on what the pipe holds; the host name is read again at every 1024th message.\<close>

definition journal_turn ::
  "reader_lib \<Rightarrow> line_env \<Rightarrow> bytes option \<Rightarrow> bytes \<times> journal_In \<Rightarrow> ((bytes \<times> journal_In) \<times> journal_result) option" where
  "journal_turn L e newName st =
     (case st of (s, m) \<Rightarrow>
      case extractEntry s of
        (Inl err, s) \<Rightarrow> Some ((s, m), JEntryError err)
      | (Inr fs, s) \<Rightarrow>
          if fs = [] then Some ((s, m), JNothing)
          else
            let m = m\<lparr>ji_readPosition := (case map_of fs (bytes_of_string ''__CURSOR'') of Some c \<Rightarrow> c | None \<Rightarrow> [])\<rparr> in
            (case parseFields (rl_pid L) fs (ji_localHostname m) of
               Inl err \<Rightarrow> Some ((s, m), JFieldError err)
             | Inr msg \<Rightarrow>
                 let m = m\<lparr>ji_LinesRead := ji_LinesRead m + 1\<rparr>;
                     msg = put_field CtxKey (AnyString (Join [slash] (GetTagList (ji_ctx m)))) msg in
                 if list_ex (\<lambda>filter. MessageFilter_Match (rl_sprint L) filter msg) (ji_filters m) then Some ((s, m), JDropped)
                 else (case PushBlocking (le_done e) (ji_outbox m) msg (of_nat (Message_Size msg)) of
                    None \<Rightarrow> None
                  | Some q \<Rightarrow>
                      let m = m\<lparr>ji_outbox := q, ji_Success := ji_Success m + 1, ji_iter := ji_iter m + 1\<rparr>;
                          m = (if unat (ji_iter m) mod 1024 = 0
                               then (case newName of Some h \<Rightarrow> m\<lparr>ji_localHostname := h\<rparr> | None \<Rightarrow> m) else m) in
                      Some ((s, m), JQueued))))"

section \<open>The cursor between runs\<close>

definition journal_savePosition :: "bytes \<Rightarrow> bytes \<Rightarrow> bytes" where
  "journal_savePosition cursor state = (if cursor = [] then state else cursor)"

text \<open>\<^verbatim>\<open>strings.Trim(s, "\n")\<close>.\<close>

definition trim_newlines :: "bytes \<Rightarrow> bytes" where
  "trim_newlines s = rev (dropWhile (\<lambda>b. b = newline) (rev (dropWhile (\<lambda>b. b = newline) s)))"

definition journal_getLastPosition :: "bytes \<Rightarrow> bytes" where
  "journal_getLastPosition state =
     (let cursor = trim_newlines (take 256 state);
          testCursorFields = Split 59 cursor;
          cursor = (if length testCursorFields < 3 then [] else cursor) in
      if HasPrefix (testCursorFields ! 0) (bytes_of_string ''s='') then [] else cursor)"

definition journal_args :: "bytes \<Rightarrow> bytes list" where
  "journal_args state =
     (let readPosition = journal_getLastPosition state; cmdArgs = map bytes_of_string [''--output=export'', ''--follow'', ''--no-pager''] in
      if readPosition \<noteq> [] then cmdArgs @ [bytes_of_string ''--after-cursor'', readPosition] else cmdArgs)"

datatype journal_in_error = BadJournalFilter nat filter_error | NoJournalHostname | NoStateFile | NoPipe

definition NSoJrnl :: bytes where "NSoJrnl = bytes_of_string ''Journal''"

text \<open>The new module together with the arguments of the command; the state file is \<open>None\<close> if it cannot be read.\<close>

definition journal_NewInput ::
  "bytes option \<Rightarrow> bool \<Rightarrow> bytes option \<Rightarrow> ctx \<Rightarrow> MessageFilter list \<Rightarrow> Message Queue \<Rightarrow> journal_in_error + bytes list \<times> journal_In" where
  "journal_NewInput state pipes hostname c filters queue =
     (case state of
        None \<Rightarrow> Inl NoStateFile
      | Some state \<Rightarrow>
          if \<not> pipes then Inl NoPipe
          else (case first_bad_filter 0 filters of
             Some (i, e) \<Rightarrow> Inl (BadJournalFilter i e)
           | None \<Rightarrow>
               (case hostname of
                  None \<Rightarrow> Inl NoJournalHostname
                | Some h \<Rightarrow> Inr (journal_args state,
                    \<lparr>ji_filters = filters, ji_localHostname = h, ji_ctx = OverwriteCtxTag (GetTagList c @ [NSoJrnl]) c,
                     ji_outbox = queue, ji_LinesRead = 0, ji_Success = 0, ji_iter = 0, ji_readPosition = []\<rparr>))))"

definition journal_CollectMetrics :: "int \<Rightarrow> int \<Rightarrow> journal_In \<Rightarrow> journal_In \<times> Metric list" where
  "journal_CollectMetrics interval recordTime m =
     (let mk = mk_metric (GetTagList (ji_ctx m)) interval recordTime in
      (m\<lparr>ji_LinesRead := 0, ji_Success := 0\<rparr>,
       [mk ''lines_read'' ''Total lines read from journald in the interval'' (RawUint64 (ji_LinesRead m)) ''count'' Counter,
        mk ''success_processed'' ''Total processed messages extracted from journald in the interval''
          (RawUint64 (ji_Success m)) ''count'' Counter]))"

section \<open>Writing an entry\<close>

definition put_custom :: "text_lib \<Rightarrow> bytes \<times> any \<Rightarrow> (bytes \<times> bytes) list \<Rightarrow> (bytes \<times> bytes) list" where
  "put_custom T kv fs =
     (case kv of (key, value) \<Rightarrow>
        let key = TrimPrefix key [95]; text = FormatValue T value in
        if text = [] then fs else AList.update key text fs)"

text \<open>The fields of the entry; \<open>customs\<close> are the custom fields in the order of the range.\<close>

definition journal_fields :: "text_lib \<Rightarrow> int \<Rightarrow> bytes \<Rightarrow> fields \<Rightarrow> Payload \<Rightarrow> (bytes \<times> bytes) list" where
  "journal_fields T nowUs bootID customs msg =
     fold (put_custom T) customs
       (map (\<lambda>(k, v). (bytes_of_string k, v))
         [(''__REALTIME_TIMESTAMP'', FormatInt nowUs), (''_BOOT_ID'', bootID), (''MESSAGE'', Data msg), (''HOSTNAME'', Hostname msg),
          (''SYSLOG_HOSTNAME'', Hostname msg), (''SYSLOG_TIMESTAMP'', FormatRFC3339Nano T (Timestamp msg)),
          (''REMOTE_IP'', Addr_String (RemoteIP msg))])"

definition field_text :: "bytes \<times> bytes \<Rightarrow> bytes" where
  "field_text kv = (case kv of (key, value) \<Rightarrow> if key = [] \<or> value = [] then [] else key @ [61] @ value @ [newline])"

definition journal_text :: "(bytes \<times> bytes) list \<Rightarrow> bytes" where
  "journal_text fs = concat (map field_text fs) @ [newline]"

text \<open>
  The entry and whether it was sent; \<open>order\<close> is the order of the range over the fields. The module is there: on a nil module
  the code returns at once, with nothing written.
\<close>

definition journal_Write ::
  "text_lib \<Rightarrow> int \<Rightarrow> bytes \<Rightarrow> fields \<Rightarrow> ((bytes \<times> bytes) list \<Rightarrow> (bytes \<times> bytes) list) \<Rightarrow> bool \<Rightarrow> Payload \<Rightarrow> bytes \<times> nat option" where
  "journal_Write T nowUs bootID customs order sent msg =
     (journal_text (order (journal_fields T nowUs bootID customs msg)), if sent then Some 1 else None)"

section \<open>The export format\<close>

lemma read_line_append: "newline \<notin> set l \<Longrightarrow> read_line (l @ newline # s) = Some (l, s)"
  by (simp add: read_line_def IndexByte_append)

lemma extract_text:
  assumes "newline \<notin> set k" "newline \<notin> set v" "61 \<notin> set k"
  shows "extract_loop (k @ 61 # v @ newline # s) fs = extract_loop s (AList.update k v fs)"
proof -
  have "read_line ((k @ 61 # v) @ newline # s) = Some (k @ 61 # v, s)"
    using assms by (intro read_line_append) auto
  then show ?thesis
    using assms by (subst extract_loop.simps) (simp add: IndexByte_append)
qed

lemma extract_binary:
  assumes "newline \<notin> set k" "61 \<notin> set k" "k \<noteq> []" "length v \<le> 1024 * 1024 * 10"
  shows "extract_loop (k @ newline # rev (be 8 (length v)) @ v @ newline # s) fs = extract_loop s (AList.update k v fs)"
proof -
  have "le_val (rev (be 8 (length v))) = length v"
    using assms(4) by (simp add: le_val_def be_val_be)
  moreover have "IndexByte k 61 = None" using assms(2) by (simp add: IndexByte_None)
  ultimately show ?thesis
    using assms by (subst extract_loop.simps) (simp add: read_line_append Let_def)
qed

lemma extract_end: "fs \<noteq> [] \<Longrightarrow> extract_loop (newline # s) fs = (Inr fs, s)"
  using read_line_append [of "[]" s] by (subst extract_loop.simps) simp

text \<open>The documented encoding of an entry: a value with a newline is preceded by its length.\<close>

definition export_field :: "bytes \<times> bytes \<Rightarrow> bytes" where
  "export_field kv = (case kv of (k, v) \<Rightarrow>
     if newline \<in> set v then k @ newline # rev (be 8 (length v)) @ v @ [newline] else k @ 61 # v @ [newline])"

definition export_entry :: "(bytes \<times> bytes) list \<Rightarrow> bytes" where
  "export_entry fs = concat (map export_field fs) @ [newline]"

definition field_ok :: "bytes \<times> bytes \<Rightarrow> bool" where
  "field_ok kv \<longleftrightarrow> (case kv of (k, v) \<Rightarrow> k \<noteq> [] \<and> newline \<notin> set k \<and> 61 \<notin> set k \<and> length v \<le> 1024 * 1024 * 10)"

lemma extract_field: "field_ok (k, v) \<Longrightarrow> extract_loop (export_field (k, v) @ s) fs = extract_loop s (AList.update k v fs)"
  by (auto simp: field_ok_def export_field_def extract_text extract_binary)

lemma extract_entry_loop:
  assumes "list_all field_ok kvs" "kvs \<noteq> [] \<or> fs \<noteq> []"
  shows "extract_loop (concat (map export_field kvs) @ newline # s) fs = (Inr (fold (\<lambda>(k, v). AList.update k v) kvs fs), s)"
  using assms
proof (induction kvs arbitrary: fs)
  case Nil
  then show ?case by (simp add: extract_end)
next
  case (Cons kv kvs)
  obtain k v where kv: "kv = (k, v)" by (cases kv)
  have "AList.update k v fs \<noteq> []" by (cases fs) auto
  then show ?case using Cons by (simp add: kv extract_field)
qed

lemma entry_update_fresh: "k \<notin> fst ` set fs \<Longrightarrow> AList.update k v fs = fs @ [(k, v)]"
  by (induction fs) auto

lemma fold_update_fresh:
  "distinct (map fst (fs @ kvs)) \<Longrightarrow> fold (\<lambda>(k, v). AList.update k v) kvs fs = fs @ kvs"
  by (induction kvs arbitrary: fs) (auto simp: entry_update_fresh)

lemma map_of_fold_update: "map_of (fold (\<lambda>(k, v). AList.update k v) kvs fs) = map_of fs ++ map_of (rev kvs)"
  by (induction kvs arbitrary: fs) (auto simp: update_conv' fun_eq_iff map_add_def split: option.splits)

lemma export_roundtrip:
  "list_all field_ok fs \<Longrightarrow> fs \<noteq> [] \<Longrightarrow> distinct (map fst fs) \<Longrightarrow> extractEntry (export_entry fs @ rest) = (Inr fs, rest)"
  by (simp add: extractEntry_def export_entry_def extract_entry_loop fold_update_fresh)

section \<open>The entry that is written\<close>

definition field_shown :: "bytes \<times> bytes \<Rightarrow> bool" where
  "field_shown kv \<longleftrightarrow> fst kv \<noteq> [] \<and> snd kv \<noteq> []"

text \<open>A text field whose value may be anything without a newline.\<close>

definition line_field :: "bytes \<times> bytes \<Rightarrow> bool" where
  "line_field kv \<longleftrightarrow> newline \<notin> set (fst kv) \<and> 61 \<notin> set (fst kv) \<and> newline \<notin> set (snd kv)"

lemma extract_lines:
  assumes "list_all line_field kvs" "kvs \<noteq> [] \<or> fs \<noteq> []"
  shows "extract_loop (concat (map (\<lambda>(k, v). k @ 61 # v @ [newline]) kvs) @ newline # s) fs =
    (Inr (fold (\<lambda>(k, v). AList.update k v) kvs fs), s)"
  using assms
proof (induction kvs arbitrary: fs)
  case Nil
  then show ?case by (simp add: extract_end)
next
  case (Cons kv kvs)
  obtain k v where kv: "kv = (k, v)" by (cases kv)
  have "AList.update k v fs \<noteq> []" by (cases fs) auto
  then show ?case using Cons by (simp add: kv line_field_def extract_text)
qed

lemma journal_text_lines: "journal_text fs = concat (map (\<lambda>(k, v). k @ 61 # v @ [newline]) (filter field_shown fs)) @ [newline]"
  by (induction fs) (auto simp: journal_text_def field_text_def field_shown_def)

lemma extract_journal_text:
  assumes "list_all line_field fs" "list_ex field_shown fs" "distinct (map fst fs)"
  shows "extractEntry (journal_text fs) = (Inr (filter field_shown fs), [])"
proof -
  have "distinct (map fst (filter field_shown fs))" using assms(3) by (simp add: distinct_map inj_on_def)
  moreover have "filter field_shown fs \<noteq> []" using assms(2) by (auto simp: list_ex_iff filter_empty_conv)
  moreover have "list_all line_field (filter field_shown fs)" using assms(1) by (simp add: list_all_iff)
  ultimately show ?thesis
    using extract_lines [of "filter field_shown fs" "[]" "[]"] fold_update_fresh [of "[]" "filter field_shown fs"]
    by (simp add: extractEntry_def journal_text_lines)
qed

lemma fold_put_custom:
  "distinct (map fst fs) \<Longrightarrow> distinct (map fst (fold (put_custom T) customs fs))"
  by (induction customs arbitrary: fs) (auto simp: put_custom_def Let_def AList.distinct_update)

lemma journal_fields_distinct: "distinct (map fst (journal_fields T nowUs bootID customs msg))"
  unfolding journal_fields_def by (rule fold_put_custom) (simp add: bytes_of_string_def)

lemma set_fold_put_custom:
  "kv \<in> set (fold (put_custom T) customs fs) \<Longrightarrow>
    kv \<in> set fs \<or> (\<exists>(k, v) \<in> set customs. kv = (TrimPrefix k [95], FormatValue T v))"
proof (induction customs arbitrary: fs)
  case (Cons c customs)
  obtain k v where c: "c = (k, v)" by (cases c)
  have "set (AList.update k' x xs) \<subseteq> insert (k', x) (set xs)" for k' x and xs :: "(bytes \<times> bytes) list"
    by (induction xs) auto
  then have "set (put_custom T c fs) \<subseteq> insert (TrimPrefix k [95], FormatValue T v) (set fs)"
    by (auto simp: c put_custom_def Let_def)
  then show ?case using Cons.IH [of "put_custom T c fs"] Cons.prems by (auto simp: c)
qed simp

text \<open>Some field is always there: the custom fields never remove one or empty it.\<close>

lemma put_custom_shown: "list_ex field_shown fs \<Longrightarrow> list_ex field_shown (put_custom T c fs)"
proof -
  assume a: "list_ex field_shown fs"
  have "list_ex field_shown (AList.update k v fs)" if "v \<noteq> []" for k v
    using a that by (induction fs) (auto simp: field_shown_def)
  then show ?thesis using a by (auto simp: put_custom_def Let_def split: prod.splits)
qed

lemma fold_custom_shown: "list_ex field_shown fs \<Longrightarrow> list_ex field_shown (fold (put_custom T) customs fs)"
  by (induction customs arbitrary: fs) (auto simp: put_custom_shown)

lemma journal_shown: "list_ex field_shown (journal_fields T nowUs bootID customs msg)"
  unfolding journal_fields_def
  by (rule fold_custom_shown) (simp add: field_shown_def FormatInt_def bytes_of_string_def)

abbreviation MESSAGE :: bytes where "MESSAGE \<equiv> bytes_of_string ''MESSAGE''"

text \<open>The value that a message prescribes for a name of its entry, computed without a map: the last custom field of that name with a text,
  where one leading underscore of its name does not count, else the field of the message itself.\<close>

definition strip_underscore :: "bytes \<Rightarrow> bytes" where
  "strip_underscore n = (case n of [] \<Rightarrow> [] | b # r \<Rightarrow> if b = 95 then r else n)"

definition own_value :: "text_lib \<Rightarrow> int \<Rightarrow> bytes \<Rightarrow> Payload \<Rightarrow> bytes \<Rightarrow> bytes" where
  "own_value T nowUs bootID msg k =
     (if k = bytes_of_string ''__REALTIME_TIMESTAMP'' then FormatInt nowUs
      else if k = bytes_of_string ''_BOOT_ID'' then bootID
      else if k = bytes_of_string ''MESSAGE'' then Data msg
      else if k = bytes_of_string ''HOSTNAME'' then Hostname msg
      else if k = bytes_of_string ''SYSLOG_HOSTNAME'' then Hostname msg
      else if k = bytes_of_string ''SYSLOG_TIMESTAMP'' then FormatRFC3339Nano T (Timestamp msg)
      else if k = bytes_of_string ''REMOTE_IP'' then Addr_String (RemoteIP msg)
      else [])"

definition entry_value :: "text_lib \<Rightarrow> int \<Rightarrow> bytes \<Rightarrow> fields \<Rightarrow> Payload \<Rightarrow> bytes \<Rightarrow> bytes" where
  "entry_value T nowUs bootID customs msg k =
     (let given = [FormatValue T v. (n, v) \<leftarrow> customs, strip_underscore n = k \<and> FormatValue T v \<noteq> []] in
      if given \<noteq> [] then last given else own_value T nowUs bootID msg k)"

lemma TrimPrefix_underscore: "TrimPrefix n [95] = strip_underscore n"
  by (cases n) (simp_all add: TrimPrefix_def strip_underscore_def)

lemma map_of_put_customs:
  "map_of (fold (put_custom T) customs fs) k =
    (let given = [FormatValue T v. (n, v) \<leftarrow> customs, strip_underscore n = k \<and> FormatValue T v \<noteq> []] in
     if given \<noteq> [] then Some (last given) else map_of fs k)"
proof (induction customs rule: rev_induct)
  case (snoc c customs)
  then show ?case
    by (cases c) (auto simp: put_custom_def Let_def TrimPrefix_underscore update_conv' split: if_splits)
qed simp

lemma map_of_shown:
  "distinct (map fst xs) \<Longrightarrow> map_of (filter field_shown xs) k =
    (case map_of xs k of None \<Rightarrow> None | Some v \<Rightarrow> if k = [] \<or> v = [] then None else Some v)"
proof (induction xs)
  case (Cons x xs)
  have "map_of xs (fst x) = None" using Cons.prems by (simp add: map_of_eq_None_iff)
  then show ?case using Cons by (cases x) (auto simp: field_shown_def split: option.splits)
qed simp

abbreviation own_fields :: "text_lib \<Rightarrow> int \<Rightarrow> bytes \<Rightarrow> Payload \<Rightarrow> (bytes \<times> bytes) list" where
  "own_fields T nowUs bootID msg \<equiv> map (\<lambda>(k, v). (bytes_of_string k, v))
     [(''__REALTIME_TIMESTAMP'', FormatInt nowUs), (''_BOOT_ID'', bootID), (''MESSAGE'', Data msg), (''HOSTNAME'', Hostname msg),
      (''SYSLOG_HOSTNAME'', Hostname msg), (''SYSLOG_TIMESTAMP'', FormatRFC3339Nano T (Timestamp msg)),
      (''REMOTE_IP'', Addr_String (RemoteIP msg))]"

lemma map_of_own: "(case map_of (own_fields T nowUs bootID msg) k of None \<Rightarrow> [] | Some v \<Rightarrow> v) = own_value T nowUs bootID msg k"
  unfolding own_value_def list.map prod.case map_of.simps fst_conv snd_conv fun_upd_apply by (simp split: if_splits)

lemma map_of_journal_fields:
  "map_of (filter field_shown (journal_fields T nowUs bootID customs msg)) k =
    (let v = entry_value T nowUs bootID customs msg k in if k = [] \<or> v = [] then None else Some v)"
proof -
  let ?fs = "journal_fields T nowUs bootID customs msg"
  let ?given = "[FormatValue T v. (n, v) \<leftarrow> customs, strip_underscore n = k \<and> FormatValue T v \<noteq> []]"
  have "map_of ?fs k = (if ?given \<noteq> [] then Some (last ?given) else map_of (own_fields T nowUs bootID msg) k)"
    unfolding journal_fields_def map_of_put_customs Let_def ..
  then have "(case map_of ?fs k of None \<Rightarrow> [] | Some v \<Rightarrow> v) = entry_value T nowUs bootID customs msg k"
    unfolding entry_value_def Let_def map_of_own [symmetric] by (cases "?given = []") (simp_all only: simp_thms if_False if_True option.case)
  moreover have "map_of (filter field_shown ?fs) k =
      (let v = (case map_of ?fs k of None \<Rightarrow> [] | Some v \<Rightarrow> v) in if k = [] \<or> v = [] then None else Some v)"
    by (simp add: map_of_shown journal_fields_distinct Let_def split: option.split)
  ultimately show ?thesis by simp
qed

text \<open>A message that can be written line by line: no newline anywhere, no equals sign in a name.\<close>

definition line_payload :: "text_lib \<Rightarrow> bytes \<Rightarrow> Payload \<Rightarrow> bool" where
  "line_payload T bootID msg \<longleftrightarrow>
     newline \<notin> set bootID \<and> newline \<notin> set (Data msg) \<and> newline \<notin> set (Hostname msg) \<and>
     newline \<notin> set (FormatRFC3339Nano T (Timestamp msg)) \<and> newline \<notin> set (Addr_String (RemoteIP msg)) \<and>
     (\<forall>(n, v) \<in> set (CustomFields msg). newline \<notin> set n \<and> 61 \<notin> set n \<and> newline \<notin> set (FormatValue T v))"

lemma FormatInt_no_newline: "newline \<notin> set (FormatInt n)"
  using decimal_is_digit [of newline] by (auto simp: FormatInt_def is_digit_def)

lemma journal_fields_lines:
  assumes "line_payload T bootID msg" and "set customs = set (CustomFields msg)"
  shows "list_all line_field (journal_fields T nowUs bootID customs msg)"
  unfolding list_all_iff
proof
  let ?base = "own_fields T nowUs bootID msg"
  fix kv assume "kv \<in> set (journal_fields T nowUs bootID customs msg)"
  then consider "kv \<in> set ?base" | n v where "(n, v) \<in> set (CustomFields msg)" "kv = (strip_underscore n, FormatValue T v)"
    using set_fold_put_custom [of kv T customs ?base] assms(2) unfolding journal_fields_def TrimPrefix_underscore by blast
  then show "line_field kv"
  proof cases
    case 1
    moreover have "list_all line_field ?base"
      using assms(1) FormatInt_no_newline [of nowUs] by (simp add: line_payload_def line_field_def bytes_of_string_def)
    ultimately show ?thesis unfolding list_all_iff by blast
  next
    case 2
    have "set (strip_underscore n) \<subseteq> set n" by (cases n) (auto simp: strip_underscore_def)
    moreover have "newline \<notin> set n" "61 \<notin> set n" "newline \<notin> set (FormatValue T v)"
      using assms(1) 2(1) unfolding line_payload_def by blast+
    ultimately show ?thesis unfolding 2(2) line_field_def by auto
  qed
qed


definition plain_text :: text_lib where
  "plain_text = \<lparr>FormatFloat32 = \<lambda>_. [], FormatFloat64 = \<lambda>_. [], FormatRFC3339Nano = FormatInt, ParseRFC3339Nano = \<lambda>_. None\<rparr>"

definition example_payload :: "bytes \<Rightarrow> Payload" where
  "example_payload d = \<lparr>RemoteIP = Addr4 0x7F000001, HostID = 1, MsgID = 2, MessageSeq = 0, MessageSeqMax = 0, Timestamp = 7, Hostname = [104],
     SignatureID = 0, Signature = [], CustomFields = [], Data = d, PaddingLen = 0\<rparr>"


text \<open>
  An equals sign in the name of a custom field moves the rest of the name into the value: the entry has no field \<open>a=b\<close>, but a field \<open>a\<close> with the value \<open>b=v\<close>.
\<close>

theorem journal_name_split:
  assumes fs: "fs = journal_fields T nowUs bootID customs msg" and perm: "mset (order fs) = mset fs"
    and m: "(a @ 61 # b, v) \<in> set fs" "v \<noteq> []" and others: "list_all (\<lambda>kv. fst kv = a @ 61 # b \<or> line_field kv) fs"
    and a: "a \<noteq> []" "line_field (a, b @ 61 # v)" "a \<notin> fst ` set fs"
  shows "\<exists>gs. extractEntry (fst (journal_Write T nowUs bootID customs order sent msg)) = (Inr gs, []) \<and>
    map_of gs a = Some (b @ 61 # v) \<and> map_of gs (a @ 61 # b) = None"
proof -
  have st: "set (order fs) = set fs" using perm by (metis set_mset_mset)
  have "distinct (map fst fs)" by (simp add: fs journal_fields_distinct)
  then have dis: "distinct (map fst (order fs))" using perm by (metis mset_eq_imp_distinct_iff mset_map)
  obtain xs ys where split: "order fs = xs @ (a @ 61 # b, v) # ys" using m(1) st by (metis split_list)
  let ?hs = "xs @ (a, b @ 61 # v) # ys"
  have ne: "a @ 61 # b \<notin> fst ` set xs" "a @ 61 # b \<notin> fst ` set ys" using dis by (simp_all add: split)
  have "line_field kv" if "kv \<in> set xs \<union> set ys" for kv
  proof -
    have "fst kv \<noteq> a @ 61 # b" using that ne by (metis UnE image_eqI)
    moreover have "kv \<in> set fs" using that st unfolding split by auto
    ultimately show ?thesis using others unfolding list_all_iff by blast
  qed
  then have lf: "list_all line_field ?hs" using a(2) by (auto simp: list_all_iff)
  have "a \<notin> fst ` set (order fs)" using a(3) st by simp
  then have d: "distinct (map fst ?hs)" using dis by (auto simp: split)
  have "journal_text (order fs) = journal_text ?hs" using m(2) a(1) by (simp add: split journal_text_def field_text_def)
  moreover have "list_ex field_shown ?hs" using a(1) by (simp add: field_shown_def)
  ultimately have "extractEntry (journal_text (order fs)) = (Inr (filter field_shown ?hs), [])"
    using extract_journal_text [OF lf _ d] by simp
  moreover have "map_of (filter field_shown ?hs) a = Some (b @ 61 # v)"
    using a(1) by (intro map_of_is_SomeI distinct_map_filter [OF d]) (simp add: field_shown_def)
  moreover have "map_of (filter field_shown ?hs) (a @ 61 # b) = None" using ne by (auto simp: map_of_eq_None_iff)
  ultimately show ?thesis by (auto simp: journal_Write_def fs)
qed

text \<open>
  C40. A newline in the text of a message forges a field: whoever sends a message whose data is \<open>a\<close>, a newline and \<open>k=v\<close> gets an entry that
  is read as the message \<open>a\<close> with a further field \<open>k\<close> of value \<open>v\<close>, although the message has no such field.
\<close>

theorem journal_field_forged:
  assumes fs: "fs = journal_fields T nowUs bootID customs msg" and perm: "mset (order fs) = mset fs"
    and m: "(MESSAGE, Data msg) \<in> set fs" and others: "list_all (\<lambda>kv. fst kv = MESSAGE \<or> line_field kv) fs"
    and d: "Data msg = a @ newline # k @ 61 # v" "a \<noteq> []" "newline \<notin> set a" "line_field (k, v)" "k \<notin> fst ` set fs"
  shows "\<exists>gs. extractEntry (fst (journal_Write T nowUs bootID customs order sent msg)) = (Inr gs, []) \<and>
    map_of gs MESSAGE = Some a \<and> map_of gs k = Some v"
proof -
  have st: "set (order fs) = set fs" using perm by (metis set_mset_mset)
  have "distinct (map fst fs)" by (simp add: fs journal_fields_distinct)
  then have dis: "distinct (map fst (order fs))" using perm by (metis mset_eq_imp_distinct_iff mset_map)
  obtain xs ys where split: "order fs = xs @ (MESSAGE, Data msg) # ys" using m st by (metis split_list)
  let ?xs = "filter field_shown xs" and ?ys = "filter field_shown ys"
  let ?gs = "?xs @ (MESSAGE, a) # (k, v) # ?ys"
  have ne: "MESSAGE \<notin> fst ` set xs" "MESSAGE \<notin> fst ` set ys" using dis by (simp_all add: split)
  have sub: "set xs \<subseteq> set fs" "set ys \<subseteq> set fs" using st by (auto simp: split)
  have lines: "list_all line_field zs" if "set zs \<subseteq> set fs" "MESSAGE \<notin> fst ` set zs" for zs
    unfolding list_all_iff
  proof
    fix kv assume "kv \<in> set zs"
    then have "kv \<in> set fs" "fst kv \<noteq> MESSAGE" using that by (blast, metis image_eqI)
    then show "line_field kv" using others by (auto simp: list_all_iff)
  qed
  have "list_all line_field xs" "list_all line_field ys" using lines sub ne by blast+
  then have lf: "list_all line_field ?gs"
    using d(3,4) by (auto simp: list_all_iff line_field_def bytes_of_string_def)
  have "k \<notin> fst ` set (order fs)" using d(5) st by simp
  then have k: "k \<notin> fst ` set xs" "k \<notin> fst ` set ys" "k \<noteq> MESSAGE" by (auto simp: split)
  have "distinct (map fst xs)" "distinct (map fst ys)" "fst ` set xs \<inter> fst ` set ys = {}" using dis by (simp_all add: split)
  then have dg: "distinct (map fst ?gs)" using ne k distinct_map_filter [of fst] by auto
  then have "extractEntry (journal_text (order fs)) = (Inr ?gs, [])"
    using extract_lines [OF lf, of "[]" "[]"] fold_update_fresh [of "[]" ?gs] d(1,2)
    by (simp add: extractEntry_def journal_text_lines split field_shown_def bytes_of_string_def)
  moreover have "map_of ?gs MESSAGE = Some a" by (rule map_of_is_SomeI [OF dg]) simp
  moreover have "map_of ?gs k = Some v" by (rule map_of_is_SomeI [OF dg]) simp
  ultimately show ?thesis by (auto simp: journal_Write_def fs)
qed

theorem journal_field_forged_witness:
  "\<exists>gs. extractEntry (fst (journal_Write plain_text 5 [98] [] rev True (example_payload [97, 10, 85, 61, 48]))) = (Inr gs, []) \<and>
    map_of gs MESSAGE = Some [97] \<and> map_of gs [85] = Some [48]"
proof -
  let ?fs = "journal_fields plain_text 5 [98] [] (example_payload [97, 10, 85, 61, 48])"
  have "(MESSAGE, Data (example_payload [97, 10, 85, 61, 48])) \<in> set ?fs" "list_all (\<lambda>kv. fst kv = MESSAGE \<or> line_field kv) ?fs"
    "Data (example_payload [97, 10, 85, 61, 48]) = [97] @ newline # [85] @ 61 # [48]" "line_field ([85], [48])" "[85] \<notin> fst ` set ?fs"
    by code_simp+
  then show ?thesis by (intro journal_field_forged [OF refl]) simp_all
qed


section \<open>The cursor of the last run\<close>

lemma trim_newlines_start:
  assumes "b \<noteq> newline" "c \<noteq> newline"
  shows "\<exists>r'. trim_newlines (b # c # r) = b # c # r'"
proof -
  have "dropWhile (\<lambda>x. x = newline) (rev r @ [c, b]) = dropWhile (\<lambda>x. x = newline) (rev r) @ [c, b]"
    using assms(2) by (induction r rule: rev_induct) auto
  then show ?thesis using assms by (simp add: trim_newlines_def)
qed

lemma Split_start:
  assumes "b \<noteq> sep" "c \<noteq> sep"
  shows "\<exists>w ws. Split sep (b # c # r) = (b # c # w) # ws"
proof -
  obtain w ws where "Split sep r = w # ws" by (cases "Split sep r") auto
  then show ?thesis using assms by simp
qed

text \<open>
  The cursor is never resumed: a cursor of the journal starts with \<^verbatim>\<open>s=\<close>, and the check of its format discards exactly such a cursor, so that after a
  restart the journal is read from its start, as if no position had been saved.
\<close>

theorem journal_cursor_discarded:
  assumes "HasPrefix cursor (bytes_of_string ''s='')"
  shows "journal_args (journal_savePosition cursor state) = map bytes_of_string [''--output=export'', ''--follow'', ''--no-pager'']"
proof -
  obtain r where c: "cursor = 115 # 61 # r"
    using assms by (cases cursor; cases "tl cursor") (auto simp: HasPrefix_def bytes_of_string_def)
  have "take 256 cursor = 115 # 61 # take 254 r" by (simp add: c)
  then obtain r' where t: "trim_newlines (take 256 cursor) = 115 # 61 # r'" using trim_newlines_start [of 115 61 "take 254 r"] by auto
  obtain w ws where "Split 59 (115 # 61 # r') = (115 # 61 # w) # ws" using Split_start [of 115 59 61 r'] by auto
  then show ?thesis
    by (simp add: journal_args_def journal_getLastPosition_def journal_savePosition_def t Let_def HasPrefix_def bytes_of_string_def) (simp add: c)
qed

theorem journal_cursor_discarded_witness:
  "journal_args (journal_savePosition (bytes_of_string ''s=739ad463348b4ceca5a9e69c95a3c93f;i=4ece7;b=6c7c6013a26343b29e964691ff25d04c'') []) =
    map bytes_of_string [''--output=export'', ''--follow'', ''--no-pager'']"
  by (rule journal_cursor_discarded) code_simp


section \<open>From an entry to the queue\<close>

lemma length_truncated: "length (truncated v) \<le> MaxCtxValLen"
  by (simp add: truncated_def MaxTruncatedFieldLen_def FieldTruncationSuffix_def MaxCtxValLen_def)

lemma put_permitted_sel:
  "m_Data (put_permitted fs k msg) = m_Data msg" "m_Hostname (put_permitted fs k msg) = m_Hostname msg"
  "m_Timestamp (put_permitted fs k msg) = m_Timestamp msg"
  "map_of (m_Fields (put_permitted fs k msg)) =
    (case map_of fs k of None \<Rightarrow> map_of (m_Fields msg) | Some v \<Rightarrow> (map_of (m_Fields msg))(k \<mapsto> AnyString (truncated v)))"
  by (simp_all add: put_permitted_def split: option.splits)

lemma fold_permitted_sel:
  "m_Data (fold (put_permitted fs) ks msg) = m_Data msg" "m_Hostname (fold (put_permitted fs) ks msg) = m_Hostname msg"
  "m_Timestamp (fold (put_permitted fs) ks msg) = m_Timestamp msg"
  by (induction ks arbitrary: msg) (simp_all add: put_permitted_sel)

lemma fold_permitted_fields:
  "map_of (m_Fields (fold (put_permitted fs) ks msg)) k =
    (if k \<in> set ks \<and> map_of fs k \<noteq> None then Some (AnyString (truncated (the (map_of fs k)))) else map_of (m_Fields msg) k)"
  by (induction ks arbitrary: msg) (auto simp: put_permitted_sel split: option.splits)

lemma named_code_decimal:
  assumes "n < 2 ^ 16" and "names (of_nat n) = Some name"
  shows "named_code names bad unknown (Some (decimal n)) d = Inr name"
  using assms ParseInt_decimal [of n] by (simp add: named_code_def Atoi_def)


definition journal_key :: "(bytes \<times> bytes) list \<Rightarrow> string \<Rightarrow> bytes option" where
  "journal_key fs k = map_of fs (bytes_of_string k)"

definition base_message :: "int \<Rightarrow> bytes \<Rightarrow> bytes \<Rightarrow> bytes \<Rightarrow> bytes \<Rightarrow> nat \<Rightarrow> bytes \<Rightarrow> Message" where
  "base_message us h d app sev pid fac =
     put_field CFfacility (AnyString fac) (put_field CFprocessid (AnyInt (of_nat pid)) (put_field CFseverity (AnyString sev)
       (put_field CFappname (AnyString app) \<lparr>m_Timestamp = us * 1000, m_Hostname = h, m_Fields = [], m_Data = d\<rparr>)))"

lemma parseFields_ok:
  assumes "journal_key fs ''MESSAGE'' = Some d" "journal_key fs ''__REALTIME_TIMESTAMP'' = Some (decimal us)" "0 < us" "us < 2 ^ 63"
    and "journal_key fs ''SYSLOG_IDENTIFIER'' = Some app" "journal_key fs ''_HOSTNAME'' = Some h"
    and "journal_key fs ''PRIORITY'' = Some (decimal p)" "p < 2 ^ 16" "CodeToSeverity (of_nat p) = Some sev"
    and "journal_key fs ''_PID'' = Some (decimal pid)" "pid < 2 ^ 63"
    and "journal_key fs ''SYSLOG_FACILITY'' = Some (decimal f)" "f < 2 ^ 16" "CodeToFacility (of_nat f) = Some fac"
  shows "parseFields self fs local = Inr (fold (put_permitted fs) permittedJournalFields (base_message (int us) h d app sev pid fac))"
proof -
  obtain c cs where c: "decimal pid = c # cs" by (cases "decimal pid") auto
  then have "Atoi (c # cs) = Some (int pid)" using ParseInt_decimal [OF assms(11)] by (simp add: Atoi_def)
  moreover have "named_code CodeToSeverity BadPriority UnknownSeverity (Some (decimal p)) ''6'' = Inr sev"
    using assms(8,9) by (rule named_code_decimal)
  moreover have "named_code CodeToFacility BadFacility UnknownFacility (Some (decimal f)) ''3'' = Inr fac"
    using assms(13,14) by (rule named_code_decimal)
  moreover have "ParseInt0 (decimal us) = Some (int us)" by (rule ParseInt0_decimal [OF assms(3,4)])
  ultimately show ?thesis
    using assms(1,2,5,6,7,10,12) by (simp add: parseFields_def journal_key_def base_message_def c Let_def)
qed

lemma base_message_sel:
  "m_Data (base_message us h d app sev pid fac) = d" "m_Hostname (base_message us h d app sev pid fac) = h"
  "m_Timestamp (base_message us h d app sev pid fac) = us * 1000"
  "map_of (m_Fields (base_message us h d app sev pid fac)) =
     [CFappname \<mapsto> AnyString app, CFseverity \<mapsto> AnyString sev, CFprocessid \<mapsto> AnyInt (of_nat pid), CFfacility \<mapsto> AnyString fac]"
  by (simp_all add: base_message_def)

lemma journal_keys_apart:
  "CFappname \<notin> set permittedJournalFields" "CFseverity \<notin> set permittedJournalFields" "CFprocessid \<notin> set permittedJournalFields"
  "CFfacility \<notin> set permittedJournalFields" "CtxKey \<notin> set permittedJournalFields"
  "distinct [CtxKey, CFappname, CFseverity, CFprocessid, CFfacility]"
  by code_simp+

text \<open>
  C33. An entry of the journal becomes one queued message: read from the stream in the export format, with binary values where they hold newlines, its text
  becomes the data, its time stamp (in microseconds) the time, its identifier, process id, severity and facility the basic fields,
  and each permitted field is carried over, cut to the length the protocol allows; the cursor of the entry is the new position and the stream stands at the next entry.
\<close>

theorem journal_entry_queued:
  assumes entry: "list_all field_ok fs" "distinct (map fst fs)" and cursor: "journal_key fs ''__CURSOR'' = Some cursor"
    and "journal_key fs ''MESSAGE'' = Some d" "journal_key fs ''__REALTIME_TIMESTAMP'' = Some (decimal us)" "0 < us" "us < 2 ^ 63"
    and "journal_key fs ''SYSLOG_IDENTIFIER'' = Some app" "journal_key fs ''_HOSTNAME'' = Some h"
    and "journal_key fs ''PRIORITY'' = Some (decimal p)" "p < 2 ^ 16" "CodeToSeverity (of_nat p) = Some sev"
    and "journal_key fs ''_PID'' = Some (decimal pid)" "pid < 2 ^ 63"
    and "journal_key fs ''SYSLOG_FACILITY'' = Some (decimal f)" "f < 2 ^ 16" "CodeToFacility (of_nat f) = Some fac"
    and room: "has_room (Suc n) (ji_outbox m)" "le_done e = False # ds" "ji_filters m = []"
  shows "\<exists>msg m'. journal_turn L e newName (export_entry fs @ rest, m) = Some ((rest, m'), JQueued) \<and>
    queue_contents (ji_outbox m') = queue_contents (ji_outbox m) @ [msg] \<and> ji_readPosition m' = cursor \<and>
    m_Data msg = d \<and> m_Timestamp msg = int us * 1000 \<and> m_Hostname msg = h \<and>
    map_of (m_Fields msg) CFappname = Some (AnyString app) \<and> map_of (m_Fields msg) CFseverity = Some (AnyString sev) \<and>
    map_of (m_Fields msg) CFprocessid = Some (AnyInt (of_nat pid)) \<and> map_of (m_Fields msg) CFfacility = Some (AnyString fac) \<and>
    (\<forall>k v. k \<in> set permittedJournalFields \<and> map_of fs k = Some v \<longrightarrow>
       map_of (m_Fields msg) k = Some (AnyString (truncated v)) \<and> length (truncated v) \<le> MaxCtxValLen)"
proof -
  define pm where "pm = fold (put_permitted fs) permittedJournalFields (base_message (int us) h d app sev pid fac)"
  define msg where "msg = put_field CtxKey (AnyString (Join [slash] (GetTagList (ji_ctx m)))) pm"
  have pf: "parseFields (rl_pid L) fs local = Inr pm" for local
    unfolding pm_def using assms(4-17) by (intro parseFields_ok)
  have "fs \<noteq> []" using cursor by (auto simp: journal_key_def)
  then have ex: "extractEntry (export_entry fs @ rest) = (Inr fs, rest)" using entry by (intro export_roundtrip)
  obtain q where q: "Push (ji_outbox m) msg (of_nat (Message_Size msg)) = Some (q, Inr ())" "queue_contents q = queue_contents (ji_outbox m) @ [msg]"
    using has_room_Push [OF room(1)] by blast
  obtain m' where m': "journal_turn L e newName (export_entry fs @ rest, m) = Some ((rest, m'), JQueued)"
    "ji_outbox m' = q" "ji_readPosition m' = cursor"
    using ex pf \<open>fs \<noteq> []\<close> cursor q(1) room(2,3)
    by (auto simp: journal_turn_def Let_def msg_def journal_key_def split: option.splits)
  have fields: "map_of (m_Fields msg) k = (if k = CtxKey then Some (AnyString (Join [slash] (GetTagList (ji_ctx m))))
      else if k \<in> set permittedJournalFields \<and> map_of fs k \<noteq> None then Some (AnyString (truncated (the (map_of fs k))))
      else map_of (m_Fields (base_message (int us) h d app sev pid fac)) k)" for k
    by (simp add: msg_def pm_def fold_permitted_fields)
  have "m_Data msg = d" "m_Timestamp msg = int us * 1000" "m_Hostname msg = h"
    by (simp_all add: msg_def pm_def fold_permitted_sel base_message_sel)
  then show ?thesis
    using m' q(2) journal_keys_apart length_truncated by (intro exI [of _ msg] exI [of _ m']) (auto simp: fields base_message_sel)
qed

text \<open>An entry with a text of two lines, so with a binary field.\<close>

definition example_entry :: "(bytes \<times> bytes) list" where
  "example_entry = map (\<lambda>(k, v). (bytes_of_string k, v))
     [(''__CURSOR'', [115, 61, 49]), (''__REALTIME_TIMESTAMP'', decimal 9), (''MESSAGE'', [104, 105, 10, 104, 111]),
      (''SYSLOG_IDENTIFIER'', [97]), (''_HOSTNAME'', [104]), (''PRIORITY'', decimal 3), (''_PID'', decimal 7),
      (''SYSLOG_FACILITY'', decimal 4), (''_UID'', decimal 0)]"

definition example_journal :: "Message Queue \<Rightarrow> journal_In" where
  "example_journal q = \<lparr>ji_filters = [], ji_localHostname = [108], ji_ctx = Some [NSoJrnl], ji_outbox = q, ji_LinesRead = 0, ji_Success = 0,
     ji_iter = 0, ji_readPosition = []\<rparr>"

theorem journal_entry_queued_witness:
  "\<exists>q msg m'. journal_turn example_reader (still 0) None (export_entry example_entry @ [1], example_journal q) = Some (([1], m'), JQueued) \<and>
    queue_contents (ji_outbox m') = [msg] \<and> m_Data msg = [104, 105, 10, 104, 111] \<and>
    map_of (m_Fields msg) CFseverity = Some (AnyString (bytes_of_string ''err''))"
proof -
  obtain q :: "Message Queue" where q: "has_room 8 q" "queue_contents q = []" using fresh_queue by blast
  have e0: "list_all field_ok example_entry"
    by (simp add: example_entry_def field_ok_def bytes_of_string_def decimal.simps)
  have e: "distinct (map fst example_entry)" "journal_key example_entry ''__CURSOR'' = Some [115, 61, 49]"
    "journal_key example_entry ''MESSAGE'' = Some [104, 105, 10, 104, 111]" "journal_key example_entry ''__REALTIME_TIMESTAMP'' = Some (decimal 9)"
    "journal_key example_entry ''SYSLOG_IDENTIFIER'' = Some [97]" "journal_key example_entry ''_HOSTNAME'' = Some [104]"
    "journal_key example_entry ''PRIORITY'' = Some (decimal 3)" "CodeToSeverity (of_nat 3) = Some (bytes_of_string ''err'')"
    "journal_key example_entry ''_PID'' = Some (decimal 7)" "journal_key example_entry ''SYSLOG_FACILITY'' = Some (decimal 4)"
    "CodeToFacility (of_nat 4) = Some (bytes_of_string ''auth'')"
    by (simp_all add: journal_key_def example_entry_def bytes_of_string_def CodeToSeverity_def severities_def CodeToFacility_def facilities_def)
  have r: "has_room (Suc 0) (ji_outbox (example_journal q))" "le_done (still 0) = False # []" "ji_filters (example_journal q) = []"
    using has_room_less [OF q(1), of 1] by (simp_all add: example_journal_def still_def)
  have "queue_contents (ji_outbox (example_journal q)) = []" using q(2) by (simp add: example_journal_def)
  then show ?thesis
    using journal_entry_queued [OF e0 e(1-4) _ _ e(5-7) _ e(8,9) _ e(10) _ e(11) r, of example_reader None "[1]"] by auto
qed

end
