(* ===== verification/Sender_Ingest.thy ===== *)
theory Sender_Ingest
  imports Journal_Module
begin

text \<open>
  The remaining inputs of the sender, the raw reader (\<^verbatim>\<open>internal/iomodules/generic\<close>) and the program's own log
  (\<^verbatim>\<open>internal/iomodules/internallogger\<close>), and the manager of all inputs (\<^verbatim>\<open>internal/sender/ingest\<close>). The queue
  all inputs write to is the outbox of each module; the manager only passes it on.
\<close>

section \<open>The raw input\<close>

definition ProgBaseName :: bytes where "ProgBaseName = bytes_of_string ''sdsyslog''"
definition NSoRaw :: bytes where "NSoRaw = bytes_of_string ''Raw''"
definition NSLogger :: bytes where "NSLogger = bytes_of_string ''Logger''"
definition CFnamespace :: bytes where "CFnamespace = bytes_of_string ''Namespace''"

record generic_In =
  gi_localHostname :: bytes
  gi_ctx :: ctx
  gi_outbox :: "Message Queue"
  gi_CompleteReads :: "64 word"
  gi_Success :: "64 word"

definition generic_message :: "int \<Rightarrow> int \<Rightarrow> bytes \<Rightarrow> bytes \<Rightarrow> Message" where
  "generic_message pid now localHostname line =
     fold (\<lambda>(k, v). put_field k v)
       [(CtxKey, AnyString NSoRaw), (CFappname, AnyString ProgBaseName), (CFprocessid, AnyInt (of_int pid)),
        (CFfacility, AnyString DefaultFacility), (CFseverity, AnyString DefaultSeverity)]
       \<lparr>m_Timestamp = now, m_Hostname = localHostname, m_Fields = [], m_Data = line\<rparr>"

datatype raw_result = RawEnded | RawLine

text \<open>
  A turn of the reader on what is left of the stream. At the end of the stream what was read of the last line is
  thrown away, and the loop goes on. The newline, and any other, is taken out of the line.
\<close>

definition generic_turn :: "reader_lib \<Rightarrow> line_env \<Rightarrow> bytes \<times> generic_In \<Rightarrow> ((bytes \<times> generic_In) \<times> raw_result) option" where
  "generic_turn L e st =
     (case st of (s, m) \<Rightarrow>
      case read_line s of
        None \<Rightarrow> Some (([], m), RawEnded)
      | Some (line, s) \<Rightarrow>
          let line = filter (\<lambda>b. b \<noteq> newline) (line @ [newline]);
              msg = generic_message (rl_pid L) (le_now e) (gi_localHostname m) line;
              m = m\<lparr>gi_CompleteReads := gi_CompleteReads m + 1\<rparr> in
          map_option (\<lambda>q. ((s, m\<lparr>gi_outbox := q, gi_Success := gi_Success m + 1\<rparr>), RawLine))
            (PushBlocking (le_done e) (gi_outbox m) msg (of_nat (Message_Size msg))))"

definition generic_NewInput :: "bytes option \<Rightarrow> ctx \<Rightarrow> Message Queue \<Rightarrow> generic_In option" where
  "generic_NewInput hostname c queue =
     map_option (\<lambda>h. \<lparr>gi_localHostname = h, gi_ctx = OverwriteCtxTag (GetTagList c @ [NSoRaw]) c, gi_outbox = queue,
       gi_CompleteReads = 0, gi_Success = 0\<rparr>) hostname"

definition generic_CollectMetrics :: "int \<Rightarrow> int \<Rightarrow> generic_In \<Rightarrow> generic_In \<times> Metric list" where
  "generic_CollectMetrics interval recordTime m =
     (let mk = mk_metric (GetTagList (gi_ctx m)) interval recordTime in
      (m\<lparr>gi_CompleteReads := 0, gi_Success := 0\<rparr>,
       [mk ''complete_inputs'' ''Total read chunks from raw source in the interval'' (RawUint64 (gi_CompleteReads m)) ''count'' Counter,
        mk ''success_processed'' ''Total processed messages extracted from raw source in the interval''
          (RawUint64 (gi_Success m)) ''count'' Counter]))"

section \<open>The program's own log\<close>

record log_event =
  ev_Timestamp :: int
  ev_Severity :: bytes
  ev_Tags :: "bytes list"
  ev_Message :: bytes

definition FatalLog :: bytes where "FatalLog = bytes_of_string ''Fatal''"
definition ErrorLog :: bytes where "ErrorLog = bytes_of_string ''Error''"
definition WarnLog :: bytes where "WarnLog = bytes_of_string ''Warn''"
definition InfoLog :: bytes where "InfoLog = bytes_of_string ''Info''"

definition event_severity :: "bytes \<Rightarrow> bytes" where
  "event_severity s =
     (if s = FatalLog then bytes_of_string ''crit'' else if s = ErrorLog then bytes_of_string ''err''
      else if s = WarnLog then bytes_of_string ''warning'' else if s = InfoLog then bytes_of_string ''info''
      else bytes_of_string ''debug'')"

definition loggerToProtocolMessage :: "int \<Rightarrow> bytes option \<Rightarrow> log_event \<Rightarrow> Message option" where
  "loggerToProtocolMessage pid hostname event =
     map_option (\<lambda>h. fold (\<lambda>(k, v). put_field k v)
       [(CtxKey, AnyString (bytes_of_string ''Logctx'')), (CFnamespace, AnyString (Join [slash] (ev_Tags event))),
        (CFappname, AnyString ProgBaseName), (CFprocessid, AnyInt (of_int pid)), (CFfacility, AnyString DefaultFacility),
        (CFseverity, AnyString (event_severity (ev_Severity event)))]
       \<lparr>m_Timestamp = ev_Timestamp event, m_Hostname = h, m_Fields = [], m_Data = ev_Message event\<rparr>) hostname"

text \<open>The simulated source of the receiver's own log is the address \<^verbatim>\<open>::ffff:0:0:0:1\<close>.\<close>

definition loggerToProtocolPayload :: "int \<Rightarrow> bytes option \<Rightarrow> tape \<Rightarrow> log_event \<Rightarrow> int \<Rightarrow> (Payload \<times> tape) option" where
  "loggerToProtocolPayload pid hostname tp event hostID =
     (case loggerToProtocolMessage pid hostname event of
        None \<Rightarrow> None
      | Some msg \<Rightarrow>
          (case FourByte tp of
             Inl _ \<Rightarrow> None
           | Inr (newMessageID, tp) \<Rightarrow>
               Some (\<lparr>RemoteIP = Addr6 0xFFFF0000000000000001 [], HostID = hostID, MsgID = newMessageID, MessageSeq = 0, MessageSeqMax = 0,
                 Timestamp = m_Timestamp msg, Hostname = m_Hostname msg, SignatureID = 0, Signature = [],
                 CustomFields = m_Fields msg, Data = m_Data msg, PaddingLen = 23\<rparr>, tp)))"

text \<open>An event of the log; a full queue drops it.\<close>

definition sender_inject :: "int \<Rightarrow> bytes option \<Rightarrow> log_event \<Rightarrow> Message Queue \<Rightarrow> Message Queue option" where
  "sender_inject pid hostname event q =
     (case loggerToProtocolMessage pid hostname event of
        None \<Rightarrow> Some q
      | Some newMsg \<Rightarrow> map_option fst (Push q newMsg (of_nat (Message_Size newMsg))))"

definition receiver_inject ::
  "int \<Rightarrow> bytes option \<Rightarrow> tape \<Rightarrow> int \<Rightarrow> log_event \<Rightarrow> Payload Queue \<Rightarrow> (Payload Queue \<times> tape) option" where
  "receiver_inject pid hostname tp hostID event q =
     (case loggerToProtocolPayload pid hostname tp event hostID of
        None \<Rightarrow> Some (q, tp)
      | Some (newMsg, tp) \<Rightarrow> map_option (\<lambda>(q, _). (q, tp)) (Push q newMsg (of_nat (Payload_Size newMsg))))"

text \<open>The injectors need a queue and a logger.\<close>

definition NewSenderInjector :: "bool \<Rightarrow> bool \<Rightarrow> ctx \<Rightarrow> ctx option" where
  "NewSenderInjector queue logger c =
     (if \<not> queue then None else if \<not> logger then None else Some (OverwriteCtxTag (GetTagList c @ [NSLogger]) c))"

section \<open>The manager\<close>

text \<open>
  An entry of the interface type: none, the value left behind by a constructor that failed, or a module.
  The file sources are a map whose entries may be nil.
\<close>

datatype 'a source = NoSource | BrokenSource | Source 'a

record ingest_Manager =
  in_filters :: "(bytes \<times> MessageFilter list) list"
  in_FileSources :: "(bytes \<times> file_In option) list"
  in_JournalSource :: "journal_In source"
  in_RawSource :: "generic_In source"
  in_outQueue :: "Message Queue"
  in_ctx :: ctx

definition FileSource :: bytes where "FileSource = bytes_of_string ''file''"
definition JrnlSource :: bytes where "JrnlSource = bytes_of_string ''journald''"

definition filters_of :: "ingest_Manager \<Rightarrow> bytes \<Rightarrow> MessageFilter list" where
  "filters_of m source = (case map_of (in_filters m) source of Some fs \<Rightarrow> fs | None \<Rightarrow> [])"

definition ingest_NewManager :: "ctx \<Rightarrow> (bytes \<times> MessageFilter list) list \<Rightarrow> Message Queue \<Rightarrow> ingest_Manager" where
  "ingest_NewManager c filters outbox = \<lparr>in_filters = filters, in_FileSources = [], in_JournalSource = NoSource,
     in_RawSource = NoSource, in_outQueue = outbox, in_ctx = AppendCtxTag NSmIngest c\<rparr>"

text \<open>\<^verbatim>\<open>filepath.Base\<close>: the last element of a path, without trailing slashes.\<close>

definition filepath_Base :: "bytes \<Rightarrow> bytes" where
  "filepath_Base path =
     (if path = [] then [46]
      else
        let path = rev (dropWhile (\<lambda>b. b = slash) (rev path)); path = rev (takeWhile (\<lambda>b. b \<noteq> slash) (rev path)) in
        if path = [] then [slash] else path)"

datatype add_error =
    FileRunning | FileInputError file_in_error | AddPanic
  | JournalRunning | JournalInputError journal_in_error | JournalStartError
  | RawRunning | RawInputError

text \<open>
  The path is looked up under its base name, but stored under the path itself. An empty path yields no
  module, and starting that is a nil pointer dereference.
\<close>

definition AddFileInstance :: "file_new_env \<Rightarrow> bytes \<Rightarrow> ingest_Manager \<Rightarrow> add_error + ingest_Manager" where
  "AddFileInstance E filePath m =
     (let filename = filepath_Base filePath in
      if map_of (in_FileSources m) filename \<noteq> None then Inl FileRunning
      else (case file_NewInput E (in_ctx m) filePath filename (filters_of m FileSource) (in_outQueue m) of
              Inl e \<Rightarrow> Inl (FileInputError e)
            | Inr None \<Rightarrow> Inl AddPanic
            | Inr (Some new) \<Rightarrow> Inr (m\<lparr>in_FileSources := AList.update filePath (Some new) (in_FileSources m)\<rparr>)))"

datatype remove_result = Removed | NotFound | ShutdownFailed | RemovePanic

text \<open>Whether the file closes is an argument; the entry of a removed file stays in the map as nil.\<close>

definition RemoveFileInstance :: "bool \<Rightarrow> bytes \<Rightarrow> ingest_Manager \<Rightarrow> ingest_Manager \<times> remove_result" where
  "RemoveFileInstance closeOk filename m =
     (case map_of (in_FileSources m) filename of
        None \<Rightarrow> (m, NotFound)
      | Some None \<Rightarrow> (m, RemovePanic)
      | Some (Some fileSource) \<Rightarrow>
          if \<not> closeOk then (m, ShutdownFailed)
          else (m\<lparr>in_FileSources := AList.update filename None (in_FileSources m)\<rparr>, Removed))"

text \<open>The state file, the pipes, the host name and the start of the journal command are arguments.\<close>

definition AddJrnlInstance ::
  "bytes option \<Rightarrow> bool \<Rightarrow> bytes option \<Rightarrow> bool \<Rightarrow> ingest_Manager \<Rightarrow> ingest_Manager \<times> add_error option" where
  "AddJrnlInstance state pipes hostname started m =
     (if in_JournalSource m \<noteq> NoSource then (m, Some JournalRunning)
      else (case journal_NewInput state pipes hostname (in_ctx m) (filters_of m JrnlSource) (in_outQueue m) of
              Inl e \<Rightarrow> (m\<lparr>in_JournalSource := BrokenSource\<rparr>, Some (JournalInputError e))
            | Inr (args, new) \<Rightarrow>
                let m = m\<lparr>in_JournalSource := Source new\<rparr> in (m, if started then None else Some JournalStartError)))"

definition AddRawInstance :: "bytes option \<Rightarrow> ingest_Manager \<Rightarrow> ingest_Manager \<times> add_error option" where
  "AddRawInstance hostname m =
     (if in_RawSource m \<noteq> NoSource then (m, Some RawRunning)
      else (case generic_NewInput hostname (in_ctx m) (in_outQueue m) of
              None \<Rightarrow> (m\<lparr>in_RawSource := BrokenSource\<rparr>, Some RawInputError)
            | Some new \<Rightarrow> (m\<lparr>in_RawSource := Source new\<rparr>, None)))"

section \<open>The interface of inputs\<close>

text \<open>
  What the gatherer of metrics relies on: an input reports its counters under the namespace of its context
  and starts counting again from zero.
\<close>

abbreviation success_name :: bytes where "success_name \<equiv> bytes_of_string ''success_processed''"

locale input_module =
  fixes ctx_of :: "'m \<Rightarrow> ctx" and successes :: "'m \<Rightarrow> 64 word"
    and collect :: "int \<Rightarrow> int \<Rightarrow> 'm \<Rightarrow> 'm \<times> Metric list"
  assumes collect_namespace: "mt \<in> set (snd (collect interval t m)) \<Longrightarrow> mt_Namespace mt = GetTagList (ctx_of m)"
    and collect_ctx: "ctx_of (fst (collect interval t m)) = ctx_of m"
    and collect_reset: "successes (fst (collect interval t m)) = 0"
    and collect_names: "distinct (map mt_Name (snd (collect interval t m)))"
    and collect_success: "\<exists>mt \<in> set (snd (collect interval t m)). mt_Name mt = success_name \<and>
          mv_Raw (mt_Value mt) = RawUint64 (successes m)"
begin

text \<open>The count of successes as it is found in a collection.\<close>

definition reported :: "Metric list \<Rightarrow> metric_raw list" where
  "reported ms = map (\<lambda>mt. mv_Raw (mt_Value mt)) (filter (\<lambda>mt. mt_Name mt = success_name) ms)"

lemma collect_reported: "reported (snd (collect interval t m)) = [RawUint64 (successes m)]"
proof -
  obtain mt where mt: "mt \<in> set (snd (collect interval t m))" "mt_Name mt = success_name"
    "mv_Raw (mt_Value mt) = RawUint64 (successes m)" using collect_success by blast
  have "filter (\<lambda>x. mt_Name x = success_name) ms = [mt]"
    if "distinct (map mt_Name ms)" "mt \<in> set ms" for ms
    using that
  proof (induction ms)
    case (Cons x ms)
    then show ?case using mt(2) by (auto simp: filter_empty_conv image_def)
  qed simp
  from this [OF collect_names mt(1)] show ?thesis using mt(3) by (simp add: reported_def)
qed

text \<open>A collection right after another reports nothing twice.\<close>

lemma collect_twice:
  "reported (snd (collect i2 t2 (fst (collect i1 t1 m)))) = [RawUint64 0]"
  by (simp add: collect_reported collect_reset)

text \<open>Two inputs with one namespace: what one reported is overwritten by the other in the same slice.\<close>

lemma same_namespace_overwritten:
  assumes "GetTagList (ctx_of m) = GetTagList (ctx_of m')"
    and "nm' = fold add_metric (snd (collect i' t' m')) (fold add_metric (snd (collect i t m)) nm)"
  shows "\<exists>mm mt. map_of nm' (nsKey (GetTagList (ctx_of m))) = Some mm \<and> map_of mm success_name = Some mt \<and>
    mv_Raw (mt_Value mt) = RawUint64 (successes m')"
proof -
  let ?ns = "GetTagList (ctx_of m')"
  obtain mt where mt: "mt \<in> set (snd (collect i' t' m'))" "mt_Name mt = success_name"
    "mv_Raw (mt_Value mt) = RawUint64 (successes m')" using collect_success by blast
  have found: "\<exists>mm. map_of (fold add_metric ms nm) (nsKey ?ns) = Some mm \<and> map_of mm (mt_Name x) = Some x"
    if "x \<in> set ms" "distinct (map mt_Name ms)" "\<And>y. y \<in> set ms \<Longrightarrow> mt_Namespace y = ?ns" for x ms nm
    using that
  proof (induction ms rule: rev_induct)
    case (snoc y ms)
    show ?case
    proof (cases "x = y")
      case True
      then show ?thesis using snoc.prems(3) by (simp add: add_metric_def [of y] Let_def update_conv')
    next
      case False
      then have "x \<in> set ms" "mt_Name x \<noteq> mt_Name y" using snoc.prems by (auto simp: image_def)
      moreover obtain mm where "map_of (fold add_metric ms nm) (nsKey ?ns) = Some mm" "map_of mm (mt_Name x) = Some x"
        using snoc.IH \<open>x \<in> set ms\<close> snoc.prems by auto
      ultimately show ?thesis using snoc.prems(3) by (simp add: add_metric_def [of y] Let_def update_conv')
    qed
  qed simp
  have "\<exists>mm. map_of nm' (nsKey ?ns) = Some mm \<and> map_of mm (mt_Name mt) = Some mt"
    unfolding assms(2) by (rule found [OF mt(1) collect_names]) (rule collect_namespace)
  then show ?thesis using mt(2,3) assms(1) by auto
qed

end

interpretation file_input: input_module fi_ctx fi_Success file_in_CollectMetrics
  by unfold_locales (auto simp: file_in_CollectMetrics_def Let_def mk_metric_def bytes_of_string_def)

interpretation journal_input: input_module ji_ctx ji_Success journal_CollectMetrics
  by unfold_locales (auto simp: journal_CollectMetrics_def Let_def mk_metric_def bytes_of_string_def)

interpretation raw_input: input_module gi_ctx gi_Success generic_CollectMetrics
  by unfold_locales (auto simp: generic_CollectMetrics_def Let_def mk_metric_def bytes_of_string_def)


section \<open>Lines of the raw input\<close>

fun generic_run :: "reader_lib \<Rightarrow> (nat \<Rightarrow> line_env) \<Rightarrow> nat \<Rightarrow> bytes \<times> generic_In \<Rightarrow> (bytes \<times> generic_In) option" where
  "generic_run L env 0 st = Some st"
| "generic_run L env (Suc n) st = (case generic_turn L (env n) st of None \<Rightarrow> None | Some (st, r) \<Rightarrow> generic_run L env n st)"

fun raw_messages :: "reader_lib \<Rightarrow> (nat \<Rightarrow> line_env) \<Rightarrow> bytes \<Rightarrow> bytes list \<Rightarrow> Message list" where
  "raw_messages L env h [] = []"
| "raw_messages L env h (l # ls) = generic_message (rl_pid L) (le_now (env (Suc (length ls)))) h l # raw_messages L env h ls"

lemma raw_messages_data: "map m_Data (raw_messages L env h ls) = ls"
  by (induction ls) (simp_all add: generic_message_def)

lemma generic_turn_line:
  assumes "newline \<notin> set l" and "has_room (Suc n) (gi_outbox m)" and "le_done e = False # ds"
  shows "\<exists>q. generic_turn L e (l @ newline # s, m) =
      Some ((s, m\<lparr>gi_outbox := q, gi_CompleteReads := gi_CompleteReads m + 1, gi_Success := gi_Success m + 1\<rparr>), RawLine) \<and>
    has_room n q \<and> queue_contents q = queue_contents (gi_outbox m) @ [generic_message (rl_pid L) (le_now e) (gi_localHostname m) l]"
proof -
  let ?msg = "generic_message (rl_pid L) (le_now e) (gi_localHostname m) l"
  have f: "filter (\<lambda>b. b \<noteq> newline) l = l" using assms(1) by (auto simp: filter_id_conv)
  obtain q where q: "Push (gi_outbox m) ?msg (of_nat (Message_Size ?msg)) = Some (q, Inr ())" "has_room n q"
    "queue_contents q = queue_contents (gi_outbox m) @ [?msg]" using has_room_Push [OF assms(2)] by blast
  then show ?thesis
    using assms(1,3) f by (intro exI [of _ q]) (simp add: generic_turn_def read_line_append Let_def)
qed


lemma read_line_none: "newline \<notin> set s \<Longrightarrow> read_line s = None"
  using IndexByte_None [of s newline] by (simp add: read_line_def)

text \<open>
  The raw input queues every line of its source as one message, in order. What follows the last newline is
  lost: at the end of the stream it is read and thrown away.
\<close>

theorem raw_lines_queued:
  assumes "list_all (\<lambda>l. newline \<notin> set l) ls" and "newline \<notin> set end_part" and "\<And>i. \<exists>ds. le_done (env i) = False # ds"
    and "has_room (length ls) (gi_outbox m)"
  shows "\<exists>m'. generic_run L env (Suc (length ls)) (concat (map (\<lambda>l. l @ [newline]) ls) @ end_part, m) = Some ([], m') \<and>
    queue_contents (gi_outbox m') = queue_contents (gi_outbox m) @ raw_messages L env (gi_localHostname m) ls \<and>
    gi_Success m' = gi_Success m + of_nat (length ls)"
  using assms(1,4)
proof (induction ls arbitrary: m)
  case Nil
  then show ?case using assms(2) by (simp add: generic_turn_def read_line_none)
next
  case (Cons l ls)
  obtain ds where "le_done (env (Suc (length ls))) = False # ds" using assms(3) by blast
  from generic_turn_line [OF _ _ this, of l "length ls" m L "concat (map (\<lambda>l. l @ [newline]) ls) @ end_part"] Cons.prems
  obtain q where q: "generic_turn L (env (Suc (length ls))) (l @ newline # concat (map (\<lambda>l. l @ [newline]) ls) @ end_part, m) =
      Some ((concat (map (\<lambda>l. l @ [newline]) ls) @ end_part,
        m\<lparr>gi_outbox := q, gi_CompleteReads := gi_CompleteReads m + 1, gi_Success := gi_Success m + 1\<rparr>), RawLine)" "has_room (length ls) q"
    "queue_contents q = queue_contents (gi_outbox m) @ [generic_message (rl_pid L) (le_now (env (Suc (length ls)))) (gi_localHostname m) l]"
    by auto
  show ?case
    using Cons.IH [of "m\<lparr>gi_outbox := q, gi_CompleteReads := gi_CompleteReads m + 1, gi_Success := gi_Success m + 1\<rparr>"] Cons.prems q
    by (auto simp del: generic_run.simps simp add: generic_run.simps(2) [of L env "Suc (length ls)"])
qed

definition example_raw :: "Message Queue \<Rightarrow> generic_In" where
  "example_raw q = \<lparr>gi_localHostname = [104], gi_ctx = Some [NSoRaw], gi_outbox = q, gi_CompleteReads = 0, gi_Success = 0\<rparr>"

theorem raw_lines_queued_witness:
  "\<exists>q m'. generic_run example_reader (still \<circ> int) 3 ([97, 10, 98, 10, 99], example_raw q) = Some ([], m') \<and>
    map m_Data (queue_contents (gi_outbox m')) = [[97], [98]]"
proof -
  obtain q :: "Message Queue" where q: "has_room 8 q" "queue_contents q = []" using fresh_queue by blast
  have room: "has_room (length [[97 :: byte], [98]]) (gi_outbox (example_raw q))"
    using has_room_less [OF q(1), of "Suc (Suc 0)"] by (simp add: example_raw_def)
  obtain m' where m': "generic_run example_reader (still \<circ> int) (Suc (length [[97 :: byte], [98]])) ([97, 10, 98, 10, 99], example_raw q) = Some ([], m')"
    "queue_contents (gi_outbox m') = raw_messages example_reader (still \<circ> int) [104] [[97], [98]]"
    using raw_lines_queued [OF _ _ _ room, of "[99]" "still \<circ> int" example_reader] q(2)
    by (auto simp: example_raw_def still_def simp del: generic_run.simps)
  have "Suc (length [[97 :: byte], [98]]) = 3" by simp
  then show ?thesis using m' raw_messages_data by metis
qed

section \<open>Sources of one name\<close>

lemma AddFileInstance_Inr:
  assumes "AddFileInstance E filePath m = Inr m'"
  obtains new where "m' = m\<lparr>in_FileSources := AList.update filePath (Some new) (in_FileSources m)\<rparr>"
    and "map_of (in_FileSources m) (filepath_Base filePath) = None" and "filePath \<noteq> []"
    and "GetTagList (fi_ctx new) = GetTagList (in_ctx m) @ [NSoFile, filepath_Base filePath]" and "fi_Success new = 0"
  using assms by (auto simp: AddFileInstance_def Let_def file_NewInput_def OverwriteCtxTag_def GetTagList_def
      split: if_splits option.splits sum.splits prod.splits)

lemma RemoveFileInstance_twice:
  assumes "RemoveFileInstance closeOk filename m = (m', Removed)"
  shows "RemoveFileInstance closeOk' filename m' = (m', RemovePanic)"
  using assms by (auto simp: RemoveFileInstance_def update_conv' split: option.splits if_splits)


lemma filepath_Base_no_slash: "filepath_Base p \<noteq> [slash] \<Longrightarrow> slash \<notin> set (filepath_Base p)"
  by (auto simp: filepath_Base_def Let_def dest: set_takeWhileD split: if_splits)

text \<open>
  Two files of one name are told apart by nothing: the manager keeps its sources under their paths but looks
  for a running one under the last element of the path, so that a second file of that name, or the same file again, is
  never refused; and both report under one namespace, so that in every slice of the metrics the counts of one overwrite those of the other.
\<close>

theorem same_name_files_collide:
  assumes keys: "\<forall>k \<in> fst ` set (in_FileSources m). slash \<in> set k" and p1: "slash \<in> set p1"
    and base: "filepath_Base p1 = filepath_Base p2" "filepath_Base p1 \<noteq> [slash]"
    and add1: "AddFileInstance E1 p1 m = Inr m1"
  shows "AddFileInstance E2 p2 m1 \<noteq> Inl FileRunning \<and>
    (AddFileInstance E2 p2 m1 = Inr m2 \<and> p1 \<noteq> p2 \<longrightarrow>
      (\<exists>f1 f2. map_of (in_FileSources m2) p1 = Some (Some f1) \<and> map_of (in_FileSources m2) p2 = Some (Some f2) \<and>
        (\<forall>g1 g2 nm. fi_ctx g1 = fi_ctx f1 \<and> fi_ctx g2 = fi_ctx f2 \<longrightarrow>
          (\<exists>mm mt. map_of (fold add_metric (snd (file_in_CollectMetrics i t2 g2)) (fold add_metric (snd (file_in_CollectMetrics i t1 g1)) nm))
              (nsKey (GetTagList (fi_ctx f1))) = Some mm \<and> map_of mm success_name = Some mt \<and> mv_Raw (mt_Value mt) = RawUint64 (fi_Success g2)))))"
proof -
  from add1 obtain f1 where f1: "m1 = m\<lparr>in_FileSources := AList.update p1 (Some f1) (in_FileSources m)\<rparr>"
    "GetTagList (fi_ctx f1) = GetTagList (in_ctx m) @ [NSoFile, filepath_Base p1]" by (elim AddFileInstance_Inr) blast
  have "filepath_Base p2 \<notin> fst ` set (in_FileSources m1)"
    using filepath_Base_no_slash [OF base(2)] keys p1 base(1) by (auto simp: f1(1) dom_update image_iff)
  then have free: "map_of (in_FileSources m1) (filepath_Base p2) = None" by (simp add: map_of_eq_None_iff)
  then have "AddFileInstance E2 p2 m1 \<noteq> Inl FileRunning"
    by (auto simp: AddFileInstance_def Let_def split: sum.splits option.splits)
  moreover have "\<exists>f2. map_of (in_FileSources m2) p1 = Some (Some f1) \<and> map_of (in_FileSources m2) p2 = Some (Some f2) \<and>
      GetTagList (fi_ctx f2) = GetTagList (fi_ctx f1)" if "AddFileInstance E2 p2 m1 = Inr m2" "p1 \<noteq> p2"
    using that f1 base(1) by (elim AddFileInstance_Inr) (auto simp: update_conv')
  moreover have "\<exists>mm mt. map_of (fold add_metric (snd (file_in_CollectMetrics i t2 g2)) (fold add_metric (snd (file_in_CollectMetrics i t1 g1)) nm))
      (nsKey (GetTagList (fi_ctx f1))) = Some mm \<and> map_of mm success_name = Some mt \<and> mv_Raw (mt_Value mt) = RawUint64 (fi_Success g2)"
    if "GetTagList (fi_ctx f2) = GetTagList (fi_ctx f1)" "fi_ctx g1 = fi_ctx f1" "fi_ctx g2 = fi_ctx f2" for f2 g1 g2 nm
    using file_input.same_namespace_overwritten [of g1 g2, OF _ refl, of i t2 i t1 nm] that by simp
  ultimately show ?thesis by blast
qed
lemma example_add:
  assumes "map_of (in_FileSources m) (filepath_Base p) = None" and "p \<noteq> []" and "in_filters m = []"
  shows "\<exists>new. AddFileInstance (example_new []) p m = Inr (m\<lparr>in_FileSources := AList.update p (Some new) (in_FileSources m)\<rparr>)"
  using assms by (simp add: AddFileInstance_def file_NewInput_def example_new_def file_getLastPosition_def filters_of_def Let_def TrimSpace_def TrimLeft_def TrimRight_def Fields_def split: prod.split) blast

theorem same_name_files_collide_witness:
  "\<forall>q. \<exists>m1 m2 f1 f2. AddFileInstance (example_new []) [47, 97, 47, 102] (ingest_NewManager None [] q) = Inr m1 \<and>
    AddFileInstance (example_new []) [47, 98, 47, 102] m1 = Inr m2 \<and> map_of (in_FileSources m2) [47, 97, 47, 102] = Some (Some f1) \<and>
    map_of (in_FileSources m2) [47, 98, 47, 102] = Some (Some f2) \<and>
    (\<exists>mm mt. map_of (fold add_metric (snd (file_in_CollectMetrics 1 2 (f2\<lparr>fi_Success := 5\<rparr>))) (fold add_metric (snd (file_in_CollectMetrics 1 2 (f1\<lparr>fi_Success := 4\<rparr>))) []))
        (nsKey (GetTagList (fi_ctx f1))) = Some mm \<and> map_of mm success_name = Some mt \<and> mv_Raw (mt_Value mt) = RawUint64 5)"
proof
  fix q
  let ?p1 = "[47, 97, 47, 102] :: bytes" and ?p2 = "[47, 98, 47, 102] :: bytes" and ?m = "ingest_NewManager None [] q"
  have b: "filepath_Base ?p1 = [102]" "filepath_Base ?p2 = [102]" by (simp_all add: filepath_Base_def Let_def)
  have m: "in_FileSources ?m = []" "in_filters ?m = []" by (simp_all add: ingest_NewManager_def)
  obtain g1 where g1: "AddFileInstance (example_new []) ?p1 ?m = Inr (?m\<lparr>in_FileSources := [(?p1, Some g1)]\<rparr>)"
    using example_add [of ?m ?p1] m by auto
  obtain m2 where m2: "AddFileInstance (example_new []) ?p2 (?m\<lparr>in_FileSources := [(?p1, Some g1)]\<rparr>) = Inr m2"
    using example_add [of "?m\<lparr>in_FileSources := [(?p1, Some g1)]\<rparr>" ?p2] m b by auto
  have "(\<forall>k \<in> fst ` set (in_FileSources ?m). slash \<in> set k)" "slash \<in> set ?p1" "filepath_Base ?p1 = filepath_Base ?p2" "filepath_Base ?p1 \<noteq> [slash]"
    using m b by simp_all
  from same_name_files_collide [OF this g1, of "example_new []" m2 1 2 2] m2
  obtain f1 f2 where f: "map_of (in_FileSources m2) ?p1 = Some (Some f1)" "map_of (in_FileSources m2) ?p2 = Some (Some f2)"
    and r: "\<And>g1 g2 nm. fi_ctx g1 = fi_ctx f1 \<and> fi_ctx g2 = fi_ctx f2 \<Longrightarrow>
      \<exists>mm mt. map_of (fold add_metric (snd (file_in_CollectMetrics 1 2 g2)) (fold add_metric (snd (file_in_CollectMetrics 1 2 g1)) nm))
        (nsKey (GetTagList (fi_ctx f1))) = Some mm \<and> map_of mm success_name = Some mt \<and> mv_Raw (mt_Value mt) = RawUint64 (fi_Success g2)"
    by auto
  have "fi_Success (f2\<lparr>fi_Success := 5\<rparr>) = 5" by simp
  then show "\<exists>m1 m2 f1 f2. AddFileInstance (example_new []) ?p1 ?m = Inr m1 \<and> AddFileInstance (example_new []) ?p2 m1 = Inr m2 \<and>
    map_of (in_FileSources m2) ?p1 = Some (Some f1) \<and> map_of (in_FileSources m2) ?p2 = Some (Some f2) \<and>
    (\<exists>mm mt. map_of (fold add_metric (snd (file_in_CollectMetrics 1 2 (f2\<lparr>fi_Success := 5\<rparr>))) (fold add_metric (snd (file_in_CollectMetrics 1 2 (f1\<lparr>fi_Success := 4\<rparr>))) []))
        (nsKey (GetTagList (fi_ctx f1))) = Some mm \<and> map_of mm success_name = Some mt \<and> mv_Raw (mt_Value mt) = RawUint64 5)"
    using g1 m2 f r [of "f1\<lparr>fi_Success := 4\<rparr>" "f2\<lparr>fi_Success := 5\<rparr>" "[]"]
    by (intro exI [of _ "?m\<lparr>in_FileSources := [(?p1, Some g1)]\<rparr>"] exI [of _ m2] exI [of _ f1] exI [of _ f2]) simp
qed

end
