(* ===== verification/Receiver_Output.thy ===== *)
theory Receiver_Output
  imports Output_Modules Worker_Pool Receiver_Pipeline
begin

text \<open>
  \<^verbatim>\<open>internal/receiver/output\<close>: the worker that takes assembled messages from its queue and writes each to
  all configured outputs, and its manager. The file output is the module of \<open>Output_Modules\<close>; the numbers
  of entries that the other outputs report are arguments. Successful writes, drops and consecutive
  failures are counted; a long series of failures makes the worker ask for the end of the program.
\<close>

section \<open>Types\<close>

record OutMetrics =
  ReceivedMessages :: "64 word"
  SuccessfulFileWrites :: "64 word"
  SuccessfulJrnlWrites :: "64 word"
  SuccessfulBeatsWrites :: "64 word"
  SuccessfulRawWrites :: "64 word"
  SuccessfulNotifyWrites :: "64 word"
  ot_Dropped :: "64 word"

definition OutMetrics_zero :: OutMetrics where
  "OutMetrics_zero = \<lparr>ReceivedMessages = 0, SuccessfulFileWrites = 0, SuccessfulJrnlWrites = 0,
     SuccessfulBeatsWrites = 0, SuccessfulRawWrites = 0, SuccessfulNotifyWrites = 0, ot_Dropped = 0\<rparr>"

record failureTracker =
  consecutiveCount :: int
  fail_deadline :: int
  maximumDuration :: int

record output_Instance =
  oi_namespace :: "bytes list"
  oi_file :: "file_Out option"
  oi_failures :: failureTracker
  oi_Metrics :: OutMetrics

record output_Config =
  oc_FilePath :: bytes
  oc_JournaldURL :: bytes
  oc_BeatsAddress :: bytes
  oc_RawWriter :: bool
  oc_EnableDBUSNotify :: bool
  oc_ShutdownInterval :: int
  oc_MinQueue :: int
  oc_MaxQueue :: int

record output_Manager =
  om_Config :: output_Config
  om_Inbox :: "Payload Queue"
  om_Instance :: "output_Instance option"
  om_ctx :: ctx

section \<open>The manager\<close>

datatype output_config_error = OEmptyMinQueue | OEmptyMaxQueue | OQueueBounds | ONoOutputs | OEmptyInterval

text \<open>The last error found is the one returned, except that missing outputs return at once.\<close>

definition output_validate :: "output_Config \<Rightarrow> output_config_error option" where
  "output_validate c =
     (let err = None;
          err = (if oc_MinQueue c = 0 then Some OEmptyMinQueue else err);
          err = (if oc_MaxQueue c = 0 then Some OEmptyMaxQueue else err);
          err = (if oc_MinQueue c \<ge> oc_MaxQueue c then Some OQueueBounds else err) in
      if oc_FilePath c = [] \<and> oc_JournaldURL c = [] \<and> oc_BeatsAddress c = [] \<and> \<not> oc_RawWriter c \<and> \<not> oc_EnableDBUSNotify c
      then Some ONoOutputs
      else if oc_ShutdownInterval c = 0 then Some OEmptyInterval else err)"

datatype 'e manager_error = InvalidConfig 'e | QueueFailed queue_error

definition output_NewManager :: "ctx \<Rightarrow> output_Config \<Rightarrow> output_config_error manager_error + output_Manager" where
  "output_NewManager c config =
     (case output_validate config of
        Some e \<Rightarrow> Inl (InvalidConfig e)
      | None \<Rightarrow>
          let c = AppendCtxTag NSmOutput c in
          (case New Payload_zero (GetTagList c) (of_int (oc_MinQueue config)) (oc_MinQueue config) (oc_MaxQueue config) of
             Inl e \<Rightarrow> Inl (QueueFailed e)
           | Inr inbox \<Rightarrow> Inr \<lparr>om_Config = config, om_Inbox = inbox, om_Instance = None, om_ctx = c\<rparr>))"

definition output_newWorker :: "output_Manager \<Rightarrow> output_Instance" where
  "output_newWorker m = \<lparr>oi_namespace = GetTagList (om_ctx m) @ [NSWorker], oi_file = None,
     oi_failures = \<lparr>consecutiveCount = 0, fail_deadline = Time_zero, maximumDuration = oc_ShutdownInterval (om_Config m)\<rparr>,
     oi_Metrics = OutMetrics_zero\<rparr>"

text \<open>
  \<^verbatim>\<open>AddWorkers\<close> opens the outputs in order and stops at the first that fails; which of the later ones
  fails is an argument.
\<close>

definition defaultFileBatchSize :: int where "defaultFileBatchSize = 20"

definition output_AddWorkers :: "disk option \<Rightarrow> bool \<Rightarrow> output_Manager \<Rightarrow> output_Manager \<times> bool" where
  "output_AddWorkers opened othersOpen m =
     (let inst = output_newWorker m in
      case file_NewOutput opened (oc_FilePath (om_Config m)) defaultFileBatchSize of
        Inl _ \<Rightarrow> (m\<lparr>om_Instance := Some inst\<rparr>, False)
      | Inr f \<Rightarrow> (m\<lparr>om_Instance := Some (inst\<lparr>oi_file := f\<rparr>)\<rparr>, othersOpen))"

section \<open>The worker\<close>

text \<open>The size of a message is subtracted from the byte gauge, which \<^verbatim>\<open>Pop\<close> has already done.\<close>

definition output_pop :: "bool \<Rightarrow> wake list \<Rightarrow> Payload Queue \<Rightarrow> (Payload Queue \<times> Payload option) option" where
  "output_pop ctxDone sel inbox =
     (case Pop ctxDone sel inbox of
        None \<Rightarrow> None
      | Some (inbox, PopOut msg) \<Rightarrow> Some (bytes_subtract (Payload_Size msg) inbox, Some msg)
      | Some (inbox, PopCancelled) \<Rightarrow> Some (inbox, None)
      | Some (inbox, PopBlocked) \<Rightarrow> None)"

text \<open>The entries that journald, beats, the raw writer and the notifier report for one message.\<close>

record other_writes =
  n_jrnl :: nat
  n_beats :: nat
  n_raw :: nat
  n_notify :: nat

definition no_others :: other_writes where
  "no_others = \<lparr>n_jrnl = 0, n_beats = 0, n_raw = 0, n_notify = 0\<rparr>"

definition output_flush :: "text_lib \<Rightarrow> output_Instance \<Rightarrow> output_Instance" where
  "output_flush T inst =
     (case oi_file inst of None \<Rightarrow> inst | Some f \<Rightarrow> inst\<lparr>oi_file := Some (fst (file_FlushBuffer T f))\<rparr>)"

definition count_failure :: "int \<Rightarrow> nat \<Rightarrow> output_Instance \<Rightarrow> output_Instance" where
  "count_failure now totalWritten inst =
     (let f = oi_failures inst in
      if totalWritten = 0 then
        let f = (if consecutiveCount f = 0 then f\<lparr>fail_deadline := now + maximumDuration f\<rparr> else f) in
        inst\<lparr>oi_Metrics := (oi_Metrics inst)\<lparr>ot_Dropped := ot_Dropped (oi_Metrics inst) + 1\<rparr>,
             oi_failures := f\<lparr>consecutiveCount := consecutiveCount f + 1\<rparr>\<rparr>
      else if consecutiveCount f > 0 then inst\<lparr>oi_failures := f\<lparr>consecutiveCount := 0\<rparr>\<rparr>
      else inst)"

text \<open>
  A message through the worker; the two times are those of the reading of the clock when a series of
  failures starts and when its deadline is checked. The flag is the signal sent to the own process.
\<close>

definition output_message ::
  "text_lib \<Rightarrow> other_writes \<Rightarrow> int \<Rightarrow> int \<Rightarrow> Payload \<Rightarrow> output_Instance \<Rightarrow> output_Instance \<times> bool" where
  "output_message T ow now1 now2 msg inst =
     (case (case oi_file inst of
              None \<Rightarrow> (None, 0)
            | Some f \<Rightarrow> (case file_Write T msg f of (f', n, _) \<Rightarrow> (Some f', n))) of
        (file', n1) \<Rightarrow>
          let m = oi_Metrics inst;
              m = m\<lparr>ReceivedMessages := ReceivedMessages m + 1,
                    SuccessfulFileWrites := SuccessfulFileWrites m + of_nat n1,
                    SuccessfulJrnlWrites := SuccessfulJrnlWrites m + of_nat (n_jrnl ow),
                    SuccessfulBeatsWrites := SuccessfulBeatsWrites m + of_nat (n_beats ow),
                    SuccessfulRawWrites := SuccessfulRawWrites m + of_nat (n_raw ow),
                    SuccessfulNotifyWrites := SuccessfulNotifyWrites m + of_nat (n_notify ow)\<rparr>;
              totalWritten = n1 + n_jrnl ow + n_beats ow + n_raw ow + n_notify ow;
              inst = count_failure now1 totalWritten (inst\<lparr>oi_file := file', oi_Metrics := m\<rparr>);
              f = oi_failures inst in
          (inst, consecutiveCount f > 0 \<and> fail_deadline f < now2))"

text \<open>What the loop selects: a message taken from the queue, or the tick of the flush timer.\<close>

datatype output_event = OutMessage int Payload other_writes | FlushTick

fun output_run :: "text_lib \<Rightarrow> output_event list \<Rightarrow> output_Instance \<Rightarrow> output_Instance \<times> bool list" where
  "output_run T [] inst = (inst, [])"
| "output_run T (FlushTick # evs) inst = output_run T evs (output_flush T inst)"
| "output_run T (OutMessage now msg ow # evs) inst =
     (case output_message T ow now now msg inst of
        (inst', signal) \<Rightarrow> (case output_run T evs inst' of (inst'', signals) \<Rightarrow> (inst'', signal # signals)))"

definition output_CollectMetrics :: "int \<Rightarrow> int \<Rightarrow> output_Instance \<Rightarrow> output_Instance \<times> Metric list" where
  "output_CollectMetrics interval recordTime inst =
     (let m = oi_Metrics inst;
          totalWrites = SuccessfulFileWrites m + SuccessfulJrnlWrites m + SuccessfulBeatsWrites m
            + SuccessfulRawWrites m + SuccessfulNotifyWrites m;
          mk = (\<lambda>name d raw. mk_metric (oi_namespace inst) interval recordTime name d (RawUint64 raw) ''count'' Counter) in
      (inst\<lparr>oi_Metrics := OutMetrics_zero\<rparr>,
       [mk ''received_messages'' ''Total messages received from assemblers'' (ReceivedMessages m),
        mk ''written_messages'' ''Sum of messages successfully written to all outputs'' totalWrites,
        mk ''success_file_writes'' ''Total writes to any file outputs'' (SuccessfulFileWrites m),
        mk ''success_journal_writes'' ''Total writes to journal output'' (SuccessfulJrnlWrites m),
        mk ''success_beats_writes'' ''Total writes to beats output'' (SuccessfulBeatsWrites m),
        mk ''success_raw_writes'' ''Total writes to raw output'' (SuccessfulRawWrites m),
        mk ''success_notify_writes'' ''Total writes to dbus notify output'' (SuccessfulNotifyWrites m),
        mk MTDropped DescDropped (ot_Dropped m)]))"

section \<open>A receiver with a file as its only output\<close>

definition messages :: "output_event list \<Rightarrow> (int \<times> Payload) list" where
  "messages evs = List.map_filter (\<lambda>ev. case ev of OutMessage now msg ow \<Rightarrow> Some (now, msg) | FlushTick \<Rightarrow> None) evs"

lemma messages_simps [simp]:
  "messages [] = []" "messages (FlushTick # evs) = messages evs"
  "messages (OutMessage now msg ow # evs) = (now, msg) # messages evs"
  by (simp_all add: messages_def map_filter_simps)

text \<open>No more messages between two ticks than fit into the buffer, and nothing written elsewhere.\<close>

fun gentle :: "int \<Rightarrow> int \<Rightarrow> output_event list \<Rightarrow> bool" where
  "gentle cap k [] = True"
| "gentle cap k (FlushTick # evs) = gentle cap 0 evs"
| "gentle cap k (OutMessage now msg ow # evs) = (k < cap \<and> ow = no_others \<and> gentle cap (k + 1) evs)"

text \<open>A series of failures has begun at a time, and the buffer holds some lines of a working disk.\<close>

definition failing_since :: "int \<Rightarrow> int \<Rightarrow> int \<Rightarrow> output_Instance \<Rightarrow> bool" where
  "failing_since t0 cap k inst \<longleftrightarrow> 0 < consecutiveCount (oi_failures inst) \<and>
     fail_deadline (oi_failures inst) = t0 + maximumDuration (oi_failures inst) \<and>
     (\<exists>f. oi_file inst = Some f \<and> fo_disk f = [] \<and> fo_batchSize f = cap \<and> int (length (fo_batch f)) = k)"

lemma failing_message:
  assumes "failing_since t0 cap k inst" and "k < cap"
  obtains inst' where
    "output_message T no_others now now msg inst = (inst', t0 + maximumDuration (oi_failures inst) < now)"
    and "failing_since t0 cap (k + 1) inst'"
    and "maximumDuration (oi_failures inst') = maximumDuration (oi_failures inst)"
    and "oi_file inst' = map_option (\<lambda>f. fst (file_Write T msg f)) (oi_file inst)"
    and "ot_Dropped (oi_Metrics inst') = ot_Dropped (oi_Metrics inst) + 1"
  using assms file_Write_buffers
  by (fastforce simp: output_message_def failing_since_def count_failure_def no_others_def Let_def)

lemma failing_flush:
  assumes "failing_since t0 cap k inst"
  shows "failing_since t0 cap 0 (output_flush T inst)"
    and "maximumDuration (oi_failures (output_flush T inst)) = maximumDuration (oi_failures inst)"
    and "oi_file (output_flush T inst) = map_option (\<lambda>f. fst (file_FlushBuffer T f)) (oi_file inst)"
    and "oi_Metrics (output_flush T inst) = oi_Metrics inst"
  using assms by (auto simp: failing_since_def output_flush_def file_FlushBuffer_healthy)

lemma failing_run:
  assumes "failing_since t0 cap k inst" and "gentle cap k evs"
    and "oi_file inst = Some f" and "holds_lines f ls"
  shows "\<exists>inst' f'. output_run T evs inst =
      (inst', map (\<lambda>(now, _). t0 + maximumDuration (oi_failures inst) < now) (messages evs)) \<and>
    oi_file inst' = Some f' \<and> holds_lines f' (ls @ map (text_line T \<circ> snd) (messages evs)) \<and>
    ot_Dropped (oi_Metrics inst') = ot_Dropped (oi_Metrics inst) + of_nat (length (messages evs))"
  using assms
proof (induction T evs inst arbitrary: k f ls rule: output_run.induct)
  case (2 T evs inst)
  note fl = failing_flush [OF "2.prems"(1), of T]
  have "oi_file (output_flush T inst) = Some (fst (file_FlushBuffer T f))"
    using fl(3) "2.prems"(3) by simp
  then show ?case
    using "2.IH" [OF fl(1) _ _ holds_lines_flush [OF "2.prems"(4)]] "2.prems"(2) fl(2,4) by simp
next
  case (3 T now msg ow evs inst)
  then have ow: "ow = no_others" and k: "k < cap" and g: "gentle cap (k + 1) evs" by auto
  obtain inst' where i: "output_message T no_others now now msg inst = (inst', t0 + maximumDuration (oi_failures inst) < now)"
    "failing_since t0 cap (k + 1) inst'" "maximumDuration (oi_failures inst') = maximumDuration (oi_failures inst)"
    "oi_file inst' = map_option (\<lambda>f. fst (file_Write T msg f)) (oi_file inst)"
    "ot_Dropped (oi_Metrics inst') = ot_Dropped (oi_Metrics inst) + 1"
    using failing_message [OF "3.prems"(1) k] by metis
  have "oi_file inst' = Some (fst (file_Write T msg f))"
    using i(4) "3.prems"(3) by simp
  from "3.IH" [OF i(1) [folded ow, symmetric] i(2) g this holds_lines_write [OF "3.prems"(4)]]
  show ?case
    using i ow by (auto simp: split_beta)
qed auto

lemma first_message:
  assumes "oi_file inst = Some f" and "fo_disk f = []" and "fo_batch f = []" and "0 < fo_batchSize f"
    and "consecutiveCount (oi_failures inst) = 0" and "0 \<le> maximumDuration (oi_failures inst)"
  obtains inst' where "output_message T no_others t0 t0 msg inst = (inst', False)"
    and "failing_since t0 (fo_batchSize f) 1 inst'"
    and "maximumDuration (oi_failures inst') = maximumDuration (oi_failures inst)"
    and "oi_file inst' = Some (fst (file_Write T msg f))"
    and "ot_Dropped (oi_Metrics inst') = ot_Dropped (oi_Metrics inst) + 1"
  using assms file_Write_buffers [of f T msg]
  by (auto simp: output_message_def failing_since_def count_failure_def no_others_def Let_def)

section \<open>Properties\<close>

text \<open>
  A receiver whose only output is a file on a working disk, and which gets no more messages
  between two flushes than the buffer holds, writes all of them, and yet counts every single one as
  dropped and as part of one series of failures: the module reports nothing written while it only
  buffers, and the periodic flush is not counted. Every message that arrives more than the failure
  interval after the first makes the worker send the termination signal to its own process.
\<close>

theorem file_output_ends_program:
  assumes "oc_FilePath (om_Config m) \<noteq> []" and "0 \<le> oc_ShutdownInterval (om_Config m)"
    and "output_AddWorkers (Some []) True m = (m', True)" and "om_Instance m' = Some inst"
    and "gentle defaultFileBatchSize 0 (OutMessage t0 msg0 no_others # evs)"
  shows "\<exists>inst' f. output_run T (OutMessage t0 msg0 no_others # evs) inst =
      (inst', False # map (\<lambda>(now, _). t0 + oc_ShutdownInterval (om_Config m) < now) (messages evs)) \<and>
    oi_file inst' = Some f \<and> holds_lines f (text_line T msg0 # map (text_line T \<circ> snd) (messages evs)) \<and>
    ot_Dropped (oi_Metrics inst') = of_nat (1 + length (messages evs))"
proof -
  let ?f = "\<lparr>fo_batchSize = defaultFileBatchSize, fo_batch = [], fo_file = [], fo_disk = []\<rparr>"
  have inst: "inst = (output_newWorker m)\<lparr>oi_file := Some ?f\<rparr>"
    using assms(1,3,4) by (auto simp: output_AddWorkers_def file_NewOutput_def defaultFileBatchSize_def Let_def)
  have g: "gentle defaultFileBatchSize 1 evs"
    using assms(5) by simp
  have "holds_lines ?f []"
    by (simp add: holds_lines_def)
  note hold = holds_lines_write [OF this, of T msg0]
  obtain inst1 where i: "output_message T no_others t0 t0 msg0 inst = (inst1, False)"
    "failing_since t0 defaultFileBatchSize 1 inst1"
    "maximumDuration (oi_failures inst1) = oc_ShutdownInterval (om_Config m)"
    "oi_file inst1 = Some (fst (file_Write T msg0 ?f))" "ot_Dropped (oi_Metrics inst1) = 1"
    using first_message [of inst ?f T t0 msg0] assms(2)
    by (auto simp: inst output_newWorker_def OutMetrics_zero_def defaultFileBatchSize_def)
  from failing_run [OF i(2) g i(4) hold, of T] show ?thesis
    using i by (auto simp: split_beta)
qed

definition example_output :: output_Manager where
  "example_output = projr (output_NewManager (Some [NSRecv])
     \<lparr>oc_FilePath = bytes_of_string ''/var/log/all.log'', oc_JournaldURL = [], oc_BeatsAddress = [], oc_RawWriter = False,
      oc_EnableDBUSNotify = False, oc_ShutdownInterval = 600 * 1000000000, oc_MinQueue = 2, oc_MaxQueue = 8\<rparr>)"

definition example_text :: text_lib where
  "example_text = \<lparr>FormatFloat32 = \<lambda>_. [], FormatFloat64 = \<lambda>_. [], FormatRFC3339Nano = FormatInt, ParseRFC3339Nano = \<lambda>_. None\<rparr>"

theorem file_output_ends_program_witness:
  "snd (output_run example_text
     [OutMessage 0 (example_part 0 0) no_others, FlushTick, OutMessage (660 * 1000000000) (example_part 0 0) no_others]
     (the (om_Instance (fst (output_AddWorkers (Some []) True example_output))))) = [False, True]"
proof -
  have c: "om_Config example_output =
      \<lparr>oc_FilePath = bytes_of_string ''/var/log/all.log'', oc_JournaldURL = [], oc_BeatsAddress = [], oc_RawWriter = False,
       oc_EnableDBUSNotify = False, oc_ShutdownInterval = 600 * 1000000000, oc_MinQueue = 2, oc_MaxQueue = 8\<rparr>"
    by code_simp
  have "output_AddWorkers (Some []) True example_output = (fst (output_AddWorkers (Some []) True example_output), True)"
    and "om_Instance (fst (output_AddWorkers (Some []) True example_output)) =
      Some (the (om_Instance (fst (output_AddWorkers (Some []) True example_output))))"
    by (simp_all add: output_AddWorkers_def file_NewOutput_def Let_def c bytes_of_string_def)
  from file_output_ends_program [OF _ _ this, of 0 "example_part 0 0"
      "[FlushTick, OutMessage (660 * 1000000000) (example_part 0 0) no_others]" example_text]
  show ?thesis
    by (auto simp: c bytes_of_string_def defaultFileBatchSize_def)
qed

end
