(* ===== verification/Receiver_Managers.thy ===== *)
theory Receiver_Managers
  imports Receiver_Output FIPR_Routing
begin

text \<open>
  The managers of the receiver's workers (\<^verbatim>\<open>manager.go\<close>, \<^verbatim>\<open>runtime.go\<close> of \<^verbatim>\<open>internal/receiver/listener\<close> and
  \<^verbatim>\<open>processor\<close>), the collection of their metrics (the \<^verbatim>\<open>metrics.go\<close> of \<^verbatim>\<open>listener\<close>, \<^verbatim>\<open>processor\<close>, \<^verbatim>\<open>assembler\<close>,
  \<^verbatim>\<open>shard\<close> and \<^verbatim>\<open>shard/fiprrecv\<close>), the gatherer that stores them once per interval
  (\<^verbatim>\<open>internal/receiver/metrics\<close>) and the start of the pipeline (\<^verbatim>\<open>internal/receiver/runtime.go\<close>). Opening and closing
  sockets is input and output; that it succeeds is an argument.
\<close>

section \<open>Listener manager\<close>

definition ListenerMetrics_zero :: ListenerMetrics where
  "ListenerMetrics_zero = \<lparr>BusyNs = 0, ValidPackets = 0, InvalidPackets = 0, ls_SumNs = 0, ls_MaxNs = 0, ls_Dropped = 0\<rparr>"

record listener_Config =
  lc_Min :: "32 word"
  lc_Max :: "32 word"
  lc_ListenSocket :: "bytes option"
  lc_ReplayWindow :: int
  lc_replayCleanInterval :: int

record listener_Manager =
  lm_Config :: listener_Config
  lm_Instances :: "ListenerMetrics worker list"
  lm_replayCache :: replayCache
  lm_ctx :: ctx

datatype listener_config_error = LEmptyMin | LEmptyMax | LBounds | LEmptyAddress | LEmptyWindow | LEmptyClean

definition listener_validate :: "listener_Config \<Rightarrow> listener_config_error option" where
  "listener_validate c =
     (let err = None;
          err = (if lc_Min c = 0 then Some LEmptyMin else err);
          err = (if lc_Max c = 0 then Some LEmptyMax else err);
          err = (if lc_Min c \<ge> lc_Max c then Some LBounds else err);
          err = (if lc_ListenSocket c = None then Some LEmptyAddress else err);
          err = (if lc_ReplayWindow c = 0 then Some LEmptyWindow else err);
          err = (if lc_replayCleanInterval c = 0 then Some LEmptyClean else err) in err)"

text \<open>Division of a duration by 2 rounds towards zero; \<^verbatim>\<open>Seconds\<close> is computed in floating point.\<close>

definition half :: "int \<Rightarrow> int" where
  "half d = (if 0 \<le> d then d div 2 else - ((- d) div 2))"

definition Duration_Seconds :: "int \<Rightarrow> float64" where
  "Duration_Seconds d =
     (let s = (if 0 \<le> d then d div 1000000000 else - ((- d) div 1000000000)); ns = d - s * 1000000000 in
      fadd (float_of_int s) (fdiv (float_of_int ns) (float_of_int 1000000000)))"

definition listener_NewManager :: "ctx \<Rightarrow> listener_Config \<Rightarrow> listener_config_error manager_error + listener_Manager" where
  "listener_NewManager c config =
     (let c = AppendCtxTag NSmIngest c;
          config = config\<lparr>lc_replayCleanInterval := half (lc_ReplayWindow config)\<rparr> in
      case listener_validate config of
        Some e \<Rightarrow> Inl (InvalidConfig e)
      | None \<Rightarrow> Inr \<lparr>lm_Config = config, lm_Instances = [],
          lm_replayCache = newReplayCacheWithShards (unat (lc_Max config)) (int_of_float (Duration_Seconds (lc_ReplayWindow config))),
          lm_ctx = c\<rparr>)"

definition listener_tags :: "bytes \<Rightarrow> bytes list" where "listener_tags i = [NSListen, i]"

definition listener_append :: "ctx \<Rightarrow> ListenerMetrics worker list \<Rightarrow> ListenerMetrics worker list list \<Rightarrow> ListenerMetrics worker list \<times> nat" where
  "listener_append c = cas_append (worker_at c listener_tags ListenerMetrics_zero)"

definition listener_AddInstance :: "bool \<Rightarrow> ListenerMetrics worker list list \<Rightarrow> listener_Manager \<Rightarrow> listener_Manager \<times> nat option" where
  "listener_AddInstance portReused races m =
     (if \<not> portReused then (m, None)
      else case listener_append (lm_ctx m) (lm_Instances m) races of
        (l, i) \<Rightarrow> (m\<lparr>lm_Instances := l\<rparr>, Some i))"

definition listener_RemoveLastInstance :: "ListenerMetrics worker list list \<Rightarrow> listener_Manager \<Rightarrow> listener_Manager \<times> nat" where
  "listener_RemoveLastInstance races m =
     (case cas_remove (lm_Instances m) races of (l, i) \<Rightarrow> (m\<lparr>lm_Instances := l\<rparr>, i))"

text \<open>A turn of one of the listeners on what they share: the replay cache and the queue of the processors.\<close>

definition listener_worker :: "listener_Manager \<Rightarrow> Container Queue \<Rightarrow> nat \<Rightarrow> Listener" where
  "listener_worker m outbox i = (listener_newWorker (lm_replayCache m) outbox)\<lparr>ls_Metrics := wk_Metrics (lm_Instances m ! i)\<rparr>"

definition listener_instance_turn ::
  "crypto_prims \<Rightarrow> listen_clock \<Rightarrow> udp_read \<Rightarrow> nat \<Rightarrow> listener_Manager \<times> Container Queue \<Rightarrow>
   ((listener_Manager \<times> Container Queue) \<times> listen_result) option" where
  "listener_instance_turn P clk rd i st =
     (case st of (m, outbox) \<Rightarrow>
        map_option (\<lambda>(s, r).
          ((m\<lparr>lm_replayCache := ls_cache s,
              lm_Instances := (lm_Instances m)[i := (lm_Instances m ! i)\<lparr>wk_Metrics := ls_Metrics s\<rparr>]\<rparr>, ls_outbox s), r))
          (listen_turn P clk rd (listener_worker m outbox i)))"

interpretation listener_pool: worker_pool c listener_tags "listener_append c" cas_remove for c
  unfolding listener_append_def by (rule worker_pool_cas) (simp add: listener_tags_def)

section \<open>Processor manager\<close>

definition ProcMetrics_zero :: ProcMetrics where
  "ProcMetrics_zero = \<lparr>ValidPayloads = 0, InvalidPayloads = 0, ps_SumNs = 0, ps_MaxNs = 0, ps_Dropped = 0\<rparr>"

record processor_Config =
  pc_MinQueue :: int
  pc_MaxQueue :: int
  pc_Min :: "32 word"
  pc_Max :: "32 word"
  pc_PastMsgCutoff :: int
  pc_FutureMsgCutoff :: int

record processor_Manager =
  pm_Config :: processor_Config
  pm_Instances :: "ProcMetrics worker list"
  pm_Inbox :: "Container Queue"
  pm_ctx :: ctx

datatype processor_config_error = PEmptyMinQueue | PEmptyMaxQueue | PQueueBounds | PEmptyMin | PEmptyMax | PBounds | PEmptyPast | PEmptyFuture

definition processor_validate :: "processor_Config \<Rightarrow> processor_config_error option" where
  "processor_validate c =
     (let err = None;
          err = (if pc_MinQueue c = 0 then Some PEmptyMinQueue else err);
          err = (if pc_MaxQueue c = 0 then Some PEmptyMaxQueue else err);
          err = (if pc_MinQueue c \<ge> pc_MaxQueue c then Some PQueueBounds else err);
          err = (if pc_Min c = 0 then Some PEmptyMin else err);
          err = (if pc_Max c = 0 then Some PEmptyMax else err);
          err = (if pc_Min c \<ge> pc_Max c then Some PBounds else err);
          err = (if pc_PastMsgCutoff c = 0 then Some PEmptyPast else err);
          err = (if pc_FutureMsgCutoff c = 0 then Some PEmptyFuture else err) in err)"

definition Container_zero :: Container where "Container_zero = \<lparr>cData = [], cRemoteIP = AddrZero\<rparr>"

definition processor_NewManager :: "ctx \<Rightarrow> processor_Config \<Rightarrow> processor_config_error manager_error + processor_Manager" where
  "processor_NewManager c config =
     (case processor_validate config of
        Some e \<Rightarrow> Inl (InvalidConfig e)
      | None \<Rightarrow>
          let c = AppendCtxTag NSProc c in
          (case New Container_zero (GetTagList c) (of_int (pc_MinQueue config)) (pc_MinQueue config) (pc_MaxQueue config) of
             Inl e \<Rightarrow> Inl (QueueFailed e)
           | Inr inQueue \<Rightarrow> Inr \<lparr>pm_Config = config, pm_Instances = [], pm_Inbox = inQueue, pm_ctx = c\<rparr>))"

definition processor_tags :: "bytes \<Rightarrow> bytes list" where "processor_tags i = [NSWorker, i]"

definition processor_append :: "ctx \<Rightarrow> ProcMetrics worker list \<Rightarrow> ProcMetrics worker list list \<Rightarrow> ProcMetrics worker list \<times> nat" where
  "processor_append c = cas_append (worker_at c processor_tags ProcMetrics_zero)"

definition processor_AddInstance :: "ProcMetrics worker list list \<Rightarrow> processor_Manager \<Rightarrow> processor_Manager \<times> nat" where
  "processor_AddInstance races m =
     (case processor_append (pm_ctx m) (pm_Instances m) races of (l, i) \<Rightarrow> (m\<lparr>pm_Instances := l\<rparr>, i))"

definition processor_RemoveLastInstance :: "ProcMetrics worker list list \<Rightarrow> processor_Manager \<Rightarrow> processor_Manager \<times> nat" where
  "processor_RemoveLastInstance races m =
     (case cas_remove (pm_Instances m) races of (l, i) \<Rightarrow> (m\<lparr>pm_Instances := l\<rparr>, i))"

interpretation processor_pool: worker_pool c processor_tags "processor_append c" cas_remove for c
  unfolding processor_append_def by (rule worker_pool_cas) (simp add: processor_tags_def)

section \<open>Collection of metrics\<close>

text \<open>Every collector swaps its counters with zero; interval and time of the reading are arguments.\<close>

definition listener_manager_CollectMetrics :: "int \<Rightarrow> int \<Rightarrow> listener_Manager \<Rightarrow> Metric list" where
  "listener_manager_CollectMetrics interval recordTime m =
     [mk_metric (GetTagList (lm_ctx m)) interval recordTime ''instance_count''
        ''Number of running instances at the time of metric collection'' (RawInt (int (length (lm_Instances m)))) ''count'' Gauge]"

definition listener_CollectMetrics :: "int \<Rightarrow> int \<Rightarrow> ListenerMetrics worker \<Rightarrow> ListenerMetrics worker \<times> Metric list" where
  "listener_CollectMetrics interval recordTime w =
     (let m = wk_Metrics w; mk = mk_metric (GetTagList (wk_ctx w)) interval recordTime;
          busyPct = fmul (fdiv (float_of_int (uint (BusyNs m))) (float_of_int interval)) (float_of_int 100) in
      (w\<lparr>wk_Metrics := ListenerMetrics_zero\<rparr>,
       [mk ''busy_time_percent'' ''Total time spent doing anything in the interval'' (RawFloat64 busyPct) ''%'' Summary,
        mk ''valid_packets_total'' ''Total packets that passed basic validation in the interval''
          (RawUint64 (ValidPackets m)) ''count'' Counter,
        mk ''invalid_packets_total'' ''Total packets that failed basic validation in the interval''
          (RawUint64 (InvalidPackets m)) ''count'' Counter,
        mk ''elapsed_time_sum_ns'' ''Total time spent validating packets in the interval''
          (RawUint64 (ls_SumNs m)) ''ns'' Counter,
        mk ''elapsed_time_max_ns'' ''Maximum (seen) time spent validating packets in the interval''
          (RawUint64 (ls_MaxNs m)) ''ns'' Summary,
        mk MTDropped DescDropped (RawUint64 (ls_Dropped m)) ''count'' Counter]))"

definition processor_manager_CollectMetrics :: "int \<Rightarrow> int \<Rightarrow> processor_Manager \<Rightarrow> Metric list" where
  "processor_manager_CollectMetrics interval recordTime m =
     [mk_metric (GetTagList (pm_ctx m)) interval recordTime ''instance_count''
        ''Number of running instances at the time of metric collection'' (RawInt (int (length (pm_Instances m)))) ''count'' Gauge]"

definition processor_CollectMetrics :: "int \<Rightarrow> int \<Rightarrow> ProcMetrics worker \<Rightarrow> ProcMetrics worker \<times> Metric list" where
  "processor_CollectMetrics interval recordTime w =
     (let m = wk_Metrics w; mk = mk_metric (GetTagList (wk_ctx w)) interval recordTime in
      (w\<lparr>wk_Metrics := ProcMetrics_zero\<rparr>,
       [mk ''valid_payloads_total'' ''Total validated payloads in the interval'' (RawUint64 (ValidPayloads m)) ''count'' Counter,
        mk ''invalid_payloads_total'' ''Total invalid payloads in the interval'' (RawUint64 (InvalidPayloads m)) ''count'' Counter,
        mk ''elapsed_time_sum_ns'' ''Total time spent processing payloads in the interval''
          (RawUint64 (ps_SumNs m)) ''ns'' Counter,
        mk ''elapsed_time_max_ns'' ''Maximum (seen) time spent processing payloads in the interval''
          (RawUint64 (ps_MaxNs m)) ''ns'' Summary,
        mk MTDropped DescDropped (RawUint64 (ps_Dropped m)) ''count'' Counter]))"

definition shard_CollectMetrics :: "int \<Rightarrow> int \<Rightarrow> Shard \<Rightarrow> Shard \<times> Metric list" where
  "shard_CollectMetrics interval recordTime q =
     (let m = sh_Metrics q; mk = mk_metric (sh_Namespace q) interval recordTime in
      (q\<lparr>sh_Metrics := m\<lparr>sm_TimedOutBuckets := 0, sm_SumFragmentTimeSpacing := 0, sm_PopCount := 0, sm_PushCount := 0\<rparr>\<rparr>,
       [mk ''total_bytes'' ''Total bytes currently in the queue (includes internal structure overheads)''
          (RawUint64 (sm_Bytes m)) ''bytes'' Gauge,
        mk ''total_buckets'' ''Total buckets currently in the queue (not counting ones waiting for processing)''
          (RawUint64 (sm_TotalBuckets m)) ''count'' Gauge,
        mk ''waiting_buckets'' ''Total buckets waiting to be processed'' (RawUint64 (sm_WaitingBuckets m)) ''count'' Gauge,
        mk ''timed_out_buckets'' ''Total buckets that did not receive all fragments of a message in the interval''
          (RawUint64 (sm_TimedOutBuckets m)) ''count'' Counter,
        mk ''sum_time_between_fragments'' ''Sum of time to arrival between fragments in the interval''
          (RawUint64 (sm_SumFragmentTimeSpacing m)) ''ns'' Counter,
        mk ''push_ctn'' ''Total buckets sent into the queue in the interval'' (RawUint64 (sm_PushCount m)) ''count'' Counter,
        mk ''pop_ctn'' ''Total buckets received from the queue in the interval'' (RawUint64 (sm_PopCount m)) ''count'' Counter]))"

definition AsmMetrics_zero :: AsmMetrics where
  "AsmMetrics_zero = \<lparr>ProcessedBuckets = 0, as_SumNs = 0, as_MaxNs = 0, as_Dropped = 0\<rparr>"

definition assembler_manager_CollectMetrics :: "int \<Rightarrow> int \<Rightarrow> Manager \<Rightarrow> Metric list" where
  "assembler_manager_CollectMetrics interval recordTime m =
     [mk_metric (m_tags m) interval recordTime ''instance_count''
        ''Number of running instances at the time of metric collection'' (RawInt (int (length (GetAllIDs m)))) ''count'' Gauge,
      mk_metric (m_tags m) interval recordTime ''packet_deadline''
        ''Packet deadline (maximum time between fragments) at the time of metric collection''
        (RawInt64 (PacketDeadline m)) ''ns'' Summary]"

definition assembler_CollectMetrics :: "int \<Rightarrow> int \<Rightarrow> AsmMetrics worker \<Rightarrow> AsmMetrics worker \<times> Metric list" where
  "assembler_CollectMetrics interval recordTime w =
     (let m = wk_Metrics w; mk = mk_metric (GetTagList (wk_ctx w)) interval recordTime in
      (w\<lparr>wk_Metrics := AsmMetrics_zero\<rparr>,
       [mk ''processed_buckets'' ''Number of buckets successfully processed in the interval''
          (RawUint64 (ProcessedBuckets m)) ''count'' Counter,
        mk ''elapsed_time_sum_ns'' ''Total time spent processing buckets in the interval (excludes pop/push from queues)''
          (RawUint64 (as_SumNs m)) ''ns'' Counter,
        mk ''elapsed_time_max_ns'' ''Maximum (seen) time spent processing buckets in the interval (excludes pop/push from queues)''
          (RawUint64 (as_MaxNs m)) ''ns'' Summary,
        mk MTDropped DescDropped (RawUint64 (as_Dropped m)) ''count'' Counter]))"

definition fiprrecv_CollectMetrics :: "bytes list \<Rightarrow> int \<Rightarrow> int \<Rightarrow> fiprrecv_metrics \<Rightarrow> fiprrecv_metrics \<times> Metric list" where
  "fiprrecv_CollectMetrics namespace interval recordTime m =
     (let mk = mk_metric namespace interval recordTime in
      (\<lparr>Connections = 0, AcceptedFragments = 0, RejectedFragments = 0\<rparr>,
       [mk ''total_connections'' ''Total connections from any remote shard'' (RawUint64 (Connections m)) ''count'' Gauge,
        mk ''accepted_fragments'' ''Total number of accepted remote fragments in the interval''
          (RawUint64 (AcceptedFragments m)) ''count'' Gauge,
        mk ''rejected_fragments'' ''Total number of rejected remote fragments in the interval''
          (RawUint64 (RejectedFragments m)) ''count'' Counter]))"

end
