(* ===== verification/Receiver_Daemon.thy ===== *)
theory Receiver_Daemon
  imports Receiver_Managers
begin

text \<open>
  The receiver as a whole: its options and their defaults (\<^verbatim>\<open>internal/receiver/config.go\<close>, \<^verbatim>\<open>types.go\<close>), the
  preparation and the start of the pipeline (\<^verbatim>\<open>new.go\<close>, \<^verbatim>\<open>runtime.go\<close>), its shutdown, and the gatherer of metrics
  (\<^verbatim>\<open>internal/receiver/metrics\<close>). Files, sockets and the number of processors are arguments. The goroutines that
  are started run the workers of the other theories.
\<close>

section \<open>Options\<close>

record receiver_Opts =
  ro_PrivateKeyFile :: bytes
  ro_PinnedKeysPath :: bytes
  ro_TransportSuite :: bytes
  ro_SignatureSuite :: bytes
  ro_ProtectionWindow :: int
  ro_PastWindow :: int
  ro_FutureWindow :: int
  ro_SocketDir :: bytes
  ro_Address :: bytes
  ro_Port :: int
  ro_FilePath :: bytes
  ro_JournaldURL :: bytes
  ro_BeatsAddress :: bytes
  ro_DBUSNotify :: bool
  ro_InternalLogs :: bool
  ro_MaxFailures :: int
  ro_Interval :: int
  ro_MaxAge :: int
  ro_EnableQueryServer :: bool
  ro_QueryPort :: int
  ro_Enabled :: bool
  ro_PollInterval :: int
  ro_MinListeners :: int
  ro_MaxListeners :: int
  ro_MinProcessors :: int
  ro_MaxProcessors :: int
  ro_MinProcQueue :: int
  ro_MaxProcQueue :: int
  ro_MinDefrags :: int
  ro_MaxDefrags :: int
  ro_MinOutQueue :: int
  ro_MaxOutQueue :: int

abbreviation second :: int where "second \<equiv> 1000000000"

definition DefaultMinQueueSize :: int where "DefaultMinQueueSize = 2048"
definition DefaultMaxQueueSize :: int where "DefaultMaxQueueSize = 8192"
definition DefaultReceiverPort :: int where "DefaultReceiverPort = 8514"
definition ListenPortReceiver :: int where "ListenPortReceiver = 20000 + DefaultReceiverPort"
definition DefaultSocketDir :: bytes where "DefaultSocketDir = bytes_of_string ''/var/cache/sdsyslog/ipc''"

definition DefaultReplayWindow :: int where "DefaultReplayWindow = 10 * 60 * second"
definition DefaultPastValidityWindow :: int where "DefaultPastValidityWindow = 12 * 3600 * second"
definition DefaultFutureValidityWindow :: int where "DefaultFutureValidityWindow = 4 * 3600 * second"
definition DefaultOutputFailureDuration :: int where "DefaultOutputFailureDuration = 10 * 60 * second"

definition VerifyWholeDuration :: "int \<Rightarrow> bool" where
  "VerifyWholeDuration interval \<longleftrightarrow>
     \<not> interval \<le> 0 \<and> list_ex (\<lambda>parent. parent mod interval = 0) [1000000, second, 60 * second]"

definition orElse :: "int \<Rightarrow> int \<Rightarrow> int" where "orElse v d = (if v = 0 then d else v)"

definition clampMin :: "int \<Rightarrow> int \<Rightarrow> int" where
  "clampMin cpu v = (let v = (if v = 0 then 1 else v) in if v > cpu then cpu else v)"

definition default_suites :: "crypto_prims \<Rightarrow> receiver_Opts \<Rightarrow> receiver_Opts" where
  "default_suites P o0 =
     (let o1 = (if ro_TransportSuite o0 = []
                then (case GetSuiteInfo P 1 of Some s \<Rightarrow> o0\<lparr>ro_TransportSuite := si_Name s\<rparr> | None \<Rightarrow> o0) else o0) in
      if ro_SignatureSuite o1 = [] \<and> ro_PinnedKeysPath o1 = []
      then (case GetSignatureInfo P 0 of Some s \<Rightarrow> o1\<lparr>ro_SignatureSuite := sg_Name s\<rparr> | None \<Rightarrow> o1)
      else if ro_SignatureSuite o1 = [] \<and> ro_PinnedKeysPath o1 \<noteq> []
      then (case GetSignatureInfo P 1 of Some s \<Rightarrow> o1\<lparr>ro_SignatureSuite := sg_Name s\<rparr> | None \<Rightarrow> o1) else o1)"

definition receiver_setDefaults :: "crypto_prims \<Rightarrow> int \<Rightarrow> receiver_Opts \<Rightarrow> receiver_Opts" where
  "receiver_setDefaults P logicalCPUCount opts =
     (let o2 = default_suites P opts;
          poll = orElse (ro_PollInterval o2) (5 * second);
          poll = (if poll < second then 2 * DefaultMaxPacketDeadline else poll);
          poll = (if poll > 60 * second then 60 * second else poll) in
      o2\<lparr>ro_PollInterval := poll,
         ro_MaxListeners := orElse (ro_MaxListeners o2) logicalCPUCount,
         ro_MaxProcessors := orElse (ro_MaxProcessors o2) logicalCPUCount,
         ro_MaxDefrags := orElse (ro_MaxDefrags o2) logicalCPUCount,
         ro_MaxProcQueue := orElse (ro_MaxProcQueue o2) DefaultMaxQueueSize,
         ro_MaxOutQueue := orElse (ro_MaxOutQueue o2) DefaultMaxQueueSize,
         ro_MinDefrags := clampMin logicalCPUCount (ro_MinDefrags o2),
         ro_MinListeners := clampMin logicalCPUCount (ro_MinListeners o2),
         ro_MinProcessors := clampMin logicalCPUCount (ro_MinProcessors o2),
         ro_MinProcQueue := orElse (ro_MinProcQueue o2) DefaultMinQueueSize,
         ro_MinOutQueue := orElse (ro_MinOutQueue o2) DefaultMinQueueSize,
         ro_ProtectionWindow := orElse (ro_ProtectionWindow o2) DefaultReplayWindow,
         ro_PastWindow := orElse (ro_PastWindow o2) DefaultPastValidityWindow,
         ro_FutureWindow := orElse (ro_FutureWindow o2) DefaultFutureValidityWindow,
         ro_SocketDir := (if ro_SocketDir o2 = [] then DefaultSocketDir else ro_SocketDir o2),
         ro_Address := (if ro_Address o2 = [] then bytes_of_string ''::'' else ro_Address o2),
         ro_Port := orElse (ro_Port o2) DefaultReceiverPort,
         ro_MaxFailures := orElse (ro_MaxFailures o2) DefaultOutputFailureDuration,
         ro_MaxAge := orElse (ro_MaxAge o2) (3600 * second),
         ro_QueryPort := orElse (ro_QueryPort o2) ListenPortReceiver,
         ro_Interval := orElse (ro_Interval o2) (15 * second)\<rparr>)"

section \<open>Preparation\<close>

datatype init_error =
    UnsupportedInterval
  | NoPinnedKeysPath
  | BadPinnedKeys
  | BadTransportSuite
  | BadKey
  | BadNetworkAddress
  | InitPanic

text \<open>The pinned keys as read from the file (None if that failed) and the parsed address are arguments.\<close>

definition receiver_Init ::
  "crypto_prims \<Rightarrow> int \<Rightarrow> (bytes \<rightharpoonup> bytes) option \<Rightarrow> bool \<Rightarrow> bytes \<Rightarrow> wrappers \<Rightarrow> receiver_Opts \<Rightarrow> init_error + receiver_Opts \<times> wrappers" where
  "receiver_Init P cpu pinned addressOk serverPriv W opts =
     (if \<not> VerifyWholeDuration (ro_Interval opts) then Inl UnsupportedInterval
      else let opts = receiver_setDefaults P cpu opts in
        if ro_PinnedKeysPath opts = [] \<and> ro_SignatureSuite opts \<noteq> NoSigName then Inl NoPinnedKeysPath
        else case (if ro_PinnedKeysPath opts \<noteq> [] then pinned else Some Map.empty) of
          None \<Rightarrow> Inl BadPinnedKeys
        | Some keys \<Rightarrow>
        (case SuiteNameToID P (ro_TransportSuite opts) of
          None \<Rightarrow> Inl BadTransportSuite
        | Some suiteID \<Rightarrow>
        (case GetSuiteInfo P suiteID of
          None \<Rightarrow> Inl BadTransportSuite
        | Some info \<Rightarrow>
        (case (si_ValidateKey info serverPriv, si_DerivePublicKey info) of
          (Inl _, _) \<Rightarrow> Inl BadKey
        | (Inr _, None) \<Rightarrow> Inl InitPanic
        | (Inr _, Some derive) \<Rightarrow>
        (case derive serverPriv of
          Inl _ \<Rightarrow> Inl BadKey
        | Inr serverPub \<Rightarrow>
        (case SetupEncryptInnerPayload W serverPub of
          (W, Inl _) \<Rightarrow> Inl BadKey
        | (W, Inr _) \<Rightarrow>
        (case SetupDecryptInnerPayload W serverPriv of
          (W, Inl _) \<Rightarrow> Inl BadKey
        | (W, Inr _) \<Rightarrow>
        (case SetupGetSharedSecret P W serverPriv of
          (W, Inl _) \<Rightarrow> Inl BadKey
        | (W, Inr _) \<Rightarrow>
        (case SetupVerifySignature W keys of
          (W, Inl _) \<Rightarrow> Inl BadPinnedKeys
        | (W, Inr _) \<Rightarrow> if addressOk then Inr (opts, W) else Inl BadNetworkAddress)))))))))"

section \<open>The pipeline\<close>

text \<open>The managers; the receiver of fragments of other processes runs only during an update.\<close>

record receiver_Mgrs =
  rm_Output :: output_Manager
  rm_Assembler :: Manager
  rm_asmWorkers :: "(bytes \<times> AsmMetrics worker) list"
  rm_Proc :: processor_Manager
  rm_Input :: listener_Manager
  rm_FIPR :: "(bytes list \<times> fiprrecv_metrics) option"

datatype start_error =
    NotInitialised
  | EbpfError
  | OutputManagerError "output_config_error manager_error"
  | OutputStartError
  | InjectorError
  | DefragManagerError config_error
  | ProcessorManagerError "processor_config_error manager_error"
  | ListenerManagerError "listener_config_error manager_error"
  | ListenerStartError
  | MetricServerError
  | ReadinessError
  | NotifyError

text \<open>
  What the rest of the system answers during the start: whether the kernel program loads, which outputs
  and ports open, whether the shared secret is set up and the socket for fragments opens, whether this
  process was started by an update; and the order in which a range over the map of assemblers goes.
\<close>

record start_env =
  se_ebpfLoaded :: bool
  se_rawWriter :: bool
  se_fileOpened :: "disk option"
  se_othersOpen :: bool
  se_injector :: bool
  se_order :: "bytes list \<Rightarrow> bytes list"
  se_tempChild :: bool
  se_postUpdate :: bool
  se_secretOk :: bool
  se_socketOk :: bool
  se_portReused :: "nat \<Rightarrow> bool"
  se_serverBound :: bool
  se_parentTold :: bool
  se_notified :: bool

definition NSmFIPR :: bytes where "NSmFIPR = bytes_of_string ''FIPR''"

text \<open>
  The receiver of fragments: the manager is told that it runs before its socket is opened, and is not
  told otherwise when that fails. Stopping does nothing when there is none.
\<close>

definition receiver_StartFIPR ::
  "bool \<Rightarrow> bool \<Rightarrow> ctx \<Rightarrow> Manager \<times> (bytes list \<times> fiprrecv_metrics) option \<Rightarrow> (Manager \<times> (bytes list \<times> fiprrecv_metrics) option) \<times> bool" where
  "receiver_StartFIPR secretOk socketOk c st =
     (case st of (m, fp) \<Rightarrow>
        if \<not> secretOk then ((m, fp), False)
        else ((m\<lparr>FIPRRunning := True\<rparr>,
               Some (GetTagList c @ [NSmFIPR], \<lparr>Connections = 0, AcceptedFragments = 0, RejectedFragments = 0\<rparr>)), socketOk))"

definition receiver_StopFIPR :: "Manager \<times> (bytes list \<times> fiprrecv_metrics) option \<Rightarrow> Manager \<times> (bytes list \<times> fiprrecv_metrics) option" where
  "receiver_StopFIPR st = (case st of (m, None) \<Rightarrow> (m, None) | (m, Some _) \<Rightarrow> (m\<lparr>FIPRRunning := False\<rparr>, None))"

text \<open>
  A process started by an update receives fragments from the start; the one that follows an update
  does so until the other has been ended. Failures are only logged.
\<close>

definition TempChildActions ::
  "start_env \<Rightarrow> ctx \<Rightarrow> Manager \<times> (bytes list \<times> fiprrecv_metrics) option \<Rightarrow> Manager \<times> (bytes list \<times> fiprrecv_metrics) option" where
  "TempChildActions env c st =
     (if \<not> se_tempChild env then st else fst (receiver_StartFIPR (se_secretOk env) (se_socketOk env) c st))"

definition PostUpdateActions ::
  "start_env \<Rightarrow> ctx \<Rightarrow> Manager \<times> (bytes list \<times> fiprrecv_metrics) option \<Rightarrow> Manager \<times> (bytes list \<times> fiprrecv_metrics) option" where
  "PostUpdateActions env c st =
     (if \<not> se_postUpdate env then st
      else receiver_StopFIPR (fst (receiver_StartFIPR (se_secretOk env) (se_socketOk env) c st)))"

text \<open>The next assembler instance, with its shard in the routing snapshot and its own counters.\<close>

definition asm_add ::
  "(bytes list \<Rightarrow> bytes list) \<Rightarrow> Manager \<times> (bytes \<times> AsmMetrics worker) list \<Rightarrow> Manager \<times> (bytes \<times> AsmMetrics worker) list" where
  "asm_add order st =
     (case st of (m, ws) \<Rightarrow>
        (case AddInstance (order (map fst (instances m))) m of
           (m', i) \<Rightarrow> if map_of (instances m) i \<noteq> None then (m', ws)
             else (m', ws @ [(i, \<lparr>wk_ctx = Some (m_tags m @ [i, NSAssm]), wk_Metrics = AsmMetrics_zero\<rparr>)])))"

definition proc_add :: "processor_Manager \<Rightarrow> processor_Manager" where
  "proc_add m = fst (processor_AddInstance [] m)"

text \<open>The listeners stop at the first port that cannot be opened.\<close>

fun listeners_add :: "bool list \<Rightarrow> listener_Manager \<Rightarrow> listener_Manager option" where
  "listeners_add [] m = Some m"
| "listeners_add (portReused # ports) m =
     (case listener_AddInstance portReused [] m of
        (m', None) \<Rightarrow> None
      | (m', Some _) \<Rightarrow> listeners_add ports m')"

definition output_config_of :: "receiver_Opts \<Rightarrow> bool \<Rightarrow> output_Config" where
  "output_config_of opts rawWriter = \<lparr>oc_FilePath = ro_FilePath opts, oc_JournaldURL = ro_JournaldURL opts,
     oc_BeatsAddress = ro_BeatsAddress opts, oc_RawWriter = rawWriter, oc_EnableDBUSNotify = ro_DBUSNotify opts,
     oc_ShutdownInterval = ro_MaxFailures opts, oc_MinQueue = ro_MinOutQueue opts, oc_MaxQueue = ro_MaxOutQueue opts\<rparr>"

definition proc_config_of :: "receiver_Opts \<Rightarrow> processor_Config" where
  "proc_config_of opts = \<lparr>pc_MinQueue = ro_MinProcQueue opts, pc_MaxQueue = ro_MaxProcQueue opts,
     pc_Min = of_int (ro_MinProcessors opts), pc_Max = of_int (ro_MaxProcessors opts),
     pc_PastMsgCutoff = ro_PastWindow opts, pc_FutureMsgCutoff = ro_FutureWindow opts\<rparr>"

definition listener_config_of :: "receiver_Opts \<Rightarrow> listener_Config" where
  "listener_config_of opts = \<lparr>lc_Min = of_int (ro_MinListeners opts), lc_Max = of_int (ro_MaxListeners opts),
     lc_ListenSocket = Some (ro_Address opts), lc_ReplayWindow = ro_ProtectionWindow opts, lc_replayCleanInterval = 0\<rparr>"

text \<open>The tag of the daemon, added unless it is already the only one.\<close>

definition receiver_NewDaemon :: "ctx \<Rightarrow> ctx" where
  "receiver_NewDaemon c = (if GetTagList c \<noteq> [NSRecv] then AppendCtxTag NSRecv c else c)"

definition ensure :: "'e \<Rightarrow> bool \<Rightarrow> 'e + unit" where
  "ensure e b = (if b then Inr () else Inl e)"

text \<open>
  The start. An error ends it after what was started has been shut down again; a dry run starts
  nothing. After an update the receiver of fragments runs until the other process has ended.
\<close>

definition receiver_Start :: "start_env \<Rightarrow> bool \<Rightarrow> bool \<Rightarrow> ctx \<Rightarrow> receiver_Opts \<Rightarrow> start_error + receiver_Mgrs option" where
  "receiver_Start env initSuccess dryRun c opts =
     (if \<not> initSuccess then Inl NotInitialised
      else if dryRun then Inr None
      else
        rbind (ensure EbpfError (se_ebpfLoaded env)) (\<lambda>_.
        rbind (map_sum OutputManagerError id (output_NewManager c (output_config_of opts (se_rawWriter env)))) (\<lambda>om.
        case output_AddWorkers (se_fileOpened env) (se_othersOpen env) om of (om, outputStarted) \<Rightarrow>
        rbind (ensure OutputStartError outputStarted) (\<lambda>_.
        rbind (ensure InjectorError (ro_InternalLogs opts \<longrightarrow> se_injector env)) (\<lambda>_.
        rbind (map_sum DefragManagerError id
          (NewManager (GetTagList c) (of_int (ro_MinDefrags opts)) (of_int (ro_MaxDefrags opts)) (ro_SocketDir opts))) (\<lambda>am.
        case (asm_add (se_order env) ^^ nat (ro_MinDefrags opts)) (am, []) of (am, aws) \<Rightarrow>
        case TempChildActions env c (am, None) of (am, fp) \<Rightarrow>
        rbind (map_sum ProcessorManagerError id (processor_NewManager c (proc_config_of opts))) (\<lambda>pm.
        let pm = (proc_add ^^ nat (ro_MinProcessors opts)) pm in
        rbind (map_sum ListenerManagerError id (listener_NewManager c (listener_config_of opts))) (\<lambda>lm.
        case listeners_add (map (se_portReused env) [0..<nat (ro_MinListeners opts)]) lm of
          None \<Rightarrow> Inl ListenerStartError
        | Some lm \<Rightarrow>
        rbind (ensure MetricServerError (ro_EnableQueryServer opts \<longrightarrow> se_serverBound env)) (\<lambda>_.
        rbind (ensure ReadinessError (se_parentTold env)) (\<lambda>_.
        case PostUpdateActions env c (am, fp) of (am, fp) \<Rightarrow>
        rbind (ensure NotifyError (se_notified env)) (\<lambda>_.
        Inr (Some \<lparr>rm_Output = om, rm_Assembler = am, rm_asmWorkers = aws, rm_Proc = pm, rm_Input = lm, rm_FIPR = fp\<rparr>))))))))))))"

section \<open>Gathering metrics\<close>

text \<open>
  Collecting from a list of workers, and storing each collection; \<open>clk\<close> is the clock, read once per
  collection.
\<close>

definition collect_each ::
  "(int \<Rightarrow> 'w \<Rightarrow> 'w \<times> Metric list) \<Rightarrow> (nat \<Rightarrow> int) \<Rightarrow> 'w list \<Rightarrow> 'w list \<times> Metric list list" where
  "collect_each f clk ws = (let rs = map (\<lambda>(i, w). f (clk i) w) (enumerate 0 ws) in (map fst rs, map snd rs))"

definition receiver_collect ::
  "int \<Rightarrow> (nat \<Rightarrow> nat \<Rightarrow> int) \<Rightarrow> receiver_Mgrs \<Rightarrow> receiver_Mgrs \<times> Metric list list" where
  "receiver_collect interval clk ms =
     (case collect_each (listener_CollectMetrics interval) (clk 0) (lm_Instances (rm_Input ms)) of (lws, m1) \<Rightarrow>
      let m2 = listener_manager_CollectMetrics interval (clk 1 0) (rm_Input ms) in
      case CollectMetrics interval (clk 2 0) (pm_Inbox (rm_Proc ms)) of (pq, m3) \<Rightarrow>
      case collect_each (processor_CollectMetrics interval) (clk 3) (pm_Instances (rm_Proc ms)) of (pws, m4) \<Rightarrow>
      let m5 = processor_manager_CollectMetrics interval (clk 4 0) (rm_Proc ms) in
      case collect_each (\<lambda>t (i, sh). map_prod (Pair i) id (shard_CollectMetrics interval t sh)) (clk 5) (instances (rm_Assembler ms)) of (shs, m6) \<Rightarrow>
      case collect_each (\<lambda>t (i, w). map_prod (Pair i) id (assembler_CollectMetrics interval t w)) (clk 6) (rm_asmWorkers ms) of (aws, m7) \<Rightarrow>
      let m8 = assembler_manager_CollectMetrics interval (clk 7 0) (rm_Assembler ms) in
      case (case rm_FIPR ms of None \<Rightarrow> (None, [])
            | Some (ns, fm) \<Rightarrow> (case fiprrecv_CollectMetrics ns interval (clk 8 0) fm of (fm', l) \<Rightarrow> (Some (ns, fm'), [l]))) of (fp, m9) \<Rightarrow>
      case CollectMetrics interval (clk 9 0) (om_Inbox (rm_Output ms)) of (oq, m10) \<Rightarrow>
      case (case om_Instance (rm_Output ms) of None \<Rightarrow> (None, [])
            | Some inst \<Rightarrow> (case output_CollectMetrics interval (clk 10 0) inst of (inst', l) \<Rightarrow> (Some inst', [l]))) of (oi, m11) \<Rightarrow>
      (\<lparr>rm_Output = (rm_Output ms)\<lparr>om_Inbox := oq, om_Instance := oi\<rparr>,
        rm_Assembler = (rm_Assembler ms)\<lparr>instances := shs\<rparr>, rm_asmWorkers = aws,
        rm_Proc = (rm_Proc ms)\<lparr>pm_Inbox := pq, pm_Instances := pws\<rparr>,
        rm_Input = (rm_Input ms)\<lparr>lm_Instances := lws\<rparr>, rm_FIPR = fp\<rparr>,
       m1 @ [m2, m3] @ m4 @ [m5, concat (map2 (@) m6 m7) @ m8] @ m9 @ [m10] @ m11))"

definition receiver_runIntervalTasks ::
  "int \<Rightarrow> int \<Rightarrow> (nat \<Rightarrow> nat \<Rightarrow> int) \<Rightarrow> Registry \<times> receiver_Mgrs \<Rightarrow> Registry \<times> receiver_Mgrs" where
  "receiver_runIntervalTasks timeSlice interval clk st =
     (case st of (r, ms) \<Rightarrow> (case receiver_collect interval clk ms of (ms', collections) \<Rightarrow>
        (fold (Registry_Add timeSlice) collections r, ms')))"

record 'm gatherer =
  ga_Registry :: Registry
  ga_tickCount :: int
  ga_Mgrs :: 'm

text \<open>
  One turn of the gatherer after it woke up: the slice of the interval is opened, filled, and every
  thirtieth time old slices are dropped. The loop is the same in both daemons.
\<close>

definition gather_turn ::
  "(int \<Rightarrow> int \<Rightarrow> Registry \<times> 'm \<Rightarrow> Registry \<times> 'm) \<Rightarrow> int \<Rightarrow> int \<Rightarrow> int \<Rightarrow> 'm gatherer \<Rightarrow> 'm gatherer" where
  "gather_turn runIntervalTasks interval retention now g =
     (let timeSlice = Time_Truncate now interval;
          r = fst (NewTimeSlice timeSlice interval (ga_Registry g)) in
      case runIntervalTasks timeSlice interval (r, ga_Mgrs g) of (r, ms) \<Rightarrow>
        let tickCount = ga_tickCount g + 1 in
        if 30 \<le> tickCount then \<lparr>ga_Registry = Prune now retention r, ga_tickCount = 0, ga_Mgrs = ms\<rparr>
        else \<lparr>ga_Registry = r, ga_tickCount = tickCount, ga_Mgrs = ms\<rparr>)"

section \<open>Shutdown\<close>

text \<open>The listeners and processors are removed one by one until none is left.\<close>

lemma cas_remove_quiet: "fst (cas_remove ws []) = butlast ws"
  by (simp add: cas_remove.simps butlast_conv_take)

function stop_all :: "'w list \<Rightarrow> 'w list" where
  "stop_all instanceList = (if length instanceList = 0 then instanceList else stop_all (fst (cas_remove instanceList [])))"
  by pat_completeness auto
termination by (relation "measure length") (auto simp: cas_remove_quiet)

declare stop_all.simps [simp del]

lemma stop_all_none: "stop_all ws = []"
proof (induction ws rule: stop_all.induct)
  case (1 ws)
  then show ?case by (subst stop_all.simps) auto
qed

text \<open>
  The assemblers are removed, oldest first, until the manager returns the empty identifier; whether
  that ends is a matter of the identifiers.
\<close>

partial_function (option) asm_shutdown :: "(bytes \<Rightarrow> Shard \<Rightarrow> Shard) \<Rightarrow> Manager \<Rightarrow> Manager option" where
  "asm_shutdown others m =
     (case RemoveOldestInstance others False m of
        None \<Rightarrow> None
      | Some (m', i) \<Rightarrow> if i = [] then Some m' else asm_shutdown others m')"

text \<open>The depth is recounted before the queue is watched until it is empty or ten seconds have passed.\<close>

definition resync :: "'a Queue \<Rightarrow> 'a Queue" where
  "resync q = q\<lparr>insts := (insts q)[ActiveWrite q := ResyncDepthMetric (insts q ! ActiveWrite q)]\<rparr>"

text \<open>The cancelled worker flushes its buffer, then the outputs are closed.\<close>

definition output_RemoveWorkers :: "text_lib \<Rightarrow> output_Manager \<Rightarrow> output_Manager" where
  "output_RemoveWorkers T m = m\<lparr>om_Instance := map_option (output_flush T) (om_Instance m)\<rparr>"

text \<open>
  What goes on while the shutdown waits: the readings of the two depths with their times, and what the
  workers make of the queues, the shards and the output meanwhile. The result holds the verdicts of the two waits.
\<close>

record shutdown_env =
  sv_procWait :: "int \<times> (64 word \<times> int) list"
  sv_procQueue :: "Container Queue \<Rightarrow> Container Queue"
  sv_shards :: "bytes \<Rightarrow> Shard \<Rightarrow> Shard"
  sv_outWait :: "int \<times> (64 word \<times> int) list"
  sv_outQueue :: "Payload Queue \<Rightarrow> Payload Queue"
  sv_outEvents :: "output_event list"

definition receiver_Shutdown ::
  "text_lib \<Rightarrow> shutdown_env \<Rightarrow> receiver_Mgrs \<Rightarrow> (receiver_Mgrs \<times> (bool \<times> 64 word) list) option" where
  "receiver_Shutdown T env ms =
     (let lm = (rm_Input ms)\<lparr>lm_Instances := stop_all (lm_Instances (rm_Input ms))\<rparr> in
      case WaitUntilZero (fst (sv_procWait env)) (10 * second) (snd (sv_procWait env)) of
        None \<Rightarrow> None
      | Some (procWait, _) \<Rightarrow>
      let pm = (rm_Proc ms)\<lparr>pm_Inbox := sv_procQueue env (resync (pm_Inbox (rm_Proc ms))),
                 pm_Instances := stop_all (pm_Instances (rm_Proc ms))\<rparr> in
      case asm_shutdown (sv_shards env) (rm_Assembler ms) of
        None \<Rightarrow> None
      | Some am \<Rightarrow>
      case receiver_StopFIPR (am, rm_FIPR ms) of (am, fp) \<Rightarrow>
      case WaitUntilZero (fst (sv_outWait env)) (10 * second) (snd (sv_outWait env)) of
        None \<Rightarrow> None
      | Some (outWait, _) \<Rightarrow>
      let om = (rm_Output ms)\<lparr>om_Inbox := sv_outQueue env (resync (om_Inbox (rm_Output ms))),
                 om_Instance := map_option (\<lambda>inst. fst (output_run T (sv_outEvents env) inst)) (om_Instance (rm_Output ms))\<rparr> in
      Some (\<lparr>rm_Output = output_RemoveWorkers T om, rm_Assembler = am,
              rm_asmWorkers = filter (\<lambda>(i, _). i \<in> set (ids am)) (rm_asmWorkers ms), rm_Proc = pm, rm_Input = lm, rm_FIPR = fp\<rparr>,
            [procWait, outWait]))"

section \<open>The started pipeline\<close>

text \<open>The assemblers after a number of additions: identifiers count from 0, every one with its shard.\<close>

definition asm_started :: "Manager \<Rightarrow> nat \<Rightarrow> Manager \<times> (bytes \<times> AsmMetrics worker) list \<Rightarrow> bool" where
  "asm_started m0 n st \<longleftrightarrow>
     map fst (instances (fst st)) = map decimal [0..<n] \<and> map fst (snd st) = map decimal [0..<n] \<and>
     nextInstanceID (fst st) = of_nat n \<and> PacketDeadline (fst st) = PacketDeadline m0 \<and>
     MinInstanceCount (fst st) = MinInstanceCount m0 \<and> MaxInstanceCount (fst st) = MaxInstanceCount m0 \<and>
     m_tags (fst st) = m_tags m0 \<and> FIPRRunning (fst st) = FIPRRunning m0 \<and>
     list_all (\<lambda>(i, sh). shard_wf sh) (instances (fst st)) \<and>
     (0 < n \<longrightarrow> mset (ids (fst st)) = mset (map decimal [0..<n]))"

lemma distinct_decimals: "distinct (map decimal [0..<n])"
  by (auto simp: distinct_map inj_on_def dest: decimal_inj)

lemma decimal_nonempty: "decimal n \<noteq> []"
  by (subst decimal.simps) auto

lemma update_fresh: "k \<notin> fst ` set al \<Longrightarrow> AList.update k v al = al @ [(k, v)]"
  by (induction al) auto

lemma shard_wf_New: "shard_wf (Shard_New ns n)"
  by (simp add: shard_wf_def Shard_New_def)

lemma asm_started_add:
  assumes "asm_started m0 n st" and "n < 65536" and "\<And>xs. mset (order xs) = mset xs"
  shows "asm_started m0 (Suc n) (asm_add order st)"
proof -
  obtain m ws where st: "st = (m, ws)" by (cases st)
  have u: "unat (of_nat n :: 16 word) = n"
    using assms(2) by (simp add: unat_of_nat take_bit_nat_eq_self)
  have keys: "fst ` set (instances m) = decimal ` {0..<n}"
    using assms(1) by (metis asm_started_def fst_conv set_map set_upt st)
  then have "decimal n \<notin> fst ` set (instances m)"
    by (auto dest: decimal_inj)
  then have "map_of (instances m) (decimal n) = None"
    and "AList.update (decimal n) sh (instances m) = instances m @ [(decimal n, sh)]" for sh
    by (simp_all add: map_of_eq_None_iff update_fresh)
  then show ?thesis
    using assms(1,3) u
    by (auto simp: asm_started_def st asm_add_def AddInstance_def Let_def shard_wf_New)
qed

lemma asm_started_all:
  assumes "asm_started m0 0 (m0, [])" and "n \<le> 65536" and "\<And>xs. mset (order xs) = mset xs"
  shows "asm_started m0 n ((asm_add order ^^ n) (m0, []))"
  using assms(2) by (induction n) (simp_all add: assms asm_started_add)

lemma asm_started_view:
  assumes "asm_started m0 n st" and "0 < n"
  shows "view_ok (fst st)" and "length (ids (fst st)) = n"
proof -
  have m: "mset (ids (fst st)) = mset (map decimal [0..<n])"
    and i: "map fst (instances (fst st)) = map decimal [0..<n]"
    and w: "list_all (\<lambda>(i, sh). shard_wf sh) (instances (fst st))"
    using assms by (auto simp: asm_started_def)
  have "set (ids (fst st)) = decimal ` {0..<n}" "fst ` set (instances (fst st)) = decimal ` {0..<n}"
    by (metis m set_mset_mset set_map set_upt) (metis i set_map set_upt)
  then show "view_ok (fst st)"
    using i w distinct_decimals [of n] mset_eq_imp_distinct_iff [OF m]
    by (auto simp: view_ok_def decimal_nonempty [symmetric])
  show "length (ids (fst st)) = n"
    using mset_eq_length [OF m] by simp
qed

text \<open>The pools of processors and listeners.\<close>

lemma proc_add_all:
  "pm_Instances ((proc_add ^^ n) m) = processor_pool.run (pm_ctx m) (replicate n AddOp) (pm_Instances m) \<and>
   pm_ctx ((proc_add ^^ n) m) = pm_ctx m \<and> pm_Inbox ((proc_add ^^ n) m) = pm_Inbox m \<and> pm_Config ((proc_add ^^ n) m) = pm_Config m"
proof (induction n arbitrary: m)
  case (Suc n)
  have "pm_Instances (proc_add m) = fst (processor_append (pm_ctx m) (pm_Instances m) [])"
    "pm_ctx (proc_add m) = pm_ctx m" "pm_Inbox (proc_add m) = pm_Inbox m" "pm_Config (proc_add m) = pm_Config m"
    by (simp_all add: proc_add_def processor_AddInstance_def split_beta)
  with Suc [of "proc_add m"] show ?case by (simp add: funpow_swap1)
qed simp

lemma listeners_add_Some:
  assumes "listeners_add ps m = Some m'"
  shows "lm_Instances m' = listener_pool.run (lm_ctx m) (replicate (length ps) AddOp) (lm_Instances m)"
    and "lm_ctx m' = lm_ctx m" and "lm_Config m' = lm_Config m"
  using assms
  by (induction ps m rule: listeners_add.induct)
    (auto simp: listener_AddInstance_def split_beta split: if_splits)

lemma listeners_add_open:
  assumes "list_all id ps"
  shows "\<exists>m'. listeners_add ps m = Some m'"
  using assms by (induction ps m rule: listeners_add.induct) (auto simp: listener_AddInstance_def split_beta)

lemma ensure_Inr [simp]: "ensure e b = Inr u \<longleftrightarrow> b"
  by (simp add: ensure_def)

lemma map_sum_Inr_iff: "map_sum f id r = Inr x \<longleftrightarrow> r = Inr x"
  by (cases r) auto

text \<open>Receiving fragments of other processes changes only the flag of the assembler manager.\<close>

lemma fipr_actions_manager:
  "\<exists>b. fst (PostUpdateActions env c (TempChildActions env c (m, fp))) = m\<lparr>FIPRRunning := b\<rparr>"
proof -
  have "\<exists>b. m = m\<lparr>FIPRRunning := b\<rparr>"
    by (rule exI [of _ "FIPRRunning m"]) simp
  then show ?thesis
    by (auto simp: PostUpdateActions_def TempChildActions_def receiver_StartFIPR_def receiver_StopFIPR_def split: option.split)
qed

text \<open>What a start that succeeds went through.\<close>

lemma receiver_Start_SomeE:
  assumes "receiver_Start env initSuccess dryRun c opts = Inr (Some ms)"
  obtains om am pm lm where
    "output_NewManager c (output_config_of opts (se_rawWriter env)) = Inr om"
    and "rm_Output ms = fst (output_AddWorkers (se_fileOpened env) (se_othersOpen env) om)"
    and "NewManager (GetTagList c) (of_int (ro_MinDefrags opts)) (of_int (ro_MaxDefrags opts)) (ro_SocketDir opts) = Inr am"
    and "\<exists>b. rm_Assembler ms = (fst ((asm_add (se_order env) ^^ nat (ro_MinDefrags opts)) (am, [])))\<lparr>FIPRRunning := b\<rparr>"
    and "rm_asmWorkers ms = snd ((asm_add (se_order env) ^^ nat (ro_MinDefrags opts)) (am, []))"
    and "processor_NewManager c (proc_config_of opts) = Inr pm"
    and "rm_Proc ms = (proc_add ^^ nat (ro_MinProcessors opts)) pm"
    and "listener_NewManager c (listener_config_of opts) = Inr lm"
    and "listeners_add (map (se_portReused env) [0..<nat (ro_MinListeners opts)]) lm = Some (rm_Input ms)"
  using assms that fipr_actions_manager [of env c]
  by (auto simp: receiver_Start_def rbind_eq_Inr map_sum_Inr_iff Let_def split_beta
      split: if_split_asm option.split_asm)

lemma processor_NewManager_Inr:
  assumes "processor_NewManager c config = Inr pm"
  shows "pm_Instances pm = []" and "pm_ctx pm = AppendCtxTag NSProc c"
  using assms by (auto simp: processor_NewManager_def Let_def split: option.splits sum.splits)

lemma listener_NewManager_Inr:
  assumes "listener_NewManager c config = Inr lm"
  shows "lm_Instances lm = []" and "lm_ctx lm = AppendCtxTag NSmIngest c"
  using assms by (auto simp: listener_NewManager_def Let_def split: option.splits)

lemma NewManager_Inr:
  assumes "NewManager tags mn mx dir = Inr am"
  shows "asm_started am 0 (am, [])" and "PacketDeadline am = DefaultMinPacketDeadline" and "mn \<noteq> 0" and "mn < mx"
    and "MinInstanceCount am = mn"
  using assms by (auto simp: NewManager_def Manager_validate_def asm_started_def Let_def split: if_splits)

lemma view_ok_FIPRRunning [simp]: "view_ok (m\<lparr>FIPRRunning := b\<rparr>) = view_ok m"
  by (simp add: view_ok_def)

definition open_env :: start_env where
  "open_env = \<lparr>se_ebpfLoaded = True, se_rawWriter = False, se_fileOpened = Some [], se_othersOpen = True, se_injector = True,
     se_order = rev, se_tempChild = False, se_postUpdate = False, se_secretOk = True, se_socketOk = True,
     se_portReused = (\<lambda>_. True), se_serverBound = True, se_parentTold = True, se_notified = True\<rparr>"

definition unset_opts :: receiver_Opts where
  "unset_opts = \<lparr>ro_PrivateKeyFile = [], ro_PinnedKeysPath = [], ro_TransportSuite = [], ro_SignatureSuite = [],
     ro_ProtectionWindow = 0, ro_PastWindow = 0, ro_FutureWindow = 0, ro_SocketDir = [], ro_Address = [], ro_Port = 0,
     ro_FilePath = bytes_of_string ''/var/log/all.log'', ro_JournaldURL = [], ro_BeatsAddress = [], ro_DBUSNotify = False,
     ro_InternalLogs = False, ro_MaxFailures = 0, ro_Interval = second, ro_MaxAge = 0, ro_EnableQueryServer = False,
     ro_QueryPort = 0, ro_Enabled = True, ro_PollInterval = 0, ro_MinListeners = 0, ro_MaxListeners = 0,
     ro_MinProcessors = 0, ro_MaxProcessors = 0, ro_MinProcQueue = 0, ro_MaxProcQueue = 0, ro_MinDefrags = 0,
     ro_MaxDefrags = 0, ro_MinOutQueue = 0, ro_MaxOutQueue = 0\<rparr>"

text \<open>Starting with nothing but an output configured.\<close>

definition start_succeeds :: "start_env \<Rightarrow> bool" where
  "start_succeeds env \<longleftrightarrow> se_ebpfLoaded env \<and> se_fileOpened env \<noteq> None \<and> se_othersOpen env \<and> se_injector env \<and>
     (\<forall>i. se_portReused env i) \<and> se_serverBound env \<and> se_parentTold env \<and> se_notified env"

definition only_outputs :: "receiver_Opts \<Rightarrow> bool" where
  "only_outputs opts \<longleftrightarrow>
     list_all (\<lambda>f. f opts = 0)
       [ro_ProtectionWindow, ro_PastWindow, ro_FutureWindow, ro_MaxFailures, ro_MinListeners, ro_MaxListeners, ro_MinProcessors,
        ro_MaxProcessors, ro_MinProcQueue, ro_MaxProcQueue, ro_MinDefrags, ro_MaxDefrags, ro_MinOutQueue, ro_MaxOutQueue] \<and>
     (ro_FilePath opts \<noteq> [] \<or> ro_JournaldURL opts \<noteq> [] \<or> ro_BeatsAddress opts \<noteq> [] \<or> ro_DBUSNotify opts)"

lemma New_2048: "\<exists>q. New zero ns 2048 mn mx = Inr q"
  by (simp add: New_def newQueueInst_def)

lemma default_suites_fields:
  "ro_ProtectionWindow (default_suites P opts) = ro_ProtectionWindow opts"
  "ro_PastWindow (default_suites P opts) = ro_PastWindow opts"
  "ro_FutureWindow (default_suites P opts) = ro_FutureWindow opts"
  "ro_MaxFailures (default_suites P opts) = ro_MaxFailures opts"
  "ro_MinListeners (default_suites P opts) = ro_MinListeners opts"
  "ro_MaxListeners (default_suites P opts) = ro_MaxListeners opts"
  "ro_MinProcessors (default_suites P opts) = ro_MinProcessors opts"
  "ro_MaxProcessors (default_suites P opts) = ro_MaxProcessors opts"
  "ro_MinProcQueue (default_suites P opts) = ro_MinProcQueue opts"
  "ro_MaxProcQueue (default_suites P opts) = ro_MaxProcQueue opts"
  "ro_MinDefrags (default_suites P opts) = ro_MinDefrags opts"
  "ro_MaxDefrags (default_suites P opts) = ro_MaxDefrags opts"
  "ro_MinOutQueue (default_suites P opts) = ro_MinOutQueue opts"
  "ro_MaxOutQueue (default_suites P opts) = ro_MaxOutQueue opts"
  "ro_FilePath (default_suites P opts) = ro_FilePath opts"
  "ro_JournaldURL (default_suites P opts) = ro_JournaldURL opts"
  "ro_BeatsAddress (default_suites P opts) = ro_BeatsAddress opts"
  "ro_DBUSNotify (default_suites P opts) = ro_DBUSNotify opts"
  "ro_InternalLogs (default_suites P opts) = ro_InternalLogs opts"
  "ro_EnableQueryServer (default_suites P opts) = ro_EnableQueryServer opts"
  "ro_SocketDir (default_suites P opts) = ro_SocketDir opts"
  "ro_Address (default_suites P opts) = ro_Address opts"
  by (simp_all add: default_suites_def Let_def split: option.split)

lemma setDefaults_fields [simp]:
  "ro_ProtectionWindow (receiver_setDefaults P cpu opts) = orElse (ro_ProtectionWindow opts) DefaultReplayWindow"
  "ro_PastWindow (receiver_setDefaults P cpu opts) = orElse (ro_PastWindow opts) DefaultPastValidityWindow"
  "ro_FutureWindow (receiver_setDefaults P cpu opts) = orElse (ro_FutureWindow opts) DefaultFutureValidityWindow"
  "ro_MaxFailures (receiver_setDefaults P cpu opts) = orElse (ro_MaxFailures opts) DefaultOutputFailureDuration"
  "ro_MinListeners (receiver_setDefaults P cpu opts) = clampMin cpu (ro_MinListeners opts)"
  "ro_MaxListeners (receiver_setDefaults P cpu opts) = orElse (ro_MaxListeners opts) cpu"
  "ro_MinProcessors (receiver_setDefaults P cpu opts) = clampMin cpu (ro_MinProcessors opts)"
  "ro_MaxProcessors (receiver_setDefaults P cpu opts) = orElse (ro_MaxProcessors opts) cpu"
  "ro_MinProcQueue (receiver_setDefaults P cpu opts) = orElse (ro_MinProcQueue opts) DefaultMinQueueSize"
  "ro_MaxProcQueue (receiver_setDefaults P cpu opts) = orElse (ro_MaxProcQueue opts) DefaultMaxQueueSize"
  "ro_MinDefrags (receiver_setDefaults P cpu opts) = clampMin cpu (ro_MinDefrags opts)"
  "ro_MaxDefrags (receiver_setDefaults P cpu opts) = orElse (ro_MaxDefrags opts) cpu"
  "ro_MinOutQueue (receiver_setDefaults P cpu opts) = orElse (ro_MinOutQueue opts) DefaultMinQueueSize"
  "ro_MaxOutQueue (receiver_setDefaults P cpu opts) = orElse (ro_MaxOutQueue opts) DefaultMaxQueueSize"
  "ro_FilePath (receiver_setDefaults P cpu opts) = ro_FilePath opts"
  "ro_JournaldURL (receiver_setDefaults P cpu opts) = ro_JournaldURL opts"
  "ro_BeatsAddress (receiver_setDefaults P cpu opts) = ro_BeatsAddress opts"
  "ro_DBUSNotify (receiver_setDefaults P cpu opts) = ro_DBUSNotify opts"
  "ro_InternalLogs (receiver_setDefaults P cpu opts) = ro_InternalLogs opts"
  "ro_EnableQueryServer (receiver_setDefaults P cpu opts) = ro_EnableQueryServer opts"
  "ro_SocketDir (receiver_setDefaults P cpu opts) = (if ro_SocketDir opts = [] then DefaultSocketDir else ro_SocketDir opts)"
  "ro_Address (receiver_setDefaults P cpu opts) = (if ro_Address opts = [] then bytes_of_string ''::'' else ro_Address opts)"
  by (simp_all add: receiver_setDefaults_def Let_def default_suites_fields)

lemmas default_values = DefaultMinQueueSize_def DefaultMaxQueueSize_def DefaultReplayWindow_def DefaultPastValidityWindow_def
  DefaultFutureValidityWindow_def DefaultOutputFailureDuration_def DefaultMinPacketDeadline_def

lemma default_cpu_words:
  assumes "1 \<le> (cpu :: int)" and "cpu < 2 ^ 32"
  shows "(1 :: 32 word) < of_int cpu \<longleftrightarrow> 2 \<le> cpu" and "(of_int cpu :: 32 word) \<noteq> 0"
  using assms by (auto simp: word_less_def uint_word_of_int word_of_int_eq_0_iff take_bit_int_eq_self)

lemma default_output:
  assumes "only_outputs opts" and "start_succeeds env"
  obtains om where "output_NewManager c (output_config_of (receiver_setDefaults P cpu opts) raw) = Inr om"
    and "snd (output_AddWorkers (se_fileOpened env) (se_othersOpen env) om)"
proof -
  have "output_validate (output_config_of (receiver_setDefaults P cpu opts) raw) = None"
    using assms(1) by (auto simp: only_outputs_def output_validate_def output_config_of_def orElse_def default_values Let_def)
  then show thesis
    using New_2048 [of Payload_zero "GetTagList (AppendCtxTag NSmOutput c)" 2048 8192] assms that
    by (auto simp: output_NewManager_def output_config_of_def only_outputs_def orElse_def default_values Let_def
        output_AddWorkers_def file_NewOutput_def start_succeeds_def)
qed

lemma default_processors:
  assumes "only_outputs opts" and "2 \<le> cpu" and "cpu < 2 ^ 32"
  shows "\<exists>pm. processor_NewManager c (proc_config_of (receiver_setDefaults P cpu opts)) = Inr pm"
proof -
  have "processor_validate (proc_config_of (receiver_setDefaults P cpu opts)) = None"
    using assms default_cpu_words [of cpu]
    by (simp add: only_outputs_def processor_validate_def proc_config_of_def orElse_def clampMin_def default_values Let_def
        linorder_not_le)
  then show ?thesis
    using New_2048 [of Container_zero "GetTagList (AppendCtxTag NSProc c)" 2048 8192] assms(1)
    by (auto simp: processor_NewManager_def proc_config_of_def only_outputs_def orElse_def default_values Let_def)
qed

lemma default_listeners:
  assumes "only_outputs opts" and "2 \<le> cpu" and "cpu < 2 ^ 32"
  shows "\<exists>lm. listener_NewManager c (listener_config_of (receiver_setDefaults P cpu opts)) = Inr lm"
  using assms default_cpu_words [of cpu]
  by (simp add: only_outputs_def listener_NewManager_def listener_validate_def listener_config_of_def orElse_def clampMin_def half_def
      default_values Let_def linorder_not_le)

lemma default_assemblers:
  assumes "only_outputs opts" and "1 \<le> cpu" and "cpu < 2 ^ 32"
  shows "(\<exists>am. NewManager tags (of_int (ro_MinDefrags (receiver_setDefaults P cpu opts)))
      (of_int (ro_MaxDefrags (receiver_setDefaults P cpu opts))) (ro_SocketDir (receiver_setDefaults P cpu opts)) = Inr am) \<longleftrightarrow> 2 \<le> cpu"
  using assms default_cpu_words [of cpu]
  by (auto simp: only_outputs_def NewManager_def Manager_validate_def orElse_def clampMin_def default_values Let_def linorder_not_le
      DefaultSocketDir_def bytes_of_string_def split: if_splits)


lemma default_start:
  assumes "only_outputs opts" and "start_succeeds env" and "1 \<le> cpu" and "cpu < 2 ^ 32"
  shows "(\<exists>ms. receiver_Start env True False c (receiver_setDefaults P cpu opts) = Inr (Some ms)) \<longleftrightarrow> 2 \<le> cpu"
proof
  assume "2 \<le> cpu"
  obtain om where om: "output_NewManager c (output_config_of (receiver_setDefaults P cpu opts) (se_rawWriter env)) = Inr om"
    "snd (output_AddWorkers (se_fileOpened env) (se_othersOpen env) om)"
    using default_output [OF assms(1,2)] .
  obtain am where am: "NewManager (GetTagList c) (of_int (ro_MinDefrags (receiver_setDefaults P cpu opts)))
      (of_int (ro_MaxDefrags (receiver_setDefaults P cpu opts))) (ro_SocketDir (receiver_setDefaults P cpu opts)) = Inr am"
    using default_assemblers [OF assms(1,3,4)] \<open>2 \<le> cpu\<close> by blast
  obtain pm lm where pm: "processor_NewManager c (proc_config_of (receiver_setDefaults P cpu opts)) = Inr pm"
    and lm: "listener_NewManager c (listener_config_of (receiver_setDefaults P cpu opts)) = Inr lm"
    using default_processors default_listeners assms \<open>2 \<le> cpu\<close> by meson
  have "list_all id (map (se_portReused env) [0..<nat (ro_MinListeners (receiver_setDefaults P cpu opts))])"
    using assms(2) by (simp add: start_succeeds_def list_all_iff)
  then obtain lm' where "listeners_add (map (se_portReused env) [0..<nat (ro_MinListeners (receiver_setDefaults P cpu opts))]) lm = Some lm'"
    using listeners_add_open by blast
  then show "\<exists>ms. receiver_Start env True False c (receiver_setDefaults P cpu opts) = Inr (Some ms)"
    using assms(2) om am pm lm
    by (simp add: receiver_Start_def ensure_def start_succeeds_def split_beta Let_def del: setDefaults_fields)
next
  assume "\<exists>ms. receiver_Start env True False c (receiver_setDefaults P cpu opts) = Inr (Some ms)"
  then show "2 \<le> cpu"
    using default_assemblers [OF assms(1,3,4)] by (auto elim!: receiver_Start_SomeE simp del: setDefaults_fields)
qed

lemma unset_opts_ok: "only_outputs unset_opts"
  by (simp add: only_outputs_def unset_opts_def bytes_of_string_def)

lemma open_env_ok: "start_succeeds open_env"
  by (simp add: start_succeeds_def open_env_def)

lemma receiver_counts:
  assumes start: "receiver_Start env initSuccess dryRun c opts = Inr (Some ms)"
  shows "length (lm_Instances (rm_Input ms)) = nat (ro_MinListeners opts) \<and>
    length (pm_Instances (rm_Proc ms)) = nat (ro_MinProcessors opts) \<and>
    numbered (AppendCtxTag NSmIngest c) listener_tags (lm_Instances (rm_Input ms)) \<and>
    numbered (AppendCtxTag NSProc c) processor_tags (pm_Instances (rm_Proc ms))"
proof -
  obtain pm lm where pm: "processor_NewManager c (proc_config_of opts) = Inr pm"
    and proc: "rm_Proc ms = (proc_add ^^ nat (ro_MinProcessors opts)) pm"
    and lm: "listener_NewManager c (listener_config_of opts) = Inr lm"
    and inp: "listeners_add (map (se_portReused env) [0..<nat (ro_MinListeners opts)]) lm = Some (rm_Input ms)"
    using start by (elim receiver_Start_SomeE) blast
  note l = listeners_add_Some [OF inp] and lm0 = listener_NewManager_Inr [OF lm]
  note p = proc_add_all [of "nat (ro_MinProcessors opts)" pm] and pm0 = processor_NewManager_Inr [OF pm]
  have L: "length (lm_Instances (rm_Input ms)) = nat (ro_MinListeners opts)"
    and L2: "numbered (AppendCtxTag NSmIngest c) listener_tags (lm_Instances (rm_Input ms))"
    using l lm0 listener_pool.run_start listener_pool.start_numbered by simp_all
  have P: "length (pm_Instances (rm_Proc ms)) = nat (ro_MinProcessors opts)"
    and P2: "numbered (AppendCtxTag NSProc c) processor_tags (pm_Instances (rm_Proc ms))"
    using p pm0 processor_pool.run_start processor_pool.start_numbered by (simp_all add: proc)
  from L L2 P P2 show ?thesis by blast
qed

lemma started_view:
  assumes start: "receiver_Start env initSuccess dryRun c opts = Inr (Some ms)"
    and n: "0 \<le> ro_MinDefrags opts" "ro_MinDefrags opts \<le> 65536"
    and order: "\<And>xs. mset (se_order env xs) = mset xs"
  shows "length (ids (rm_Assembler ms)) = nat (ro_MinDefrags opts) \<and> view_ok (rm_Assembler ms) \<and>
    PacketDeadline (rm_Assembler ms) = DefaultMinPacketDeadline"
proof -
  let ?n = "nat (ro_MinDefrags opts)"
  obtain am b where am: "NewManager (GetTagList c) (of_int (ro_MinDefrags opts)) (of_int (ro_MaxDefrags opts)) (ro_SocketDir opts) = Inr am"
    and asm: "rm_Assembler ms = (fst ((asm_add (se_order env) ^^ ?n) (am, [])))\<lparr>FIPRRunning := b\<rparr>"
    using start by (elim receiver_Start_SomeE) blast
  have pos: "0 < ?n"
    using NewManager_Inr(3) [OF am] n by (cases "ro_MinDefrags opts = 0") auto
  have st: "asm_started am ?n ((asm_add (se_order env) ^^ ?n) (am, []))"
    by (rule asm_started_all [OF NewManager_Inr(1) [OF am] _ order]) (use n in auto)
  with asm_started_view [OF st pos] NewManager_Inr(2) [OF am] show ?thesis
    by (simp add: asm asm_started_def)
qed

lemma keys_delete: "fst ` set (AList.delete k al) = fst ` set al - {k}"
  by (induction al) auto

lemma keys_map_entry: "fst ` set (AList.map_entry k f al) = fst ` set al"
  by (induction al) auto

lemma keys_map: "fst ` (\<lambda>x. case x of (i, v) \<Rightarrow> (i, g i v)) ` A = fst ` A"
  by force

lemma removed_keys:
  assumes "removeInstance others False i m = Some m'" and "map_of (instances m) i \<noteq> None"
  shows "fst ` set (instances m') = fst ` set (instances m) - {i}"
proof -
  have "instances m' = AList.delete i (map (\<lambda>(i, sh). (i, others i sh)) (instances (mark_shutdown i m)))"
    using assms by (auto simp: removeInstance_def Let_def)
  then show ?thesis
    by (simp only: keys_delete set_map keys_map) (simp add: mark_shutdown_def keys_map_entry)
qed

text \<open>Removing the assemblers ends when every identifier has its instance.\<close>

lemma asm_shutdown_ends:
  assumes "[] \<notin> set (ids m)" and "set (ids m) = fst ` set (instances m)"
  shows "\<exists>m'. asm_shutdown others m = Some m' \<and> ids m' = [] \<and> instances m' = []"
  using assms
proof (induction "length (ids m)" arbitrary: m rule: less_induct)
  case less
  show ?case
  proof (cases "ids m")
    case Nil
    then show ?thesis
      using less.prems by (subst asm_shutdown.simps) (simp add: RemoveOldestInstance_def)
  next
    case (Cons i rest)
    have "\<exists>m'. removeInstance others False i m = Some m'"
      by (simp add: removeInstance_def Let_def)
    then obtain m' where m': "removeInstance others False i m = Some m'" ..
    have inst: "map_of (instances m) i \<noteq> None" and i: "i \<noteq> []"
      using less.prems Cons by (auto simp: map_of_eq_None_iff)
    have "ids m' = filter (\<lambda>j. j \<noteq> i) (ids m)" "fst ` set (instances m') = fst ` set (instances m) - {i}"
      using m' inst by (force simp: removeInstance_def Let_def mark_shutdown_def, simp add: removed_keys [OF m' inst])
    then have "\<exists>m''. asm_shutdown others m' = Some m'' \<and> ids m'' = [] \<and> instances m'' = []"
      using less.prems Cons by (intro less.hyps) (auto simp: le_imp_less_Suc)
    then show ?thesis
      using m' i Cons by (subst asm_shutdown.simps) (simp add: RemoveOldestInstance_def)
  qed
qed

section \<open>Properties\<close>

text \<open>
  C27. A receiver that has started runs exactly the configured minimum of listeners, processors and
  assemblers (for at most 65,536 assemblers, which are numbered in 16 bits), each listener and
  processor under a namespace of its own below the one of the daemon; the routing snapshot is well
  formed with one shard per assembler, and the packet deadline is the default minimum.
\<close>

theorem receiver_starts_at_minimum:
  assumes start: "receiver_Start env initSuccess dryRun c opts = Inr (Some ms)"
    and n: "0 \<le> ro_MinDefrags opts" "ro_MinDefrags opts \<le> 65536"
    and order: "\<And>xs. mset (se_order env xs) = mset xs"
  shows "length (lm_Instances (rm_Input ms)) = nat (ro_MinListeners opts) \<and>
    length (pm_Instances (rm_Proc ms)) = nat (ro_MinProcessors opts) \<and>
    length (ids (rm_Assembler ms)) = nat (ro_MinDefrags opts) \<and>
    numbered (AppendCtxTag NSmIngest c) listener_tags (lm_Instances (rm_Input ms)) \<and>
    numbered (AppendCtxTag NSProc c) processor_tags (pm_Instances (rm_Proc ms)) \<and>
    view_ok (rm_Assembler ms) \<and> PacketDeadline (rm_Assembler ms) = DefaultMinPacketDeadline"
  using receiver_counts [OF start] started_view [OF start n order] by blast

theorem receiver_starts_at_minimum_witness:
  "\<exists>ms. receiver_Start open_env True False None (receiver_setDefaults example_prims 4 unset_opts) = Inr (Some ms) \<and>
     length (lm_Instances (rm_Input ms)) = 1 \<and> length (ids (rm_Assembler ms)) = 1 \<and> view_ok (rm_Assembler ms)"
proof -
  let ?opts = "receiver_setDefaults example_prims 4 unset_opts"
  obtain ms where ms: "receiver_Start open_env True False None ?opts = Inr (Some ms)"
    using default_start [OF unset_opts_ok open_env_ok, of 4 None example_prims] by auto
  have o: "ro_MinDefrags ?opts = 1" "ro_MinListeners ?opts = 1"
    by (simp_all add: unset_opts_def clampMin_def)
  then show ?thesis
    using receiver_starts_at_minimum [OF ms] ms by (simp add: open_env_def)
qed


text \<open>
  With nothing configured but an output, the receiver starts if and only if the host has at
  least two logical processors: on a host with one, minimum and maximum of the instances are both
  one, which the validation of the assembler manager refuses.
\<close>

theorem default_receiver_needs_two_processors:
  assumes "only_outputs opts" and "start_succeeds env" and "1 \<le> cpu" and "cpu < 2 ^ 32"
  shows "(\<exists>ms. receiver_Start env True False c (receiver_setDefaults P cpu opts) = Inr (Some ms)) \<longleftrightarrow> 2 \<le> cpu"
  by (rule default_start [OF assms])

theorem default_receiver_needs_two_processors_witness:
  "\<nexists>ms. receiver_Start open_env True False None (receiver_setDefaults example_prims 1 unset_opts) = Inr (Some ms)"
  using default_receiver_needs_two_processors [OF unset_opts_ok open_env_ok, of 1 None example_prims] by simp


definition quiet_shutdown :: shutdown_env where
  "quiet_shutdown = \<lparr>sv_procWait = (0, [(0, 1), (0, 2), (0, 3)]), sv_procQueue = id, sv_shards = (\<lambda>_ sh. sh),
     sv_outWait = (0, [(0, 1), (0, 2), (0, 3)]), sv_outQueue = id, sv_outEvents = []\<rparr>"


end
