(* ===== verification/Sender_Pipeline.thy ===== *)
theory Sender_Pipeline
  imports Receiver_Daemon
begin

text \<open>
  The pipeline of the sender: the assembler workers that turn messages into packets and the output
  workers that write them to the socket (\<^verbatim>\<open>internal/sender/assembler\<close>, \<^verbatim>\<open>internal/sender/output\<close>), one turn of each
  loop as a function, their managers and metrics; and the composition of both daemons: a
  message queued in a sender comes out of the receiver. What the network reports and the random tape are
  arguments; log lines and pauses are left out.
\<close>

section \<open>The assembler manager\<close>

record SAsmMetrics =
  TotalMessages :: "64 word"
  TotalMsgSizeBytes :: "64 word"
  MaxMsgSizeBytes :: "64 word"
  TotalFragmentCtn :: "64 word"
  MaxFragmentCtn :: "64 word"
  sa_Dropped :: "64 word"

definition SAsmMetrics_zero :: SAsmMetrics where
  "SAsmMetrics_zero = \<lparr>TotalMessages = 0, TotalMsgSizeBytes = 0, MaxMsgSizeBytes = 0, TotalFragmentCtn = 0,
     MaxFragmentCtn = 0, sa_Dropped = 0\<rparr>"

record sasm_Config =
  sc_MinQueue :: int
  sc_MaxQueue :: int
  sc_Min :: "32 word"
  sc_Max :: "32 word"
  sc_HostID :: int
  sc_DestinationIP :: bytes
  sc_OverrideMaxPayloadSize :: int
  sc_MaxPayloadSize :: int
  sc_CryptoSuiteName :: bytes
  sc_SigSuiteName :: bytes
  sc_cryptoSuiteID :: "8 word"
  sc_sigSuiteID :: "8 word"
  sc_ThrottlingEnabled :: bool
  sc_ThrottlingThreshold :: int
  sc_ThrottlingTime :: int

record sasm_Manager =
  sm_Config :: sasm_Config
  sm_Instances :: "SAsmMetrics worker list"
  sm_InQueue :: "Message Queue"
  sm_ctx :: ctx

datatype sasm_config_error =
    SEmptyMinQueue | SEmptyMaxQueue | SQueueBounds | SEmptyMin | SEmptyMax | SBounds | SEmptyDestination | SEmptyHostID
  | SEmptyPayloadSize | SEmptySuite | SEmptySignature | SEmptyThreshold | SEmptyThrottleTime

definition sasm_validate :: "sasm_Config \<Rightarrow> sasm_config_error option" where
  "sasm_validate c =
     (let err = None;
          err = (if sc_MinQueue c = 0 then Some SEmptyMinQueue else err);
          err = (if sc_MaxQueue c = 0 then Some SEmptyMaxQueue else err);
          err = (if sc_MinQueue c \<ge> sc_MaxQueue c then Some SQueueBounds else err);
          err = (if sc_Min c = 0 then Some SEmptyMin else err);
          err = (if sc_Max c = 0 then Some SEmptyMax else err);
          err = (if sc_Min c \<ge> sc_Max c then Some SBounds else err);
          err = (if sc_DestinationIP c = [] then Some SEmptyDestination else err);
          err = (if sc_HostID c = 0 then Some SEmptyHostID else err);
          err = (if sc_MaxPayloadSize c = 0 then Some SEmptyPayloadSize else err);
          err = (if sc_CryptoSuiteName c = [] then Some SEmptySuite else err);
          err = (if sc_SigSuiteName c = [] then Some SEmptySignature else err);
          err = (if sc_ThrottlingEnabled c \<and> sc_ThrottlingThreshold c = 0 then Some SEmptyThreshold else err);
          err = (if sc_ThrottlingEnabled c \<and> sc_ThrottlingTime c = 0 then Some SEmptyThrottleTime else err) in err)"

datatype sasm_error =
    SNoRandom
  | SNoPathSize
  | SInvalid sasm_config_error
  | SQueueFailed queue_error
  | SBadSuite
  | SBadSignatureSuite

definition Message_zero :: Message where
  "Message_zero = \<lparr>m_Timestamp = Time_zero, m_Hostname = [], m_Fields = [], m_Data = []\<rparr>"

text \<open>The maximum payload size found for the path to the destination is an argument.\<close>

definition sasm_NewManager :: "crypto_prims \<Rightarrow> int option \<Rightarrow> tape \<Rightarrow> ctx \<Rightarrow> sasm_Config \<Rightarrow> sasm_error + sasm_Manager \<times> tape" where
  "sasm_NewManager P pathSize tp c config =
     (let c = AppendCtxTag NSmPack c in
      case FourByte tp of
        Inl _ \<Rightarrow> Inl SNoRandom
      | Inr (hostID, tp) \<Rightarrow>
      (case pathSize of
        None \<Rightarrow> Inl SNoPathSize
      | Some n \<Rightarrow>
          let config = config\<lparr>sc_HostID := hostID, sc_MaxPayloadSize :=
                (if sc_OverrideMaxPayloadSize config \<noteq> 0 then sc_OverrideMaxPayloadSize config else n)\<rparr> in
          (case sasm_validate config of
             Some e \<Rightarrow> Inl (SInvalid e)
           | None \<Rightarrow>
          (case New Message_zero (GetTagList c) (of_int (sc_MinQueue config)) (sc_MinQueue config) (sc_MaxQueue config) of
             Inl e \<Rightarrow> Inl (SQueueFailed e)
           | Inr inbox \<Rightarrow>
          (case SuiteNameToID P (sc_CryptoSuiteName config) of
             None \<Rightarrow> Inl SBadSuite
           | Some suite \<Rightarrow>
          (case SignatureNameToID P (sc_SigSuiteName config) of
             None \<Rightarrow> Inl SBadSignatureSuite
           | Some sig \<Rightarrow>
             Inr (\<lparr>sm_Config = config\<lparr>sc_cryptoSuiteID := suite, sc_sigSuiteID := sig\<rparr>, sm_Instances = [],
                   sm_InQueue = inbox, sm_ctx = c\<rparr>, tp)))))))"

definition sasm_tags :: "bytes \<Rightarrow> bytes list" where "sasm_tags i = [i, NSAssm]"

definition sasm_append :: "ctx \<Rightarrow> SAsmMetrics worker list \<Rightarrow> SAsmMetrics worker list list \<Rightarrow> SAsmMetrics worker list \<times> nat" where
  "sasm_append c = cas_append (worker_at c sasm_tags SAsmMetrics_zero)"

definition sasm_AddInstance :: "SAsmMetrics worker list list \<Rightarrow> sasm_Manager \<Rightarrow> sasm_Manager \<times> nat" where
  "sasm_AddInstance races m =
     (case sasm_append (sm_ctx m) (sm_Instances m) races of (l, i) \<Rightarrow> (m\<lparr>sm_Instances := l\<rparr>, i))"

definition sasm_RemoveLastInstance :: "SAsmMetrics worker list list \<Rightarrow> sasm_Manager \<Rightarrow> sasm_Manager \<times> nat" where
  "sasm_RemoveLastInstance races m =
     (case cas_remove (sm_Instances m) races of (l, i) \<Rightarrow> (m\<lparr>sm_Instances := l\<rparr>, i))"

interpretation sasm_pool: worker_pool c sasm_tags "sasm_append c" cas_remove for c
  unfolding sasm_append_def by (rule worker_pool_cas) (simp add: sasm_tags_def)

section \<open>The assembler worker\<close>

record SAssembler =
  sa_hostID :: int
  sa_maxPayloadSize :: int
  sa_cryptoSuiteID :: "8 word"
  sa_sigSuiteID :: "8 word"
  sa_Metrics :: SAsmMetrics

definition sasm_newWorker :: "sasm_Manager \<Rightarrow> SAssembler" where
  "sasm_newWorker m = \<lparr>sa_hostID = sc_HostID (sm_Config m), sa_maxPayloadSize = sc_MaxPayloadSize (sm_Config m),
     sa_cryptoSuiteID = sc_cryptoSuiteID (sm_Config m), sa_sigSuiteID = sc_sigSuiteID (sm_Config m), sa_Metrics = SAsmMetrics_zero\<rparr>"

definition sa_metrics_upd :: "(SAsmMetrics \<Rightarrow> SAsmMetrics) \<Rightarrow> SAssembler \<Rightarrow> SAssembler" where
  "sa_metrics_upd f s = s\<lparr>sa_Metrics := f (sa_Metrics s)\<rparr>"

datatype sasm_result = SAsmIdle | SAsmPanic | SAsmFailed | SAsmSent "bytes list"

text \<open>Every packet is pushed with four tries; a packet that finds no room is dropped.\<close>

fun push_packets :: "bytes list \<Rightarrow> bytes Queue \<times> SAssembler \<Rightarrow> (bytes Queue \<times> SAssembler) option" where
  "push_packets [] st = Some st"
| "push_packets (packet # packets) (outbox, s) =
     (case PushWithRetry outbox packet (of_nat (length packet)) 4 of
        None \<Rightarrow> None
      | Some (outbox, Inl _) \<Rightarrow>
          push_packets packets (outbox, sa_metrics_upd (\<lambda>m. m\<lparr>sa_Dropped := sa_Dropped m + 1\<rparr>) s)
      | Some (outbox, Inr _) \<Rightarrow> push_packets packets (outbox, s))"

definition sasm_message ::
  "crypto_prims \<Rightarrow> wrappers \<Rightarrow> tape \<Rightarrow> Message \<Rightarrow> bytes Queue \<times> SAssembler \<Rightarrow>
   ((bytes Queue \<times> SAssembler) \<times> tape \<times> sasm_result) option" where
  "sasm_message P W tp container st =
     (case st of (outbox, s) \<Rightarrow>
        let newMsg = \<lparr>m_Timestamp = m_Timestamp container, m_Hostname = m_Hostname container,
              m_Fields = m_Fields container, m_Data = m_Data container\<rparr>;
            msgLengthB = (of_nat (length (m_Data newMsg)) :: 64 word);
            s = sa_metrics_upd (\<lambda>m. m\<lparr>TotalMessages := TotalMessages m + 1, TotalMsgSizeBytes := TotalMsgSizeBytes m + msgLengthB,
                  MaxMsgSizeBytes := max (MaxMsgSizeBytes m) msgLengthB\<rparr>) s in
        (case Create P W newMsg (sa_hostID s) (sa_maxPayloadSize s) (sa_cryptoSuiteID s) (sa_sigSuiteID s) tp of
           Inl Panic \<Rightarrow> Some ((outbox, s), tp, SAsmPanic)
         | Inl (Err _) \<Rightarrow> Some ((outbox, sa_metrics_upd (\<lambda>m. m\<lparr>sa_Dropped := sa_Dropped m + 1\<rparr>) s), tp, SAsmFailed)
         | Inr (packets, tp) \<Rightarrow>
             let fragmentCount = (of_nat (length packets) :: 64 word);
                 s = sa_metrics_upd (\<lambda>m. m\<lparr>TotalFragmentCtn := TotalFragmentCtn m + fragmentCount,
                       MaxFragmentCtn := max (MaxFragmentCtn m) fragmentCount\<rparr>) s in
             map_option (\<lambda>st. (st, tp, SAsmSent packets)) (push_packets packets (outbox, s))))"

text \<open>The tape keeps its position when the creation of a packet fails; the turn is not repeated.\<close>

definition sasm_turn ::
  "crypto_prims \<Rightarrow> wrappers \<Rightarrow> tape \<Rightarrow> bool \<Rightarrow> wake list \<Rightarrow> Message Queue \<times> bytes Queue \<times> SAssembler \<Rightarrow>
   ((Message Queue \<times> bytes Queue \<times> SAssembler) \<times> tape \<times> sasm_result) option" where
  "sasm_turn P W tp ctxDone sel st =
     (case st of (inbox, outbox, s) \<Rightarrow>
        (case Pop ctxDone sel inbox of
           None \<Rightarrow> None
         | Some (inbox, PopBlocked) \<Rightarrow> None
         | Some (inbox, PopCancelled) \<Rightarrow> Some ((inbox, outbox, s), tp, SAsmIdle)
         | Some (inbox, PopOut container) \<Rightarrow>
             let inbox = bytes_subtract (Message_Size container) inbox in
             map_option (\<lambda>((outbox, s), r). ((inbox, outbox, s), r)) (sasm_message P W tp container (outbox, s))))"

section \<open>The output manager and worker\<close>

record SOutMetrics =
  TotalPackets :: "64 word"
  SumPacketBytes :: "64 word"
  MaxPacketBytes :: "64 word"
  so_Dropped :: "64 word"

definition SOutMetrics_zero :: SOutMetrics where
  "SOutMetrics_zero = \<lparr>TotalPackets = 0, SumPacketBytes = 0, MaxPacketBytes = 0, so_Dropped = 0\<rparr>"

record sout_Config =
  oc2_MinQueue :: int
  oc2_MaxQueue :: int
  oc2_Min :: "32 word"
  oc2_Max :: "32 word"
  oc2_SourceAddress :: "bytes option"
  oc2_DestAddress :: "bytes option"

record sout_Manager =
  so_Config :: sout_Config
  so_Instances :: "SOutMetrics worker list"
  so_InQueue :: "bytes Queue"
  so_ctx :: ctx

datatype sout_config_error = SOEmptyMinQueue | SOEmptyMaxQueue | SOQueueBounds | SOEmptyMin | SOEmptyMax | SOBounds | SOEmptySource | SOEmptyDest

definition sout_validate :: "sout_Config \<Rightarrow> sout_config_error option" where
  "sout_validate c =
     (let err = None;
          err = (if oc2_MinQueue c = 0 then Some SOEmptyMinQueue else err);
          err = (if oc2_MaxQueue c = 0 then Some SOEmptyMaxQueue else err);
          err = (if oc2_MinQueue c \<ge> oc2_MaxQueue c then Some SOQueueBounds else err);
          err = (if oc2_Min c = 0 then Some SOEmptyMin else err);
          err = (if oc2_Max c = 0 then Some SOEmptyMax else err);
          err = (if oc2_Min c \<ge> oc2_Max c then Some SOBounds else err);
          err = (if oc2_SourceAddress c = None then Some SOEmptySource else err);
          err = (if oc2_DestAddress c = None then Some SOEmptyDest else err) in err)"

datatype sout_error = SOInvalid sout_config_error | SONoSocket | SOQueueFailed queue_error

definition sout_NewManager :: "bool \<Rightarrow> ctx \<Rightarrow> sout_Config \<Rightarrow> sout_error + sout_Manager" where
  "sout_NewManager dialed c config =
     (case sout_validate config of
        Some e \<Rightarrow> Inl (SOInvalid e)
      | None \<Rightarrow>
          let c = AppendCtxTag NSmOutput c in
          if \<not> dialed then Inl SONoSocket
          else (case New [] (GetTagList c) (of_int (oc2_MinQueue config)) (oc2_MinQueue config) (oc2_MaxQueue config) of
                  Inl e \<Rightarrow> Inl (SOQueueFailed e)
                | Inr inQueue \<Rightarrow> Inr \<lparr>so_Config = config, so_Instances = [], so_InQueue = inQueue, so_ctx = c\<rparr>))"

definition sout_tags :: "bytes \<Rightarrow> bytes list" where "sout_tags i = [i, NSOut]"

definition sout_append :: "ctx \<Rightarrow> SOutMetrics worker list \<Rightarrow> SOutMetrics worker list list \<Rightarrow> SOutMetrics worker list \<times> nat" where
  "sout_append c = cas_append (worker_at c sout_tags SOutMetrics_zero)"

definition sout_AddInstance :: "SOutMetrics worker list list \<Rightarrow> sout_Manager \<Rightarrow> sout_Manager \<times> nat" where
  "sout_AddInstance races m =
     (case sout_append (so_ctx m) (so_Instances m) races of (l, i) \<Rightarrow> (m\<lparr>so_Instances := l\<rparr>, i))"

definition sout_RemoveLastInstance :: "SOutMetrics worker list list \<Rightarrow> sout_Manager \<Rightarrow> sout_Manager \<times> nat" where
  "sout_RemoveLastInstance races m =
     (case cas_remove (so_Instances m) races of (l, i) \<Rightarrow> (m\<lparr>so_Instances := l\<rparr>, i))"

interpretation sout_pool: worker_pool c sout_tags "sout_append c" cas_remove for c
  unfolding sout_append_def by (rule worker_pool_cas) (simp add: sout_tags_def)

datatype sout_result = SOutIdle | SOutFailed | SOutSent bytes

text \<open>A turn of the worker; whether the socket takes the packet is an argument.\<close>

definition sout_turn ::
  "bool \<Rightarrow> wake list \<Rightarrow> bool \<Rightarrow> bytes Queue \<times> SOutMetrics \<Rightarrow> ((bytes Queue \<times> SOutMetrics) \<times> sout_result) option" where
  "sout_turn ctxDone sel wrote st =
     (case st of (inbox, m) \<Rightarrow>
        (case Pop ctxDone sel inbox of
           None \<Rightarrow> None
         | Some (inbox, PopBlocked) \<Rightarrow> None
         | Some (inbox, PopCancelled) \<Rightarrow> Some ((inbox, m), SOutIdle)
         | Some (inbox, PopOut frag) \<Rightarrow>
             let inbox = bytes_subtract (length frag) inbox; pktLengthB = (of_nat (length frag) :: 64 word) in
             if \<not> wrote then Some ((inbox, m\<lparr>so_Dropped := so_Dropped m + 1\<rparr>), SOutFailed)
             else Some ((inbox, m\<lparr>SumPacketBytes := SumPacketBytes m + pktLengthB,
                    MaxPacketBytes := max (MaxPacketBytes m) pktLengthB, TotalPackets := TotalPackets m + 1\<rparr>), SOutSent frag)))"

section \<open>Metrics\<close>

definition sasm_CollectMetrics :: "int \<Rightarrow> int \<Rightarrow> SAsmMetrics worker \<Rightarrow> SAsmMetrics worker \<times> Metric list" where
  "sasm_CollectMetrics interval recordTime w =
     (let m = wk_Metrics w; mk = mk_metric (GetTagList (wk_ctx w)) interval recordTime in
      (w\<lparr>wk_Metrics := SAsmMetrics_zero\<rparr>,
       [mk ''total_messages'' ''Total received messages in the interval'' (RawUint64 (TotalMessages m)) ''count'' Gauge,
        mk ''sum_message_size'' ''Total of all message sizes in the interval'' (RawUint64 (TotalMsgSizeBytes m)) ''bytes'' Gauge,
        mk ''maximum_message_size'' ''Maximum (seen) of all message sizes in the interval''
          (RawUint64 (MaxMsgSizeBytes m)) ''bytes'' Gauge,
        mk ''sum_fragments'' ''Total fragments of all messages in the interval'' (RawUint64 (TotalFragmentCtn m)) ''count'' Gauge,
        mk ''maximum_fragment_count'' ''Maximum (seen) fragment count of all messages in the interval''
          (RawUint64 (MaxFragmentCtn m)) ''count'' Gauge,
        mk MTDropped DescDropped (RawUint64 (sa_Dropped m)) ''count'' Counter]))"

definition sout_CollectMetrics :: "int \<Rightarrow> int \<Rightarrow> SOutMetrics worker \<Rightarrow> SOutMetrics worker \<times> Metric list" where
  "sout_CollectMetrics interval recordTime w =
     (let m = wk_Metrics w; mk = mk_metric (GetTagList (wk_ctx w)) interval recordTime in
      (w\<lparr>wk_Metrics := SOutMetrics_zero\<rparr>,
       [mk ''total_sent_packets'' ''Total packets sent in the interval'' (RawUint64 (TotalPackets m)) ''count'' Gauge,
        mk ''sum_packet_size'' ''Total size of all packets sent in the interval'' (RawUint64 (SumPacketBytes m)) ''bytes'' Gauge,
        mk ''maximum_packet_size'' ''Maximum (seen) size across all packets sent in the interval''
          (RawUint64 (MaxPacketBytes m)) ''bytes'' Gauge,
        mk MTDropped DescDropped (RawUint64 (so_Dropped m)) ''count'' Counter]))"
section \<open>Turns in sequence\<close>

fun sout_turns :: "nat \<Rightarrow> bytes Queue \<times> SOutMetrics \<Rightarrow> ((bytes Queue \<times> SOutMetrics) \<times> sout_result list) option" where
  "sout_turns 0 st = Some (st, [])"
| "sout_turns (Suc n) st =
     (case sout_turn False [] True st of
        None \<Rightarrow> None
      | Some (st, r) \<Rightarrow> map_option (\<lambda>(st, rs). (st, r # rs)) (sout_turns n st))"

fun listen_turns :: "crypto_prims \<Rightarrow> (listen_clock \<times> bytes) list \<Rightarrow> netip_addr \<Rightarrow> Listener \<Rightarrow> (Listener \<times> listen_result list) option" where
  "listen_turns P [] addr s = Some (s, [])"
| "listen_turns P ((clk, pk) # ds) addr s =
     (case listen_turn P clk (Datagram pk addr) s of
        None \<Rightarrow> None
      | Some (s, r) \<Rightarrow> map_option (\<lambda>(s, rs). (s, r # rs)) (listen_turns P ds addr s))"

lemma has_room_push:
  assumes "has_room (Suc n) q" and "0 < k"
  shows "\<exists>q'. PushWithRetry q x sz k = Some (q', Inr ()) \<and> has_room n q' \<and> queue_contents q' = queue_contents q @ [x]"
proof -
  obtain j where "nat (if k = 0 then 1 else k) = Suc j" using assms(2) by (cases "nat k") auto
  with has_room_Push [OF assms(1), of x sz] show ?thesis by (auto simp: PushWithRetry_def)
qed

lemma pop_front:
  assumes "queue_inv q" "ActiveRead q = ActiveWrite q" "queue_contents q = x # xs"
  obtains q' where "Pop d sel q = Some (q', PopOut x)" and "queue_inv (bytes_subtract n q')"
    and "ActiveRead (bytes_subtract n q') = ActiveWrite (bytes_subtract n q')" and "queue_contents (bytes_subtract n q') = xs"
proof -
  have "ring_contents (insts q ! ActiveRead q) \<noteq> []" using assms(2,3) by (auto simp: queue_contents_def)
  from Pop_oldest [OF assms(1) this, of d sel] assms obtain q' where
    "Pop d sel q = Some (q', PopOut x)" "queue_inv q'" "queue_contents q' = xs" "ActiveRead q' = ActiveWrite q'" by auto
  with that bytes_subtract_contents [of q' n] show thesis by simp
qed

section \<open>The sender forwards every packet\<close>

lemma push_packets_all:
  "has_room (length pks) q \<Longrightarrow>
   \<exists>q'. push_packets pks (q, s) = Some (q', s) \<and> has_room 0 q' \<and> queue_contents q' = queue_contents q @ pks"
proof (induction pks arbitrary: q)
  case (Cons pk pks)
  obtain q1 where q1: "PushWithRetry q pk (of_nat (length pk)) 4 = Some (q1, Inr ())" "has_room (length pks) q1"
    "queue_contents q1 = queue_contents q @ [pk]"
    using has_room_push [of "length pks" q 4 pk "of_nat (length pk)"] Cons.prems by auto
  from Cons.IH [OF q1(2)] q1(1,3) show ?case by auto
qed simp

lemma sout_turns_all:
  assumes "queue_inv q" "ActiveRead q = ActiveWrite q" "queue_contents q = pks"
  shows "\<exists>q' m'. sout_turns (length pks) (q, m) = Some ((q', m'), map SOutSent pks) \<and> queue_contents q' = [] \<and>
    TotalPackets m' = TotalPackets m + of_nat (length pks) \<and> so_Dropped m' = so_Dropped m"
  using assms
proof (induction pks arbitrary: q m)
  case (Cons pk pks)
  obtain q1 where q1: "Pop False [] q = Some (q1, PopOut pk)" "queue_inv (bytes_subtract (length pk) q1)"
    "ActiveRead (bytes_subtract (length pk) q1) = ActiveWrite (bytes_subtract (length pk) q1)"
    "queue_contents (bytes_subtract (length pk) q1) = pks"
    using pop_front [OF Cons.prems] by metis
  let ?m = "m\<lparr>SumPacketBytes := SumPacketBytes m + of_nat (length pk),
     MaxPacketBytes := max (MaxPacketBytes m) (of_nat (length pk)), TotalPackets := TotalPackets m + 1\<rparr>"
  have "sout_turn False [] True (q, m) = Some ((bytes_subtract (length pk) q1, ?m), SOutSent pk)"
    using q1(1) by (simp add: sout_turn_def Let_def)
  with Cons.IH [OF q1(2-4), of ?m] show ?case by (auto simp: add_ac)
qed simp

lemma sasm_turn_sends:
  assumes i: "queue_inv inbox" "ActiveRead inbox = ActiveWrite inbox" "queue_contents inbox = msg # rest"
    and c: "Create P S msg (sa_hostID s) (sa_maxPayloadSize s) (sa_cryptoSuiteID s) (sa_sigSuiteID s) tp = Inr (packets, tp')"
    and o: "has_room (length packets) outbox"
  shows "\<exists>inbox' outbox' s'. sasm_turn P S tp False [] (inbox, outbox, s) = Some ((inbox', outbox', s'), tp', SAsmSent packets) \<and>
    queue_contents inbox' = rest \<and> has_room 0 outbox' \<and> queue_contents outbox' = queue_contents outbox @ packets \<and>
    sa_Dropped (sa_Metrics s') = sa_Dropped (sa_Metrics s)"
proof -
  obtain inbox1 where p: "Pop False [] inbox = Some (inbox1, PopOut msg)" "queue_contents (bytes_subtract (Message_Size msg) inbox1) = rest"
    using pop_front [OF i] by metis
  have m: "\<lparr>m_Timestamp = m_Timestamp msg, m_Hostname = m_Hostname msg, m_Fields = m_Fields msg, m_Data = m_Data msg\<rparr> = msg" by simp
  define counted where "counted = (let len = (of_nat (length (m_Data msg)) :: 64 word); n = (of_nat (length packets) :: 64 word) in
    sa_metrics_upd (\<lambda>x. x\<lparr>TotalFragmentCtn := TotalFragmentCtn x + n, MaxFragmentCtn := max (MaxFragmentCtn x) n\<rparr>)
     (sa_metrics_upd (\<lambda>x. x\<lparr>TotalMessages := TotalMessages x + 1, TotalMsgSizeBytes := TotalMsgSizeBytes x + len,
        MaxMsgSizeBytes := max (MaxMsgSizeBytes x) len\<rparr>) s))"
  obtain outbox' where "push_packets packets (outbox, counted) = Some (outbox', counted)" "has_room 0 outbox'"
    "queue_contents outbox' = queue_contents outbox @ packets" using push_packets_all [OF o] by blast
  with p c show ?thesis
    by (auto simp: sasm_turn_def sasm_message_def Let_def m sa_metrics_upd_def counted_def)
qed

section \<open>The listener takes every packet of a message\<close>

definition packet_key :: "crypto_prims \<Rightarrow> bytes \<Rightarrow> bytes" where
  "packet_key P pk = (case GetSuiteInfo P (hd pk) of None \<Rightarrow> [] | Some suite \<Rightarrow> take (KeySize suite) (drop SuiteIDLen pk))"

lemma packet_shape:
  assumes "extract_packet P R pk = Inr f"
  obtains suite where "pk \<noteq> []" and "GetSuiteInfo P (hd pk) = Some suite" and "MinOuterPayloadLen \<le> length pk"
    and "packet_key P pk = take (KeySize suite) (drop SuiteIDLen pk)"
proof -
  obtain inner where "DeconstructOuterPayload P R pk = Inr inner"
    using assms by (auto simp: extract_packet_def rbind_eq_Inr)
  then obtain suite where "pk \<noteq> []" "GetSuiteInfo P (hd pk) = Some suite" "MinOuterPayloadLen \<le> length pk"
    by (cases pk) (auto simp: DeconstructOuterPayload_def MinOuterPayloadLen_def SuiteIDLen_def Let_def split: option.splits if_splits)
  with that show thesis by (simp add: packet_key_def)
qed

text \<open>A packet whose key the cache does not know goes to the processor queue and its key into the cache.\<close>

lemma listen_turn_queued:
  assumes pk: "extract_packet P R pk = Inr f" and s: "minLen s = MinOuterPayloadLen" "cache_inv w (ls_cache s)"
    and new: "\<not> cache_recent (lc_now clk) (ls_cache s) (packet_key P pk)" and room: "has_room (Suc n) (ls_outbox s)"
  shows "\<exists>s'. listen_turn P clk (Datagram pk addr) s = Some (s', ListenQueued) \<and> minLen s' = MinOuterPayloadLen \<and>
    ls_cache s' = cache_record (lc_now clk) (packet_key P pk) (ls_cache s) \<and> has_room n (ls_outbox s') \<and>
    queue_contents (ls_outbox s') = queue_contents (ls_outbox s) @ [\<lparr>cData = pk, cRemoteIP = addr\<rparr>]"
proof -
  obtain suite where pk': "pk \<noteq> []" "GetSuiteInfo P (hd pk) = Some suite" "MinOuterPayloadLen \<le> length pk"
    "packet_key P pk = take (KeySize suite) (drop SuiteIDLen pk)" by (rule packet_shape [OF pk])
  obtain q where q: "PushWithRetry (ls_outbox s) \<lparr>cData = pk, cRemoteIP = addr\<rparr> (of_nat (length pk + netipAddrSize)) 4 = Some (q, Inr ())"
    "has_room n q" "queue_contents q = queue_contents (ls_outbox s) @ [\<lparr>cData = pk, cRemoteIP = addr\<rparr>]"
    using has_room_push [OF room, of 4] by fastforce
  show ?thesis
    using pk' q s isReplayed_home [OF s(2), of "lc_now clk" "packet_key P pk"] new
    by (cases pk) (auto simp: listen_turn_def Let_def ls_metrics_upd_def)
qed

lemma listen_turns_queued:
  assumes "\<And>pk. pk \<in> set pks \<Longrightarrow> \<exists>f. extract_packet P R pk = Inr f" and "distinct (map (packet_key P) pks)"
    and "minLen s = MinOuterPayloadLen" "cache_inv w (ls_cache s)" "length clks = length pks"
    and "\<And>clk pk. clk \<in> set clks \<Longrightarrow> pk \<in> set pks \<Longrightarrow> \<not> cache_recent (lc_now clk) (ls_cache s) (packet_key P pk)"
    and "has_room (length pks) (ls_outbox s)"
  shows "\<exists>s'. listen_turns P (zip clks pks) addr s = Some (s', replicate (length pks) ListenQueued) \<and> has_room 0 (ls_outbox s') \<and>
    queue_contents (ls_outbox s') = queue_contents (ls_outbox s) @ map (\<lambda>pk. \<lparr>cData = pk, cRemoteIP = addr\<rparr>) pks"
  using assms
proof (induction pks arbitrary: clks s)
  case (Cons pk pks)
  from Cons.prems(5) obtain clk clks' where clks: "clks = clk # clks'" "length clks' = length pks" by (cases clks) auto
  from Cons.prems(1) obtain f where f: "extract_packet P R pk = Inr f" by auto
  obtain s1 where s1: "listen_turn P clk (Datagram pk addr) s = Some (s1, ListenQueued)" "minLen s1 = MinOuterPayloadLen"
    "ls_cache s1 = cache_record (lc_now clk) (packet_key P pk) (ls_cache s)" "has_room (length pks) (ls_outbox s1)"
    "queue_contents (ls_outbox s1) = queue_contents (ls_outbox s) @ [\<lparr>cData = pk, cRemoteIP = addr\<rparr>]"
    using listen_turn_queued [OF f Cons.prems(3,4), of clk "length pks" addr] Cons.prems(6,7) clks by auto
  have inv: "cache_inv w (ls_cache s1)" using Cons.prems(4) s1(3) by (simp add: cache_inv_def cache_record_def)
  have "\<not> cache_recent (lc_now c) (ls_cache s1) (packet_key P p)" if "c \<in> set clks'" "p \<in> set pks" for c p
  proof -
    have "packet_key P p \<noteq> packet_key P pk" using that(2) Cons.prems(2) by (auto simp: rev_image_eqI)
    then show ?thesis using that Cons.prems(6) clks s1(3) cache_record_recent [OF Cons.prems(4)] by auto
  qed
  from Cons.IH [OF _ _ s1(2) inv clks(2) this s1(4)] Cons.prems(1,2) s1(1,5) clks show ?case by auto
qed simp

section \<open>From the sender's queue to the receiver's queue\<close>

lemma created_packets_extract:
  assumes "x25519_ok P" "chacha_ok P" "Create P S msg hostID mx 1 ss tp = Inr (packets, tp')" "paired (suite1_keypair P) S R"
    "tape_fresh tp" "sendable msg hostID" "length packets \<le> 65536" "identity_as P S R ss msg hostID h" "pk \<in> set packets"
  shows "\<exists>f. extract_packet P R pk = Inr f"
proof -
  from packet_channel.packets_of_message [OF suite1_packet_channel [OF assms(1,2)] assms(3,4) tape_fresh_drop [OF assms(5)] assms(6-8)]
  obtain fs where "map (extract_packet P R) packets = map (\<lambda>f. Inr (recv_payload f ss h)) fs" by metis
  then have "extract_packet P R pk \<in> (\<lambda>f. Inr (recv_payload f ss h)) ` set fs"
    using assms(9) by (metis image_eqI list.set_map)
  then show ?thesis by auto
qed
text \<open>Concrete primitives under which the keys of two packets differ.\<close>

definition first_byte :: "bytes \<Rightarrow> byte" where "first_byte xs = (case xs of [] \<Rightarrow> 0 | x # _ \<Rightarrow> x)"

definition shift_prims :: crypto_prims where
  "shift_prims = example_prims\<lparr>X25519 := (\<lambda>a p. Some ((first_byte a + first_byte p) # replicate 31 9))\<rparr>"

lemma shift_prims_ok: "x25519_ok shift_prims" "chacha_ok shift_prims"
  using example_prims_ok(2)
  by (auto simp: x25519_ok_def chacha_ok_def shift_prims_def crypto_sizes first_byte_def add_ac)

definition shift_sender :: wrappers where
  "shift_sender = example_sender\<lparr>EncryptInnerPayload_var := FnSet (16 # replicate 31 9)\<rparr>"

definition shift_receiver :: wrappers where
  "shift_receiver = example_receiver\<lparr>DecryptInnerPayload_var := FnSet (replicate 32 7)\<rparr>"

definition rising_tape :: tape where "rising_tape = [0, 0, 0, 1] @ [0..<200]"

lemma rising_tape_fresh: "tape_fresh rising_tape"
proof (rule tape_freshI)
  fix j
  assume "ScalarSize \<le> j" and "Suc j < length rising_tape"
  then obtain i where j: "j = 4 + i" and i: "Suc i < 200"
    by (auto simp: rising_tape_def crypto_sizes intro: that [of "j - 4"])
  have "rising_tape ! j = i" "rising_tape ! Suc j = Suc i"
    using i by (simp_all add: rising_tape_def nth_append j)
  then show "(of_nat (rising_tape ! j) :: byte) \<noteq> of_nat (rising_tape ! Suc j)" by simp
qed

lemma shift_example:
  "case Create shift_prims shift_sender (example_message ''web2'') 12 124 1 0 rising_tape of
     Inl _ \<Rightarrow> False | Inr (packets, _) \<Rightarrow> length packets = 2 \<and> distinct (map (packet_key shift_prims) packets)"
  by code_simp

lemma shift_paired: "paired (suite1_keypair shift_prims) shift_sender shift_receiver"
  by code_simp

section \<open>Properties\<close>

text \<open>
  C4. From a message in the sender's queue to the message in the receiver's output queue. An assembler
  worker of the sender takes the message, cuts it into encrypted packets and puts them all into the
  output queue; the output workers write them to the socket; the network delivers them in any order;
  a listener of the receiver passes each one on, a processor decrypts and routes them to one shard, and
  the assembler of that shard puts one message into the output queue with the data and fields sent, its time
  in milliseconds, the source address and the hostname marked as unverified. The queues have room,
  the packets carry distinct keys the replay cache does not know, and they reach the idle receiver in time.
\<close>

theorem sender_to_receiver:
  assumes prims: "x25519_ok P" "chacha_ok P" "paired (suite1_keypair P) S R" "tape_fresh tp"
    and sender: "sa_cryptoSuiteID s = 1" "sa_sigSuiteID s = 0" "queue_inv msgs" "ActiveRead msgs = ActiveWrite msgs"
      "queue_contents msgs = msg # rest" "has_room (length packets) pkts" "queue_contents pkts = []"
    and message: "Create P S msg (sa_hostID s) (sa_maxPayloadSize s) 1 0 tp = Inr (packets, tp')" "sendable msg (sa_hostID s)"
      "1 < length packets" "length packets \<le> 65536" "distinct (map (packet_key P) packets)"
      "list_all (\<lambda>(k, v). self_equal (recv_value v)) (m_Fields msg)"
    and network: "mset is = mset [0..<length packets]" "length clks = length packets"
    and listener: "minLen l = MinOuterPayloadLen" "cache_inv w (ls_cache l)" "has_room (length packets) (ls_outbox l)"
      "queue_contents (ls_outbox l) = []"
      "list_all (\<lambda>clk. list_all (\<lambda>pk. \<not> cache_recent (lc_now clk) (ls_cache l) (packet_key P pk)) packets) clks"
    and processor: "LookupPinnedSender R (wire_hostname (m_Hostname msg)) = None" "length ts = length packets"
      "timely (PacketDeadline m) (map fst ts)"
      "list_all (\<lambda>(t, d). accepts p t (time_UnixMilli (UnixMilli (m_Timestamp msg)))) ts" "idle m"
    and assembler: "mset js = mset [0..<length packets]" "has_room 1 outbox"
  shows "\<exists>msgs' pkts' s' pkts'' om' l' inbox' p' m' i sh a' f.
    sasm_turn P S tp False [] (msgs, pkts, s) = Some ((msgs', pkts', s'), tp', SAsmSent packets) \<and> queue_contents msgs' = rest \<and>
    sout_turns (length packets) (pkts', om) = Some ((pkts'', om'), map SOutSent packets) \<and> queue_contents pkts'' = [] \<and>
    listen_turns P (zip clks (map (nth packets) is)) addr l = Some (l', replicate (length packets) ListenQueued) \<and>
    proc_turns sha env P R ts (ls_outbox l', p, m) = Some ((inbox', p', m'), replicate (length packets) (ProcRouted (ToShard i))) \<and>
    queue_contents inbox' = [] \<and> map_of (instances m') i = Some sh \<and>
    asm_turn False (map int js) dur (assembler_newWorker sh outbox) = Some (a', AsmDone f) \<and>
    queue_contents (as_outbox a') = queue_contents outbox @ [f] \<and>
    RemoteIP f = addr \<and> HostID f = sa_hostID s \<and> Timestamp f = time_UnixMilli (UnixMilli (m_Timestamp msg)) \<and>
    Hostname f = HostPrefixUnverified @ wire_hostname (m_Hostname msg) \<and>
    CustomFields f = recv_fields (m_Fields msg) [] \<and> Data f = m_Data msg"
proof -
  note who = identity_unsigned [OF processor(1)]
  from sasm_turn_sends [OF sender(3-5) _ sender(6), of P S s tp tp'] message(1) sender(1,2)
  obtain msgs' pkts' s' where 1: "sasm_turn P S tp False [] (msgs, pkts, s) = Some ((msgs', pkts', s'), tp', SAsmSent packets)"
    "queue_contents msgs' = rest" "has_room 0 pkts'" "queue_contents pkts' = packets" using sender(7) by auto
  from sout_turns_all [OF _ _ 1(4), of om] 1(3)
  obtain pkts'' om' where 2: "sout_turns (length packets) (pkts', om) = Some ((pkts'', om'), map SOutSent packets)"
    "queue_contents pkts'' = []" by (auto simp: has_room_def)
  have "0 < length packets" using message(3) by linarith
  then have perm: "set is = {0..<length packets}" "distinct is" "length is = length packets"
    using arrival_perm [OF network(1)] mset_eq_length [OF network(1)] by (simp_all add: arrival_def)
  have all: "set (map (nth packets) is) = set packets" using perm(1) by (simp add: nth_image)
  have "mset (map (packet_key P) (map (nth packets) is)) = mset (map (packet_key P) (map (nth packets) [0..<length packets]))"
    using network(1) by (simp only: mset_map)
  then have "distinct (map (packet_key P) (map (nth packets) is))"
    using message(5) mset_eq_imp_distinct_iff unfolding map_nth by blast
  from listen_turns_queued [of "map (nth packets) is", OF _ this listener(1,2), of R clks addr]
    created_packets_extract [OF prims(1,2) message(1) prims(3,4) message(2,4) who] listener(3-5) perm(3) network(2) all
  obtain l' where 3: "listen_turns P (zip clks (map (nth packets) is)) addr l = Some (l', replicate (length packets) ListenQueued)"
    "has_room 0 (ls_outbox l')" "queue_contents (ls_outbox l') = map (\<lambda>j. \<lparr>cData = packets ! j, cRemoteIP = addr\<rparr>) is"
    by (auto simp: list_all_iff comp_def)
  from 3(2) have q: "queue_inv (ls_outbox l')" "ActiveRead (ls_outbox l') = ActiveWrite (ls_outbox l')" by (simp_all add: has_room_def)
  from assembler(2) have o: "queue_inv outbox"
    "length (ring_contents (insts outbox ! ActiveWrite outbox)) < length (buf (insts outbox ! ActiveWrite outbox))"
    "0 < ring_budget (insts outbox ! ActiveWrite outbox)" by (auto simp: has_room_def)
  obtain inbox' p' m' i sh a' f where
    "proc_turns sha env P R ts (ls_outbox l', p, m) = Some ((inbox', p', m'), replicate (length packets) (ProcRouted (ToShard i)))"
    "queue_contents inbox' = []" "map_of (instances m') i = Some sh"
    "asm_turn False (map int js) dur (assembler_newWorker sh outbox) = Some (a', AsmDone f)"
    "queue_contents (as_outbox a') = queue_contents outbox @ [f]" "RemoteIP f = addr" "HostID f = sa_hostID s"
    "Timestamp f = time_UnixMilli (UnixMilli (m_Timestamp msg))" "Hostname f = HostPrefixUnverified @ wire_hostname (m_Hostname msg)"
    "CustomFields f = recv_fields (m_Fields msg) []" "Data f = m_Data msg"
    by (rule suite1_receiver_delivers [OF prims(1,2) message(1) prims(3,4) message(2,4) who message(3,6) network(1) assembler(1)
          q 3(3) processor(2-5) o])
  with 1 2 3(1) show ?thesis by metis
qed

theorem sender_to_receiver_witness:
  "\<exists>msgs pkts l packets tp' msgs' pkts' s' pkts'' om' l' inbox' p' m' i sh a' f.
    sasm_turn shift_prims shift_sender rising_tape False []
      (msgs, pkts, \<lparr>sa_hostID = 12, sa_maxPayloadSize = 124, sa_cryptoSuiteID = 1, sa_sigSuiteID = 0, sa_Metrics = SAsmMetrics_zero\<rparr>) =
      Some ((msgs', pkts', s'), tp', SAsmSent packets) \<and> length packets = 2 \<and>
    sout_turns 2 (pkts', SOutMetrics_zero) = Some ((pkts'', om'), map SOutSent packets) \<and>
    listen_turns shift_prims (zip (replicate 2 \<lparr>lc_now = 100, lc_dur = 5, lc_busy = 9\<rparr>) (map (nth packets) [1, 0])) example_addr l =
      Some (l', replicate 2 ListenQueued) \<and>
    proc_turns (\<lambda>_. replicate 32 5) \<lparr>socket_files = None, remote_route = (\<lambda>_ _ _ _ f. (f, RemoteError)), range_order = []\<rparr>
      shift_prims shift_receiver [(4000000, 10), (5000000, 10)]
      (ls_outbox l', processor_newWorker 60000000000 60000000000, example_manager [(''0'', False), (''1'', False)]) =
      Some ((inbox', p', m'), replicate 2 (ProcRouted (ToShard i))) \<and>
    map_of (instances m') i = Some sh \<and>
    asm_turn False [1, 0] 7 (assembler_newWorker sh example_outbox) = Some (a', AsmDone f) \<and>
    queue_contents (as_outbox a') = [f] \<and> Data f = bytes_of_string ''hello wor''"
proof -
  let ?msg = "example_message ''web2''"
  let ?s = "\<lparr>sa_hostID = 12, sa_maxPayloadSize = 124, sa_cryptoSuiteID = 1, sa_sigSuiteID = 0, sa_Metrics = SAsmMetrics_zero\<rparr>"
  let ?clks = "replicate 2 \<lparr>lc_now = 100, lc_dur = 5, lc_busy = 9\<rparr>"
  obtain packets tp' where c: "Create shift_prims shift_sender ?msg 12 124 1 0 rising_tape = Inr (packets, tp')"
    "length packets = 2" "distinct (map (packet_key shift_prims) packets)"
    using shift_example by (auto split: sum.splits)
  obtain msgs where msgs: "queue_inv msgs" "ActiveRead msgs = ActiveWrite msgs" "queue_contents msgs = [?msg]"
    by (rule queue_holding [of "[?msg]"]) simp
  obtain pkts :: "bytes Queue" where pkts: "has_room 8 pkts" "queue_contents pkts = []" by (rule fresh_queue)
  obtain q :: "Container Queue" where q: "has_room 8 q" "queue_contents q = []" by (rule fresh_queue)
  let ?l = "listener_newWorker (newReplayCacheWithShards 2 60) q"
  have l: "minLen ?l = MinOuterPayloadLen" "cache_inv 60 (ls_cache ?l)" "ls_outbox ?l = q"
    by (simp_all add: listener_newWorker_def newReplayCacheWithShards_def cache_inv_def)
  have empty: "\<not> cache_recent t (ls_cache ?l) k" for t k
    using home_less [OF l(2), of k] by (auto simp: cache_recent_def listener_newWorker_def newReplayCacheWithShards_def nth_Cons')
  let ?m = "example_manager [(''0'', False), (''1'', False)]"
  have pin: "LookupPinnedSender shift_receiver (wire_hostname (m_Hostname ?msg)) = None" by code_simp
  have m: "idle ?m" by code_simp
  have t: "timely (PacketDeadline ?m) (map fst [(4000000, 10 :: int), (5000000, 10)])" by code_simp
  have a: "list_all (\<lambda>(t, d). accepts (processor_newWorker 60000000000 60000000000) t
    (time_UnixMilli (UnixMilli (m_Timestamp ?msg)))) [(4000000, 10 :: int), (5000000, 10)]" by code_simp
  have o: "has_room 1 example_outbox" using example_outbox_ok by (simp add: has_room_def example_outbox_def New_def newQueueInst_def)
  from sender_to_receiver [of shift_prims shift_sender shift_receiver rising_tape ?s msgs ?msg "[]" packets pkts tp' "[1, 0]" ?clks ?l 60
      "[(4000000, 10), (5000000, 10)]" ?m "processor_newWorker 60000000000 60000000000" "[1, 0]" example_outbox SOutMetrics_zero example_addr
      "\<lambda>_. replicate 32 5" "\<lparr>socket_files = None, remote_route = (\<lambda>_ _ _ _ f. (f, RemoteError)), range_order = []\<rparr>" 7,
      OF shift_prims_ok shift_paired rising_tape_fresh _ _ msgs _ pkts(2) _ _ _ _ c(3) example_sendable(2) _ _ l(1,2) _ _ _ pin _ t a m _ o]
    c(1,2) pkts(1) q l(3) empty example_sendable(1) example_outbox_ok(2)
  show ?thesis
    by (auto simp: upt_rec list_all_iff has_room_less [of 8] example_message_def
        simp del: sout_turns.simps proc_turns.simps listen_turns.simps) metis
qed

end
