(* ===== verification/Scaling_Trends.thy ===== *)
theory Scaling_Trends
  imports Go_Numeric
begin

text \<open>
  The arithmetic behind the scaling decisions: trimmed means (\<^verbatim>\<open>internal/calc/stats.go\<close>) and the trends of
  listeners (\<^verbatim>\<open>internal/receiver/listener/scaling.go\<close>) and of shards (\<^verbatim>\<open>internal/receiver/shard/scaling.go\<close>).
  Floating point is that of \<open>Go_Numeric\<close>: every operation is rounded, none is fused.
\<close>

section \<open>Trimmed means\<close>

definition flit :: "rat \<Rightarrow> float64" where
  "flit x = fround False x"

text \<open>How many values are dropped at each end; both means compute it in the same way.\<close>

definition trim_count :: "nat \<Rightarrow> float64 \<Rightarrow> nat" where
  "trim_count n trimPercent =
     (let trimPercent = (if fless trimPercent (FZero False) then FZero False else trimPercent);
          trimCount = nat (int_of_float (fmul (float_of_int (int n)) trimPercent)) in
      if n \<le> trimCount * 2 then (n - 1) div 2 else trimCount)"

definition trimmed :: "'a list \<Rightarrow> float64 \<Rightarrow> 'a list" where
  "trimmed nums trimPercent =
     (let n = length nums; start = trim_count n trimPercent in take (n - start - start) (drop start nums))"

definition TrimmedMeanUint64 :: "64 word list \<Rightarrow> float64 \<Rightarrow> 64 word" where
  "TrimmedMeanUint64 values trimPercent =
     (if values = [] then 0
      else let kept = trimmed (sort values) trimPercent in sum_list kept div of_nat (length kept))"

text \<open>\<^verbatim>\<open>sort.Float64s\<close> puts NaN first.\<close>

definition fbefore :: "float64 \<Rightarrow> float64 \<Rightarrow> bool" where
  "fbefore x y \<longleftrightarrow> fless x y \<or> x = FNaN \<and> y \<noteq> FNaN"

fun finsert :: "float64 \<Rightarrow> float64 list \<Rightarrow> float64 list" where
  "finsert x [] = [x]"
| "finsert x (y # ys) = (if fbefore y x then y # finsert x ys else x # y # ys)"

definition Float64s :: "float64 list \<Rightarrow> float64 list" where
  "Float64s xs = foldr finsert xs []"

definition fsum :: "float64 list \<Rightarrow> float64" where
  "fsum xs = foldl fadd (FZero False) xs"

definition TrimmedMeanFloat64 :: "float64 list \<Rightarrow> float64 \<Rightarrow> float64" where
  "TrimmedMeanFloat64 values trimPercent =
     (if values = [] then FZero False
      else let kept = trimmed (Float64s values) trimPercent in fdiv (fsum kept) (float_of_int (int (length kept))))"

section \<open>Trends\<close>

text \<open>Listeners: the average utilisation and the slope of the least squares line through the samples.\<close>

record regression =
  sx :: float64
  sy :: float64
  sxy :: float64
  sxx :: float64

definition regression_step :: "nat \<times> float64 \<Rightarrow> regression \<Rightarrow> regression" where
  "regression_step iv r =
     (case iv of (i, v) \<Rightarrow>
        let x = float_of_int (int i) in
        \<lparr>sx = fadd (sx r) x, sy = fadd (sy r) v, sxy = fadd (sxy r) (fmul x v), sxx = fadd (sxx r) (fmul x x)\<rparr>)"

definition listener_Trend :: "float64 list \<Rightarrow> bool \<times> bool" where
  "listener_Trend busyTimes =
     (if length busyTimes = 0 then (False, False)
      else
        let n = float_of_int (int (length busyTimes));
            avg = fdiv (fsum busyTimes) n;
            r = fold regression_step (enumerate 0 busyTimes)
                  \<lparr>sx = FZero False, sy = FZero False, sxy = FZero False, sxx = FZero False\<rparr>;
            denom = fsub (fmul n (sxx r)) (fmul (sx r) (sx r)) in
        if is_zero denom then (False, False)
        else
          let slope = fdiv (fsub (fmul n (sxy r)) (fmul (sx r) (sy r))) denom in
          if fless (flit 50) avg \<and> fless (flit (1 / 2)) slope then (True, False)
          else if fless avg (flit 20) \<and> fless slope (flit (- 1 / 2)) then (False, True)
          else (False, False))"

text \<open>Shards: the weighted mean of the clamped changes of the number of buckets.\<close>

definition clamp_delta :: "float64 \<Rightarrow> float64" where
  "clamp_delta delta =
     (if fless (flit 10) delta then flit 10 else if fless delta (flit (- 10)) then flit (- 10) else delta)"

fun shard_deltas :: "64 word list \<Rightarrow> float64 list" where
  "shard_deltas (a # b # rest) =
     clamp_delta (fsub (float_of_int (uint b)) (float_of_int (uint a))) # shard_deltas (b # rest)"
| "shard_deltas _ = []"

definition shard_Trend :: "64 word list \<Rightarrow> bool \<times> bool" where
  "shard_Trend bucketCounts =
     (if length bucketCounts < 2 then (False, False)
      else
        let weighted = fold (\<lambda>(i, delta) (weightedSum, weightSum).
              let weight = float_of_int (int i + 1) in (fadd weightedSum (fmul delta weight), fadd weightSum weight))
              (enumerate 0 (shard_deltas bucketCounts)) (FZero False, FZero False);
            trend = fdiv (fst weighted) (snd weighted) in
        if fless (flit 5) trend then (True, False)
        else if fless trend (flit (- 2)) then (False, True)
        else (False, False))"

text \<open>
  The deadline of packets: the mean share of timed out buckets and the change of the mean spacing. The lists of spacings and
  time-outs are read at the positions of the list of fragments.
\<close>

definition ratio :: "64 word \<Rightarrow> 64 word \<Rightarrow> float64" where
  "ratio a n = (if n = 0 then FZero False else fdiv (float_of_int (uint a)) (float_of_int (uint n)))"

definition TrendLatency :: "64 word list \<Rightarrow> 64 word list \<Rightarrow> 64 word list \<Rightarrow> bool \<times> bool" where
  "TrendLatency sumSpacing totalFragments timedOutFragments =
     (let n = length totalFragments in
      if n = 0 then (False, False)
      else
        let timeoutRatios = map (\<lambda>i. ratio (timedOutFragments ! i) (totalFragments ! i)) [0..<n];
            avgSpacings = map (\<lambda>i. ratio (sumSpacing ! i) (totalFragments ! i)) [0..<n];
            avgTimeoutRatio = fdiv (fsum timeoutRatios) (float_of_int (int n));
            spacingSlope = fdiv (fsub (avgSpacings ! (n - 1)) (avgSpacings ! 0)) (float_of_int (int n));
            stepUp = (fless (flit (5 / 100)) avgTimeoutRatio \<or> fless (FZero False) spacingSlope);
            stepDown = (fless avgTimeoutRatio (flit (1 / 100)) \<and> fless spacingSlope (FZero False)) in
        (stepUp, if stepUp \<and> stepDown then False else stepDown))"

section \<open>Lemmas\<close>

lemma trim_count_less: "0 < n \<Longrightarrow> 2 * trim_count n p < n"
  by (auto simp: trim_count_def Let_def)

lemma length_trimmed: "length (trimmed xs p) = length xs - 2 * trim_count (length xs) p"
  by (simp add: trimmed_def Let_def)

lemma trimmed_nonempty: "xs \<noteq> [] \<Longrightarrow> trimmed xs p \<noteq> []"
  using trim_count_less [of "length xs" p] length_trimmed [of xs p] by (cases "trimmed xs p") auto

lemma set_trimmed: "set (trimmed xs p) \<subseteq> set xs"
  by (auto simp: trimmed_def Let_def dest: in_set_takeD in_set_dropD)

lemma unat_sum_list:
  "sum_list (map unat ws) < 2 ^ 64 \<Longrightarrow> unat (sum_list (ws :: 64 word list)) = sum_list (map unat ws)"
proof (induction ws)
  case (Cons w ws)
  then show ?case
    using unat_add_lem [of w "sum_list ws"] by simp
qed simp

lemma mean_between:
  assumes "(xs :: nat list) \<noteq> []" and "\<forall>x \<in> set xs. lo \<le> x \<and> x \<le> hi"
  shows "lo \<le> sum_list xs div length xs" and "sum_list xs div length xs \<le> hi"
proof -
  have l: "0 < length xs" using assms(1) by simp
  have b: "lo * length xs \<le> sum_list xs \<and> sum_list xs \<le> hi * length xs"
    using assms(2) by (induction xs) (auto simp: algebra_simps)
  then show "lo \<le> sum_list xs div length xs"
    using l by (simp add: less_eq_div_iff_mult_less_eq)
  have "sum_list xs div length xs \<le> hi * length xs div length xs"
    using b by (intro div_le_mono) simp
  then show "sum_list xs div length xs \<le> hi"
    using l by simp
qed

text \<open>
  The mean is that of the middle part of the sorted values, at least one of them (so that nothing is
  divided by zero), and lies between the smallest and the largest value, as long as the sum of the
  middle part fits 64 bits.
\<close>

lemma trimmed_mean_between:
  assumes "values \<noteq> []" and "length values < 2 ^ 64" and "sum_list (map unat (trimmed (sort values) p)) < 2 ^ 64"
  shows "trimmed (sort values) p \<noteq> []"
    and "Min (set values) \<le> TrimmedMeanUint64 values p \<and> TrimmedMeanUint64 values p \<le> Max (set values)"
proof -
  let ?kept = "trimmed (sort values) p"
  show k: "?kept \<noteq> []"
    using assms(1) by (intro trimmed_nonempty) (metis set_empty set_sort)
  have "length ?kept < 2 ^ 64"
    using assms(2) by (simp add: length_trimmed)
  then have len: "unat (of_nat (length ?kept) :: 64 word) = length ?kept"
    by (simp add: unat_of_nat take_bit_nat_eq_self)
  have "TrimmedMeanUint64 values p = sum_list ?kept div of_nat (length ?kept)"
    using assms(1) by (simp add: TrimmedMeanUint64_def Let_def)
  then have m: "unat (TrimmedMeanUint64 values p) = sum_list (map unat ?kept) div length (map unat ?kept)"
    using unat_sum_list [OF assms(3)] len by (simp add: unat_div)
  have "\<forall>x \<in> set (map unat ?kept). unat (Min (set values)) \<le> x \<and> x \<le> unat (Max (set values))"
    using set_trimmed [of "sort values" p] by (auto simp: word_le_nat_alt [symmetric] dest!: subsetD)
  from mean_between [OF _ this] k m
  show "Min (set values) \<le> TrimmedMeanUint64 values p \<and> TrimmedMeanUint64 values p \<le> Max (set values)"
    by (simp add: word_le_nat_alt)
qed

text \<open>No trend suggests both directions.\<close>

lemma trends_exclusive:
  "\<not> (fst (listener_Trend bs) \<and> snd (listener_Trend bs))"
  "\<not> (fst (shard_Trend cs) \<and> snd (shard_Trend cs))"
  "\<not> (fst (TrendLatency ss fs ts) \<and> snd (TrendLatency ss fs ts))"
  by (simp_all add: listener_Trend_def shard_Trend_def TrendLatency_def Let_def)

text \<open>Samples that are all zero, as the mean of no samples is, suggest nothing.\<close>

definition nothing :: "float64 \<Rightarrow> bool" where
  "nothing x \<longleftrightarrow> x = FNaN \<or> is_zero x"

lemma nothing_fadd: "nothing x \<Longrightarrow> nothing y \<Longrightarrow> nothing (fadd x y)"
  by (cases x; cases y) (auto simp: nothing_def)

lemma nothing_fsub: "nothing x \<Longrightarrow> nothing y \<Longrightarrow> nothing (fsub x y)"
  by (cases x; cases y) (auto simp: nothing_def fsub_def)

lemma nothing_fmul: "nothing y \<Longrightarrow> nothing (fmul x y)"
  by (cases x; cases y) (auto simp: nothing_def fmul_def fround_def Let_def)

lemma nothing_fdiv: "nothing x \<Longrightarrow> nothing (fdiv x y)"
  by (cases x; cases y) (auto simp: nothing_def fdiv_def fround_def Let_def)

lemma round_even_nonneg: "0 \<le> x \<Longrightarrow> 0 \<le> round_even x"
  by (auto simp: round_even_def Let_def)

lemma nothing_fless:
  assumes "nothing x" and "0 < r"
  shows "\<not> fless (flit r) x" and "\<not> fless x (flit (- r))"
proof -
  let ?q = "pow2 (max (fexponent r) (- 1022) - 52)"
  have "0 \<le> rat_of_int (round_even (r / ?q)) * ?q"
    using assms(2) round_even_nonneg [of "r / ?q"] by (intro mult_nonneg_nonneg) (auto simp: less_imp_le)
  then have "\<not> fless (flit r) x \<and> \<not> fless x (flit (- r))"
    using assms by (cases x) (force simp: nothing_def flit_def fround_def fmagnitude_def Let_def)+
  then show "\<not> fless (flit r) x" and "\<not> fless x (flit (- r))" by simp_all
qed

lemma regression_zeros:
  assumes "\<forall>v \<in> set vs. nothing v" and "nothing (sy r)" and "nothing (sxy r)"
  shows "nothing (sy (fold regression_step (enumerate n vs) r)) \<and> nothing (sxy (fold regression_step (enumerate n vs) r))"
  using assms
  by (induction vs arbitrary: n r) (auto simp: regression_step_def Let_def nothing_fadd nothing_fmul)

lemma fsum_zeros: "\<forall>v \<in> set vs. nothing v \<Longrightarrow> nothing (fsum vs)"
proof -
  have "nothing a \<Longrightarrow> nothing (foldl fadd a vs)" if "\<forall>v \<in> set vs. nothing v" for a
    using that by (induction vs arbitrary: a) (auto simp: nothing_fadd)
  then show "\<forall>v \<in> set vs. nothing v \<Longrightarrow> nothing (fsum vs)"
    by (simp add: fsum_def nothing_def)
qed

lemma listener_Trend_zeros:
  assumes "\<forall>v \<in> set vs. nothing v"
  shows "listener_Trend vs = (False, False)"
proof -
  define r where "r = fold regression_step (enumerate 0 vs) \<lparr>sx = FZero False, sy = FZero False, sxy = FZero False, sxx = FZero False\<rparr>"
  have r: "nothing (sy r)" "nothing (sxy r)"
    using regression_zeros [OF assms, of "\<lparr>sx = FZero False, sy = FZero False, sxy = FZero False, sxx = FZero False\<rparr>" 0]
    by (simp_all add: r_def nothing_def)
  define n where "n = float_of_int (int (length vs))"
  have "nothing (fdiv (fsum vs) n)"
    and "nothing (fdiv (fsub (fmul n (sxy r)) (fmul (sx r) (sy r))) (fsub (fmul n (sxx r)) (fmul (sx r) (sx r))))"
    using fsum_zeros [OF assms] r by (simp_all add: nothing_fdiv nothing_fsub nothing_fmul)
  note a = nothing_fless(1) [OF this(1), of 50] and b = nothing_fless(2) [OF this(2), of "1 / 2"]
  then show ?thesis
    by (simp add: listener_Trend_def Let_def flip: r_def n_def)
qed

end
