(* ===== verification/Receiver_Scaling.thy ===== *)
theory Receiver_Scaling
  imports Receiver_Daemon Scaling_Trends
begin

text \<open>
  \<^verbatim>\<open>internal/receiver/scaling\<close>: the periodic decisions on the numbers of listeners, processors and assemblers, on
  the packet deadline and on the capacity of the output queue, from the metrics of the last five
  intervals. The clock, the memory available, the ports and the order of ranges over the map of
  assemblers are arguments.
\<close>

section \<open>Samples\<close>

definition pastNIntervals :: nat where "pastNIntervals = 5"

definition MTDepth :: bytes where "MTDepth = bytes_of_string ''depth''"
definition MTBusyPct :: bytes where "MTBusyPct = bytes_of_string ''busy_time_percent''"
definition MTTotalBuckets :: bytes where "MTTotalBuckets = bytes_of_string ''total_buckets''"
definition MTTimedOutBuckets :: bytes where "MTTimedOutBuckets = bytes_of_string ''timed_out_buckets''"
definition MTTimeBtwFragments :: bytes where "MTTimeBtwFragments = bytes_of_string ''sum_time_between_fragments''"
definition MTPushCnt :: bytes where "MTPushCnt = bytes_of_string ''push_ctn''"

fun raw_uint64 :: "Metric \<Rightarrow> 64 word option" where
  "raw_uint64 m = (case mv_Raw (mt_Value m) of RawUint64 x \<Rightarrow> Some x | _ \<Rightarrow> None)"

fun raw_float64 :: "Metric \<Rightarrow> float64 option" where
  "raw_float64 m = (case mv_Raw (mt_Value m) of RawFloat64 x \<Rightarrow> Some x | _ \<Rightarrow> None)"

definition newest :: "'a list \<Rightarrow> 'a list" where
  "newest ms = drop (length ms - pastNIntervals) ms"

text \<open>
  The newest samples of every instance that has enough of them; None when a value has another type,
  which makes the caller return.
\<close>

fun instance_samples :: "(Metric \<Rightarrow> 'a option) \<Rightarrow> Metric list list \<Rightarrow> 'a list list option" where
  "instance_samples raw [] = Some []"
| "instance_samples raw (ms # mss) =
     (if length ms < pastNIntervals then instance_samples raw mss
      else (case those (map raw (newest ms)) of
              None \<Rightarrow> None
            | Some vals \<Rightarrow> map_option ((#) vals) (instance_samples raw mss)))"

definition column :: "'a list list \<Rightarrow> nat \<Rightarrow> 'a list" where
  "column instValues i = map (\<lambda>vals. vals ! i) instValues"

text \<open>The search of one instance, with the two readings of the clock.\<close>

definition recent :: "Registry \<Rightarrow> int \<Rightarrow> int \<times> int \<Rightarrow> bytes \<Rightarrow> bytes list \<Rightarrow> Metric list" where
  "recent reg interval now name ns = Search reg name ns (fst now - int pastNIntervals * interval) (snd now)"

section \<open>The decisions\<close>

definition scaleListener :: "Registry \<Rightarrow> int \<Rightarrow> (nat \<Rightarrow> int \<times> int) \<Rightarrow> bool \<Rightarrow> listener_Manager \<Rightarrow> listener_Manager" where
  "scaleListener reg interval clk portReused m =
     (let n = length (lm_Instances m) in
      if n = unat (lc_Max (lm_Config m)) \<or> n = unat (lc_Min (lm_Config m)) then m
      else (case instance_samples raw_float64
                  (map (\<lambda>i. recent reg interval (clk i) MTBusyPct [NSRecv, NSmIngest, decimal i]) [0..<n]) of
              None \<Rightarrow> m
            | Some instValues \<Rightarrow>
                let values = map (\<lambda>i. TrimmedMeanFloat64 (column instValues i) (flit (1 / 10))) [0..<pastNIntervals] in
                (case listener_Trend values of (scaleUp, scaleDown) \<Rightarrow>
                   if scaleUp then fst (listener_AddInstance portReused [] m)
                   else if scaleDown then fst (listener_RemoveLastInstance [] m)
                   else m)))"

text \<open>
  Pools that follow the depth of their queue; the same steps are found in both daemons. None means
  that the caller returns.
\<close>

definition depth_decision :: "Registry \<Rightarrow> int \<Rightarrow> int \<times> int \<Rightarrow> bytes list \<Rightarrow> int \<Rightarrow> (bool \<times> bool) option" where
  "depth_decision reg interval now ns queueSize =
     (let ms = recent reg interval now MTDepth ns in
      if length ms < pastNIntervals then None
      else map_option (\<lambda>values. Trend (map unat values) queueSize) (those (map raw_uint64 ms)))"

definition scaleProcessor :: "Registry \<Rightarrow> int \<Rightarrow> int \<times> int \<Rightarrow> 64 word \<Rightarrow> processor_Manager \<Rightarrow> processor_Manager" where
  "scaleProcessor reg interval now availMem m =
     (let n = length (pm_Instances m) in
      if n = unat (pc_Max (pm_Config m)) \<or> n = unat (pc_Min (pm_Config m)) then m
      else (case depth_decision reg interval now [NSRecv, NSProc, NSQueue] (Size (insts (pm_Inbox m) ! ActiveWrite (pm_Inbox m))) of
              None \<Rightarrow> m
            | Some (scaleUp, scaleDown) \<Rightarrow>
                let m = (if scaleUp then fst (processor_AddInstance [] m)
                         else if scaleDown then fst (processor_RemoveLastInstance [] m)
                         else m) in
                m\<lparr>pm_Inbox := ScaleCapacity Container_zero availMem (pm_Inbox m)\<rparr>))"

text \<open>
  Two orders are those of the two ranges over the map, a third that of the range when an instance is
  added. Removing an instance waits for its shard, which may not end (None).
\<close>

record asm_env =
  ae_first :: "bytes list"
  ae_second :: "bytes list"
  ae_order :: "bytes list \<Rightarrow> bytes list"
  ae_others :: "bytes \<Rightarrow> Shard \<Rightarrow> Shard"
  ae_replaced :: bool

definition scaleAssembler ::
  "Registry \<Rightarrow> int \<Rightarrow> (nat \<Rightarrow> int \<times> int) \<Rightarrow> asm_env \<Rightarrow> Manager \<times> (bytes \<times> AsmMetrics worker) list \<Rightarrow>
   (Manager \<times> (bytes \<times> AsmMetrics worker) list) option" where
  "scaleAssembler reg interval clk env st =
     (case st of (m, ws) \<Rightarrow>
      let n = length (GetNonDrainingIDs (ae_first env) m) in
      if n = unat (MaxInstanceCount m) \<or> n = unat (MinInstanceCount m) then Some st
      else (case instance_samples raw_uint64
                  (map (\<lambda>(i, shardID). recent reg interval (clk i) MTTotalBuckets [NSRecv, NSmDefrag, shardID])
                     (enumerate 0 (GetNonDrainingIDs (ae_second env) m))) of
              None \<Rightarrow> Some st
            | Some instValues \<Rightarrow>
                let values = map (\<lambda>i. TrimmedMeanUint64 (column instValues i) (flit (1 / 10))) [0..<pastNIntervals] in
                (case shard_Trend values of (scaleUp, scaleDown) \<Rightarrow>
                   if scaleUp then Some (asm_add (ae_order env) st)
                   else if scaleDown then
                     map_option (\<lambda>(m', i). (m', filter (\<lambda>(j, _). j \<noteq> i) ws))
                       (RemoveOldestInstance (ae_others env) (ae_replaced env) m)
                   else Some st)))"

text \<open>The three series of one shard, when there is enough of each.\<close>

definition latency_series :: "Registry \<Rightarrow> int \<times> int \<Rightarrow> int \<Rightarrow> bytes \<Rightarrow> (Metric list \<times> Metric list \<times> Metric list) option" where
  "latency_series reg now interval shardID =
     (let ns = [NSRecv, NSmDefrag, shardID];
          sumSpacing = recent reg interval now MTTimeBtwFragments ns;
          fragments = recent reg interval now MTPushCnt ns;
          timeouts = recent reg interval now MTTimedOutBuckets ns in
      if length sumSpacing < pastNIntervals \<or> length fragments < pastNIntervals \<or> length timeouts < pastNIntervals then None
      else Some (newest sumSpacing, newest fragments, newest timeouts))"

definition interval_means :: "Metric list list \<Rightarrow> 64 word list" where
  "interval_means series =
     map (\<lambda>i. TrimmedMeanUint64 (List.map_filter (\<lambda>ms. raw_uint64 (ms ! i)) series) (flit (1 / 10))) [0..<pastNIntervals]"

definition scaleTimeouts :: "Registry \<Rightarrow> int \<Rightarrow> int \<times> int \<Rightarrow> bytes list \<Rightarrow> Manager \<Rightarrow> Manager" where
  "scaleTimeouts reg interval now order m =
     (let currentDeadline = PacketDeadline m in
      if currentDeadline \<le> DefaultMinPacketDeadline \<or> DefaultMaxPacketDeadline \<le> currentDeadline then m
      else
        let series = List.map_filter (latency_series reg now interval) (GetNonDrainingIDs order m) in
        (case TrendLatency (interval_means (map fst series)) (interval_means (map (fst \<circ> snd) series))
                (interval_means (map (snd \<circ> snd) series)) of (stepUp, stepDown) \<Rightarrow>
           if stepUp then m\<lparr>PacketDeadline := currentDeadline + 10 * 1000000\<rparr>
           else if stepDown then m\<lparr>PacketDeadline := currentDeadline - 10 * 1000000\<rparr>
           else m))"

section \<open>A tick of the scaler\<close>

record scale_env =
  sc_listenClock :: "nat \<Rightarrow> int \<times> int"
  sc_portReused :: bool
  sc_procClock :: "int \<times> int"
  sc_procMem :: "64 word"
  sc_asmClock :: "nat \<Rightarrow> int \<times> int"
  sc_asm :: asm_env
  sc_deadlineClock :: "int \<times> int"
  sc_deadlineOrder :: "bytes list"
  sc_outMem :: "64 word"

definition receiver_scale :: "Registry \<Rightarrow> int \<Rightarrow> scale_env \<Rightarrow> receiver_Mgrs \<Rightarrow> receiver_Mgrs option" where
  "receiver_scale reg interval env ms =
     (let lm = scaleListener reg interval (sc_listenClock env) (sc_portReused env) (rm_Input ms);
          pm = scaleProcessor reg interval (sc_procClock env) (sc_procMem env) (rm_Proc ms) in
      case scaleAssembler reg interval (sc_asmClock env) (sc_asm env) (rm_Assembler ms, rm_asmWorkers ms) of
        None \<Rightarrow> None
      | Some (am, aws) \<Rightarrow>
          let am = scaleTimeouts reg interval (sc_deadlineClock env) (sc_deadlineOrder env) am in
          Some (ms\<lparr>rm_Input := lm, rm_Proc := pm, rm_Assembler := am, rm_asmWorkers := aws,
             rm_Output := (rm_Output ms)\<lparr>om_Inbox := ScaleCapacity Payload_zero (sc_outMem env) (om_Inbox (rm_Output ms))\<rparr>\<rparr>))"

section \<open>The life of a receiver\<close>

text \<open>
  From its start on, a receiver reads datagrams, gathers metrics and scales. The order of a range is
  that of some permutation of the identifiers; the registry and the clocks are whatever they are.
\<close>

inductive receiver_life :: "start_env \<Rightarrow> ctx \<Rightarrow> receiver_Opts \<Rightarrow> receiver_Mgrs \<Rightarrow> bool" for env c opts where
  started: "receiver_Start env True False c opts = Inr (Some ms) \<Longrightarrow> receiver_life env c opts ms"
| listened: "receiver_life env c opts ms \<Longrightarrow>
    listener_instance_turn P clk rd i (rm_Input ms, pm_Inbox (rm_Proc ms)) = Some ((lm, q), r) \<Longrightarrow>
    receiver_life env c opts (ms\<lparr>rm_Input := lm, rm_Proc := (rm_Proc ms)\<lparr>pm_Inbox := q\<rparr>\<rparr>)"
| gathered: "receiver_life env c opts ms \<Longrightarrow> receiver_collect interval gclk ms = (ms', metrics) \<Longrightarrow> receiver_life env c opts ms'"
| scaled: "receiver_life env c opts ms \<Longrightarrow> receiver_scale reg interval senv ms = Some ms' \<Longrightarrow>
    mset (ae_first (sc_asm senv)) = mset (map fst (instances (rm_Assembler ms))) \<Longrightarrow> receiver_life env c opts ms'"

definition out_active :: "receiver_Mgrs \<Rightarrow> Payload QueueInst" where
  "out_active ms = insts (om_Inbox (rm_Output ms)) ! ActiveWrite (om_Inbox (rm_Output ms))"

text \<open>Everything is at the configured minimum.\<close>

definition at_minimum :: "receiver_Opts \<Rightarrow> receiver_Mgrs \<Rightarrow> bool" where
  "at_minimum opts ms \<longleftrightarrow>
     length (lm_Instances (rm_Input ms)) = nat (ro_MinListeners opts) \<and>
     length (lm_Instances (rm_Input ms)) = unat (lc_Min (lm_Config (rm_Input ms))) \<and>
     length (pm_Instances (rm_Proc ms)) = nat (ro_MinProcessors opts) \<and>
     length (pm_Instances (rm_Proc ms)) = unat (pc_Min (pm_Config (rm_Proc ms))) \<and>
     length (instances (rm_Assembler ms)) = nat (ro_MinDefrags opts) \<and>
     length (instances (rm_Assembler ms)) = unat (MinInstanceCount (rm_Assembler ms)) \<and>
     list_all (\<lambda>(i, sh). \<not> InShutdown sh) (instances (rm_Assembler ms)) \<and> distinct (map fst (instances (rm_Assembler ms))) \<and>
     PacketDeadline (rm_Assembler ms) = DefaultMinPacketDeadline \<and>
     ActiveWrite (om_Inbox (rm_Output ms)) < length (insts (om_Inbox (rm_Output ms))) \<and>
     Size (out_active ms) \<le> minimumSize (om_Inbox (rm_Output ms))"

lemma nonDraining_all:
  assumes "list_all (\<lambda>(i, sh). \<not> InShutdown sh) (instances m)" and "mset order = mset (map fst (instances m))"
    and "distinct (map fst (instances m))"
  shows "length (GetNonDrainingIDs order m) = length (instances m)"
proof -
  have "set order = fst ` set (instances m)"
    using mset_eq_setD [OF assms(2)] by simp
  then have "\<exists>sh. map_of (instances m) i = Some sh \<and> \<not> InShutdown sh" if "i \<in> set order" for i
    using that assms(1) by (cases "map_of (instances m) i") (auto simp: map_of_eq_None_iff list_all_iff dest: map_of_SomeD)
  then have "GetNonDrainingIDs order m = order"
    by (fastforce simp: GetNonDrainingIDs_def filter_id_conv)
  then show ?thesis
    using mset_eq_length [OF assms(2)] by simp
qed

lemma scale_at_minimum:
  assumes "at_minimum opts ms" and "mset (ae_first (sc_asm senv)) = mset (map fst (instances (rm_Assembler ms)))"
  shows "receiver_scale reg interval senv ms = Some ms"
proof -
  have "length (GetNonDrainingIDs (ae_first (sc_asm senv)) (rm_Assembler ms)) = unat (MinInstanceCount (rm_Assembler ms))"
    using nonDraining_all [OF _ assms(2)] assms(1) by (simp add: at_minimum_def)
  then show ?thesis
    using assms(1)
    by (simp add: receiver_scale_def scaleListener_def scaleProcessor_def scaleAssembler_def scaleTimeouts_def ScaleCapacity_def
        at_minimum_def out_active_def Let_def)
qed

lemma collect_each_length: "length (fst (collect_each f clk ws)) = length ws"
  by (simp add: collect_each_def Let_def)

lemma collect_each_map:
  assumes "\<And>t w. g (fst (f t w)) = g w"
  shows "map g (fst (collect_each f clk ws)) = map g ws"
  using assms by (intro nth_equalityI) (simp_all add: collect_each_def Let_def enumerate_eq_zip)

lemma Size_update: "Size v = Size (xs ! i) \<Longrightarrow> map Size (xs[i := v]) = map Size xs"
  by (cases "i < length xs") (simp_all add: map_update list_update_same_conv list_update_beyond)

lemma CollectMetrics_skeleton:
  shows "map Size (insts (fst (CollectMetrics i t q))) = map Size (insts q)"
    and "ActiveWrite (fst (CollectMetrics i t q)) = ActiveWrite q"
    and "minimumSize (fst (CollectMetrics i t q)) = minimumSize q"
proof -
  show "map Size (insts (fst (CollectMetrics i t q))) = map Size (insts q)"
    by (auto simp: CollectMetrics_def Let_def Size_update)
qed (simp_all add: CollectMetrics_def Let_def)

lemma collect_at_minimum:
  assumes "at_minimum opts ms" and "receiver_collect interval clk ms = (ms', metrics)"
  shows "at_minimum opts ms'"
proof -
  let ?q = "om_Inbox (rm_Output ms)" and ?q' = "om_Inbox (rm_Output ms')"
  let ?f = "\<lambda>(i :: bytes, sh). (i, InShutdown sh)"
  have c: "lm_Config (rm_Input ms') = lm_Config (rm_Input ms)" "pm_Config (rm_Proc ms') = pm_Config (rm_Proc ms)"
    "length (lm_Instances (rm_Input ms')) = length (lm_Instances (rm_Input ms))"
    "length (pm_Instances (rm_Proc ms')) = length (pm_Instances (rm_Proc ms))"
    "PacketDeadline (rm_Assembler ms') = PacketDeadline (rm_Assembler ms)"
    "MinInstanceCount (rm_Assembler ms') = MinInstanceCount (rm_Assembler ms)"
    "?q' = fst (CollectMetrics interval (clk 9 0) ?q)"
    and inst: "instances (rm_Assembler ms') =
      fst (collect_each (\<lambda>t (i, sh). map_prod (Pair i) id (shard_CollectMetrics interval t sh)) (clk 5) (instances (rm_Assembler ms)))"
    using assms(2) collect_each_length by (auto simp: receiver_collect_def Let_def split_beta)
  have "map ?f (instances (rm_Assembler ms')) = map ?f (instances (rm_Assembler ms))"
    unfolding inst by (rule collect_each_map) (simp add: split_beta shard_CollectMetrics_def Let_def)
  then have "map fst (map ?f (instances (rm_Assembler ms'))) = map fst (map ?f (instances (rm_Assembler ms)))"
    "map snd (map ?f (instances (rm_Assembler ms'))) = map snd (map ?f (instances (rm_Assembler ms)))"
    by simp_all
  then have i: "map fst (instances (rm_Assembler ms')) = map fst (instances (rm_Assembler ms))"
    "map (InShutdown \<circ> snd) (instances (rm_Assembler ms')) = map (InShutdown \<circ> snd) (instances (rm_Assembler ms))"
    by (simp_all add: comp_def split_beta)
  then have "length (instances (rm_Assembler ms')) = length (instances (rm_Assembler ms))"
    by (metis length_map)
  moreover have "list_all (\<lambda>(i, sh). \<not> InShutdown sh) (instances (rm_Assembler ms')) =
      list_all (\<lambda>(i, sh). \<not> InShutdown sh) (instances (rm_Assembler ms))"
    using i(2) by (simp add: list_eq_iff_nth_eq list_all_length split_beta)
  moreover have "length (insts ?q') = length (insts ?q)" "\<And>j. j < length (insts ?q) \<Longrightarrow> Size (insts ?q' ! j) = Size (insts ?q ! j)"
    using CollectMetrics_skeleton(1) [of interval "clk 9 0" ?q] c(7) by (simp_all add: list_eq_iff_nth_eq)
  ultimately show ?thesis
    using assms(1) c i(1) CollectMetrics_skeleton(2,3) [of interval "clk 9 0" ?q] by (simp add: at_minimum_def out_active_def)
qed

lemma listen_at_minimum:
  assumes "at_minimum opts ms" and "listener_instance_turn P clk rd i (rm_Input ms, pm_Inbox (rm_Proc ms)) = Some ((lm, q), r)"
  shows "at_minimum opts (ms\<lparr>rm_Input := lm, rm_Proc := (rm_Proc ms)\<lparr>pm_Inbox := q\<rparr>\<rparr>)"
proof -
  have "lm_Config lm = lm_Config (rm_Input ms)" "length (lm_Instances lm) = length (lm_Instances (rm_Input ms))"
    using assms(2) by (auto simp: listener_instance_turn_def)
  then show ?thesis
    using assms(1) by (simp add: at_minimum_def out_active_def)
qed

lemma asm_add_fresh:
  assumes "list_all (\<lambda>(i, sh). \<not> InShutdown sh) (instances (fst st))"
  shows "list_all (\<lambda>(i, sh). \<not> InShutdown sh) (instances (fst ((asm_add order ^^ n) st)))"
  using assms
  by (induction n) (auto simp: asm_add_def AddInstance_def Let_def split_beta Shard_New_def list_all_update)

lemma New_skeleton:
  assumes "New zero ns (of_int mn) mn mx = Inr q" and "0 \<le> mn"
  shows "ActiveWrite q < length (insts q)" and "Size (insts q ! ActiveWrite q) \<le> minimumSize q"
  using assms
  by (auto simp: New_def newQueueInst_def rbind_eq_Inr sint_sbintrunc' signed_take_bit_int_less_eq_self_iff split: if_splits)

lemma start_at_minimum:
  assumes start: "receiver_Start env True False c opts = Inr (Some ms)"
    and n: "0 \<le> ro_MinDefrags opts" "ro_MinDefrags opts \<le> 65536"
    and l: "0 \<le> ro_MinListeners opts" "ro_MinListeners opts < 2 ^ 32"
    and p: "0 \<le> ro_MinProcessors opts" "ro_MinProcessors opts < 2 ^ 32"
    and q: "0 \<le> ro_MinOutQueue opts"
    and order: "\<And>xs. mset (se_order env xs) = mset xs"
  shows "at_minimum opts ms"
proof -
  let ?n = "nat (ro_MinDefrags opts)"
  obtain om am pm lm b where om: "output_NewManager c (output_config_of opts (se_rawWriter env)) = Inr om"
    and out: "rm_Output ms = fst (output_AddWorkers (se_fileOpened env) (se_othersOpen env) om)"
    and am: "NewManager (GetTagList c) (of_int (ro_MinDefrags opts)) (of_int (ro_MaxDefrags opts)) (ro_SocketDir opts) = Inr am"
    and asm: "rm_Assembler ms = (fst ((asm_add (se_order env) ^^ ?n) (am, [])))\<lparr>FIPRRunning := b\<rparr>"
    and pm: "processor_NewManager c (proc_config_of opts) = Inr pm"
    and proc: "rm_Proc ms = (proc_add ^^ nat (ro_MinProcessors opts)) pm"
    and lm: "listener_NewManager c (listener_config_of opts) = Inr lm"
    and inp: "listeners_add (map (se_portReused env) [0..<nat (ro_MinListeners opts)]) lm = Some (rm_Input ms)"
    using start by (elim receiver_Start_SomeE) blast
  have cfg: "lc_Min (lm_Config lm) = of_int (ro_MinListeners opts)" "pc_Min (pm_Config pm) = of_int (ro_MinProcessors opts)"
    using lm pm by (auto simp: listener_NewManager_def processor_NewManager_def listener_config_of_def proc_config_of_def Let_def
        split: option.splits sum.splits)
  have word: "unat (of_int k :: 32 word) = nat k" if "0 \<le> k" "k < 2 ^ 32" for k
    using that by (simp add: unsigned_of_int take_bit_int_eq_self)
  have st: "asm_started am ?n ((asm_add (se_order env) ^^ ?n) (am, []))"
    by (rule asm_started_all [OF NewManager_Inr(1) [OF am] _ order]) (use n in auto)
  then have "map fst (instances (rm_Assembler ms)) = map decimal [0..<?n]" and dl: "PacketDeadline (rm_Assembler ms) = DefaultMinPacketDeadline"
    and mn: "MinInstanceCount (rm_Assembler ms) = of_int (ro_MinDefrags opts)"
    using NewManager_Inr(2,5) [OF am] by (simp_all add: asm asm_started_def)
  then have keys: "distinct (map fst (instances (rm_Assembler ms)))" "length (instances (rm_Assembler ms)) = ?n"
    using distinct_decimals by (simp, metis length_map length_upt minus_nat.diff_0)
  have "instances am = []"
    using NewManager_Inr(1) [OF am] by (simp add: asm_started_def)
  then have fresh: "list_all (\<lambda>(i, sh). \<not> InShutdown sh) (instances (rm_Assembler ms))"
    using asm_add_fresh [of "(am, [])"] by (simp add: asm)
  have "om_Inbox (rm_Output ms) = om_Inbox om"
    by (simp add: out output_AddWorkers_def Let_def split: sum.split)
  moreover have "New Payload_zero (GetTagList (AppendCtxTag NSmOutput c)) (of_int (ro_MinOutQueue opts)) (ro_MinOutQueue opts) (ro_MaxOutQueue opts) = Inr (om_Inbox om)"
    using om by (auto simp: output_NewManager_def output_config_of_def Let_def split: option.splits sum.splits)
  ultimately have "ActiveWrite (om_Inbox (rm_Output ms)) < length (insts (om_Inbox (rm_Output ms)))"
    "Size (out_active ms) \<le> minimumSize (om_Inbox (rm_Output ms))"
    using New_skeleton q by (auto simp: out_active_def)
  then show ?thesis
    using receiver_counts [OF start] listeners_add_Some(3) [OF inp] proc_add_all [of "nat (ro_MinProcessors opts)" pm] cfg word l p n keys dl mn fresh
    by (simp add: at_minimum_def proc)
qed

text \<open>
  Apart from that, scaling keeps the numbers of workers within their bounds, and the listeners are
  judged by metrics that no listener records: their namespace has one more part than the one searched for.
\<close>

lemma scale_bounds:
  "unat (lc_Min (lm_Config lm)) \<le> length (lm_Instances lm) \<Longrightarrow> length (lm_Instances lm) \<le> unat (lc_Max (lm_Config lm)) \<Longrightarrow>
     unat (lc_Min (lm_Config lm)) \<le> length (lm_Instances (scaleListener reg interval clk port lm)) \<and>
     length (lm_Instances (scaleListener reg interval clk port lm)) \<le> unat (lc_Max (lm_Config lm))"
  "unat (pc_Min (pm_Config pm)) \<le> length (pm_Instances pm) \<Longrightarrow> length (pm_Instances pm) \<le> unat (pc_Max (pm_Config pm)) \<Longrightarrow>
     unat (pc_Min (pm_Config pm)) \<le> length (pm_Instances (scaleProcessor reg interval now mem pm)) \<and>
     length (pm_Instances (scaleProcessor reg interval now mem pm)) \<le> unat (pc_Max (pm_Config pm))"
  by (auto simp: scaleListener_def scaleProcessor_def Let_def listener_AddInstance_def listener_RemoveLastInstance_def
      processor_AddInstance_def processor_RemoveLastInstance_def listener_append_def processor_append_def cas_remove_quiet split_beta
      split: option.split)

lemma listener_metrics_elsewhere:
  assumes "numbered (AppendCtxTag NSmIngest (Some [NSRecv])) listener_tags ws" and "w \<in> set ws"
    and "m \<in> set (snd (listener_CollectMetrics interval t w))"
  shows "\<not> matchesNamespace (mt_Namespace m) [NSRecv, NSmIngest, decimal i]"
proof -
  obtain k where k: "mt_Namespace m = [NSRecv, NSmIngest, NSListen, decimal k]"
    using assms by (auto simp: in_set_conv_nth numbered_def listener_tags_def GetTagList_def AppendCtxTag_def
        listener_CollectMetrics_def Let_def)
  have "hd NSListen \<notin> set (decimal i)"
    using decimal_digits [of "hd NSListen" i] by (auto simp: NSListen_def bytes_of_string_def)
  moreover have "hd NSListen \<in> set NSListen"
    by (simp add: NSListen_def bytes_of_string_def)
  ultimately have "NSListen \<noteq> decimal i"
    by metis
  then show ?thesis
    by (simp add: k matchesNamespace_prefix)
qed

section \<open>Properties\<close>

text \<open>
  C5. Autoscaling never takes effect: whatever the load, the metrics and the clocks, from its start
  on a receiver keeps exactly the configured minimum of listeners, processors and assemblers and the minimal
  packet deadline, because every decision returns at once when its value is at the minimum, where it
  starts. (For at most 65,536 assemblers.)
\<close>

theorem receiver_never_scales:
  assumes "receiver_life env c opts ms"
    and n: "0 \<le> ro_MinDefrags opts" "ro_MinDefrags opts \<le> 65536"
    and l: "0 \<le> ro_MinListeners opts" "ro_MinListeners opts < 2 ^ 32"
    and p: "0 \<le> ro_MinProcessors opts" "ro_MinProcessors opts < 2 ^ 32"
    and q: "0 \<le> ro_MinOutQueue opts"
    and order: "\<And>xs. mset (se_order env xs) = mset xs"
  shows "length (lm_Instances (rm_Input ms)) = nat (ro_MinListeners opts) \<and>
    length (pm_Instances (rm_Proc ms)) = nat (ro_MinProcessors opts) \<and>
    length (instances (rm_Assembler ms)) = nat (ro_MinDefrags opts) \<and>
    PacketDeadline (rm_Assembler ms) = DefaultMinPacketDeadline"
proof -
  have "at_minimum opts ms"
    using assms(1)
  proof (induction rule: receiver_life.induct)
    case (started ms)
    then show ?case using start_at_minimum n l p q order by blast
  next
    case (scaled ms reg interval senv ms')
    then show ?case using scale_at_minimum [of opts ms senv reg interval] by simp
  qed (blast intro: listen_at_minimum collect_at_minimum)+
  then show ?thesis by (simp add: at_minimum_def)
qed

theorem receiver_never_scales_witness:
  "\<exists>ms. receiver_life open_env None (receiver_setDefaults example_prims 4 unset_opts) ms \<and>
     length (lm_Instances (rm_Input ms)) = 1 \<and> PacketDeadline (rm_Assembler ms) = DefaultMinPacketDeadline"
proof -
  let ?opts = "receiver_setDefaults example_prims 4 unset_opts"
  obtain ms where ms: "receiver_Start open_env True False None ?opts = Inr (Some ms)"
    using default_start [OF unset_opts_ok open_env_ok, of 4 None example_prims] by auto
  have o: "ro_MinDefrags ?opts = 1" "ro_MinListeners ?opts = 1" "ro_MinProcessors ?opts = 1" "ro_MinOutQueue ?opts = 2048"
    by (simp_all add: unset_opts_def clampMin_def orElse_def DefaultMinQueueSize_def)
  note life = receiver_life.started [OF ms]
  then show ?thesis
    using receiver_never_scales [OF life] o by (intro exI [of _ ms]) (simp add: open_env_def)
qed

end
