(* ===== verification/Sender_Daemon.thy ===== *)
theory Sender_Daemon
  imports Sender_Ingest Sender_Pipeline Receiver_Scaling
begin

text \<open>
  The sender as a whole: its options, the files included for its inputs and the defaults
  (\<^verbatim>\<open>internal/sender/config.go\<close>, \<^verbatim>\<open>types.go\<close>), the preparation and the start of the pipeline (\<^verbatim>\<open>new.go\<close>,
  \<^verbatim>\<open>runtime.go\<close>), its shutdown, the gatherer of metrics (\<^verbatim>\<open>internal/sender/metrics\<close>) and the scaler
  (\<^verbatim>\<open>internal/sender/scaling\<close>). Files, sockets, the number of processors and the parsed JSON are arguments.
\<close>

section \<open>Options\<close>

text \<open>The map of drop filters is an association list; a nil map is empty.\<close>

record JSONInputs =
  ji_Include :: bytes
  ji_DropFilters :: "(bytes \<times> MessageFilter list) list"
  ji_FilePaths :: "bytes list"
  ji_JournalEnabled :: bool
  ji_SendInternalLogs :: bool

record sender_Opts =
  so_SigningKeyFile :: bytes
  so_TransportSuite :: bytes
  so_SignatureSuite :: bytes
  so_BaseFile :: bytes
  so_SourceAddress :: bytes
  so_Address :: bytes
  so_Port :: int
  so_OverrideMaxPayloadSize :: int
  so_Inputs :: JSONInputs
  so_Interval :: int
  so_MaxAge :: int
  so_EnableQueryServer :: bool
  so_QueryServerPort :: int
  so_Enabled :: bool
  so_PollInterval :: int
  so_MinOutputs :: int
  so_MaxOutputs :: int
  so_MinAssemblers :: int
  so_MaxAssemblers :: int
  so_MinOutputQueueSize :: int
  so_MaxOutputQueueSize :: int
  so_MinAssemblerQueueSize :: int
  so_MaxAssemblerQueueSize :: int
  so_Throttling :: bool
  so_MinFragmentThreshold :: int
  so_PerFragmentDelay :: int

section \<open>Included inputs\<close>

definition JsonExt :: bytes where "JsonExt = bytes_of_string ''.json''"

text \<open>\<^verbatim>\<open>filepath.Ext\<close> of a name without slashes: from its last dot on.\<close>

definition filepath_Ext :: "bytes \<Rightarrow> bytes" where
  "filepath_Ext name = (if 46 \<in> set name then 46 # rev (takeWhile (\<lambda>b. b \<noteq> 46) (rev name)) else [])"

text \<open>New paths are appended unless they are there already.\<close>

definition merge_paths :: "bytes list \<Rightarrow> bytes list \<Rightarrow> bytes list" where
  "merge_paths old new = fold (\<lambda>p paths. if p \<in> set paths then paths else paths @ [p]) new old"

text \<open>
  The filters of one key: all new filters when the key is new, otherwise those whose JSON text is not among the
  ones there, where \<open>text\<close> is that text, None if it cannot be produced.
\<close>

fun add_filters :: "(MessageFilter \<Rightarrow> bytes option) \<Rightarrow> bytes set \<Rightarrow> MessageFilter list \<Rightarrow> MessageFilter list \<Rightarrow> MessageFilter list option" where
  "add_filters text seen [] old = Some old"
| "add_filters text seen (f # fs) old =
     (case text f of
        None \<Rightarrow> None
      | Some t \<Rightarrow> if t \<in> seen then add_filters text seen fs old else add_filters text (insert t seen) fs (old @ [f]))"

definition merge_key ::
  "(MessageFilter \<Rightarrow> bytes option) \<Rightarrow> bytes \<times> MessageFilter list \<Rightarrow> (bytes \<times> MessageFilter list) list \<Rightarrow> (bytes \<times> MessageFilter list) list option" where
  "merge_key text kf dropFilters =
     (case kf of (key, newFilters) \<Rightarrow>
      case map_of dropFilters key of
        None \<Rightarrow> Some (AList.update key newFilters dropFilters)
      | Some old \<Rightarrow>
          (case those (map text old) of
             None \<Rightarrow> None
           | Some ts \<Rightarrow> map_option (\<lambda>fs. AList.update key fs dropFilters) (add_filters text (set ts) newFilters old)))"

fun merge_filters ::
  "(MessageFilter \<Rightarrow> bytes option) \<Rightarrow> (bytes \<times> MessageFilter list) list \<Rightarrow> (bytes \<times> MessageFilter list) list \<Rightarrow> (bytes \<times> MessageFilter list) list option" where
  "merge_filters text [] dropFilters = Some dropFilters"
| "merge_filters text (kf # kfs) dropFilters =
     (case merge_key text kf dropFilters of None \<Rightarrow> None | Some d \<Rightarrow> merge_filters text kfs d)"

datatype include_error =
    UnreadableInclude | RecursiveInclude | FilterText | HiddenInclude | NotJson | StatFailed | NoDirectory | UnsupportedInclude

text \<open>The parsed file is an argument, None if it cannot be read or is no JSON of an input configuration.\<close>

definition mergeConfigInputs :: "(MessageFilter \<Rightarrow> bytes option) \<Rightarrow> JSONInputs option \<Rightarrow> JSONInputs \<Rightarrow> include_error + JSONInputs" where
  "mergeConfigInputs text file opts =
     (case file of
        None \<Rightarrow> Inl UnreadableInclude
      | Some newCfg \<Rightarrow>
          if ji_Include newCfg \<noteq> [] then Inl RecursiveInclude
          else
            let opts = (if ji_JournalEnabled newCfg then opts\<lparr>ji_JournalEnabled := True\<rparr> else opts);
                opts = opts\<lparr>ji_FilePaths := merge_paths (ji_FilePaths opts) (ji_FilePaths newCfg)\<rparr> in
            (case merge_filters text (ji_DropFilters newCfg) (ji_DropFilters opts) of
               None \<Rightarrow> Inl FilterText
             | Some d \<Rightarrow> Inr (opts\<lparr>ji_DropFilters := d\<rparr>)))"

text \<open>What is found at the path of the include directive; the entries of a directory with whether each is one itself.\<close>

datatype include_stat =
    IncMissing | IncStatError | IncFile "JSONInputs option" | IncDir "(bytes \<times> bool) list option" | IncOther

fun merge_files :: "(MessageFilter \<Rightarrow> bytes option) \<Rightarrow> (bytes \<Rightarrow> JSONInputs option) \<Rightarrow> bytes list \<Rightarrow> JSONInputs \<Rightarrow> include_error + JSONInputs" where
  "merge_files text file [] opts = Inr opts"
| "merge_files text file (name # names) opts =
     (if HasPrefix name [46] then merge_files text file names opts
      else if filepath_Ext name \<noteq> JsonExt then merge_files text file names opts
      else rbind (mergeConfigInputs text (file name) opts) (merge_files text file names))"

definition loadInputs ::
  "(MessageFilter \<Rightarrow> bytes option) \<Rightarrow> (bytes \<Rightarrow> JSONInputs option) \<Rightarrow> include_stat \<Rightarrow> JSONInputs \<Rightarrow> include_error + JSONInputs" where
  "loadInputs text file info opts =
     (if ji_Include opts = [] then Inr opts
      else (case info of
        IncMissing \<Rightarrow> Inr opts
      | IncStatError \<Rightarrow> Inl StatFailed
      | IncFile parsed \<Rightarrow>
          let name = filepath_Base (ji_Include opts) in
          if HasPrefix name [46] then Inl HiddenInclude
          else if filepath_Ext name \<noteq> JsonExt then Inl NotJson
          else mergeConfigInputs text parsed opts
      | IncDir None \<Rightarrow> Inl NoDirectory
      | IncDir (Some entries) \<Rightarrow>
          merge_files text file (map fst (filter (\<lambda>(name, isDir). \<not> isDir) (sort_key fst entries))) opts
      | IncOther \<Rightarrow> Inl UnsupportedInclude))"

section \<open>Defaults\<close>

definition DefaultStateFile :: bytes where "DefaultStateFile = bytes_of_string ''/var/cache/sdsyslog/last.state''"
definition ListenPortSender :: int where "ListenPortSender = 10000 + DefaultReceiverPort"
definition DefaultOutputThrottlingThreshold :: int where "DefaultOutputThrottlingThreshold = 25"
definition DefaultOutputThrottlingTime :: int where "DefaultOutputThrottlingTime = 50 * 1000"

definition sender_suites :: "crypto_prims \<Rightarrow> sender_Opts \<Rightarrow> sender_Opts" where
  "sender_suites P opts =
     (let opts = (if so_TransportSuite opts = []
                  then (case GetSuiteInfo P 1 of Some s \<Rightarrow> opts\<lparr>so_TransportSuite := si_Name s\<rparr> | None \<Rightarrow> opts) else opts) in
      if so_SignatureSuite opts = [] \<and> so_SigningKeyFile opts = []
      then (case GetSignatureInfo P 0 of Some s \<Rightarrow> opts\<lparr>so_SignatureSuite := sg_Name s\<rparr> | None \<Rightarrow> opts)
      else if so_SignatureSuite opts = [] \<and> so_SigningKeyFile opts \<noteq> []
      then (case GetSignatureInfo P 1 of Some s \<Rightarrow> opts\<lparr>so_SignatureSuite := sg_Name s\<rparr> | None \<Rightarrow> opts) else opts)"

definition sender_setDefaults :: "crypto_prims \<Rightarrow> int \<Rightarrow> sender_Opts \<Rightarrow> sender_Opts" where
  "sender_setDefaults P logicalCPUCount opts =
     (let opts = sender_suites P opts;
          poll = so_PollInterval opts;
          poll = (if poll < second then 100 * 1000000 else poll);
          poll = (if poll > 60 * second then 60 * second else poll) in
      opts\<lparr>so_PollInterval := poll,
         so_MaxAssemblers := orElse (so_MaxAssemblers opts) logicalCPUCount,
         so_MaxOutputs := orElse (so_MaxOutputs opts) logicalCPUCount,
         so_MaxOutputQueueSize := orElse (so_MaxOutputQueueSize opts) DefaultMaxQueueSize,
         so_MaxAssemblerQueueSize := orElse (so_MaxAssemblerQueueSize opts) DefaultMaxQueueSize,
         so_MinAssemblers := clampMin logicalCPUCount (so_MinAssemblers opts),
         so_MinOutputs := clampMin logicalCPUCount (so_MinOutputs opts),
         so_MinAssemblerQueueSize := orElse (so_MinAssemblerQueueSize opts) DefaultMinQueueSize,
         so_MinOutputQueueSize := orElse (so_MinOutputQueueSize opts) DefaultMinQueueSize,
         so_BaseFile := (if so_BaseFile opts = [] then DefaultStateFile else so_BaseFile opts),
         so_Port := orElse (so_Port opts) DefaultReceiverPort,
         so_MaxAge := orElse (so_MaxAge opts) (3600 * second),
         so_QueryServerPort := orElse (so_QueryServerPort opts) ListenPortSender,
         so_Interval := orElse (so_Interval opts) (15 * second),
         so_MinFragmentThreshold := orElse (so_MinFragmentThreshold opts) DefaultOutputThrottlingThreshold,
         so_PerFragmentDelay := orElse (so_PerFragmentDelay opts) DefaultOutputThrottlingTime\<rparr>)"

section \<open>Preparation\<close>

record sender_Config =
  sk_signingPrivateKey :: bytes
  sk_sourceSocket :: bytes
  sk_destSocket :: bytes

datatype sender_init_error =
    SBadSigningKeyFile
  | SBadInclude include_error
  | SUnsupportedInterval
  | SBadServerKey
  | SNoSigningKey
  | SBadSignatureName
  | SBadSigningKey
  | SBadDestination
  | SBadSource

text \<open>
  The key as read from its file, the included files, the parsed addresses and the local address towards the
  destination; None where the corresponding step fails.
\<close>

record sender_init_env =
  ie_signingKey :: "bytes option"
  ie_text :: "MessageFilter \<Rightarrow> bytes option"
  ie_file :: "bytes \<Rightarrow> JSONInputs option"
  ie_stat :: include_stat
  ie_cpu :: int
  ie_dest :: "bytes option"
  ie_source :: "bytes option"
  ie_local :: "bytes option"

definition sender_NewDaemon :: "ctx \<Rightarrow> ctx" where
  "sender_NewDaemon c = (if GetTagList c \<noteq> [NSSend] then AppendCtxTag NSSend c else c)"

definition orError :: "'e \<Rightarrow> 'a option \<Rightarrow> 'e + 'a" where
  "orError e x = (case x of None \<Rightarrow> Inl e | Some v \<Rightarrow> Inr v)"

text \<open>The key is checked against the configured suite before the signing function is set; no key sets nothing.\<close>

definition setup_signing :: "crypto_prims \<Rightarrow> bytes \<Rightarrow> bytes \<Rightarrow> wrappers \<Rightarrow> sender_init_error + wrappers" where
  "setup_signing P suiteName key W =
     (if length key = 0 then Inr W
      else
        rbind (orError SBadSignatureName (SignatureNameToID P suiteName)) (\<lambda>signatureSuiteID.
        rbind (orError SBadSignatureName (GetSignatureInfo P signatureSuiteID)) (\<lambda>info.
        case sg_ValidateKey info key of
          Inl _ \<Rightarrow> Inl SBadSigningKey
        | Inr _ \<Rightarrow> (case SetupCreateSignature W key of (W, Inl _) \<Rightarrow> Inl SBadSigningKey | (W, Inr _) \<Rightarrow> Inr W))))"

definition sender_Init ::
  "crypto_prims \<Rightarrow> sender_init_env \<Rightarrow> bytes \<Rightarrow> wrappers \<Rightarrow> sender_Opts \<Rightarrow> sender_init_error + sender_Opts \<times> sender_Config \<times> wrappers" where
  "sender_Init P env serverPub W opts =
     rbind (if so_SigningKeyFile opts \<noteq> [] then orError SBadSigningKeyFile (ie_signingKey env) else Inr []) (\<lambda>key.
     rbind (map_sum SBadInclude id (loadInputs (ie_text env) (ie_file env) (ie_stat env) (so_Inputs opts))) (\<lambda>inputs.
     rbind (ensure SUnsupportedInterval (VerifyWholeDuration (so_Interval opts))) (\<lambda>_.
     let opts = sender_setDefaults P (ie_cpu env) (opts\<lparr>so_Inputs := inputs\<rparr>) in
     case SetupEncryptInnerPayload W serverPub of
       (W, Inl _) \<Rightarrow> Inl SBadServerKey
     | (W, Inr _) \<Rightarrow>
     rbind (ensure SNoSigningKey (\<not> (so_SigningKeyFile opts = [] \<and> so_SignatureSuite opts \<noteq> NoSigName))) (\<lambda>_.
     rbind (setup_signing P (so_SignatureSuite opts) key W) (\<lambda>W.
     rbind (orError SBadDestination (ie_dest env)) (\<lambda>dest.
     rbind (orError SBadSource (if so_SourceAddress opts \<noteq> [] then ie_source env else ie_local env)) (\<lambda>source.
     Inr (opts, \<lparr>sk_signingPrivateKey = key, sk_sourceSocket = source, sk_destSocket = dest\<rparr>, W))))))))"

text \<open>
  A reload takes the file of the key from the configuration read again (None if that fails) and the suite
  from the running one. What could be decoded of the key comes with whether that was all of it; it is kept in
  the daemon even when it is then refused.
\<close>

definition sender_ReloadSigningKeys ::
  "crypto_prims \<Rightarrow> bytes option \<Rightarrow> bytes \<times> bool \<Rightarrow> sender_Opts \<Rightarrow> sender_Config \<times> wrappers \<Rightarrow> (sender_Config \<times> wrappers) \<times> nat option" where
  "sender_ReloadSigningKeys P newKeyFile loaded opts st =
     (case st of (cfg, W) \<Rightarrow>
      case newKeyFile of
        None \<Rightarrow> (st, None)
      | Some f \<Rightarrow>
          if f = [] then (st, Some 0)
          else (case loaded of (key, decoded) \<Rightarrow>
              let cfg = cfg\<lparr>sk_signingPrivateKey := key\<rparr> in
              if \<not> decoded then ((cfg, W), None)
              else (case setup_signing P (so_SignatureSuite opts) key W of
                      Inl _ \<Rightarrow> ((cfg, W), None)
                    | Inr W \<Rightarrow> ((cfg, W), Some 1))))"

section \<open>Shutdown\<close>

record sender_Mgrs =
  sg_Out :: "sout_Manager option"
  sg_Assem :: "sasm_Manager option"
  sg_In :: "ingest_Manager option"

datatype 'a ended = Ended 'a | Panicked

text \<open>The files are closed one by one; an entry that is nil already ends the program.\<close>

fun stop_files :: "(bytes \<Rightarrow> bool) \<Rightarrow> bytes list \<Rightarrow> ingest_Manager \<Rightarrow> ingest_Manager ended" where
  "stop_files closeOk [] m = Ended m"
| "stop_files closeOk (filename # names) m =
     (case RemoveFileInstance (closeOk filename) filename m of
        (m, RemovePanic) \<Rightarrow> Panicked
      | (m, _) \<Rightarrow> stop_files closeOk names m)"

text \<open>
  What goes on meanwhile: which files close, the readings of the two depths with their times, and what the workers
  make of the queues. The journal and the raw source stay in the manager after they are stopped.
\<close>

record sender_shutdown_env =
  sd_closeOk :: "bytes \<Rightarrow> bool"
  sd_asmWait :: "int \<times> (64 word \<times> int) list"
  sd_asmQueue :: "Message Queue \<Rightarrow> Message Queue"
  sd_logger :: bool
  sd_outWait :: "int \<times> (64 word \<times> int) list"
  sd_outQueue :: "bytes Queue \<Rightarrow> bytes Queue"

definition stop_ingest :: "(bytes \<Rightarrow> bool) \<Rightarrow> ingest_Manager option \<Rightarrow> ingest_Manager option ended" where
  "stop_ingest closeOk im =
     (case im of
        None \<Rightarrow> Ended None
      | Some m \<Rightarrow> (case stop_files closeOk (map fst (in_FileSources m)) m of Ended m \<Rightarrow> Ended (Some m) | Panicked \<Rightarrow> Panicked))"

definition stop_assemblers :: "sender_shutdown_env \<Rightarrow> sasm_Manager option \<Rightarrow> (sasm_Manager option \<times> (bool \<times> 64 word) list) option" where
  "stop_assemblers env am =
     (case am of
        None \<Rightarrow> Some (None, [])
      | Some m \<Rightarrow>
          map_option (\<lambda>(verdict, _). (Some (m\<lparr>sm_InQueue := sd_asmQueue env (resync (sm_InQueue m)),
              sm_Instances := stop_all (sm_Instances m)\<rparr>), [verdict]))
            (WaitUntilZero (fst (sd_asmWait env)) (10 * second) (snd (sd_asmWait env))))"

definition stop_outputs :: "sender_shutdown_env \<Rightarrow> sout_Manager option \<Rightarrow> (sout_Manager option \<times> (bool \<times> 64 word) list) option" where
  "stop_outputs env om =
     (case om of
        None \<Rightarrow> Some (None, [])
      | Some m \<Rightarrow>
          map_option (\<lambda>(verdict, _). (Some (m\<lparr>so_InQueue := sd_outQueue env (resync (so_InQueue m)),
              so_Instances := stop_all (so_Instances m)\<rparr>), [verdict]))
            (WaitUntilZero (fst (sd_outWait env)) (10 * second) (snd (sd_outWait env))))"

text \<open>None where a wait does not end. Without a logger the switch back to formatted output dereferences nil.\<close>

definition sender_Shutdown ::
  "sender_shutdown_env \<Rightarrow> sender_Opts \<Rightarrow> sender_Mgrs \<Rightarrow> (sender_Mgrs \<times> (bool \<times> 64 word) list) ended option" where
  "sender_Shutdown env opts ms =
     (case stop_ingest (sd_closeOk env) (sg_In ms) of
        Panicked \<Rightarrow> Some Panicked
      | Ended im \<Rightarrow>
      (case stop_assemblers env (sg_Assem ms) of
        None \<Rightarrow> None
      | Some (am, v1) \<Rightarrow>
          if ji_SendInternalLogs (so_Inputs opts) \<and> \<not> sd_logger env then Some Panicked
          else (case stop_outputs env (sg_Out ms) of
            None \<Rightarrow> None
          | Some (om, v2) \<Rightarrow> Some (Ended (\<lparr>sg_Out = om, sg_Assem = am, sg_In = im\<rparr>, v1 @ v2)))))"


section \<open>Start\<close>

datatype sstart_error =
    SNotInitialised
  | SOutError sout_error
  | SAssemError sasm_error
  | SInjectorError
  | SFileError add_error
  | SJournalError add_error
  | SRawError add_error
  | SServerError
  | SReadinessError
  | SNotifyError

text \<open>
  What the rest of the system answers: whether the socket opens, the path size, whether there is a logger,
  what is found for each file, for the journal and for the raw input (None if there is none), and whether the
  metric server and the notifications succeed; and the surroundings of a shutdown after an error.
\<close>

record sender_start_env =
  st_dialed :: bool
  st_pathSize :: "int option"
  st_tape :: tape
  st_logger :: bool
  st_files :: "nat \<Rightarrow> file_new_env"
  st_journal :: "bytes option \<times> bool \<times> bytes option \<times> bool"
  st_raw :: "bytes option option"
  st_serverBound :: bool
  st_parentTold :: bool
  st_notified :: bool
  st_shutdown :: sender_shutdown_env

definition sout_config_of :: "sender_Opts \<Rightarrow> sender_Config \<Rightarrow> sout_Config" where
  "sout_config_of opts cfg = \<lparr>oc2_MinQueue = so_MinOutputQueueSize opts, oc2_MaxQueue = so_MaxOutputQueueSize opts,
     oc2_Min = of_int (so_MinOutputs opts), oc2_Max = of_int (so_MaxOutputs opts),
     oc2_SourceAddress = Some (sk_sourceSocket cfg), oc2_DestAddress = Some (sk_destSocket cfg)\<rparr>"

definition sasm_config_of :: "sender_Opts \<Rightarrow> sender_Config \<Rightarrow> sasm_Config" where
  "sasm_config_of opts cfg = \<lparr>sc_MinQueue = so_MinAssemblerQueueSize opts, sc_MaxQueue = so_MaxAssemblerQueueSize opts,
     sc_Min = of_int (so_MinAssemblers opts), sc_Max = of_int (so_MaxAssemblers opts), sc_HostID = 0,
     sc_DestinationIP = sk_destSocket cfg, sc_OverrideMaxPayloadSize = so_OverrideMaxPayloadSize opts, sc_MaxPayloadSize = 0,
     sc_CryptoSuiteName = so_TransportSuite opts, sc_SigSuiteName = so_SignatureSuite opts, sc_cryptoSuiteID = 0, sc_sigSuiteID = 0,
     sc_ThrottlingEnabled = so_Throttling opts, sc_ThrottlingThreshold = so_MinFragmentThreshold opts,
     sc_ThrottlingTime = so_PerFragmentDelay opts\<rparr>"

definition sout_add :: "sout_Manager \<Rightarrow> sout_Manager" where "sout_add m = fst (sout_AddInstance [] m)"
definition sasm_add :: "sasm_Manager \<Rightarrow> sasm_Manager" where "sasm_add m = fst (sasm_AddInstance [] m)"

fun add_files :: "(nat \<Rightarrow> file_new_env) \<Rightarrow> nat \<Rightarrow> bytes list \<Rightarrow> ingest_Manager \<Rightarrow> ingest_Manager \<times> add_error option" where
  "add_files E i [] m = (m, None)"
| "add_files E i (filePath # paths) m =
     (case AddFileInstance (E i) filePath m of Inl e \<Rightarrow> (m, Some e) | Inr m \<Rightarrow> add_files E (i + 1) paths m)"

text \<open>The inputs in their order: files, journal, raw; the first error ends it.\<close>

definition add_inputs :: "sender_start_env \<Rightarrow> JSONInputs \<Rightarrow> ingest_Manager \<Rightarrow> ingest_Manager \<times> sstart_error option" where
  "add_inputs env inputs m =
     (case add_files (st_files env) 0 (ji_FilePaths inputs) m of
        (m, Some e) \<Rightarrow> (m, Some (SFileError e))
      | (m, None) \<Rightarrow>
      (case (if ji_JournalEnabled inputs
             then (case st_journal env of (saved, pipes, hostname, cmdOk) \<Rightarrow> AddJrnlInstance saved pipes hostname cmdOk m)
             else (m, None)) of
        (m, Some e) \<Rightarrow> (m, Some (SJournalError e))
      | (m, None) \<Rightarrow>
      (case (case st_raw env of Some hostname \<Rightarrow> AddRawInstance hostname m | None \<Rightarrow> (m, None)) of
        (m, Some e) \<Rightarrow> (m, Some (SRawError e))
      | (m, None) \<Rightarrow> (m, None))))"

datatype start_result = Started sender_Mgrs | DryRun | StartFailed sstart_error sender_Mgrs | StartPanicked

text \<open>An error after a shutdown.\<close>

definition start_abort :: "sender_start_env \<Rightarrow> sender_Opts \<Rightarrow> sstart_error \<Rightarrow> sender_Mgrs \<Rightarrow> start_result option" where
  "start_abort env opts e ms =
     map_option (\<lambda>r. case r of Panicked \<Rightarrow> StartPanicked | Ended (ms, _) \<Rightarrow> StartFailed e ms) (sender_Shutdown (st_shutdown env) opts ms)"

definition start_announced :: "sender_start_env \<Rightarrow> sender_Opts \<Rightarrow> sender_Mgrs \<Rightarrow> start_result option" where
  "start_announced env opts ms =
     (if so_EnableQueryServer opts \<and> \<not> st_serverBound env then start_abort env opts SServerError ms
      else if \<not> st_parentTold env then start_abort env opts SReadinessError ms
      else if \<not> st_notified env then start_abort env opts SNotifyError ms
      else Some (Started ms))"

text \<open>
  The start. Managers that cannot be created end it at once, later errors after a shutdown; None if that does not end.
\<close>

definition sender_Start ::
  "crypto_prims \<Rightarrow> sender_start_env \<Rightarrow> bool \<Rightarrow> bool \<Rightarrow> ctx \<Rightarrow> sender_Opts \<Rightarrow> sender_Config \<Rightarrow> start_result option" where
  "sender_Start P env initSuccess dryRun c opts cfg =
     (if \<not> initSuccess then Some (StartFailed SNotInitialised \<lparr>sg_Out = None, sg_Assem = None, sg_In = None\<rparr>)
      else if dryRun then Some DryRun
      else (case sout_NewManager (st_dialed env) c (sout_config_of opts cfg) of
        Inl e \<Rightarrow> Some (StartFailed (SOutError e) \<lparr>sg_Out = None, sg_Assem = None, sg_In = None\<rparr>)
      | Inr om \<Rightarrow>
      let om = (sout_add ^^ nat (so_MinOutputs opts)) om in
      (case sasm_NewManager P (st_pathSize env) (st_tape env) c (sasm_config_of opts cfg) of
        Inl e \<Rightarrow> Some (StartFailed (SAssemError e) \<lparr>sg_Out = Some om, sg_Assem = None, sg_In = None\<rparr>)
      | Inr (am, tp) \<Rightarrow>
      let am = (sasm_add ^^ nat (so_MinAssemblers opts)) am in
      if ji_SendInternalLogs (so_Inputs opts) \<and> NewSenderInjector True (st_logger env) c = None
      then start_abort env opts SInjectorError \<lparr>sg_Out = Some om, sg_Assem = Some am, sg_In = None\<rparr>
      else
        (case add_inputs env (so_Inputs opts) (ingest_NewManager c (ji_DropFilters (so_Inputs opts)) (sm_InQueue am)) of
          (im, Some (SFileError AddPanic)) \<Rightarrow> Some StartPanicked
        | (im, Some e) \<Rightarrow> start_abort env opts e \<lparr>sg_Out = Some om, sg_Assem = Some am, sg_In = Some im\<rparr>
        | (im, None) \<Rightarrow> start_announced env opts \<lparr>sg_Out = Some om, sg_Assem = Some am, sg_In = Some im\<rparr>))))"

section \<open>Gathering metrics\<close>

text \<open>A nil entry is left out; a source that could not be created ends the start, so none is collected from.\<close>

definition collect_source ::
  "(int \<Rightarrow> 'm \<Rightarrow> 'm \<times> Metric list) \<Rightarrow> int \<Rightarrow> 'm source \<Rightarrow> 'm source \<times> Metric list list" where
  "collect_source f t src = (case src of Source m \<Rightarrow> map_prod Source (\<lambda>l. [l]) (f t m) | _ \<Rightarrow> (src, []))"

definition collect_file :: "int \<Rightarrow> int \<Rightarrow> bytes \<times> file_In option \<Rightarrow> (bytes \<times> file_In option) \<times> Metric list list" where
  "collect_file interval t pf =
     (case pf of (p, None) \<Rightarrow> ((p, None), [])
      | (p, Some inst) \<Rightarrow> (case file_in_CollectMetrics interval t inst of (inst, l) \<Rightarrow> ((p, Some inst), [l])))"

definition sender_collect ::
  "int \<Rightarrow> (nat \<Rightarrow> nat \<Rightarrow> int) \<Rightarrow> ingest_Manager \<times> sasm_Manager \<times> sout_Manager \<Rightarrow>
   (ingest_Manager \<times> sasm_Manager \<times> sout_Manager) \<times> Metric list list" where
  "sender_collect interval clk ms =
     (case ms of (im, am, om) \<Rightarrow>
      let fs = map (\<lambda>(i, pf). collect_file interval (clk 0 i) pf) (enumerate 0 (in_FileSources im)) in
      case collect_source (journal_CollectMetrics interval) (clk 1 0) (in_JournalSource im) of (jrnl, m1) \<Rightarrow>
      case collect_source (generic_CollectMetrics interval) (clk 2 0) (in_RawSource im) of (raw, m2) \<Rightarrow>
      case CollectMetrics interval (clk 3 0) (sm_InQueue am) of (aq, m3) \<Rightarrow>
      case collect_each (sasm_CollectMetrics interval) (clk 4) (sm_Instances am) of (aws, m4) \<Rightarrow>
      case CollectMetrics interval (clk 5 0) (so_InQueue om) of (oq, m5) \<Rightarrow>
      case collect_each (sout_CollectMetrics interval) (clk 6) (so_Instances om) of (ows, m6) \<Rightarrow>
      ((im\<lparr>in_FileSources := map fst fs, in_JournalSource := jrnl, in_RawSource := raw\<rparr>,
        am\<lparr>sm_InQueue := aq, sm_Instances := aws\<rparr>, om\<lparr>so_InQueue := oq, so_Instances := ows\<rparr>),
       concat (map snd fs) @ m1 @ m2 @ [m3] @ m4 @ [m5] @ m6))"

definition sender_runIntervalTasks ::
  "int \<Rightarrow> int \<Rightarrow> (nat \<Rightarrow> nat \<Rightarrow> int) \<Rightarrow> Registry \<times> ingest_Manager \<times> sasm_Manager \<times> sout_Manager \<Rightarrow>
   Registry \<times> ingest_Manager \<times> sasm_Manager \<times> sout_Manager" where
  "sender_runIntervalTasks timeSlice interval clk st =
     (case st of (r, ms) \<Rightarrow> (case sender_collect interval clk ms of (ms, collections) \<Rightarrow>
        (fold (Registry_Add timeSlice) collections r, ms)))"

section \<open>Scaling\<close>

definition sender_scaleAssembler :: "Registry \<Rightarrow> int \<Rightarrow> int \<times> int \<Rightarrow> 64 word \<Rightarrow> sasm_Manager \<Rightarrow> sasm_Manager" where
  "sender_scaleAssembler reg interval now availMem m =
     (let n = length (sm_Instances m) in
      if n = unat (sc_Max (sm_Config m)) \<or> n = unat (sc_Min (sm_Config m)) then m
      else (case depth_decision reg interval now [NSRecv, NSmPack] (Size (insts (sm_InQueue m) ! ActiveWrite (sm_InQueue m))) of
              None \<Rightarrow> m
            | Some (scaleUp, scaleDown) \<Rightarrow>
                let m = (if scaleUp then fst (sasm_AddInstance [] m)
                         else if scaleDown then fst (sasm_RemoveLastInstance [] m)
                         else m) in
                m\<lparr>sm_InQueue := ScaleCapacity Message_zero availMem (sm_InQueue m)\<rparr>))"

definition sender_scaleOutput :: "Registry \<Rightarrow> int \<Rightarrow> int \<times> int \<Rightarrow> 64 word \<Rightarrow> sout_Manager \<Rightarrow> sout_Manager" where
  "sender_scaleOutput reg interval now availMem m =
     (let n = length (so_Instances m) in
      if n = unat (oc2_Max (so_Config m)) \<or> n = unat (oc2_Min (so_Config m)) then m
      else (case depth_decision reg interval now [NSRecv, NSmOutput] (Size (insts (so_InQueue m) ! ActiveWrite (so_InQueue m))) of
              None \<Rightarrow> m
            | Some (scaleUp, scaleDown) \<Rightarrow>
                let m = (if scaleUp then fst (sout_AddInstance [] m)
                         else if scaleDown then fst (sout_RemoveLastInstance [] m)
                         else m) in
                m\<lparr>so_InQueue := ScaleCapacity [] availMem (so_InQueue m)\<rparr>))"

definition sender_scale ::
  "Registry \<Rightarrow> int \<Rightarrow> (int \<times> int) \<times> 64 word \<Rightarrow> (int \<times> int) \<times> 64 word \<Rightarrow> ingest_Manager \<times> sasm_Manager \<times> sout_Manager \<Rightarrow>
   ingest_Manager \<times> sasm_Manager \<times> sout_Manager" where
  "sender_scale reg interval asmEnv outEnv ms =
     (case ms of (im, am, om) \<Rightarrow>
        (im, sender_scaleAssembler reg interval (fst asmEnv) (snd asmEnv) am,
         sender_scaleOutput reg interval (fst outEnv) (snd outEnv) om))"

section \<open>The started pipeline\<close>

lemma sout_add_all:
  "length (so_Instances ((sout_add ^^ n) m)) = length (so_Instances m) + n" "so_Config ((sout_add ^^ n) m) = so_Config m"
  "so_InQueue ((sout_add ^^ n) m) = so_InQueue m" "so_ctx ((sout_add ^^ n) m) = so_ctx m"
  "numbered (so_ctx m) sout_tags (so_Instances m) \<Longrightarrow> numbered (so_ctx m) sout_tags (so_Instances ((sout_add ^^ n) m))"
proof -
  have one: "so_Instances (sout_add x) = fst (sout_append (so_ctx x) (so_Instances x) [])" "so_Config (sout_add x) = so_Config x"
    "so_InQueue (sout_add x) = so_InQueue x" "so_ctx (sout_add x) = so_ctx x" for x
    by (simp_all add: sout_add_def sout_AddInstance_def split_beta)
  show c: "so_ctx ((sout_add ^^ n) m) = so_ctx m" by (induction n) (simp_all add: one)
  show "length (so_Instances ((sout_add ^^ n) m)) = length (so_Instances m) + n" "so_Config ((sout_add ^^ n) m) = so_Config m"
    "so_InQueue ((sout_add ^^ n) m) = so_InQueue m"
    by (induction n) (simp_all add: one sout_pool.length_add)
  show "numbered (so_ctx m) sout_tags (so_Instances m) \<Longrightarrow> numbered (so_ctx m) sout_tags (so_Instances ((sout_add ^^ n) m))"
  proof (induction n)
    case (Suc n)
    have "so_ctx ((sout_add ^^ n) m) = so_ctx m" by (induction n) (simp_all add: one)
    then show ?case using Suc by (simp add: one sout_pool.numbered_add)
  qed simp
qed

lemma sasm_add_all:
  "length (sm_Instances ((sasm_add ^^ n) m)) = length (sm_Instances m) + n" "sm_Config ((sasm_add ^^ n) m) = sm_Config m"
  "sm_InQueue ((sasm_add ^^ n) m) = sm_InQueue m" "sm_ctx ((sasm_add ^^ n) m) = sm_ctx m"
  "numbered (sm_ctx m) sasm_tags (sm_Instances m) \<Longrightarrow> numbered (sm_ctx m) sasm_tags (sm_Instances ((sasm_add ^^ n) m))"
proof -
  have one: "sm_Instances (sasm_add x) = fst (sasm_append (sm_ctx x) (sm_Instances x) [])" "sm_Config (sasm_add x) = sm_Config x"
    "sm_InQueue (sasm_add x) = sm_InQueue x" "sm_ctx (sasm_add x) = sm_ctx x" for x
    by (simp_all add: sasm_add_def sasm_AddInstance_def split_beta)
  show c: "sm_ctx ((sasm_add ^^ n) m) = sm_ctx m" by (induction n) (simp_all add: one)
  show "length (sm_Instances ((sasm_add ^^ n) m)) = length (sm_Instances m) + n" "sm_Config ((sasm_add ^^ n) m) = sm_Config m"
    "sm_InQueue ((sasm_add ^^ n) m) = sm_InQueue m"
    by (induction n) (simp_all add: one sasm_pool.length_add)
  show "numbered (sm_ctx m) sasm_tags (sm_Instances m) \<Longrightarrow> numbered (sm_ctx m) sasm_tags (sm_Instances ((sasm_add ^^ n) m))"
  proof (induction n)
    case (Suc n)
    have "sm_ctx ((sasm_add ^^ n) m) = sm_ctx m" by (induction n) (simp_all add: one)
    then show ?case using Suc by (simp add: one sasm_pool.numbered_add)
  qed simp
qed

text \<open>The file sources: one entry per path, none of them nil.\<close>

definition files_running :: "bytes set \<Rightarrow> ingest_Manager \<Rightarrow> bool" where
  "files_running paths m \<longleftrightarrow> fst ` set (in_FileSources m) = paths \<and> distinct (map fst (in_FileSources m)) \<and>
     None \<notin> snd ` set (in_FileSources m)"

lemma set_AList_update: "set (AList.update k v al) \<subseteq> insert (k, v) (set al)"
  by (induction al) auto

lemma AddFileInstance_running:
  assumes "AddFileInstance E p m = Inr m'" and "files_running paths m"
  shows "files_running (insert p paths) m' \<and> in_JournalSource m' = in_JournalSource m \<and> in_RawSource m' = in_RawSource m"
proof -
  from assms(1) obtain new where m': "m' = m\<lparr>in_FileSources := AList.update p (Some new) (in_FileSources m)\<rparr>"
    by (elim AddFileInstance_Inr) blast
  have "None \<notin> snd ` set (AList.update p (Some new) (in_FileSources m))"
    using set_AList_update [of p "Some new" "in_FileSources m"] assms(2) by (force simp: files_running_def)
  then show ?thesis
    using assms(2) by (simp add: m' files_running_def dom_update distinct_update)
qed

lemma add_files_running:
  assumes "add_files E i ps m = (m', None)" and "files_running paths m"
  shows "files_running (paths \<union> set ps) m' \<and> in_JournalSource m' = in_JournalSource m \<and> in_RawSource m' = in_RawSource m"
  using assms
proof (induction ps arbitrary: i m paths)
  case (Cons p ps)
  then obtain m1 where m1: "AddFileInstance (E i) p m = Inr m1" by (auto split: sum.splits)
  with Cons.prems Cons.IH [of "i + 1" m1 "insert p paths"] AddFileInstance_running [OF m1, of paths] show ?case
    by auto
qed simp

lemma files_running_other [simp]:
  "files_running paths (m\<lparr>in_JournalSource := j\<rparr>) = files_running paths m" "files_running paths (m\<lparr>in_RawSource := g\<rparr>) = files_running paths m"
  by (simp_all add: files_running_def)

lemma add_inputs_running:
  assumes "add_inputs env inputs m = (m', None)" and "files_running {} m" "in_JournalSource m = NoSource" "in_RawSource m = NoSource"
  shows "files_running (set (ji_FilePaths inputs)) m' \<and> (ji_JournalEnabled inputs \<longleftrightarrow> (\<exists>j. in_JournalSource m' = Source j)) \<and>
    (st_raw env \<noteq> None \<longleftrightarrow> (\<exists>g. in_RawSource m' = Source g))"
proof -
  obtain m1 where m1: "add_files (st_files env) 0 (ji_FilePaths inputs) m = (m1, None)"
    using assms(1) by (auto simp: add_inputs_def split: prod.splits option.splits)
  have r: "files_running (set (ji_FilePaths inputs)) m1" "in_JournalSource m1 = NoSource" "in_RawSource m1 = NoSource"
    using add_files_running [OF m1 assms(2)] assms(3,4) by simp_all
  show ?thesis
    using assms(1) m1 r
    by (auto simp: add_inputs_def AddJrnlInstance_def AddRawInstance_def Let_def
        split: prod.splits option.splits if_splits sum.splits)
qed

lemma sout_NewManager_Inr:
  assumes "sout_NewManager dialed c config = Inr om"
  shows "so_Config om = config" "so_Instances om = []" "so_ctx om = AppendCtxTag NSmOutput c"
  using assms by (auto simp: sout_NewManager_def Let_def split: option.splits if_splits sum.splits)

lemma sasm_NewManager_Inr:
  assumes "sasm_NewManager P pathSize tp c config = Inr (am, tp')"
  shows "sc_Min (sm_Config am) = sc_Min config" "sm_Instances am = []" "sm_ctx am = AppendCtxTag NSmPack c"
  using assms by (auto simp: sasm_NewManager_def Let_def split: option.splits if_splits sum.splits)

lemma start_abort_not_started: "start_abort env opts e ms \<noteq> Some (Started ms')"
  by (auto simp: start_abort_def split: ended.splits)

text \<open>Every start that succeeds went through all the steps.\<close>

lemma sender_StartedE:
  assumes "sender_Start P env True False c opts cfg = Some (Started ms)"
  obtains om am tp im where "sout_NewManager (st_dialed env) c (sout_config_of opts cfg) = Inr om"
    and "sasm_NewManager P (st_pathSize env) (st_tape env) c (sasm_config_of opts cfg) = Inr (am, tp)"
    and "add_inputs env (so_Inputs opts) (ingest_NewManager c (ji_DropFilters (so_Inputs opts)) (sm_InQueue am)) = (im, None)"
    and "ms = \<lparr>sg_Out = Some ((sout_add ^^ nat (so_MinOutputs opts)) om), sg_Assem = Some ((sasm_add ^^ nat (so_MinAssemblers opts)) am),
               sg_In = Some im\<rparr>"
proof -
  obtain om where om: "sout_NewManager (st_dialed env) c (sout_config_of opts cfg) = Inr om"
    using assms by (auto simp: sender_Start_def Let_def split: sum.splits)
  obtain am tp where am: "sasm_NewManager P (st_pathSize env) (st_tape env) c (sasm_config_of opts cfg) = Inr (am, tp)"
    using assms om by (auto simp: sender_Start_def Let_def split: sum.splits)
  let ?ms = "\<lambda>im. \<lparr>sg_Out = Some ((sout_add ^^ nat (so_MinOutputs opts)) om), sg_Assem = Some ((sasm_add ^^ nat (so_MinAssemblers opts)) am),
               sg_In = Some im\<rparr>"
  obtain im r where im: "add_inputs env (so_Inputs opts) (ingest_NewManager c (ji_DropFilters (so_Inputs opts)) (sm_InQueue am)) = (im, r)"
    by fastforce
  have r: "r = None" and ms: "start_announced env opts (?ms im) = Some (Started ms)"
    using assms om am im start_abort_not_started
    by (auto simp: sender_Start_def Let_def sasm_add_all(3) split: if_splits option.splits sstart_error.splits add_error.splits)
  have "ms = ?ms im" using ms start_abort_not_started by (auto simp: start_announced_def split: if_splits)
  then show thesis using that om am im r by blast
qed

section \<open>An example\<close>

text \<open>Defaults, four processors, one file; everything opens.\<close>

definition no_inputs :: JSONInputs where
  "no_inputs = \<lparr>ji_Include = [], ji_DropFilters = [], ji_FilePaths = [], ji_JournalEnabled = False, ji_SendInternalLogs = False\<rparr>"

definition unset_sender :: sender_Opts where
  "unset_sender = \<lparr>so_SigningKeyFile = [], so_TransportSuite = [], so_SignatureSuite = [], so_BaseFile = [], so_SourceAddress = [],
     so_Address = [], so_Port = 0, so_OverrideMaxPayloadSize = 0, so_Inputs = no_inputs\<lparr>ji_FilePaths := [[47, 97]]\<rparr>, so_Interval = second,
     so_MaxAge = 0, so_EnableQueryServer = False, so_QueryServerPort = 0, so_Enabled = True, so_PollInterval = 0, so_MinOutputs = 0,
     so_MaxOutputs = 0, so_MinAssemblers = 0, so_MaxAssemblers = 0, so_MinOutputQueueSize = 0, so_MaxOutputQueueSize = 0,
     so_MinAssemblerQueueSize = 0, so_MaxAssemblerQueueSize = 0, so_Throttling = False, so_MinFragmentThreshold = 0, so_PerFragmentDelay = 0\<rparr>"

definition example_config :: sender_Config where
  "example_config = \<lparr>sk_signingPrivateKey = [], sk_sourceSocket = [49], sk_destSocket = [50]\<rparr>"

definition quiet_sender :: sender_shutdown_env where
  "quiet_sender = \<lparr>sd_closeOk = (\<lambda>_. True), sd_asmWait = (0, [(0, 1), (0, 2), (0, 3)]), sd_asmQueue = id, sd_logger = True,
     sd_outWait = (0, [(0, 1), (0, 2), (0, 3)]), sd_outQueue = id\<rparr>"

definition sender_world :: sender_start_env where
  "sender_world = \<lparr>st_dialed = True, st_pathSize = Some 1400, st_tape = [0, 0, 0, 2], st_logger = True, st_files = (\<lambda>_. example_new []),
     st_journal = (None, False, None, False), st_raw = None, st_serverBound = True, st_parentTold = True, st_notified = True,
     st_shutdown = quiet_sender\<rparr>"

definition ready_sender :: sender_Opts where "ready_sender = sender_setDefaults example_prims 4 unset_sender"

lemma suite_names:
  "SuiteNameToID P (si_Name (cryptoSuite1 P)) = Some 1" "SignatureNameToID P NoSigName = Some 0"
  "SignatureNameToID P (sg_Name (signatureSuite1 P)) = Some 1"
proof -
  have u: "[0..<256 :: nat] = 0 # 1 # [2..<256]" by (simp add: upt_rec)
  show "SuiteNameToID P (si_Name (cryptoSuite1 P)) = Some 1" "SignatureNameToID P NoSigName = Some 0"
    "SignatureNameToID P (sg_Name (signatureSuite1 P)) = Some 1"
    unfolding SuiteNameToID_def SignatureNameToID_def u
    by (simp_all add: registry_defs bytes_of_string_def NoSigName_def DefaultCryptoName_def)
qed

lemma ready_sender_fields:
  "so_MinOutputs ready_sender = 1" "so_MaxOutputs ready_sender = 4" "so_MinAssemblers ready_sender = 1" "so_MaxAssemblers ready_sender = 4"
  "so_MinOutputQueueSize ready_sender = 2048" "so_MaxOutputQueueSize ready_sender = 8192"
  "so_MinAssemblerQueueSize ready_sender = 2048" "so_MaxAssemblerQueueSize ready_sender = 8192"
  "so_TransportSuite ready_sender = si_Name (cryptoSuite1 example_prims)" "so_SignatureSuite ready_sender = NoSigName"
  "so_Throttling ready_sender = False" "so_OverrideMaxPayloadSize ready_sender = 0" "so_Inputs ready_sender = so_Inputs unset_sender"
  "so_EnableQueryServer ready_sender = False"
  by (simp_all add: ready_sender_def sender_setDefaults_def sender_suites_def unset_sender_def Let_def orElse_def clampMin_def default_values
      registry_defs)

lemma example_managers:
  obtains om am tp where "sout_NewManager True c (sout_config_of ready_sender example_config) = Inr om"
    and "sasm_NewManager example_prims (Some 1400) [0, 0, 0, 2] c (sasm_config_of ready_sender example_config) = Inr (am, tp)"
proof -
  have "sout_validate (sout_config_of ready_sender example_config) = None"
    by (simp add: sout_validate_def sout_config_of_def ready_sender_fields Let_def word_le_nat_alt)
  then obtain om where om: "sout_NewManager True c (sout_config_of ready_sender example_config) = Inr om"
    using New_2048 [of "[] :: bytes" "GetTagList (AppendCtxTag NSmOutput c)" 2048 8192]
    by (auto simp: sout_NewManager_def sout_config_of_def ready_sender_fields Let_def)
  have four: "FourByte [0, 0, 0, 2] = Inr (2, [])" by (simp add: FourByte_def rand_Read_def be_val_def)
  have "sasm_validate ((sasm_config_of ready_sender example_config)\<lparr>sc_HostID := 2, sc_MaxPayloadSize := 1400\<rparr>) = None"
    by (simp add: sasm_validate_def sasm_config_of_def ready_sender_fields example_config_def Let_def registry_defs
        NoSigName_def DefaultCryptoName_def bytes_of_string_def word_le_nat_alt)
  then obtain am tp where "sasm_NewManager example_prims (Some 1400) [0, 0, 0, 2] c (sasm_config_of ready_sender example_config) = Inr (am, tp)"
    using New_2048 [of Message_zero "GetTagList (AppendCtxTag NSmPack c)" 2048 8192] suite_names
    by (auto simp: sasm_NewManager_def sasm_config_of_def four ready_sender_fields Let_def)
  with om that show thesis by blast
qed

lemma example_started: "\<exists>ms. sender_Start example_prims sender_world True False c ready_sender example_config = Some (Started ms)"
proof -
  obtain om am tp where m: "sout_NewManager True c (sout_config_of ready_sender example_config) = Inr om"
    "sasm_NewManager example_prims (Some 1400) [0, 0, 0, 2] c (sasm_config_of ready_sender example_config) = Inr (am, tp)"
    by (rule example_managers)
  have "\<exists>im. add_inputs sender_world (so_Inputs ready_sender) (ingest_NewManager c fs q) = (im, None)" if "fs = []" for fs q
    using that by (simp add: add_inputs_def sender_world_def ready_sender_fields unset_sender_def no_inputs_def AddFileInstance_def Let_def
        ingest_NewManager_def file_NewInput_def example_new_def file_getLastPosition_def filters_of_def)
  then obtain im where "add_inputs sender_world (so_Inputs ready_sender)
      (ingest_NewManager c (ji_DropFilters (so_Inputs ready_sender)) (sm_InQueue am)) = (im, None)"
    by (force simp: ready_sender_fields unset_sender_def no_inputs_def)
  then show ?thesis
    using m by (simp add: sender_Start_def sender_world_def start_announced_def sasm_add_all(3) Let_def)
      (simp add: ready_sender_fields unset_sender_def no_inputs_def)
qed

section \<open>Shutdown ends\<close>

lemma stop_files_ends:
  assumes "distinct names" and "\<And>p. p \<in> set names \<Longrightarrow> closeOk p \<and> (\<exists>f. map_of (in_FileSources m) p = Some (Some f))"
  shows "\<exists>m'. stop_files closeOk names m = Ended m' \<and> (\<forall>p \<in> set names. map_of (in_FileSources m') p = Some None) \<and>
    (\<forall>p. p \<notin> set names \<longrightarrow> map_of (in_FileSources m') p = map_of (in_FileSources m) p) \<and>
    map fst (in_FileSources m') = map fst (in_FileSources m)"
  using assms
proof (induction names arbitrary: m)
  case (Cons p names)
  let ?m = "m\<lparr>in_FileSources := AList.update p None (in_FileSources m)\<rparr>"
  obtain f where f: "map_of (in_FileSources m) p = Some (Some f)" "closeOk p" using Cons.prems(2) by force
  then have r: "RemoveFileInstance (closeOk p) p m = (?m, Removed)" by (simp add: RemoveFileInstance_def)
  have "p \<in> fst ` set (in_FileSources m)" using f(1) by (metis map_of_eq_None_iff option.distinct(1))
  then have k: "map fst (AList.update p None (in_FileSources m)) = map fst (in_FileSources m)"
    by (simp add: update_keys)
  have "\<exists>f. map_of (in_FileSources ?m) q = Some (Some f)" if "q \<in> set names" for q
    using Cons.prems that by (auto simp: update_conv')
  with Cons.IH [of ?m] Cons.prems obtain m' where "stop_files closeOk names ?m = Ended m'"
    "\<forall>q \<in> set names. map_of (in_FileSources m') q = Some None"
    "\<forall>q. q \<notin> set names \<longrightarrow> map_of (in_FileSources m') q = map_of (in_FileSources ?m) q"
    "map fst (in_FileSources m') = map fst (in_FileSources ?m)" by auto
  then show ?case using r k Cons.prems(1) by (intro exI [of _ m']) (auto simp: update_conv')
qed simp

lemma stop_ingest_ends:
  assumes "files_running paths im" and "\<And>p. p \<in> paths \<Longrightarrow> closeOk p"
  shows "\<exists>im'. stop_ingest closeOk (Some im) = Ended (Some im') \<and> (\<forall>p \<in> paths. map_of (in_FileSources im') p = Some None) \<and>
    fst ` set (in_FileSources im') = paths"
proof -
  have "\<exists>f. map_of (in_FileSources im) p = Some (Some f)" if mem: "p \<in> fst ` set (in_FileSources im)" for p
  proof -
    obtain v where "map_of (in_FileSources im) p = Some v" using mem by (cases "map_of (in_FileSources im) p") (simp_all add: map_of_eq_None_iff)
    moreover have "v \<noteq> None" using map_of_SomeD [OF calculation] assms(1) unfolding files_running_def by (metis image_eqI snd_conv)
    ultimately show ?thesis by auto
  qed
  then obtain im' where im': "stop_files closeOk (map fst (in_FileSources im)) im = Ended im'"
    "\<forall>p \<in> set (map fst (in_FileSources im)). map_of (in_FileSources im') p = Some None" "map fst (in_FileSources im') = map fst (in_FileSources im)"
    using stop_files_ends [of "map fst (in_FileSources im)" closeOk im] assms by (auto simp: files_running_def)
  have paths: "set (map fst (in_FileSources im)) = paths" using assms(1) by (simp add: files_running_def)
  have "fst ` set (in_FileSources im') = paths" using arg_cong [OF im'(3), of set] paths by simp
  then show ?thesis using im'(1) im'(2) [unfolded paths] by (intro exI [of _ im']) (simp add: stop_ingest_def)
qed

section \<open>Properties\<close>

text \<open>
  A sender that has started runs exactly the configured minimum of output and assembler workers, no two of a kind under
  one namespace, and every configured input: one module for each path of a file, the journal exactly when it is enabled, and the raw input when there is one.
\<close>

theorem sender_starts_at_minimum:
  assumes "sender_Start P env True False c opts cfg = Some (Started ms)"
  shows "\<exists>om am im. ms = \<lparr>sg_Out = Some om, sg_Assem = Some am, sg_In = Some im\<rparr> \<and>
    length (so_Instances om) = nat (so_MinOutputs opts) \<and> length (sm_Instances am) = nat (so_MinAssemblers opts) \<and>
    distinct (map (GetTagList \<circ> wk_ctx) (so_Instances om)) \<and> distinct (map (GetTagList \<circ> wk_ctx) (sm_Instances am)) \<and>
    files_running (set (ji_FilePaths (so_Inputs opts))) im \<and>
    (ji_JournalEnabled (so_Inputs opts) \<longleftrightarrow> (\<exists>j. in_JournalSource im = Source j)) \<and>
    (st_raw env \<noteq> None \<longleftrightarrow> (\<exists>g. in_RawSource im = Source g))"
  using assms
proof (rule sender_StartedE)
  fix om am tp im
  assume om: "sout_NewManager (st_dialed env) c (sout_config_of opts cfg) = Inr om"
    and am: "sasm_NewManager P (st_pathSize env) (st_tape env) c (sasm_config_of opts cfg) = Inr (am, tp)"
    and im: "add_inputs env (so_Inputs opts) (ingest_NewManager c (ji_DropFilters (so_Inputs opts)) (sm_InQueue am)) = (im, None)"
    and ms: "ms = \<lparr>sg_Out = Some ((sout_add ^^ nat (so_MinOutputs opts)) om), sg_Assem = Some ((sasm_add ^^ nat (so_MinAssemblers opts)) am),
               sg_In = Some im\<rparr>"
  have "files_running (set (ji_FilePaths (so_Inputs opts))) im" "ji_JournalEnabled (so_Inputs opts) \<longleftrightarrow> (\<exists>j. in_JournalSource im = Source j)"
    "st_raw env \<noteq> None \<longleftrightarrow> (\<exists>g. in_RawSource im = Source g)"
    using add_inputs_running [OF im] by (simp_all add: ingest_NewManager_def files_running_def)
  moreover have "distinct (map (GetTagList \<circ> wk_ctx) (so_Instances ((sout_add ^^ nat (so_MinOutputs opts)) om)))"
    by (rule sout_pool.numbered_distinct [OF sout_add_all(5)]) (simp add: numbered_def sout_NewManager_Inr [OF om])
  moreover have "distinct (map (GetTagList \<circ> wk_ctx) (sm_Instances ((sasm_add ^^ nat (so_MinAssemblers opts)) am)))"
    by (rule sasm_pool.numbered_distinct [OF sasm_add_all(5)]) (simp add: numbered_def sasm_NewManager_Inr [OF am])
  ultimately show ?thesis
    using ms sout_NewManager_Inr [OF om] sasm_NewManager_Inr [OF am] by (simp add: sout_add_all sasm_add_all)
qed


theorem sender_starts_at_minimum_witness:
  "\<exists>ms om am im. sender_Start example_prims sender_world True False None ready_sender example_config = Some (Started ms) \<and>
    ms = \<lparr>sg_Out = Some om, sg_Assem = Some am, sg_In = Some im\<rparr> \<and> length (so_Instances om) = 1 \<and> files_running {[47, 97]} im"
proof -
  obtain ms where ms: "sender_Start example_prims sender_world True False None ready_sender example_config = Some (Started ms)"
    using example_started by blast
  from sender_starts_at_minimum [OF ms] show ?thesis
    using ms by (auto simp: ready_sender_fields unset_sender_def no_inputs_def)
qed

text \<open>
  C29. The shutdown of a sender comes to an end once its two waits do: no assembler or output worker is left and every
  file is closed. It cannot be repeated: the closed files stay in the map as nil, and a second shutdown of a sender with a file
  dereferences them.
\<close>

theorem sender_shutdown_ends:
  assumes "sender_Start P env True False c opts cfg = Some (Started ms)"
    and "WaitUntilZero (fst (sd_asmWait senv)) (10 * second) (snd (sd_asmWait senv)) = Some (asmWait, sleeps1)"
    and "WaitUntilZero (fst (sd_outWait senv)) (10 * second) (snd (sd_outWait senv)) = Some (outWait, sleeps2)"
    and "\<And>p. sd_closeOk senv p" and "sd_logger senv"
  shows "\<exists>ms' om am im. sender_Shutdown senv opts ms = Some (Ended (ms', [asmWait, outWait])) \<and>
    ms' = \<lparr>sg_Out = Some om, sg_Assem = Some am, sg_In = Some im\<rparr> \<and> so_Instances om = [] \<and> sm_Instances am = [] \<and>
    (\<forall>p \<in> set (ji_FilePaths (so_Inputs opts)). map_of (in_FileSources im) p = Some None) \<and>
    (ji_FilePaths (so_Inputs opts) \<noteq> [] \<longrightarrow> sender_Shutdown senv' opts ms' = Some Panicked)"
  using assms(1)
proof (rule sender_StartedE)
  fix om am tp im0
  assume im0: "add_inputs env (so_Inputs opts) (ingest_NewManager c (ji_DropFilters (so_Inputs opts)) (sm_InQueue am)) = (im0, None)"
    and ms: "ms = \<lparr>sg_Out = Some ((sout_add ^^ nat (so_MinOutputs opts)) om), sg_Assem = Some ((sasm_add ^^ nat (so_MinAssemblers opts)) am),
               sg_In = Some im0\<rparr>"
  let ?ps = "set (ji_FilePaths (so_Inputs opts))"
  have "files_running ?ps im0" using add_inputs_running [OF im0] by (simp add: ingest_NewManager_def files_running_def)
  then obtain im where im: "stop_ingest (sd_closeOk senv) (Some im0) = Ended (Some im)" "\<forall>p \<in> ?ps. map_of (in_FileSources im) p = Some None"
    "fst ` set (in_FileSources im) = ?ps" using stop_ingest_ends assms(4) by blast
  have "stop_ingest closeOk (Some im) = Panicked" if some: "ji_FilePaths (so_Inputs opts) \<noteq> []" for closeOk
  proof -
    obtain p v fs where "in_FileSources im = (p, v) # fs" using some im(3) by (cases "in_FileSources im") auto
    moreover have "v = None" using im(2,3) calculation by force
    ultimately show ?thesis by (simp add: stop_ingest_def RemoveFileInstance_def)
  qed
  then show ?thesis
    using assms(2-5) im by (simp add: sender_Shutdown_def ms stop_assemblers_def stop_outputs_def stop_all_none)
qed

theorem sender_shutdown_ends_witness:
  "\<exists>ms ms'. sender_Start example_prims sender_world True False None ready_sender example_config = Some (Started ms) \<and>
    sender_Shutdown quiet_sender ready_sender ms = Some (Ended (ms', [(True, 0), (True, 0)])) \<and>
    sender_Shutdown quiet_sender ready_sender ms' = Some Panicked"
proof -
  obtain ms where ms: "sender_Start example_prims sender_world True False None ready_sender example_config = Some (Started ms)"
    using example_started by blast
  have w: "WaitUntilZero 0 (10 * second) [(0, 1), (0, 2), (0, 3)] = Some ((True, 0), [50000000, 100000000])"
    by (simp add: WaitUntilZero_def maxBackoff_def)
  from sender_shutdown_ends [OF ms, of quiet_sender _ _ _ _ quiet_sender] w ms show ?thesis
    by (fastforce simp: quiet_sender_def ready_sender_fields unset_sender_def no_inputs_def)
qed


text \<open>
  A start that fails half-way leaves workers behind: when the assemblers cannot be set up, for instance because the size of
  packets for the destination cannot be found, the output workers that were started before go on running, although an
  error during the start is documented to shut down what was started.
\<close>

theorem failed_start_leaves_workers:
  assumes "sout_NewManager (st_dialed env) c (sout_config_of opts cfg) = Inr om"
    and "sasm_NewManager P (st_pathSize env) (st_tape env) c (sasm_config_of opts cfg) = Inl e"
  shows "\<exists>om'. sender_Start P env True False c opts cfg = Some (StartFailed (SAssemError e) \<lparr>sg_Out = Some om', sg_Assem = None, sg_In = None\<rparr>) \<and>
    length (so_Instances om') = nat (so_MinOutputs opts)"
  using assms sout_NewManager_Inr [OF assms(1)] by (simp add: sender_Start_def Let_def sout_add_all)

theorem failed_start_leaves_workers_witness:
  "\<exists>om. sender_Start example_prims (sender_world\<lparr>st_pathSize := None\<rparr>) True False None ready_sender example_config =
      Some (StartFailed (SAssemError SNoPathSize) \<lparr>sg_Out = Some om, sg_Assem = None, sg_In = None\<rparr>) \<and> length (so_Instances om) = 1"
proof -
  obtain om am tp where om: "sout_NewManager True None (sout_config_of ready_sender example_config) = Inr om"
    by (rule example_managers)
  have "FourByte [0, 0, 0, 2] = Inr (2, [])" by (simp add: FourByte_def rand_Read_def be_val_def)
  then show ?thesis
    using failed_start_leaves_workers [of "sender_world\<lparr>st_pathSize := None\<rparr>" None ready_sender example_config om example_prims SNoPathSize] om
    by (simp add: sender_world_def sasm_NewManager_def ready_sender_fields)
qed

section \<open>The life of a sender\<close>

text \<open>
  From its start on, messages pass through the queues (whatever the workers make of them), metrics are gathered and the scaler runs
  with whatever the registry and the clocks say.
\<close>

inductive sender_life ::
  "crypto_prims \<Rightarrow> sender_start_env \<Rightarrow> ctx \<Rightarrow> sender_Opts \<Rightarrow> sender_Config \<Rightarrow> ingest_Manager \<times> sasm_Manager \<times> sout_Manager \<Rightarrow> bool"
  for P env c opts cfg where
  started: "sender_Start P env True False c opts cfg = Some (Started \<lparr>sg_Out = Some om, sg_Assem = Some am, sg_In = Some im\<rparr>) \<Longrightarrow>
    sender_life P env c opts cfg (im, am, om)"
| passed: "sender_life P env c opts cfg (im, am, om) \<Longrightarrow> sender_life P env c opts cfg (im, am\<lparr>sm_InQueue := q\<rparr>, om\<lparr>so_InQueue := q'\<rparr>)"
| gathered: "sender_life P env c opts cfg ms \<Longrightarrow> sender_life P env c opts cfg (fst (sender_collect interval clk ms))"
| scaled: "sender_life P env c opts cfg ms \<Longrightarrow> sender_life P env c opts cfg (sender_scale reg interval asmEnv outEnv ms)"

definition sender_at_minimum :: "sender_Opts \<Rightarrow> ingest_Manager \<times> sasm_Manager \<times> sout_Manager \<Rightarrow> bool" where
  "sender_at_minimum opts ms \<longleftrightarrow> (case ms of (im, am, om) \<Rightarrow>
     length (sm_Instances am) = nat (so_MinAssemblers opts) \<and> length (sm_Instances am) = unat (sc_Min (sm_Config am)) \<and>
     length (so_Instances om) = nat (so_MinOutputs opts) \<and> length (so_Instances om) = unat (oc2_Min (so_Config om)))"

lemma sender_scale_at_minimum: "sender_at_minimum opts ms \<Longrightarrow> sender_scale reg interval asmEnv outEnv ms = ms"
  by (auto simp: sender_at_minimum_def sender_scale_def sender_scaleAssembler_def sender_scaleOutput_def Let_def)

lemma sender_collect_at_minimum: "sender_at_minimum opts ms \<Longrightarrow> sender_at_minimum opts (fst (sender_collect interval clk ms))"
  by (simp add: sender_at_minimum_def sender_collect_def Let_def split_beta collect_each_length)

lemma started_at_minimum:
  assumes "sender_Start P env True False c opts cfg = Some (Started \<lparr>sg_Out = Some om, sg_Assem = Some am, sg_In = Some im\<rparr>)"
    and "0 \<le> so_MinAssemblers opts" "so_MinAssemblers opts < 2 ^ 32" "0 \<le> so_MinOutputs opts" "so_MinOutputs opts < 2 ^ 32"
  shows "sender_at_minimum opts (im, am, om)"
  using assms(1)
proof (rule sender_StartedE)
  fix om0 am0 tp im0
  assume m: "sout_NewManager (st_dialed env) c (sout_config_of opts cfg) = Inr om0"
    "sasm_NewManager P (st_pathSize env) (st_tape env) c (sasm_config_of opts cfg) = Inr (am0, tp)"
    and e: "\<lparr>sg_Out = Some om, sg_Assem = Some am, sg_In = Some im\<rparr> =
      \<lparr>sg_Out = Some ((sout_add ^^ nat (so_MinOutputs opts)) om0), sg_Assem = Some ((sasm_add ^^ nat (so_MinAssemblers opts)) am0), sg_In = Some im0\<rparr>"
  have u: "unat (of_int n :: 32 word) = nat n" if "0 \<le> n" "n < 2 ^ 32" for n :: int
    using that by (simp add: unsigned_of_int take_bit_int_eq_self)
  have "om = (sout_add ^^ nat (so_MinOutputs opts)) om0" "am = (sasm_add ^^ nat (so_MinAssemblers opts)) am0" using e by simp_all
  then have "length (so_Instances om) = nat (so_MinOutputs opts)" "oc2_Min (so_Config om) = of_int (so_MinOutputs opts)"
    "length (sm_Instances am) = nat (so_MinAssemblers opts)" "sc_Min (sm_Config am) = of_int (so_MinAssemblers opts)"
    using sout_NewManager_Inr [OF m(1)] sasm_NewManager_Inr [OF m(2)]
    by (simp_all add: sout_add_all sasm_add_all sout_config_of_def sasm_config_of_def)
  then show ?thesis using u assms(2-) by (simp add: sender_at_minimum_def)
qed

text \<open>
  The sender never scales either: from its start on, whatever the metrics say, it keeps exactly the configured minimum of
  assembler and output workers, since both decisions return at once when the number is at its minimum.
\<close>

theorem sender_never_scales:
  assumes "sender_life P env c opts cfg (im, am, om)"
    and "0 \<le> so_MinAssemblers opts" "so_MinAssemblers opts < 2 ^ 32" "0 \<le> so_MinOutputs opts" "so_MinOutputs opts < 2 ^ 32"
  shows "length (sm_Instances am) = nat (so_MinAssemblers opts) \<and> length (so_Instances om) = nat (so_MinOutputs opts)"
proof -
  have "sender_at_minimum opts ms" if "sender_life P env c opts cfg ms" for ms
    using that
  proof (induction rule: sender_life.induct)
    case (started om am im)
    then show ?case using assms(2-) by (rule started_at_minimum)
  next
    case (passed im am om q q')
    then show ?case by (simp add: sender_at_minimum_def)
  qed (simp_all add: sender_collect_at_minimum sender_scale_at_minimum)
  with assms(1) show ?thesis by (auto simp: sender_at_minimum_def)
qed

theorem sender_never_scales_witness:
  "\<exists>im am om. sender_life example_prims sender_world None ready_sender example_config (im, am, om) \<and> length (sm_Instances am) = 1 \<and> length (so_Instances om) = 1"
proof -
  obtain ms where ms: "sender_Start example_prims sender_world True False None ready_sender example_config = Some (Started ms)"
    using example_started by blast
  then obtain om am im where "ms = \<lparr>sg_Out = Some om, sg_Assem = Some am, sg_In = Some im\<rparr>" by (rule sender_StartedE) blast
  with ms have life: "sender_life example_prims sender_world None ready_sender example_config (im, am, om)" by (auto intro: sender_life.started)
  with sender_never_scales [OF life] show ?thesis by (auto simp: ready_sender_fields)
qed

section \<open>Included configuration\<close>

lemma merge_paths_Nil [simp]: "merge_paths old [] = old"
  by (simp add: merge_paths_def)

lemma merge_paths_Cons: "merge_paths old (p # ps) = merge_paths (if p \<in> set old then old else old @ [p]) ps"
  by (simp add: merge_paths_def)

lemma set_merge_paths: "set (merge_paths old new) = set old \<union> set new"
  by (induction new arbitrary: old) (auto simp: merge_paths_Cons)

lemma distinct_merge_paths: "distinct old \<Longrightarrow> distinct (merge_paths old new)"
  by (induction new arbitrary: old) (auto simp: merge_paths_Cons)

lemma merge_paths_known: "set new \<subseteq> set old \<Longrightarrow> merge_paths old new = old"
  by (induction new) (auto simp: merge_paths_Cons)

text \<open>The filters of a key after a merge: the old ones first, and every new one by its text.\<close>

lemma add_filters_grow:
  assumes "add_filters text seen new old = Some fs" and "Some ` seen = text ` set old"
  shows "(\<exists>gs. fs = old @ gs) \<and> text ` set new \<subseteq> text ` set fs \<and> None \<notin> text ` set fs"
  using assms
proof (induction new arbitrary: seen old)
  case Nil
  then show ?case by auto
next
  case (Cons f new)
  obtain t where t: "text f = Some t" using Cons.prems(1) by (auto split: option.splits)
  show ?case
  proof (cases "t \<in> seen")
    case True
    then have "text f \<in> text ` set old" using Cons.prems(2) t by (metis image_eqI)
    then show ?thesis using Cons.IH [of seen old] Cons.prems t True by auto
  next
    case False
    have "Some ` insert t seen = text ` set (old @ [f])" using Cons.prems(2) t by simp
    from Cons.IH [OF _ this] Cons.prems(1) t False have "\<exists>gs. fs = (old @ [f]) @ gs" "text ` set new \<subseteq> text ` set fs" "None \<notin> text ` set fs"
      by auto
    then show ?thesis by auto
  qed
qed

lemma add_filters_known:
  "text ` set new \<subseteq> Some ` seen \<Longrightarrow> add_filters text seen new old = Some old"
  by (induction new) auto

definition covered :: "(MessageFilter \<Rightarrow> bytes option) \<Rightarrow> (bytes \<times> MessageFilter list) list \<Rightarrow> bytes \<times> MessageFilter list \<Rightarrow> bool" where
  "covered text d kf \<longleftrightarrow> (\<exists>old. map_of d (fst kf) = Some old \<and> None \<notin> text ` set old \<and> text ` set (snd kf) \<subseteq> text ` set old)"

lemma those_texts:
  assumes "None \<notin> text ` set fs"
  shows "\<exists>ts. those (map text fs) = Some ts \<and> Some ` set ts = text ` set fs"
  using assms
proof (induction fs)
  case (Cons f fs)
  then obtain t where "text f = Some t" by (cases "text f") auto
  with Cons show ?case by fastforce
qed simp

lemma those_Some_texts: "those (map text fs) = Some ts \<Longrightarrow> Some ` set ts = text ` set fs"
proof (induction fs arbitrary: ts)
  case (Cons f fs)
  from Cons.prems obtain t us where "text f = Some t" "those (map text fs) = Some us" "ts = t # us"
    by (auto split: option.splits)
  with Cons.IH [of us] show ?case by simp
qed simp

lemma merge_key_cases:
  assumes "merge_key text kf d = Some d'"
  obtains (fresh) "map_of d (fst kf) = None" "d' = AList.update (fst kf) (snd kf) d"
  | (grown) old gs where "map_of d (fst kf) = Some old" "d' = AList.update (fst kf) (old @ gs) d"
      "text ` set (snd kf) \<subseteq> text ` set (old @ gs)" "None \<notin> text ` set (old @ gs)"
proof (cases "map_of d (fst kf)")
  case None
  then show thesis using assms fresh by (simp add: merge_key_def split: prod.splits)
next
  case (Some old)
  then obtain ts fs where ts: "those (map text old) = Some ts" and fs: "add_filters text (set ts) (snd kf) old = Some fs"
    and d': "d' = AList.update (fst kf) fs d" using assms by (auto simp: merge_key_def split: prod.splits option.splits)
  from add_filters_grow [OF fs those_Some_texts [OF ts]] Some d' show thesis using grown by blast
qed

lemma merge_key_covered:
  assumes "merge_key text kf d = Some d'" and "None \<notin> text ` set (snd kf)"
  shows "covered text d' kf"
  using assms(1) by (cases rule: merge_key_cases) (simp_all add: covered_def update_conv' assms(2))

lemma merge_key_other: "merge_key text kf d = Some d' \<Longrightarrow> k \<noteq> fst kf \<Longrightarrow> map_of d' k = map_of d k"
  by (erule merge_key_cases) (simp_all add: update_conv')

lemma merge_key_grows:
  assumes "merge_key text kf d = Some d'" and "map_of d k = Some fs"
  shows "\<exists>gs. map_of d' k = Some (fs @ gs)"
  using assms(1) by (cases rule: merge_key_cases) (use assms(2) in \<open>auto simp: update_conv'\<close>)

lemma merge_key_known:
  assumes "covered text d kf"
  shows "merge_key text kf d = Some d"
proof -
  obtain k new old where kf: "kf = (k, new)" "map_of d k = Some old" "None \<notin> text ` set old" "text ` set new \<subseteq> text ` set old"
    using assms by (cases kf) (auto simp: covered_def)
  obtain ts where ts: "those (map text old) = Some ts" "Some ` set ts = text ` set old" using those_texts [OF kf(3)] by blast
  then have "add_filters text (set ts) new old = Some old" using kf(4) by (intro add_filters_known) simp
  then show ?thesis using kf ts by (simp add: merge_key_def update_triv)
qed

lemma merge_filters_result:
  assumes "merge_filters text new d = Some d'" and "distinct (map fst new)" and "\<And>f. text f \<noteq> None"
  shows "(\<forall>kf \<in> set new. covered text d' kf) \<and> (\<forall>k. k \<notin> fst ` set new \<longrightarrow> map_of d' k = map_of d k) \<and>
    (\<forall>k fs. map_of d k = Some fs \<longrightarrow> (\<exists>gs. map_of d' k = Some (fs @ gs)))"
  using assms(1,2)
proof (induction new arbitrary: d)
  case (Cons kf new)
  obtain d1 where d1: "merge_key text kf d = Some d1" "merge_filters text new d1 = Some d'" using Cons.prems(1) by (auto split: option.splits)
  have "None \<notin> text ` set (snd kf)" using assms(3) by (metis image_iff)
  from merge_key_covered [OF d1(1) this] have "covered text d1 kf" .
  moreover have "fst kf \<notin> fst ` set new" using Cons.prems(2) by simp
  ultimately have "covered text d' kf" using Cons.IH [OF d1(2)] Cons.prems(2) by (auto simp: covered_def)
  moreover have "\<exists>gs. map_of d' k = Some (fs @ gs)" if "map_of d k = Some fs" for k fs
    using merge_key_grows [OF d1(1) that] Cons.IH [OF d1(2)] Cons.prems(2) by fastforce
  ultimately show ?case using Cons.IH [OF d1(2)] Cons.prems(2) merge_key_other [OF d1(1)] by auto
qed simp

lemma merge_filters_known: "\<forall>kf \<in> set new. covered text d kf \<Longrightarrow> merge_filters text new d = Some d"
  by (induction new) (simp_all add: merge_key_known)

text \<open>
  C30. An included configuration adds to the inputs and takes nothing away: afterwards the files are the old ones and the new
  ones, none twice if none was twice before; every list of filters begins with the filters it had, and a new filter is there by its
  JSON text; and including the same file once more changes nothing.
\<close>

theorem include_merge:
  assumes "mergeConfigInputs text (Some cfg) opts = Inr opts'" and "distinct (map fst (ji_DropFilters cfg))" and "\<And>f. text f \<noteq> None"
  shows "set (ji_FilePaths opts') = set (ji_FilePaths opts) \<union> set (ji_FilePaths cfg) \<and>
    (distinct (ji_FilePaths opts) \<longrightarrow> distinct (ji_FilePaths opts')) \<and>
    (\<forall>k fs. map_of (ji_DropFilters opts) k = Some fs \<longrightarrow> (\<exists>gs. map_of (ji_DropFilters opts') k = Some (fs @ gs))) \<and>
    (\<forall>kf \<in> set (ji_DropFilters cfg). covered text (ji_DropFilters opts') kf) \<and>
    (ji_JournalEnabled opts' \<longleftrightarrow> ji_JournalEnabled opts \<or> ji_JournalEnabled cfg) \<and>
    mergeConfigInputs text (Some cfg) opts' = Inr opts'"
proof -
  obtain d where d: "merge_filters text (ji_DropFilters cfg) (ji_DropFilters opts) = Some d" and i: "ji_Include cfg = []"
    and o: "opts' = opts\<lparr>ji_JournalEnabled := ji_JournalEnabled opts \<or> ji_JournalEnabled cfg,
      ji_FilePaths := merge_paths (ji_FilePaths opts) (ji_FilePaths cfg), ji_DropFilters := d\<rparr>"
    using assms(1) by (auto simp: mergeConfigInputs_def Let_def split: if_splits option.splits)
  note r = merge_filters_result [OF d assms(2,3)]
  have "merge_filters text (ji_DropFilters cfg) d = Some d" using r by (intro merge_filters_known) blast
  moreover have "merge_paths (ji_FilePaths opts') (ji_FilePaths cfg) = ji_FilePaths opts'"
    by (intro merge_paths_known) (simp add: o set_merge_paths)
  ultimately have "mergeConfigInputs text (Some cfg) opts' = Inr opts'" using i o by (simp add: mergeConfigInputs_def)
  then show ?thesis using r by (simp add: o set_merge_paths distinct_merge_paths)
qed

theorem include_merge_witness:
  "\<exists>opts'. mergeConfigInputs (\<lambda>_. Some []) (Some (no_inputs\<lparr>ji_FilePaths := [[97], [98]]\<rparr>)) (no_inputs\<lparr>ji_FilePaths := [[98]]\<rparr>) = Inr opts' \<and>
    set (ji_FilePaths opts') = {[97], [98]} \<and> mergeConfigInputs (\<lambda>_. Some []) (Some (no_inputs\<lparr>ji_FilePaths := [[97], [98]]\<rparr>)) opts' = Inr opts'"
proof -
  let ?cfg = "no_inputs\<lparr>ji_FilePaths := [[97], [98]]\<rparr>" and ?opts = "no_inputs\<lparr>ji_FilePaths := [[98]]\<rparr>"
  obtain opts' where o: "mergeConfigInputs (\<lambda>_. Some []) (Some ?cfg) ?opts = Inr opts'"
    by (simp add: mergeConfigInputs_def no_inputs_def Let_def)
  from include_merge [OF o] o show ?thesis by (simp add: no_inputs_def insert_commute)
qed

text \<open>
  A reload of the signing key takes effect exactly when the new key is complete and valid for the configured suite: from then on
  signatures are made with it. Otherwise the signing function is left as it was.
\<close>

theorem reload_signing_key:
  assumes "sender_ReloadSigningKeys P (Some file) (key, decoded) opts (cfg, W) = ((cfg', W'), res)" and "file \<noteq> []" and "key \<noteq> []"
    and "SignatureNameToID P (so_SignatureSuite opts) = Some suite" "GetSignatureInfo P suite = Some info"
  shows "res = (if decoded \<and> sg_ValidateKey info key = Inr () then Some 1 else None) \<and>
    W' = (if decoded \<and> sg_ValidateKey info key = Inr () then W\<lparr>CreateSignature_var := FnSet key\<rparr> else W)"
  using assms by (auto simp: sender_ReloadSigningKeys_def setup_signing_def orError_def SetupCreateSignature_def Let_def split: if_splits sum.splits)

theorem reload_signing_key_witness:
  "\<exists>st. sender_ReloadSigningKeys example_prims (Some [107]) (replicate 64 7, True)
      (ready_sender\<lparr>so_SignatureSuite := sg_Name (signatureSuite1 example_prims)\<rparr>) (example_config, wrappers_init) = (st, Some 1) \<and>
    CreateSignature_var (snd st) = FnSet (replicate 64 7)"
proof -
  let ?r = "sender_ReloadSigningKeys example_prims (Some [107]) (replicate 64 7, True)
      (ready_sender\<lparr>so_SignatureSuite := sg_Name (signatureSuite1 example_prims)\<rparr>) (example_config, wrappers_init)"
  have v: "sg_ValidateKey (signatureSuite1 example_prims) (replicate 64 7) = Inr ()" by (simp add: registry_defs EdPrivateKeySize_def)
  obtain cfg' W' res where r: "?r = ((cfg', W'), res)" by (metis prod.collapse)
  have "res = Some 1 \<and> W' = wrappers_init\<lparr>CreateSignature_var := FnSet (replicate 64 7)\<rparr>"
    using reload_signing_key [OF r, of 1 "signatureSuite1 example_prims"] v
    by (simp add: suite_names GetSignatureInfo_def signatureSuites_def)
  then show ?thesis using r by auto
qed

end
