(* ===== verification/Key_Management.thy ===== *)
theory Key_Management
  imports Sender_Daemon
begin

text \<open>
  Keys on disk: the base64 text of keys, the file of a sender's sender-signer.key (\<^verbatim>\<open>internal/sender/signingkey.go\<close>,
  \<^verbatim>\<open>config.go\<close>), the pinned keys of a receiver and their reload (\<^verbatim>\<open>internal/receiver/signingkeys.go\<close>, \<^verbatim>\<open>config.go\<close>),
  and the search for the process to signal (\<^verbatim>\<open>internal/lifecycle/pinnedkeys.go\<close>). JSON texts are parsed values, the list of
  processes is a list of lines, certificates are an argument. Shown are the round trip of the text, what a change of the keys on
  disk means for a running daemon, the count of changes, and which process is signalled.
\<close>

section \<open>Base64\<close>

text \<open>\<^verbatim>\<open>base64.StdEncoding\<close>. Newlines are skipped; on an error the bytes of the groups before it are returned.\<close>

definition b64_char :: "nat \<Rightarrow> byte" where
  "b64_char d = (if d < 26 then of_nat (65 + d) else if d < 52 then of_nat (71 + d) else if d < 62 then of_nat (d - 4) else if d = 62 then 43 else 47)"

definition b64_value :: "byte \<Rightarrow> nat option" where
  "b64_value c =
     (let n = unat c in
      if 65 \<le> n \<and> n \<le> 90 then Some (n - 65) else if 97 \<le> n \<and> n \<le> 122 then Some (n - 71)
      else if 48 \<le> n \<and> n \<le> 57 then Some (n + 4) else if n = 43 then Some 62 else if n = 47 then Some 63 else None)"

fun EncodeToString :: "bytes \<Rightarrow> bytes" where
  "EncodeToString [] = []"
| "EncodeToString [a] = [b64_char (unat a div 4), b64_char (unat a mod 4 * 16), 61, 61]"
| "EncodeToString [a, b] = [b64_char (unat a div 4), b64_char (unat a mod 4 * 16 + unat b div 16), b64_char (unat b mod 16 * 4), 61]"
| "EncodeToString (a # b # c # bs) =
     [b64_char (unat a div 4), b64_char (unat a mod 4 * 16 + unat b div 16), b64_char (unat b mod 16 * 4 + unat c div 64), b64_char (unat c mod 64)]
     @ EncodeToString bs"

fun b64_groups :: "bytes \<Rightarrow> bytes \<times> bool" where
  "b64_groups [] = ([], True)"
| "b64_groups (w # x # y # z # cs) =
     (case (b64_value w, b64_value x) of
        (Some i, Some j) \<Rightarrow>
          let a = of_nat (i * 4 + j div 16) in
          (case b64_value y of
             Some k \<Rightarrow>
               let b = of_nat (j mod 16 * 16 + k div 4) in
               (case b64_value z of
                  Some l \<Rightarrow> map_prod (\<lambda>bs. a # b # of_nat (k mod 4 * 64 + l) # bs) id (b64_groups cs)
                | None \<Rightarrow> if z = 61 \<and> cs = [] then ([a, b], True) else ([], False))
           | None \<Rightarrow> if y = 61 \<and> z = 61 \<and> cs = [] then ([a], True) else ([], False))
      | _ \<Rightarrow> ([], False))"
| "b64_groups _ = ([], False)"

definition DecodeString :: "bytes \<Rightarrow> bytes \<times> bool" where
  "DecodeString s = b64_groups (filter (\<lambda>c. c \<noteq> 10 \<and> c \<noteq> 13) s)"

section \<open>The files\<close>

datatype 'a stored = Missing | Unreadable | Malformed | Stored 'a

datatype key_result = KeyOk | KeyFailed | KeyPanic

text \<open>A write that fails may leave anything behind; \<open>None\<close> is a write that succeeds.\<close>

definition write_file :: "'a stored option \<Rightarrow> 'a \<Rightarrow> 'a stored \<times> bool" where
  "write_file failed new = (case failed of None \<Rightarrow> (Stored new, True) | Some left \<Rightarrow> (left, False))"

section \<open>The sender-signer.key of a sender\<close>

definition DefaultSendSigningKey :: bytes where "DefaultSendSigningKey = bytes_of_string ''/etc/sdsyslog/sender-signer.key''"

record sender_disk =
  sk_conf :: "sender_Opts stored"
  sk_file :: "bytes \<Rightarrow> bytes stored"

text \<open>\<^verbatim>\<open>loadSigningKey\<close>: what was decoded and whether that was all.\<close>

definition loadSigningKey :: "bytes stored \<Rightarrow> bytes \<times> bool" where
  "loadSigningKey file = (case file of Stored t \<Rightarrow> DecodeString (TrimSpace (trim_newlines t)) | _ \<Rightarrow> ([], False))"

definition LoadPubKey :: "bytes \<Rightarrow> bytes \<times> bool" where
  "LoadPubKey publicKey = DecodeString publicKey"

definition LoadKey :: "bytes stored \<Rightarrow> bytes \<times> bool" where
  "LoadKey file = (case file of Stored t \<Rightarrow> DecodeString t | _ \<Rightarrow> ([], False))"

record write_key_env =
  wk_stdin :: "bytes option"
  wk_keyFailed :: "bytes stored option"
  wk_confFailed :: "sender_Opts stored option"
  wk_reloaded :: bool

definition WriteNewSigningKey :: "write_key_env \<Rightarrow> sender_disk \<Rightarrow> sender_disk \<times> key_result" where
  "WriteNewSigningKey env dk =
     (case sk_conf dk of
        Stored opts \<Rightarrow>
          if so_SigningKeyFile opts \<noteq> [] then (dk, KeyOk)
          else (case wk_stdin env of
            None \<Rightarrow> (dk, KeyFailed)
          | Some inp \<Rightarrow>
              (case DecodeString (trim_newlines (TrimSpace inp)) of (newSigningKey, decoded) \<Rightarrow>
               if \<not> decoded then (dk, KeyFailed)
               else (case sk_file dk DefaultSendSigningKey of
                 Unreadable \<Rightarrow> (dk, KeyFailed)
               | Missing \<Rightarrow>
                   (case write_file (wk_keyFailed env) (EncodeToString newSigningKey) of (f, ok1) \<Rightarrow>
                    let dk = dk\<lparr>sk_file := (sk_file dk)(DefaultSendSigningKey := f)\<rparr> in
                    if \<not> ok1 then (dk, KeyFailed)
                    else (case write_file (wk_confFailed env) (opts\<lparr>so_SigningKeyFile := DefaultSendSigningKey\<rparr>) of (c, ok2) \<Rightarrow>
                      let dk = dk\<lparr>sk_conf := c\<rparr> in
                      (dk, if ok2 \<and> wk_reloaded env then KeyOk else KeyFailed)))
               | _ \<Rightarrow> (dk, KeyOk))))
      | _ \<Rightarrow> (dk, KeyFailed))"

section \<open>The pinned keys of a receiver\<close>

text \<open>A file of keys holds a map, or the JSON null, which is a nil map.\<close>

type_synonym pinned = "(bytes \<times> bytes) list option"

record receiver_disk =
  rk_conf :: "receiver_Opts stored"
  rk_keys :: "bytes \<Rightarrow> pinned stored"

record pin_env =
  pe_cert :: "bytes \<Rightarrow> (bytes \<times> bool) option option"
  pe_defaultPath :: bytes
  pe_keysFailed :: "pinned stored option"
  pe_confFailed :: "receiver_Opts stored option"
  pe_reloaded :: bool

text \<open>
  A text that decodes is the key. Otherwise it names a file: of the certificate there the key and whether it is of the
  kind ed25519 are arguments, \<open>Some None\<close> if it cannot be loaded.
\<close>

definition retrieveKeyBytes :: "(bytes \<Rightarrow> (bytes \<times> bool) option option) \<Rightarrow> bytes \<Rightarrow> bytes option" where
  "retrieveKeyBytes cert location =
     (case DecodeString location of
        (publicKey, True) \<Rightarrow> Some publicKey
      | _ \<Rightarrow>
          (case cert location of
             Some (Some (publicKey, ed25519)) \<Rightarrow> if ed25519 then Some publicKey else None
           | _ \<Rightarrow> None))"

definition put_pinned :: "pin_env \<Rightarrow> bytes \<Rightarrow> (bytes \<times> bytes) list \<Rightarrow> receiver_disk \<Rightarrow> receiver_disk \<times> bool" where
  "put_pinned env path m dk =
     (case write_file (pe_keysFailed env) (Some m) of (f, written_ok) \<Rightarrow> (dk\<lparr>rk_keys := (rk_keys dk)(path := f)\<rparr>, written_ok))"

definition add_pinned :: "pin_env \<Rightarrow> bytes \<Rightarrow> bytes \<Rightarrow> receiver_Opts \<Rightarrow> receiver_disk \<Rightarrow> receiver_disk \<times> key_result" where
  "add_pinned env hostname publicKey opts dk =
     (let path = ro_PinnedKeysPath opts; pinKeyFileMissing = (path = [] \<or> rk_keys dk path = Missing) in
      if \<not> pinKeyFileMissing
      then (case rk_keys dk path of
              Stored (Some pinnedKeys) \<Rightarrow>
                (case put_pinned env path (AList.update hostname publicKey pinnedKeys) dk of (dk, written_ok) \<Rightarrow>
                   (dk, if written_ok \<and> pe_reloaded env then KeyOk else KeyFailed))
            | Stored None \<Rightarrow> (dk, KeyPanic)
            | _ \<Rightarrow> (dk, KeyFailed))
      else (case put_pinned env (pe_defaultPath env) [(hostname, publicKey)] dk of (dk, written_ok) \<Rightarrow>
              if \<not> written_ok then (dk, KeyFailed)
              else (case write_file (pe_confFailed env) (opts\<lparr>ro_PinnedKeysPath := pe_defaultPath env\<rparr>) of (c, conf_ok) \<Rightarrow>
                (dk\<lparr>rk_conf := c\<rparr>, if conf_ok \<and> pe_reloaded env then KeyOk else KeyFailed))))"

definition AddPinnedKey :: "pin_env \<Rightarrow> bytes \<Rightarrow> bytes \<Rightarrow> receiver_disk \<Rightarrow> receiver_disk \<times> key_result" where
  "AddPinnedKey env confPath addRequest dk =
     (if addRequest = [] \<or> confPath = [] then (dk, KeyFailed)
      else (case rk_conf dk of
        Stored opts \<Rightarrow>
          (case Split bar addRequest of
             [hostname, keyLocation] \<Rightarrow>
               if hostname = [] \<or> keyLocation = [] then (dk, KeyFailed)
               else (case retrieveKeyBytes (pe_cert env) keyLocation of
                       None \<Rightarrow> (dk, KeyFailed)
                     | Some publicKey \<Rightarrow> add_pinned env hostname publicKey opts dk)
           | _ \<Rightarrow> (dk, KeyFailed))
      | _ \<Rightarrow> (dk, KeyFailed)))"

text \<open>A file of keys that is missing is reported with the error of reading it.\<close>

definition RemovePinnedKey :: "pin_env \<Rightarrow> bytes \<Rightarrow> bytes \<Rightarrow> receiver_disk \<Rightarrow> receiver_disk \<times> key_result" where
  "RemovePinnedKey env confPath removeHostname dk =
     (if removeHostname = [] \<or> confPath = [] then (dk, KeyFailed)
      else (case rk_conf dk of
        Stored opts \<Rightarrow>
          let path = ro_PinnedKeysPath opts in
          if path = [] then (dk, KeyOk)
          else (case rk_keys dk path of
                  Stored None \<Rightarrow> (dk, KeyOk)
                | Stored (Some pinnedKeys) \<Rightarrow>
                    if map_of pinnedKeys removeHostname = None then (dk, KeyOk)
                    else (case put_pinned env path (AList.delete removeHostname pinnedKeys) dk of (dk, written_ok) \<Rightarrow>
                            (dk, if written_ok \<and> pe_reloaded env then KeyOk else KeyFailed))
                | _ \<Rightarrow> (dk, KeyFailed))
      | _ \<Rightarrow> (dk, KeyFailed)))"

definition diffCount :: "(bytes \<times> bytes) list \<Rightarrow> (bytes \<times> bytes) list \<Rightarrow> nat" where
  "diffCount oldKeys newKeys =
     length (filter (\<lambda>(k, v). map_of oldKeys k \<noteq> Some v) newKeys) + length (filter (\<lambda>(k, v). map_of newKeys k = None) oldKeys)"

text \<open>
  The reload of a running receiver: the path of the configuration read again (\<open>None\<close> if that fails), the files, and
  the keys in use.
\<close>

definition receiver_ReloadSigningKeys ::
  "bytes option \<Rightarrow> (bytes \<Rightarrow> pinned stored) \<Rightarrow> (bytes \<times> bytes) list \<times> wrappers \<Rightarrow> ((bytes \<times> bytes) list \<times> wrappers) \<times> nat option" where
  "receiver_ReloadSigningKeys newPath files st =
     (case st of (oldKeys, W) \<Rightarrow>
      case newPath of
        None \<Rightarrow> (st, None)
      | Some path \<Rightarrow>
          if path = [] then (st, Some 0)
          else (case files path of
                  Stored m \<Rightarrow>
                    let newKeys = (case m of None \<Rightarrow> [] | Some ks \<Rightarrow> ks) in
                    ((newKeys, NewPinnedSenders W (map_of newKeys)), Some (diffCount oldKeys newKeys))
                | _ \<Rightarrow> (st, None)))"

section \<open>The process to signal\<close>

text \<open>The lines of the list of processes: identifier, command and arguments.\<close>

definition process_matches :: "bytes \<Rightarrow> bytes \<Rightarrow> bytes \<Rightarrow> bool" where
  "process_matches programName configPath line =
     (let fs = Fields line in
      if length fs < 3 then False
      else
        let prog = trim_newlines (TrimSpace (fs ! 1)); args = Join [32] (drop 2 fs) in
        prog = programName \<and>
        (Metric_Registry.Contains args (bytes_of_string ''--config '' @ configPath) \<or> Metric_Registry.Contains args (bytes_of_string ''-c '' @ configPath)))"

fun find_process :: "bytes \<Rightarrow> bytes \<Rightarrow> int \<Rightarrow> bytes list \<Rightarrow> int option" where
  "find_process programName configPath foundPID [] = Some foundPID"
| "find_process programName configPath foundPID (line # ls) =
     (if \<not> process_matches programName configPath line then find_process programName configPath foundPID ls
      else if foundPID \<noteq> 0 then None
      else (case Atoi (Fields line ! 0) of None \<Rightarrow> None | Some pid \<Rightarrow> find_process programName configPath pid ls))"

datatype reload_signal = NoProcess | SignalSent int | SignalFailed

text \<open>The list of processes is \<open>None\<close> if it cannot be had; \<open>killOk\<close> tells which processes can be signalled.\<close>

definition IssueLiveSigningKeyReload :: "(int \<Rightarrow> bool) \<Rightarrow> bytes list option \<Rightarrow> bytes \<Rightarrow> bytes \<Rightarrow> reload_signal" where
  "IssueLiveSigningKeyReload killOk out configPath programName =
     (case out of
        None \<Rightarrow> SignalFailed
      | Some ls \<Rightarrow>
          (case find_process (filepath_Base programName) configPath 0 ls of
             None \<Rightarrow> SignalFailed
           | Some foundPID \<Rightarrow>
               if foundPID = 0 then NoProcess else if killOk foundPID then SignalSent foundPID else SignalFailed))"
section \<open>The text of a key\<close>

lemma unat_byte: "unat (b :: byte) < 256"
  using unsigned_less [of b] by simp

lemma unat_of_byte: "n < 256 \<Longrightarrow> unat (of_nat n :: byte) = n"
  by (simp add: unat_of_nat)

lemma b64_char_value:
  assumes "d < 64"
  shows "b64_value (b64_char d) = Some d"
proof -
  consider "d < 26" | "26 \<le> d" "d < 52" | "52 \<le> d" "d < 62" | "d = 62" | "d = 63" using assms by linarith
  then show ?thesis by cases (auto simp: b64_char_def b64_value_def unat_of_byte Let_def simp del: of_nat_add of_nat_diff)
qed

lemma b64_char_visible: "visible (b64_char d)"
proof -
  have "visible (of_nat n)" if "33 \<le> n" "n \<le> 126" for n
    using that by (simp add: visible_def word_le_nat_alt unat_of_byte)
  then show ?thesis by (auto simp: b64_char_def simp del: of_nat_add of_nat_diff) (simp_all add: visible_def)
qed

lemma group_arith:
  fixes x y z :: nat
  assumes "y < 256" "z < 256"
  shows "x div 4 * 4 + (x mod 4 * 16 + y div 16) div 16 = x"
    and "(x mod 4 * 16 + y div 16) mod 16 * 16 + (y mod 16 * 4 + z div 64) div 4 = y"
    and "(y mod 16 * 4 + z div 64) mod 4 * 64 + z mod 64 = z"
    and "(x mod 4 * 16 + y div 16) mod 16 * 16 + y mod 16 * 4 div 4 = y"
    and "x mod 4 * 16 + y div 16 < 64" "y mod 16 * 4 + z div 64 < 64"
proof -
  have lt: "y div 16 < 16" "z div 64 < 4" "x mod 4 < 4" "y mod 16 < 16" using assms by simp_all
  then show "x mod 4 * 16 + y div 16 < 64" "y mod 16 * 4 + z div 64 < 64" by linarith+
  show "x div 4 * 4 + (x mod 4 * 16 + y div 16) div 16 = x"
    "(x mod 4 * 16 + y div 16) mod 16 * 16 + (y mod 16 * 4 + z div 64) div 4 = y"
    "(y mod 16 * 4 + z div 64) mod 4 * 64 + z mod 64 = z"
    "(x mod 4 * 16 + y div 16) mod 16 * 16 + y mod 16 * 4 div 4 = y"
    using lt by simp_all
qed

lemma byte_div4: "unat (a :: byte) div 4 < 64"
  using unat_byte [of a] by simp

lemma EncodeToString_visible: "list_all visible (EncodeToString bs)"
proof -
  have "visible 61" by (simp add: visible_def)
  then show ?thesis by (induction bs rule: EncodeToString.induct) (simp_all add: b64_char_visible)
qed

lemma b64_groups_encoded: "b64_groups (EncodeToString bs) = (bs, True)"
proof (induction bs rule: EncodeToString.induct)
  case (2 a)
  have "b64_value 61 = None" by (simp add: b64_value_def)
  moreover have "unat a mod 4 * 16 < 64" "unat a div 4 * 4 + unat a mod 4 * 16 div 16 = unat a" by simp_all
  ultimately show ?case using byte_div4 [of a] by (simp add: b64_char_value del: of_nat_add of_nat_mult)
next
  case (3 a b)
  have "b64_value 61 = None" by (simp add: b64_value_def)
  moreover have "unat b mod 16 * 4 < 64" by simp
  ultimately show ?case using byte_div4 [of a] group_arith(1,4,5) [OF unat_byte [of b] unat_byte [of b], of "unat a"]
    by (simp add: b64_char_value del: of_nat_add of_nat_mult)
next
  case (4 a b c bs)
  then show ?case
    using byte_div4 [of a] group_arith(1,2,5) [OF unat_byte [of b] unat_byte [of c], of "unat a"] group_arith(3,6) [OF unat_byte [of b] unat_byte [of c]]
    by (simp add: b64_char_value del: of_nat_add of_nat_mult)
qed simp

lemma decode_encoded: "DecodeString (EncodeToString bs) = (bs, True)"
proof -
  have "filter (\<lambda>c. c \<noteq> 10 \<and> c \<noteq> 13) (EncodeToString bs) = EncodeToString bs"
    using EncodeToString_visible [of bs] by (auto simp: list_all_iff visible_def filter_id_conv)
  then show ?thesis by (simp add: DecodeString_def b64_groups_encoded)
qed

lemma trim_newlines_visible: "list_all visible s \<Longrightarrow> trim_newlines s = s"
proof -
  have "dropWhile (\<lambda>b. b = newline) t = t" if "list_all visible t" for t using that by (cases t) (auto simp: visible_def)
  then show "list_all visible s \<Longrightarrow> trim_newlines s = s" by (simp add: trim_newlines_def list_all_rev)
qed

lemma TrimSpace_all_visible: "list_all visible s \<Longrightarrow> TrimSpace s = s"
  using TrimSpace_visible [of s] by (cases "s = []") (auto simp: list_all_iff)

lemma TrimRight_all_visible:
  assumes "list_all visible s"
  shows "TrimRight s = s"
proof (cases s rule: rev_exhaust)
  case (snoc t b)
  then show ?thesis using assms by (simp add: TrimRight_visible)
qed (simp add: TrimRight_def)

lemma TrimSpace_newline:
  assumes "list_all visible s"
  shows "TrimSpace (s @ [10]) = s"
proof (cases s)
  case Nil
  then show ?thesis by (simp add: TrimSpace_def TrimLeft_def TrimRight_def space_runes_def HasPrefix_def)
next
  case (Cons b bs)
  then have "TrimLeft (s @ [10]) = s @ [10]" using TrimLeft_visible [of b "bs @ [10]"] assms by simp
  moreover have "TrimRight (s @ [10]) = TrimRight s" by (simp add: TrimRight_def space_runes_def HasPrefix_def)
  moreover have "TrimRight s = s" by (rule TrimRight_all_visible [OF assms])
  ultimately show ?thesis by (simp add: TrimSpace_def)
qed

text \<open>
  The text written for a key is read back as that key, and the file of a new signing key, once written, gives
  the key that was entered.
\<close>

theorem signing_key_file_roundtrip:
  assumes "WriteNewSigningKey env dk = (dk', KeyOk)" and "sk_conf dk = Stored opts" "so_SigningKeyFile opts = []"
    and "sk_file dk DefaultSendSigningKey = Missing" and "wk_stdin env = Some (EncodeToString key @ [10])"
  shows "\<exists>opts'. sk_conf dk' = Stored opts' \<and> opts' = opts\<lparr>so_SigningKeyFile := DefaultSendSigningKey\<rparr> \<and>
    loadSigningKey (sk_file dk' (so_SigningKeyFile opts')) = (key, True) \<and> (\<forall>p. p \<noteq> DefaultSendSigningKey \<longrightarrow> sk_file dk' p = sk_file dk p)"
proof -
  have v: "list_all visible (EncodeToString key)" by (rule EncodeToString_visible)
  have trimmed: "trim_newlines (TrimSpace (EncodeToString key @ [10])) = EncodeToString key"
  proof -
    have "TrimSpace (EncodeToString key @ [10]) = EncodeToString key" using TrimSpace_newline [OF v] .
    then show ?thesis by (simp add: trim_newlines_visible [OF v])
  qed
  have "loadSigningKey (Stored (EncodeToString key)) = (key, True)"
    by (simp add: loadSigningKey_def trim_newlines_visible [OF v] TrimSpace_all_visible [OF v] decode_encoded)
  then show ?thesis
    using assms by (auto simp: WriteNewSigningKey_def trimmed decode_encoded write_file_def Let_def split: option.splits if_splits)
qed
definition key_typed :: "bytes \<Rightarrow> write_key_env" where
  "key_typed key = \<lparr>wk_stdin = Some (EncodeToString key @ [10]), wk_keyFailed = None, wk_confFailed = None, wk_reloaded = True\<rparr>"

theorem signing_key_file_roundtrip_witness:
  "\<exists>dk' opts'. WriteNewSigningKey (key_typed [1, 2, 3, 4]) \<lparr>sk_conf = Stored unset_sender, sk_file = (\<lambda>_. Missing)\<rparr> = (dk', KeyOk) \<and>
    sk_conf dk' = Stored opts' \<and> loadSigningKey (sk_file dk' (so_SigningKeyFile opts')) = ([1, 2, 3, 4], True)"
proof -
  let ?dk = "\<lparr>sk_conf = Stored unset_sender, sk_file = (\<lambda>_. Missing)\<rparr>"
  have "trim_newlines (TrimSpace (EncodeToString [1, 2, 3, 4] @ [10])) = EncodeToString [1, 2, 3, 4]"
    by (simp only: TrimSpace_newline [OF EncodeToString_visible] trim_newlines_visible [OF EncodeToString_visible])
  then obtain dk' where d: "WriteNewSigningKey (key_typed [1, 2, 3, 4]) ?dk = (dk', KeyOk)"
    by (simp add: WriteNewSigningKey_def key_typed_def unset_sender_def decode_encoded write_file_def Let_def del: EncodeToString.simps)
  have "\<exists>opts'. sk_conf dk' = Stored opts' \<and> loadSigningKey (sk_file dk' (so_SigningKeyFile opts')) = ([1, 2, 3, 4], True)"
    using signing_key_file_roundtrip [OF d, of unset_sender "[1, 2, 3, 4]"] by (simp add: key_typed_def unset_sender_def del: EncodeToString.simps)
  with d show ?thesis by blast
qed

section \<open>Changes of the pinned keys\<close>

lemma write_file_ok: "write_file failed new = (f, True) \<longleftrightarrow> failed = None \<and> f = Stored new"
  by (auto simp: write_file_def split: option.splits)

lemma AddPinnedKey_ok:
  assumes "AddPinnedKey env confPath (hostname @ bar # location) dk = (dk', KeyOk)" and "bar \<notin> set hostname" "bar \<notin> set location"
  obtains opts key where "rk_conf dk = Stored opts" "retrieveKeyBytes (pe_cert env) location = Some key" "hostname \<noteq> []"
    "add_pinned env hostname key opts dk = (dk', KeyOk)"
proof -
  have "Split bar (hostname @ bar # location) = [hostname, location]" using assms(2,3) by (simp add: Split_append Split_no_sep)
  then show thesis using assms(1) that by (auto simp: AddPinnedKey_def split: if_splits stored.splits option.splits)
qed

text \<open>The keys of the file that a configuration names; a file that is missing, or none named, has no keys.\<close>

definition keys_on_disk :: "receiver_disk \<Rightarrow> bytes \<rightharpoonup> bytes" where
  "keys_on_disk dk =
     (case rk_conf dk of
        Stored opts \<Rightarrow> (case rk_keys dk (ro_PinnedKeysPath opts) of Stored (Some m) \<Rightarrow> if ro_PinnedKeysPath opts = [] then Map.empty else map_of m | _ \<Rightarrow> Map.empty)
      | _ \<Rightarrow> Map.empty)"

lemma add_pinned_ok:
  assumes "add_pinned env hostname key opts dk = (dk', KeyOk)" and "rk_conf dk = Stored opts" and "pe_defaultPath env \<noteq> []"
  shows "\<exists>opts' m. rk_conf dk' = Stored opts' \<and> ro_PinnedKeysPath opts' \<noteq> [] \<and> rk_keys dk' (ro_PinnedKeysPath opts') = Stored (Some m) \<and>
    map_of m = (keys_on_disk dk)(hostname \<mapsto> key)"
  using assms
  by (auto simp: add_pinned_def put_pinned_def keys_on_disk_def write_file_ok update_conv' Let_def split: if_splits stored.splits option.splits prod.splits)

definition path_of :: "receiver_disk \<Rightarrow> bytes option" where
  "path_of dk = (case rk_conf dk of Stored opts \<Rightarrow> Some (ro_PinnedKeysPath opts) | _ \<Rightarrow> None)"

lemma reload_stored:
  assumes "rk_conf dk = Stored opts" "ro_PinnedKeysPath opts \<noteq> []" "rk_keys dk (ro_PinnedKeysPath opts) = Stored (Some m)"
  shows "receiver_ReloadSigningKeys (path_of dk) (rk_keys dk) (oldKeys, W) =
    ((m, NewPinnedSenders W (map_of m)), Some (diffCount oldKeys m))"
  using assms by (simp add: receiver_ReloadSigningKeys_def path_of_def)

text \<open>
  C36. Trusting a sender takes effect with the reload: the running receiver then verifies the signatures of that host with the new
  key, and those of every other host with the key in the file; distrusting it again takes exactly that host away.
\<close>

theorem trusted_sender_reloaded:
  assumes "AddPinnedKey env confPath (hostname @ bar # location) dk = (dk1, KeyOk)" and "bar \<notin> set hostname" "bar \<notin> set location"
    and "pe_defaultPath env \<noteq> []" and "RemovePinnedKey env' confPath hostname dk1 = (dk2, KeyOk)"
  shows "\<exists>key st1 n1 st2 n2. retrieveKeyBytes (pe_cert env) location = Some key \<and>
    receiver_ReloadSigningKeys (path_of dk1) (rk_keys dk1) (oldKeys, W) = (st1, Some n1) \<and>
    pinnedSenderKeys (snd st1) = Some ((keys_on_disk dk)(hostname \<mapsto> key)) \<and>
    receiver_ReloadSigningKeys (path_of dk2) (rk_keys dk2) st1 = (st2, Some n2) \<and>
    pinnedSenderKeys (snd st2) = Some ((keys_on_disk dk)(hostname := None))"
proof -
  obtain opts key where c: "rk_conf dk = Stored opts" and k: "retrieveKeyBytes (pe_cert env) location = Some key"
    and a: "add_pinned env hostname key opts dk = (dk1, KeyOk)" using AddPinnedKey_ok [OF assms(1-3)] by metis
  obtain opts1 m where m: "rk_conf dk1 = Stored opts1" "ro_PinnedKeysPath opts1 \<noteq> []" "rk_keys dk1 (ro_PinnedKeysPath opts1) = Stored (Some m)"
    "map_of m = (keys_on_disk dk)(hostname \<mapsto> key)" using add_pinned_ok [OF a c assms(4)] by metis
  have "rk_conf dk2 = Stored opts1 \<and> rk_keys dk2 (ro_PinnedKeysPath opts1) = Stored (Some (AList.delete hostname m))"
    using assms(5) m by (auto simp: RemovePinnedKey_def put_pinned_def write_file_ok Let_def split: if_splits prod.splits)
  moreover have "map_of (AList.delete hostname m) = (keys_on_disk dk)(hostname := None)" using m(4) by (simp add: delete_conv')
  ultimately show ?thesis
    using k m(2,4) reload_stored [OF m(1-3), of oldKeys W] reload_stored [of dk2 opts1 "AList.delete hostname m"]
    by (simp add: NewPinnedSenders_def)
qed

definition calm_pins :: pin_env where
  "calm_pins = \<lparr>pe_cert = (\<lambda>_. None), pe_defaultPath = [47, 107], pe_keysFailed = None, pe_confFailed = None, pe_reloaded = True\<rparr>"

definition bare_disk :: receiver_disk where "bare_disk = \<lparr>rk_conf = Stored unset_opts, rk_keys = (\<lambda>_. Missing)\<rparr>"

theorem trusted_sender_reloaded_witness:
  "\<exists>dk1 dk2 st1 n1 st2 n2. AddPinnedKey calm_pins [47, 99] ([104] @ bar # EncodeToString [1, 2, 3]) bare_disk = (dk1, KeyOk) \<and>
    receiver_ReloadSigningKeys (path_of dk1) (rk_keys dk1) ([], wrappers_init) = (st1, Some n1) \<and>
    pinnedSenderKeys (snd st1) = Some [[104] \<mapsto> [1, 2, 3]] \<and> RemovePinnedKey calm_pins [47, 99] [104] dk1 = (dk2, KeyOk) \<and>
    receiver_ReloadSigningKeys (path_of dk2) (rk_keys dk2) st1 = (st2, Some n2) \<and> pinnedSenderKeys (snd st2) = Some Map.empty"
proof -
  have nb: "bar \<notin> set (EncodeToString [1, 2, 3])" by (simp add: b64_char_def)
  have sp: "Split bar ([104] @ bar # EncodeToString [1, 2, 3]) = [[104], EncodeToString [1, 2, 3]]"
    using nb by (simp add: Split_no_sep Split_append del: EncodeToString.simps)
  have r: "retrieveKeyBytes (pe_cert calm_pins) (EncodeToString [1, 2, 3]) = Some [1, 2, 3]"
    by (simp add: retrieveKeyBytes_def decode_encoded del: EncodeToString.simps)
  have ne: "EncodeToString [1, 2, 3] \<noteq> []" by simp
  obtain dk1 where a: "AddPinnedKey calm_pins [47, 99] ([104] @ bar # EncodeToString [1, 2, 3]) bare_disk = (dk1, KeyOk)"
    "rk_conf dk1 = Stored (unset_opts\<lparr>ro_PinnedKeysPath := [47, 107]\<rparr>)" "rk_keys dk1 [47, 107] = Stored (Some [([104], [1, 2, 3])])"
    using sp r ne by (simp add: AddPinnedKey_def bare_disk_def add_pinned_def put_pinned_def write_file_def calm_pins_def unset_opts_def Let_def del: EncodeToString.simps)
  obtain dk2 where d: "RemovePinnedKey calm_pins [47, 99] [104] dk1 = (dk2, KeyOk)"
    using a(2,3) by (simp add: RemovePinnedKey_def put_pinned_def write_file_def calm_pins_def Let_def)
  have k: "keys_on_disk bare_disk = Map.empty" by (simp add: keys_on_disk_def bare_disk_def)
  have "pe_defaultPath calm_pins \<noteq> []" "bar \<notin> set [104]" by (simp_all add: calm_pins_def)
  from trusted_sender_reloaded [OF a(1) this(2) nb this(1) d, of "[]" wrappers_init] a(1) d r k show ?thesis by auto
qed

section \<open>The count of changes\<close>

lemma length_filter_keys:
  assumes "distinct (map fst al)"
  shows "length (filter (\<lambda>(k, v). Q k v) al) = card {k. \<exists>v. map_of al k = Some v \<and> Q k v}"
proof -
  have "{k. \<exists>v. map_of al k = Some v \<and> Q k v} = fst ` set (filter (\<lambda>(k, v). Q k v) al)"
    using assms by (force simp: image_iff)
  moreover have "distinct (map fst (filter (\<lambda>(k, v). Q k v) al))" using assms by (simp add: distinct_map_filter)
  ultimately show ?thesis by (metis distinct_card length_map list.set_map)
qed

text \<open>
  The number of modifications that a reload reports is the number of hosts whose key has changed, been added or been removed.
\<close>

theorem reload_counts_changes:
  assumes "distinct (map fst oldKeys)" and "distinct (map fst newKeys)"
  shows "diffCount oldKeys newKeys = card {k. map_of oldKeys k \<noteq> map_of newKeys k}"
proof -
  let ?A = "{k. \<exists>v. map_of newKeys k = Some v \<and> map_of oldKeys k \<noteq> Some v}" and ?B = "{k. \<exists>v. map_of oldKeys k = Some v \<and> map_of newKeys k = None}"
  have "{k. map_of oldKeys k \<noteq> map_of newKeys k} = ?A \<union> ?B" by (auto, (metis not_Some_eq)+)
  moreover have "finite ?A" "finite ?B"
    by (rule finite_subset [OF _ finite_dom_map_of [of newKeys]], auto) (rule finite_subset [OF _ finite_dom_map_of [of oldKeys]], auto)
  moreover have "?A \<inter> ?B = {}" by auto
  ultimately show ?thesis
    using length_filter_keys [OF assms(2), of "\<lambda>k v. map_of oldKeys k \<noteq> Some v"] length_filter_keys [OF assms(1), of "\<lambda>k v. map_of newKeys k = None"]
    by (simp add: diffCount_def card_Un_disjoint)
qed

theorem reload_counts_changes_witness:
  "diffCount [([97], [1]), ([98], [2])] [([97], [1]), ([99], [3])] = card {k. map_of [([97], [1]), ([98], [2])] k \<noteq> map_of [([97], [1]), ([99], [3 :: byte])] (k :: bytes)} \<and>
    diffCount [([97], [1]), ([98], [2])] [([97], [1]), ([99], [3])] = 2"
  using reload_counts_changes [of "[([97], [1]), ([98], [2])]" "[([97], [1]), ([99], [3])]"] by (simp add: diffCount_def)

section \<open>Which process\<close>

lemma find_process_found:
  assumes "\<forall>l \<in> set ls. process_matches prog conf l \<longrightarrow> (\<exists>pid. Atoi (Fields l ! 0) = Some pid \<and> pid \<noteq> 0)"
  shows "find_process prog conf found ls =
    (case filter (process_matches prog conf) ls of
       [] \<Rightarrow> Some found
     | [l] \<Rightarrow> if found = 0 then Atoi (Fields l ! 0) else None
     | _ \<Rightarrow> None)"
  using assms
proof (induction ls arbitrary: found)
  case (Cons l ls)
  then have IH: "\<And>found. find_process prog conf found ls =
    (case filter (process_matches prog conf) ls of [] \<Rightarrow> Some found | [l] \<Rightarrow> if found = 0 then Atoi (Fields l ! 0) else None | _ \<Rightarrow> None)" by simp
  show ?case using Cons.prems by (auto simp: IH split: list.splits)
qed simp

text \<open>
  The reload is signalled to a process exactly when one process alone runs the program with that configuration; with none
  nothing is signalled, and with several the request is refused.
\<close>

theorem reload_signals_only_process:
  assumes "\<forall>l \<in> set ls. process_matches (filepath_Base prog) conf l \<longrightarrow> (\<exists>pid. Atoi (Fields l ! 0) = Some pid \<and> pid \<noteq> 0)"
  shows "IssueLiveSigningKeyReload killOk (Some ls) conf prog =
    (case filter (process_matches (filepath_Base prog) conf) ls of
       [] \<Rightarrow> NoProcess
     | [l] \<Rightarrow> (let pid = the (Atoi (Fields l ! 0)) in if killOk pid then SignalSent pid else SignalFailed)
     | _ \<Rightarrow> SignalFailed)"
proof -
  have "\<exists>pid. Atoi (Fields l ! 0) = Some pid \<and> pid \<noteq> 0" if "filter (process_matches (filepath_Base prog) conf) ls = [l]" for l
  proof -
    have "l \<in> set (filter (process_matches (filepath_Base prog) conf) ls)" using that by simp
    then show ?thesis using assms by auto
  qed
  then show ?thesis
    by (auto simp: IssueLiveSigningKeyReload_def find_process_found [OF assms] Let_def split: list.splits)
qed

text \<open>A list of three processes, of which one is the receiver with the configuration \<^verbatim>\<open>/c\<close>.\<close>

definition example_processes :: "bytes list" where
  "example_processes = map bytes_of_string [''1 a b'', ''42 sdsyslog r -c /c'', ''43 sdsyslog s -c /d'']"

theorem reload_signals_only_process_witness:
  "IssueLiveSigningKeyReload (\<lambda>_. True) (Some example_processes) (bytes_of_string ''/c'') (bytes_of_string ''/bin/sdsyslog'') = SignalSent 42"
proof -
  have b: "filepath_Base (bytes_of_string ''/bin/sdsyslog'') = bytes_of_string ''sdsyslog''" by code_simp
  have m: "map (process_matches (bytes_of_string ''sdsyslog'') (bytes_of_string ''/c'')) example_processes = [False, True, False]" by code_simp
  have a: "Atoi (Fields (bytes_of_string ''42 sdsyslog r -c /c'') ! 0) = Some 42" by code_simp
  show ?thesis
    using reload_signals_only_process [of example_processes "bytes_of_string ''/bin/sdsyslog''" "bytes_of_string ''/c''" "\<lambda>_. True"] m a
    by (simp add: b example_processes_def)
qed

end
