(* ===== verification/Lifecycle.thy ===== *)
theory Lifecycle
  imports Key_Management
begin

text \<open>
  The life of a process (\<^verbatim>\<open>internal/lifecycle\<close>): the signal handler of both daemons, the start of a temporary child and the
  replacement of the program for an update, the readiness message between the two processes, and the end of the child afterwards.
  The handler sees a daemon through the interface \<^verbatim>\<open>DaemonLike\<close>, here a record of operations, and the locale \<open>stopped_for_good\<close> states
  what both daemons have in common: a shutdown cancels their context and nothing renews it. System calls are arguments.
\<close>

section \<open>Signals\<close>

datatype os_signal = SIGINT | SIGQUIT | SIGTERM | SIGHUP | SIGUSR1

definition FullUpdateSignal :: os_signal where "FullUpdateSignal = SIGHUP"
definition SigningKeyReloadSignal :: os_signal where "SigningKeyReloadSignal = SIGUSR1"
definition ReadyMessage :: bytes where "ReadyMessage = bytes_of_string ''READY''"
definition EnvNameSelfUpdate :: bytes where "EnvNameSelfUpdate = bytes_of_string ''UPDATING_CHILD_PID''"
definition SendMode :: bytes where "SendMode = bytes_of_string ''send''"

text \<open>
  The operations of a daemon; those that may panic or never end are partial. \<open>dl_cancelled\<close> tells whether the context of the daemon is
  cancelled.
\<close>

record 'd daemon_like =
  dl_Init :: "bytes \<Rightarrow> 'd \<Rightarrow> ('d \<times> bool) option"
  dl_Start :: "'d \<Rightarrow> ('d \<times> bool) option"
  dl_Shutdown :: "'d \<Rightarrow> 'd option"
  dl_StartFIPR :: "'d \<Rightarrow> 'd \<times> bool"
  dl_ReloadSigningKeys :: "'d \<Rightarrow> 'd \<times> nat option"
  dl_cancelled :: "'d \<Rightarrow> bool"

section \<open>Readiness\<close>

text \<open>What the parent reads from the pipe; the deadline of reading is part of what arrives.\<close>

definition readinessReceiver :: "bool \<Rightarrow> bytes \<Rightarrow> bool" where
  "readinessReceiver deadlineSet stream \<longleftrightarrow>
     deadlineSet \<and> length stream \<ge> length ReadyMessage \<and> take (length ReadyMessage) stream = ReadyMessage"

text \<open>Each write takes some bytes or fails; \<open>None\<close> when more writes are needed than given.\<close>

fun send_ready :: "nat option list \<Rightarrow> bytes \<Rightarrow> bytes \<Rightarrow> (bytes \<times> bool) option" where
  "send_ready ws sent [] = Some (sent, True)"
| "send_ready [] sent (m # ms) = None"
| "send_ready (w # ws) sent (m # ms) =
     (case w of None \<Rightarrow> Some (sent, False) | Some n \<Rightarrow> send_ready ws (sent @ take n (m # ms)) (drop n (m # ms)))"

definition ReadinessSender :: "bytes \<Rightarrow> bool \<Rightarrow> nat option list \<Rightarrow> bool \<Rightarrow> (bytes \<times> bool) option" where
  "ReadinessSender fdStr opened ws closedOk =
     (if fdStr = [] then Some ([], True)
      else if Atoi fdStr = None \<or> \<not> opened then Some ([], False)
      else map_option (\<lambda>(sent, sentOk). (sent, sentOk \<and> closedOk)) (send_ready ws [] ReadyMessage))"

section \<open>The temporary child\<close>

datatype exe_stat = ExeMissing | ExeError | ExeDir | ExeFile bool

fun pick_executable :: "(bytes \<Rightarrow> exe_stat) \<Rightarrow> bytes list \<Rightarrow> bytes option" where
  "pick_executable stat [] = None"
| "pick_executable stat (p # ps) =
     (if p = [] then pick_executable stat ps
      else (case stat p of
              ExeError \<Rightarrow> None
            | ExeMissing \<Rightarrow> pick_executable stat ps
            | ExeDir \<Rightarrow> pick_executable stat ps
            | ExeFile executable \<Rightarrow> if executable then Some p else pick_executable stat ps))"

definition getExecutablePath :: "(bytes \<Rightarrow> exe_stat) \<Rightarrow> bytes option \<Rightarrow> bytes option \<Rightarrow> bytes \<Rightarrow> bytes option" where
  "getExecutablePath stat current original called =
     (case (current, original) of
        (Some currentExePath, Some originalExePath) \<Rightarrow> pick_executable stat [currentExePath, originalExePath, called]
      | _ \<Rightarrow> None)"

record update_env =
  ue_notified :: bool
  ue_mode :: "bytes option"
  ue_pipe :: bool
  ue_stat :: "bytes \<Rightarrow> exe_stat"
  ue_current :: "bytes option"
  ue_original :: "bytes option"
  ue_called :: bytes
  ue_cwd :: bool
  ue_child :: "int option"
  ue_ready :: "bool \<times> bytes"
  ue_environ :: "(bytes \<times> bytes) list"
  ue_execOk :: bool
  ue_doneFirst :: bool

text \<open>The identifier of the child, or none for a sender; \<open>None\<close> is an error.\<close>

definition preUpdate :: "update_env \<Rightarrow> int option option" where
  "preUpdate env =
     (case ue_mode env of
        None \<Rightarrow> None
      | Some mode \<Rightarrow>
          if mode = SendMode then Some None
          else if \<not> ue_pipe env then None
          else (case getExecutablePath (ue_stat env) (ue_current env) (ue_original env) (ue_called env) of
                  None \<Rightarrow> None
                | Some exePath \<Rightarrow>
                    if \<not> ue_cwd env then None
                    else (case ue_child env of
                            None \<Rightarrow> None
                          | Some pid \<Rightarrow> if case_prod readinessReceiver (ue_ready env) then Some (Some pid) else None)))"

text \<open>The environment of the program that replaces this one.\<close>

definition update_environ :: "int \<Rightarrow> (bytes \<times> bytes) list \<Rightarrow> (bytes \<times> bytes) list" where
  "update_environ childPID environ = (if childPID \<noteq> 0 then environ @ [(EnvNameSelfUpdate, FormatInt childPID)] else environ)"

section \<open>The handler\<close>

datatype handler_result = Waits | Returned | Replaced "(bytes \<times> bytes) list"

text \<open>The preparation of an update: its errors are reported and the handler goes on.\<close>

definition begin_update :: "'d daemon_like \<Rightarrow> update_env \<Rightarrow> 'd \<Rightarrow> 'd \<times> int option option" where
  "begin_update D env d =
     (if \<not> ue_notified env then (d, None)
      else (case dl_StartFIPR D d of (d, started) \<Rightarrow> if \<not> started then (d, None) else (d, preUpdate env)))"

definition restart :: "'d daemon_like \<Rightarrow> 'd \<Rightarrow> ('d \<times> handler_result) option" where
  "restart D d =
     (case dl_Init D [] d of
        None \<Rightarrow> None
      | Some (d, initOk) \<Rightarrow>
          if \<not> initOk then Some (d, Returned)
          else map_option (\<lambda>(d, startOk). (d, if startOk then Waits else Returned)) (dl_Start D d))"

definition signal_turn :: "'d daemon_like \<Rightarrow> update_env \<Rightarrow> os_signal \<Rightarrow> 'd \<Rightarrow> ('d \<times> handler_result) option" where
  "signal_turn D env recvSignal d =
     (if recvSignal = SigningKeyReloadSignal then Some (fst (dl_ReloadSigningKeys D d), Waits)
      else if recvSignal = FullUpdateSignal
      then (case begin_update D env d of
              (d, None) \<Rightarrow> Some (d, Waits)
            | (d, Some childProc) \<Rightarrow>
                (case dl_Shutdown D d of
                   None \<Rightarrow> None
                 | Some d \<Rightarrow>
                     if ue_execOk env
                     then Some (d, Replaced (update_environ (case childProc of None \<Rightarrow> 0 | Some pid \<Rightarrow> pid) (ue_environ env)))
                     else restart D d))
      else map_option (\<lambda>d. (d, Returned)) (dl_Shutdown D d))"

text \<open>
  The loop over the signals that arrive, each with the world it finds. When the context is cancelled and a signal is there as well,
  either may come first; with no signal left the handler returns if the context is cancelled and waits otherwise.
\<close>

fun SignalHandler :: "'d daemon_like \<Rightarrow> (update_env \<times> os_signal) list \<Rightarrow> 'd \<Rightarrow> ('d \<times> handler_result) option" where
  "SignalHandler D [] d = Some (d, if dl_cancelled D d then Returned else Waits)"
| "SignalHandler D ((env, sig) # ss) d =
     (if dl_cancelled D d \<and> ue_doneFirst env then Some (d, Returned)
      else (case signal_turn D env sig d of Some (d, Waits) \<Rightarrow> SignalHandler D ss d | r \<Rightarrow> r))"

section \<open>After an update\<close>

text \<open>
  The end of the child (\<^verbatim>\<open>PostUpdateActions\<close>): each look tells whether the child was reaped, whether it is no longer a child, and the
  time after it. After the deadline it is killed and waited for: each wait reaps it, finds no child, fails, or is interrupted by neither.
\<close>

datatype reap_result =
    NotUpdated
  | BadChildPID
  | TermFailed
  | ChildReaped
  | ChildGone
  | KillFailed
  | ChildKilled
  | WaitFailed

datatype wait_result = WaitReaped | WaitNoChild | WaitError | WaitNothing

fun reap_poll :: "int \<Rightarrow> (bool \<times> bool \<times> int) list \<Rightarrow> reap_result option option" where
  "reap_poll deadline [] = None"
| "reap_poll deadline ((reaped, gone, now) # looks) =
     (if reaped then Some (Some ChildReaped) else if gone then Some (Some ChildGone)
      else if now > deadline then Some None else reap_poll deadline looks)"

fun reap_wait :: "wait_result list \<Rightarrow> reap_result option" where
  "reap_wait [] = None"
| "reap_wait (w # ws) =
     (case w of WaitReaped \<Rightarrow> Some ChildKilled | WaitNoChild \<Rightarrow> Some ChildGone | WaitError \<Rightarrow> Some WaitFailed | WaitNothing \<Rightarrow> reap_wait ws)"

definition reap_child ::
  "bytes \<Rightarrow> bool \<Rightarrow> int \<Rightarrow> int \<Rightarrow> (bool \<times> bool \<times> int) list \<Rightarrow> bool \<Rightarrow> wait_result list \<Rightarrow> reap_result option" where
  "reap_child childPID termOk start timeout looks killOk waits =
     (if childPID = [] then Some NotUpdated
      else if Atoi childPID = None then Some BadChildPID
      else if \<not> termOk then Some TermFailed
      else (case reap_poll (start + timeout) looks of
              None \<Rightarrow> None
            | Some (Some r) \<Rightarrow> Some r
            | Some None \<Rightarrow> if \<not> killOk then Some KillFailed else reap_wait waits))"

text \<open>The signals that end a child before it has taken over.\<close>

datatype child_signal = ChildTerm | ChildKill

definition terminateChildProcess :: "bool \<Rightarrow> bool \<Rightarrow> bool \<Rightarrow> child_signal list" where
  "terminateChildProcess present alive exitsInTime =
     (if \<not> present then [] else if \<not> alive then [] else if exitsInTime then [ChildTerm] else [ChildTerm, ChildKill])"

section \<open>Both daemons\<close>

record sender_process =
  sp_opts :: sender_Opts
  sp_cfg :: sender_Config
  sp_wrappers :: wrappers
  sp_mgrs :: sender_Mgrs
  sp_init :: bool
  sp_cancelled :: bool

record sender_world_env =
  sw_init :: sender_init_env
  sw_start :: sender_start_env
  sw_shutdown :: sender_shutdown_env
  sw_newKeyFile :: "bytes option"
  sw_loaded :: "bytes \<times> bool"

text \<open>A failed start ends the handler; the state it leaves is of no further use.\<close>

definition sender_daemon :: "crypto_prims \<Rightarrow> sender_world_env \<Rightarrow> ctx \<Rightarrow> sender_process daemon_like" where
  "sender_daemon P w c = \<lparr>
     dl_Init = (\<lambda>serverPub d. Some (case sender_Init P (sw_init w) serverPub (sp_wrappers d) (sp_opts d) of
         Inl _ \<Rightarrow> (d, False)
       | Inr (opts, cfg, W) \<Rightarrow> (d\<lparr>sp_opts := opts, sp_cfg := cfg, sp_wrappers := W, sp_init := True\<rparr>, True))),
     dl_Start = (\<lambda>d. case sender_Start P (sw_start w) (sp_init d) False c (sp_opts d) (sp_cfg d) of
         Some (Started ms) \<Rightarrow> Some (d\<lparr>sp_mgrs := ms\<rparr>, True)
       | Some DryRun \<Rightarrow> Some (d, True)
       | Some (StartFailed _ ms) \<Rightarrow> Some (d\<lparr>sp_mgrs := ms\<rparr>, False)
       | _ \<Rightarrow> None),
     dl_Shutdown = (\<lambda>d. case sender_Shutdown (sw_shutdown w) (sp_opts d) (sp_mgrs d) of
         Some (Ended (ms, _)) \<Rightarrow> Some (d\<lparr>sp_mgrs := ms, sp_cancelled := True\<rparr>)
       | _ \<Rightarrow> None),
     dl_StartFIPR = (\<lambda>d. (d, True)),
     dl_ReloadSigningKeys = (\<lambda>d. case sender_ReloadSigningKeys P (sw_newKeyFile w) (sw_loaded w) (sp_opts d) (sp_cfg d, sp_wrappers d) of
         ((cfg, W), n) \<Rightarrow> (d\<lparr>sp_cfg := cfg, sp_wrappers := W\<rparr>, n)),
     dl_cancelled = sp_cancelled\<rparr>"

record receiver_process =
  rp_opts :: receiver_Opts
  rp_keys :: "(bytes \<times> bytes) list"
  rp_wrappers :: wrappers
  rp_mgrs :: receiver_Mgrs
  rp_init :: bool
  rp_cancelled :: bool

record receiver_world_env =
  rw_cpu :: int
  rw_pinned :: "(bytes \<times> bytes) list option"
  rw_addressOk :: bool
  rw_start :: start_env
  rw_shutdown :: shutdown_env
  rw_text :: text_lib
  rw_newPath :: "bytes option"
  rw_files :: "bytes \<Rightarrow> pinned stored"
  rw_fipr :: "bool \<times> bool"

definition receiver_daemon :: "crypto_prims \<Rightarrow> receiver_world_env \<Rightarrow> ctx \<Rightarrow> receiver_process daemon_like" where
  "receiver_daemon P w c = \<lparr>
     dl_Init = (\<lambda>serverPriv d.
       case receiver_Init P (rw_cpu w) (map_option map_of (rw_pinned w)) (rw_addressOk w) serverPriv (rp_wrappers d) (rp_opts d) of
         Inl InitPanic \<Rightarrow> None
       | Inl _ \<Rightarrow> Some (d, False)
       | Inr (opts, W) \<Rightarrow>
           Some (d\<lparr>rp_opts := opts, rp_keys := (if ro_PinnedKeysPath opts \<noteq> [] then the (rw_pinned w) else []), rp_wrappers := W, rp_init := True\<rparr>, True)),
     dl_Start = (\<lambda>d. case receiver_Start (rw_start w) (rp_init d) False c (rp_opts d) of
         Inr (Some ms) \<Rightarrow> Some (d\<lparr>rp_mgrs := ms\<rparr>, True)
       | Inr None \<Rightarrow> Some (d, True)
       | Inl _ \<Rightarrow> Some (d, False)),
     dl_Shutdown = (\<lambda>d. map_option (\<lambda>(ms, _). d\<lparr>rp_mgrs := ms, rp_cancelled := True\<rparr>) (receiver_Shutdown (rw_text w) (rw_shutdown w) (rp_mgrs d))),
     dl_StartFIPR = (\<lambda>d. case receiver_StartFIPR (fst (rw_fipr w)) (snd (rw_fipr w)) c (rm_Assembler (rp_mgrs d), rm_FIPR (rp_mgrs d)) of
         ((am, fp), started) \<Rightarrow> (d\<lparr>rp_mgrs := (rp_mgrs d)\<lparr>rm_Assembler := am, rm_FIPR := fp\<rparr>\<rparr>, started)),
     dl_ReloadSigningKeys = (\<lambda>d. case receiver_ReloadSigningKeys (rw_newPath w) (rw_files w) (rp_keys d, rp_wrappers d) of
         ((ks, W), n) \<Rightarrow> (d\<lparr>rp_keys := ks, rp_wrappers := W\<rparr>, n)),
     dl_cancelled = rp_cancelled\<rparr>"
section \<open>A shutdown is for good\<close>

locale stopped_for_good =
  fixes D :: "'d daemon_like"
  assumes shutdown_cancels: "dl_Shutdown D d = Some d' \<Longrightarrow> dl_cancelled D d'"
    and init_keeps: "dl_cancelled D d \<Longrightarrow> dl_Init D k d = Some (d', r) \<Longrightarrow> dl_cancelled D d'"
    and start_keeps: "dl_cancelled D d \<Longrightarrow> dl_Start D d = Some (d', r) \<Longrightarrow> dl_cancelled D d'"
    and fipr_keeps: "dl_cancelled D (fst (dl_StartFIPR D d)) = dl_cancelled D d"
    and reload_keeps: "dl_cancelled D (fst (dl_ReloadSigningKeys D d)) = dl_cancelled D d"
begin

lemma restart_cancelled: "dl_cancelled D d \<Longrightarrow> restart D d = Some (d', r) \<Longrightarrow> dl_cancelled D d' \<and> (r = Waits \<or> r = Returned)"
  by (auto simp: restart_def split: option.splits if_splits) (blast intro: init_keeps start_keeps)+

lemma begin_update_cancelled: "dl_cancelled D (fst (begin_update D env d)) = dl_cancelled D d"
  using fipr_keeps [of d] by (auto simp: begin_update_def split: prod.splits)

text \<open>A turn that ends with the daemon still there has shut nothing down, or has restarted with a cancelled context.\<close>

lemma turn_shutdown:
  assumes "signal_turn D env sig d = Some (d', r)" and "\<not> dl_cancelled D d"
  shows "(dl_cancelled D d' \<longrightarrow> sig \<noteq> SIGUSR1) \<and> (\<not> dl_cancelled D d' \<longrightarrow> r = Waits \<and> (sig = SIGUSR1 \<or> sig = SIGHUP))"
proof (cases sig)
  case SIGUSR1
  then show ?thesis using assms reload_keeps [of d] by (simp add: signal_turn_def SigningKeyReloadSignal_def)
next
  case SIGHUP
  obtain d1 u where u: "begin_update D env d = (d1, u)" by fastforce
  have "\<not> dl_cancelled D d1" using begin_update_cancelled [of env d] assms(2) u by simp
  moreover have "dl_cancelled D d'" if "u = Some child" for child
    using assms(1) SIGHUP u that
    by (auto simp: signal_turn_def SigningKeyReloadSignal_def FullUpdateSignal_def dest: shutdown_cancels restart_cancelled split: option.splits if_splits)
  ultimately show ?thesis
    using assms(1) SIGHUP u by (cases u) (auto simp: signal_turn_def SigningKeyReloadSignal_def FullUpdateSignal_def)
qed (use assms(1) in \<open>auto simp: signal_turn_def SigningKeyReloadSignal_def FullUpdateSignal_def dest: shutdown_cancels\<close>)+

text \<open>After a program that could not be replaced nothing more than the pending signals is handled.\<close>

lemma failed_update_ends:
  assumes "begin_update D env d = (d1, Some child)" and "\<not> ue_execOk env" and "signal_turn D env SIGHUP d = Some (d2, r)"
  shows "dl_cancelled D d2 \<and> SignalHandler D [] d2 = Some (d2, Returned)"
  using assms by (auto simp: signal_turn_def SigningKeyReloadSignal_def FullUpdateSignal_def dest: shutdown_cancels restart_cancelled split: option.splits)

end

interpretation sender_stop: stopped_for_good "sender_daemon P w c" for P w c
  by unfold_locales (auto simp: sender_daemon_def split: option.splits sum.splits start_result.splits ended.splits prod.splits)

interpretation receiver_stop: stopped_for_good "receiver_daemon P w c" for P w c
  by unfold_locales (auto simp: receiver_daemon_def split: option.splits sum.splits init_error.splits prod.splits)

section \<open>Properties\<close>

text \<open>
  What a signal does to a running sender: the reload of the key leaves every worker and input as it is, and its context alive; an
  update that cannot be prepared changes nothing; each of the ending signals shuts the sender down once and ends the handler.
\<close>

theorem sender_signals:
  assumes "\<not> sp_cancelled d"
  shows "(\<exists>d'. signal_turn (sender_daemon P w c) env SIGUSR1 d = Some (d', Waits) \<and> sp_mgrs d' = sp_mgrs d \<and> sp_opts d' = sp_opts d \<and> \<not> sp_cancelled d') \<and>
    (\<not> ue_notified env \<or> preUpdate env = None \<longrightarrow> signal_turn (sender_daemon P w c) env SIGHUP d = Some (d, Waits)) \<and>
    (sig \<in> {SIGINT, SIGQUIT, SIGTERM} \<longrightarrow>
      signal_turn (sender_daemon P w c) env sig d =
        (case sender_Shutdown (sw_shutdown w) (sp_opts d) (sp_mgrs d) of
           Some (Ended (ms, _)) \<Rightarrow> Some (d\<lparr>sp_mgrs := ms, sp_cancelled := True\<rparr>, Returned)
         | _ \<Rightarrow> None))"
  using assms
  by (auto simp: signal_turn_def begin_update_def sender_daemon_def SigningKeyReloadSignal_def FullUpdateSignal_def split: prod.splits option.splits ended.splits)

text \<open>The handler of a sender that was started with the defaults, and a reload without a configured key.\<close>

definition sender_at_rest :: "sender_Mgrs \<Rightarrow> sender_process" where
  "sender_at_rest ms = \<lparr>sp_opts = ready_sender, sp_cfg = example_config, sp_wrappers = wrappers_init, sp_mgrs = ms, sp_init = True, sp_cancelled = False\<rparr>"

definition reload_world :: "sender_init_env \<Rightarrow> sender_world_env" where
  "reload_world ie = \<lparr>sw_init = ie, sw_start = sender_world, sw_shutdown = quiet_sender, sw_newKeyFile = Some [], sw_loaded = ([], True)\<rparr>"

theorem sender_signals_witness:
  "\<forall>ie env. \<exists>ms d'. sender_Start example_prims sender_world True False None ready_sender example_config = Some (Started ms) \<and>
    signal_turn (sender_daemon example_prims (reload_world ie) None) env SIGUSR1 (sender_at_rest ms) = Some (d', Waits) \<and> sp_mgrs d' = ms \<and> \<not> sp_cancelled d'"
proof (intro allI)
  fix ie env
  obtain ms where ms: "sender_Start example_prims sender_world True False None ready_sender example_config = Some (Started ms)"
    using example_started by blast
  have "\<not> sp_cancelled (sender_at_rest ms)" "sp_mgrs (sender_at_rest ms) = ms" by (simp_all add: sender_at_rest_def)
  with sender_signals [OF this(1), of example_prims "reload_world ie" None env SIGINT] ms
  show "\<exists>ms d'. sender_Start example_prims sender_world True False None ready_sender example_config = Some (Started ms) \<and>
    signal_turn (sender_daemon example_prims (reload_world ie) None) env SIGUSR1 (sender_at_rest ms) = Some (d', Waits) \<and> sp_mgrs d' = ms \<and> \<not> sp_cancelled d'"
    by auto
qed

text \<open>No suite takes an empty key for preparing a receiver.\<close>

lemma receiver_Init_empty_key: "receiver_Init P cpu pinned addressOk [] W opts \<noteq> Inr r"
proof -
  have "GetSuiteInfo P i = Some info \<Longrightarrow> si_ValidateKey info [] = Inl e \<or> si_DerivePublicKey info = None" if "e = Err []" for i info e
    using that by (auto simp: registry_defs ScalarSize_def split: if_splits)
  then show ?thesis by (fastforce simp: receiver_Init_def Let_def split: option.splits sum.splits if_splits prod.splits)
qed

text \<open>
  C37. A receiver does not survive an update that fails at the last step: when the program cannot be replaced, the handler prepares the daemon
  again with an empty key, which no suite accepts, and gives up; it never waits for signals again.
\<close>

theorem receiver_update_failure:
  assumes "ue_notified env" and "rw_fipr w = (True, True)" and "preUpdate env = Some child" and "\<not> ue_execOk env"
    and "SignalHandler (receiver_daemon P w c) ((env, SIGHUP) # ss) d = Some (d', r)"
  shows "r = Returned \<and> rp_cancelled d'"
proof (cases "rp_cancelled d \<and> ue_doneFirst env")
  case True
  then show ?thesis using assms(5) by (simp add: receiver_daemon_def)
next
  case False
  let ?D = "receiver_daemon P w c"
  have c: "dl_cancelled ?D = rp_cancelled" by (simp add: receiver_daemon_def)
  obtain d1 where b: "begin_update ?D env d = (d1, Some child)"
    using assms(1-3) by (simp add: begin_update_def receiver_daemon_def receiver_StartFIPR_def)
  have i: "dl_Init ?D [] d2 = None \<or> dl_Init ?D [] d2 = Some (d2, False)" for d2
    using receiver_Init_empty_key by (auto simp: receiver_daemon_def split: sum.splits init_error.splits prod.splits)
  have "restart ?D d2 = None \<or> restart ?D d2 = Some (d2, Returned)" for d2 using i [of d2] by (auto simp: restart_def)
  moreover have "signal_turn ?D env SIGHUP d = (case dl_Shutdown ?D d1 of None \<Rightarrow> None | Some d2 \<Rightarrow> restart ?D d2)"
    using assms(4) b by (simp add: signal_turn_def SigningKeyReloadSignal_def FullUpdateSignal_def split: option.split)
  ultimately have "signal_turn ?D env SIGHUP d = None \<or> (\<exists>d2. signal_turn ?D env SIGHUP d = Some (d2, Returned))"
    by (cases "dl_Shutdown ?D d1") auto
  then have "signal_turn ?D env SIGHUP d = Some (d', r) \<and> r = Returned" using assms(5) False c by auto
  then show ?thesis using receiver_stop.failed_update_ends [OF b assms(4), of d' r] c by simp
qed

definition update_fails :: update_env where
  "update_fails = \<lparr>ue_notified = True, ue_mode = Some (bytes_of_string ''receive''), ue_pipe = True, ue_stat = (\<lambda>_. ExeFile True), ue_current = Some [47, 115],
     ue_original = Some [47, 115], ue_called = [115], ue_cwd = True, ue_child = Some 42, ue_ready = (True, ReadyMessage), ue_environ = [], ue_execOk = False,
     ue_doneFirst = False\<rparr>"

definition receiver_world :: receiver_world_env where
  "receiver_world = \<lparr>rw_cpu = 4, rw_pinned = None, rw_addressOk = True, rw_start = open_env, rw_shutdown = quiet_shutdown, rw_text = example_text,
     rw_newPath = None, rw_files = (\<lambda>_. Missing), rw_fipr = (True, True)\<rparr>"

lemma quiet_shutdown_ends:
  assumes "view_ok (rm_Assembler ms)"
  shows "\<exists>ms' waits. receiver_Shutdown example_text quiet_shutdown ms = Some (ms', waits)"
proof -
  obtain am where "asm_shutdown (sv_shards quiet_shutdown) (rm_Assembler ms) = Some am"
    using asm_shutdown_ends [of "rm_Assembler ms" "sv_shards quiet_shutdown"] assms by (auto simp: view_ok_def)
  moreover have "WaitUntilZero 0 (10 * second) [(0, 1), (0, 2), (0, 3)] = Some ((True, 0), [50000000, 100000000])"
    by (simp add: WaitUntilZero_def maxBackoff_def)
  ultimately show ?thesis by (simp add: receiver_Shutdown_def quiet_shutdown_def Let_def split_beta)
qed

lemma default_Init_empty_key: "receiver_Init P 4 None True [] W (receiver_setDefaults P 4 unset_opts) = Inl BadKey"
proof -
  have g: "GetSuiteInfo P 1 = Some (cryptoSuite1 P)" "GetSignatureInfo P 0 = Some signatureSuite0" by (simp_all add: registry_defs)
  have v: "si_ValidateKey (cryptoSuite1 P) [] = Inl (Err [])" "sg_Name signatureSuite0 = NoSigName" "si_Name (cryptoSuite1 P) \<noteq> []"
    by (simp_all add: registry_defs ScalarSize_def NoSigName_def DefaultCryptoName_def bytes_of_string_def)
  show ?thesis
    by (simp add: receiver_Init_def receiver_setDefaults_def default_suites_def unset_opts_def VerifyWholeDuration_def suite_names g v Let_def orElse_def)
qed

theorem receiver_update_failure_witness:
  "\<exists>ms d'. receiver_Start open_env True False None (receiver_setDefaults example_prims 4 unset_opts) = Inr (Some ms) \<and>
    SignalHandler (receiver_daemon example_prims receiver_world None) [(update_fails, SIGHUP)]
      \<lparr>rp_opts = receiver_setDefaults example_prims 4 unset_opts, rp_keys = [], rp_wrappers = wrappers_init, rp_mgrs = ms, rp_init = True, rp_cancelled = False\<rparr> =
      Some (d', Returned) \<and> rp_cancelled d'"
proof -
  let ?opts = "receiver_setDefaults example_prims 4 unset_opts" and ?D = "receiver_daemon example_prims receiver_world None"
  obtain ms where ms: "receiver_Start open_env True False None ?opts = Inr (Some ms)"
    using default_start [OF unset_opts_ok open_env_ok, of 4 None example_prims] by auto
  let ?d = "\<lparr>rp_opts = ?opts, rp_keys = [], rp_wrappers = wrappers_init, rp_mgrs = ms, rp_init = True, rp_cancelled = False\<rparr>"
  have "view_ok (rm_Assembler ms)" using started_view [OF ms] by (simp add: open_env_def unset_opts_def clampMin_def)
  then obtain ms' waits where sh: "receiver_Shutdown example_text quiet_shutdown
      (ms\<lparr>rm_Assembler := (rm_Assembler ms)\<lparr>FIPRRunning := True\<rparr>, rm_FIPR := Some ([NSmFIPR], \<lparr>Connections = 0, AcceptedFragments = 0, RejectedFragments = 0\<rparr>)\<rparr>) = Some (ms', waits)"
    using quiet_shutdown_ends [of "ms\<lparr>rm_Assembler := (rm_Assembler ms)\<lparr>FIPRRunning := True\<rparr>, rm_FIPR := Some ([NSmFIPR], \<lparr>Connections = 0, AcceptedFragments = 0, RejectedFragments = 0\<rparr>)\<rparr>"]
    by (auto simp: view_ok_def)
  have pre: "preUpdate update_fails = Some (Some 42)"
    by (simp add: preUpdate_def update_fails_def SendMode_def getExecutablePath_def readinessReceiver_def bytes_of_string_def)
  then obtain d' r where h: "SignalHandler ?D [(update_fails, SIGHUP)] ?d = Some (d', r)"
    using sh default_Init_empty_key [of example_prims wrappers_init]
    by (simp add: receiver_daemon_def signal_turn_def begin_update_def restart_def receiver_world_def receiver_StartFIPR_def GetTagList_def
        SigningKeyReloadSignal_def FullUpdateSignal_def update_fails_def)
  have "ue_notified update_fails" "rw_fipr receiver_world = (True, True)" "\<not> ue_execOk update_fails" by (simp_all add: update_fails_def receiver_world_def)
  from receiver_update_failure [OF this(1,2) pre this(3) h] h ms show ?thesis by blast
qed

text \<open>
  A sender whose program could not be replaced is started again, but under the context that its shutdown has cancelled: as soon as no
  signal is pending, the handler returns and the program ends.
\<close>

theorem sender_update_failure:
  assumes "ue_notified env" and "ue_mode env = Some SendMode" and "\<not> ue_execOk env"
    and "signal_turn (sender_daemon P w c) env SIGHUP d = Some (d', Waits)"
  shows "sp_cancelled d' \<and> SignalHandler (sender_daemon P w c) [] d' = Some (d', Returned)"
proof -
  have "begin_update (sender_daemon P w c) env d = (d, Some None)"
    using assms(1,2) by (simp add: begin_update_def preUpdate_def sender_daemon_def)
  from sender_stop.failed_update_ends [OF this assms(3,4)] show ?thesis by (simp add: sender_daemon_def)
qed

section \<open>The two processes of an update\<close>

lemma send_ready_all: "send_ready ws sent m = Some (out, True) \<Longrightarrow> out = sent @ m"
  by (induction ws sent m rule: send_ready.induct) (auto split: option.splits)

lemma send_ready_ends:
  assumes "length m \<le> length ws" and "\<forall>w \<in> set ws. \<exists>n. w = Some (Suc n)"
  shows "send_ready ws sent m = Some (sent @ m, True)"
  using assms
proof (induction ws sent m rule: send_ready.induct)
  case (3 w ws sent m ms)
  then obtain n where n: "w = Some (Suc n)" by auto
  have "length (drop (Suc n) (m # ms)) \<le> length ws" using "3.prems"(1) by simp
  with 3 n show ?case by simp
qed simp_all

text \<open>
  The readiness of the child reaches its parent however the pipe cuts it: whatever was sent completely is accepted, and as many writes as the
  message has bytes are enough.
\<close>

theorem readiness_received:
  assumes "fdStr \<noteq> []" and "ReadinessSender fdStr opened ws closedOk = Some (sent, True)"
  shows "readinessReceiver True (sent @ later)"
  using assms send_ready_all
  by (fastforce simp: ReadinessSender_def readinessReceiver_def split: if_splits)

theorem readiness_received_witness:
  "\<exists>sent. ReadinessSender [51] True [Some 2, Some 3] True = Some (sent, True) \<and> readinessReceiver True (sent @ [])"
proof -
  have a: "Atoi [51] \<noteq> None" by code_simp
  have "send_ready [Some 2, Some 3] [] ReadyMessage = Some (ReadyMessage, True)" by (simp add: ReadyMessage_def bytes_of_string_def)
  then have s: "ReadinessSender [51] True [Some 2, Some 3] True = Some (ReadyMessage, True)" using a by (simp add: ReadinessSender_def)
  from readiness_received [OF _ s, of "[]"] s show ?thesis by auto
qed

lemma reap_poll_ends: "(r, g, now) \<in> set looks \<Longrightarrow> now > deadline \<Longrightarrow> \<exists>x. reap_poll deadline looks = Some x"
  by (induction looks) auto

text \<open>
  The wait for the temporary child ends: at the first look past the deadline at the latest, and it is killed only if no look found it
  gone by then.
\<close>

theorem child_reaped:
  assumes "Atoi childPID \<noteq> None" and "childPID \<noteq> []" and "(r, g, now) \<in> set looks" "now > start + timeout" and "w \<in> set waits" "w \<noteq> WaitNothing"
  shows "\<exists>res. reap_child childPID termOk start timeout looks killOk waits = Some res \<and>
    (res \<in> {ChildKilled, KillFailed, WaitFailed} \<longrightarrow> reap_poll (start + timeout) looks = Some None)"
proof -
  obtain x where x: "reap_poll (start + timeout) looks = Some x" using reap_poll_ends assms(3,4) by blast
  moreover have "x \<noteq> Some ChildKilled \<and> x \<noteq> Some KillFailed \<and> x \<noteq> Some WaitFailed" using x by (induction looks) (auto split: if_splits)
  moreover have "\<exists>y. reap_wait waits = Some y" using assms(5,6) by (induction waits) (auto split: wait_result.splits)
  ultimately show ?thesis using assms(1,2) by (auto simp: reap_child_def split: option.splits)
qed

end
