(* ===== verification/Internal_Log.thy ===== *)
theory Internal_Log
  imports Sender_Ingest "HOL-Library.Multiset"
begin

text \<open>
  The program's own log (\<^verbatim>\<open>internal/logctx\<close>: \<^verbatim>\<open>entry.go\<close>, \<^verbatim>\<open>internal.go\<close>, \<^verbatim>\<open>new.go\<close>, \<^verbatim>\<open>format.go\<close>,
  \<^verbatim>\<open>output.go\<close>): events are queued under a mutex, and one writer takes them, leaves out repetitions and
  hands the rest to a channel of events and to a sink of text. Shown are what the writer writes, how repetitions are
  counted, that the mutex is never released once the writer has found no output, and what becomes of time stamps.
\<close>

section \<open>The logger\<close>

definition dedupWindow :: int where "dedupWindow = 5 * 1000000000"
definition minRepeats :: int where "minRepeats = 10"
definition suppressCooldown :: int where "suppressCooldown = 60 * 1000000000"
definition maxOutputWriteFailures :: nat where "maxOutputWriteFailures = 12"
definition rawCapacity :: nat where "rawCapacity = 64"

text \<open>The zero time (the first of January of the year one) in nanoseconds since 1970.\<close>

definition zeroTime :: int where "zeroTime = - 62135596800 * 1000000000"

record dedupState =
  ds_lastMsg :: bytes
  ds_repeatCount :: int
  ds_lastSuppressTime :: int

text \<open>
  The raw output is the buffer of a channel, the formatted one the text its sink has taken. \<open>lg_held\<close> is true
  when the mutex of the queue was locked by a routine that has ended.
\<close>

record Logger =
  lg_PrintLevel :: int
  lg_queue :: "log_event list"
  lg_dedup :: dedupState
  lg_formattedOutput :: "bytes option"
  lg_rawOutput :: "log_event list option"
  lg_held :: bool

definition logctx_New :: "int \<Rightarrow> Logger" where
  "logctx_New logLevel = \<lparr>lg_PrintLevel = logLevel, lg_queue = [],
     lg_dedup = \<lparr>ds_lastMsg = [], ds_repeatCount = 0, ds_lastSuppressTime = zeroTime\<rparr>,
     lg_formattedOutput = None, lg_rawOutput = None, lg_held = False\<rparr>"

text \<open>Every operation on the queue takes the mutex first; \<open>None\<close> if that is never released.\<close>

definition SetLogLevel :: "int \<Rightarrow> Logger \<Rightarrow> Logger option" where
  "SetLogLevel newLevel lg = (if lg_held lg then None else Some (lg\<lparr>lg_PrintLevel := newLevel\<rparr>))"

definition logger_log :: "int \<Rightarrow> int \<Rightarrow> bytes \<Rightarrow> bytes list \<Rightarrow> bytes \<Rightarrow> Logger \<Rightarrow> Logger option" where
  "logger_log now eventLevel eventSeverity tags fullMessage lg =
     (if lg_held lg then None
      else if eventLevel > lg_PrintLevel lg \<and> eventSeverity \<noteq> ErrorLog then Some lg
      else Some (lg\<lparr>lg_queue := lg_queue lg @
             [\<lparr>ev_Timestamp = now, ev_Severity = eventSeverity, ev_Tags = tags, ev_Message = fullMessage\<rparr>]\<rparr>))"

text \<open>\<^verbatim>\<open>%w\<close> is formatted like \<^verbatim>\<open>%v\<close>.\<close>

fun replace_w :: "bytes \<Rightarrow> bytes" where
  "replace_w (a # b # bs) = (if a = 37 \<and> b = 119 then 37 # 118 # replace_w bs else a # replace_w (b # bs))"
| "replace_w bs = bs"

definition LogEvent ::
  "(bytes \<Rightarrow> 'v list \<Rightarrow> bytes) \<Rightarrow> int \<Rightarrow> ctx \<Rightarrow> int \<Rightarrow> bytes \<Rightarrow> bytes \<Rightarrow> 'v list \<Rightarrow> Logger option \<Rightarrow> Logger option option" where
  "LogEvent sprintf now c eventLevel severity message vars logger =
     (case logger of
        None \<Rightarrow> Some None
      | Some lg \<Rightarrow>
          let newMsg = (if vars = [] \<or> 37 \<notin> set message then message else sprintf (replace_w message) vars) in
          map_option Some (logger_log now eventLevel severity (GetTagList c) newMsg lg))"

definition SetFormattedOutput :: "Logger \<Rightarrow> Logger" where
  "SetFormattedOutput lg = lg\<lparr>lg_formattedOutput := Some []\<rparr>"

definition UnsetFormattedOutput :: "Logger \<Rightarrow> Logger" where
  "UnsetFormattedOutput lg = lg\<lparr>lg_formattedOutput := None\<rparr>"

definition SetRawOutput :: "Logger \<Rightarrow> Logger" where
  "SetRawOutput lg = lg\<lparr>lg_rawOutput := Some []\<rparr>"

definition UnsetRawOutput :: "Logger \<Rightarrow> Logger" where
  "UnsetRawOutput lg = lg\<lparr>lg_rawOutput := None\<rparr>"

section \<open>Text of an event\<close>

text \<open>\<open>fmt\<close> is the time format of the standard library (\<^verbatim>\<open>RFC3339Nano\<close>).\<close>

fun LastIndex :: "bytes \<Rightarrow> byte \<Rightarrow> nat option" where
  "LastIndex [] b = None"
| "LastIndex (x # xs) b = (case LastIndex xs b of Some i \<Rightarrow> Some (Suc i) | None \<Rightarrow> if x = b then Some 0 else None)"

definition pad_nanoseconds :: "bytes list \<Rightarrow> bytes \<Rightarrow> bytes" where
  "pad_nanoseconds majorFields formatted =
     (case Split 45 (majorFields ! 1) of
        [nanoseconds, timezoneOffset] \<Rightarrow>
          majorFields ! 0 @ [46] @ replicate (9 - length nanoseconds) 48 @ nanoseconds @ [45] @ timezoneOffset
      | _ \<Rightarrow> formatted)"

text \<open>\<open>None\<close> is the panic of a slice past the end of the text.\<close>

definition padTimestamp :: "bytes \<Rightarrow> bytes option" where
  "padTimestamp formatted =
     (case LastIndex formatted 58 of
        None \<Rightarrow> Some formatted
      | Some lastColon \<Rightarrow>
          let majorFields = Split 46 formatted in
          if length majorFields > 2 then Some formatted
          else if length majorFields = 1
          then (if lastColon + 3 > length formatted then None
                else
                  let newFormatted = take (lastColon + 3) formatted @ 46 # replicate 9 48 @ drop (lastColon + 3) formatted;
                      majorFields = Split 46 newFormatted in
                  if length majorFields \<noteq> 2 then Some formatted else Some (pad_nanoseconds majorFields newFormatted))
          else Some (pad_nanoseconds majorFields formatted))"

definition Event_Format :: "(int \<Rightarrow> bytes) \<Rightarrow> log_event \<Rightarrow> bytes option" where
  "Event_Format fmt event =
     map_option (\<lambda>ts. Join [32]
         (ts @ (if ev_Tags event \<noteq> [] then [91 # Join [slash] (ev_Tags event) @ [93]] else []) @
          (if ev_Severity event \<noteq> [] then [91 # ev_Severity event @ [93]] else []) @
          (if ev_Message event \<noteq> [] then [ev_Message event] else [])))
       (if ev_Timestamp event \<noteq> zeroTime then map_option (\<lambda>t. [91 # t @ [93]]) (padTimestamp (fmt (ev_Timestamp event))) else Some [])"

text \<open>The lines of the buffer: a stable sort by time, unset times last, and a newline at the end of each.\<close>

definition event_before :: "log_event \<Rightarrow> log_event \<Rightarrow> bool" where
  "event_before ei ej =
     (let ti = ev_Timestamp ei; tj = ev_Timestamp ej in
      if ti = zeroTime \<and> tj = zeroTime then False else if ti = zeroTime then False else if tj = zeroTime then True else ti < tj)"

fun insert_event :: "log_event \<Rightarrow> log_event list \<Rightarrow> log_event list" where
  "insert_event e [] = [e]"
| "insert_event e (f # es) = (if event_before f e then f # insert_event e es else e # f # es)"

definition sort_events :: "log_event list \<Rightarrow> log_event list" where
  "sort_events es = foldr insert_event es []"

definition end_line :: "bytes \<Rightarrow> bytes" where
  "end_line msg = (if msg \<noteq> [] \<and> last msg = 10 then msg else msg @ [10])"

definition GetFormattedLogLines :: "(int \<Rightarrow> bytes) \<Rightarrow> Logger \<Rightarrow> bytes list option" where
  "GetFormattedLogLines fmt lg =
     (if lg_held lg then None else those (map (map_option end_line \<circ> Event_Format fmt) (sort_events (lg_queue lg))))"

section \<open>Repetitions\<close>

definition suppress_text :: "int \<Rightarrow> bytes \<Rightarrow> bytes" where
  "suppress_text n msg = bytes_of_string ''Suppressed '' @ FormatInt n @ bytes_of_string '' repeated messages: '' @ msg"

definition is_repeat :: "int \<Rightarrow> log_event \<Rightarrow> dedupState \<Rightarrow> bool" where
  "is_repeat now e st \<longleftrightarrow> ev_Message e \<noteq> [] \<and> now - ev_Timestamp e \<le> dedupWindow \<and> ev_Message e = ds_lastMsg st"

definition handleDuplication :: "int \<Rightarrow> log_event \<Rightarrow> dedupState \<Rightarrow> dedupState \<times> log_event option" where
  "handleDuplication now latestEvent st =
     (if is_repeat now latestEvent st
      then
        let n = ds_repeatCount st + 1 in
        if n \<ge> minRepeats \<and> now - ds_lastSuppressTime st \<ge> suppressCooldown
        then (st\<lparr>ds_lastSuppressTime := now, ds_repeatCount := 0\<rparr>, Some (latestEvent\<lparr>ev_Message := suppress_text n (ds_lastMsg st)\<rparr>))
        else (st\<lparr>ds_repeatCount := n\<rparr>, None)
      else (st\<lparr>ds_lastMsg := ev_Message latestEvent, ds_repeatCount := 1\<rparr>, Some latestEvent))"

section \<open>The writer\<close>

text \<open>
  One pass of the loop of \<^verbatim>\<open>outputWriter\<close>. The reader of the channel takes some events before each attempt to send; an
  attempt to write to the sink succeeds or takes nothing. An event that cannot be sent in twelve attempts is dropped.
\<close>

record write_env =
  we_done :: bool
  we_now :: int
  we_taken :: "nat list"
  we_writes :: "bool list"

fun push_raw :: "nat list \<Rightarrow> log_event \<Rightarrow> log_event list \<Rightarrow> log_event list" where
  "push_raw [] e ch = ch"
| "push_raw (k # ks) e ch = (let ch = drop k ch in if length ch < rawCapacity then ch @ [e] else push_raw ks e ch)"

datatype writer_result = WriterEnded | WriterWaits | WriterNoOutput | WriterTurned | WriterPanic

definition emit_event :: "(int \<Rightarrow> bytes) \<Rightarrow> write_env \<Rightarrow> log_event \<Rightarrow> Logger \<Rightarrow> Logger option" where
  "emit_event fmt env e lg =
     (let lg = lg\<lparr>lg_rawOutput := map_option (push_raw (take maxOutputWriteFailures (we_taken env)) e) (lg_rawOutput lg)\<rparr> in
      case lg_formattedOutput lg of
        None \<Rightarrow> Some lg
      | Some out \<Rightarrow>
          map_option (\<lambda>t. lg\<lparr>lg_formattedOutput := Some (if True \<in> set (take maxOutputWriteFailures (we_writes env)) then out @ t else out)\<rparr>)
            (Event_Format fmt e))"

definition outputWriter_turn :: "(int \<Rightarrow> bytes) \<Rightarrow> write_env \<Rightarrow> Logger \<Rightarrow> (Logger \<times> writer_result) option" where
  "outputWriter_turn fmt env lg =
     (if lg_held lg then None
      else (case lg_queue lg of
        [] \<Rightarrow> Some (lg, if we_done env then WriterEnded else WriterWaits)
      | event # rest \<Rightarrow>
          if lg_rawOutput lg = None \<and> lg_formattedOutput lg = None then Some (lg\<lparr>lg_held := True\<rparr>, WriterNoOutput)
          else
            (case handleDuplication (we_now env) event (lg_dedup lg) of (st, printed) \<Rightarrow>
             let lg = lg\<lparr>lg_queue := rest, lg_dedup := st\<rparr> in
             case printed of
               None \<Rightarrow> Some (lg, WriterTurned)
             | Some e \<Rightarrow>
                 (case emit_event fmt env e lg of None \<Rightarrow> Some (lg, WriterPanic) | Some lg \<Rightarrow> Some (lg, WriterTurned)))))"

fun writer_run :: "(int \<Rightarrow> bytes) \<Rightarrow> write_env list \<Rightarrow> Logger \<Rightarrow> (Logger \<times> writer_result) option" where
  "writer_run fmt [] lg = Some (lg, WriterTurned)"
| "writer_run fmt (env # envs) lg =
     (case outputWriter_turn fmt env lg of
        Some (lg, WriterTurned) \<Rightarrow> writer_run fmt envs lg
      | r \<Rightarrow> r)"

section \<open>What is written\<close>

text \<open>The events that a sequence of events leaves after repetitions, and the state they leave.\<close>

fun dedup_run :: "(int \<times> log_event) list \<Rightarrow> dedupState \<Rightarrow> dedupState \<times> log_event list" where
  "dedup_run [] st = (st, [])"
| "dedup_run ((now, e) # es) st =
     (case handleDuplication now e st of (st, p) \<Rightarrow>
      case dedup_run es st of (st, ps) \<Rightarrow> (st, (case p of None \<Rightarrow> [] | Some e \<Rightarrow> [e]) @ ps))"

lemma handleDuplication_time:
  "handleDuplication now e st = (st', Some e') \<Longrightarrow> ev_Timestamp e' = ev_Timestamp e"
  by (auto simp: handleDuplication_def Let_def split: if_splits)

lemma Event_Format_some: "padTimestamp (fmt (ev_Timestamp e)) \<noteq> None \<Longrightarrow> \<exists>t. Event_Format fmt e = Some t"
  by (auto simp: Event_Format_def)

lemma emit_text:
  assumes "lg_rawOutput lg = None" "lg_formattedOutput lg = Some out" "True \<in> set (take maxOutputWriteFailures (we_writes env))"
    and "Event_Format fmt e = Some t"
  shows "emit_event fmt env e lg = Some (lg\<lparr>lg_formattedOutput := Some (out @ t)\<rparr>)"
  using assms by (cases lg) (simp add: emit_event_def)

lemma writer_run_writes:
  assumes "length envs = length (lg_queue lg)" and "\<not> lg_held lg" and "lg_rawOutput lg = None" and "lg_formattedOutput lg = Some out"
    and "\<forall>env \<in> set envs. True \<in> set (take maxOutputWriteFailures (we_writes env))"
    and "\<forall>e \<in> set (lg_queue lg). padTimestamp (fmt (ev_Timestamp e)) \<noteq> None"
  shows "\<exists>st es. dedup_run (zip (map we_now envs) (lg_queue lg)) (lg_dedup lg) = (st, es) \<and>
    writer_run fmt envs lg = Some (lg\<lparr>lg_queue := [], lg_dedup := st,
      lg_formattedOutput := Some (out @ concat (map (the \<circ> Event_Format fmt) es))\<rparr>, WriterTurned)"
  using assms
proof (induction envs arbitrary: lg out)
  case Nil
  then show ?case by simp
next
  case (Cons env envs)
  then obtain e rest where q: "lg_queue lg = e # rest" by (cases "lg_queue lg") auto
  obtain st p where h: "handleDuplication (we_now env) e (lg_dedup lg) = (st, p)" by fastforce
  show ?case
  proof (cases p)
    case None
    from Cons.IH [of "lg\<lparr>lg_queue := rest, lg_dedup := st\<rparr>" out] Cons.prems q h None show ?thesis
      by (auto simp: outputWriter_turn_def)
  next
    case (Some e')
    have "padTimestamp (fmt (ev_Timestamp e')) \<noteq> None" using handleDuplication_time [of _ _ _ st e'] h Some Cons.prems(6) q by auto
    then obtain t where t: "Event_Format fmt e' = Some t" using Event_Format_some by blast
    from Cons.IH [of "lg\<lparr>lg_queue := rest, lg_dedup := st, lg_formattedOutput := Some (out @ t)\<rparr>" "out @ t"] Cons.prems q h Some t show ?thesis
      by (auto simp: outputWriter_turn_def Let_def emit_text [where e = e' and out = out])
  qed
qed

section \<open>The count of repetitions\<close>

text \<open>
  A run of repetitions of one message: each is left out or announces a count. The counts announced and the count kept
  add up to the repetitions and the message printed at first, so that the first announcement counts one too many.
\<close>

fun announce_run :: "(int \<times> log_event) list \<Rightarrow> dedupState \<Rightarrow> dedupState \<times> int list" where
  "announce_run [] st = (st, [])"
| "announce_run ((now, e) # es) st =
     (case handleDuplication now e st of (st', p) \<Rightarrow>
      case announce_run es st' of (st'', ns) \<Rightarrow> (st'', (if p = None then [] else [ds_repeatCount st + 1]) @ ns))"

lemma handleDuplication_repeat:
  assumes "is_repeat now e st"
  obtains "handleDuplication now e st = (st\<lparr>ds_repeatCount := ds_repeatCount st + 1\<rparr>, None)"
  | "handleDuplication now e st = (st\<lparr>ds_lastSuppressTime := now, ds_repeatCount := 0\<rparr>,
        Some (e\<lparr>ev_Message := suppress_text (ds_repeatCount st + 1) (ds_lastMsg st)\<rparr>))" "ds_repeatCount st + 1 \<ge> minRepeats"
  using assms that by (cases "ds_repeatCount st + 1 \<ge> minRepeats \<and> now - ds_lastSuppressTime st \<ge> suppressCooldown")
    (auto simp: handleDuplication_def Let_def)

lemma announced_counts:
  assumes "\<forall>(now, e) \<in> set es. ev_Message e = msg \<and> now - ev_Timestamp e \<le> dedupWindow" and "ds_lastMsg st = msg" and "msg \<noteq> []"
    and "announce_run es st = (st', ns)" and "dedup_run es st = (st'', ps)"
  shows "sum_list ns + ds_repeatCount st' = ds_repeatCount st + int (length es) \<and> (\<forall>n \<in> set ns. n \<ge> minRepeats) \<and>
    st'' = st' \<and> map ev_Message ps = map (\<lambda>n. suppress_text n msg) ns"
  using assms
proof (induction es arbitrary: st ns ps)
  case (Cons a es)
  obtain now e where a: "a = (now, e)" by fastforce
  have r: "is_repeat now e st" using Cons.prems a by (simp add: is_repeat_def)
  from r show ?case
  proof (cases rule: handleDuplication_repeat)
    case 1
    obtain x y where run: "announce_run es (st\<lparr>ds_repeatCount := ds_repeatCount st + 1\<rparr>) = (st', x)"
      "dedup_run es (st\<lparr>ds_repeatCount := ds_repeatCount st + 1\<rparr>) = (st'', y)" "ns = x" "ps = y"
      using Cons.prems(4,5) 1 a by (auto split: prod.splits)
    from Cons.IH [OF _ _ _ run(1,2)] Cons.prems(1-3) run(3,4) show ?thesis by simp
  next
    case 2
    obtain x y where run: "announce_run es (st\<lparr>ds_lastSuppressTime := now, ds_repeatCount := 0\<rparr>) = (st', x)"
      "dedup_run es (st\<lparr>ds_lastSuppressTime := now, ds_repeatCount := 0\<rparr>) = (st'', y)"
      "ns = (ds_repeatCount st + 1) # x" "ps = e\<lparr>ev_Message := suppress_text (ds_repeatCount st + 1) (ds_lastMsg st)\<rparr> # y"
      using Cons.prems(4,5) 2 a by (auto split: prod.splits)
    from Cons.IH [OF _ _ _ run(1,2)] Cons.prems(1-3) run(3,4) 2(2) show ?thesis by simp
  qed
qed simp
section \<open>Which events are written\<close>

text \<open>
  The rule of the log by positions, without its state. Event number \<open>i\<close> is \<open>snd (zs ! i)\<close>, taken at the time \<open>fst (zs ! i)\<close>; \<open>os ! i\<close> is
  what is written for it. An event repeats if it has a text, is at most five seconds old and has the text of the event before it.
\<close>

definition repeats :: "bytes \<Rightarrow> (int \<times> log_event) list \<Rightarrow> nat \<Rightarrow> bool" where
  "repeats before zs i \<longleftrightarrow>
     ev_Message (snd (zs ! i)) \<noteq> [] \<and> fst (zs ! i) - ev_Timestamp (snd (zs ! i)) \<le> 5000000000 \<and>
     ev_Message (snd (zs ! i)) = (if i = 0 then before else ev_Message (snd (zs ! (i - 1))))"

text \<open>The last position before \<open>i\<close> with a property.\<close>

definition latest :: "(nat \<Rightarrow> bool) \<Rightarrow> nat \<Rightarrow> nat option" where
  "latest P i = find P (rev [0..<i])"

text \<open>
  The number a notice at \<open>i\<close> would give: the events since something was written, that one included unless it was itself a notice. And the
  time of the last notice.
\<close>

definition repetitions :: "dedupState \<Rightarrow> (int \<times> log_event) list \<Rightarrow> log_event option list \<Rightarrow> nat \<Rightarrow> int" where
  "repetitions st zs os i =
     (case latest (\<lambda>j. os ! j \<noteq> None) i of
        None \<Rightarrow> ds_repeatCount st + int i + 1
      | Some j \<Rightarrow> int i - int j + (if repeats (ds_lastMsg st) zs j then 0 else 1))"

definition last_notice :: "dedupState \<Rightarrow> (int \<times> log_event) list \<Rightarrow> log_event option list \<Rightarrow> nat \<Rightarrow> int" where
  "last_notice st zs os i =
     (case latest (\<lambda>j. os ! j \<noteq> None \<and> repeats (ds_lastMsg st) zs j) i of
        None \<Rightarrow> ds_lastSuppressTime st
      | Some j \<Rightarrow> fst (zs ! j))"

definition written_at :: "dedupState \<Rightarrow> (int \<times> log_event) list \<Rightarrow> log_event option list \<Rightarrow> nat \<Rightarrow> log_event option" where
  "written_at st zs os i =
     (if \<not> repeats (ds_lastMsg st) zs i then Some (snd (zs ! i))
      else if 10 \<le> repetitions st zs os i \<and> 60000000000 \<le> fst (zs ! i) - last_notice st zs os i
      then Some ((snd (zs ! i))\<lparr>ev_Message := bytes_of_string ''Suppressed '' @ FormatInt (repetitions st zs os i) @
             bytes_of_string '' repeated messages: '' @ ev_Message (snd (zs ! i))\<rparr>)
      else None)"

lemma latest_0 [simp]: "latest P 0 = None"
  by (simp add: latest_def)

lemma latest_Suc [simp]: "latest P (Suc i) = (if P i then Some i else latest P i)"
  by (simp add: latest_def)

lemma latest_cong: "(\<And>j. j < i \<Longrightarrow> P j \<longleftrightarrow> Q j) \<Longrightarrow> latest P i = latest Q i"
  by (induction i) simp_all

lemma latest_less: "latest P i = Some j \<Longrightarrow> j < i"
  by (induction i) (auto split: if_splits)

lemma latest_mono: "latest P i = None \<Longrightarrow> latest (\<lambda>j. P j \<and> Q j) i = None"
  by (induction i) (auto split: if_splits)

text \<open>Later events change nothing.\<close>

lemma repeats_append: "i < length zs \<Longrightarrow> repeats b (zs @ ys) i = repeats b zs i"
  by (auto simp: repeats_def nth_append)

lemma rule_append:
  assumes "i \<le> length zs" and "length os = length zs"
  shows "repetitions st (zs @ ys) (os @ ps) i = repetitions st zs os i" and "last_notice st (zs @ ys) (os @ ps) i = last_notice st zs os i"
proof -
  have "latest (\<lambda>j. (os @ ps) ! j \<noteq> None) i = latest (\<lambda>j. os ! j \<noteq> None) i"
    using assms by (intro latest_cong) (simp add: nth_append)
  then show "repetitions st (zs @ ys) (os @ ps) i = repetitions st zs os i"
    using latest_less assms unfolding repetitions_def by (fastforce simp: repeats_append split: option.splits)
  have "latest (\<lambda>j. (os @ ps) ! j \<noteq> None \<and> repeats (ds_lastMsg st) (zs @ ys) j) i = latest (\<lambda>j. os ! j \<noteq> None \<and> repeats (ds_lastMsg st) zs j) i"
    using assms by (intro latest_cong) (simp add: nth_append repeats_append)
  then show "last_notice st (zs @ ys) (os @ ps) i = last_notice st zs os i"
    using latest_less assms unfolding last_notice_def by (fastforce simp: nth_append split: option.splits)
qed

lemma written_at_append:
  "i < length zs \<Longrightarrow> length os = length zs \<Longrightarrow> written_at st (zs @ ys) (os @ ps) i = written_at st zs os i"
  by (simp add: written_at_def rule_append repeats_append nth_append)

text \<open>What the state says after the events \<open>zs\<close>, in the terms of the rule.\<close>

definition dedup_after :: "dedupState \<Rightarrow> (int \<times> log_event) list \<Rightarrow> log_event option list \<Rightarrow> dedupState" where
  "dedup_after st zs os =
     \<lparr>ds_lastMsg = (if zs = [] then ds_lastMsg st else ev_Message (snd (last zs))),
      ds_repeatCount = repetitions st zs os (length zs) - 1, ds_lastSuppressTime = last_notice st zs os (length zs)\<rparr>"

lemma repeats_snoc: "repeats (ds_lastMsg st) (zs @ [(now, e)]) (length zs) \<longleftrightarrow> is_repeat now e (dedup_after st zs os)"
  by (cases zs rule: rev_cases) (auto simp: repeats_def is_repeat_def dedup_after_def dedupWindow_def nth_append)

lemma handleDuplication_rule:
  assumes "length os = length zs" and "handleDuplication now e (dedup_after st zs os) = (st', p)"
  shows "p = written_at st (zs @ [(now, e)]) (os @ [p]) (length zs)" and "st' = dedup_after st (zs @ [(now, e)]) (os @ [p])"
proof -
  let ?zs = "zs @ [(now, e)]" and ?os = "os @ [p]"
  note rule = rule_append [OF order_refl assms(1), of st "[(now, e)]" "[p]"]
  note rep = repeats_snoc [of st zs now e os]
  have same: "ds_lastMsg (dedup_after st zs os) = ev_Message e" if "is_repeat now e (dedup_after st zs os)"
    using that by (simp add: is_repeat_def)
  have at: "?os ! length zs = p" "?zs ! length zs = (now, e)" using assms(1) by (simp_all add: nth_append)
  have count: "ds_repeatCount (dedup_after st zs os) + 1 = repetitions st zs os (length zs)"
    "ds_lastSuppressTime (dedup_after st zs os) = last_notice st zs os (length zs)" by (simp_all add: dedup_after_def)
  show "p = written_at st ?zs ?os (length zs)"
    using assms(2) rep same count unfolding written_at_def rule at
    by (auto simp: handleDuplication_def Let_def suppress_text_def minRepeats_def suppressCooldown_def split: if_splits)
  have n: "length ?zs = Suc (length zs)" by simp
  have r: "repetitions st ?zs ?os (Suc (length zs)) =
      (if p = None then repetitions st zs os (length zs) + 1 else if is_repeat now e (dedup_after st zs os) then 1 else 2)"
  proof (cases p)
    case None
    then show ?thesis using rule(1) at(1) latest_less unfolding repetitions_def by (auto split: option.splits)
  qed (use rep at in \<open>simp add: repetitions_def\<close>)
  have l: "last_notice st ?zs ?os (Suc (length zs)) =
      (if p \<noteq> None \<and> is_repeat now e (dedup_after st zs os) then now else last_notice st zs os (length zs))"
    using rule(2) at rep unfolding last_notice_def by (cases p) simp_all
  show "st' = dedup_after st ?zs ?os"
    using assms(2) count same unfolding dedup_after_def [of st ?zs] n r l
    by (auto simp: handleDuplication_def Let_def dedup_after_def split: if_splits)
qed

lemma dedup_run_append:
  "dedup_run (es @ fs) st = (case dedup_run es st of (st, ps) \<Rightarrow> case dedup_run fs st of (st, qs) \<Rightarrow> (st, ps @ qs))"
  by (induction es arbitrary: st) (auto split: prod.splits)

lemma dedup_run_rule:
  "\<exists>os. dedup_run zs st = (dedup_after st zs os, [e. Some e \<leftarrow> os]) \<and> length os = length zs \<and> (\<forall>i < length zs. os ! i = written_at st zs os i)"
proof (induction zs rule: rev_induct)
  case Nil
  show ?case by (intro exI [of _ "[]"]) (simp add: dedup_after_def repetitions_def last_notice_def)
next
  case (snoc z zs)
  then obtain os where os: "dedup_run zs st = (dedup_after st zs os, [e. Some e \<leftarrow> os])" "length os = length zs"
    "\<forall>i < length zs. os ! i = written_at st zs os i" by blast
  obtain now e where z: "z = (now, e)" by fastforce
  obtain st' p where h: "handleDuplication now e (dedup_after st zs os) = (st', p)" by fastforce
  note rule = handleDuplication_rule [OF os(2) h]
  have "dedup_run (zs @ [z]) st = (dedup_after st (zs @ [z]) (os @ [p]), [e. Some e \<leftarrow> os @ [p]])"
    using os(1) h rule(2) by (simp add: dedup_run_append z split: option.split)
  moreover have "(os @ [p]) ! i = written_at st (zs @ [z]) (os @ [p]) i" if "i < length (zs @ [z])" for i
  proof (cases "i = length zs")
    case True
    then show ?thesis using rule(1) os(2) by (simp add: z nth_append)
  next
    case False
    then have "i < length zs" using that by simp
    then show ?thesis using os(2,3) by (simp add: written_at_append nth_append)
  qed
  ultimately show ?case using os(2) by (intro exI [of _ "os @ [p]"]) simp
qed

section \<open>Properties of the writer\<close>

text \<open>
  C39. The writer with a sink that takes its text within twelve attempts empties the queue and writes, in the order of the events and
  nothing else: for an event that does not repeat the one before it (or is empty, or is more than five seconds old when it is taken) the event; for a repetition nothing,
  except that a repetition with a count of at least ten, sixty seconds or more after the last notice, is written as the notice of that count. The
  count is that of the events since something was last written, where the first message of a row counts and a notice does not.
\<close>

theorem log_written:
  assumes "length envs = length (lg_queue lg)" and "\<not> lg_held lg" and "lg_rawOutput lg = None" and "lg_formattedOutput lg = Some out"
    and "\<forall>env \<in> set envs. True \<in> set (take 12 (we_writes env))"
    and "\<forall>e \<in> set (lg_queue lg). padTimestamp (fmt (ev_Timestamp e)) \<noteq> None"
    and zs: "zs = zip (map we_now envs) (lg_queue lg)" and st: "st = lg_dedup lg"
  shows "\<exists>lg' os. writer_run fmt envs lg = Some (lg', WriterTurned) \<and> lg_queue lg' = [] \<and>
    lg_formattedOutput lg' = Some (out @ concat [the (Event_Format fmt e). Some e \<leftarrow> os]) \<and> length os = length (lg_queue lg) \<and>
    (\<forall>i < length (lg_queue lg). os ! i =
       (if \<not> repeats (ds_lastMsg st) zs i then Some (lg_queue lg ! i)
        else if 10 \<le> repetitions st zs os i \<and> 60000000000 \<le> we_now (envs ! i) - last_notice st zs os i
        then Some ((lg_queue lg ! i)\<lparr>ev_Message := bytes_of_string ''Suppressed '' @ FormatInt (repetitions st zs os i) @
               bytes_of_string '' repeated messages: '' @ ev_Message (lg_queue lg ! i)\<rparr>)
        else None))"
proof -
  obtain os where os: "dedup_run zs st = (dedup_after st zs os, [e. Some e \<leftarrow> os])" "length os = length zs"
    "\<forall>i < length zs. os ! i = written_at st zs os i" using dedup_run_rule by blast
  have l: "length zs = length (lg_queue lg)" using assms(1) by (simp add: zs)
  have at: "snd (zs ! i) = lg_queue lg ! i" "fst (zs ! i) = we_now (envs ! i)" if "i < length (lg_queue lg)" for i
    using that assms(1) by (simp_all add: zs)
  have "\<forall>env \<in> set envs. True \<in> set (take maxOutputWriteFailures (we_writes env))" using assms(5) by (simp add: maxOutputWriteFailures_def)
  from writer_run_writes [OF assms(1-4) this assms(6)] os(1)
  have "\<exists>lg'. writer_run fmt envs lg = Some (lg', WriterTurned) \<and> lg_queue lg' = [] \<and>
      lg_formattedOutput lg' = Some (out @ concat (map (the \<circ> Event_Format fmt) [e. Some e \<leftarrow> os]))" by (auto simp: zs st)
  moreover have "map (the \<circ> Event_Format fmt) [e. Some e \<leftarrow> os] = [the (Event_Format fmt e). Some e \<leftarrow> os]"
    by (induction os) (auto split: option.split)
  ultimately show ?thesis using os(2,3) l at by (intro exI [of _ os] ex_comm [THEN iffD1]) (auto simp: written_at_def)
qed

definition plain_fmt :: "int \<Rightarrow> bytes" where "plain_fmt _ = bytes_of_string ''1970-01-01T00:00:00Z''"

definition hello :: "bytes \<Rightarrow> log_event" where
  "hello m = \<lparr>ev_Timestamp = 1, ev_Severity = InfoLog, ev_Tags = [NSLogger], ev_Message = m\<rparr>"

definition open_log :: "log_event list \<Rightarrow> Logger" where
  "open_log es = (SetFormattedOutput (logctx_New 1))\<lparr>lg_queue := es\<rparr>"

definition calm :: write_env where "calm = \<lparr>we_done = False, we_now = 2, we_taken = [], we_writes = [False, True]\<rparr>"

lemma plain_pad: "padTimestamp (plain_fmt t) = Some (bytes_of_string ''1970-01-01T00:00:00.000000000Z'')"
proof -
  have "replicate 9 (48 :: byte) = [48, 48, 48, 48, 48, 48, 48, 48, 48]" by (simp add: numeral_eq_Suc)
  then show ?thesis by (simp add: padTimestamp_def plain_fmt_def bytes_of_string_def pad_nanoseconds_def)
qed

text \<open>The second of three equal messages is left out, the third is more than five seconds old.\<close>

theorem log_written_witness:
  "\<exists>lg'. writer_run plain_fmt [calm, calm, calm\<lparr>we_now := 6000000000\<rparr>] (open_log [hello [97], hello [97], hello [97]]) = Some (lg', WriterTurned) \<and>
    lg_queue lg' = [] \<and> lg_formattedOutput lg' = Some (the (Event_Format plain_fmt (hello [97])) @ the (Event_Format plain_fmt (hello [97])))"
proof -
  let ?lg = "open_log [hello [97], hello [97], hello [97]]" and ?envs = "[calm, calm, calm\<lparr>we_now := 6000000000\<rparr>]"
  let ?zs = "[(2, hello [97]), (2, hello [97]), (6000000000, hello [97])]" and ?st = "lg_dedup (logctx_New 1)"
  have q: "lg_queue ?lg = [hello [97], hello [97], hello [97]]" "lg_dedup ?lg = ?st" "\<not> lg_held ?lg" "lg_rawOutput ?lg = None"
    "lg_formattedOutput ?lg = Some []" by (simp_all add: open_log_def SetFormattedOutput_def logctx_New_def)
  have l: "length (lg_queue ?lg) = 3" "length ?envs = 3" unfolding q(1) by simp_all
  have z: "?zs = zip (map we_now ?envs) (lg_queue ?lg)" unfolding q by (simp add: calm_def)
  have p: "\<forall>e \<in> set (lg_queue ?lg). padTimestamp (plain_fmt (ev_Timestamp e)) \<noteq> None" by (simp add: plain_pad)
  have w: "\<forall>env \<in> set ?envs. True \<in> set (take 12 (we_writes env))" by (simp add: calm_def)
  have r: "\<not> repeats (ds_lastMsg ?st) ?zs 0" "repeats (ds_lastMsg ?st) ?zs 1" "\<not> repeats (ds_lastMsg ?st) ?zs 2"
    by (simp_all add: repeats_def hello_def logctx_New_def)
  obtain lg' os where o: "writer_run plain_fmt ?envs ?lg = Some (lg', WriterTurned)" "lg_queue lg' = []"
    "lg_formattedOutput lg' = Some ([] @ concat [the (Event_Format plain_fmt e). Some e \<leftarrow> os])" "length os = 3"
    "\<forall>i < 3. os ! i =
       (if \<not> repeats (ds_lastMsg ?st) ?zs i then Some (lg_queue ?lg ! i)
        else if 10 \<le> repetitions ?st ?zs os i \<and> 60000000000 \<le> we_now (?envs ! i) - last_notice ?st ?zs os i
        then Some ((lg_queue ?lg ! i)\<lparr>ev_Message := bytes_of_string ''Suppressed '' @ FormatInt (repetitions ?st ?zs os i) @
               bytes_of_string '' repeated messages: '' @ ev_Message (lg_queue ?lg ! i)\<rparr>)
        else None)"
    using log_written [OF _ q(3-5) w p z q(2) [symmetric]] unfolding l by auto
  obtain a b c where os: "os = [a, b, c]" using o(4) by (auto simp: length_Suc_conv numeral_eq_Suc)
  have a: "a = Some (hello [97])" using o(5) [rule_format, of 0] r(1) by (simp add: os q(1))
  have "repetitions ?st ?zs os 1 = 2" using r(1) a by (simp add: repetitions_def os)
  then have few: "\<not> (10 \<le> repetitions ?st ?zs os 1 \<and> t)" for t by simp
  have "os ! 1 = None" by (subst o(5) [rule_format]) (simp, simp only: r(2) few simp_thms if_True if_False)
  then have b: "b = None" by (simp add: os)
  have c: "c = Some (hello [97])" using o(5) [rule_format, of 2] r(3) by (simp add: os q(1))
  show ?thesis using o(1-3) by (intro exI [of _ lg']) (simp add: os a b c)
qed

text \<open>
  The writer that finds an event but no output ends and keeps the mutex of the queue: from then on nothing is logged any
  more, every caller of the log waits forever, and no output set later changes that.
\<close>

theorem writer_without_output_blocks:
  assumes "outputWriter_turn fmt env lg = Some (lg', WriterNoOutput)"
  shows "logger_log now level sev tags msg (SetFormattedOutput lg') = None \<and> logger_log now level sev tags msg (SetRawOutput lg') = None \<and>
    SetLogLevel newLevel lg' = None \<and> GetFormattedLogLines fmt lg' = None \<and> outputWriter_turn fmt env' lg' = None"
  using assms by (auto simp: outputWriter_turn_def logger_log_def SetLogLevel_def GetFormattedLogLines_def SetFormattedOutput_def SetRawOutput_def Let_def
      split: list.splits if_splits prod.splits option.splits)

theorem writer_without_output_blocks_witness:
  "\<exists>lg lg'. logger_log 1 1 InfoLog [] [97] (logctx_New 1) = Some lg \<and> outputWriter_turn plain_fmt calm lg = Some (lg', WriterNoOutput) \<and>
    logger_log 2 1 InfoLog [] [98] (SetFormattedOutput lg') = None"
proof -
  obtain lg where lg: "logger_log 1 1 InfoLog [] [97] (logctx_New 1) = Some lg" "lg_queue lg \<noteq> []" "\<not> lg_held lg"
    "lg_rawOutput lg = None" "lg_formattedOutput lg = None" by (simp add: logger_log_def logctx_New_def)
  then obtain lg' where lg': "outputWriter_turn plain_fmt calm lg = Some (lg', WriterNoOutput)"
    by (auto simp: outputWriter_turn_def neq_Nil_conv)
  from writer_without_output_blocks [OF lg'] lg lg' show ?thesis by blast
qed

section \<open>Lines in order\<close>

lemma insert_event_set: "mset (insert_event e es) = add_mset e (mset es)"
  by (induction es) simp_all

lemma event_before_cases:
  "event_before a b \<longleftrightarrow> ev_Timestamp a \<noteq> zeroTime \<and> (ev_Timestamp b = zeroTime \<or> ev_Timestamp a < ev_Timestamp b)"
  by (auto simp: event_before_def Let_def)

lemma insert_event_sorted:
  "sorted_wrt (\<lambda>a b. \<not> event_before b a) es \<Longrightarrow> sorted_wrt (\<lambda>a b. \<not> event_before b a) (insert_event e es)"
proof (induction es)
  case (Cons f es)
  have "set (insert_event e es) = insert e (set es)" using insert_event_set [of e es] by (metis set_mset_add_mset_insert set_mset_mset)
  then show ?case using Cons by (auto simp: event_before_cases)
qed simp

lemma insert_event_stable:
  "ev_Timestamp e = t \<Longrightarrow> filter (\<lambda>x. ev_Timestamp x = t) (insert_event e es) = e # filter (\<lambda>x. ev_Timestamp x = t) es"
  "ev_Timestamp e \<noteq> t \<Longrightarrow> filter (\<lambda>x. ev_Timestamp x = t) (insert_event e es) = filter (\<lambda>x. ev_Timestamp x = t) es"
  by (induction es) (auto simp: event_before_cases)

lemma sort_events_simps [simp]: "sort_events [] = []" "sort_events (e # es) = insert_event e (sort_events es)"
  by (simp_all add: sort_events_def)

lemma end_line_ends: "end_line m \<noteq> [] \<and> last (end_line m) = 10"
  by (simp add: end_line_def)

lemma option_end_line:
  assumes "map Some ls = map (map_option end_line \<circ> Event_Format fmt) es"
  shows "\<forall>l \<in> set ls. \<exists>m. l = end_line m"
proof
  fix l
  assume "l \<in> set ls"
  then have "Some l \<in> set (map (map_option end_line \<circ> Event_Format fmt) es)" unfolding assms [symmetric] by simp
  then show "\<exists>m. l = end_line m" by (auto simp: map_option_case split: option.splits)
qed

text \<open>
  The lines of the log are its events, each once, the earlier before the later and those without a time at the end; events of one
  time keep the order in which they were logged, and every line ends in a newline.
\<close>

theorem log_lines_in_order:
  assumes "GetFormattedLogLines fmt lg = Some ls"
  shows "\<exists>es. mset es = mset (lg_queue lg) \<and> sorted_wrt (\<lambda>a b. \<not> event_before b a) es \<and>
    (\<forall>t. filter (\<lambda>e. ev_Timestamp e = t) es = filter (\<lambda>e. ev_Timestamp e = t) (lg_queue lg)) \<and>
    map Some ls = map (map_option end_line \<circ> Event_Format fmt) es \<and> (\<forall>l \<in> set ls. l \<noteq> [] \<and> last l = 10)"
proof -
  let ?es = "sort_events (lg_queue lg)"
  have "mset (sort_events q) = mset q \<and> sorted_wrt (\<lambda>a b. \<not> event_before b a) (sort_events q) \<and>
    (\<forall>t. filter (\<lambda>e. ev_Timestamp e = t) (sort_events q) = filter (\<lambda>e. ev_Timestamp e = t) q)" for q
    by (induction q) (auto simp: insert_event_set insert_event_sorted insert_event_stable)
  moreover have those: "those ys = Some zs \<Longrightarrow> map Some zs = ys" for ys and zs :: "bytes list"
    by (induction ys arbitrary: zs) (auto split: option.splits)
  moreover have "those (map (map_option end_line \<circ> Event_Format fmt) ?es) = Some ls"
    using assms by (simp add: GetFormattedLogLines_def split: if_splits)
  moreover from those [OF this] have "\<forall>l \<in> set ls. \<exists>m. l = end_line m"
    by (metis option_end_line)
  then have "\<forall>l \<in> set ls. l \<noteq> [] \<and> last l = 10" using end_line_ends by metis
  ultimately show ?thesis by blast
qed

theorem log_lines_in_order_witness:
  "\<exists>ls. GetFormattedLogLines plain_fmt (open_log [hello [97], hello [98]]) = Some ls \<and> length ls = 2 \<and> (\<forall>l \<in> set ls. last l = 10)"
proof -
  obtain ls where ls: "GetFormattedLogLines plain_fmt (open_log [hello [97], hello [98]]) = Some ls"
    by (simp add: GetFormattedLogLines_def open_log_def SetFormattedOutput_def logctx_New_def Event_Format_def plain_pad hello_def event_before_def zeroTime_def)
  obtain es where "mset es = mset (lg_queue (open_log [hello [97], hello [98]]))" "map Some ls = map (map_option end_line \<circ> Event_Format plain_fmt) es"
    "\<forall>l \<in> set ls. l \<noteq> [] \<and> last l = 10" using log_lines_in_order [OF ls] by blast
  moreover from calculation have "length ls = size (mset (lg_queue (open_log [hello [97], hello [98]])))" by (metis length_map size_mset)
  ultimately show ?thesis using ls by (simp add: open_log_def)
qed

section \<open>Time stamps\<close>

lemma LastIndex_Some: "b \<in> set s \<Longrightarrow> \<exists>i. LastIndex s b = Some i"
  by (induction s) (auto split: option.splits)

text \<open>
  The fraction of a second is padded on the wrong side: the time format of the library leaves out trailing zeros, the code puts as
  many in front, so that half a second becomes five nanoseconds; the parts around the fraction are kept.
\<close>

theorem padded_fraction:
  assumes "46 \<notin> set day" "58 \<in> set day" "46 \<notin> set f" "45 \<notin> set f" "46 \<notin> set z" "45 \<notin> set z" and "\<forall>b \<in> set f. is_digit b"
  shows "\<exists>g. padTimestamp (day @ 46 # f @ 45 # z) = Some (day @ 46 # g @ 45 # z) \<and> length g = max 9 (length f) \<and> undecimal g = undecimal f"
proof -
  obtain i where "LastIndex (day @ 46 # f @ 45 # z) 58 = Some i" using LastIndex_Some [of 58 "day @ 46 # f @ 45 # z"] assms(2) by auto
  moreover have "Split 46 (day @ 46 # f @ 45 # z) = [day, f @ 45 # z]" using assms by (simp add: Split_append Split_no_sep)
  moreover have "Split 45 (f @ 45 # z) = [f, z]" using assms by (simp add: Split_append Split_no_sep)
  moreover have "undecimal (replicate n 48 @ f) = undecimal f" for n by (induction n) (simp_all add: undecimal_def)
  ultimately show ?thesis
    by (intro exI [of _ "replicate (9 - length f) 48 @ f"]) (simp add: padTimestamp_def pad_nanoseconds_def)
qed

theorem padded_fraction_witness:
  "\<exists>g. padTimestamp (bytes_of_string ''T00:00:00.5-07:00'') = Some (bytes_of_string ''T00:00:00'' @ 46 # g @ 45 # bytes_of_string ''07:00'') \<and>
    length g = 9 \<and> undecimal g = 5"
  using padded_fraction [of "bytes_of_string ''T00:00:00''" "[53]" "bytes_of_string ''07:00''"]
  by (simp add: bytes_of_string_def is_digit_def undecimal_def)
section \<open>Durations in log lines\<close>

text \<open>
  \<^verbatim>\<open>parsing.TrimDurationPrecision\<close> on the text of a duration: the digits of the fraction are cut to the number wanted.
\<close>

definition TrimDurationPrecision :: "bytes \<Rightarrow> nat \<Rightarrow> bytes" where
  "TrimDurationPrecision formatted numDecimals =
     (case IndexByte formatted 46 of
        None \<Rightarrow> formatted
      | Some dot \<Rightarrow>
          let fraction = takeWhile is_digit (drop (dot + 1) formatted); i = dot + 1 + length fraction in
          if numDecimals = 0 then take dot formatted @ drop i formatted
          else if length fraction \<le> numDecimals then formatted
          else take (dot + 1 + numDecimals) formatted @ drop i formatted)"

lemma trim_duration:
  assumes "46 \<notin> set whole" and "list_all is_digit f" and "u = [] \<or> \<not> is_digit (hd u)" and "0 < n"
  shows "TrimDurationPrecision (whole @ 46 # f @ u) n = whole @ 46 # take n f @ u"
    and "TrimDurationPrecision (whole @ 46 # f @ u) 0 = whole @ u"
proof -
  have "takeWhile is_digit (f @ u) = f" using assms(2,3) by (cases u) (auto simp: list_all_iff takeWhile_append)
  then show "TrimDurationPrecision (whole @ 46 # f @ u) n = whole @ 46 # take n f @ u" "TrimDurationPrecision (whole @ 46 # f @ u) 0 = whole @ u"
    using assms(4) IndexByte_append [OF assms(1), of "f @ u"] by (auto simp: TrimDurationPrecision_def Let_def)
qed

end
