(* ===== verification/File_Watcher.thy ===== *)
theory File_Watcher
  imports Journal_Module
begin

text \<open>
  The watcher of an input file (\<^verbatim>\<open>internal/iomodules/file/inotify\<close>): what the kernel writes into the buffer of events, and the two signals that
  the reader of the file gets from it. The epoll loop around it is I/O; the results of adding a watch are arguments. Shown is that the buffer
  is taken apart into exactly the events in it, whatever their names.
\<close>

unbundle bit_operations_syntax

section \<open>Events\<close>

record InotifyEvent =
  ne_Wd :: "32 word"
  ne_Mask :: "32 word"
  ne_Cookie :: "32 word"
  ne_Len :: "32 word"

definition SizeofInotifyEvent :: nat where "SizeofInotifyEvent = 16"
definition IN_MODIFY :: "32 word" where "IN_MODIFY = 0x2"
definition IN_CLOSE_WRITE :: "32 word" where "IN_CLOSE_WRITE = 0x8"
definition IN_MOVED_TO :: "32 word" where "IN_MOVED_TO = 0x80"
definition IN_CREATE :: "32 word" where "IN_CREATE = 0x100"

definition watch_event :: "bytes \<Rightarrow> InotifyEvent" where
  "watch_event bs = \<lparr>ne_Wd = of_nat (le_val (take 4 bs)), ne_Mask = of_nat (le_val (take 4 (drop 4 bs))),
     ne_Cookie = of_nat (le_val (take 4 (drop 8 bs))), ne_Len = of_nat (le_val (take 4 (drop 12 bs)))\<rparr>"

section \<open>The watcher\<close>

text \<open>The two channels of one place are their being full; the watches are numbers of the kernel.\<close>

record Watcher =
  wt_fileName :: bytes
  wt_fileFD :: "32 word"
  wt_dirFD :: "32 word"
  wt_fileHasChanged :: bool
  wt_fileHasRotated :: bool

text \<open>Adding the watch for the new file: its number, or an error that waiting may solve or not; five attempts.\<close>

definition maxRetries :: nat where "maxRetries = 5"

fun rotate_tries :: "(bool + 32 word) list \<Rightarrow> Watcher \<Rightarrow> Watcher \<times> bool" where
  "rotate_tries [] wt = (wt, False)"
| "rotate_tries (r # rs) wt =
     (case r of Inr newFileFD \<Rightarrow> (wt\<lparr>wt_fileFD := newFileFD\<rparr>, True) | Inl retry \<Rightarrow> if retry then rotate_tries rs wt else (wt, False))"

definition rotateInode :: "(bool + 32 word) list \<Rightarrow> Watcher \<Rightarrow> Watcher \<times> bool" where
  "rotateInode results wt = rotate_tries (take maxRetries results) wt"

text \<open>The handling of one event with the name that follows it; the second component is true unless a rotation failed.\<close>

definition trim_zeros :: "bytes \<Rightarrow> bytes" where
  "trim_zeros s = rev (dropWhile (\<lambda>b. b = 0) (rev s))"

definition handle_event :: "(bool + 32 word) list \<Rightarrow> InotifyEvent \<Rightarrow> bytes \<Rightarrow> Watcher \<Rightarrow> Watcher \<times> bool" where
  "handle_event results event nameBytes wt =
     (let isFileEvent = (ne_Wd event = wt_fileFD wt); isDirEvent = (ne_Wd event = wt_dirFD wt);
          isCloseWrite = (ne_Mask event AND IN_CLOSE_WRITE \<noteq> 0); isModify = (ne_Mask event AND IN_MODIFY \<noteq> 0);
          isCreate = (ne_Mask event AND IN_CREATE \<noteq> 0); isMovedTo = (ne_Mask event AND IN_MOVED_TO \<noteq> 0);
          wt = (if isFileEvent \<and> (isModify \<or> isCloseWrite) then wt\<lparr>wt_fileHasChanged := True\<rparr> else wt) in
      if isDirEvent \<and> trim_zeros nameBytes = wt_fileName wt \<and> (isCreate \<or> isMovedTo)
      then (case rotateInode results wt of (wt, rotated) \<Rightarrow> (if rotated then wt\<lparr>wt_fileHasRotated := True\<rparr> else wt, rotated))
      else (wt, True))"

text \<open>
  The buffer from an offset on; \<open>None\<close> is the panic of a name past the end of the buffer. Each event finds its own results of rotation. The
  error that is returned is that of the last event only.
\<close>

function process_from :: "(nat \<Rightarrow> (bool + 32 word) list) \<Rightarrow> nat \<Rightarrow> bytes \<Rightarrow> nat \<Rightarrow> nat \<Rightarrow> Watcher \<times> bool \<Rightarrow> (Watcher \<times> bool) option" where
  "process_from results i eventBuf readEndIndex offset st =
     (if offset + SizeofInotifyEvent \<le> readEndIndex
      then
        let event = watch_event (take SizeofInotifyEvent (drop offset eventBuf));
            nameStart = offset + SizeofInotifyEvent; nameEnd = nameStart + unat (ne_Len event) in
        if nameEnd > length eventBuf then None
        else process_from results (Suc i) eventBuf readEndIndex nameEnd
               (handle_event (results i) event (take (unat (ne_Len event)) (drop nameStart eventBuf)) (fst st))
      else Some st)"
  by pat_completeness auto
termination
  by (relation "measure (\<lambda>(_, _, _, readEndIndex, offset, _). readEndIndex - offset)") (auto simp: SizeofInotifyEvent_def)

declare process_from.simps [simp del]

definition processEvent :: "(nat \<Rightarrow> (bool + 32 word) list) \<Rightarrow> bytes \<Rightarrow> nat \<Rightarrow> Watcher \<Rightarrow> (Watcher \<times> bool) option" where
  "processEvent results eventBuf readEndIndex wt = process_from results 0 eventBuf readEndIndex 0 (wt, True)"

section \<open>The events in a buffer\<close>

definition event_bytes :: "InotifyEvent \<times> bytes \<Rightarrow> bytes" where
  "event_bytes en = (case en of (e, name) \<Rightarrow>
     rev (be 4 (unat (ne_Wd e))) @ rev (be 4 (unat (ne_Mask e))) @ rev (be 4 (unat (ne_Cookie e))) @ rev (be 4 (unat (ne_Len e))) @ name)"

definition event_ok :: "InotifyEvent \<times> bytes \<Rightarrow> bool" where
  "event_ok en \<longleftrightarrow> unat (ne_Len (fst en)) = length (snd en)"

fun handle_events :: "(nat \<Rightarrow> (bool + 32 word) list) \<Rightarrow> nat \<Rightarrow> (InotifyEvent \<times> bytes) list \<Rightarrow> Watcher \<times> bool \<Rightarrow> Watcher \<times> bool" where
  "handle_events results i [] st = st"
| "handle_events results i ((e, name) # es) st = handle_events results (Suc i) es (handle_event (results i) e name (fst st))"

lemma le_val_word: "of_nat (le_val (rev (be 4 (unat (w :: 32 word))))) = w"
proof -
  have "unat w < 256 ^ 4" using unsigned_less [of w] by simp
  then show ?thesis by (simp add: le_val_def be_val_be)
qed

lemma watch_event_bytes: "watch_event (take SizeofInotifyEvent (event_bytes (e, name))) = e"
  by (simp add: watch_event_def event_bytes_def SizeofInotifyEvent_def le_val_word)

lemma length_event_bytes: "length (event_bytes (e, name)) = SizeofInotifyEvent + length name"
  by (simp add: event_bytes_def SizeofInotifyEvent_def)

lemma drop_event_bytes: "drop SizeofInotifyEvent (event_bytes (e, name)) = name"
  by (simp add: event_bytes_def SizeofInotifyEvent_def)

lemmas event_bytes_simps = watch_event_bytes length_event_bytes drop_event_bytes

lemma process_from_events:
  assumes "\<forall>en \<in> set es. event_ok en" and "offset = length pre" and "end_of = offset + length (concat (map event_bytes es))"
  shows "process_from results i (pre @ concat (map event_bytes es) @ stale) end_of offset st = Some (handle_events results i es st)"
  using assms
proof (induction es arbitrary: i pre offset st)
  case Nil
  then show ?case by (subst process_from.simps) (simp add: SizeofInotifyEvent_def)
next
  case (Cons en es)
  obtain e name where en: "en = (e, name)" by fastforce
  have len: "unat (ne_Len e) = length name" using Cons.prems(1) en by (simp add: event_ok_def)
  let ?rest = "concat (map event_bytes es) @ stale"
  have "process_from results i (pre @ event_bytes (e, name) @ ?rest) end_of offset st =
      process_from results (Suc i) (pre @ event_bytes (e, name) @ ?rest) end_of (offset + SizeofInotifyEvent + length name) (handle_event (results i) e name (fst st))"
    using Cons.prems(2,3) en by (subst process_from.simps) (simp add: len event_bytes_simps Let_def)
  also have "\<dots> = Some (handle_events results (Suc i) es (handle_event (results i) e name (fst st)))"
    using Cons.IH [of "offset + SizeofInotifyEvent + length name" "pre @ event_bytes (e, name)" "Suc i"] Cons.prems en by (simp add: length_event_bytes)
  finally show ?case by (simp add: en)
qed

text \<open>
  C38. The watcher takes apart what the kernel wrote: for any list of events, with names of any length and whatever was left in the buffer from an
  earlier read, it handles exactly these events, in their order, and never reads past the buffer.
\<close>

theorem watcher_events_exact:
  assumes "\<forall>en \<in> set es. event_ok en"
  shows "processEvent results (concat (map event_bytes es) @ stale) (length (concat (map event_bytes es))) wt = Some (handle_events results 0 es (wt, True))"
  using process_from_events [OF assms, of 0 "[]"] by (simp add: processEvent_def)

section \<open>What the reader is told\<close>

lemma rotate_tries_keeps: "rotate_tries rs wt = (wt', ok) \<Longrightarrow> wt_fileHasChanged wt' = wt_fileHasChanged wt \<and> wt_fileHasRotated wt' = wt_fileHasRotated wt \<and>
    wt_fileName wt' = wt_fileName wt \<and> wt_dirFD wt' = wt_dirFD wt \<and> (\<not> ok \<longrightarrow> wt' = wt)"
  by (induction rs wt rule: rotate_tries.induct) (auto split: sum.splits if_splits)

lemma handle_event_flags:
  "wt_fileHasChanged wt \<Longrightarrow> wt_fileHasChanged (fst (handle_event rs e name wt))"
  "wt_fileHasRotated wt \<Longrightarrow> wt_fileHasRotated (fst (handle_event rs e name wt))"
  "wt_fileName (fst (handle_event rs e name wt)) = wt_fileName wt"
  "wt_dirFD (fst (handle_event rs e name wt)) = wt_dirFD wt"
  by (auto simp: handle_event_def rotateInode_def Let_def dest: rotate_tries_keeps split: prod.splits)

lemma handle_events_rotated: "wt_fileHasRotated (fst st) \<Longrightarrow> wt_fileHasRotated (fst (handle_events rs i es st))"
  by (induction rs i es st rule: handle_events.induct) (simp_all add: handle_event_flags)

text \<open>
  A file that appears under the watched name is announced to the reader if its watch can be added within five attempts, whatever other events
  surround it; a rotation that fails is reported only by the last event of a buffer.
\<close>

theorem rotation_announced:
  assumes "ne_Wd e = wt_dirFD wt" "trim_zeros name = wt_fileName wt" "ne_Mask e AND IN_CREATE \<noteq> 0 \<or> ne_Mask e AND IN_MOVED_TO \<noteq> 0"
    and "results (length es) = replicate k (Inl True) @ Inr fd # more_results" and "k < maxRetries"
  shows "wt_fileHasRotated (fst (handle_events results 0 (es @ (e, name) # es') (wt, ok0)))"
proof -
  have tries: "rotate_tries (take n (replicate k (Inl True) @ Inr fd # more_results)) w = (w\<lparr>wt_fileFD := fd\<rparr>, True)" if "k < n" for k n w
    using that
  proof (induction k arbitrary: n)
    case 0
    then show ?case by (cases n) simp_all
  next
    case (Suc k)
    then show ?case by (cases n) simp_all
  qed
  have rot: "rotateInode (replicate k (Inl True) @ Inr fd # more_results) w = (w\<lparr>wt_fileFD := fd\<rparr>, True)" for w
    unfolding rotateInode_def by (rule tries [OF assms(5)])
  have "wt_fileHasRotated (fst (handle_events results i (es @ (e, name) # es') st))"
    if "wt_dirFD (fst st) = wt_dirFD wt" "wt_fileName (fst st) = wt_fileName wt" "results (i + length es) = replicate k (Inl True) @ Inr fd # more_results" for i st
    using that
  proof (induction es arbitrary: i st)
    case Nil
    have "wt_fileHasRotated (fst (handle_event (results i) e name (fst st)))"
      using Nil assms(1-3) by (auto simp: handle_event_def Let_def rot)
    then show ?case by (simp add: handle_events_rotated)
  next
    case (Cons x es)
    then show ?case by (cases x) (simp add: handle_event_flags)
  qed
  from this [of "(wt, ok0)" 0] assms(4) show ?thesis by simp
qed

definition written :: InotifyEvent where "written = \<lparr>ne_Wd = 1, ne_Mask = IN_MODIFY, ne_Cookie = 0, ne_Len = 0\<rparr>"
definition created_event :: InotifyEvent where "created_event = \<lparr>ne_Wd = 2, ne_Mask = IN_CREATE, ne_Cookie = 0, ne_Len = 4\<rparr>"

definition log_watcher :: Watcher where
  "log_watcher = \<lparr>wt_fileName = [108], wt_fileFD = 1, wt_dirFD = 2, wt_fileHasChanged = False, wt_fileHasRotated = False\<rparr>"

theorem watcher_events_exact_witness:
  "\<exists>wt. processEvent (\<lambda>_. [Inr 3]) (concat (map event_bytes [(written, []), (created_event, [108, 0, 0, 0])]) @ [7]) 36 log_watcher = Some (wt, True) \<and>
    wt_fileHasChanged wt \<and> wt_fileHasRotated wt \<and> wt_fileFD wt = 3"
proof -
  let ?es = "[(written, []), (created_event, [108, 0, 0, 0])]"
  have "\<forall>en \<in> set ?es. event_ok en" by (simp add: event_ok_def written_def created_event_def)
  moreover have "length (concat (map event_bytes ?es)) = 36" by (simp add: length_event_bytes SizeofInotifyEvent_def)
  ultimately have "processEvent (\<lambda>_. [Inr 3]) (concat (map event_bytes ?es) @ [7]) 36 log_watcher = Some (handle_events (\<lambda>_. [Inr 3]) 0 ?es (log_watcher, True))"
    using watcher_events_exact [of ?es "\<lambda>_. [Inr 3]" "[7]" log_watcher] by metis
  moreover have "rotateInode [Inr 3] w = (w\<lparr>wt_fileFD := 3\<rparr>, True)" for w by (simp add: rotateInode_def maxRetries_def)
  then have "handle_events (\<lambda>_. [Inr 3]) 0 ?es (log_watcher, True) =
      (log_watcher\<lparr>wt_fileFD := 3, wt_fileHasChanged := True, wt_fileHasRotated := True\<rparr>, True)"
    by (simp add: handle_event_def written_def created_event_def log_watcher_def trim_zeros_def IN_MODIFY_def IN_CREATE_def IN_CLOSE_WRITE_def
        IN_MOVED_TO_def Let_def)
  ultimately show ?thesis by simp
qed

end
