(* ===== verification/Network.thy ===== *)
theory Network
  imports Journal_Module
begin

text \<open>
  Addresses and packet sizes (\<^verbatim>\<open>internal/network\<close>: \<^verbatim>\<open>parsing.go\<close>, \<^verbatim>\<open>mtu.go\<close>, \<^verbatim>\<open>local.go\<close>): how a port is chosen for an address, how much of
  a packet is left for the payload on the way to a destination, and the search for a local address. The interfaces of the host, the resolver and the
  dialling of sockets are arguments.
\<close>

section \<open>Host and port\<close>

text \<open>\<^verbatim>\<open>net.SplitHostPort\<close> and \<^verbatim>\<open>net.JoinHostPort\<close> of the standard library.\<close>

definition index_from :: "nat \<Rightarrow> bytes \<Rightarrow> byte \<Rightarrow> bool" where
  "index_from k s b \<longleftrightarrow> b \<in> set (drop k s)"

definition last_colon :: "bytes \<Rightarrow> nat option" where
  "last_colon s = (if 58 \<in> set s then Some (length s - 1 - length (takeWhile (\<lambda>b. b \<noteq> 58) (rev s))) else None)"

definition SplitHostPort :: "bytes \<Rightarrow> (bytes \<times> bytes) option" where
  "SplitHostPort hostport =
     (case last_colon hostport of
        None \<Rightarrow> None
      | Some i \<Rightarrow>
          let parts = (if hd hostport = 91
                       then (case IndexByte hostport 93 of
                               None \<Rightarrow> None
                             | Some e \<Rightarrow> if e + 1 = i then Some (take (e - 1) (drop 1 hostport), 1, e + 1) else None)
                       else (let host = take i hostport in if 58 \<in> set host then None else Some (host, 0, 0))) in
          (case parts of
             None \<Rightarrow> None
           | Some (host, j, k) \<Rightarrow>
               if index_from j hostport 91 then None else if index_from k hostport 93 then None else Some (host, drop (i + 1) hostport)))"

definition JoinHostPort :: "bytes \<Rightarrow> bytes \<Rightarrow> bytes" where
  "JoinHostPort host port = (if 58 \<in> set host then [91] @ host @ [93, 58] @ port else host @ [58] @ port)"

definition EphemeralPortMin :: int where "EphemeralPortMin = 49152"
definition EphemeralPortMax :: int where "EphemeralPortMax = 65535"

text \<open>The text that is given to the resolver; \<open>None\<close> is an error before that.\<close>

definition embedded_port :: "bytes \<Rightarrow> (bytes \<times> int option) option" where
  "embedded_port address =
     (case SplitHostPort address of
        None \<Rightarrow> Some (address, None)
      | Some (host, portText) \<Rightarrow>
          if portText = [] then Some (host, None)
          else (case Atoi portText of
                  None \<Rightarrow> None
                | Some portNum \<Rightarrow> if portNum < 0 \<or> portNum > 65535 then None else Some (host, Some portNum)))"

definition final_port :: "int \<Rightarrow> int option \<Rightarrow> tape \<Rightarrow> (int \<times> tape) option" where
  "final_port port embedded tp =
     (if port > 0 \<and> port \<le> 65535 then Some (port, tp)
      else (case embedded of
              Some p \<Rightarrow> Some (p, tp)
            | None \<Rightarrow>
                if port = 0
                then (case NumberInRange EphemeralPortMin EphemeralPortMax tp of Inl _ \<Rightarrow> None | Inr r \<Rightarrow> Some r)
                else None))"

definition ParseUDPAddress :: "(bytes \<Rightarrow> 'a option) \<Rightarrow> bytes \<Rightarrow> int \<Rightarrow> tape \<Rightarrow> ('a \<times> tape) option" where
  "ParseUDPAddress resolve address port tp =
     (if address = [] then None
      else (case embedded_port address of
              None \<Rightarrow> None
            | Some (host, embedded) \<Rightarrow>
                (case final_port port embedded tp of
                   None \<Rightarrow> None
                 | Some (finalPort, tp) \<Rightarrow> map_option (\<lambda>socket. (socket, tp)) (resolve (JoinHostPort host (FormatInt finalPort))))))"

section \<open>The size of a packet\<close>

definition getTransportOverhead :: "bytes \<Rightarrow> bytes \<Rightarrow> int option" where
  "getTransportOverhead destination protocol =
     (let transportLayerOverhead = (if protocol = bytes_of_string ''udp'' then 8 else 0) in
      if 58 \<in> set destination then Some (80 + transportLayerOverhead)
      else if 46 \<in> set destination then Some (60 + transportLayerOverhead) else None)"

text \<open>An interface: whether it is a loopback, and its maximum transmission unit.\<close>

fun common_mtu :: "bool \<Rightarrow> int \<Rightarrow> (bool \<times> int) list \<Rightarrow> int" where
  "common_mtu destIsLoopback commonMTU [] = commonMTU"
| "common_mtu destIsLoopback commonMTU ((loopback, mtu) # ifaces) =
     (if loopback \<and> destIsLoopback then commonMTU
      else if loopback then common_mtu destIsLoopback commonMTU ifaces
      else if commonMTU = 0 then common_mtu destIsLoopback mtu ifaces
      else if commonMTU \<noteq> mtu then 0
      else common_mtu destIsLoopback commonMTU ifaces)"

definition FindSendingMaxUDPPayload :: "(bool \<times> int) list option \<Rightarrow> (bytes \<Rightarrow> int option) \<Rightarrow> bytes \<Rightarrow> int option" where
  "FindSendingMaxUDPPayload interfaces route destination =
     (let destinationIP = (case SplitHostPort destination of None \<Rightarrow> destination | Some (host, _) \<Rightarrow> host) in
      case getTransportOverhead destinationIP (bytes_of_string ''udp'') of
        None \<Rightarrow> None
      | Some overhead \<Rightarrow>
          let destIsLoopback = (HasPrefix destinationIP (bytes_of_string ''127.'') \<or> destinationIP = bytes_of_string ''[::1]'') in
          (case interfaces of
             None \<Rightarrow> None
           | Some ifaces \<Rightarrow>
               let commonMTU = common_mtu destIsLoopback 0 ifaces in
               (case (if commonMTU = 0 then route destinationIP else Some commonMTU) of
                  None \<Rightarrow> None
                | Some mtu \<Rightarrow> Some ((if mtu \<le> 0 then 1500 else mtu) - overhead))))"

section \<open>The local address\<close>

text \<open>
  The dialling loop of \<^verbatim>\<open>GetLocalIPForDestination\<close>: at most thirty attempts before the deadline, each failing, giving an unusable address, the
  loopback, or an address.
\<close>

datatype 'a dial_result = DialFailed | DialBroken | DialLoopback | Dialled 'a

fun dial_loop :: "nat \<Rightarrow> int \<Rightarrow> (int \<times> 'a dial_result) list \<Rightarrow> 'a option option" where
  "dial_loop 0 deadline ds = Some None"
| "dial_loop (Suc n) deadline [] = None"
| "dial_loop (Suc n) deadline ((now, r) # ds) =
     (if now > deadline then Some None
      else (case r of
              DialFailed \<Rightarrow> dial_loop n deadline ds
            | DialLoopback \<Rightarrow> dial_loop n deadline ds
            | DialBroken \<Rightarrow> Some None
            | Dialled a \<Rightarrow> Some (Some a)))"

section \<open>Properties\<close>

lemma last_colon_append: "58 \<notin> set port \<Longrightarrow> last_colon (host @ 58 # port) = Some (length host)"
proof -
  assume "58 \<notin> set port"
  then have "takeWhile (\<lambda>b. b \<noteq> 58) (rev port @ 58 # rev host) = rev port" by (subst takeWhile_append2) auto
  then show ?thesis by (simp add: last_colon_def)
qed

lemma split_joined:
  assumes "58 \<notin> set port" "91 \<notin> set port" "93 \<notin> set port" and "91 \<notin> set host" "93 \<notin> set host"
  shows "SplitHostPort (JoinHostPort host port) = Some (host, port)"
proof (cases "58 \<in> set host")
  case True
  have "last_colon (91 # host @ 93 # 58 # port) = Some (length host + 2)"
    using last_colon_append [OF assms(1), of "91 # host @ [93]"] by simp
  moreover have "IndexByte (91 # host @ 93 # 58 # port) 93 = Some (length host + 1)"
    using IndexByte_append [of 93 "91 # host" "58 # port"] assms(5) by simp
  ultimately show ?thesis using True assms by (simp add: SplitHostPort_def JoinHostPort_def index_from_def Let_def)
next
  case False
  have "hd (host @ 58 # port) \<noteq> 91" using assms(4) by (cases host) auto
  then show ?thesis using False assms last_colon_append [OF assms(1), of host] by (simp add: SplitHostPort_def JoinHostPort_def index_from_def Let_def)
qed

text \<open>
  Splitting is the inverse of joining, and a port given explicitly always wins: whatever port stands in the text of an address, the resolver
  is asked for the host with the explicit port.
\<close>

theorem explicit_port_wins:
  assumes "58 \<notin> set portText" "91 \<notin> set portText" "93 \<notin> set portText" "91 \<notin> set host" "93 \<notin> set host"
    and "Atoi portText = Some n" "0 \<le> n" "n \<le> 65535" and "0 < port" "port \<le> 65535"
  shows "SplitHostPort (JoinHostPort host portText) = Some (host, portText) \<and>
    ParseUDPAddress resolve (JoinHostPort host portText) port tp = map_option (\<lambda>s. (s, tp)) (resolve (JoinHostPort host (FormatInt port))) \<and>
    ParseUDPAddress resolve (JoinHostPort host portText) 0 tp = map_option (\<lambda>s. (s, tp)) (resolve (JoinHostPort host (FormatInt n)))"
proof -
  have ne: "JoinHostPort host portText \<noteq> []" by (simp add: JoinHostPort_def)
  have "portText \<noteq> []" using assms(6) by (auto simp: Atoi_def ParseInt_def ParseUint_def)
  then have "embedded_port (JoinHostPort host portText) = Some (host, Some n)"
    using assms(6-8) split_joined [OF assms(1-5)] by (simp add: embedded_port_def)
  then show ?thesis using ne assms(9,10) split_joined [OF assms(1-5)] by (simp add: ParseUDPAddress_def final_port_def)
qed

text \<open>
  With neither port the one chosen is in the range of ephemeral ports.
\<close>

theorem ephemeral_port:
  assumes "final_port 0 None tp = Some (p, tp')"
  shows "EphemeralPortMin \<le> p \<and> p \<le> EphemeralPortMax"
  using assms NumberInRange_bounds [of EphemeralPortMin EphemeralPortMax tp p tp']
  by (auto simp: final_port_def EphemeralPortMin_def EphemeralPortMax_def split: sum.splits)

lemma common_mtu_same:
  assumes "\<forall>(lo, m) \<in> set ifaces. lo \<or> m = mtu" and "mtu \<noteq> 0" and "c = 0 \<or> c = mtu"
  shows "common_mtu False c ifaces = (if \<exists>m. (False, m) \<in> set ifaces then mtu else c)"
  using assms
proof (induction ifaces arbitrary: c)
  case (Cons i ifaces)
  obtain lo m where i: "i = (lo, m)" by fastforce
  have "\<forall>(lo, m) \<in> set ifaces. lo \<or> m = mtu" using Cons.prems(1) by simp
  note IH = Cons.IH [OF this assms(2)]
  show ?case using Cons.prems i IH by (cases lo) auto
qed simp

text \<open>
  When every interface but the loopback has one maximum transmission unit, a packet for another host gets that unit less the headers: 68 bytes for an
  address of version four, 88 for one of version six.
\<close>

theorem payload_fits_interfaces:
  assumes "\<forall>(lo, m) \<in> set ifaces. lo \<or> m = mtu" and "(False, mtu) \<in> set ifaces" and "0 < mtu"
    and "\<not> HasPrefix ip (bytes_of_string ''127.'')" "91 \<notin> set ip" "93 \<notin> set ip" and "58 \<in> set ip \<or> 46 \<in> set ip"
    and "SplitHostPort ip = None"
  shows "FindSendingMaxUDPPayload (Some ifaces) route ip = Some (mtu - (if 58 \<in> set ip then 88 else 68))"
proof -
  have "common_mtu False 0 ifaces = mtu" using common_mtu_same [of ifaces mtu 0] assms(1-3) by auto
  moreover have "ip \<noteq> bytes_of_string ''[::1]''" using assms(5) by (auto simp: bytes_of_string_def)
  ultimately show ?thesis using assms(3,4,7,8) by (auto simp: FindSendingMaxUDPPayload_def getTransportOverhead_def Let_def)
qed

lemma dial_loop_ends: "n \<le> length ds \<Longrightarrow> \<exists>r. dial_loop n deadline ds = Some r"
  by (induction n deadline ds rule: dial_loop.induct) (auto split: dial_result.splits)

end
