(* ===== verification/Notify_Modules.thy ===== *)
theory Notify_Modules
  imports Sender_Ingest
begin

text \<open>
  The outputs to other services: desktop notifications (\<^verbatim>\<open>internal/iomodules/dbusnotify\<close>) and a beats server (\<^verbatim>\<open>internal/iomodules/beats\<close>). What is
  sent is modelled; the bus, the connection and whether a send succeeds are arguments. Shown are when a message becomes a notification, that the log
  of a receiver never does, and when a message for the beats server is lost without an error.
\<close>

section \<open>Notifications\<close>

definition lowPriority :: int where "lowPriority = 0"
definition normalPriority :: int where "normalPriority = 1"
definition highPriority :: int where "highPriority = 2"
definition defaultPopupTime :: int where "defaultPopupTime = 10 * 1000000000"

record notification =
  nf_appname :: bytes
  nf_replaceID :: "32 word"
  nf_icon :: bytes
  nf_summary :: bytes
  nf_body :: bytes
  nf_actions :: "bytes list"
  nf_urgency :: int
  nf_category :: bytes
  nf_popupDuration :: "32 word"

text \<open>A custom field of a kind, or its default; a value of another type is an error.\<close>

definition string_field :: "(bytes \<times> any) list \<Rightarrow> bytes \<Rightarrow> bytes \<Rightarrow> bytes option" where
  "string_field fs key fallback =
     (case map_of fs key of None \<Rightarrow> Some fallback | Some (AnyString s) \<Rightarrow> Some s | Some _ \<Rightarrow> None)"

definition pid_field :: "(bytes \<times> any) list \<Rightarrow> int \<Rightarrow> bytes option" where
  "pid_field fs pid =
     (case map_of fs CFprocessid of None \<Rightarrow> Some (FormatInt pid) | Some (AnyInt64 n) \<Rightarrow> Some (FormatInt (sint n)) | Some _ \<Rightarrow> None)"

definition urgency :: "16 word \<Rightarrow> int" where
  "urgency severityCode = (if severityCode \<in> {0, 1, 2} then highPriority else if severityCode \<in> {3, 4} then normalPriority else lowPriority)"

definition formatAsNotification :: "int \<Rightarrow> Payload \<Rightarrow> notification option" where
  "formatAsNotification pid msg =
     (case string_field (CustomFields msg) CFappname [45] of
        None \<Rightarrow> None
      | Some appname \<Rightarrow>
     (case string_field (CustomFields msg) CFseverity DefaultSeverity of
        None \<Rightarrow> None
      | Some severity \<Rightarrow>
     (case string_field (CustomFields msg) CFfacility DefaultFacility of
        None \<Rightarrow> None
      | Some facility \<Rightarrow>
     (case pid_field (CustomFields msg) pid of
        None \<Rightarrow> None
      | Some procID \<Rightarrow>
     (case SeverityToCode severity of
        None \<Rightarrow> None
      | Some severityCode \<Rightarrow>
          Some \<lparr>nf_appname = appname @ bytes_of_string '' ('' @ ProgBaseName @ [41], nf_replaceID = 0, nf_icon = [],
            nf_summary = appname @ [91] @ procID @ [93] @ bytes_of_string '' - '' @ severity, nf_body = Data msg, nf_actions = [],
            nf_urgency = urgency severityCode, nf_category = ProgBaseName @ [46] @ facility @ bytes_of_string ''.alert'',
            nf_popupDuration = of_int (defaultPopupTime div 1000000)\<rparr>)))))"

text \<open>
  The write: the call succeeds or not, and its return value can be read or not. The result is the number of entries and whether there was no error; an
  absent module writes nothing.
\<close>

definition dbus_Write :: "bool \<Rightarrow> int \<Rightarrow> bool \<Rightarrow> bool \<Rightarrow> Payload \<Rightarrow> nat \<times> bool" where
  "dbus_Write present pid called answered msg =
     (if \<not> present then (0, True)
      else (case formatAsNotification pid msg of
              None \<Rightarrow> (0, False)
            | Some n \<Rightarrow> if \<not> called then (0, False) else if \<not> answered then (0, True) else (1, True)))"

definition dbus_NewOutput :: "bool \<Rightarrow> bool \<Rightarrow> bool \<Rightarrow> bool option" where
  "dbus_NewOutput outputEnabled address connOk =
     (if \<not> outputEnabled then Some False else if \<not> address then None else if \<not> connOk then None else Some True)"

section \<open>Beats\<close>

text \<open>The event that is sent; fields of the journal lose their underscore, and of two that then have one name either may be kept.\<close>

record beats_event =
  be_timestamp :: int
  be_message :: bytes
  be_hostname :: bytes
  be_hostid :: int
  be_ip :: netip_addr
  be_pid :: int
  be_logid :: int
  be_syslog :: "(bytes \<times> any) list"

definition beats_fields :: "(bytes \<times> any) list \<Rightarrow> (bytes \<times> any) list" where
  "beats_fields fs = fold (\<lambda>(k, v). AList.update (TrimPrefix k [95]) v) fs []"

definition beats_event_of :: "int \<Rightarrow> Payload \<Rightarrow> beats_event" where
  "beats_event_of pid msg = \<lparr>be_timestamp = Timestamp msg, be_message = Data msg, be_hostname = Hostname msg, be_hostid = HostID msg, be_ip = RemoteIP msg,
     be_pid = pid, be_logid = MsgID msg, be_syslog = beats_fields (CustomFields msg)\<rparr>"

text \<open>
  An attempt sends a number of events, breaks the connection (a closed pipe or a deadline), after which the connection is opened again or not, or fails
  otherwise.
\<close>

datatype send_result = SentEvents nat | SendBroken nat bool | SendFatal nat

fun beats_send :: "nat \<Rightarrow> nat \<Rightarrow> send_result list \<Rightarrow> (nat \<times> bool) option" where
  "beats_send 0 logsSent rs = Some (logsSent, True)"
| "beats_send (Suc n) logsSent [] = None"
| "beats_send (Suc n) logsSent (r # rs) =
     (case r of
        SentEvents k \<Rightarrow> Some (k, True)
      | SendBroken k reconnected \<Rightarrow> if reconnected then beats_send n k rs else Some (k, False)
      | SendFatal k \<Rightarrow> Some (k, False))"

definition beats_Write :: "bool \<Rightarrow> nat \<Rightarrow> send_result list \<Rightarrow> (nat \<times> bool) option" where
  "beats_Write present maxSendRetries rs = (if \<not> present then Some (0, True) else beats_send maxSendRetries 0 rs)"

definition beats_NewOutput :: "bytes \<Rightarrow> bool \<Rightarrow> bool option" where
  "beats_NewOutput endpoint connOk = (if endpoint = [] then Some False else if connOk then Some True else None)"

section \<open>Properties\<close>

text \<open>
  A message becomes a notification exactly when its four fields have the types of a decoded message and its severity is one of the eight names; its urgency
  then follows the severity.
\<close>

theorem notification_iff:
  "(\<exists>n. formatAsNotification pid msg = Some n) \<longleftrightarrow>
    (\<exists>a s f p c. string_field (CustomFields msg) CFappname [45] = Some a \<and> string_field (CustomFields msg) CFseverity DefaultSeverity = Some s \<and>
      string_field (CustomFields msg) CFfacility DefaultFacility = Some f \<and> pid_field (CustomFields msg) pid = Some p \<and> SeverityToCode s = Some c)"
  by (auto simp: formatAsNotification_def split: option.splits)

text \<open>
  The log of the receiver itself never becomes a notification: its messages carry the process identifier as a plain integer, which the output
  does not accept; every such write is an error.
\<close>

theorem own_log_not_notified:
  assumes "loggerToProtocolPayload pid hostname tp event hostID = Some (msg, tp')"
  shows "dbus_Write True pid called answered msg = (0, False)"
proof -
  have "map_of (CustomFields msg) CFprocessid = Some (AnyInt (of_int pid))"
    using assms by (auto simp: loggerToProtocolPayload_def loggerToProtocolMessage_def put_field_def map_of_map_put CFprocessid_def CFfacility_def CFseverity_def
        CFappname_def CFnamespace_def CtxKey_def bytes_of_string_def split: option.splits sum.splits prod.splits)
  then show ?thesis by (auto simp: dbus_Write_def formatAsNotification_def pid_field_def split: option.splits)
qed

text \<open>
  A beats server that breaks the connection at every attempt loses the message silently: the write reports no error and nothing sent. Otherwise an
  attempt that succeeds within the limit is the result.
\<close>

theorem beats_loss_unreported:
  "beats_Write True n (replicate n (SendBroken 0 True)) = Some (0, True)"
proof -
  have "beats_send n 0 (replicate n (SendBroken 0 True)) = Some (0, True)" by (induction n) simp_all
  then show ?thesis by (simp add: beats_Write_def)
qed

theorem beats_retry_sends: "k < n \<Longrightarrow> beats_Write True n (replicate k (SendBroken 0 True) @ SentEvents 1 # rs) = Some (1, True)"
proof -
  have "k < n \<Longrightarrow> beats_send n l (replicate k (SendBroken 0 True) @ SentEvents 1 # rs) = Some (1, True)" for l
  proof (induction k arbitrary: n l)
    case 0
    then show ?case by (cases n) simp_all
  next
    case (Suc k)
    then show ?case by (cases n) simp_all
  qed
  then show "k < n \<Longrightarrow> beats_Write True n (replicate k (SendBroken 0 True) @ SentEvents 1 # rs) = Some (1, True)" by (simp add: beats_Write_def)
qed

end
