(* ===== verification/Spec2Isabelle.thy ===== *)
theory Spec2Isabelle
  imports Proto_Wrapper Filtering MPMC_Concurrent Replay_Cache Shard_Concurrent Receiver_Pipeline FIPR_Routing
    Metric_Server Lifecycle Internal_Log File_Watcher Network Notify_Modules
begin

text \<open>
  \<^bold>\<open>A verification of SDSyslog.\<close>

  SDSyslog ships log messages from senders to receivers over UDP. The input modules of a sender (files, the
  systemd journal, a raw reader, the program's own log) put messages into a lock-free queue; assembler workers
  take them, turn each into one or more encrypted packets (\<^verbatim>\<open>protocol.Create\<close>) and queue these for output
  workers, which write them to a socket. The listeners of a receiver refuse replayed and malformed datagrams and
  queue the others; processor workers decrypt and validate each packet and route the fragment to a shard of this
  process or, during an update, to the process that already holds part of its message; assembler workers put the
  fragments of a finished message together, and the output worker hands it to the output modules (file, journal,
  desktop notification, beats). Both daemons record metrics, answer queries about them over HTTP, decide
  periodically on the number of their workers and the sizes of their queues, and react to signals: shutdown,
  reload of configuration and keys, and replacement of the running program.

  \<^bold>\<open>The theories\<close>, in the order of their dependence. Definitions keep the names of the source, with a prefix
  where two packages use the same name. Paths are relative to \<^verbatim>\<open>src/\<close>.
  \<^item> \<open>Go_Prelude\<close>, \<open>Go_Numeric\<close>, \<open>Go_Text\<close>: what the code uses of the language and its library. Byte strings,
    error values (the list of wrapped sentinels) and panics as a sum type, readers, big-endian integers, the random
    tape and the locale \<open>wire_codec\<close>; \<^verbatim>\<open>float64\<close> and times; trimming, splitting and the parsing of integers.
  \<^item> \<open>Crypto_Registry\<close>, \<open>Crypto_Wrappers\<close>: \<^verbatim>\<open>internal/crypto\<close> and \<^verbatim>\<open>pkg/crypto/registry\<close>. The primitives are a
    record argument and their documented laws hypotheses. The locale \<open>cipher_suite\<close> states what a suite promises
    (what was sealed for a key opens with it); suite 0 interprets it, and suite 1 satisfies it under the laws of
    the primitives.
  \<^item> \<open>Proto_Types\<close>, \<open>Proto_Context\<close>, \<open>Proto_Inner\<close>, \<open>Proto_Payload\<close>, \<open>Proto_Outer\<close>, \<open>Proto_Fragment\<close>,
    \<open>Proto_Wrapper\<close>: the files of \<^verbatim>\<open>pkg/protocol\<close>, one theory each. The sections of the inner payload are
    interpretations of \<open>wire_codec\<close>; the locale \<open>packet_channel\<close> extends \<open>cipher_suite\<close> by the transport payload.
  \<^item> \<open>Filtering\<close>: \<^verbatim>\<open>internal/filtering\<close> and \<^verbatim>\<open>pkg/protocol/filtering.go\<close>.
  \<^item> \<open>Atomics\<close>, \<open>MPMC_Queue\<close>, \<open>MPMC_Concurrent\<close>: \<^verbatim>\<open>internal/atomics\<close> and \<^verbatim>\<open>internal/queue/mpmc\<close>. First each operation
    as it runs undisturbed, with the locale \<open>bounded_fifo\<close> as the specification, interpreted on the ring; then
    Push and Pop with one step per atomic operation, in any interleaving.
  \<^item> \<open>Metric_Types\<close>, \<open>Metric_Registry\<close>, \<open>Metric_Server\<close>: \<^verbatim>\<open>internal/metrics\<close>, the store of metrics in slices of
    time (locale \<open>metric_store\<close>), its queries and aggregations, and the handlers of the server.
  \<^item> \<open>Replay_Cache\<close>: \<^verbatim>\<open>internal/receiver/listener/replayprotection.go\<close> (locale \<open>replay_guard\<close>).
  \<^item> \<open>Shard_Queue\<close>, \<open>Shard_Routing\<close>, \<open>Shard_Concurrent\<close>: \<^verbatim>\<open>internal/receiver/shard\<close>, the buckets of fragments, the
    choice of a shard, and one shard under any interleaving of processors, deadline watcher and assembler.
  \<^item> \<open>FIPR_Session\<close>, \<open>FIPR_Routing\<close>: \<^verbatim>\<open>pkg/fipr\<close>, and its two users \<^verbatim>\<open>shard/fiprsend\<close> and \<^verbatim>\<open>shard/fiprrecv\<close>.
  \<^item> \<open>Receiver_Pipeline\<close>, \<open>Output_Modules\<close>, \<open>Receiver_Output\<close>: the workers of the receiver, one turn of each loop.
  \<^item> \<open>Worker_Pool\<close>, \<open>Receiver_Managers\<close>, \<open>Receiver_Daemon\<close>, \<open>Scaling_Trends\<close>, \<open>Receiver_Scaling\<close>: the managers of
    workers (locale \<open>worker_pool\<close>, interpreted for listeners, processors and the sender's two pools), the start and
    the shutdown of a receiver, and the scaling decisions with the arithmetic behind them.
  \<^item> \<open>File_Input\<close>, \<open>File_Watcher\<close>, \<open>Journal_Module\<close>, \<open>Sender_Ingest\<close>: the input modules
    (\<^verbatim>\<open>internal/iomodules\<close>) and \<^verbatim>\<open>internal/sender/ingest\<close>; the locale \<open>input_module\<close> is what the ingest manager relies
    on, interpreted on the three inputs that count messages.
  \<^item> \<open>Sender_Pipeline\<close>, \<open>Sender_Daemon\<close>: \<^verbatim>\<open>internal/sender\<close>, from the queue of messages to the socket, with its
    configuration, start, scaling, reload and shutdown.
  \<^item> \<open>Internal_Log\<close>: \<^verbatim>\<open>internal/logctx\<close>. \<open>Key_Management\<close>: the files of keys and the reload of pinned keys.
    \<open>Lifecycle\<close>: \<^verbatim>\<open>internal/lifecycle\<close>, the signal handler over both daemons (locale \<open>stopped_for_good\<close>).
    \<open>Network\<close>: \<^verbatim>\<open>internal/network\<close>. \<open>Notify_Modules\<close>: \<^verbatim>\<open>dbusnotify\<close> and \<^verbatim>\<open>beats\<close>.

  State is a record with the fields of the struct it models, and an operation returns the updated record; a turn of
  a worker's loop is one definition, and \<open>inductive\<close> step relations interleave turns or atomic operations.

  \<^bold>\<open>What is shown.\<close>
  \<^item> Protocol: a message survives creation, loss, reordering and extraction up to the placeholder of lost fragments;
    a hostname without a trust marker was signed by the pinned key; the reader of the inner payload accepts exactly
    the wire layout; fragments partition the data and respect the size limits; context values round trip.
  \<^item> Queues and shards: the ring refines a bounded FIFO, keeps exact gauges, survives resizing without loss and
    delivers each value exactly once under every interleaving; a shard delivers only what was offered under its key,
    complete unless its deadline passed; fragments of one message meet in one shard or process.
  \<^item> Receiver: a replay is dropped exactly when its key was seen within the window; the listener never panics and
    admits exactly the sound datagrams; a message sent comes out of the output queue as it was sent, through the
    whole path from the sender's queue. Start reaches the configured minimum of workers, shutdown ends.
  \<^item> Inputs: complete lines of a file become messages in order, a stopped reader resumes where it stopped, an entry
    of the journal becomes one message with its fields, the events of the kernel's buffer are read exactly.
  \<^item> Metrics and filters: a search of the registry is exact for any history, an aggregation is the sum, mean, minimum
    or maximum; a valid filter is its boolean formula.
  \<^item> Operation: including configurations is idempotent and takes nothing away; a key pinned and reloaded is the key
    that verifies; the log writes every event in order but repetitions.
  \<^item> Where the code falls short of its intent, a theorem shows it: a receiver whose metrics never make it scale, a
    shard that can deadlock, a receiver that cannot survive a failed update, a newline that forges a field of the
    journal, a short context section that only the sender refuses, the panic on byte-slice fields, consumers stranded
    by the resize of an empty queue.

  \<^bold>\<open>Bounds and parameters.\<close> Machine integers have their width wherever they can wrap (word types, explicit
  truncation); Go's \<^verbatim>\<open>int\<close> is unbounded except where a shift or a conversion depends on its 64 bits. Randomness is a
  tape of bytes, and a tape that is too short is an error of the reader, so totality theorems assume a long enough
  tape. Time is a number of nanoseconds. The results of the operating system (reads, writes, clocks, files, dials) are
  explicit lists or arguments. There is no fuel: the bounds of retries are the code's own (three rounds of routing,
  twelve attempts to write, five to reopen a rotated file, thirty to dial), other recursions have a
  measure, and a loop that only another thread can end is None in the sequential model or a blocked state of the step
  relation.

  \<^bold>\<open>Not modelled.\<close> Sockets, epoll and descriptors, the loading of eBPF programs, file system operations
  (\<^verbatim>\<open>internal/fsops\<close>), installation (\<^verbatim>\<open>internal/setup\<close>), the command line (\<^verbatim>\<open>internal/cli\<close>), certificates and the build tool
  (\<^verbatim>\<open>cmd/builder\<close>): they call the operating system or print text and decide little. JSON text is a parameter. The glue
  that starts goroutines appears as the set of workers it starts. Zeroing of key material is visible only where the
  slice is returned.
\<close>

end
